(* ===== verification/Prelude.thy ===== *)
theory Prelude
  imports Main "HOL-Library.Word" "HOL-Library.Multiset" "HOL-Library.Signed_Division"
begin

unbundle bit_operations_syntax

text \<open>
  Shared vocabulary of the development: the faults of the C abstract machine as values,
  sequencing of fallible steps, bounds-checked array accesses, guarded shifts, and the
  generic lemmas on lists and words that several components use.

  A fault is never hidden behind an unspecified HOL value: an out-of-range array access,
  a dereferenced NULL, a failed \<open>assert\<close>, a call of \<open>exit\<close> with a failure status, an
  undefined shift or signed overflow, and a kernel panic are constructors of
  \<open>c_fault\<close>, and every operation that can meet one returns \<open>c_fault + 'a\<close>. \<open>Blocked\<close> is not an
  error: it says that the operation would wait for a lock another thread holds, so that its step
  is not enabled in that state. \<open>Diverges\<close> says that the fuel of a loop ran out.
\<close>

datatype c_fault =
    NullDeref
  | OutOfBounds
  | UseAfterFree
  | AssertFail
  | ExitFailure
  | BadShift
  | SignedOverflow
  | Blocked
  | Diverges
  | DivByZero
  | Panic

type_synonym 'a c = "c_fault + 'a"

type_synonym u8 = "8 word"
type_synonym u16 = "16 word"
type_synonym u32 = "32 word"
type_synonym u64 = "64 word"
type_synonym i32 = "32 word"

named_theorems c_defs \<open>definitions the symbolic execution of a step unfolds\<close>

section \<open>Sequencing\<close>

definition bindE :: "'a c \<Rightarrow> ('a \<Rightarrow> 'b c) \<Rightarrow> 'b c" where
  "bindE m f = (case m of Inl e \<Rightarrow> Inl e | Inr x \<Rightarrow> f x)"

definition guardE :: "c_fault \<Rightarrow> bool \<Rightarrow> unit c" where
  "guardE e b = (if b then Inr () else Inl e)"

lemma bindE_simps [simp]:
  "bindE (Inl e) f = Inl e"
  "bindE (Inr x) f = f x"
  by (simp_all add: bindE_def)

lemma bindE_assoc: "bindE (bindE m f) g = bindE m (\<lambda>x. bindE (f x) g)"
  by (cases m) simp_all

lemma bindE_Inr_iff: "bindE m f = Inr y \<longleftrightarrow> (\<exists>x. m = Inr x \<and> f x = Inr y)"
  by (cases m) simp_all

lemma bindE_InrE [elim!]:
  assumes "bindE m f = Inr y"
  obtains x where "m = Inr x" and "f x = Inr y"
  using assms by (auto simp: bindE_Inr_iff)

lemma bindE_Inl_iff: "bindE m f = Inl e \<longleftrightarrow> m = Inl e \<or> (\<exists>x. m = Inr x \<and> f x = Inl e)"
  by (cases m) simp_all

lemma bindE_cong [fundef_cong]:
  "m = m' \<Longrightarrow> (\<And>x. m' = Inr x \<Longrightarrow> f x = g x) \<Longrightarrow> bindE m f = bindE m' g"
  by (cases m') simp_all

lemma guardE_Inr_iff [simp]: "guardE e b = Inr u \<longleftrightarrow> b"
  by (simp add: guardE_def)

lemma guardE_simps [simp]:
  "guardE e True = Inr ()"
  "guardE e False = Inl e"
  by (simp_all add: guardE_def)

lemma guardE_true: "b \<Longrightarrow> guardE e b = Inr ()"
  by (simp add: guardE_def)

section \<open>Arrays\<close>

text \<open>
  A C array of known length is a list. \<open>rd\<close> and \<open>wr\<close> are the checked element read and
  write; the code has no such check, so a result \<open>Inl OutOfBounds\<close> is undefined behaviour
  of the program.
\<close>

definition rd :: "'a list \<Rightarrow> nat \<Rightarrow> 'a c" where
  "rd xs i = (if i < length xs then Inr (xs ! i) else Inl OutOfBounds)"

definition wr :: "'a list \<Rightarrow> nat \<Rightarrow> 'a \<Rightarrow> 'a list c" where
  "wr xs i v = (if i < length xs then Inr (xs[i := v]) else Inl OutOfBounds)"

lemma rd_Inr_iff: "rd xs i = Inr x \<longleftrightarrow> i < length xs \<and> x = xs ! i"
  by (auto simp: rd_def)

lemma wr_Inr_iff: "wr xs i v = Inr ys \<longleftrightarrow> i < length xs \<and> ys = xs[i := v]"
  by (auto simp: wr_def)

lemma rd_in_range [simp]: "i < length xs \<Longrightarrow> rd xs i = Inr (xs ! i)"
  by (simp add: rd_def)

lemma wr_in_range [simp]: "i < length xs \<Longrightarrow> wr xs i v = Inr (xs[i := v])"
  by (simp add: wr_def)

lemma rd_out_of_range: "length xs \<le> i \<Longrightarrow> rd xs i = Inl OutOfBounds"
  by (simp add: rd_def)

lemma deref_Inr_iff:
  "(case p of None \<Rightarrow> Inl e | Some x \<Rightarrow> f x) = Inr y \<longleftrightarrow> (\<exists>x. p = Some x \<and> f x = Inr y)"
  by (cases p) simp_all

text \<open>A pointer that may be NULL is an option; \<open>deref\<close> is its checked dereference.\<close>

definition deref :: "'a option \<Rightarrow> 'a c" where
  "deref p = (case p of None \<Rightarrow> Inl NullDeref | Some x \<Rightarrow> Inr x)"

lemma deref_simps [simp]: "deref None = Inl NullDeref" "deref (Some x) = Inr x"
  by (simp_all add: deref_def)

lemma deref_iff: "deref p = Inr x \<longleftrightarrow> p = Some x"
  by (cases p) simp_all

section \<open>Integers\<close>

text \<open>
  \<open>int\<close> values of the code are HOL integers where the surrounding code keeps them in range,
  and a shift is defined only for a shift count below the width and, on \<open>int\<close>, only where the
  result is representable.
\<close>

definition in_i32 :: "int \<Rightarrow> bool" where
  "in_i32 x \<longleftrightarrow> - (2 ^ 31) \<le> x \<and> x < 2 ^ 31"

definition in_i64 :: "int \<Rightarrow> bool" where
  "in_i64 x \<longleftrightarrow> - (2 ^ 63) \<le> x \<and> x < 2 ^ 63"

text \<open>The conversion of a wider integer to \<open>int\<close>: the low 32 bits, read as signed.\<close>

definition to_i32 :: "int \<Rightarrow> int" where
  "to_i32 x = (x + 2 ^ 31) mod 2 ^ 32 - 2 ^ 31"

lemma to_i32_id: "in_i32 x \<Longrightarrow> to_i32 x = x"
  by (simp add: to_i32_def in_i32_def)

lemma to_i32_range: "in_i32 (to_i32 x)"
  using pos_mod_bound [of "2 ^ 32" "x + 2 ^ 31"] pos_mod_sign [of "2 ^ 32" "x + 2 ^ 31"]
  by (simp add: to_i32_def in_i32_def)

definition one_shl_int :: "int \<Rightarrow> int c" where
  "one_shl_int k = (if 0 \<le> k \<and> k < 31 then Inr (2 ^ nat k) else Inl BadShift)"

definition shl64 :: "u64 \<Rightarrow> int \<Rightarrow> u64 c" where
  "shl64 w k = (if 0 \<le> k \<and> k < 64 then Inr (push_bit (nat k) w) else Inl BadShift)"

definition shr64 :: "u64 \<Rightarrow> int \<Rightarrow> u64 c" where
  "shr64 w k = (if 0 \<le> k \<and> k < 64 then Inr (drop_bit (nat k) w) else Inl BadShift)"

lemma one_shl_int_ok: "0 \<le> k \<Longrightarrow> k < 31 \<Longrightarrow> one_shl_int k = Inr (2 ^ nat k)"
  by (simp add: one_shl_int_def)

lemma shl64_ok: "0 \<le> k \<Longrightarrow> k < 64 \<Longrightarrow> shl64 w k = Inr (push_bit (nat k) w)"
  by (simp add: shl64_def)

lemma shr64_ok: "0 \<le> k \<Longrightarrow> k < 64 \<Longrightarrow> shr64 w k = Inr (drop_bit (nat k) w)"
  by (simp add: shr64_def)

lemma unat_drop_bit_word: "unat (drop_bit n (w :: 'a :: len word)) = unat w div 2 ^ n"
  unfolding unat_drop_bit_eq by (rule drop_bit_eq_div)

lemma unat_Suc_word: "w \<noteq> - 1 \<Longrightarrow> unat (w + 1 :: 'a :: len word) = Suc (unat w)"
  by (metis add.commute add_eq_0_iff2 unatSuc)

lemma sint_small: "p < 2 ^ 31 \<Longrightarrow> sint (of_nat p :: i32) = int p"
proof -
  assume p: "p < 2 ^ 31"
  have "sint (of_nat p :: i32) = signed_take_bit 31 (int p)" by (simp add: signed_of_nat)
  also have "\<dots> = int p" using p by (intro signed_take_bit_int_eq_self) simp_all
  finally show ?thesis .
qed

lemma unat_small: "p < 2 ^ 32 \<Longrightarrow> unat (of_nat p :: u32) = p"
  by (simp add: unsigned_of_nat take_bit_nat_eq_self)

section \<open>Lists\<close>

lemma mset_update_conv:
  "i < length xs \<Longrightarrow> mset (xs[i := x]) = add_mset x (mset xs - {# xs ! i #})"
  by (simp add: mset_update)

lemma map_list_update_same:
  "i < length xs \<Longrightarrow> f x = f (xs ! i) \<Longrightarrow> map f (xs[i := x]) = map f xs"
  by (metis list_update_id map_update)

lemma find_split:
  "List.find P xs = Some x \<longleftrightarrow> (\<exists>ys zs. xs = ys @ x # zs \<and> P x \<and> (\<forall>y \<in> set ys. \<not> P y))"
proof (induction xs)
  case Nil
  then show ?case by simp
next
  case (Cons a xs)
  show ?case
  proof (cases "P a")
    case True
    then show ?thesis
      by (auto simp: Cons_eq_append_conv)
  next
    case False
    then show ?thesis
      using Cons.IH by (auto simp: Cons_eq_append_conv) (metis set_ConsD)
  qed
qed

lemma find_none_iff: "List.find P xs = None \<longleftrightarrow> (\<forall>x \<in> set xs. \<not> P x)"
  by (auto simp: find_None_iff)

end
