(* ===== verification/Interfaces.thy ===== *)
theory Interfaces
  imports Prelude
begin

text \<open>
  The interfaces several components share, as locales. Each is interpreted on the operations
  of the components that provide it.

  \<^item> \<open>guarded_machine\<close>: a deterministic step that may fault, with an invariant under which it
    does not; its client lemmas say that whole runs return and keep the invariant.
  \<^item> \<open>fifo\<close>: a queue with an abstraction to lists; its client lemmas say that elements leave in
    the order they came and that none is lost or duplicated.
  \<^item> \<open>block_allocator\<close>: an allocator over a finite pool with a set of free items; its client
    lemmas say that a run of allocations hands out distinct items and that the pool is
    conserved.
\<close>

section \<open>Steps that keep an invariant\<close>

locale guarded_machine =
  fixes step :: "'op \<Rightarrow> 's \<Rightarrow> 's c"
    and inv :: "'s \<Rightarrow> bool"
    and allowed :: "'op \<Rightarrow> 's \<Rightarrow> bool"
  assumes step_ok: "inv s \<Longrightarrow> allowed x s \<Longrightarrow> \<exists>s'. step x s = Inr s' \<and> inv s'"
begin

fun run :: "'op list \<Rightarrow> 's \<Rightarrow> 's c" where
  "run [] s = Inr s"
| "run (x # xs) s = bindE (step x s) (run xs)"

fun all_allowed :: "'op list \<Rightarrow> 's \<Rightarrow> bool" where
  "all_allowed [] s = True"
| "all_allowed (x # xs) s =
     (allowed x s \<and> (case step x s of Inl e \<Rightarrow> False | Inr s' \<Rightarrow> all_allowed xs s'))"

lemma run_ok: "inv s \<Longrightarrow> all_allowed xs s \<Longrightarrow> \<exists>s'. run xs s = Inr s' \<and> inv s'"
proof (induction xs arbitrary: s)
  case Nil
  then show ?case by simp
next
  case (Cons x xs)
  from Cons.prems step_ok obtain s' where s': "step x s = Inr s'" "inv s'" by auto
  with Cons.prems have "all_allowed xs s'" by simp
  with s' Cons.IH show ?case by simp
qed

lemma run_append: "run (xs @ ys) s = bindE (run xs s) (run ys)"
proof (induction xs arbitrary: s)
  case (Cons x xs)
  then show ?case by (cases "step x s") simp_all
qed simp

end

section \<open>FIFO queues\<close>

locale fifo =
  fixes enq :: "'a \<Rightarrow> 'q \<Rightarrow> 'q"
    and deq :: "'q \<Rightarrow> ('a \<times> 'q) option"
    and abs :: "'q \<Rightarrow> 'a list"
    and inv :: "'q \<Rightarrow> bool"
    and can :: "'a \<Rightarrow> 'q \<Rightarrow> bool"
  assumes enq_inv: "inv q \<Longrightarrow> can x q \<Longrightarrow> inv (enq x q)"
    and enq_abs: "inv q \<Longrightarrow> can x q \<Longrightarrow> abs (enq x q) = abs q @ [x]"
    and deq_empty: "inv q \<Longrightarrow> deq q = None \<longleftrightarrow> abs q = []"
    and deq_some: "inv q \<Longrightarrow> deq q = Some (x, q') \<Longrightarrow> inv q' \<and> abs q = x # abs q'"
begin

fun drain :: "nat \<Rightarrow> 'q \<Rightarrow> 'a list \<times> 'q" where
  "drain 0 q = ([], q)"
| "drain (Suc n) q =
     (case deq q of None \<Rightarrow> ([], q)
      | Some (x, q') \<Rightarrow> (case drain n q' of (xs, q'') \<Rightarrow> (x # xs, q'')))"

lemma drain_abs:
  "inv q \<Longrightarrow> drain n q = (xs, q') \<Longrightarrow> inv q' \<and> xs = take n (abs q) \<and> abs q' = drop n (abs q)"
proof (induction n arbitrary: q xs q')
  case 0
  then show ?case by simp
next
  case (Suc n)
  show ?case
  proof (cases "deq q")
    case None
    with Suc.prems deq_empty show ?thesis by auto
  next
    case (Some p)
    obtain x r where p: "p = (x, r)" by (cases p)
    obtain ys r' where r: "drain n r = (ys, r')" by (cases "drain n r")
    from Some p Suc.prems deq_some have "inv r" "abs q = x # abs r" by auto
    with Suc.IH [OF _ r] Some p r Suc.prems show ?thesis by auto
  qed
qed

lemma drain_all:
  assumes "inv q" and "length (abs q) \<le> n"
  shows "fst (drain n q) = abs q" and "abs (snd (drain n q)) = []"
  using assms drain_abs [of q n "fst (drain n q)" "snd (drain n q)"] by simp_all

lemma enq_deq_order:
  assumes "inv q" and "can x q" and "deq (enq x q) = Some (y, q')"
  shows "y = hd (abs q @ [x])" and "abs q' = tl (abs q @ [x])"
  using assms enq_inv enq_abs deq_some [of "enq x q" y q'] by simp_all

lemma deq_mset:
  assumes "inv q" and "deq q = Some (x, q')"
  shows "mset (abs q) = add_mset x (mset (abs q'))"
  using assms deq_some by simp

end

section \<open>Allocators\<close>

locale block_allocator =
  fixes alloc :: "'s \<Rightarrow> ('b \<times> 's) option"
    and free :: "'b \<Rightarrow> 's \<Rightarrow> 's"
    and avail :: "'s \<Rightarrow> 'b set"
    and inv :: "'s \<Rightarrow> bool"
    and releasable :: "'b \<Rightarrow> 's \<Rightarrow> bool"
  assumes alloc_none: "inv s \<Longrightarrow> alloc s = None \<longleftrightarrow> avail s = {}"
    and alloc_some: "inv s \<Longrightarrow> alloc s = Some (b, s') \<Longrightarrow>
      inv s' \<and> b \<in> avail s \<and> avail s' = avail s - {b}"
    and free_ok: "inv s \<Longrightarrow> releasable b s \<Longrightarrow>
      inv (free b s) \<and> avail (free b s) = insert b (avail s)"
begin

fun alloc_many :: "nat \<Rightarrow> 's \<Rightarrow> 'b list \<times> 's" where
  "alloc_many 0 s = ([], s)"
| "alloc_many (Suc n) s =
     (case alloc s of None \<Rightarrow> ([], s)
      | Some (b, s') \<Rightarrow> (case alloc_many n s' of (bs, s'') \<Rightarrow> (b # bs, s'')))"

lemma alloc_many_ok:
  "inv s \<Longrightarrow> alloc_many n s = (bs, s') \<Longrightarrow>
     inv s' \<and> distinct bs \<and> set bs \<subseteq> avail s \<and> avail s' = avail s - set bs"
proof (induction n arbitrary: s bs s')
  case 0
  then show ?case by simp
next
  case (Suc n)
  show ?case
  proof (cases "alloc s")
    case None
    with Suc.prems show ?thesis by simp
  next
    case (Some p)
    obtain b r where p: "p = (b, r)" by (cases p)
    obtain cs r' where r: "alloc_many n r = (cs, r')" by (cases "alloc_many n r")
    from Some p Suc.prems alloc_some
    have *: "inv r" "b \<in> avail s" "avail r = avail s - {b}" by auto
    from Suc.IH [OF *(1) r]
    have IH: "inv r'" "distinct cs" "set cs \<subseteq> avail r" "avail r' = avail r - set cs" by simp_all
    have eq: "bs = b # cs" "s' = r'" using Suc.prems(2) Some p r by simp_all
    have "b \<notin> set cs" using IH(3) *(3) by blast
    moreover have "set (b # cs) \<subseteq> avail s" using IH(3) *(2,3) by auto
    moreover have "avail r' = avail s - set (b # cs)" using IH(4) *(3) by auto
    ultimately show ?thesis using IH(1,2) by (simp add: eq)
  qed
qed

lemma alloc_free_avail:
  assumes "inv s" and "alloc s = Some (b, s')" and "releasable b s'"
  shows "avail (free b s') = avail s"
proof -
  have s': "inv s'" "b \<in> avail s" "avail s' = avail s - {b}"
    using alloc_some [OF assms(1,2)] by simp_all
  then have "avail (free b s') = insert b (avail s')"
    using free_ok [OF s'(1) assms(3)] by simp
  with s' show ?thesis by auto
qed

lemma alloc_progress: "inv s \<Longrightarrow> avail s \<noteq> {} \<Longrightarrow> \<exists>b s'. alloc s = Some (b, s')"
  using alloc_none by fastforce

end

end
