(* ===== verification/CacheSim.thy ===== *)
theory CacheSim
  imports Interfaces
begin

text \<open>
  The set-associative write-back cache simulator of \<open>cs_2200/caching/prj5\<close>: \<open>cachesim.h\<close> and
  \<open>cachesim.c\<close>. The globals of \<open>cachesim.c\<close> and the static variable of \<open>clock_time\<close> are the
  fields of one record, threaded through the operations; a \<open>cache_block_t*\<close> into a line is
  the index of the block. \<open>calloc\<close> may fail: its outcome for the k-th call of \<open>cache_init\<close> is
  the argument \<open>ok k\<close>.
\<close>

section \<open>State\<close>

record cache_block =
  timestamp :: u64
  valid :: bool
  dirty :: bool
  tag :: u64

record cache_stats =
  accesses :: u64
  reads :: u64
  read_misses :: u64
  writes :: u64
  write_misses :: u64
  misses :: u64
  write_backs :: u64
  access_time :: u64
  miss_penalty :: u64

text \<open>The access kind is the character of the trace line; only \<open>READ\<close> and \<open>WRITE\<close> are named.\<close>

definition READ :: char where "READ = CHR ''r''"
definition WRITE :: char where "WRITE = CHR ''w''"

text \<open>A line whose \<open>blocks\<close> pointer is NULL is \<open>None\<close>; so is \<open>cache\<close> before allocation.\<close>

type_synonym cache_line = "cache_block list option"

record cache_sim =
  cache :: "cache_line list option"
  num_lines :: u64
  num_blocks_per_line :: u64
  offset_size :: int
  index_size :: int
  tag_size :: int
  now :: u64

definition zero_block :: cache_block where
  "zero_block = \<lparr>timestamp = 0, valid = False, dirty = False, tag = 0\<rparr>"

section \<open>Operations\<close>

definition clock_time :: "cache_sim \<Rightarrow> u64 \<times> cache_sim" where
  "clock_time s = (now s, s\<lparr>now := now s + 1\<rparr>)"

definition get_tag :: "cache_sim \<Rightarrow> u64 \<Rightarrow> u64 c" where
  "get_tag s addr = shr64 addr (index_size s + offset_size s)"

definition get_index :: "cache_sim \<Rightarrow> u64 \<Rightarrow> u64 c" where
  "get_index s addr =
     (if tag_size s = 64 then Inr 0
      else bindE (shl64 addr (tag_size s)) (\<lambda>a.
           bindE (shr64 a (tag_size s)) (\<lambda>b. shr64 b (offset_size s))))"

text \<open>\<open>load_into_block\<close> overwrites the block it is given and takes a time stamp.\<close>

definition load_into_block :: "u64 \<Rightarrow> bool \<Rightarrow> cache_sim \<Rightarrow> (cache_block \<times> cache_sim) c" where
  "load_into_block addr write s = bindE (get_tag s addr) (\<lambda>t.
     case clock_time s of (n, s') \<Rightarrow>
       Inr (\<lparr>timestamp = n, valid = True, dirty = write, tag = t\<rparr>, s'))"

text \<open>The three searches: \<open>i\<close> is the loop variable, the last argument the iterations left.\<close>

fun get_hit_block :: "cache_sim \<Rightarrow> cache_block list \<Rightarrow> u64 \<Rightarrow> nat \<Rightarrow> nat \<Rightarrow> nat option c" where
  "get_hit_block s bs addr i 0 = Inr None"
| "get_hit_block s bs addr i (Suc k) = bindE (rd bs i) (\<lambda>b.
     if valid b
     then bindE (get_tag s addr) (\<lambda>t.
       if tag b = t then Inr (Some i) else get_hit_block s bs addr (Suc i) k)
     else get_hit_block s bs addr (Suc i) k)"

fun get_empty_block :: "cache_block list \<Rightarrow> nat \<Rightarrow> nat \<Rightarrow> nat option c" where
  "get_empty_block bs i 0 = Inr None"
| "get_empty_block bs i (Suc k) = bindE (rd bs i) (\<lambda>b.
     if \<not> valid b then Inr (Some i) else get_empty_block bs (Suc i) k)"

fun lru_loop :: "cache_block list \<Rightarrow> nat \<Rightarrow> u64 \<Rightarrow> nat \<Rightarrow> nat \<Rightarrow> nat c" where
  "lru_loop bs best min_time i 0 = Inr best"
| "lru_loop bs best min_time i (Suc k) = bindE (rd bs i) (\<lambda>b.
     if timestamp b < min_time then lru_loop bs i (timestamp b) (Suc i) k
     else lru_loop bs best min_time (Suc i) k)"

definition get_lru_block :: "cache_block list \<Rightarrow> nat \<Rightarrow> nat c" where
  "get_lru_block bs n = bindE (rd bs 0) (\<lambda>b. lru_loop bs 0 (timestamp b) 1 (n - 1))"

text \<open>
  \<open>cache_init\<close>: the three sizes are C \<open>int\<close>s computed from \<open>uint64_t\<close> arguments, so the
  unsigned expression wraps and is then truncated to 32 signed bits.
\<close>

definition to_int :: "u64 \<Rightarrow> int" where
  "to_int w = sint (ucast w :: i32)"

definition cache_init :: "(nat \<Rightarrow> bool) \<Rightarrow> u64 \<Rightarrow> u64 \<Rightarrow> u64 \<Rightarrow> cache_sim \<Rightarrow> cache_sim c" where
  "cache_init ok C S B s =
     (let osz = to_int B;
          isz = to_int (C - B - S);
          tsz = 64 - isz - osz
      in bindE (one_shl_int isz) (\<lambda>nl.
         bindE (one_shl_int (to_int S)) (\<lambda>nb.
         let s1 = s\<lparr>offset_size := osz, index_size := isz, tag_size := tsz,
                    num_lines := of_int nl, num_blocks_per_line := of_int nb\<rparr>;
             n = nat nl
         in if \<not> ok 0 then Inr (s1\<lparr>cache := None\<rparr>)
            else Inr (s1\<lparr>cache := Some (map (\<lambda>i.
                   if \<forall>j \<in> set [0..<Suc i]. ok (Suc j)
                   then Some (replicate (nat nb) zero_block) else None) [0..<n])\<rparr>))))"

definition count_access :: "char \<Rightarrow> cache_stats \<Rightarrow> cache_stats" where
  "count_access rw st =
     (let st = st\<lparr>accesses := accesses st + 1\<rparr>
      in if rw = READ then st\<lparr>reads := reads st + 1\<rparr> else st\<lparr>writes := writes st + 1\<rparr>)"

definition count_miss :: "char \<Rightarrow> cache_stats \<Rightarrow> cache_stats" where
  "count_miss rw st =
     (let st = st\<lparr>misses := misses st + 1\<rparr>
      in if rw = READ then st\<lparr>read_misses := read_misses st + 1\<rparr>
         else st\<lparr>write_misses := write_misses st + 1\<rparr>)"

text \<open>The miss path on one line: an empty block first, else the least recently used one.\<close>

definition choose_block :: "cache_block list \<Rightarrow> nat \<Rightarrow> cache_stats \<Rightarrow> (nat \<times> cache_stats) c" where
  "choose_block bs n st = bindE (get_empty_block bs 0 n) (\<lambda>e.
     case e of Some i \<Rightarrow> Inr (i, st)
     | None \<Rightarrow> bindE (get_lru_block bs n) (\<lambda>i. bindE (rd bs i) (\<lambda>b.
         Inr (i, if dirty b then st\<lparr>write_backs := write_backs st + 1\<rparr> else st))))"

definition access_line ::
  "char \<Rightarrow> u64 \<Rightarrow> cache_block list \<Rightarrow> cache_sim \<Rightarrow> cache_stats
     \<Rightarrow> (cache_block list \<times> cache_sim \<times> cache_stats) c" where
  "access_line rw addr bs s st =
     (let n = unat (num_blocks_per_line s)
      in bindE (get_hit_block s bs addr 0 n) (\<lambda>h.
         case h of
           Some i \<Rightarrow> bindE (rd bs i) (\<lambda>b.
             case clock_time s of (t, s') \<Rightarrow>
               bindE (wr bs i (b\<lparr>dirty := (dirty b \<or> rw = WRITE), timestamp := t\<rparr>)) (\<lambda>bs'.
               Inr (bs', s', st)))
         | None \<Rightarrow> bindE (choose_block bs n (count_miss rw st)) (\<lambda>(i, st').
             bindE (load_into_block addr (rw = WRITE) s) (\<lambda>(b, s').
             bindE (wr bs i b) (\<lambda>bs'. Inr (bs', s', st'))))))"

definition cache_access ::
  "char \<Rightarrow> u64 \<Rightarrow> cache_sim \<times> cache_stats \<Rightarrow> (cache_sim \<times> cache_stats) c" where
  "cache_access rw addr = (\<lambda>(s, st).
     bindE (get_index s addr) (\<lambda>ix.
     bindE (deref (cache s)) (\<lambda>ls.
     bindE (rd ls (unat ix)) (\<lambda>l.
     bindE (deref l) (\<lambda>bs.
     bindE (access_line rw addr bs s (count_access rw st)) (\<lambda>(bs', s', st').
     Inr (s'\<lparr>cache := Some (ls[unat ix := Some bs'])\<rparr>, st')))))))"

text \<open>
  The driver's loop (\<open>cachesim_driver.c\<close>) over the parsed trace: it starts from zeroed
  statistics with a penalty of 100 and an access time of 2.
\<close>

definition driver_stats :: cache_stats where
  "driver_stats = \<lparr>accesses = 0, reads = 0, read_misses = 0, writes = 0, write_misses = 0,
     misses = 0, write_backs = 0, access_time = 2, miss_penalty = 100\<rparr>"

fun run_trace :: "(char \<times> u64) list \<Rightarrow> cache_sim \<times> cache_stats \<Rightarrow> (cache_sim \<times> cache_stats) c" where
  "run_trace [] x = Inr x"
| "run_trace ((rw, addr) # tr) x = bindE (cache_access rw addr x) (run_trace tr)"

text \<open>
  \<open>cache_cleanup\<close> and \<open>calc_emat\<close>. Floating-point arithmetic is the parameter \<open>fp\<close>: the
  conversion from \<open>uint64_t\<close> to \<open>double\<close> and the three operations the code applies. The
  result is the pair of the \<open>miss_rate\<close> and \<open>avg_access_time\<close> fields; the lines are freed.
\<close>

record 'd fp =
  of_u64 :: "u64 \<Rightarrow> 'd"
  fp_add :: "'d \<Rightarrow> 'd \<Rightarrow> 'd"
  fp_mul :: "'d \<Rightarrow> 'd \<Rightarrow> 'd"
  fp_div :: "'d \<Rightarrow> 'd \<Rightarrow> 'd"

definition calc_emat :: "'d fp \<Rightarrow> cache_stats \<Rightarrow> 'd \<Rightarrow> 'd" where
  "calc_emat fp st miss_rate =
     (let hit_time = of_u64 fp (access_time st); penalty = of_u64 fp (miss_penalty st)
      in fp_add fp hit_time (fp_mul fp miss_rate penalty))"

definition cache_cleanup ::
  "'d fp \<Rightarrow> cache_sim \<times> cache_stats \<Rightarrow> (cache_sim \<times> 'd \<times> 'd) c" where
  "cache_cleanup fp = (\<lambda>(s, st). bindE (deref (cache s)) (\<lambda>ls.
     let miss_rate = fp_div fp (of_u64 fp (misses st)) (of_u64 fp (accesses st))
     in Inr (s\<lparr>cache := None\<rparr>, miss_rate, calc_emat fp st miss_rate)))"

definition boot_sim :: cache_sim where
  "boot_sim = \<lparr>cache = None, num_lines = 0, num_blocks_per_line = 0, offset_size = 0,
     index_size = 0, tag_size = 0, now = 0\<rparr>"

text \<open>
  \<open>calculate_cache_size\<close> of \<open>modified_driver.c\<close>: data plus metadata (one dirty bit, one valid
  bit and the tag per block), in bytes. The products are C \<open>int\<close> and then \<open>uint64_t\<close>.
\<close>

definition calculate_cache_size :: "int \<Rightarrow> int \<Rightarrow> int \<Rightarrow> int c" where
  "calculate_cache_size c b s =
     (let isz = c - b - s; tsz = 64 - isz - b
      in bindE (one_shl_int isz) (\<lambda>nl.
         bindE (one_shl_int s) (\<lambda>nb.
         bindE (guardE SignedOverflow (in_i32 ((2 + tsz) * nb))) (\<lambda>_.
         let per_line = ((2 + tsz) * nb) mod 2 ^ 64;
             bits = (nl * per_line) mod 2 ^ 64;
             bytes = (if bits mod 8 = 0 then bits div 8 else bits div 8 + 1)
         in bindE (one_shl_int c) (\<lambda>mem. Inr ((mem + bytes) mod 2 ^ 64))))))"

end
