(* ===== verification/CacheSimProofs.thy ===== *)
theory CacheSimProofs
  imports CacheSim
begin

text \<open>
  Correctness of the cache simulator. A line refines a list of (tag, dirty) pairs, most
  recently used first (\<open>lru_step\<close>): the time stamps of the code are one representation of that
  order. The whole cache refines a function from line numbers to such lists, and a trace of
  accesses refines the run of the abstract cache, statistics included.
\<close>

section \<open>The abstract cache\<close>

type_synonym lru_line = "(u64 \<times> bool) list"

definition lru_step :: "nat \<Rightarrow> bool \<Rightarrow> u64 \<Rightarrow> lru_line \<Rightarrow> lru_line" where
  "lru_step cap w t es =
     (case map_of es t of
        Some d \<Rightarrow> (t, d \<or> w) # filter (\<lambda>e. fst e \<noteq> t) es
      | None \<Rightarrow> (t, w) # (if length es < cap then es else butlast es))"

definition lru_miss :: "u64 \<Rightarrow> lru_line \<Rightarrow> bool" where
  "lru_miss t es \<longleftrightarrow> map_of es t = None"

definition lru_write_back :: "nat \<Rightarrow> u64 \<Rightarrow> lru_line \<Rightarrow> bool" where
  "lru_write_back cap t es \<longleftrightarrow> lru_miss t es \<and> \<not> length es < cap \<and> snd (last es)"

definition lru_stats :: "nat \<Rightarrow> char \<Rightarrow> u64 \<Rightarrow> lru_line \<Rightarrow> cache_stats \<Rightarrow> cache_stats" where
  "lru_stats cap rw t es st =
     (let st1 = count_access rw st;
          st2 = (if lru_miss t es then count_miss rw st1 else st1)
      in if lru_write_back cap t es then st2\<lparr>write_backs := write_backs st2 + 1\<rparr> else st2)"

section \<open>The searches of a line\<close>

lemma get_hit_block_spec:
  assumes "get_tag s addr = Inr t" and "i + k = length bs"
  shows "\<exists>r. get_hit_block s bs addr i k = Inr r \<and>
     (case r of None \<Rightarrow> \<forall>j. i \<le> j \<and> j < length bs \<longrightarrow> \<not> (valid (bs ! j) \<and> tag (bs ! j) = t)
      | Some j \<Rightarrow> j < length bs \<and> valid (bs ! j) \<and> tag (bs ! j) = t)"
  using assms(2)
proof (induction k arbitrary: i)
  case 0
  then show ?case by auto
next
  case (Suc k)
  from Suc.prems have i: "i < length bs" by simp
  from Suc.IH [of "Suc i"] Suc.prems obtain r where
    r: "get_hit_block s bs addr (Suc i) k = Inr r"
    and rs: "case r of None \<Rightarrow> \<forall>j. Suc i \<le> j \<and> j < length bs \<longrightarrow> \<not> (valid (bs ! j) \<and> tag (bs ! j) = t)
      | Some j \<Rightarrow> j < length bs \<and> valid (bs ! j) \<and> tag (bs ! j) = t" by auto
  show ?case
  proof (cases "valid (bs ! i) \<and> tag (bs ! i) = t")
    case True
    with i assms(1) show ?thesis by simp
  next
    case False
    with r i assms(1) have "get_hit_block s bs addr i (Suc k) = Inr r" by auto
    moreover from rs False
    have "case r of None \<Rightarrow> \<forall>j. i \<le> j \<and> j < length bs \<longrightarrow> \<not> (valid (bs ! j) \<and> tag (bs ! j) = t)
      | Some j \<Rightarrow> j < length bs \<and> valid (bs ! j) \<and> tag (bs ! j) = t"
      by (auto split: option.splits) (metis le_eq_less_or_eq Suc_leI)+
    ultimately show ?thesis by blast
  qed
qed

lemma get_empty_block_spec:
  assumes "i + k = length bs"
  shows "\<exists>r. get_empty_block bs i k = Inr r \<and>
     (case r of None \<Rightarrow> \<forall>j. i \<le> j \<and> j < length bs \<longrightarrow> valid (bs ! j)
      | Some j \<Rightarrow> j < length bs \<and> \<not> valid (bs ! j))"
  using assms
proof (induction k arbitrary: i)
  case 0
  then show ?case by auto
next
  case (Suc k)
  from Suc.prems have i: "i < length bs" by simp
  from Suc.IH [of "Suc i"] Suc.prems obtain r where
    r: "get_empty_block bs (Suc i) k = Inr r"
    and rs: "case r of None \<Rightarrow> \<forall>j. Suc i \<le> j \<and> j < length bs \<longrightarrow> valid (bs ! j)
      | Some j \<Rightarrow> j < length bs \<and> \<not> valid (bs ! j)" by auto
  show ?case
  proof (cases "valid (bs ! i)")
    case True
    with r i have "get_empty_block bs i (Suc k) = Inr r" by simp
    moreover from rs True have "case r of None \<Rightarrow> \<forall>j. i \<le> j \<and> j < length bs \<longrightarrow> valid (bs ! j)
      | Some j \<Rightarrow> j < length bs \<and> \<not> valid (bs ! j)"
      by (auto split: option.splits) (metis le_eq_less_or_eq Suc_leI)+
    ultimately show ?thesis by blast
  next
    case False
    with i show ?thesis by simp
  qed
qed

lemma lru_loop_spec:
  assumes "i + k = length bs" and "best < length bs" and "m = timestamp (bs ! best)"
    and "\<forall>j < i. m \<le> timestamp (bs ! j)"
  shows "\<exists>r. lru_loop bs best m i k = Inr r \<and> r < length bs \<and>
     (\<forall>j < length bs. timestamp (bs ! r) \<le> timestamp (bs ! j))"
  using assms
proof (induction k arbitrary: i best m)
  case 0
  then show ?case by auto
next
  case (Suc k)
  then have i: "i < length bs" by simp
  show ?case
  proof (cases "timestamp (bs ! i) < m")
    case True
    have "\<forall>j < Suc i. timestamp (bs ! i) \<le> timestamp (bs ! j)"
      using Suc.prems(4) True by (auto simp: less_Suc_eq)
    with Suc.IH [of "Suc i" i "timestamp (bs ! i)"] Suc.prems i True show ?thesis by auto
  next
    case False
    then have "\<forall>j < Suc i. m \<le> timestamp (bs ! j)"
      using Suc.prems(4) by (auto simp: less_Suc_eq)
    with Suc.IH [of "Suc i" best m] Suc.prems i False show ?thesis by auto
  qed
qed

lemma get_lru_block_spec:
  assumes "0 < length bs"
  shows "\<exists>r. get_lru_block bs (length bs) = Inr r \<and> r < length bs \<and>
     (\<forall>j < length bs. timestamp (bs ! r) \<le> timestamp (bs ! j))"
  using assms lru_loop_spec [of 1 "length bs - 1" bs 0 "timestamp (bs ! 0)"]
  by (auto simp: get_lru_block_def)

section \<open>A line refines an LRU list\<close>

definition line_rel :: "u64 \<Rightarrow> cache_block list \<Rightarrow> cache_block list \<Rightarrow> bool" where
  "line_rel t bs xs \<longleftrightarrow> mset xs = filter_mset valid (mset bs) \<and> distinct (map tag xs) \<and>
     sorted_wrt (\<lambda>b c. timestamp c < timestamp b) xs \<and> (\<forall>b \<in> set xs. timestamp b < t)"

abbreviation entry :: "cache_block \<Rightarrow> u64 \<times> bool" where
  "entry b \<equiv> (tag b, dirty b)"

lemma filter_key_remove:
  "distinct (map f xs) \<Longrightarrow> x \<in> set xs \<Longrightarrow>
     mset (filter (\<lambda>c. f c \<noteq> f x) xs) = mset xs - {# x #}"
proof (induction xs)
  case Nil
  then show ?case by simp
next
  case (Cons a xs)
  show ?case
  proof (cases "x = a")
    case True
    with Cons.prems(1) have "\<forall>c \<in> set xs. f c \<noteq> f x"
      by (metis distinct.simps(2) image_eqI list.set_map list.simps(9))
    then have "filter (\<lambda>c. f c \<noteq> f x) xs = xs" by simp
    with True show ?thesis by simp
  next
    case False
    with Cons.prems have "x \<in> set xs" "f a \<noteq> f x" by auto
    with Cons show ?thesis by simp
  qed
qed

lemma mset_filter_update_valid:
  assumes "i < length bs" and "valid b"
  shows "filter_mset valid (mset (bs[i := b])) =
    add_mset b (filter_mset valid (mset bs) - (if valid (bs ! i) then {# bs ! i #} else {#}))"
proof -
  have "mset (bs[i := b]) = add_mset b (mset bs - {# bs ! i #})"
    using assms by (simp add: mset_update)
  moreover obtain M where "mset bs = add_mset (bs ! i) M"
    using assms by (metis insert_DiffM nth_mem_mset)
  ultimately show ?thesis
    using assms by (simp add: mset_filter)
qed

lemma map_of_entry:
  "distinct (map tag xs) \<Longrightarrow> b \<in> set xs \<Longrightarrow> map_of (map entry xs) (tag b) = Some (dirty b)"
  by (rule map_of_is_SomeI) (simp_all add: comp_def)

lemma map_of_entry_none:
  "map_of (map entry xs) t = None \<longleftrightarrow> (\<forall>b \<in> set xs. tag b \<noteq> t)"
  by (induction xs) auto

lemma word_lt_succ_iff: "(n :: u64) \<noteq> - 1 \<Longrightarrow> x < n + 1 \<longleftrightarrow> x \<le> n"
  using unat_Suc_word [of n] by (simp add: word_less_nat_alt word_le_nat_alt less_Suc_eq_le)

lemma line_rel_hit:
  fixes d :: bool
  assumes rel: "line_rel n bs xs" and n: "n \<noteq> - 1"
    and i: "i < length bs" "valid (bs ! i)"
  defines "b \<equiv> bs ! i"
  defines "b' \<equiv> b\<lparr>dirty := d, timestamp := n\<rparr>"
  shows "line_rel (n + 1) (bs[i := b']) (b' # filter (\<lambda>c. tag c \<noteq> tag b) xs)"
    and "b \<in> set xs"
proof -
  have bmem: "b \<in># mset xs"
    using rel i by (simp add: line_rel_def b_def)
  then show b: "b \<in> set xs" by simp
  have m: "mset (filter (\<lambda>c. tag c \<noteq> tag b) xs) = mset xs - {# b #}"
    using rel b by (intro filter_key_remove) (auto simp: line_rel_def)
  have "mset (b' # filter (\<lambda>c. tag c \<noteq> tag b) xs) = filter_mset valid (mset (bs[i := b']))"
    using rel i m by (simp add: line_rel_def b'_def b_def mset_filter_update_valid del: mset_filter)
  moreover have "\<forall>c \<in> set (b' # filter (\<lambda>c. tag c \<noteq> tag b) xs). timestamp c < n + 1"
    using rel n by (auto simp: line_rel_def b'_def word_lt_succ_iff)
  moreover have "distinct (map tag (b' # filter (\<lambda>c. tag c \<noteq> tag b) xs))"
    using rel by (auto simp: line_rel_def b'_def b_def distinct_map_filter)
  moreover have "sorted_wrt (\<lambda>b c. timestamp c < timestamp b) (b' # filter (\<lambda>c. tag c \<noteq> tag b) xs)"
    using rel by (auto simp: line_rel_def b'_def sorted_wrt_filter)
  ultimately show "line_rel (n + 1) (bs[i := b']) (b' # filter (\<lambda>c. tag c \<noteq> tag b) xs)"
    by (simp add: line_rel_def)
qed

lemma line_rel_fill:
  assumes rel: "line_rel n bs xs" and n: "n \<noteq> - 1"
    and i: "i < length bs" "\<not> valid (bs ! i)"
    and t: "\<forall>b \<in> set xs. tag b \<noteq> tag b'" and b': "valid b'" "timestamp b' = n"
  shows "line_rel (n + 1) (bs[i := b']) (b' # xs)"
  using assms by (auto simp: line_rel_def mset_filter_update_valid word_lt_succ_iff)

lemma sorted_last_least:
  "sorted_wrt (\<lambda>b c. timestamp c < timestamp b) xs \<Longrightarrow> b \<in> set xs \<Longrightarrow>
     (\<forall>c \<in> set xs. timestamp b \<le> timestamp c) \<Longrightarrow> b = last xs"
proof (induction xs rule: rev_induct)
  case Nil
  then show ?case by simp
next
  case (snoc x xs)
  then show ?case by (auto simp: sorted_wrt_append leD)
qed

lemma line_rel_evict:
  assumes rel: "line_rel n bs xs" and n: "n \<noteq> - 1"
    and full: "\<forall>b \<in> set bs. valid b"
    and i: "i < length bs" "\<forall>j < length bs. timestamp (bs ! i) \<le> timestamp (bs ! j)"
    and t: "\<forall>b \<in> set xs. tag b \<noteq> tag b'" and b': "valid b'" "timestamp b' = n"
  shows "line_rel (n + 1) (bs[i := b']) (b' # butlast xs)"
    and "bs ! i = last xs" and "length xs = length bs"
proof -
  have fb: "filter_mset valid (mset bs) = mset bs"
    using full by (metis mset_filter filter_True)
  then have m: "mset xs = mset bs" using rel by (simp add: line_rel_def)
  then have st: "set xs = set bs" by (metis set_mset_mset)
  show len: "length xs = length bs" using m by (metis size_mset)
  have least: "\<forall>c \<in> set xs. timestamp (bs ! i) \<le> timestamp c"
    using i st by (metis in_set_conv_nth)
  show last: "bs ! i = last xs"
    using sorted_last_least [of xs "bs ! i"] rel i st least by (auto simp: line_rel_def)
  have ne: "xs \<noteq> []" using i len by auto
  have xs: "xs = butlast xs @ [bs ! i]" using ne last by simp
  have "mset (butlast xs) = mset xs - {# bs ! i #}"
    by (subst (2) xs) simp
  then have mm: "mset (b' # butlast xs) = filter_mset valid (mset (bs[i := b']))"
    using m i b' full fb by (simp add: mset_filter_update_valid)
  have sub: "set (butlast xs) \<subseteq> set xs" by (auto dest: in_set_butlastD)
  have d: "distinct (map tag (butlast xs))"
    using rel by (metis line_rel_def map_butlast distinct_butlast)
  have so: "sorted_wrt (\<lambda>b c. timestamp c < timestamp b) (butlast xs)"
    using rel xs by (metis line_rel_def sorted_wrt_append)
  show "line_rel (n + 1) (bs[i := b']) (b' # butlast xs)"
    unfolding line_rel_def
  proof (intro conjI)
    show "distinct (map tag (b' # butlast xs))" using d t sub by auto
    show "sorted_wrt (\<lambda>b c. timestamp c < timestamp b) (b' # butlast xs)"
      using so rel sub b' by (auto simp: line_rel_def)
    show "\<forall>b \<in> set (b' # butlast xs). timestamp b < n + 1"
      using rel sub b' n by (auto simp: line_rel_def word_lt_succ_iff dest!: subsetD)
  qed (fact mm)
qed

lemma line_rel_length: "line_rel n bs xs \<Longrightarrow> length xs \<le> length bs"
proof -
  assume "line_rel n bs xs"
  then have "length xs = length (filter valid bs)"
    by (metis line_rel_def size_mset mset_filter)
  then show ?thesis by (simp add: length_filter_le)
qed

lemma line_rel_full_iff:
  assumes "line_rel n bs xs"
  shows "length xs < length bs \<longleftrightarrow> (\<exists>b \<in> set bs. \<not> valid b)"
proof -
  have "length xs = length (filter valid bs)"
    using assms by (metis line_rel_def size_mset mset_filter)
  moreover have "length (filter valid bs) < length bs \<longleftrightarrow> (\<exists>b \<in> set bs. \<not> valid b)"
    by (metis length_filter_less filter_True order_less_irrefl)
  ultimately show ?thesis by simp
qed

section \<open>One access to a line\<close>

definition line_ok :: "cache_sim \<Rightarrow> cache_block list \<Rightarrow> bool" where
  "line_ok s bs \<longleftrightarrow> length bs = unat (num_blocks_per_line s) \<and> 0 < length bs"

lemma choose_block_spec:
  assumes rel: "line_rel n bs xs" and len: "0 < length bs"
  shows "\<exists>i. choose_block bs (length bs) st =
      Inr (i, if \<not> length xs < length bs \<and> dirty (bs ! i)
              then st\<lparr>write_backs := write_backs st + 1\<rparr> else st)
    \<and> i < length bs
    \<and> (if length xs < length bs then \<not> valid (bs ! i)
       else (\<forall>b \<in> set bs. valid b) \<and>
            (\<forall>j < length bs. timestamp (bs ! i) \<le> timestamp (bs ! j)))"
proof -
  obtain e where e: "get_empty_block bs 0 (length bs) = Inr e"
    and es: "case e of None \<Rightarrow> \<forall>j. 0 \<le> j \<and> j < length bs \<longrightarrow> valid (bs ! j)
      | Some j \<Rightarrow> j < length bs \<and> \<not> valid (bs ! j)"
    using get_empty_block_spec [of 0 "length bs" bs] by auto
  show ?thesis
  proof (cases e)
    case (Some i)
    with es have i: "i < length bs" "\<not> valid (bs ! i)" by simp_all
    then have "length xs < length bs" using line_rel_full_iff [OF rel] by (metis nth_mem)
    with e Some i show ?thesis by (simp add: choose_block_def)
  next
    case None
    with es have full: "\<forall>b \<in> set bs. valid b" by (auto simp: in_set_conv_nth)
    then have "\<not> length xs < length bs" using line_rel_full_iff [OF rel] by simp
    moreover obtain r where "get_lru_block bs (length bs) = Inr r" "r < length bs"
      "\<forall>j < length bs. timestamp (bs ! r) \<le> timestamp (bs ! j)"
      using get_lru_block_spec [OF len] by blast
    ultimately show ?thesis using e None full by (simp add: choose_block_def)
  qed
qed

lemma access_line_refines:
  assumes rel: "line_rel (now s) bs xs" and ok: "line_ok s bs" and n: "now s \<noteq> - 1"
    and t: "get_tag s addr = Inr t"
  shows "\<exists>bs' ys. access_line rw addr bs s (count_access rw st) =
      Inr (bs', s\<lparr>now := now s + 1\<rparr>, lru_stats (length bs) rw t (map entry xs) st)
    \<and> line_rel (now s + 1) bs' ys \<and> length bs' = length bs
    \<and> map entry ys = lru_step (length bs) (rw = WRITE) t (map entry xs)"
proof -
  have nb: "unat (num_blocks_per_line s) = length bs" and len: "0 < length bs"
    using ok unfolding line_ok_def by metis+
  have mem: "b \<in> set xs \<longleftrightarrow> b \<in> set bs \<and> valid b" for b
  proof -
    have "set_mset (mset xs) = set_mset (filter_mset valid (mset bs))"
      using rel by (simp only: line_rel_def)
    then show ?thesis by auto
  qed
  have dist: "distinct (map tag xs)" using rel by (simp add: line_rel_def)
  obtain h where h: "get_hit_block s bs addr 0 (length bs) = Inr h"
    and hs: "case h of None \<Rightarrow> \<forall>j. 0 \<le> j \<and> j < length bs \<longrightarrow> \<not> (valid (bs ! j) \<and> tag (bs ! j) = t)
      | Some j \<Rightarrow> j < length bs \<and> valid (bs ! j) \<and> tag (bs ! j) = t"
    using get_hit_block_spec [OF t, of 0 "length bs" bs] by auto
  show ?thesis
  proof (cases h)
    case (Some i)
    with hs have i: "i < length bs" "valid (bs ! i)" and tg: "tag (bs ! i) = t" by simp_all
    let ?b = "(bs ! i)\<lparr>dirty := (dirty (bs ! i) \<or> rw = WRITE), timestamp := now s\<rparr>"
    have bx: "bs ! i \<in> set xs" using i by (simp add: mem)
    then have mo: "map_of (map entry xs) t = Some (dirty (bs ! i))"
      using map_of_entry [OF dist, of "bs ! i"] tg by simp
    have "line_rel (now s + 1) (bs[i := ?b]) (?b # filter (\<lambda>c. tag c \<noteq> t) xs)"
      using line_rel_hit(1) [OF rel n i] tg by simp
    moreover have "map entry (?b # filter (\<lambda>c. tag c \<noteq> t) xs) =
        lru_step (length bs) (rw = WRITE) t (map entry xs)"
      using mo tg by (simp add: lru_step_def filter_map comp_def)
    moreover have "access_line rw addr bs s (count_access rw st) =
        Inr (bs[i := ?b], s\<lparr>now := now s + 1\<rparr>, lru_stats (length bs) rw t (map entry xs) st)"
      using h Some i mo
      by (simp add: access_line_def nb clock_time_def lru_stats_def lru_write_back_def lru_miss_def
          Let_def)
    moreover have "length (bs[i := ?b]) = length bs" by simp
    ultimately show ?thesis by blast
  next
    case None
    have nohit: "\<forall>b \<in> set xs. tag b \<noteq> t"
    proof
      fix b assume "b \<in> set xs"
      then have "b \<in> set bs" "valid b" by (simp_all add: mem)
      then show "tag b \<noteq> t" using hs None by (auto simp: in_set_conv_nth)
    qed
    then have mo: "map_of (map entry xs) t = None"
      by (simp only: map_of_entry_none)
    let ?b = "\<lparr>timestamp = now s, valid = True, dirty = (rw = WRITE), tag = t\<rparr>"
    let ?st = "count_miss rw (count_access rw st)"
    obtain i where c: "choose_block bs (length bs) ?st =
        Inr (i, if \<not> length xs < length bs \<and> dirty (bs ! i)
                then ?st\<lparr>write_backs := write_backs ?st + 1\<rparr> else ?st)"
      and i: "i < length bs"
      and iv: "if length xs < length bs then \<not> valid (bs ! i)
        else (\<forall>b \<in> set bs. valid b) \<and>
             (\<forall>j < length bs. timestamp (bs ! i) \<le> timestamp (bs ! j))"
      using choose_block_spec [OF rel len] by blast
    let ?ys = "if length xs < length bs then ?b # xs else ?b # butlast xs"
    have ev: "bs ! i = last xs" "length xs = length bs" if "\<not> length xs < length bs"
      using line_rel_evict(2,3) [OF rel n, of i ?b] iv i nohit that by auto
    have "line_rel (now s + 1) (bs[i := ?b]) ?ys"
      using line_rel_fill [OF rel n i, of ?b] line_rel_evict(1) [OF rel n, of i ?b] iv i nohit
      by auto
    moreover have "map entry ?ys = lru_step (length bs) (rw = WRITE) t (map entry xs)"
      using mo by (simp add: lru_step_def map_butlast)
    moreover have "access_line rw addr bs s (count_access rw st) =
        Inr (bs[i := ?b], s\<lparr>now := now s + 1\<rparr>, lru_stats (length bs) rw t (map entry xs) st)"
    proof -
      have "snd (last (map entry xs)) = dirty (bs ! i)" if "\<not> length xs < length bs"
        using ev [OF that] len by (subst last_map) auto
      then show ?thesis
        using h None c i t mo
        by (cases "length xs < length bs")
          (simp_all add: access_line_def nb clock_time_def lru_stats_def lru_write_back_def
            lru_miss_def Let_def load_into_block_def)
    qed
    moreover have "length (bs[i := ?b]) = length bs" by simp
    ultimately show ?thesis by blast
  qed
qed

section \<open>Geometry\<close>

definition geom_ok :: "cache_sim \<Rightarrow> bool" where
  "geom_ok s \<longleftrightarrow> 0 \<le> offset_size s \<and> 0 \<le> index_size s \<and> index_size s < 31 \<and>
     index_size s + offset_size s < 64 \<and> tag_size s = 64 - index_size s - offset_size s \<and>
     unat (num_lines s) = 2 ^ nat (index_size s)"

definition index_of :: "cache_sim \<Rightarrow> u64 \<Rightarrow> nat" where
  "index_of s a = unat a mod 2 ^ nat (index_size s + offset_size s) div 2 ^ nat (offset_size s)"

definition tag_of :: "cache_sim \<Rightarrow> u64 \<Rightarrow> u64" where
  "tag_of s a = drop_bit (nat (index_size s + offset_size s)) a"

lemma mask_by_shifts:
  fixes a :: u64
  assumes "t \<le> 64"
  shows "unat (drop_bit t (push_bit t a)) = unat a mod 2 ^ (64 - t)"
proof -
  have p: "(2 :: nat) ^ 64 = 2 ^ (64 - t) * 2 ^ t"
    using assms by (simp flip: power_add)
  have "unat (push_bit t a) = unat a * 2 ^ t mod 2 ^ 64"
    by (subst unsigned_push_bit_eq) (simp only: take_bit_eq_mod push_bit_eq_mult len_bit0 len_num1, simp)
  also have "\<dots> = (unat a mod 2 ^ (64 - t)) * 2 ^ t"
    by (simp only: p mod_mult_mult2)
  finally show ?thesis by (simp add: unat_drop_bit_word)
qed

lemma get_tag_ok: "geom_ok s \<Longrightarrow> get_tag s a = Inr (tag_of s a)"
  by (simp add: get_tag_def geom_ok_def shr64_def tag_of_def)

lemma index_of_bound: "geom_ok s \<Longrightarrow> index_of s a < unat (num_lines s)"
proof -
  assume g: "geom_ok s"
  then have "nat (index_size s + offset_size s) = nat (index_size s) + nat (offset_size s)"
    by (simp add: geom_ok_def nat_add_distrib)
  then have "unat a mod 2 ^ nat (index_size s + offset_size s)
      < 2 ^ nat (index_size s) * 2 ^ nat (offset_size s)"
    by (simp add: power_add)
  with g show ?thesis
    by (simp add: index_of_def geom_ok_def less_mult_imp_div_less)
qed

lemma get_index_ok:
  assumes "geom_ok s"
  shows "\<exists>ix. get_index s a = Inr ix \<and> unat ix = index_of s a"
proof (cases "tag_size s = 64")
  case True
  with assms have "index_size s = 0" "offset_size s = 0" by (simp_all add: geom_ok_def)
  with True show ?thesis by (simp add: get_index_def index_of_def)
next
  case False
  with assms have t: "0 \<le> tag_size s" "tag_size s < 64"
    and o: "0 \<le> offset_size s" "offset_size s < 64"
    and e: "64 - nat (tag_size s) = nat (index_size s + offset_size s)"
    by (auto simp: geom_ok_def)
  let ?b = "drop_bit (nat (tag_size s)) (push_bit (nat (tag_size s)) a)"
  have "get_index s a = Inr (drop_bit (nat (offset_size s)) ?b)"
    using False t o by (simp add: get_index_def shl64_def shr64_def)
  moreover have bm: "unat ?b = unat a mod 2 ^ nat (index_size s + offset_size s)"
    using mask_by_shifts [of "nat (tag_size s)" a] t e by simp
  have "unat (drop_bit (nat (offset_size s)) ?b) = index_of s a"
    using bm
    by (simp only: unat_drop_bit_word [of "nat (offset_size s)" ?b] index_of_def)
  ultimately show ?thesis by blast
qed

section \<open>The whole cache\<close>

text \<open>
  \<open>sim_rel s A\<close>: every line of the simulator state \<open>s\<close> exists, has the configured number of
  blocks, and refines the LRU list \<open>A\<close> gives for its number.
\<close>

definition sim_rel :: "cache_sim \<Rightarrow> (nat \<Rightarrow> lru_line) \<Rightarrow> bool" where
  "sim_rel s A \<longleftrightarrow> geom_ok s \<and> 0 < unat (num_blocks_per_line s) \<and>
     (\<exists>ls. cache s = Some ls \<and> length ls = unat (num_lines s) \<and>
       (\<forall>i < length ls. \<exists>bs xs. ls ! i = Some bs \<and> length bs = unat (num_blocks_per_line s) \<and>
          line_rel (now s) bs xs \<and> A i = map entry xs))"

lemma line_rel_later:
  "line_rel n bs xs \<Longrightarrow> n \<noteq> - 1 \<Longrightarrow> line_rel (n + 1) bs xs"
  by (auto simp: line_rel_def word_lt_succ_iff)

definition abs_access ::
  "cache_sim \<Rightarrow> char \<Rightarrow> u64 \<Rightarrow> (nat \<Rightarrow> lru_line) \<times> cache_stats \<Rightarrow> (nat \<Rightarrow> lru_line) \<times> cache_stats" where
  "abs_access g rw addr = (\<lambda>(A, st).
     let cap = unat (num_blocks_per_line g); i = index_of g addr; t = tag_of g addr
     in (A(i := lru_step cap (rw = WRITE) t (A i)), lru_stats cap rw t (A i) st))"

fun abs_trace ::
  "cache_sim \<Rightarrow> (char \<times> u64) list \<Rightarrow> (nat \<Rightarrow> lru_line) \<times> cache_stats
     \<Rightarrow> (nat \<Rightarrow> lru_line) \<times> cache_stats" where
  "abs_trace g [] x = x"
| "abs_trace g ((rw, addr) # tr) x = abs_trace g tr (abs_access g rw addr x)"

definition same_geometry :: "cache_sim \<Rightarrow> cache_sim \<Rightarrow> bool" where
  "same_geometry s g \<longleftrightarrow> num_blocks_per_line s = num_blocks_per_line g \<and>
     index_size s = index_size g \<and> offset_size s = offset_size g"

lemma abs_access_geometry: "same_geometry s g \<Longrightarrow> abs_access s = abs_access g"
  by (intro ext) (simp add: same_geometry_def abs_access_def index_of_def tag_of_def)

lemma cache_access_refines:
  assumes rel: "sim_rel s A" and n: "now s \<noteq> - 1"
  shows "\<exists>s'. cache_access rw addr (s, st) = Inr (s', snd (abs_access s rw addr (A, st)))
    \<and> sim_rel s' (fst (abs_access s rw addr (A, st))) \<and> now s' = now s + 1
    \<and> same_geometry s' s"
proof -
  obtain ls where g: "geom_ok s" and nb: "0 < unat (num_blocks_per_line s)"
    and ls: "cache s = Some ls" "length ls = unat (num_lines s)"
    and lines: "\<And>i. i < length ls \<Longrightarrow> \<exists>bs xs. ls ! i = Some bs \<and>
      length bs = unat (num_blocks_per_line s) \<and> line_rel (now s) bs xs \<and> A i = map entry xs"
    using rel by (auto simp: sim_rel_def)
  obtain ix where ix: "get_index s addr = Inr ix" "unat ix = index_of s addr"
    using get_index_ok [OF g] by blast
  have il: "index_of s addr < length ls" using index_of_bound [OF g] ls(2) by simp
  obtain bs xs where bs: "ls ! index_of s addr = Some bs"
      "length bs = unat (num_blocks_per_line s)" "line_rel (now s) bs xs"
    and Ai: "A (index_of s addr) = map entry xs"
    using lines [OF il] by blast
  have ok: "line_ok s bs" using bs(2) nb by (simp add: line_ok_def flip: length_greater_0_conv)
  obtain bs' ys where
    acc: "access_line rw addr bs s (count_access rw st) =
      Inr (bs', s\<lparr>now := now s + 1\<rparr>, lru_stats (length bs) rw (tag_of s addr) (map entry xs) st)"
    and bs': "line_rel (now s + 1) bs' ys" "length bs' = length bs"
    and ys: "map entry ys = lru_step (length bs) (rw = WRITE) (tag_of s addr) (map entry xs)"
    using access_line_refines [OF bs(3) ok n get_tag_ok [OF g]] by blast
  let ?s' = "s\<lparr>now := now s + 1, cache := Some (ls[index_of s addr := Some bs'])\<rparr>"
  have st: "snd (abs_access s rw addr (A, st)) =
      lru_stats (length bs) rw (tag_of s addr) (map entry xs) st"
    by (simp add: abs_access_def Ai bs(2) Let_def)
  have run: "cache_access rw addr (s, st) = Inr (?s', snd (abs_access s rw addr (A, st)))"
    using ix ls il bs(1) acc by (simp add: cache_access_def st)
  have "sim_rel ?s' (fst (abs_access s rw addr (A, st)))"
  proof -
    have A': "fst (abs_access s rw addr (A, st)) = A(index_of s addr := map entry ys)"
      by (simp add: abs_access_def Ai bs(2) ys Let_def)
    have "\<exists>bs xs. ls[index_of s addr := Some bs'] ! i = Some bs \<and>
        length bs = unat (num_blocks_per_line s) \<and> line_rel (now s + 1) bs xs \<and>
        (A(index_of s addr := map entry ys)) i = map entry xs" if "i < length ls" for i
    proof (cases "i = index_of s addr")
      case True
      with il bs bs' show ?thesis by auto
    next
      case False
      with lines [OF that] line_rel_later [OF _ n] show ?thesis by (auto simp: that)
    qed
    with g nb ls A' show ?thesis
      by (simp add: sim_rel_def geom_ok_def)
  qed
  with run show ?thesis by (auto simp: same_geometry_def)
qed

lemma abs_trace_geometry: "same_geometry s g \<Longrightarrow> abs_trace s tr x = abs_trace g tr x"
  by (induction g tr x arbitrary: s rule: abs_trace.induct) (auto simp: abs_access_geometry)

lemma unat_now_succ: "unat (n :: u64) + Suc k < 2 ^ 64 \<Longrightarrow> n \<noteq> - 1 \<and> unat (n + 1) + k < 2 ^ 64"
proof -
  assume a: "unat n + Suc k < 2 ^ 64"
  have "unat (- 1 :: u64) = 2 ^ 64 - 1" by (simp add: unsigned_minus_1_eq_mask mask_eq_exp_minus_1)
  with a have "n \<noteq> - 1" by auto
  with a unat_Suc_word [of n] show ?thesis by simp
qed

lemma run_trace_refines:
  assumes "sim_rel s A" and "unat (now s) + length tr < 2 ^ 64"
  shows "\<exists>s'. run_trace tr (s, st) = Inr (s', snd (abs_trace s tr (A, st)))
    \<and> sim_rel s' (fst (abs_trace s tr (A, st)))"
  using assms
proof (induction tr arbitrary: s A st)
  case Nil
  then show ?case by simp
next
  case (Cons x tr)
  obtain rw addr where x: "x = (rw, addr)" by (cases x)
  have n: "now s \<noteq> - 1" "unat (now s + 1) + length tr < 2 ^ 64"
    using unat_now_succ [of "now s" "length tr"] Cons.prems(2) by simp_all
  let ?y = "abs_access s rw addr (A, st)"
  obtain s1 where s1: "cache_access rw addr (s, st) = Inr (s1, snd ?y)" "sim_rel s1 (fst ?y)"
    "now s1 = now s + 1" and g: "same_geometry s1 s"
    using cache_access_refines [OF Cons.prems(1) n(1)] by blast
  have "unat (now s1) + length tr < 2 ^ 64" using n(2) s1(3) by simp
  from Cons.IH [OF s1(2) this, of "snd ?y"] show ?case
    using s1(1) by (simp add: x abs_trace_geometry [OF g])
qed

section \<open>Initialisation\<close>

lemma to_int_small:
  assumes w: "unat w = k" and k: "k < 2 ^ 31"
  shows "to_int w = int k"
proof -
  have "uint w = int k" using w by (metis uint_nat)
  then have "uint (ucast w :: i32) = int k"
    using k by (simp add: unsigned_ucast_eq take_bit_eq_mod)
  moreover have "signed_take_bit 31 (int k) = int k"
    using k by (intro signed_take_bit_int_eq_self) auto
  ultimately show ?thesis by (simp add: to_int_def sint_uint)
qed

lemma line_rel_zero: "line_rel n (replicate k zero_block) []"
  by (simp add: line_rel_def zero_block_def)

definition good_config :: "nat \<Rightarrow> nat \<Rightarrow> nat \<Rightarrow> bool" where
  "good_config c s b \<longleftrightarrow> b + s \<le> c \<and> c < b + s + 31 \<and> s < 31 \<and> c < 64 + s"

lemma unat_of_pow2: "k < 31 \<Longrightarrow> unat (2 ^ k :: u64) = 2 ^ k"
proof -
  assume "k < 31"
  then have "(2 :: nat) ^ k < 2 ^ 64" by (intro power_strict_increasing) simp_all
  then have "unat (of_nat (2 ^ k) :: u64) = 2 ^ k"
    by (simp only: unsigned_of_nat take_bit_eq_mod) simp
  then show ?thesis by simp
qed

lemma nat_pow2: "nat (2 ^ m) = 2 ^ m"
  by (simp add: nat_power_eq)

lemma cache_init_ok:
  assumes u: "unat C = c" "unat S = a" "unat B = b"
    and cfg: "good_config c a b" and ok: "\<forall>k. ok k"
  shows "\<exists>s. cache_init ok C S B s0 = Inr s \<and> sim_rel s (\<lambda>_. []) \<and> now s = now s0 \<and>
    offset_size s = int b \<and> index_size s = int (c - b - a) \<and>
    unat (num_blocks_per_line s) = 2 ^ a"
proof -
  have c: "b + a \<le> c" "c < b + a + 31" "a < 31" "c < 64 + a"
    using cfg by (simp_all add: good_config_def)
  let ?k = "c - b - a"
  have k: "?k < 31" using c by arith
  have "unat (C - B) = c - b"
    using c u by (subst unat_sub) (simp_all add: word_le_nat_alt)
  then have "unat (C - B - S) = ?k"
    using c u by (subst unat_sub) (simp_all add: word_le_nat_alt)
  then have sz: "to_int B = int b" "to_int S = int a" "to_int (C - B - S) = int ?k"
    using u c by (simp_all add: to_int_small)
  let ?s = "s0\<lparr>offset_size := int b, index_size := int ?k,
      tag_size := 64 - int ?k - int b, num_lines := 2 ^ ?k, num_blocks_per_line := 2 ^ a,
      cache := Some (replicate (2 ^ ?k) (Some (replicate (2 ^ a) zero_block)))\<rparr>"
  have "cache_init ok C S B s0 = Inr ?s"
    using sz k c(3) ok
    by (simp add: cache_init_def one_shl_int_def Let_def nat_pow2 map_replicate_const del: of_nat_diff)
  moreover have "sim_rel ?s (\<lambda>_. [])"
    using c k
    by (auto simp: sim_rel_def geom_ok_def unat_of_pow2 line_rel_zero)
  ultimately show ?thesis using c by (auto simp: unat_of_pow2)
qed

section \<open>The simulator as a guarded machine\<close>

definition sim_inv :: "cache_sim \<times> cache_stats \<Rightarrow> bool" where
  "sim_inv x \<longleftrightarrow> (\<exists>A. sim_rel (fst x) A)"

definition clock_left :: "char \<times> u64 \<Rightarrow> cache_sim \<times> cache_stats \<Rightarrow> bool" where
  "clock_left op x \<longleftrightarrow> now (fst x) \<noteq> - 1"

interpretation cache: guarded_machine "\<lambda>(rw, addr). cache_access rw addr" sim_inv clock_left
proof unfold_locales
  fix x :: "cache_sim \<times> cache_stats" and op
  assume "sim_inv x" and "clock_left op x"
  then show "\<exists>x'. (case op of (rw, addr) \<Rightarrow> cache_access rw addr) x = Inr x' \<and> sim_inv x'"
    by (cases x; cases op) (fastforce simp: sim_inv_def clock_left_def dest: cache_access_refines)
qed

lemma run_trace_is_run: "run_trace tr x = cache.run tr x"
  by (induction tr x rule: run_trace.induct) (simp_all add: bindE_def split: sum.splits)

section \<open>Statistics\<close>

definition stats_balanced :: "cache_stats \<Rightarrow> bool" where
  "stats_balanced st \<longleftrightarrow> accesses st = reads st + writes st \<and>
     misses st = read_misses st + write_misses st"

lemma lru_stats_balanced:
  "stats_balanced st \<Longrightarrow> stats_balanced (lru_stats cap rw t es st)"
  by (auto simp: stats_balanced_def lru_stats_def count_access_def count_miss_def Let_def)

lemma abs_trace_balanced:
  "stats_balanced (snd x) \<Longrightarrow> stats_balanced (snd (abs_trace g tr x))"
proof (induction g tr x rule: abs_trace.induct)
  case (2 g rw addr tr x)
  have "stats_balanced (snd (abs_access g rw addr x))"
    using 2(2) by (cases x) (simp add: abs_access_def Let_def lru_stats_balanced)
  with 2(1) show ?case by simp
qed simp

lemma lru_step_hit_next: "lru_miss t (lru_step cap w t es) = False"
  by (auto simp: lru_miss_def lru_step_def split: option.splits)



text \<open>
  C2. In every state that refines an abstract cache, a run of accesses within the clock returns,
  keeps the structural invariant, and keeps the counters balanced: accesses are reads plus
  writes, misses are read misses plus write misses.
\<close>

theorem run_keeps_accounts:
  assumes "sim_inv (s, st)" and "stats_balanced st" and "unat (now s) + length tr < 2 ^ 64"
  shows "\<exists>s' st'. run_trace tr (s, st) = Inr (s', st') \<and> sim_inv (s', st') \<and> stats_balanced st'"
proof -
  from assms(1) obtain A where A: "sim_rel s A" by (auto simp: sim_inv_def)
  from run_trace_refines [OF A assms(3), of st] assms(2)
    abs_trace_balanced [of "(A, st)" s tr]
  show ?thesis by (auto simp: sim_inv_def)
qed

theorem run_keeps_accounts_witness:
  "\<exists>s. cache_init (\<lambda>_. True) 4 1 2 boot_sim = Inr s \<and>
    (\<exists>s' st'. run_trace [(WRITE, 7), (READ, 9)] (s, driver_stats) = Inr (s', st') \<and>
       sim_inv (s', st') \<and> stats_balanced st')"
proof -
  obtain s where s: "cache_init (\<lambda>_. True) 4 1 2 boot_sim = Inr s" "sim_rel s (\<lambda>_. [])"
      "now s = now boot_sim"
    using cache_init_ok [of 4 4 1 1 2 2 "\<lambda>_. True" boot_sim] by (auto simp: good_config_def)
  have "sim_inv (s, driver_stats)" using s(2) by (auto simp: sim_inv_def)
  moreover have "stats_balanced driver_stats" by (simp add: stats_balanced_def driver_stats_def)
  moreover have "unat (now s) + length [(WRITE, 7 :: u64), (READ, 9)] < 2 ^ 64"
    using s(3) by (simp add: boot_sim_def)
  ultimately show ?thesis using s(1) run_keeps_accounts by blast
qed

text \<open>
  Temporal locality: an access followed by an access to the same address is a hit, whatever
  the kinds of the two accesses and whatever the state of the cache: no counter of misses or
  write-backs moves.
\<close>

theorem second_access_hits:
  assumes "sim_inv (s, st)" and "unat (now s) + 2 < 2 ^ 64"
  shows "\<exists>s1 st1 s2 st2. cache_access rw addr (s, st) = Inr (s1, st1) \<and>
    cache_access rw' addr (s1, st1) = Inr (s2, st2) \<and>
    misses st2 = misses st1 \<and> read_misses st2 = read_misses st1 \<and>
    write_misses st2 = write_misses st1 \<and> write_backs st2 = write_backs st1"
proof -
  from assms(1) obtain A where A: "sim_rel s A" by (auto simp: sim_inv_def)
  have n: "now s \<noteq> - 1" "unat (now s + 1) + 1 < 2 ^ 64"
    using unat_now_succ [of "now s" 1] assms(2) by simp_all
  let ?y = "abs_access s rw addr (A, st)"
  obtain s1 where s1: "cache_access rw addr (s, st) = Inr (s1, snd ?y)" "sim_rel s1 (fst ?y)"
      "now s1 = now s + 1" and g: "same_geometry s1 s"
    using cache_access_refines [OF A n(1)] by blast
  have "now s1 \<noteq> - 1" using n(2) s1(3) unat_now_succ [of "now s1" 0] by simp
  then obtain s2 where s2: "cache_access rw' addr (s1, snd ?y) =
      Inr (s2, snd (abs_access s1 rw' addr (fst ?y, snd ?y)))"
    using cache_access_refines [OF s1(2)] by blast
  have "\<not> lru_miss (tag_of s addr) (fst ?y (index_of s addr))"
    by (simp add: abs_access_def Let_def lru_step_hit_next)
  then have "snd (abs_access s1 rw' addr (fst ?y, snd ?y)) = count_access rw' (snd ?y)"
    using abs_access_geometry [OF g]
    by (simp add: abs_access_def [of s rw'] lru_stats_def lru_write_back_def Let_def case_prod_unfold)
  with s1(1) s2 show ?thesis by (simp add: count_access_def Let_def)
qed

theorem second_access_hits_witness:
  "\<exists>s. cache_init (\<lambda>_. True) 4 1 2 boot_sim = Inr s \<and>
    (\<exists>s1 st1 s2 st2. cache_access READ 12 (s, driver_stats) = Inr (s1, st1) \<and>
    cache_access WRITE 12 (s1, st1) = Inr (s2, st2) \<and>
    misses st2 = misses st1 \<and> read_misses st2 = read_misses st1 \<and>
    write_misses st2 = write_misses st1 \<and> write_backs st2 = write_backs st1)"
proof -
  obtain s where s: "cache_init (\<lambda>_. True) 4 1 2 boot_sim = Inr s" "sim_rel s (\<lambda>_. [])"
      "now s = now boot_sim"
    using cache_init_ok [of 4 4 1 1 2 2 "\<lambda>_. True" boot_sim] by (auto simp: good_config_def)
  have "sim_inv (s, driver_stats)" using s(2) by (auto simp: sim_inv_def)
  moreover have "unat (now s) + 2 < 2 ^ 64" using s(3) by (simp add: boot_sim_def)
  ultimately show ?thesis using s(1) second_access_hits by blast
qed

end
