(* ===== verification/CLib.thy ===== *)
theory CLib
  imports Prelude
begin

text \<open>
  The pieces of the C library the programs call on strings, on \<open>char list\<close>s without a NUL
  (the terminator is the end of the list): \<open>strtok\<close> with a set of delimiters, \<open>atoi\<close>,
  \<open>isspace\<close> as \<open>atoi\<close> uses it, and \<open>strcmp\<close> as equality.
\<close>

section \<open>Characters\<close>

definition char_code :: "char \<Rightarrow> nat" where
  "char_code c = of_char c"

definition is_digit :: "char \<Rightarrow> bool" where
  "is_digit c \<longleftrightarrow> 48 \<le> char_code c \<and> char_code c \<le> 57"

definition digit_val :: "char \<Rightarrow> int" where
  "digit_val c = int (char_code c) - 48"

definition is_space :: "char \<Rightarrow> bool" where
  "is_space c \<longleftrightarrow> char_code c = 32 \<or> (9 \<le> char_code c \<and> char_code c \<le> 13)"

lemma is_digit_val: "is_digit c \<Longrightarrow> 0 \<le> digit_val c \<and> digit_val c < 10"
  by (simp add: is_digit_def digit_val_def)

section \<open>atoi\<close>

text \<open>The value of the leading digits. A value outside the range of \<open>int\<close> is undefined in C.\<close>

fun atoi_digits :: "int \<Rightarrow> string \<Rightarrow> int" where
  "atoi_digits acc [] = acc"
| "atoi_digits acc (c # cs) = (if is_digit c then atoi_digits (acc * 10 + digit_val c) cs else acc)"

definition atoi :: "string \<Rightarrow> int" where
  "atoi str =
     (let cs = dropWhile is_space str
      in case cs of [] \<Rightarrow> 0
         | c # ds \<Rightarrow> if c = CHR ''-'' then - atoi_digits 0 ds
                     else if c = CHR ''+'' then atoi_digits 0 ds
                     else atoi_digits 0 cs)"

lemma atoi_digits_nonneg: "0 \<le> acc \<Longrightarrow> 0 \<le> atoi_digits acc cs"
proof (induction acc cs rule: atoi_digits.induct)
  case (2 acc c cs)
  then show ?case using is_digit_val [of c] by simp
qed simp

section \<open>strtok\<close>

text \<open>All tokens of successive \<open>strtok\<close> calls with the delimiters \<open>del\<close>.\<close>

function tokens_of :: "(char \<Rightarrow> bool) \<Rightarrow> string \<Rightarrow> string list" where
  "tokens_of del str =
     (let cs = dropWhile del str
      in if cs = [] then []
         else takeWhile (\<lambda>c. \<not> del c) cs # tokens_of del (dropWhile (\<lambda>c. \<not> del c) cs))"
  by pat_completeness auto
termination
proof (relation "measure (\<lambda>(del, str). length str)", simp, goal_cases)
  case (1 del str cs)
  then have ne: "dropWhile del str \<noteq> []" by simp
  then have "\<not> del (hd (dropWhile del str))" by (rule hd_dropWhile)
  then have "length (dropWhile (\<lambda>c. \<not> del c) (dropWhile del str)) < length (dropWhile del str)"
    using ne by (cases "dropWhile del str") (auto simp: le_imp_less_Suc length_dropWhile_le)
  also have "\<dots> \<le> length str" by (rule length_dropWhile_le)
  finally show ?case using 1 by simp
qed

declare tokens_of.simps [simp del]

lemma tokens_of_nonempty: "t \<in> set (tokens_of del str) \<Longrightarrow> t \<noteq> [] \<and> (\<forall>c \<in> set t. \<not> del c)"
proof (induction del str rule: tokens_of.induct)
  case (1 del str)
  show ?case
  proof (cases "dropWhile del str")
    case Nil
    with 1(2) show ?thesis by (simp add: tokens_of.simps [of del str])
  next
    case (Cons a cs)
    then have a: "\<not> del a" using hd_dropWhile [of del str] by simp
    let ?rest = "dropWhile (\<lambda>c. \<not> del c) (dropWhile del str)"
    have "tokens_of del str = takeWhile (\<lambda>c. \<not> del c) (a # cs) # tokens_of del ?rest"
      by (subst tokens_of.simps) (simp add: Cons Let_def)
    with 1(2) consider "t = takeWhile (\<lambda>c. \<not> del c) (a # cs)" | "t \<in> set (tokens_of del ?rest)"
      by auto
    then show ?thesis
    proof cases
      case 1
      with a show ?thesis by (auto dest: set_takeWhileD)
    next
      case 2
      show ?thesis by (rule "1.IH" [OF refl _ 2]) (simp add: Cons)
    qed
  qed
qed

end
