(* ===== verification/Vm.thy ===== *)
theory Vm
  imports Interfaces CLib
begin

text \<open>
  The virtual-memory simulator of \<open>cs_2200/memory/prj4\<close>: the modules \<open>tlb.c\<close>, \<open>memory.c\<close>,
  \<open>swapfile.c\<close>, \<open>process.c\<close> and \<open>sim.c\<close> of \<open>simulator-src\<close> and \<open>tlb-lookup.c\<close>,
  \<open>page-lookup.c\<close>, \<open>page-replacement.c\<close>, \<open>page-fault.c\<close> and \<open>page-splitting.h\<close> of
  \<open>student-src\<close>.

  All globals are the fields of one record. A page table is an object of the heap
  \<open>tables\<close> and a \<open>pte_t*\<close> base its index there, because two variables alias it: the
  \<open>pagetable\<close> field of a PCB and \<open>current_pagetable\<close>. A \<open>pcb_t*\<close> is an index of
  \<open>proc_list\<close>. The swap file, a singly linked list the code searches from its head, is the
  list of its nodes. \<open>calloc_ok\<close> says whether the allocations of the run succeed.
\<close>

section \<open>State\<close>

record vm_cfg =
  page_size :: nat
  mem_size :: nat
  tlb_size :: nat
  max_jobs :: nat

definition default_cfg :: vm_cfg where
  "default_cfg = \<lparr>page_size = 2, mem_size = 16, tlb_size = 4, max_jobs = 8\<rparr>"

definition CPU_NUM_PTE :: "vm_cfg \<Rightarrow> nat" where
  "CPU_NUM_PTE cfg = 2 ^ 16 div page_size cfg"

definition CPU_NUM_FRAMES :: "vm_cfg \<Rightarrow> nat" where
  "CPU_NUM_FRAMES cfg = mem_size cfg div page_size cfg"

definition PAGE_TABLE_LEN :: "vm_cfg \<Rightarrow> nat" where
  "PAGE_TABLE_LEN cfg = mem_size cfg div page_size cfg"

record pte_t =
  pfn :: nat
  pvalid :: bool
  pdirty :: bool
  pused :: bool

record tlbe_t =
  tvpn :: nat
  tpfn :: nat
  tvalid :: bool
  tdirty :: bool
  tused :: bool

record pcb_t =
  pid :: int
  pname :: string
  pagetable :: "nat option"

record rlt_t =
  rpcb :: "nat option"
  rvpn :: nat

record swap_page =
  spid :: int
  svpn :: nat
  sdata :: "u8 list"

record vm =
  cfg :: vm_cfg
  memory :: "u8 list"
  tables :: "(nat \<Rightarrow> pte_t) list"
  proc_list :: "pcb_t list"
  current :: "nat option"
  current_pagetable :: "nat option"
  rlt :: "rlt_t list"
  tlb :: "tlbe_t list"
  swapfile :: "swap_page list"
  clock_hand :: nat
  tlb_hand :: nat
  calloc_ok :: bool
  count_pagefaults :: u64
  count_tlbhits :: u64
  count_writes :: u64
  count_reads :: u64
  count_diskaccesses :: u64

definition zero_pte :: pte_t where
  "zero_pte = \<lparr>pfn = 0, pvalid = False, pdirty = False, pused = False\<rparr>"

definition zero_tlbe :: tlbe_t where
  "zero_tlbe = \<lparr>tvpn = 0, tpfn = 0, tvalid = False, tdirty = False, tused = False\<rparr>"

definition zero_pcb :: pcb_t where
  "zero_pcb = \<lparr>pid = 0, pname = [], pagetable = None\<rparr>"

definition zero_rlt :: rlt_t where
  "zero_rlt = \<lparr>rpcb = None, rvpn = 0\<rparr>"

section \<open>Splitting addresses: page-splitting.h\<close>

text \<open>\<open>LOG_2_INT\<close>: the integer part of the base-2 logarithm.\<close>

fun LOG_2_INT :: "nat \<Rightarrow> nat" where
  "LOG_2_INT n = (if n \<le> 1 then 0 else Suc (LOG_2_INT (n div 2)))"

declare LOG_2_INT.simps [simp del]

definition VADDR_PAGENUM :: "vm_cfg \<Rightarrow> nat \<Rightarrow> nat" where
  "VADDR_PAGENUM c addr = drop_bit (LOG_2_INT (page_size c)) addr"

definition VADDR_OFFSET :: "vm_cfg \<Rightarrow> nat \<Rightarrow> nat" where
  "VADDR_OFFSET c addr = nat (int addr AND NOT (push_bit (LOG_2_INT (page_size c)) (- 1)))"

section \<open>Page-table entries\<close>

text \<open>The entry \<open>v\<close> of the table object \<open>t\<close>; both the object and the index are checked.\<close>

definition get_pte :: "vm_cfg \<Rightarrow> (nat \<Rightarrow> pte_t) list \<Rightarrow> nat \<Rightarrow> nat \<Rightarrow> pte_t c" where
  "get_pte c ts t v = bindE (rd ts t) (\<lambda>tb.
     if v < CPU_NUM_PTE c then Inr (tb v) else Inl OutOfBounds)"

definition set_pte :: "(nat \<Rightarrow> pte_t) list \<Rightarrow> nat \<Rightarrow> nat \<Rightarrow> pte_t \<Rightarrow> (nat \<Rightarrow> pte_t) list" where
  "set_pte ts t v e = ts[t := (ts ! t)(v := e)]"

section \<open>The TLB: tlb.c\<close>

definition clear_tlbe :: "tlbe_t \<Rightarrow> tlbe_t" where
  "clear_tlbe e = e\<lparr>tvalid := False, tdirty := False, tused := False\<rparr>"

definition tlb_clearall :: "vm \<Rightarrow> vm" where
  "tlb_clearall s = s\<lparr>tlb := map clear_tlbe (tlb s)\<rparr>"

definition tlb_clearone :: "nat \<Rightarrow> vm \<Rightarrow> vm" where
  "tlb_clearone vpn s =
     s\<lparr>tlb := map (\<lambda>e. if tvpn e = vpn then clear_tlbe e else e) (tlb s)\<rparr>"

definition tlb_init :: "vm \<Rightarrow> vm c" where
  "tlb_init s = bindE (guardE ExitFailure (calloc_ok s)) (\<lambda>_.
     Inr (s\<lparr>tlb := replicate (tlb_size (cfg s)) zero_tlbe\<rparr>))"

section \<open>The swap file: swapfile.c\<close>

definition mem_read_page :: "u8 list \<Rightarrow> nat \<Rightarrow> nat \<Rightarrow> u8 list c" where
  "mem_read_page m base n =
     (if base + n \<le> length m then Inr (take n (drop base m)) else Inl OutOfBounds)"

definition mem_write_page :: "u8 list \<Rightarrow> nat \<Rightarrow> u8 list \<Rightarrow> u8 list c" where
  "mem_write_page m base d =
     (if base + length d \<le> length m then Inr (take base m @ d @ drop (base + length d) m)
      else Inl OutOfBounds)"

definition page_to_disk :: "nat \<Rightarrow> nat \<Rightarrow> int \<Rightarrow> vm \<Rightarrow> vm c" where
  "page_to_disk f v p s =
     (let s1 = s\<lparr>count_diskaccesses := count_diskaccesses s + 1\<rparr>
      in bindE (guardE ExitFailure (calloc_ok s1)) (\<lambda>_.
         bindE (mem_read_page (memory s1) (f * page_size (cfg s1)) (page_size (cfg s1))) (\<lambda>d.
         Inr (s1\<lparr>swapfile := \<lparr>spid = p, svpn = v, sdata = d\<rparr> # swapfile s1\<rparr>))))"

text \<open>\<open>page_from_disk\<close> walks the list to the first match, copies it in and unlinks it.\<close>

definition swap_match :: "int \<Rightarrow> nat \<Rightarrow> swap_page \<Rightarrow> bool" where
  "swap_match p v e \<longleftrightarrow> spid e = p \<and> svpn e = v"

fun swap_unlink :: "int \<Rightarrow> nat \<Rightarrow> swap_page list \<Rightarrow> swap_page list" where
  "swap_unlink p v [] = []"
| "swap_unlink p v (e # es) = (if swap_match p v e then es else e # swap_unlink p v es)"

definition page_from_disk :: "nat \<Rightarrow> nat \<Rightarrow> int \<Rightarrow> vm \<Rightarrow> vm c" where
  "page_from_disk f v p s =
     (let base = f * page_size (cfg s)
      in case List.find (swap_match p v) (swapfile s) of
           None \<Rightarrow> bindE (mem_write_page (memory s) base (replicate (page_size (cfg s)) 0)) (\<lambda>m.
             Inr (s\<lparr>memory := m\<rparr>))
         | Some e \<Rightarrow> bindE (mem_write_page (memory s) base (sdata e)) (\<lambda>m.
             Inr (s\<lparr>count_diskaccesses := count_diskaccesses s + 1, memory := m,
                    swapfile := swap_unlink p v (swapfile s)\<rparr>)))"

section \<open>Frame replacement: page-replacement.c\<close>

text \<open>The table object and index of the entry that maps the frame of an \<open>rlt\<close> entry.\<close>

definition frame_slot :: "pcb_t list \<Rightarrow> rlt_t \<Rightarrow> (nat \<times> nat) c" where
  "frame_slot ps r = bindE (deref (rpcb r)) (\<lambda>p. bindE (rd ps p) (\<lambda>b.
     bindE (deref (pagetable b)) (\<lambda>t. Inr (t, rvpn r))))"

fun first_free :: "rlt_t list \<Rightarrow> nat \<Rightarrow> nat \<Rightarrow> nat option c" where
  "first_free rs i 0 = Inr None"
| "first_free rs i (Suc k) = bindE (rd rs i) (\<lambda>r.
     if rpcb r = None then Inr (Some i) else first_free rs (Suc i) k)"

definition slot_used :: "vm_cfg \<Rightarrow> pcb_t list \<Rightarrow> (nat \<Rightarrow> pte_t) list \<Rightarrow> rlt_t \<Rightarrow> bool" where
  "slot_used c ps ts r =
     (case bindE (frame_slot ps r) (\<lambda>(t, v). get_pte c ts t v) of
        Inl e \<Rightarrow> False | Inr e \<Rightarrow> pused e)"

text \<open>The clock sweep: \<open>while (1)\<close> over the frames from the hand.\<close>

function clock_sweep ::
  "vm_cfg \<Rightarrow> pcb_t list \<Rightarrow> rlt_t list \<Rightarrow> nat \<Rightarrow> (nat \<Rightarrow> pte_t) list
     \<Rightarrow> (nat \<times> (nat \<Rightarrow> pte_t) list) c" where
  "clock_sweep c ps rs i ts =
     (case rd rs i of Inl e \<Rightarrow> Inl e | Inr r \<Rightarrow>
     (case frame_slot ps r of Inl e \<Rightarrow> Inl e | Inr (t, v) \<Rightarrow>
     (case get_pte c ts t v of Inl e \<Rightarrow> Inl e | Inr e \<Rightarrow>
        if pused e
        then clock_sweep c ps rs (if Suc i \<ge> PAGE_TABLE_LEN c then 0 else Suc i)
               (set_pte ts t v (e\<lparr>pused := False\<rparr>))
        else Inr (i, ts))))"
  by pat_completeness auto

lemma get_pte_set:
  "t < length ts \<Longrightarrow> v < CPU_NUM_PTE c \<Longrightarrow>
     get_pte c (set_pte ts t v e) t' v' = (if t' = t \<and> v' = v then Inr e else get_pte c ts t' v')"
  by (cases "t' = t") (auto simp: get_pte_def set_pte_def rd_def)

lemma get_pte_Inr:
  "get_pte c ts t v = Inr e \<longleftrightarrow> t < length ts \<and> v < CPU_NUM_PTE c \<and> e = (ts ! t) v"
  by (auto simp: get_pte_def rd_def)

lemma length_set_pte [simp]: "length (set_pte ts t v e) = length ts"
  by (simp add: set_pte_def)

lemma slot_used_clear:
  assumes "get_pte c ts t v = Inr e"
  shows "slot_used c ps (set_pte ts t v (e\<lparr>pused := False\<rparr>)) r \<longleftrightarrow>
    slot_used c ps ts r \<and> frame_slot ps r \<noteq> Inr (t, v)"
proof -
  have tv: "t < length ts" "v < CPU_NUM_PTE c" using assms by (simp_all add: get_pte_Inr)
  show ?thesis
  proof (cases "frame_slot ps r")
    case (Inl f)
    then show ?thesis by (simp add: slot_used_def)
  next
    case (Inr q)
    obtain a b where q: "q = (a, b)" by (cases q)
    show ?thesis
      using Inr q assms by (cases "a = t \<and> b = v") (auto simp: slot_used_def get_pte_set [OF tv])
  qed
qed

lemma length_filter_strict:
  assumes "\<And>x. x \<in> set xs \<Longrightarrow> Q x \<Longrightarrow> P x" and "x \<in> set xs" and "P x" and "\<not> Q x"
  shows "length (filter Q xs) < length (filter P xs)"
proof -
  have "length (filter Q xs) = length (filter Q (filter P xs))"
    using assms(1) by (simp add: filter_filter) (metis (mono_tags, lifting) filter_cong)
  also have "\<dots> < length (filter P xs)"
    using assms(2-4) by (intro length_filter_less [of x]) auto
  finally show ?thesis .
qed

termination clock_sweep
proof (relation "measure (\<lambda>(c, ps, rs, i, ts). length (filter (slot_used c ps ts) rs))", simp, goal_cases)
  case (1 c ps rs i ts r tv t v e)
  then have r: "r \<in> set rs" and slot: "frame_slot ps r = Inr (t, v)"
    and e: "get_pte c ts t v = Inr e" "pused e"
    by (auto simp: rd_Inr_iff)
  have u: "slot_used c ps ts r" using slot e by (simp add: slot_used_def)
  have "length (filter (slot_used c ps (set_pte ts t v (e\<lparr>pused := False\<rparr>))) rs)
      < length (filter (slot_used c ps ts) rs)"
    using r slot u
    by (intro length_filter_strict [of _ _ _ r]) (simp_all add: slot_used_clear [OF e(1)])
  then show ?case by simp
qed

declare clock_sweep.simps [simp del]

text \<open>The frame number is returned as a \<open>pfn_t\<close>, 16 bits.\<close>

definition get_free_frame :: "vm \<Rightarrow> (nat \<times> vm) c" where
  "get_free_frame s = bindE (first_free (rlt s) 0 (CPU_NUM_FRAMES (cfg s))) (\<lambda>f.
     case f of
       Some i \<Rightarrow> Inr (i mod 2 ^ 16, s)
     | None \<Rightarrow> bindE (clock_sweep (cfg s) (proc_list s) (rlt s) (clock_hand s) (tables s)) (\<lambda>(i, ts).
         Inr (i mod 2 ^ 16, s\<lparr>tables := ts, clock_hand := i + 1\<rparr>)))"

section \<open>The page-fault handler: page-fault.c\<close>

definition evict_victim :: "nat \<Rightarrow> vm \<Rightarrow> vm c" where
  "evict_victim f s = bindE (rd (rlt s) f) (\<lambda>r.
     case rpcb r of None \<Rightarrow> Inr s
     | Some p \<Rightarrow> bindE (rd (proc_list s) p) (\<lambda>b. bindE (deref (pagetable b)) (\<lambda>t.
         bindE (get_pte (cfg s) (tables s) t (rvpn r)) (\<lambda>e.
         if pvalid e
         then bindE (if pdirty e then page_to_disk f (rvpn r) (pid b) s else Inr s) (\<lambda>s1.
              Inr (tlb_clearone (rvpn r)
                (s1\<lparr>tables := set_pte (tables s1) t (rvpn r) (e\<lparr>pvalid := False\<rparr>)\<rparr>)))
         else Inr s))))"

definition pagefault_handler :: "nat \<Rightarrow> bool \<Rightarrow> vm \<Rightarrow> (nat \<times> vm) c" where
  "pagefault_handler v write s =
     bindE (guardE AssertFail (current_pagetable s \<noteq> None)) (\<lambda>_.
     bindE (get_free_frame s) (\<lambda>(f, s1).
     bindE (guardE AssertFail (f < CPU_NUM_FRAMES (cfg s1))) (\<lambda>_.
     bindE (evict_victim f s1) (\<lambda>s2.
     bindE (wr (rlt s2) f \<lparr>rpcb = current s2, rvpn = v\<rparr>) (\<lambda>rs.
     let s3 = s2\<lparr>rlt := rs\<rparr>
     in bindE (deref (current_pagetable s3)) (\<lambda>t.
        bindE (get_pte (cfg s3) (tables s3) t v) (\<lambda>_.
        let s4 = s3\<lparr>tables := set_pte (tables s3) t v
                      \<lparr>pfn = f, pvalid = True, pdirty = write, pused = True\<rparr>\<rparr>
        in bindE (deref (current s4)) (\<lambda>p. bindE (rd (proc_list s4) p) (\<lambda>b.
           bindE (page_from_disk f v (pid b) s4) (\<lambda>s5. Inr (f, s5)))))))))))"

section \<open>Page-table lookup: page-lookup.c\<close>

definition pagetable_lookup :: "nat \<Rightarrow> bool \<Rightarrow> vm \<Rightarrow> (nat \<times> vm) c" where
  "pagetable_lookup v write s =
     bindE (deref (current_pagetable s)) (\<lambda>t.
     bindE (get_pte (cfg s) (tables s) t v) (\<lambda>e.
     bindE (if \<not> pvalid e
            then bindE (pagefault_handler v write
                   (s\<lparr>count_pagefaults := count_pagefaults s + 1\<rparr>)) (\<lambda>(f, s'). Inr s')
            else Inr s) (\<lambda>s1.
     bindE (get_pte (cfg s1) (tables s1) t v) (\<lambda>e1.
     let e2 = (if write then e1\<lparr>pdirty := True\<rparr> else e1)\<lparr>pused := True\<rparr>
     in Inr (pfn e2, s1\<lparr>tables := set_pte (tables s1) t v e2\<rparr>)))))"

section \<open>TLB lookup: tlb-lookup.c\<close>

text \<open>
  The search loop. The PID test dereferences the reverse lookup table only for a valid entry
  with the right page number, as the short-circuit \<open>&&\<close> does.
\<close>

fun tlb_search :: "vm \<Rightarrow> nat \<Rightarrow> nat \<Rightarrow> nat \<Rightarrow> nat option c" where
  "tlb_search s v i 0 = Inr None"
| "tlb_search s v i (Suc k) = bindE (rd (tlb s) i) (\<lambda>e.
     if tvalid e \<and> tvpn e = v
     then bindE (rd (rlt s) (tpfn e)) (\<lambda>r. bindE (deref (rpcb r)) (\<lambda>p.
          bindE (rd (proc_list s) p) (\<lambda>b. bindE (deref (current s)) (\<lambda>q.
          bindE (rd (proc_list s) q) (\<lambda>cb.
          if pid b = pid cb then Inr (Some (tpfn e)) else tlb_search s v (Suc i) k)))))
     else tlb_search s v (Suc i) k)"

fun tlb_first_invalid :: "tlbe_t list \<Rightarrow> nat \<Rightarrow> nat \<Rightarrow> nat option c" where
  "tlb_first_invalid es i 0 = Inr None"
| "tlb_first_invalid es i (Suc k) = bindE (rd es i) (\<lambda>e.
     if \<not> tvalid e then Inr (Some i) else tlb_first_invalid es (Suc i) k)"

function tlb_sweep :: "nat \<Rightarrow> nat \<Rightarrow> tlbe_t list \<Rightarrow> (nat \<times> tlbe_t list) c" where
  "tlb_sweep n i es =
     (let j = (if Suc i \<ge> n then 0 else Suc i)
      in case rd es j of Inl e \<Rightarrow> Inl e | Inr e \<Rightarrow>
           if \<not> tused e then Inr (j, es) else tlb_sweep n j (es[j := e\<lparr>tused := False\<rparr>]))"
  by pat_completeness auto
termination
proof (relation "measure (\<lambda>(n, i, es). length (filter tused es))", simp, goal_cases)
  case (1 n i es j e)
  then have j: "j < length es" "tused (es ! j)" and e: "e = es ! j" by (auto simp: rd_Inr_iff)
  have "filter tused (es[j := e\<lparr>tused := False\<rparr>]) =
      filter tused (take j es) @ filter tused (drop (Suc j) es)"
    using j by (simp add: upd_conv_take_nth_drop)
  moreover have "filter tused es =
      filter tused (take j es) @ es ! j # filter tused (drop (Suc j) es)"
    using j by (subst id_take_nth_drop [of j es]) simp_all
  ultimately show ?case by simp
qed

declare tlb_sweep.simps [simp del]

definition tlb_lookup :: "nat \<Rightarrow> bool \<Rightarrow> vm \<Rightarrow> (nat \<times> vm) c" where
  "tlb_lookup v write s =
     bindE (tlb_search s v 0 (tlb_size (cfg s))) (\<lambda>h.
     case h of
       Some f \<Rightarrow> Inr (f, s\<lparr>count_tlbhits := count_tlbhits s + 1\<rparr>)
     | None \<Rightarrow>
         bindE (pagetable_lookup v write s) (\<lambda>(f, s1).
         bindE (tlb_first_invalid (tlb s1) 0 (tlb_size (cfg s1))) (\<lambda>fi.
         bindE (case fi of Some i \<Rightarrow> Inr (i, tlb s1)
                | None \<Rightarrow> tlb_sweep (tlb_size (cfg s1)) (tlb_hand s1) (tlb s1)) (\<lambda>(i, es).
         bindE (wr es i \<lparr>tvpn = v, tpfn = f, tvalid = True, tdirty = write, tused = True\<rparr>) (\<lambda>es'.
         let s2 = s1\<lparr>tlb_hand := i, tlb := es'\<rparr>
         in if write
            then bindE (deref (current_pagetable s2)) (\<lambda>t.
                 bindE (get_pte (cfg s2) (tables s2) t v) (\<lambda>e.
                 Inr (f, s2\<lparr>tables := set_pte (tables s2) t v (e\<lparr>pdirty := True, pused := True\<rparr>)\<rparr>)))
            else Inr (f, s2))))))"

section \<open>Loads and stores: memory.c\<close>

definition mem_load :: "nat \<Rightarrow> vm \<Rightarrow> (u8 \<times> vm) c" where
  "mem_load va s =
     (let v = VADDR_PAGENUM (cfg s) va; off = VADDR_OFFSET (cfg s) va
      in bindE (tlb_lookup v False s) (\<lambda>(f, s1).
         bindE (rd (memory s1) (f * page_size (cfg s1) + off)) (\<lambda>d.
         Inr (d, s1\<lparr>count_reads := count_reads s1 + 1\<rparr>))))"

definition mem_store :: "nat \<Rightarrow> u8 \<Rightarrow> vm \<Rightarrow> vm c" where
  "mem_store va d s =
     (let v = VADDR_PAGENUM (cfg s) va; off = VADDR_OFFSET (cfg s) va
      in bindE (tlb_lookup v True s) (\<lambda>(f, s1).
         let s2 = s1\<lparr>count_writes := count_writes s1 + 1\<rparr>
         in bindE (wr (memory s2) (f * page_size (cfg s2) + off) d) (\<lambda>m.
            Inr (s2\<lparr>memory := m\<rparr>))))"

text \<open>\<open>mem_print\<close> dumps whole rows of four bytes; the bytes it reads are the result.\<close>

definition mem_print :: "nat \<Rightarrow> nat \<Rightarrow> vm \<Rightarrow> u8 list c" where
  "mem_print low high s =
     (let l = low - low mod 4; h = high + (3 - high mod 4)
      in if h < length (memory s) then Inr (map (\<lambda>i. memory s ! i) [l..<Suc h]) else Inl OutOfBounds)"

definition mem_init :: "vm \<Rightarrow> vm c" where
  "mem_init s = bindE (guardE ExitFailure (calloc_ok s)) (\<lambda>_.
     Inr (s\<lparr>memory := replicate (mem_size (cfg s)) 0\<rparr>))"

section \<open>Processes: process.c\<close>

text \<open>
  \<open>pid < max_jobs\<close> compares an \<open>int\<close> with an \<open>unsigned\<close>, so a negative \<open>pid\<close> is a large
  number and fails the test. \<open>strncpy\<close> keeps at most 20 characters of the name.
\<close>

definition pid_in_range :: "vm_cfg \<Rightarrow> int \<Rightarrow> bool" where
  "pid_in_range c p \<longleftrightarrow> 0 \<le> p \<and> p < int (max_jobs c)"

definition proc_fork :: "int \<Rightarrow> string \<Rightarrow> vm \<Rightarrow> vm c" where
  "proc_fork p nm s =
     bindE (guardE AssertFail (pid_in_range (cfg s) p)) (\<lambda>_.
     bindE (guardE ExitFailure (calloc_ok s)) (\<lambda>_.
     bindE (wr (proc_list s) (nat p)
       \<lparr>pid = p, pname = take 20 nm, pagetable = Some (length (tables s))\<rparr>) (\<lambda>ps.
     Inr (s\<lparr>tables := tables s @ [\<lambda>_. zero_pte], proc_list := ps\<rparr>))))"

definition proc_switch :: "int \<Rightarrow> vm \<Rightarrow> vm c" where
  "proc_switch p s =
     bindE (guardE AssertFail (pid_in_range (cfg s) p)) (\<lambda>_.
     bindE (rd (proc_list s) (nat p)) (\<lambda>b.
     bindE (guardE AssertFail (pagetable b \<noteq> None)) (\<lambda>_.
     Inr (tlb_clearall (s\<lparr>current := Some (nat p), current_pagetable := pagetable b\<rparr>)))))"

definition proc_getname :: "int \<Rightarrow> vm \<Rightarrow> string c" where
  "proc_getname p s =
     bindE (guardE AssertFail (pid_in_range (cfg s) p)) (\<lambda>_.
     bindE (rd (proc_list s) (nat p)) (\<lambda>b. Inr (pname b)))"

definition proc_init :: "vm \<Rightarrow> vm c" where
  "proc_init s = bindE (guardE ExitFailure (calloc_ok s)) (\<lambda>_.
     Inr (s\<lparr>proc_list := replicate (max_jobs (cfg s)) zero_pcb,
            rlt := replicate (CPU_NUM_FRAMES (cfg s)) zero_rlt\<rparr>))"

section \<open>Effective access time: emat.c\<close>

text \<open>
  The counters are \<open>unsigned long\<close> and the sums wrap; \<open>tlb_misses * 2 * MEMORY_ACCESS_TIME\<close> is
  signed. The conversion to \<open>double\<close> and the division are parameters.
\<close>

definition compute_emat :: "(int \<Rightarrow> 'd) \<Rightarrow> ('d \<Rightarrow> 'd \<Rightarrow> 'd) \<Rightarrow> vm \<Rightarrow> 'd c" where
  "compute_emat of_long fdiv s =
     (let total = sint (count_writes s + count_reads s);
          misses = sint (of_int total - count_tlbhits s)
      in bindE (guardE SignedOverflow (in_i64 (misses * 2) \<and> in_i64 (misses * 2 * 100))) (\<lambda>_.
         let time = sint (count_tlbhits s * 100 + of_int (misses * 2 * 100) +
                          count_pagefaults s * 10000000)
         in Inr (fdiv (of_long time) (of_long total))))"

section \<open>The command loop: sim.c\<close>

text \<open>
  \<open>sim_setoptions\<close> over the option letters and arguments \<open>getopt\<close> delivers (a bad option is
  the letter \<open>?\<close>); \<open>file_given\<close> says whether an operand is left.
\<close>

definition option_value :: "string \<Rightarrow> int \<Rightarrow> int \<Rightarrow> int c" where
  "option_value arg lo hi = bindE (guardE ExitFailure (\<not> (atoi arg > hi \<or> atoi arg < lo)))
     (\<lambda>_. Inr (atoi arg))"

definition set_option :: "char \<times> string \<Rightarrow> vm_cfg \<Rightarrow> vm_cfg c" where
  "set_option = (\<lambda>(ch, arg) c.
     if ch = CHR ''p'' then bindE (option_value arg 1 16) (\<lambda>n. Inr (c\<lparr>page_size := 2 ^ nat n\<rparr>))
     else if ch = CHR ''m'' then bindE (option_value arg 1 20) (\<lambda>n. Inr (c\<lparr>mem_size := 2 ^ nat n\<rparr>))
     else if ch = CHR ''t'' then bindE (option_value arg 0 255) (\<lambda>n. Inr (c\<lparr>tlb_size := nat n\<rparr>))
     else if ch = CHR ''j'' then bindE (option_value arg 0 32) (\<lambda>n. Inr (c\<lparr>max_jobs := nat n\<rparr>))
     else Inl ExitFailure)"

fun set_options :: "(char \<times> string) list \<Rightarrow> vm_cfg \<Rightarrow> vm_cfg c" where
  "set_options [] c = Inr c"
| "set_options (p # ps) c = bindE (set_option p c) (set_options ps)"

definition sim_setoptions :: "(char \<times> string) list \<Rightarrow> bool \<Rightarrow> vm_cfg c" where
  "sim_setoptions opts file_given = bindE (set_options opts default_cfg) (\<lambda>c.
     bindE (guardE ExitFailure file_given) (\<lambda>_.
     bindE (guardE ExitFailure (page_size c \<le> mem_size c)) (\<lambda>_. Inr c)))"

definition sim_init :: "vm \<Rightarrow> vm c" where
  "sim_init s = bindE (mem_init s) (\<lambda>s1. bindE (proc_init s1) tlb_init)"

definition boot_vm :: "vm_cfg \<Rightarrow> vm" where
  "boot_vm c = \<lparr>cfg = c, memory = [], tables = [], proc_list = [], current = None,
     current_pagetable = None, rlt = [], tlb = [], swapfile = [], clock_hand = 0, tlb_hand = 0,
     calloc_ok = True, count_pagefaults = 0, count_tlbhits = 0, count_writes = 0,
     count_reads = 0, count_diskaccesses = 0\<rparr>"

text \<open>What a line of the references file makes the simulator print.\<close>

datatype vm_out =
    Forked int
  | TooManyJobs
  | LoadComplete u8
  | LoadError u8 u8
  | StoreComplete
  | Ignored

definition switch_if_needed :: "int \<Rightarrow> vm \<Rightarrow> vm c" where
  "switch_if_needed p s =
     bindE (case current s of None \<Rightarrow> Inr True
            | Some q \<Rightarrow> bindE (rd (proc_list s) q) (\<lambda>b. Inr (pid b \<noteq> p))) (\<lambda>need.
     if need then bindE (proc_getname p s) (\<lambda>_. proc_switch p s) else Inr s)"

definition whitespace :: "char \<Rightarrow> bool" where
  "whitespace ch \<longleftrightarrow> char_code ch \<in> {32, 9, 10, 13}"

text \<open>
  One line: the first character of the first token selects the command, and a missing token is
  a NULL pointer the code dereferences (in \<open>cmd[0]\<close> for a blank line, in \<open>atoi\<close> for a
  missing number, in \<open>strncpy\<close> for a missing process name). Numbers are truncated to their C
  types: \<open>vaddr_t\<close> is 16 bits, \<open>word_t\<close> is 8.
\<close>

datatype vm_cmd =
    Fork int "string option"
  | Load int nat u8
  | Store int nat u8
  | Other

definition tok :: "string list \<Rightarrow> nat \<Rightarrow> string option" where
  "tok ts i = (if i < length ts then Some (ts ! i) else None)"

definition to_vaddr :: "int \<Rightarrow> nat" where
  "to_vaddr x = nat (x mod 2 ^ 16)"

definition parse_line :: "string \<Rightarrow> vm_cmd c" where
  "parse_line ln =
     (let ts = tokens_of whitespace ln
      in bindE (deref (tok ts 0)) (\<lambda>cmd.
         if hd cmd = CHR ''@'' then
           bindE (deref (tok ts 1)) (\<lambda>a1. Inr (Fork (atoi a1) (tok ts 2)))
         else if hd cmd = CHR ''l'' then
           bindE (deref (tok ts 1)) (\<lambda>a1. bindE (deref (tok ts 2)) (\<lambda>a2.
           bindE (deref (tok ts 3)) (\<lambda>a3.
             Inr (Load (atoi a1) (to_vaddr (atoi a2)) (of_int (atoi a3))))))
         else if hd cmd = CHR ''s'' then
           bindE (deref (tok ts 1)) (\<lambda>a1. bindE (deref (tok ts 2)) (\<lambda>a2.
           bindE (deref (tok ts 3)) (\<lambda>a3.
             Inr (Store (atoi a1) (to_vaddr (atoi a2)) (of_int (atoi a3))))))
         else Inr Other))"

fun exec_cmd :: "vm_cmd \<Rightarrow> vm \<Rightarrow> (vm_out \<times> vm) c" where
  "exec_cmd (Fork p nm) s =
     (if pid_in_range (cfg s) p
      then bindE (deref nm) (\<lambda>n. bindE (proc_fork p n s) (\<lambda>s'. Inr (Forked p, s')))
      else Inr (TooManyJobs, s))"
| "exec_cmd (Load p va want) s =
     (if \<not> pid_in_range (cfg s) p then Inr (Ignored, s)
      else bindE (switch_if_needed p s) (\<lambda>s1. bindE (mem_load va s1) (\<lambda>(d, s2).
           if d \<noteq> want then bindE (mem_print 0 12 s2) (\<lambda>_. Inr (LoadError d want, s2))
           else Inr (LoadComplete d, s2))))"
| "exec_cmd (Store p va d) s =
     (if \<not> pid_in_range (cfg s) p then Inr (Ignored, s)
      else bindE (switch_if_needed p s) (\<lambda>s1. bindE (mem_store va d s1) (\<lambda>s2.
           Inr (StoreComplete, s2))))"
| "exec_cmd Other s = Inr (Ignored, s)"

fun exec_cmds :: "vm_cmd list \<Rightarrow> vm \<Rightarrow> (vm_out list \<times> vm) c" where
  "exec_cmds [] s = Inr ([], s)"
| "exec_cmds (x # xs) s =
     bindE (exec_cmd x s) (\<lambda>(out, s1). bindE (exec_cmds xs s1) (\<lambda>(outs, s2).
       Inr (out # outs, s2)))"

fun sim_readdata :: "string list \<Rightarrow> vm \<Rightarrow> (vm_out list \<times> vm) c" where
  "sim_readdata [] s = Inr ([], s)"
| "sim_readdata (ln # lns) s =
     bindE (parse_line ln) (\<lambda>x.
     bindE (exec_cmd x s) (\<lambda>(out, s1). bindE (sim_readdata lns s1) (\<lambda>(outs, s2).
       Inr (out # outs, s2))))"

end
