(* ===== verification/VmProofs.thy ===== *)
theory VmProofs
  imports Vm
begin

text \<open>
  Correctness of the virtual-memory simulator. \<open>page_of s p v\<close> is the content of page \<open>v\<close> of
  process \<open>p\<close>, wherever it lives: in its frame, in the swap file, or nowhere yet (zeros). The
  well-formedness \<open>vm_wf\<close> relates page tables, reverse lookup table, TLB, swap file and memory,
  and every operation keeps it. A load returns the abstract content; a fault changes no page
  other than a victim it drops without writing it back.
\<close>

section \<open>Address arithmetic\<close>

lemma LOG_2_INT_power [simp]: "LOG_2_INT (2 ^ k) = k"
proof (induction k)
  case 0
  show ?case by (simp add: LOG_2_INT.simps)
next
  case (Suc k)
  have "\<not> (2 :: nat) ^ Suc k \<le> 1"
    using one_less_power [of "2 :: nat" "Suc k"] by linarith
  then show ?case using Suc.IH by (subst LOG_2_INT.simps) simp
qed

lemma and_mask_nat: "nat (int x AND mask k) = x mod 2 ^ k"
proof -
  have "int x AND mask k = int (x mod 2 ^ k)"
    by (simp only: take_bit_eq_mask [symmetric] take_bit_eq_mod of_nat_mod of_nat_power of_nat_numeral)
  then show ?thesis by simp
qed

definition cfg_ok :: "vm_cfg \<Rightarrow> bool" where
  "cfg_ok c \<longleftrightarrow> (\<exists>k \<le> 16. page_size c = 2 ^ k) \<and>
     mem_size c = CPU_NUM_FRAMES c * page_size c \<and>
     1 \<le> CPU_NUM_FRAMES c \<and> CPU_NUM_FRAMES c \<le> 2 ^ 16 \<and> 1 \<le> tlb_size c"

lemma cfg_ok_page: "cfg_ok c \<Longrightarrow> 0 < page_size c"
  by (auto simp: cfg_ok_def)

lemma PAGE_TABLE_LEN_frames: "PAGE_TABLE_LEN c = CPU_NUM_FRAMES c"
  by (simp add: PAGE_TABLE_LEN_def CPU_NUM_FRAMES_def)

lemma VADDR_PAGENUM_div: "cfg_ok c \<Longrightarrow> VADDR_PAGENUM c a = a div page_size c"
  by (auto simp: cfg_ok_def VADDR_PAGENUM_def drop_bit_eq_div)

lemma VADDR_OFFSET_mod: "cfg_ok c \<Longrightarrow> VADDR_OFFSET c a = a mod page_size c"
  by (auto simp: cfg_ok_def VADDR_OFFSET_def and_mask_nat)

lemma VADDR_in_range:
  assumes "cfg_ok c" and "a < 2 ^ 16"
  shows "VADDR_PAGENUM c a < CPU_NUM_PTE c"
proof -
  obtain k where k: "k \<le> 16" "page_size c = 2 ^ k" using assms by (auto simp: cfg_ok_def)
  have e: "(2 :: nat) ^ 16 = 2 ^ (16 - k) * 2 ^ k"
    using k(1) by (simp flip: power_add)
  have "a div 2 ^ k < 2 ^ (16 - k)"
    using assms(2) e by (simp add: div_less_iff_less_mult)
  moreover have "CPU_NUM_PTE c = 2 ^ (16 - k)"
    unfolding CPU_NUM_PTE_def k(2) e by simp
  ultimately show ?thesis using k by (simp add: VADDR_PAGENUM_div [OF assms(1)])
qed

section \<open>Abstraction and well-formedness\<close>

definition pte_at :: "vm \<Rightarrow> nat \<Rightarrow> nat \<Rightarrow> pte_t option" where
  "pte_at s p v =
     (if p < length (proc_list s) then map_option (\<lambda>t. (tables s ! t) v) (pagetable (proc_list s ! p))
      else None)"

definition resident :: "vm \<Rightarrow> nat \<Rightarrow> nat \<Rightarrow> nat option" where
  "resident s p v = (case pte_at s p v of None \<Rightarrow> None
     | Some e \<Rightarrow> if pvalid e then Some (pfn e) else None)"

definition frame_data :: "vm \<Rightarrow> nat \<Rightarrow> u8 list" where
  "frame_data s f = take (page_size (cfg s)) (drop (f * page_size (cfg s)) (memory s))"

definition swapped :: "vm \<Rightarrow> nat \<Rightarrow> nat \<Rightarrow> u8 list option" where
  "swapped s p v = map_option sdata (List.find (swap_match (int p) v) (swapfile s))"

definition page_of :: "vm \<Rightarrow> nat \<Rightarrow> nat \<Rightarrow> u8 list" where
  "page_of s p v = (case resident s p v of Some f \<Rightarrow> frame_data s f
     | None \<Rightarrow> (case swapped s p v of Some d \<Rightarrow> d | None \<Rightarrow> replicate (page_size (cfg s)) 0))"

text \<open>The pieces of well-formedness.\<close>

definition wf_shape :: "vm \<Rightarrow> bool" where
  "wf_shape s \<longleftrightarrow> cfg_ok (cfg s) \<and> calloc_ok s \<and> length (memory s) = mem_size (cfg s) \<and>
     length (rlt s) = CPU_NUM_FRAMES (cfg s) \<and> length (tlb s) = tlb_size (cfg s) \<and>
     length (proc_list s) = max_jobs (cfg s) \<and> clock_hand s \<le> CPU_NUM_FRAMES (cfg s)"

definition wf_procs :: "vm \<Rightarrow> bool" where
  "wf_procs s \<longleftrightarrow>
     (\<forall>p < length (proc_list s). \<forall>t. pagetable (proc_list s ! p) = Some t \<longrightarrow>
        t < length (tables s) \<and> pid (proc_list s ! p) = int p) \<and>
     (\<forall>p < length (proc_list s). \<forall>q < length (proc_list s). \<forall>t.
        pagetable (proc_list s ! p) = Some t \<and> pagetable (proc_list s ! q) = Some t \<longrightarrow> p = q)"

definition wf_current :: "vm \<Rightarrow> bool" where
  "wf_current s \<longleftrightarrow> (case current s of None \<Rightarrow> current_pagetable s = None
     | Some p \<Rightarrow> p < length (proc_list s) \<and> current_pagetable s \<noteq> None \<and>
         pagetable (proc_list s ! p) = current_pagetable s)"

definition wf_frames :: "vm \<Rightarrow> bool" where
  "wf_frames s \<longleftrightarrow>
     (\<forall>p v f. resident s p v = Some f \<longrightarrow> f < CPU_NUM_FRAMES (cfg s) \<and>
        rlt s ! f = \<lparr>rpcb = Some p, rvpn = v\<rparr>) \<and>
     (\<forall>i < CPU_NUM_FRAMES (cfg s). \<forall>p. rpcb (rlt s ! i) = Some p \<longrightarrow>
        rvpn (rlt s ! i) < CPU_NUM_PTE (cfg s) \<and> p < length (proc_list s) \<and>
        resident s p (rvpn (rlt s ! i)) = Some i)"

definition wf_tlb :: "vm \<Rightarrow> bool" where
  "wf_tlb s \<longleftrightarrow> (\<forall>e \<in> set (tlb s). tvalid e \<longrightarrow>
     (\<exists>p. current s = Some p \<and> resident s p (tvpn e) = Some (tpfn e)))"

definition wf_swap :: "vm \<Rightarrow> bool" where
  "wf_swap s \<longleftrightarrow> distinct (map (\<lambda>e. (spid e, svpn e)) (swapfile s)) \<and>
     (\<forall>e \<in> set (swapfile s). length (sdata e) = page_size (cfg s) \<and>
        (\<forall>p. spid e = int p \<longrightarrow> resident s p (svpn e) = None))"

definition vm_wf :: "vm \<Rightarrow> bool" where
  "vm_wf s \<longleftrightarrow> wf_shape s \<and> wf_procs s \<and> wf_current s \<and> wf_frames s \<and> wf_tlb s \<and> wf_swap s"

lemmas wf_defs = vm_wf_def wf_shape_def wf_procs_def wf_current_def wf_frames_def wf_tlb_def
  wf_swap_def

section \<open>Frames of the memory\<close>

lemma frame_before:
  assumes "g < f" and "i < n"
  shows "g * n + i < f * (n :: nat)"
proof -
  have "g * n + n \<le> f * n"
    using mult_le_mono1 [of "Suc g" f n] assms(1) by simp
  then show ?thesis using assms(2) by simp
qed

lemma frame_end: "f < m \<Longrightarrow> f * n + n \<le> m * (n :: nat)"
  using mult_le_mono1 [of "Suc f" m n] by simp

lemma frame_take_nth:
  assumes "g * n + n \<le> length m" and "i < n"
  shows "take n (drop (g * n) m) ! i = m ! (g * n + i)"
  using assms by simp

lemma frame_write:
  assumes "f * n + n \<le> length m" and "g * n + n \<le> length m" and "length d = n"
  shows "take n (drop (g * n) (take (f * n) m @ d @ drop (f * n + n) m)) =
    (if g = f then d else take n (drop (g * n) m))"
proof (cases "g = f")
  case True
  then show ?thesis using assms by simp
next
  case False
  define m' where "m' = take (f * n) m @ d @ drop (f * n + n) m"
  have len: "length m' = length m" using assms by (simp add: m'_def)
  have "m' ! (g * n + i) = m ! (g * n + i)" if i: "i < n" for i
  proof (cases "g < f")
    case True
    from frame_before [OF this i] show ?thesis using assms by (simp add: m'_def nth_append)
  next
    case nle: False
    with False have "f < g" by simp
    then have le: "f * n + n \<le> g * n" by (rule frame_end)
    define j where "j = g * n + i - (f * n + n)"
    have j: "g * n + i = f * n + n + j" using le by (simp add: j_def)
    show ?thesis
      unfolding j m'_def using assms i j by (simp add: nth_append)
  qed
  then have "take n (drop (g * n) m') = take n (drop (g * n) m)"
    using assms len by (intro nth_equalityI) simp_all
  then show ?thesis using False by (simp add: m'_def)
qed

lemma frame_update:
  assumes "f * n + n \<le> length m" and "g * n + n \<le> length m" and "off < n"
  shows "take n (drop (g * n) (m[f * n + off := x])) =
    (if g = f then (take n (drop (f * n) m))[off := x] else take n (drop (g * n) m))"
proof (cases "g = f")
  case True
  then show ?thesis
    by (simp add: drop_update_swap take_update_swap)
next
  case False
  then have "f * n + off \<noteq> g * n + i" if "i < n" for i
    using frame_before [of f g off n] frame_before [of g f i n] that assms(3)
    by (cases "f < g") auto
  then show ?thesis
    using False assms by (intro nth_equalityI) (auto simp: nth_list_update)
qed

section \<open>Residence\<close>

lemma resident_simps [simp]:
  "resident (s\<lparr>memory := m\<rparr>) = resident s"
  "resident (s\<lparr>current := c\<rparr>) = resident s"
  "resident (s\<lparr>current_pagetable := t\<rparr>) = resident s"
  "resident (s\<lparr>rlt := r\<rparr>) = resident s"
  "resident (s\<lparr>tlb := b\<rparr>) = resident s"
  "resident (s\<lparr>swapfile := w\<rparr>) = resident s"
  "resident (s\<lparr>clock_hand := h\<rparr>) = resident s"
  "resident (s\<lparr>tlb_hand := h\<rparr>) = resident s"
  "resident (s\<lparr>count_pagefaults := k\<rparr>) = resident s"
  "resident (s\<lparr>count_tlbhits := k\<rparr>) = resident s"
  "resident (s\<lparr>count_writes := k\<rparr>) = resident s"
  "resident (s\<lparr>count_reads := k\<rparr>) = resident s"
  "resident (s\<lparr>count_diskaccesses := k\<rparr>) = resident s"
  by (simp_all add: resident_def pte_at_def fun_eq_iff)

lemma frame_data_simps [simp]:
  "frame_data (s\<lparr>tables := ts\<rparr>) = frame_data s"
  "frame_data (s\<lparr>rlt := r\<rparr>) = frame_data s"
  "frame_data (s\<lparr>tlb := b\<rparr>) = frame_data s"
  "frame_data (s\<lparr>swapfile := w\<rparr>) = frame_data s"
  "frame_data (s\<lparr>clock_hand := h\<rparr>) = frame_data s"
  "frame_data (s\<lparr>tlb_hand := h\<rparr>) = frame_data s"
  by (simp_all add: frame_data_def fun_eq_iff)

lemma swapped_simps [simp]:
  "swapped (s\<lparr>tables := ts\<rparr>) = swapped s"
  "swapped (s\<lparr>memory := m\<rparr>) = swapped s"
  "swapped (s\<lparr>rlt := r\<rparr>) = swapped s"
  "swapped (s\<lparr>tlb := b\<rparr>) = swapped s"
  "swapped (s\<lparr>clock_hand := h\<rparr>) = swapped s"
  "swapped (s\<lparr>tlb_hand := h\<rparr>) = swapped s"
  by (simp_all add: swapped_def fun_eq_iff)

lemma resident_cong:
  assumes "wf_procs s" and "proc_list s' = proc_list s"
    and "\<And>t v. t < length (tables s) \<Longrightarrow> pvalid ((tables s' ! t) v) = pvalid ((tables s ! t) v) \<and>
      pfn ((tables s' ! t) v) = pfn ((tables s ! t) v)"
  shows "resident s' = resident s"
  using assms by (auto simp: resident_def pte_at_def fun_eq_iff wf_procs_def split: option.splits)

lemma resident_set_pte:
  assumes "wf_procs s" and "p < length (proc_list s)" and "pagetable (proc_list s ! p) = Some t"
  shows "resident (s\<lparr>tables := set_pte (tables s) t w e\<rparr>) =
    (\<lambda>p' v'. if p' = p \<and> v' = w then (if pvalid e then Some (pfn e) else None)
             else resident s p' v')"
proof (intro ext)
  fix p' v'
  have t: "t < length (tables s)" using assms by (auto simp: wf_procs_def)
  have d: "p' = p" if "p' < length (proc_list s)" "pagetable (proc_list s ! p') = Some t"
    using assms that by (auto simp: wf_procs_def)
  show "resident (s\<lparr>tables := set_pte (tables s) t w e\<rparr>) p' v' =
    (if p' = p \<and> v' = w then (if pvalid e then Some (pfn e) else None) else resident s p' v')"
  proof (cases "p' < length (proc_list s) \<and> pagetable (proc_list s ! p') = Some t")
    case True
    with d have "p' = p" by blast
    with assms t show ?thesis by (simp add: resident_def pte_at_def set_pte_def)
  next
    case False
    then have "p' \<noteq> p" using assms by auto
    with False show ?thesis
      by (cases "pagetable (proc_list s ! p')"; cases "p' < length (proc_list s)")
        (simp_all add: resident_def pte_at_def set_pte_def)
  qed
qed

lemma vm_wf_cong:
  assumes "vm_wf s" and "cfg s' = cfg s" and "calloc_ok s' = calloc_ok s"
    and "length (memory s') = length (memory s)" and "rlt s' = rlt s" and "tlb s' = tlb s"
    and "proc_list s' = proc_list s" and "clock_hand s' \<le> CPU_NUM_FRAMES (cfg s)"
    and "current s' = current s" and "current_pagetable s' = current_pagetable s"
    and "length (tables s') = length (tables s)" and "resident s' = resident s"
    and "swapfile s' = swapfile s"
  shows "vm_wf s'"
proof -
  note eqs = assms(2-)
  have "wf_shape s'" using assms(1) eqs by (simp add: vm_wf_def wf_shape_def)
  moreover have "wf_procs s'" using assms(1) eqs by (simp add: vm_wf_def wf_procs_def)
  moreover have "wf_current s'"
    using assms(1) eqs by (simp add: vm_wf_def wf_current_def split: option.splits)
  moreover have "wf_frames s'" using assms(1) eqs by (simp add: vm_wf_def wf_frames_def)
  moreover have "wf_tlb s'" using assms(1) eqs by (simp add: vm_wf_def wf_tlb_def)
  moreover have "wf_swap s'" using assms(1) eqs by (simp add: vm_wf_def wf_swap_def)
  ultimately show ?thesis by (simp add: vm_wf_def)
qed

section \<open>Finding a frame\<close>

lemma first_free_spec:
  "i + k \<le> length rs \<Longrightarrow> \<exists>x. first_free rs i k = Inr x \<and>
     (case x of None \<Rightarrow> \<forall>j. i \<le> j \<and> j < i + k \<longrightarrow> rpcb (rs ! j) \<noteq> None
      | Some j \<Rightarrow> i \<le> j \<and> j < i + k \<and> rpcb (rs ! j) = None)"
proof (induction k arbitrary: i)
  case 0
  then show ?case by auto
next
  case (Suc k)
  show ?case
  proof (cases "rpcb (rs ! i)")
    case None
    with Suc.prems show ?thesis by simp
  next
    case (Some p)
    from Suc.IH [of "Suc i"] Suc.prems obtain x where x: "first_free rs (Suc i) k = Inr x"
      "case x of None \<Rightarrow> \<forall>j. Suc i \<le> j \<and> j < Suc i + k \<longrightarrow> rpcb (rs ! j) \<noteq> None
       | Some j \<Rightarrow> Suc i \<le> j \<and> j < Suc i + k \<and> rpcb (rs ! j) = None"
      by auto
    have "case x of None \<Rightarrow> \<forall>j. i \<le> j \<and> j < i + Suc k \<longrightarrow> rpcb (rs ! j) \<noteq> None
       | Some j \<Rightarrow> i \<le> j \<and> j < i + Suc k \<and> rpcb (rs ! j) = None"
    proof (cases x)
      case None
      then show ?thesis using x Some
        by simp (metis Suc_leI add_Suc_right le_neq_implies_less option.distinct(1))
    next
      case (Some a)
      with x show ?thesis by simp
    qed
    then show ?thesis using x(1) Some Suc.prems by simp
  qed
qed

text \<open>Two table heaps that differ at most in the used bits.\<close>

definition same_core :: "(nat \<Rightarrow> pte_t) list \<Rightarrow> (nat \<Rightarrow> pte_t) list \<Rightarrow> bool" where
  "same_core ts ts' \<longleftrightarrow> length ts' = length ts \<and>
     (\<forall>t < length ts. \<forall>v. pvalid ((ts' ! t) v) = pvalid ((ts ! t) v) \<and>
        pfn ((ts' ! t) v) = pfn ((ts ! t) v) \<and> pdirty ((ts' ! t) v) = pdirty ((ts ! t) v))"

lemma same_core_refl: "same_core ts ts"
  by (simp add: same_core_def)

lemma same_core_trans: "same_core a b \<Longrightarrow> same_core b d \<Longrightarrow> same_core a d"
  by (simp add: same_core_def)

lemma same_core_used:
  assumes "t < length ts" and "e = (ts ! t) v"
  shows "same_core ts (set_pte ts t v (e\<lparr>pused := b\<rparr>))"
  using assms by (auto simp: same_core_def set_pte_def nth_list_update)

text \<open>Every reverse entry names an entry of a live table.\<close>

definition slots_ok :: "vm_cfg \<Rightarrow> pcb_t list \<Rightarrow> rlt_t list \<Rightarrow> nat \<Rightarrow> bool" where
  "slots_ok c ps rs m \<longleftrightarrow> (\<forall>r \<in> set rs. \<exists>t v. frame_slot ps r = Inr (t, v) \<and> t < m \<and> v < CPU_NUM_PTE c)"

text \<open>The clock algorithm as a function of the used bits: the first hand position from \<open>i\<close> whose
  bit is clear, bits being cleared on the way.\<close>

lemma clock_sweep_spec:
  assumes "slots_ok c ps rs (length ts)" and "length rs = CPU_NUM_FRAMES c"
    and "i < CPU_NUM_FRAMES c"
  shows "\<exists>j ts'. clock_sweep c ps rs i ts = Inr (j, ts') \<and> j < CPU_NUM_FRAMES c \<and>
    same_core ts ts' \<and> \<not> slot_used c ps ts' (rs ! j)"
  using assms
proof (induction c ps rs i ts rule: clock_sweep.induct)
  case (1 c ps rs i ts)
  have i: "rd rs i = Inr (rs ! i)" "rs ! i \<in> set rs" using 1(3,4) by simp_all
  then obtain t v where tv: "frame_slot ps (rs ! i) = Inr (t, v)" "t < length ts" "v < CPU_NUM_PTE c"
    using 1(2) by (auto simp: slots_ok_def)
  define e where "e = (ts ! t) v"
  have e: "get_pte c ts t v = Inr e" using tv by (simp add: get_pte_Inr e_def)
  show ?case
  proof (cases "pused e")
    case False
    then have "clock_sweep c ps rs i ts = Inr (i, ts)"
      using i tv e by (subst clock_sweep.simps) simp
    moreover have "\<not> slot_used c ps ts (rs ! i)" using tv e False by (simp add: slot_used_def)
    ultimately show ?thesis using 1(4) same_core_refl by blast
  next
    case True
    let ?i = "if Suc i \<ge> PAGE_TABLE_LEN c then 0 else Suc i"
    let ?ts = "set_pte ts t v (e\<lparr>pused := False\<rparr>)"
    have step: "clock_sweep c ps rs i ts = clock_sweep c ps rs ?i ?ts"
      using i tv e True by (subst clock_sweep.simps) simp
    have "?i < CPU_NUM_FRAMES c" using 1(4) by (simp add: PAGE_TABLE_LEN_frames)
    moreover have "slots_ok c ps rs (length ?ts)" using 1(2) by simp
    ultimately obtain j ts' where j: "clock_sweep c ps rs ?i ?ts = Inr (j, ts')"
      "j < CPU_NUM_FRAMES c" "same_core ?ts ts'" "\<not> slot_used c ps ts' (rs ! j)"
      using 1(1) [OF i(1) tv(1) _ e True] 1(3) by blast
    have "same_core ts ?ts" using tv(2) e_def by (rule same_core_used)
    from same_core_trans [OF this j(3)] j step show ?thesis by auto
  qed
qed

lemma wf_rlt_length: "vm_wf s \<Longrightarrow> length (rlt s) = CPU_NUM_FRAMES (cfg s)"
  by (simp add: vm_wf_def wf_shape_def)

lemma resident_pagetable:
  "resident s p v = Some f \<Longrightarrow> p < length (proc_list s) \<and> (\<exists>t. pagetable (proc_list s ! p) = Some t)"
  by (cases "pagetable (proc_list s ! p)") (simp_all add: resident_def pte_at_def split: if_splits)

lemma wf_rlt:
  assumes "vm_wf s" and "i < CPU_NUM_FRAMES (cfg s)" and "rpcb (rlt s ! i) = Some p"
  obtains t where "rvpn (rlt s ! i) < CPU_NUM_PTE (cfg s)" and "p < length (proc_list s)"
    and "resident s p (rvpn (rlt s ! i)) = Some i"
    and "pagetable (proc_list s ! p) = Some t" and "t < length (tables s)"
    and "pid (proc_list s ! p) = int p"
proof -
  have *: "rvpn (rlt s ! i) < CPU_NUM_PTE (cfg s)" "p < length (proc_list s)"
    "resident s p (rvpn (rlt s ! i)) = Some i"
    using assms by (auto simp: vm_wf_def wf_frames_def)
  then obtain t where "pagetable (proc_list s ! p) = Some t" using resident_pagetable by blast
  with * assms(1) that show ?thesis by (auto simp: vm_wf_def wf_procs_def)
qed

lemma wf_slots_ok:
  assumes "vm_wf s" and "\<forall>r \<in> set (rlt s). rpcb r \<noteq> None"
  shows "slots_ok (cfg s) (proc_list s) (rlt s) (length (tables s))"
  unfolding slots_ok_def
proof
  fix r
  assume r: "r \<in> set (rlt s)"
  with assms(2) obtain p where p: "rpcb r = Some p" by auto
  from r obtain i where i: "i < CPU_NUM_FRAMES (cfg s)" "rlt s ! i = r"
    using wf_rlt_length [OF assms(1)] by (auto simp: in_set_conv_nth)
  with assms(1) p obtain t where "rvpn r < CPU_NUM_PTE (cfg s)" "p < length (proc_list s)"
    "pagetable (proc_list s ! p) = Some t" "t < length (tables s)"
    using wf_rlt [of s i p] by blast
  with p show "\<exists>t v. frame_slot (proc_list s) r = Inr (t, v) \<and> t < length (tables s) \<and>
      v < CPU_NUM_PTE (cfg s)"
    by (simp add: frame_slot_def)
qed

text \<open>When the frames are all taken, the hand must not stand past the last one.\<close>

definition frames_full :: "vm \<Rightarrow> bool" where
  "frames_full s \<longleftrightarrow> (\<forall>r \<in> set (rlt s). rpcb r \<noteq> None)"

definition hand_ok :: "vm \<Rightarrow> bool" where
  "hand_ok s \<longleftrightarrow> (frames_full s \<longrightarrow> clock_hand s < CPU_NUM_FRAMES (cfg s))"

text \<open>States that differ only in used bits and the hand.\<close>

lemma wf_frames_max: "vm_wf s \<Longrightarrow> f < CPU_NUM_FRAMES (cfg s) \<Longrightarrow> f mod 2 ^ 16 = f"
  by (simp add: vm_wf_def wf_shape_def cfg_ok_def)

lemma same_core_wf:
  assumes "vm_wf s" and "same_core (tables s) ts" and "h \<le> CPU_NUM_FRAMES (cfg s)"
  shows "vm_wf (s\<lparr>tables := ts, clock_hand := h\<rparr>)"
    and "resident (s\<lparr>tables := ts, clock_hand := h\<rparr>) = resident s"
proof -
  show r: "resident (s\<lparr>tables := ts, clock_hand := h\<rparr>) = resident s"
    using assms by (intro resident_cong) (simp_all add: vm_wf_def same_core_def)
  show "vm_wf (s\<lparr>tables := ts, clock_hand := h\<rparr>)"
    using assms r by (intro vm_wf_cong [OF assms(1)]) (simp_all add: same_core_def)
qed

lemma get_free_frame_spec:
  assumes "vm_wf s" and "hand_ok s"
  shows "\<exists>f ts h. get_free_frame s = Inr (f, s\<lparr>tables := ts, clock_hand := h\<rparr>) \<and>
    f < CPU_NUM_FRAMES (cfg s) \<and> h \<le> CPU_NUM_FRAMES (cfg s) \<and> same_core (tables s) ts \<and>
    (\<not> frames_full s \<longrightarrow> rpcb (rlt s ! f) = None)"
proof -
  let ?n = "CPU_NUM_FRAMES (cfg s)"
  have len: "length (rlt s) = ?n" using assms(1) by (rule wf_rlt_length)
  then obtain x where x: "first_free (rlt s) 0 ?n = Inr x"
    and xs: "case x of None \<Rightarrow> \<forall>j. 0 \<le> j \<and> j < 0 + ?n \<longrightarrow> rpcb (rlt s ! j) \<noteq> None
      | Some j \<Rightarrow> 0 \<le> j \<and> j < 0 + ?n \<and> rpcb (rlt s ! j) = None"
    using first_free_spec [of 0 ?n "rlt s"] by auto
  show ?thesis
  proof (cases x)
    case (Some j)
    with xs have j: "j < ?n" "rpcb (rlt s ! j) = None" by simp_all
    have "get_free_frame s = Inr (j, s\<lparr>tables := tables s, clock_hand := clock_hand s\<rparr>)"
      using x Some wf_frames_max [OF assms(1) j(1)] by (simp add: get_free_frame_def)
    moreover have "clock_hand s \<le> ?n" using assms(1) by (simp add: vm_wf_def wf_shape_def)
    ultimately show ?thesis using j same_core_refl by blast
  next
    case None
    with xs len have full: "\<forall>r \<in> set (rlt s). rpcb r \<noteq> None" by (auto simp: in_set_conv_nth)
    with assms(2) have h: "clock_hand s < ?n" by (simp add: hand_ok_def frames_full_def)
    obtain j ts where j: "clock_sweep (cfg s) (proc_list s) (rlt s) (clock_hand s) (tables s) = Inr (j, ts)"
      "j < ?n" "same_core (tables s) ts"
      using clock_sweep_spec [OF wf_slots_ok [OF assms(1) full] len h] by blast
    then have "get_free_frame s = Inr (j, s\<lparr>tables := ts, clock_hand := j + 1\<rparr>)"
      using x None wf_frames_max [OF assms(1) j(2)] by (simp add: get_free_frame_def)
    moreover have "j + 1 \<le> ?n" using j(2) by simp
    moreover have "frames_full s" using full by (simp add: frames_full_def)
    ultimately show ?thesis using j by blast
  qed
qed

section \<open>Eviction\<close>

lemma wf_resident:
  "vm_wf s \<Longrightarrow> resident s p v = Some f \<Longrightarrow>
     f < CPU_NUM_FRAMES (cfg s) \<and> rlt s ! f = \<lparr>rpcb = Some p, rvpn = v\<rparr>"
  by (simp add: vm_wf_def wf_frames_def)

lemma resident_inj:
  assumes "vm_wf s" and "resident s p v = Some f" and "resident s p' v' = Some f"
  shows "p' = p \<and> v' = v"
  using wf_resident [OF assms(1,2)] wf_resident [OF assms(1,3)] by simp

lemma wf_frame_bound:
  "vm_wf s \<Longrightarrow> f < CPU_NUM_FRAMES (cfg s) \<Longrightarrow>
     f * page_size (cfg s) + page_size (cfg s) \<le> length (memory s)"
  using frame_end [of f "CPU_NUM_FRAMES (cfg s)" "page_size (cfg s)"]
  by (simp add: vm_wf_def wf_shape_def cfg_ok_def)

lemma frame_data_length:
  "vm_wf s \<Longrightarrow> f < CPU_NUM_FRAMES (cfg s) \<Longrightarrow> length (frame_data s f) = page_size (cfg s)"
  using wf_frame_bound [of s f] by (simp add: frame_data_def)

lemma swapped_Some:
  "swapped s p v = Some d \<Longrightarrow> \<exists>e \<in> set (swapfile s). spid e = int p \<and> svpn e = v \<and> sdata e = d"
  by (auto simp: swapped_def find_split swap_match_def)

lemma resident_not_swapped:
  assumes "vm_wf s" and "resident s p v = Some f"
  shows "swapped s p v = None"
proof (rule ccontr)
  assume "swapped s p v \<noteq> None"
  then obtain d where "swapped s p v = Some d" by auto
  with swapped_Some assms show False by (fastforce simp: vm_wf_def wf_swap_def)
qed

lemma tlb_clearone_valid:
  "e \<in> set (tlb (tlb_clearone v s)) \<Longrightarrow> tvalid e \<Longrightarrow> e \<in> set (tlb s) \<and> tvpn e \<noteq> v"
  by (auto simp: tlb_clearone_def clear_tlbe_def split: if_splits)

lemma tlb_clearone_simps [simp]:
  "cfg (tlb_clearone v s) = cfg s" "memory (tlb_clearone v s) = memory s"
  "tables (tlb_clearone v s) = tables s" "proc_list (tlb_clearone v s) = proc_list s"
  "current (tlb_clearone v s) = current s" "rlt (tlb_clearone v s) = rlt s"
  "current_pagetable (tlb_clearone v s) = current_pagetable s"
  "swapfile (tlb_clearone v s) = swapfile s" "clock_hand (tlb_clearone v s) = clock_hand s"
  "calloc_ok (tlb_clearone v s) = calloc_ok s" "length (tlb (tlb_clearone v s)) = length (tlb s)"
  "resident (tlb_clearone v s) = resident s" "frame_data (tlb_clearone v s) = frame_data s"
  "swapped (tlb_clearone v s) = swapped s"
  by (simp_all add: tlb_clearone_def)

text \<open>A page that is in memory with its dirty bit clear.\<close>

definition clean_at :: "vm \<Rightarrow> nat \<Rightarrow> nat \<Rightarrow> bool" where
  "clean_at s p v \<longleftrightarrow> (case pte_at s p v of None \<Rightarrow> False | Some e \<Rightarrow> pvalid e \<and> \<not> pdirty e)"

text \<open>The parts of the state that no fault changes.\<close>

definition same_frame :: "vm \<Rightarrow> vm \<Rightarrow> bool" where
  "same_frame s s' \<longleftrightarrow> cfg s' = cfg s \<and> proc_list s' = proc_list s \<and> current s' = current s \<and>
     current_pagetable s' = current_pagetable s \<and> calloc_ok s' = calloc_ok s \<and>
     length (tables s') = length (tables s)"

lemma same_frame_refl: "same_frame s s"
  by (simp add: same_frame_def)

lemma same_frame_trans: "same_frame a b \<Longrightarrow> same_frame b d \<Longrightarrow> same_frame a d"
  by (simp add: same_frame_def)

text \<open>What an eviction of frame \<open>f\<close> may do to the pages: drop one clean page of that frame.\<close>

definition drops_clean :: "nat \<Rightarrow> vm \<Rightarrow> vm \<Rightarrow> bool" where
  "drops_clean f s s' \<longleftrightarrow> (\<forall>p v. page_of s' p v \<noteq> page_of s p v \<longrightarrow>
     resident s p v = Some f \<and> clean_at s p v \<and>
     page_of s' p v = replicate (page_size (cfg s)) 0)"

lemma evict_wf:
  assumes wf: "vm_wf s" and p: "p < length (proc_list s)" "pagetable (proc_list s ! p) = Some t"
    and res: "resident s p w = Some f" and sw: "swapfile s' = swapfile s \<or>
      swapfile s' = \<lparr>spid = int p, svpn = w, sdata = frame_data s f\<rparr> # swapfile s"
    and same: "same_frame s s'" "memory s' = memory s" "rlt s' = (rlt s)[f := zero_rlt]" "clock_hand s' = clock_hand s"
    and rs: "resident s' = (\<lambda>p' v'. if p' = p \<and> v' = w then None else resident s p' v')"
    and tl: "length (tlb s') = length (tlb s)"
      "\<And>e. e \<in> set (tlb s') \<Longrightarrow> tvalid e \<Longrightarrow> e \<in> set (tlb s) \<and> tvpn e \<noteq> w"
  shows "vm_wf s'"
proof -
  note eqs = same [unfolded same_frame_def] tl(1)
  have "wf_shape s'" using wf eqs by (simp add: vm_wf_def wf_shape_def)
  moreover have "wf_procs s'" using wf eqs by (simp add: vm_wf_def wf_procs_def)
  moreover have "wf_current s'"
    using wf eqs by (simp add: vm_wf_def wf_current_def split: option.splits)
  moreover have "wf_frames s'"
  proof -
    have inj: "(p' = p \<and> v' = w) = (i = f)" if "resident s p' v' = Some i" for p' v' i
      using resident_inj [OF wf res, of p' v'] res that by auto
    have len: "length (rlt s) = CPU_NUM_FRAMES (cfg s)" using wf by (rule wf_rlt_length)
    have old: "\<And>p' v' i. resident s p' v' = Some i \<Longrightarrow> i < CPU_NUM_FRAMES (cfg s) \<and>
        rlt s ! i = \<lparr>rpcb = Some p', rvpn = v'\<rparr>"
      "\<And>i p'. i < CPU_NUM_FRAMES (cfg s) \<Longrightarrow> rpcb (rlt s ! i) = Some p' \<Longrightarrow>
        rvpn (rlt s ! i) < CPU_NUM_PTE (cfg s) \<and> p' < length (proc_list s) \<and>
        resident s p' (rvpn (rlt s ! i)) = Some i"
      using wf by (simp_all add: vm_wf_def wf_frames_def)
    show ?thesis
      unfolding wf_frames_def
    proof (intro conjI allI impI)
      fix p' v' i
      assume "resident s' p' v' = Some i"
      then have r: "resident s p' v' = Some i" "\<not> (p' = p \<and> v' = w)" by (auto simp: rs split: if_splits)
      with inj [OF r(1)] old(1) [OF r(1)] len eqs
      show "i < CPU_NUM_FRAMES (cfg s')" "rlt s' ! i = \<lparr>rpcb = Some p', rvpn = v'\<rparr>"
        by auto
    next
      fix i p'
      assume i: "i < CPU_NUM_FRAMES (cfg s')" "rpcb (rlt s' ! i) = Some p'"
      then have "i \<noteq> f" using len eqs by (auto simp: zero_rlt_def)
      with i eqs have *: "i < CPU_NUM_FRAMES (cfg s)" "rpcb (rlt s ! i) = Some p'"
        "rlt s' ! i = rlt s ! i"
        by auto
      with old(2) [OF *(1,2)] inj \<open>i \<noteq> f\<close> rs eqs
      show "rvpn (rlt s' ! i) < CPU_NUM_PTE (cfg s')" "p' < length (proc_list s')"
        "resident s' p' (rvpn (rlt s' ! i)) = Some i"
        by auto
    qed
  qed
  moreover have "wf_tlb s'"
    using wf eqs rs tl(2) by (fastforce simp: vm_wf_def wf_tlb_def)
  moreover have "wf_swap s'"
  proof -
    have old: "distinct (map (\<lambda>e. (spid e, svpn e)) (swapfile s))"
      "\<forall>e \<in> set (swapfile s). length (sdata e) = page_size (cfg s) \<and>
        (\<forall>p. spid e = int p \<longrightarrow> resident s p (svpn e) = None)"
      using wf by (simp_all add: vm_wf_def wf_swap_def)
    have "f < CPU_NUM_FRAMES (cfg s)" using wf res by (auto simp: vm_wf_def wf_frames_def)
    then have len: "length (frame_data s f) = page_size (cfg s)" using wf by (intro frame_data_length)
    have new: "(int p, w) \<notin> (\<lambda>e. (spid e, svpn e)) ` set (swapfile s)"
      using old(2) res by auto
    show ?thesis
      using sw
    proof
      assume "swapfile s' = swapfile s"
      then show ?thesis using old rs eqs by (auto simp: wf_swap_def)
    next
      assume "swapfile s' = \<lparr>spid = int p, svpn = w, sdata = frame_data s f\<rparr> # swapfile s"
      then show ?thesis using old rs eqs new len by (auto simp: wf_swap_def)
    qed
  qed
  ultimately show ?thesis by (simp add: vm_wf_def)
qed

lemma evict_pages:
  assumes wf: "vm_wf s" and res: "resident s p w = Some f"
    and mem: "memory s' = memory s" "cfg s' = cfg s"
    and rs: "resident s' = (\<lambda>p' v'. if p' = p \<and> v' = w then None else resident s p' v')"
    and sw: "swapfile s' = \<lparr>spid = int p, svpn = w, sdata = frame_data s f\<rparr> # swapfile s \<or>
      clean_at s p w \<and> swapfile s' = swapfile s"
  shows "drops_clean f s s'"
  unfolding drops_clean_def
proof (intro allI impI)
  fix p' v'
  assume ne: "page_of s' p' v' \<noteq> page_of s p' v'"
  have fd: "frame_data s' = frame_data s" using mem by (simp add: frame_data_def fun_eq_iff)
  have no: "swapped s p w = None" using wf res by (rule resident_not_swapped)
  from sw show "resident s p' v' = Some f \<and> clean_at s p' v' \<and>
      page_of s' p' v' = replicate (page_size (cfg s)) 0"
  proof
    assume s': "swapfile s' = \<lparr>spid = int p, svpn = w, sdata = frame_data s f\<rparr> # swapfile s"
    then have "swapped s' p' v' = (if p' = p \<and> v' = w then Some (frame_data s f) else swapped s p' v')"
      by (simp add: swapped_def swap_match_def)
    then have "page_of s' p' v' = page_of s p' v'"
      using res rs fd mem by (cases "p' = p \<and> v' = w") (auto simp: page_of_def cong: option.case_cong)
    with ne show ?thesis by simp
  next
    assume c: "clean_at s p w \<and> swapfile s' = swapfile s"
    then have "swapped s' = swapped s" by (simp add: swapped_def fun_eq_iff)
    then show ?thesis
      using c ne res rs fd mem no by (cases "p' = p \<and> v' = w") (auto simp: page_of_def cong: option.case_cong)
  qed
qed

text \<open>The state in which frame \<open>f\<close> is recorded as free.\<close>

definition vacate :: "nat \<Rightarrow> vm \<Rightarrow> vm" where
  "vacate f s = s\<lparr>rlt := (rlt s)[f := zero_rlt]\<rparr>"

lemma vacate_pages [simp]: "page_of (vacate f s) = page_of s" "resident (vacate f s) = resident s"
  by (simp_all add: page_of_def vacate_def fun_eq_iff cong: option.case_cong)

lemma vacate_free: "vm_wf (vacate f s) \<Longrightarrow> f < CPU_NUM_FRAMES (cfg s) \<Longrightarrow> resident s p v \<noteq> Some f"
  using wf_rlt_length [of "vacate f s"] wf_resident [of "vacate f s" p v f]
  by (auto simp: vacate_def zero_rlt_def)

lemma vacate_idle:
  assumes "vm_wf s" and "f < CPU_NUM_FRAMES (cfg s)" and "rpcb (rlt s ! f) = None"
  shows "vm_wf (vacate f s)"
proof -
  have "length (rlt s) = CPU_NUM_FRAMES (cfg s)" using assms(1) by (rule wf_rlt_length)
  moreover have "resident s p v \<noteq> Some f" for p v
    using assms by (auto simp: vm_wf_def wf_frames_def)
  ultimately show ?thesis
    using assms unfolding vm_wf_def
    by (auto simp: vacate_def wf_shape_def wf_procs_def wf_current_def wf_frames_def wf_tlb_def
        wf_swap_def zero_rlt_def nth_list_update split: option.splits)
qed

lemma evict_victim_spec:
  assumes wf: "vm_wf s" and f: "f < CPU_NUM_FRAMES (cfg s)"
  shows "\<exists>s'. evict_victim f s = Inr s' \<and> vm_wf (vacate f s') \<and> same_frame s s' \<and> rlt s' = rlt s \<and>
    (\<forall>p v. resident s p v = None \<longrightarrow> resident s' p v = None) \<and> drops_clean f s s' \<and>
    (\<forall>p v. resident s p v = Some f \<and> clean_at s p v \<longrightarrow>
       page_of s' p v = replicate (page_size (cfg s)) 0)"
proof -
  define r where "r = rlt s ! f"
  have rd: "rd (rlt s) f = Inr r" using wf_rlt_length [OF wf] f by (simp add: r_def)
  show ?thesis
  proof (cases "rpcb r")
    case None
    then have "resident s p v \<noteq> Some f" for p v using wf_resident [OF wf, of p v f] by (auto simp: r_def)
    with None show ?thesis
      using rd wf f vacate_idle [OF wf f]
      by (simp add: evict_victim_def same_frame_refl drops_clean_def r_def)
  next
    case (Some p)
    obtain t where pt: "rvpn r < CPU_NUM_PTE (cfg s)" "p < length (proc_list s)"
      "resident s p (rvpn r) = Some f" "pagetable (proc_list s ! p) = Some t"
      "t < length (tables s)" "pid (proc_list s ! p) = int p"
      using wf_rlt [OF wf f] Some by (auto simp: r_def)
    define e where "e = (tables s ! t) (rvpn r)"
    have at: "pte_at s p (rvpn r) = Some e" using pt by (simp add: pte_at_def e_def)
    then have v: "pvalid e" "pfn e = f" using pt(3) by (auto simp: resident_def split: if_splits)
    have ge: "get_pte (cfg s) (tables s) t (rvpn r) = Inr e" using pt by (simp add: get_pte_Inr e_def)
    define s1 where "s1 = (if pdirty e then s\<lparr>count_diskaccesses := count_diskaccesses s + 1,
      swapfile := \<lparr>spid = int p, svpn = rvpn r, sdata = frame_data s f\<rparr> # swapfile s\<rparr> else s)"
    have disk: "(if pdirty e then page_to_disk f (rvpn r) (int p) s else Inr s) = Inr s1"
      using wf_frame_bound [OF wf f] wf
      by (simp add: page_to_disk_def s1_def mem_read_page_def frame_data_def vm_wf_def wf_shape_def)
    define s2 where "s2 = tlb_clearone (rvpn r)
      (s1\<lparr>tables := set_pte (tables s1) t (rvpn r) (e\<lparr>pvalid := False\<rparr>)\<rparr>)"
    have ev: "evict_victim f s = Inr s2"
      using rd Some pt ge v disk by (cases "pdirty e") (simp_all add: evict_victim_def s2_def)
    have s1: "resident s1 = resident s" "wf_procs s1" "proc_list s1 = proc_list s"
      "tables s1 = tables s" "memory s1 = memory s" "same_frame s s1" "rlt s1 = rlt s"
      "clock_hand s1 = clock_hand s" "tlb s1 = tlb s"
      using wf by (simp_all add: s1_def same_frame_def vm_wf_def wf_procs_def)
    have rs: "resident s2 = (\<lambda>p' v'. if p' = p \<and> v' = rvpn r then None else resident s p' v')"
      unfolding s2_def tlb_clearone_simps
      by (subst resident_set_pte [where p = p]) (use s1 pt in \<open>simp_all add: fun_eq_iff\<close>)
    have sf: "same_frame s s2" using s1(6) by (simp add: same_frame_def s2_def)
    have "vm_wf (vacate f s2)"
    proof (rule evict_wf [OF wf pt(2,4,3)])
      show "swapfile (vacate f s2) = swapfile s \<or> swapfile (vacate f s2) =
          \<lparr>spid = int p, svpn = rvpn r, sdata = frame_data s f\<rparr> # swapfile s"
        by (simp add: vacate_def s2_def s1_def)
      show "same_frame s (vacate f s2)" using sf by (simp add: same_frame_def vacate_def)
      show "e \<in> set (tlb s) \<and> tvpn e \<noteq> rvpn r"
        if "e \<in> set (tlb (vacate f s2))" "tvalid e" for e
        using that tlb_clearone_valid s1 by (fastforce simp: vacate_def s2_def)
    qed (use rs s1 in \<open>simp_all add: vacate_def s2_def\<close>)
    moreover have "drops_clean f s s2"
    proof (rule evict_pages [OF wf pt(3)])
      show "swapfile s2 = \<lparr>spid = int p, svpn = rvpn r, sdata = frame_data s f\<rparr> # swapfile s \<or>
          clean_at s p (rvpn r) \<and> swapfile s2 = swapfile s"
        using at v by (simp add: s2_def s1_def clean_at_def)
    qed (use rs s1 sf in \<open>simp_all add: s2_def same_frame_def\<close>)
    moreover have "page_of s2 q u = replicate (page_size (cfg s)) 0"
      if q: "resident s q u = Some f" "clean_at s q u" for q u
    proof -
      have qp: "q = p \<and> u = rvpn r" using resident_inj [OF wf pt(3) q(1)] .
      then have "\<not> pdirty e" using q(2) at by (simp add: clean_at_def)
      then have "swapped s2 q u = None"
        using resident_not_swapped [OF wf q(1)] by (simp add: s2_def s1_def)
      then show ?thesis using rs qp sf by (simp add: page_of_def same_frame_def)
    qed
    ultimately show ?thesis
      using ev sf rs s1 by (simp add: s2_def)
  qed
qed

section \<open>Bringing a page in\<close>

lemma swap_unlink_subset: "set (swap_unlink p v es) \<subseteq> set es"
  by (induction es) auto

lemma swap_unlink_distinct:
  "distinct (map (\<lambda>e. (spid e, svpn e)) es) \<Longrightarrow>
     distinct (map (\<lambda>e. (spid e, svpn e)) (swap_unlink p v es)) \<and>
     (\<forall>e \<in> set (swap_unlink p v es). \<not> swap_match p v e)"
proof (induction es)
  case (Cons e es)
  then have "\<forall>x \<in> set es. (spid x, svpn x) \<noteq> (spid e, svpn e)"
    using Cons.prems by (simp add: image_iff) metis
  with Cons show ?case using swap_unlink_subset [of p v es]
    by (cases "swap_match p v e") (auto simp: swap_match_def)
qed simp

lemma swap_unlink_find:
  "\<not> (q = p \<and> w = v) \<Longrightarrow>
     List.find (swap_match q w) (swap_unlink p v es) = List.find (swap_match q w) es"
  by (induction es) (auto simp: swap_match_def)

lemma swap_unlink_none: "List.find (swap_match p v) es = None \<Longrightarrow> swap_unlink p v es = es"
  by (induction es) (auto split: if_splits)

definition incoming :: "vm \<Rightarrow> nat \<Rightarrow> nat \<Rightarrow> u8 list" where
  "incoming s p v = (case swapped s p v of Some d \<Rightarrow> d | None \<Rightarrow> replicate (page_size (cfg s)) 0)"

lemma page_of_nonresident: "resident s p v = None \<Longrightarrow> page_of s p v = incoming s p v"
  by (simp add: page_of_def incoming_def)

definition swap_pages_ok :: "vm \<Rightarrow> bool" where
  "swap_pages_ok s \<longleftrightarrow> (\<forall>e \<in> set (swapfile s). length (sdata e) = page_size (cfg s))"

lemma incoming_length: "swap_pages_ok s \<Longrightarrow> length (incoming s p v) = page_size (cfg s)"
  using swapped_Some [of s p v] by (auto simp: incoming_def swap_pages_ok_def split: option.splits)

lemma page_from_disk_spec:
  assumes "cfg_ok (cfg s)" and "length (memory s) = mem_size (cfg s)" and "swap_pages_ok s"
    and "f < CPU_NUM_FRAMES (cfg s)"
  shows "\<exists>m k. page_from_disk f v (int p) s = Inr (s\<lparr>count_diskaccesses := k, memory := m,
      swapfile := swap_unlink (int p) v (swapfile s)\<rparr>) \<and> length m = length (memory s) \<and>
    (\<forall>g < CPU_NUM_FRAMES (cfg s). frame_data (s\<lparr>memory := m\<rparr>) g =
       (if g = f then incoming s p v else frame_data s g))"
proof -
  let ?n = "page_size (cfg s)" and ?d = "incoming s p v"
  define m where "m = take (f * ?n) (memory s) @ ?d @ drop (f * ?n + ?n) (memory s)"
  have b: "g * ?n + ?n \<le> length (memory s)" if "g < CPU_NUM_FRAMES (cfg s)" for g
    using frame_end [OF that, of ?n] assms(1,2) by (simp add: cfg_ok_def)
  have len: "length ?d = ?n" using assms(3) by (rule incoming_length)
  have w: "mem_write_page (memory s) (f * ?n) ?d = Inr m"
    using b [OF assms(4)] len by (simp add: mem_write_page_def m_def)
  have lm: "length m = length (memory s)" using b [OF assms(4)] len by (simp add: m_def)
  have fd: "frame_data (s\<lparr>memory := m\<rparr>) g = (if g = f then ?d else frame_data s g)"
    if "g < CPU_NUM_FRAMES (cfg s)" for g
    using frame_write [OF b [OF assms(4)] b [OF that] len] by (simp add: frame_data_def m_def)
  show ?thesis
  proof (cases "List.find (swap_match (int p) v) (swapfile s)")
    case None
    then have "?d = replicate ?n 0" by (simp add: incoming_def swapped_def)
    then have "page_from_disk f v (int p) s = Inr (s\<lparr>count_diskaccesses := count_diskaccesses s,
        memory := m, swapfile := swap_unlink (int p) v (swapfile s)\<rparr>)"
      using None w by (simp add: page_from_disk_def swap_unlink_none)
    then show ?thesis using lm fd by blast
  next
    case (Some e)
    then have "?d = sdata e" by (simp add: incoming_def swapped_def)
    then have "page_from_disk f v (int p) s = Inr (s\<lparr>count_diskaccesses := count_diskaccesses s + 1,
        memory := m, swapfile := swap_unlink (int p) v (swapfile s)\<rparr>)"
      using Some w by (simp add: page_from_disk_def)
    then show ?thesis using lm fd by blast
  qed
qed

lemma install_wf:
  assumes wf: "vm_wf (vacate f s)" and f: "f < CPU_NUM_FRAMES (cfg s)"
    and p: "p < length (proc_list s)" "pagetable (proc_list s ! p) \<noteq> None" and v: "v < CPU_NUM_PTE (cfg s)"
    and same: "same_frame s s'" "length (memory s') = length (memory s)"
      "rlt s' = (rlt s)[f := \<lparr>rpcb = Some p, rvpn = v\<rparr>]" "clock_hand s' = clock_hand s" "tlb s' = tlb s"
      "swapfile s' = swap_unlink (int p) v (swapfile s)"
    and none: "resident s p v = None"
    and rs: "resident s' = (\<lambda>p' v'. if p' = p \<and> v' = v then Some f else resident s p' v')"
  shows "vm_wf s'"
proof -
  note eqs = same [unfolded same_frame_def]
  have len: "length (rlt s) = CPU_NUM_FRAMES (cfg s)"
    using wf_rlt_length [OF wf] by (simp add: vacate_def)
  have free: "resident s q u \<noteq> Some f" for q u using vacate_free [OF wf f] .
  have "wf_shape s'" using wf eqs by (simp add: vm_wf_def wf_shape_def vacate_def)
  moreover have "wf_procs s'" using wf eqs by (simp add: vm_wf_def wf_procs_def vacate_def)
  moreover have "wf_current s'"
    using wf eqs by (simp add: vm_wf_def wf_current_def vacate_def split: option.splits)
  moreover have "wf_frames s'"
  proof -
    have old: "resident s p' v' = Some i \<Longrightarrow> i < CPU_NUM_FRAMES (cfg s) \<and>
        rlt s ! i = \<lparr>rpcb = Some p', rvpn = v'\<rparr>" for p' v' i
      using wf_resident [OF wf, of p' v' i] free [of p' v'] len
      by (cases "i = f") (simp_all add: vacate_def)
    have bwd: "rvpn (rlt s ! i) < CPU_NUM_PTE (cfg s) \<and> p' < length (proc_list s) \<and>
        resident s p' (rvpn (rlt s ! i)) = Some i"
      if "i < CPU_NUM_FRAMES (cfg s)" "i \<noteq> f" "rpcb (rlt s ! i) = Some p'" for i p'
      using wf that unfolding vm_wf_def wf_frames_def
      by (auto simp: vacate_def nth_list_update dest: spec [of _ i])
    show ?thesis
      unfolding wf_frames_def
    proof (intro conjI allI impI)
      fix p' v' i
      assume r: "resident s' p' v' = Some i"
      then have "(p' = p \<and> v' = v \<and> i = f) \<or> (resident s p' v' = Some i \<and> i \<noteq> f)"
        using free by (auto simp: rs split: if_splits)
      then show "i < CPU_NUM_FRAMES (cfg s')" "rlt s' ! i = \<lparr>rpcb = Some p', rvpn = v'\<rparr>"
        using old f len eqs by auto
    next
      fix i p'
      assume i: "i < CPU_NUM_FRAMES (cfg s')" "rpcb (rlt s' ! i) = Some p'"
      show "rvpn (rlt s' ! i) < CPU_NUM_PTE (cfg s')" "p' < length (proc_list s')"
        "resident s' p' (rvpn (rlt s' ! i)) = Some i"
        using i bwd [of i p'] v p rs eqs len none by (cases "i = f"; auto)+
    qed
  qed
  moreover have "wf_tlb s'"
    using wf eqs rs none unfolding vm_wf_def wf_tlb_def by (fastforce simp: vacate_def)
  moreover have "wf_swap s'"
  proof -
    have old: "distinct (map (\<lambda>e. (spid e, svpn e)) (swapfile s))"
      "\<forall>e \<in> set (swapfile s). length (sdata e) = page_size (cfg s) \<and>
        (\<forall>p. spid e = int p \<longrightarrow> resident s p (svpn e) = None)"
      using wf by (simp_all add: vm_wf_def wf_swap_def vacate_def)
    show ?thesis
      using old(2) swap_unlink_distinct [OF old(1), of "int p" v] eqs rs
        swap_unlink_subset [of "int p" v "swapfile s"]
      unfolding wf_swap_def by (auto simp: swap_match_def)
  qed
  ultimately show ?thesis by (simp add: vm_wf_def)
qed

lemma install_pages:
  assumes wf: "vm_wf (vacate f s)" and f: "f < CPU_NUM_FRAMES (cfg s)"
    and none: "resident s p v = None" and cfgs: "cfg s' = cfg s"
    and sw: "swapfile s' = swap_unlink (int p) v (swapfile s)"
    and fd: "\<And>g. g < CPU_NUM_FRAMES (cfg s) \<Longrightarrow>
      frame_data s' g = (if g = f then incoming s p v else frame_data s g)"
    and rs: "resident s' = (\<lambda>p' v'. if p' = p \<and> v' = v then Some f else resident s p' v')"
  shows "page_of s' = page_of s"
proof (intro ext)
  fix q u
  show "page_of s' q u = page_of s q u"
  proof (cases "q = p \<and> u = v")
    case True
    then show ?thesis
      using rs fd [OF f] none by (simp add: page_of_nonresident) (simp add: page_of_def)
  next
    case False
    then have same: "resident s' q u = resident s q u" "swapped s' q u = swapped s q u"
      using rs sw swap_unlink_find [of "int q" "int p" u v] by (auto simp: swapped_def)
    show ?thesis
    proof (cases "resident s q u")
      case None
      with same cfgs show ?thesis by (simp add: page_of_def cong: option.case_cong)
    next
      case (Some g)
      then have "g < CPU_NUM_FRAMES (cfg s)" "g \<noteq> f"
        using wf_resident [OF wf, of q u g] vacate_free [OF wf f, of q u] by (simp_all add: vacate_def)
      with Some same fd show ?thesis by (simp add: page_of_def)
    qed
  qed
qed

text \<open>What a fault may do to the pages of all processes.\<close>

definition drops :: "vm \<Rightarrow> vm \<Rightarrow> bool" where
  "drops s s' \<longleftrightarrow> (\<forall>p v. page_of s' p v \<noteq> page_of s p v \<longrightarrow>
     clean_at s p v \<and> page_of s' p v = replicate (page_size (cfg s)) 0)"

text \<open>
  What an access of page \<open>v\<close> of process \<open>p\<close> keeps: nothing is dropped while a frame is free or
  when the page is resident, and no other page becomes resident.
\<close>

definition kept :: "nat \<Rightarrow> nat \<Rightarrow> vm \<Rightarrow> vm \<Rightarrow> bool" where
  "kept p v s s' \<longleftrightarrow> drops s s' \<and>
     (\<not> frames_full s \<or> resident s p v \<noteq> None \<longrightarrow> page_of s' = page_of s) \<and>
     (\<forall>q u. resident s q u = None \<and> resident s' q u \<noteq> None \<longrightarrow> q = p \<and> u = v)"

lemma kept_same: "page_of s' = page_of s \<Longrightarrow> resident s' = resident s \<Longrightarrow> kept p v s s'"
  by (auto simp: kept_def drops_def)

lemma kept_cong:
  "kept p v s s1 \<Longrightarrow> page_of s' = page_of s1 \<Longrightarrow> resident s' = resident s1 \<Longrightarrow> kept p v s s'"
  by (simp add: kept_def drops_def)

lemma drops_same: "page_of s' = page_of s \<Longrightarrow> drops s s'"
  by (simp add: drops_def)

lemma same_core_pages:
  assumes "vm_wf s" and "same_core (tables s) ts" and "h \<le> CPU_NUM_FRAMES (cfg s)"
  defines "s' \<equiv> s\<lparr>tables := ts, clock_hand := h\<rparr>"
  shows "page_of s' = page_of s" and "clean_at s' = clean_at s" and "same_frame s s'"
proof -
  have r: "resident s' = resident s" using same_core_wf [OF assms(1-3)] by (simp add: s'_def)
  show "page_of s' = page_of s"
    by (intro ext) (simp add: page_of_def r; simp add: s'_def cong: option.case_cong)
  show "same_frame s s'" using assms(2) by (simp add: same_frame_def same_core_def s'_def)
  show "clean_at s' = clean_at s"
  proof (intro ext)
    fix p v
    show "clean_at s' p v = clean_at s p v"
      using assms(1,2)
      by (cases "pagetable (proc_list s ! p)")
        (auto simp: clean_at_def pte_at_def s'_def same_core_def vm_wf_def wf_procs_def)
  qed
qed

definition runs :: "vm \<Rightarrow> nat \<Rightarrow> nat \<Rightarrow> bool" where
  "runs s p t \<longleftrightarrow> current s = Some p \<and> current_pagetable s = Some t"

lemma runs_facts:
  assumes "vm_wf s" and "runs s p t"
  shows "p < length (proc_list s)" and "pagetable (proc_list s ! p) = Some t"
    and "t < length (tables s)" and "pid (proc_list s ! p) = int p"
  using assms by (auto simp: runs_def vm_wf_def wf_current_def wf_procs_def)

lemma pagefault_handler_spec:
  assumes wf: "vm_wf s" and hand: "hand_ok s" and cur: "runs s p t"
    and v: "v < CPU_NUM_PTE (cfg s)" and none: "resident s p v = None"
  shows "\<exists>f s'. pagefault_handler v w s = Inr (f, s') \<and> vm_wf s' \<and> same_frame s s' \<and>
    resident s' p v = Some f \<and> page_of s' p v = page_of s p v \<and>
    pte_at s' p v = Some \<lparr>pfn = f, pvalid = True, pdirty = w, pused = True\<rparr> \<and> kept p v s s'"
proof -
  obtain f ts h where gf: "get_free_frame s = Inr (f, s\<lparr>tables := ts, clock_hand := h\<rparr>)"
    and f: "f < CPU_NUM_FRAMES (cfg s)" and h: "h \<le> CPU_NUM_FRAMES (cfg s)"
    and core: "same_core (tables s) ts" and idle: "\<not> frames_full s \<longrightarrow> rpcb (rlt s ! f) = None"
    using get_free_frame_spec [OF wf hand] by auto
  define s1 where "s1 = s\<lparr>tables := ts, clock_hand := h\<rparr>"
  have wf1: "vm_wf s1" "resident s1 = resident s"
    using same_core_wf [OF wf core h] by (simp_all add: s1_def)
  have s1: "page_of s1 = page_of s" "clean_at s1 = clean_at s" "same_frame s s1"
    using same_core_pages [OF wf core h] by (simp_all add: s1_def)
  have f1: "f < CPU_NUM_FRAMES (cfg s1)" using f by (simp add: s1_def)
  obtain s2 where ev: "evict_victim f s1 = Inr s2" and wf2: "vm_wf (vacate f s2)"
    and sf2: "same_frame s1 s2" and none2: "resident s2 p v = None" and dc: "drops_clean f s1 s2"
    and mono: "\<forall>q u. resident s q u = None \<longrightarrow> resident s2 q u = None"
    using evict_victim_spec [OF wf1(1) f1] none wf1(2) by auto
  have sf: "same_frame s s2" using s1(3) sf2 by (rule same_frame_trans)
  then have e: "cfg s2 = cfg s" "proc_list s2 = proc_list s" "current s2 = current s"
    "current_pagetable s2 = current_pagetable s"
    by (simp_all add: same_frame_def)
  have len: "length (rlt s2) = CPU_NUM_FRAMES (cfg s)"
    using wf_rlt_length [OF wf2] e by (simp add: vacate_def)
  note rf = runs_facts [OF wf cur]
  have t2: "t < length (tables s2)" using rf(3) sf by (simp add: same_frame_def)
  define pe where "pe = \<lparr>pfn = f, pvalid = True, pdirty = w, pused = True\<rparr>"
  define s4 where "s4 = s2\<lparr>rlt := (rlt s2)[f := \<lparr>rpcb = Some p, rvpn = v\<rparr>],
    tables := set_pte (tables s2) t v pe\<rparr>"
  have wfs2: "wf_procs s2" "swap_pages_ok s2" "cfg_ok (cfg s2)" "length (memory s2) = mem_size (cfg s2)"
    using wf2
    by (simp_all add: vm_wf_def wf_procs_def wf_swap_def wf_shape_def vacate_def swap_pages_ok_def)
  have rs4: "resident s4 = (\<lambda>p' v'. if p' = p \<and> v' = v then Some f else resident s2 p' v')"
  proof -
    have "s4 = (s2\<lparr>tables := set_pte (tables s2) t v pe\<rparr>)
        \<lparr>rlt := (rlt s2)[f := \<lparr>rpcb = Some p, rvpn = v\<rparr>]\<rparr>" by (simp add: s4_def)
    then show ?thesis
      using resident_set_pte [OF wfs2(1), of p t v pe] rf e by (simp add: pe_def fun_eq_iff)
  qed
  have s4: "cfg s4 = cfg s2" "memory s4 = memory s2" "swapfile s4 = swapfile s2"
    "incoming s4 p v = incoming s2 p v" "frame_data s4 = frame_data s2"
    by (simp_all add: s4_def incoming_def swapped_def cong: option.case_cong)
  have wfs4: "cfg_ok (cfg s4)" "length (memory s4) = mem_size (cfg s4)" "swap_pages_ok s4"
    "f < CPU_NUM_FRAMES (cfg s4)"
    using wfs2 f e s4 by (simp_all add: swap_pages_ok_def)
  obtain m k where pd: "page_from_disk f v (int p) s4 = Inr (s4\<lparr>count_diskaccesses := k, memory := m,
      swapfile := swap_unlink (int p) v (swapfile s4)\<rparr>)" and lm: "length m = length (memory s4)"
    and fd: "\<forall>g < CPU_NUM_FRAMES (cfg s4). frame_data (s4\<lparr>memory := m\<rparr>) g =
       (if g = f then incoming s4 p v else frame_data s4 g)"
    using page_from_disk_spec [OF wfs4, of v p] by blast
  define s5 where "s5 = s4\<lparr>count_diskaccesses := k, memory := m,
      swapfile := swap_unlink (int p) v (swapfile s4)\<rparr>"
  have run: "pagefault_handler v w s = Inr (f, s5)"
    using gf f f1 ev len rf e t2 v pd cur
    unfolding pagefault_handler_def s1_def [symmetric]
    by (simp add: runs_def s1_def [symmetric] get_pte_def s4_def pe_def s5_def)
  have rs5: "resident s5 = (\<lambda>p' v'. if p' = p \<and> v' = v then Some f else resident s2 p' v')"
    using rs4 by (simp add: s5_def)
  have f2: "f < CPU_NUM_FRAMES (cfg s2)" using f e by simp
  have wf5: "vm_wf s5"
  proof (rule install_wf [OF wf2 f2 _ _ _ _ _ _ _ _ _ none2 rs5])
    show "same_frame s2 s5" by (simp add: same_frame_def s5_def s4_def)
  qed (use rf e v lm in \<open>simp_all add: s5_def s4_def\<close>)
  have pg5: "page_of s5 = page_of s2"
  proof (rule install_pages [OF wf2 f2 none2 _ _ _ rs5])
    fix g
    assume "g < CPU_NUM_FRAMES (cfg s2)"
    then show "frame_data s5 g = (if g = f then incoming s2 p v else frame_data s2 g)"
      using fd s4 by (simp add: s5_def frame_data_def)
  qed (simp_all add: s5_def s4_def)
  have sf5: "same_frame s s5" using sf by (simp add: same_frame_def s5_def s4_def)
  have dr: "kept p v s s5"
    unfolding kept_def
  proof (intro conjI impI allI)
    show "drops s s5" using dc s1 pg5 e by (auto simp: drops_def drops_clean_def s1_def)
    assume "\<not> frames_full s \<or> resident s p v \<noteq> None"
    with idle none have "resident s q u \<noteq> Some f" for q u using wf_resident [OF wf, of q u f] by auto
    then show "page_of s5 = page_of s"
      using dc wf1(2) s1(1) pg5 by (simp add: drops_clean_def fun_eq_iff)
  next
    fix q u
    assume "resident s q u = None \<and> resident s5 q u \<noteq> None"
    then show "q = p" "u = v" using mono rs5 by (auto split: if_splits)
  qed
  have keep: "page_of s5 p v = page_of s p v"
    using dc none wf1(2) s1(1) pg5 by (simp add: drops_clean_def) (metis option.distinct(1))
  have "pte_at s5 p v = Some pe"
    using rf e t2 by (simp add: pte_at_def s5_def s4_def set_pte_def)
  then show ?thesis
    using run wf5 sf5 rs5 keep dr by (auto simp: pe_def)
qed

end
