(* ===== verification/VmAccess.thy ===== *)
theory VmAccess
  imports VmProofs
begin

text \<open>
  Translation and access in the virtual-memory simulator: the page-table and TLB lookups, loads
  and stores, the process operations and whole runs of commands. The end result is that a run
  whose pages fit into the frames behaves as a flat memory per process; the counterexample runs
  show what happens when they do not.
\<close>

section \<open>Lookups\<close>

text \<open>What a successful translation of page \<open>v\<close> of the running process \<open>p\<close> guarantees.\<close>

definition translated :: "nat \<Rightarrow> nat \<Rightarrow> nat \<Rightarrow> vm \<Rightarrow> vm \<Rightarrow> bool" where
  "translated p v f s s' \<longleftrightarrow> vm_wf s' \<and> same_frame s s' \<and> resident s' p v = Some f \<and>
     page_of s' p v = page_of s p v \<and> kept p v s s'"

lemma pte_flags_keep:
  assumes wf: "vm_wf s" and cur: "runs s p t" and e: "pte_at s p v = Some e"
    and e': "pvalid e' = pvalid e" "pfn e' = pfn e"
  defines "s' \<equiv> s\<lparr>tables := set_pte (tables s) t v e'\<rparr>"
  shows "resident s' = resident s" and "vm_wf s'" and "page_of s' = page_of s" and "same_frame s s'"
    and "pte_at s' p v = Some e'"
proof -
  note rf = runs_facts [OF wf cur]
  have procs: "wf_procs s" using wf by (simp add: vm_wf_def)
  have "resident s p v = (if pvalid e then Some (pfn e) else None)" using e by (simp add: resident_def)
  then show r: "resident s' = resident s"
    unfolding s'_def using resident_set_pte [OF procs rf(1,2), of v e'] e' by (simp add: fun_eq_iff)
  show "vm_wf s'"
    using r wf by (intro vm_wf_cong [OF wf]) (simp_all add: s'_def vm_wf_def wf_shape_def)
  show "page_of s' = page_of s"
    by (intro ext) (simp add: page_of_def r; simp add: s'_def cong: option.case_cong)
  show "same_frame s s'" by (simp add: same_frame_def s'_def)
  show "pte_at s' p v = Some e'" using rf by (simp add: pte_at_def s'_def set_pte_def)
qed

lemma translated_flags:
  assumes tr: "translated p v f s s1" and cur: "runs s p t" and e: "pte_at s1 p v = Some e"
    and e': "pvalid e' = pvalid e" "pfn e' = pfn e"
  shows "translated p v f s (s1\<lparr>tables := set_pte (tables s1) t v e'\<rparr>)"
proof -
  have w: "vm_wf s1" "runs s1 p t" using tr cur by (simp_all add: translated_def same_frame_def runs_def)
  note k = pte_flags_keep [OF w e e']
  have "same_frame s (s1\<lparr>tables := set_pte (tables s1) t v e'\<rparr>)"
    using tr k(4) by (auto simp: translated_def intro: same_frame_trans)
  then show ?thesis using tr k(1-3) kept_cong by (auto simp: translated_def)
qed

lemma pte_at_get:
  "vm_wf s \<Longrightarrow> runs s p t \<Longrightarrow> v < CPU_NUM_PTE (cfg s) \<Longrightarrow> pte_at s p v = Some ((tables s ! t) v) \<and>
     get_pte (cfg s) (tables s) t v = Inr ((tables s ! t) v)"
  using runs_facts [of s p t] by (simp add: pte_at_def get_pte_Inr)

lemma pagetable_lookup_spec:
  assumes wf: "vm_wf s" and cur: "runs s p t" and v: "v < CPU_NUM_PTE (cfg s)"
    and hand: "resident s p v = None \<longrightarrow> hand_ok s"
  shows "\<exists>f s' e. pagetable_lookup v w s = Inr (f, s') \<and> translated p v f s s' \<and>
    pte_at s' p v = Some e \<and> (w \<longrightarrow> pdirty e) \<and> tlb_size (cfg s') = tlb_size (cfg s)"
proof -
  define e where "e = (tables s ! t) v"
  have e: "pte_at s p v = Some e" "get_pte (cfg s) (tables s) t v = Inr e"
    using pte_at_get [OF wf cur v] by (simp_all add: e_def)
  have ct: "current_pagetable s = Some t" using cur by (simp add: runs_def)
  obtain s1 f where s1: "(if \<not> pvalid e
        then bindE (pagefault_handler v w (s\<lparr>count_pagefaults := count_pagefaults s + 1\<rparr>))
          (\<lambda>(f, s'). Inr s') else Inr s) = Inr s1" "translated p v f s s1"
  proof (cases "pvalid e")
    case True
    then have "translated p v (pfn e) s s"
      using e wf by (simp add: translated_def same_frame_refl kept_same resident_def)
    with True that show ?thesis by simp
  next
    case False
    let ?s = "s\<lparr>count_pagefaults := count_pagefaults s + 1\<rparr>"
    have none: "resident ?s p v = None" using e False by (simp add: resident_def)
    have wf': "vm_wf ?s" using wf by (intro vm_wf_cong [OF wf]) (simp_all add: vm_wf_def wf_shape_def)
    have pg: "page_of ?s = page_of s" "clean_at ?s = clean_at s"
      by (simp_all add: page_of_def frame_data_def swapped_def clean_at_def pte_at_def fun_eq_iff
          cong: option.case_cong)
    have "hand_ok ?s" "runs ?s p t" using hand none cur by (simp_all add: hand_ok_def frames_full_def runs_def)
    then obtain f s' where "pagefault_handler v w ?s = Inr (f, s')" "vm_wf s'" "same_frame ?s s'"
      "resident s' p v = Some f" "page_of s' p v = page_of ?s p v" "kept p v ?s s'"
      using pagefault_handler_spec [OF wf' _ _ _ none, of t w] v by auto
    with False that [of s' f] pg show ?thesis
      by (simp add: translated_def same_frame_def kept_def drops_def frames_full_def)
  qed
  have w1: "vm_wf s1" "runs s1 p t" "cfg s1 = cfg s"
    using s1(2) cur by (simp_all add: translated_def same_frame_def runs_def)
  define e1 where "e1 = (tables s1 ! t) v"
  have e1: "pte_at s1 p v = Some e1" "get_pte (cfg s1) (tables s1) t v = Inr e1"
    using pte_at_get [OF w1(1,2)] w1(3) v by (simp_all add: e1_def)
  define e2 where "e2 = (if w then e1\<lparr>pdirty := True\<rparr> else e1)\<lparr>pused := True\<rparr>"
  define s2 where "s2 = s1\<lparr>tables := set_pte (tables s1) t v e2\<rparr>"
  have e2: "pvalid e2 = pvalid e1" "pfn e2 = pfn e1" "w \<longrightarrow> pdirty e2" by (simp_all add: e2_def)
  have "resident s1 p v = Some f" using s1(2) by (simp add: translated_def)
  then have f: "pfn e2 = f" using e1 e2 by (simp add: resident_def split: if_splits)
  have "pagetable_lookup v w s = Inr (f, s2)"
    using ct e s1(1) e1 f w1(3)
    unfolding pagetable_lookup_def by (simp add: e2_def s2_def)
  moreover have "translated p v f s s2"
    unfolding s2_def by (rule translated_flags [OF s1(2) cur e1(1) e2(1,2)])
  moreover have "pte_at s2 p v = Some e2"
    unfolding s2_def by (rule pte_flags_keep(5) [OF w1(1,2) e1(1) e2(1,2)])
  ultimately show ?thesis using e2(3) w1(3) by (auto simp: s2_def)
qed

text \<open>The TLB.\<close>

definition tlb_hit :: "vm \<Rightarrow> nat \<Rightarrow> bool" where
  "tlb_hit s v \<longleftrightarrow> (\<exists>e \<in> set (tlb s). tvalid e \<and> tvpn e = v)"

lemma tlb_search_spec:
  assumes wf: "vm_wf s" and cur: "runs s p t"
  shows "i + k = length (tlb s) \<Longrightarrow> (\<forall>j < i. \<not> (tvalid (tlb s ! j) \<and> tvpn (tlb s ! j) = v)) \<Longrightarrow>
    tlb_search s v i k = Inr (if tlb_hit s v then resident s p v else None)"
proof (induction k arbitrary: i)
  case 0
  then show ?case by (auto simp: tlb_hit_def in_set_conv_nth)
next
  case (Suc k)
  define e where "e = tlb s ! i"
  have e: "rd (tlb s) i = Inr e" "e \<in> set (tlb s)" using Suc.prems by (simp_all add: e_def)
  show ?case
  proof (cases "tvalid e \<and> tvpn e = v")
    case True
    then have r: "resident s p v = Some (tpfn e)"
      using wf e cur by (auto simp: vm_wf_def wf_tlb_def runs_def)
    have f: "tpfn e < CPU_NUM_FRAMES (cfg s)" "rlt s ! tpfn e = \<lparr>rpcb = Some p, rvpn = v\<rparr>"
      using wf_resident [OF wf r] by simp_all
    have "tlb_search s v i (Suc k) = Inr (Some (tpfn e))"
      using True e f wf_rlt_length [OF wf] runs_facts [OF wf cur] cur by (simp add: runs_def)
    moreover have "tlb_hit s v" using True e by (auto simp: tlb_hit_def)
    ultimately show ?thesis using r by simp
  next
    case False
    then have "tlb_search s v i (Suc k) = tlb_search s v (Suc i) k" using e by auto
    then show ?thesis
      using Suc.IH [of "Suc i"] Suc.prems False by (simp add: e_def less_Suc_eq)
  qed
qed

lemma tlb_first_invalid_spec:
  "i + k \<le> length es \<Longrightarrow> \<exists>x. tlb_first_invalid es i k = Inr x \<and>
     (\<forall>j. x = Some j \<longrightarrow> j < i + k \<and> \<not> tvalid (es ! j))"
proof (induction k arbitrary: i)
  case (Suc k)
  from Suc.IH [of "Suc i"] Suc.prems show ?case by auto
qed simp

definition same_entries :: "tlbe_t list \<Rightarrow> tlbe_t list \<Rightarrow> bool" where
  "same_entries es es' \<longleftrightarrow> map (\<lambda>e. (tvpn e, tpfn e, tvalid e)) es' = map (\<lambda>e. (tvpn e, tpfn e, tvalid e)) es"

lemma tlb_sweep_spec:
  "n = length es \<Longrightarrow> 0 < n \<Longrightarrow> \<exists>j es'. tlb_sweep n i es = Inr (j, es') \<and> j < n \<and> same_entries es es' \<and>
     \<not> tused (es' ! j)"
proof (induction n i es rule: tlb_sweep.induct)
  case (1 n i es)
  let ?j = "if Suc i \<ge> n then 0 else Suc i"
  have j: "?j < length es" using 1(2,3) by simp
  show ?case
  proof (cases "tused (es ! ?j)")
    case False
    then have "tlb_sweep n i es = Inr (?j, es)" using j by (subst tlb_sweep.simps) (simp add: Let_def)
    then show ?thesis using j False 1(2) by (auto simp: same_entries_def)
  next
    case True
    let ?es = "es[?j := (es ! ?j)\<lparr>tused := False\<rparr>]"
    have step: "tlb_sweep n i es = tlb_sweep n ?j ?es"
      using j True by (subst tlb_sweep.simps) (simp add: Let_def)
    have "same_entries es ?es"
      using j by (simp add: same_entries_def map_list_update_same)
    then show ?thesis
      using 1(1) [OF refl rd_in_range [OF j]] True 1(2,3) step by (auto simp: same_entries_def)
  qed
qed

lemma same_entries_length:
  assumes "same_entries es es'"
  shows "length es' = length es"
  using arg_cong [OF assms [unfolded same_entries_def], of length] by simp

lemma tlb_entry_wf:
  assumes wf: "vm_wf s" and res: "resident s p v = Some f" and cur: "current s = Some p"
    and same: "same_entries (tlb s) es" and j: "j < length (tlb s)"
  shows "vm_wf (s\<lparr>tlb_hand := j,
    tlb := es[j := \<lparr>tvpn = v, tpfn = f, tvalid = True, tdirty = w, tused = True\<rparr>]\<rparr>)" (is "vm_wf ?s")
proof -
  have len: "length es = length (tlb s)" using same by (rule same_entries_length)
  have mem: "\<exists>e' \<in> set (tlb s). tvalid e' \<and> tvpn e' = tvpn e \<and> tpfn e' = tpfn e"
    if "e \<in> set es" "tvalid e" for e
  proof -
    have "(tvpn e, tpfn e, tvalid e) \<in> set (map (\<lambda>e. (tvpn e, tpfn e, tvalid e)) (tlb s))"
      using that same [unfolded same_entries_def] by (metis (no_types, lifting) image_eqI list.set_map)
    then show ?thesis using that(2) by auto
  qed
  have "wf_tlb ?s"
    unfolding wf_tlb_def
  proof (intro ballI impI)
    fix e
    assume e: "e \<in> set (tlb ?s)" "tvalid e"
    have "set (tlb ?s) \<subseteq> insert \<lparr>tvpn = v, tpfn = f, tvalid = True, tdirty = w, tused = True\<rparr> (set es)"
      using set_update_subset_insert [of es j] by simp
    with e consider "e = \<lparr>tvpn = v, tpfn = f, tvalid = True, tdirty = w, tused = True\<rparr>" | "e \<in> set es"
      by auto
    then show "\<exists>p. current ?s = Some p \<and> resident ?s p (tvpn e) = Some (tpfn e)"
    proof cases
      case 1
      then show ?thesis using res cur by simp
    next
      case 2
      with mem [OF this e(2)] wf show ?thesis by (auto simp: vm_wf_def wf_tlb_def)
    qed
  qed
  moreover have "wf_shape ?s" using wf len by (simp add: vm_wf_def wf_shape_def)
  moreover have "wf_procs ?s" using wf by (simp add: vm_wf_def wf_procs_def)
  moreover have "wf_frames ?s" using wf by (simp add: vm_wf_def wf_frames_def)
  moreover have "wf_swap ?s" using wf by (simp add: vm_wf_def wf_swap_def)
  moreover have "wf_current ?s"
    using wf by (simp add: vm_wf_def wf_current_def split: option.splits)
  ultimately show ?thesis by (simp add: vm_wf_def)
qed

lemma tlb_lookup_spec:
  assumes wf: "vm_wf s" and cur: "runs s p t" and v: "v < CPU_NUM_PTE (cfg s)"
    and hand: "resident s p v = None \<longrightarrow> hand_ok s"
  shows "\<exists>f s' e. tlb_lookup v w s = Inr (f, s') \<and> translated p v f s s' \<and>
    pte_at s' p v = Some e \<and> (w \<longrightarrow> pdirty e \<or> tlb_hit s v)"
proof (cases "tlb_hit s v")
  case True
  then obtain f where f: "resident s p v = Some f"
    using wf cur by (auto simp: tlb_hit_def vm_wf_def wf_tlb_def runs_def)
  let ?s = "s\<lparr>count_tlbhits := count_tlbhits s + 1\<rparr>"
  have "tlb_search s v 0 (tlb_size (cfg s)) = Inr (Some f)"
    using tlb_search_spec [OF wf cur, of 0 "tlb_size (cfg s)" v] wf True f
    by (simp add: vm_wf_def wf_shape_def)
  then have "tlb_lookup v w s = Inr (f, ?s)" by (simp add: tlb_lookup_def)
  moreover have "translated p v f s ?s"
  proof -
    have "page_of ?s = page_of s"
      by (intro ext) (simp add: page_of_def frame_data_def swapped_def cong: option.case_cong)
    moreover have "vm_wf ?s"
      using wf by (intro vm_wf_cong [OF wf]) (simp_all add: vm_wf_def wf_shape_def)
    ultimately show ?thesis
      using f by (simp add: translated_def same_frame_def kept_same)
  qed
  moreover have "pte_at ?s p v = Some ((tables s ! t) v)"
    using runs_facts [OF wf cur] by (simp add: pte_at_def)
  ultimately show ?thesis using True by blast
next
  case False
  have miss: "tlb_search s v 0 (tlb_size (cfg s)) = Inr None"
    using tlb_search_spec [OF wf cur, of 0 "tlb_size (cfg s)" v] wf False
    by (simp add: vm_wf_def wf_shape_def)
  obtain f s1 e where pl: "pagetable_lookup v w s = Inr (f, s1)" and tr: "translated p v f s s1"
    and e: "pte_at s1 p v = Some e" "w \<longrightarrow> pdirty e"
    using pagetable_lookup_spec [OF wf cur v hand, of w] by blast
  have w1: "vm_wf s1" "runs s1 p t" "cfg s1 = cfg s" "current s1 = Some p" "resident s1 p v = Some f"
    using tr cur by (simp_all add: translated_def same_frame_def runs_def)
  have len: "length (tlb s1) = tlb_size (cfg s1)" "0 < tlb_size (cfg s1)"
    using w1(1) by (simp_all add: vm_wf_def wf_shape_def cfg_ok_def)
  obtain fi where fi: "tlb_first_invalid (tlb s1) 0 (tlb_size (cfg s1)) = Inr fi"
    "\<forall>j. fi = Some j \<longrightarrow> j < tlb_size (cfg s1)"
    using tlb_first_invalid_spec [of 0 "tlb_size (cfg s1)" "tlb s1"] len by auto
  obtain j es where j: "(case fi of Some i \<Rightarrow> Inr (i, tlb s1)
      | None \<Rightarrow> tlb_sweep (tlb_size (cfg s1)) (tlb_hand s1) (tlb s1)) = Inr (j, es)"
    "j < length (tlb s1)" "same_entries (tlb s1) es"
    using fi(2) len tlb_sweep_spec [of "tlb_size (cfg s1)" "tlb s1" "tlb_hand s1"]
    by (cases fi) (auto simp: same_entries_def)
  have les: "length es = length (tlb s1)" using j(3) by (rule same_entries_length)
  define s2 where "s2 = s1\<lparr>tlb_hand := j,
    tlb := es[j := \<lparr>tvpn = v, tpfn = f, tvalid = True, tdirty = w, tused = True\<rparr>]\<rparr>"
  have wf2: "vm_wf s2" unfolding s2_def by (rule tlb_entry_wf [OF w1(1,5,4) j(3,2)])
  have pg2: "page_of s2 = page_of s1"
    by (intro ext) (simp add: page_of_def s2_def cong: option.case_cong)
  have tr2: "translated p v f s s2"
    using tr wf2 pg2 kept_cong [of p v s s1 s2]
    by (simp add: translated_def same_frame_def) (simp add: s2_def)
  have e2: "pte_at s2 p v = Some e" using e(1) by (simp add: pte_at_def s2_def split: if_splits)
  have r2: "runs s2 p t" "v < CPU_NUM_PTE (cfg s2)" using w1 v by (simp_all add: runs_def s2_def)
  have g2: "get_pte (cfg s2) (tables s2) t v = Inr e"
    using pte_at_get [OF wf2 r2] e2 by simp
  have lk: "tlb_lookup v w s = (if w then Inr (f, s2\<lparr>tables := set_pte (tables s2) t v
      (e\<lparr>pdirty := True, pused := True\<rparr>)\<rparr>) else Inr (f, s2))"
    using miss pl fi(1) j(1,2) les g2 r2(1) w1(3)
    unfolding tlb_lookup_def by (simp add: s2_def runs_def)
  show ?thesis
  proof (cases w)
    case False
    then show ?thesis using lk tr2 e2 by auto
  next
    case True
    let ?e = "e\<lparr>pdirty := True, pused := True\<rparr>"
    have "translated p v f s (s2\<lparr>tables := set_pte (tables s2) t v ?e\<rparr>)"
      by (rule translated_flags [OF tr2 cur e2]) simp_all
    moreover have "pte_at (s2\<lparr>tables := set_pte (tables s2) t v ?e\<rparr>) p v = Some ?e"
      by (rule pte_flags_keep(5) [OF wf2 r2(1) e2]) simp_all
    ultimately show ?thesis using lk True by auto
  qed
qed

section \<open>Loads and stores\<close>

lemma memory_update_wf:
  assumes "vm_wf s" and "length m = length (memory s)"
  shows "vm_wf (s\<lparr>memory := m\<rparr>)"
  using assms by (intro vm_wf_cong [OF assms(1)]) (simp_all add: vm_wf_def wf_shape_def)

lemma frame_byte:
  assumes "vm_wf s" and "resident s p v = Some f" and "off < page_size (cfg s)"
  shows "f * page_size (cfg s) + off < length (memory s)"
    and "memory s ! (f * page_size (cfg s) + off) = page_of s p v ! off"
proof -
  have "f * page_size (cfg s) + page_size (cfg s) \<le> length (memory s)"
    using wf_frame_bound [OF assms(1)] wf_resident [OF assms(1,2)] by simp
  with assms(2,3) show "f * page_size (cfg s) + off < length (memory s)"
    and "memory s ! (f * page_size (cfg s) + off) = page_of s p v ! off"
    by (simp_all add: page_of_def frame_data_def)
qed

lemma counters_keep:
  assumes "vm_wf s"
  shows "vm_wf (s\<lparr>count_reads := a\<rparr>)" "vm_wf (s\<lparr>count_writes := b\<rparr>)"
    "page_of (s\<lparr>count_reads := a\<rparr>) = page_of s" "page_of (s\<lparr>count_writes := b\<rparr>) = page_of s"
  using vm_wf_cong [OF assms, of "s\<lparr>count_reads := a\<rparr>"] vm_wf_cong [OF assms, of "s\<lparr>count_writes := b\<rparr>"]
    assms
  by (simp_all add: vm_wf_def wf_shape_def page_of_def frame_data_def swapped_def fun_eq_iff
      cong: option.case_cong)

lemma mem_load_spec:
  assumes wf: "vm_wf s" and cur: "runs s p t" and a: "a < 2 ^ 16"
    and hand: "resident s p (a div page_size (cfg s)) = None \<longrightarrow> hand_ok s"
  defines "v \<equiv> a div page_size (cfg s)"
  shows "\<exists>s'. mem_load a s = Inr (page_of s p v ! (a mod page_size (cfg s)), s') \<and> vm_wf s' \<and>
    same_frame s s' \<and> page_of s' p v = page_of s p v \<and> kept p v s s'"
proof -
  have ok: "cfg_ok (cfg s)" using wf by (simp add: vm_wf_def wf_shape_def)
  have vo: "VADDR_PAGENUM (cfg s) a = v" "VADDR_OFFSET (cfg s) a = a mod page_size (cfg s)"
    "v < CPU_NUM_PTE (cfg s)" "a mod page_size (cfg s) < page_size (cfg s)"
    using VADDR_PAGENUM_div [OF ok] VADDR_OFFSET_mod [OF ok] VADDR_in_range [OF ok a] cfg_ok_page [OF ok]
    by (simp_all add: v_def)
  obtain f s1 where lk: "tlb_lookup v False s = Inr (f, s1)" and tr: "translated p v f s s1"
    using tlb_lookup_spec [OF wf cur vo(3) hand [folded v_def], of False] by blast
  have w1: "vm_wf s1" "resident s1 p v = Some f" "cfg s1 = cfg s" "page_of s1 p v = page_of s p v"
    using tr by (simp_all add: translated_def same_frame_def)
  have off: "a mod page_size (cfg s) < page_size (cfg s1)" using vo(4) w1(3) by simp
  have "mem_load a s = Inr (page_of s p v ! (a mod page_size (cfg s)),
      s1\<lparr>count_reads := count_reads s1 + 1\<rparr>)"
    using vo lk w1(3,4) frame_byte [OF w1(1,2) off] by (simp add: mem_load_def)
  then show ?thesis
    using tr counters_keep [OF w1(1)] kept_cong [of p v s s1]
    by (auto simp: translated_def same_frame_def)
qed

lemma mem_store_spec:
  assumes wf: "vm_wf s" and cur: "runs s p t" and a: "a < 2 ^ 16"
    and hand: "resident s p (a div page_size (cfg s)) = None \<longrightarrow> hand_ok s"
  defines "v \<equiv> a div page_size (cfg s)"
  shows "\<exists>s' s1. mem_store a d s = Inr s' \<and> vm_wf s' \<and> same_frame s s' \<and> kept p v s s1 \<and> resident s' = resident s1 \<and>
    page_of s1 p v = page_of s p v \<and>
    page_of s' = (\<lambda>q u. if q = p \<and> u = v then (page_of s p v)[a mod page_size (cfg s) := d]
      else page_of s1 q u) \<and> (clean_at s' p v \<longrightarrow> tlb_hit s v)"
proof -
  let ?n = "page_size (cfg s)"
  have ok: "cfg_ok (cfg s)" using wf by (simp add: vm_wf_def wf_shape_def)
  have vo: "VADDR_PAGENUM (cfg s) a = v" "VADDR_OFFSET (cfg s) a = a mod ?n"
    "v < CPU_NUM_PTE (cfg s)" "a mod ?n < ?n"
    using VADDR_PAGENUM_div [OF ok] VADDR_OFFSET_mod [OF ok] VADDR_in_range [OF ok a] cfg_ok_page [OF ok]
    by (simp_all add: v_def)
  obtain f s0 e where lk: "tlb_lookup v True s = Inr (f, s0)" and tr: "translated p v f s s0"
    and e: "pte_at s0 p v = Some e" "pdirty e \<or> tlb_hit s v"
    using tlb_lookup_spec [OF wf cur vo(3) hand [folded v_def], of True] by blast
  have w0: "vm_wf s0" "resident s0 p v = Some f" "cfg s0 = cfg s" "page_of s0 p v = page_of s p v"
    using tr by (simp_all add: translated_def same_frame_def)
  define s1 where "s1 = s0\<lparr>count_writes := count_writes s0 + 1\<rparr>"
  have w1: "vm_wf s1" "resident s1 p v = Some f" "cfg s1 = cfg s" "page_of s1 = page_of s0"
    using w0 counters_keep [OF w0(1)] by (simp_all add: s1_def)
  define m where "m = (memory s1)[f * ?n + a mod ?n := d]"
  define s' where "s' = s1\<lparr>memory := m\<rparr>"
  have off: "a mod ?n < page_size (cfg s1)" using vo(4) w1(3) by simp
  have st: "mem_store a d s = Inr s'"
    using vo lk w1(3) w0(3) frame_byte [OF w1(1,2) off] by (simp add: mem_store_def s1_def m_def s'_def)
  have wf': "vm_wf s'" unfolding s'_def by (rule memory_update_wf [OF w1(1)]) (simp add: m_def)
  have b: "g * ?n + ?n \<le> length (memory s1)" if "g < CPU_NUM_FRAMES (cfg s)" for g
    using wf_frame_bound [OF w1(1)] that w1(3) by simp
  have fr: "f < CPU_NUM_FRAMES (cfg s)" using wf_resident [OF w1(1,2)] w1(3) by simp
  have fd: "frame_data s' g = (if g = f then (frame_data s1 f)[a mod ?n := d] else frame_data s1 g)"
    if "g < CPU_NUM_FRAMES (cfg s)" for g
    using frame_update [OF b [OF fr] b [OF that] vo(4), of d] w1(3)
    by (simp add: frame_data_def s'_def m_def)
  have pg: "page_of s' q u = (if q = p \<and> u = v then (page_of s p v)[a mod ?n := d] else page_of s1 q u)"
    for q u
  proof (cases "resident s1 q u")
    case None
    with w1(2) show ?thesis by (auto simp: page_of_def s'_def cong: option.case_cong)
  next
    case (Some g)
    then have g: "g < CPU_NUM_FRAMES (cfg s)" "g = f \<longleftrightarrow> q = p \<and> u = v"
      using wf_resident [OF w1(1), of q u g] w1(3) resident_inj [OF w1(1,2), of q u] w1(2) by auto
    have "page_of s' q u = frame_data s' g" using Some by (simp add: page_of_def s'_def)
    also have "\<dots> = (if q = p \<and> u = v then (frame_data s1 f)[a mod ?n := d] else frame_data s1 g)"
      using fd [OF g(1)] g(2) by simp
    also have "frame_data s1 f = page_of s1 p v" using w1(2) by (simp add: page_of_def)
    also have "page_of s1 p v = page_of s p v" using w1(4) w0(4) by simp
    finally show ?thesis using Some by (simp add: page_of_def)
  qed
  have "clean_at s' p v \<longrightarrow> tlb_hit s v"
    using e by (auto simp: clean_at_def pte_at_def s'_def s1_def)
  moreover have "same_frame s s'" using tr by (simp add: translated_def same_frame_def s'_def s1_def)
  moreover have "kept p v s s1"
    using tr w1(4) kept_cong [of p v s s0 s1] by (simp add: translated_def s1_def)
  moreover have "resident s' = resident s1" by (simp add: s'_def)
  moreover have "page_of s1 p v = page_of s p v" using w1(4) w0(4) by simp
  ultimately show ?thesis using st wf' pg by (intro exI [of _ s'] exI [of _ s1]) (simp add: fun_eq_iff)
qed

end
