(* ===== verification/VmRuns.thy ===== *)
theory VmRuns
  imports VmAccess
begin

text \<open>
  Whole runs of the virtual-memory simulator: process creation and switching, the command loop,
  and its equivalence with a flat memory per process while the pages fit into the frames.
\<close>

section \<open>Processes\<close>

definition forked :: "vm \<Rightarrow> nat \<Rightarrow> bool" where
  "forked s p \<longleftrightarrow> p < length (proc_list s) \<and> pagetable (proc_list s ! p) \<noteq> None"

lemma pid_in_range_nat: "pid_in_range c p \<Longrightarrow> \<exists>k. p = int k \<and> k < max_jobs c"
  by (rule exI [of _ "nat p"]) (simp add: pid_in_range_def nat_less_iff)

lemma wf_proc_length: "vm_wf s \<Longrightarrow> length (proc_list s) = max_jobs (cfg s)"
  by (simp add: vm_wf_def wf_shape_def)

lemma proc_fork_spec:
  assumes wf: "vm_wf s" and p: "p < max_jobs (cfg s)" and fresh: "\<not> forked s p"
  shows "\<exists>s'. proc_fork (int p) nm s = Inr s' \<and> vm_wf s' \<and> cfg s' = cfg s \<and> rlt s' = rlt s \<and>
    resident s' = resident s \<and> page_of s' = page_of s \<and> (\<forall>q. forked s' q \<longleftrightarrow> forked s q \<or> q = p)"
proof -
  let ?b = "\<lparr>pid = int p, pname = take 20 nm, pagetable = Some (length (tables s))\<rparr>"
  let ?s = "s\<lparr>tables := tables s @ [\<lambda>_. zero_pte], proc_list := (proc_list s)[p := ?b]\<rparr>"
  have len: "p < length (proc_list s)" using p wf_proc_length [OF wf] by simp
  have old: "\<And>q t. q < length (proc_list s) \<Longrightarrow> pagetable (proc_list s ! q) = Some t \<Longrightarrow>
      t < length (tables s) \<and> pid (proc_list s ! q) = int q"
    and inj: "\<And>q q' t. q < length (proc_list s) \<Longrightarrow> q' < length (proc_list s) \<Longrightarrow>
      pagetable (proc_list s ! q) = Some t \<Longrightarrow> pagetable (proc_list s ! q') = Some t \<Longrightarrow> q = q'"
    using wf by (auto simp: vm_wf_def wf_procs_def)
  have none: "pagetable (proc_list s ! p) = None" using fresh len by (simp add: forked_def)
  have run: "proc_fork (int p) nm s = Inr ?s"
    using p len wf by (simp add: proc_fork_def pid_in_range_def vm_wf_def wf_shape_def)
  have rs: "resident ?s = resident s"
  proof (intro ext)
    fix q u
    show "resident ?s q u = resident s q u"
    proof (cases "q = p")
      case True
      then show ?thesis using len none by (simp add: resident_def pte_at_def zero_pte_def)
    next
      case False
      then show ?thesis
        using old [of q]
        by (cases "pagetable (proc_list s ! q)") (auto simp: resident_def pte_at_def nth_append)
    qed
  qed
  have "wf_shape ?s" using wf by (simp add: vm_wf_def wf_shape_def)
  moreover have "wf_procs ?s"
    unfolding wf_procs_def
  proof (intro conjI allI impI)
    fix q t
    assume "q < length (proc_list ?s)" "pagetable (proc_list ?s ! q) = Some t"
    then show "t < length (tables ?s)" "pid (proc_list ?s ! q) = int q"
      using old [of q t] len by (auto simp: nth_list_update split: if_splits)
  next
    fix q q' t
    assume *: "q < length (proc_list ?s)" "q' < length (proc_list ?s)"
      "pagetable (proc_list ?s ! q) = Some t \<and> pagetable (proc_list ?s ! q') = Some t"
    then show "q = q'"
      using old [of q t] old [of q' t] inj [of q q' t] len
      by (cases "q = p"; cases "q' = p") (auto simp: nth_list_update)
  qed
  moreover have "wf_current ?s"
    using wf none len unfolding vm_wf_def wf_current_def
    by (cases "current s") (auto simp: nth_list_update)
  moreover have "wf_frames ?s" using wf rs by (simp add: vm_wf_def wf_frames_def)
  moreover have "wf_tlb ?s" using wf rs by (simp add: vm_wf_def wf_tlb_def)
  moreover have "wf_swap ?s" using wf rs by (simp add: vm_wf_def wf_swap_def)
  ultimately have "vm_wf ?s" by (simp add: vm_wf_def)
  moreover have "page_of ?s = page_of s"
    by (intro ext) (simp add: page_of_def rs; simp add: frame_data_def swapped_def cong: option.case_cong)
  moreover have "forked ?s q \<longleftrightarrow> forked s q \<or> q = p" for q
    using len by (auto simp: forked_def nth_list_update)
  ultimately show ?thesis using run rs by (intro exI [of _ ?s]) simp
qed

lemma clear_tlbe_invalid [simp]: "\<not> tvalid (clear_tlbe e)"
  by (simp add: clear_tlbe_def)

lemma proc_switch_spec:
  assumes wf: "vm_wf s" and p: "forked s p"
  shows "\<exists>s' t. proc_switch (int p) s = Inr s' \<and> vm_wf s' \<and> cfg s' = cfg s \<and> rlt s' = rlt s \<and>
    resident s' = resident s \<and> page_of s' = page_of s \<and> forked s' = forked s \<and> runs s' p t"
proof -
  obtain t where t: "pagetable (proc_list s ! p) = Some t" "p < length (proc_list s)"
    using p by (auto simp: forked_def)
  let ?s = "tlb_clearall (s\<lparr>current := Some p, current_pagetable := Some t\<rparr>)"
  have run: "proc_switch (int p) s = Inr ?s"
    using t wf_proc_length [OF wf] by (simp add: proc_switch_def pid_in_range_def)
  have rs: "resident ?s = resident s" by (simp add: tlb_clearall_def)
  have "wf_shape ?s" using wf by (simp add: vm_wf_def wf_shape_def tlb_clearall_def)
  moreover have "wf_procs ?s" using wf by (simp add: vm_wf_def wf_procs_def tlb_clearall_def)
  moreover have "wf_current ?s" using t by (simp add: wf_current_def tlb_clearall_def)
  moreover have "wf_frames ?s" using wf rs by (simp add: vm_wf_def wf_frames_def tlb_clearall_def)
  moreover have "wf_tlb ?s" by (simp add: wf_tlb_def tlb_clearall_def)
  moreover have "wf_swap ?s" using wf rs by (simp add: vm_wf_def wf_swap_def tlb_clearall_def)
  ultimately have "vm_wf ?s" by (simp add: vm_wf_def)
  moreover have "page_of ?s = page_of s"
    by (intro ext) (simp add: page_of_def rs;
      simp add: frame_data_def swapped_def tlb_clearall_def cong: option.case_cong)
  moreover have "forked ?s = forked s" by (simp add: forked_def tlb_clearall_def fun_eq_iff)
  moreover have "runs ?s p t" by (simp add: runs_def tlb_clearall_def)
  ultimately show ?thesis using run rs by (intro exI [of _ ?s] exI [of _ t]) (simp add: tlb_clearall_def)
qed

lemma switch_if_needed_spec:
  assumes wf: "vm_wf s" and p: "forked s p"
  shows "\<exists>s' t. switch_if_needed (int p) s = Inr s' \<and> vm_wf s' \<and> cfg s' = cfg s \<and> rlt s' = rlt s \<and>
    resident s' = resident s \<and> page_of s' = page_of s \<and> forked s' = forked s \<and> runs s' p t"
proof (cases "\<exists>t. runs s p t")
  case True
  then obtain t where t: "runs s p t" by blast
  then have "switch_if_needed (int p) s = Inr s"
    using runs_facts [OF wf t] by (simp add: switch_if_needed_def runs_def)
  then show ?thesis using wf t by blast
next
  case False
  have name: "proc_getname (int p) s = Inr (pname (proc_list s ! p))"
    using p wf_proc_length [OF wf] by (simp add: proc_getname_def pid_in_range_def forked_def)
  have "(case current s of None \<Rightarrow> Inr True
      | Some q \<Rightarrow> bindE (rd (proc_list s) q) (\<lambda>b. Inr (pid b \<noteq> int p))) = (Inr True :: bool c)"
  proof (cases "current s")
    case (Some q)
    then obtain t where t: "runs s q t" using wf by (auto simp: runs_def vm_wf_def wf_current_def)
    with False have "q \<noteq> p" by auto
    with Some runs_facts [OF wf t] show ?thesis by simp
  qed simp
  then have "switch_if_needed (int p) s = proc_switch (int p) s"
    using name by (simp add: switch_if_needed_def)
  then show ?thesis using proc_switch_spec [OF wf p] by simp
qed

lemma empty_pages:
  "resident s = (\<lambda>p v. None) \<Longrightarrow> swapfile s = [] \<Longrightarrow>
     page_of s = (\<lambda>p v. replicate (page_size (cfg s)) 0)"
  by (simp add: page_of_def swapped_def fun_eq_iff)

lemma sim_init_spec:
  assumes "cfg_ok c"
  shows "\<exists>s. sim_init (boot_vm c) = Inr s \<and> vm_wf s \<and> cfg s = c \<and> (\<forall>p. \<not> forked s p) \<and>
    resident s = (\<lambda>p v. None) \<and> page_of s = (\<lambda>p v. replicate (page_size c) 0)"
proof -
  let ?s = "(boot_vm c)\<lparr>memory := replicate (mem_size c) 0, proc_list := replicate (max_jobs c) zero_pcb,
    rlt := replicate (CPU_NUM_FRAMES c) zero_rlt, tlb := replicate (tlb_size c) zero_tlbe\<rparr>"
  have run: "sim_init (boot_vm c) = Inr ?s"
    by (simp add: sim_init_def mem_init_def proc_init_def tlb_init_def boot_vm_def)
  have rs: "resident ?s = (\<lambda>p v. None)"
    by (simp add: resident_def pte_at_def zero_pcb_def fun_eq_iff)
  have "wf_shape ?s" using assms by (simp add: wf_shape_def boot_vm_def)
  moreover have "wf_procs ?s" by (simp add: wf_procs_def zero_pcb_def)
  moreover have "wf_current ?s" by (simp add: wf_current_def boot_vm_def)
  moreover have "wf_frames ?s" using rs by (simp add: wf_frames_def zero_rlt_def boot_vm_def)
  moreover have "wf_tlb ?s" by (auto simp: wf_tlb_def zero_tlbe_def)
  moreover have "wf_swap ?s" by (simp add: wf_swap_def boot_vm_def)
  ultimately have "vm_wf ?s" by (simp add: vm_wf_def)
  moreover have "page_of ?s = (\<lambda>p v. replicate (page_size c) 0)"
    using empty_pages [of ?s] rs by (simp add: boot_vm_def)
  moreover have "\<not> forked ?s p" for p by (simp add: forked_def zero_pcb_def)
  ultimately show ?thesis using run rs by (intro exI [of _ ?s]) (simp add: boot_vm_def)
qed

section \<open>Runs of commands\<close>

text \<open>The reference semantics: one flat memory of bytes per process, all zero at the start.\<close>

type_synonym ref_mem = "nat \<Rightarrow> nat \<Rightarrow> u8"

fun ref_cmd :: "vm_cfg \<Rightarrow> vm_cmd \<Rightarrow> ref_mem \<Rightarrow> vm_out \<times> ref_mem" where
  "ref_cmd c (Fork p nm) M = (if pid_in_range c p then Forked p else TooManyJobs, M)"
| "ref_cmd c (Load p va want) M =
     (if pid_in_range c p
      then let d = M (nat p) va in (if d \<noteq> want then LoadError d want else LoadComplete d, M)
      else (Ignored, M))"
| "ref_cmd c (Store p va d) M =
     (if pid_in_range c p
      then (StoreComplete, M(nat p := (M (nat p))(va := d)))
      else (Ignored, M))"
| "ref_cmd c Other M = (Ignored, M)"

fun ref_cmds :: "vm_cfg \<Rightarrow> vm_cmd list \<Rightarrow> ref_mem \<Rightarrow> vm_out list" where
  "ref_cmds c [] M = []"
| "ref_cmds c (x # xs) M = (case ref_cmd c x M of (out, M') \<Rightarrow> out # ref_cmds c xs M')"

text \<open>
  The scripts the theorem covers: a process is forked once, with a name, before it is used, and
  addresses are 16 bits (which \<open>parse_line\<close> guarantees). \<open>F\<close> is the set of processes forked so
  far.
\<close>

fun well_forked :: "vm_cfg \<Rightarrow> int set \<Rightarrow> vm_cmd list \<Rightarrow> bool" where
  "well_forked c F [] = True"
| "well_forked c F (Fork p nm # xs) =
     (if pid_in_range c p then nm \<noteq> None \<and> p \<notin> F \<and> well_forked c (insert p F) xs
      else well_forked c F xs)"
| "well_forked c F (Load p va want # xs) =
     ((pid_in_range c p \<longrightarrow> p \<in> F \<and> va < 2 ^ 16) \<and> well_forked c F xs)"
| "well_forked c F (Store p va d # xs) =
     ((pid_in_range c p \<longrightarrow> p \<in> F \<and> va < 2 ^ 16) \<and> well_forked c F xs)"
| "well_forked c F (Other # xs) = well_forked c F xs"

text \<open>The pages a script touches.\<close>

fun touched :: "vm_cfg \<Rightarrow> vm_cmd list \<Rightarrow> (nat \<times> nat) set" where
  "touched c [] = {}"
| "touched c (Load p va want # xs) =
     (if pid_in_range c p then insert (nat p, va div page_size c) (touched c xs) else touched c xs)"
| "touched c (Store p va d # xs) =
     (if pid_in_range c p then insert (nat p, va div page_size c) (touched c xs) else touched c xs)"
| "touched c (_ # xs) = touched c xs"

lemma finite_touched: "finite (touched c xs)"
  by (induction c xs rule: touched.induct) simp_all

definition mem_rel :: "vm \<Rightarrow> ref_mem \<Rightarrow> bool" where
  "mem_rel s M \<longleftrightarrow> (\<forall>p va. page_of s p (va div page_size (cfg s)) ! (va mod page_size (cfg s)) = M p va)"

definition resident_in :: "vm \<Rightarrow> (nat \<times> nat) set \<Rightarrow> bool" where
  "resident_in s T \<longleftrightarrow> (\<forall>p v. resident s p v \<noteq> None \<longrightarrow> (p, v) \<in> T)"

definition forked_set :: "vm \<Rightarrow> int set \<Rightarrow> bool" where
  "forked_set s F \<longleftrightarrow> F = int ` {p. forked s p}"

text \<open>The invariant of a run that fits.\<close>

definition sim_ok :: "vm_cfg \<Rightarrow> int set \<Rightarrow> (nat \<times> nat) set \<Rightarrow> vm \<Rightarrow> ref_mem \<Rightarrow> bool" where
  "sim_ok c F T s M \<longleftrightarrow> vm_wf s \<and> cfg s = c \<and> forked_set s F \<and> resident_in s T \<and> mem_rel s M"

lemma frames_full_card:
  assumes wf: "vm_wf s" and full: "frames_full s" and T: "resident_in s T" "finite T"
    and new: "resident s p v = None" "(p, v) \<in> T"
  shows "CPU_NUM_FRAMES (cfg s) < card T"
proof -
  let ?n = "CPU_NUM_FRAMES (cfg s)"
  let ?g = "\<lambda>i. (the (rpcb (rlt s ! i)), rvpn (rlt s ! i))"
  have r: "resident s (fst (?g i)) (snd (?g i)) = Some i" if "i < ?n" for i
  proof -
    have "rlt s ! i \<in> set (rlt s)" using that wf_rlt_length [OF wf] by simp
    with full obtain q where "rpcb (rlt s ! i) = Some q" by (auto simp: frames_full_def)
    with wf_rlt [OF wf that this] show ?thesis by auto
  qed
  have "inj_on ?g {..<?n}"
  proof (rule inj_onI)
    fix i j
    assume i: "i \<in> {..<?n}" and j: "j \<in> {..<?n}" and eq: "?g i = ?g j"
    have "Some i = resident s (fst (?g i)) (snd (?g i))" using r i by simp
    also have "\<dots> = resident s (fst (?g j)) (snd (?g j))" by (simp only: eq)
    also have "\<dots> = Some j" using r j by simp
    finally show "i = j" by simp
  qed
  then have "card (?g ` {..<?n}) = ?n" by (simp add: card_image)
  moreover have "?g ` {..<?n} \<subseteq> T - {(p, v)}"
  proof
    fix x
    assume "x \<in> ?g ` {..<?n}"
    then obtain i where i: "i < ?n" "x = ?g i" by auto
    with r [OF i(1)] T(1) new(1) show "x \<in> T - {(p, v)}" by (auto simp: resident_in_def)
  qed
  ultimately have "?n \<le> card (T - {(p, v)})"
    using card_mono [OF finite_Diff [OF T(2)], of "?g ` {..<?n}" "{(p, v)}"] by simp
  also have "\<dots> < card T" using T(2) new(2) by (rule card_Diff1_less)
  finally show ?thesis .
qed

lemma page_of_length: "vm_wf s \<Longrightarrow> length (page_of s p v) = page_size (cfg s)"
  using wf_resident [of s p v] frame_data_length [of s] swapped_Some [of s p v]
  by (auto simp: page_of_def vm_wf_def wf_swap_def split: option.splits)

text \<open>An access of a touched page never finds the frames full.\<close>

lemma access_hand:
  assumes ok: "sim_ok c F T s M" and T: "finite T" "card T \<le> CPU_NUM_FRAMES c" "(p, v) \<in> T"
  shows "resident s p v = None \<longrightarrow> hand_ok s" and "\<not> frames_full s \<or> resident s p v \<noteq> None"
  using ok T frames_full_card [of s T p v] by (auto simp: sim_ok_def hand_ok_def)

lemma switch_sim:
  assumes ok: "sim_ok c F T s M" and p: "int p \<in> F"
  shows "\<exists>s' t. switch_if_needed (int p) s = Inr s' \<and> sim_ok c F T s' M \<and> runs s' p t"
proof -
  have "vm_wf s" "forked s p" using ok p by (auto simp: sim_ok_def forked_set_def)
  from switch_if_needed_spec [OF this] ok show ?thesis
    by (auto simp: sim_ok_def forked_set_def resident_in_def mem_rel_def)
qed

lemma same_frame_forked: "same_frame s s' \<Longrightarrow> forked s' = forked s"
  by (simp add: same_frame_def forked_def fun_eq_iff)

lemma kept_resident_in:
  assumes "kept p v s s1" and "resident_in s T" and "(p, v) \<in> T"
  shows "resident_in s1 T"
  unfolding resident_in_def
proof (intro allI impI)
  fix q u
  assume r: "resident s1 q u \<noteq> None"
  show "(q, u) \<in> T"
  proof (cases "resident s q u")
    case None
    with r assms(1) have "q = p \<and> u = v" by (simp add: kept_def)
    with assms(3) show ?thesis by simp
  next
    case (Some f)
    with assms(2) show ?thesis by (auto simp: resident_in_def)
  qed
qed

lemma load_sim:
  assumes ok: "sim_ok c F T s M" and cur: "runs s p t" and a: "a < 2 ^ 16"
    and T: "finite T" "card T \<le> CPU_NUM_FRAMES c" "(p, a div page_size c) \<in> T"
  shows "\<exists>s'. mem_load a s = Inr (M p a, s') \<and> sim_ok c F T s' M"
proof -
  have c: "cfg s = c" "vm_wf s" using ok by (simp_all add: sim_ok_def)
  note h = access_hand [OF ok T]
  from mem_load_spec [OF c(2) cur a] h(1) c(1) obtain s' where
    s': "mem_load a s = Inr (page_of s p (a div page_size c) ! (a mod page_size c), s')" "vm_wf s'"
    "same_frame s s'" "kept p (a div page_size c) s s'"
    by auto
  have "resident_in s' T" using kept_resident_in [OF s'(4) _ T(3)] ok by (simp add: sim_ok_def)
  moreover have "page_of s' = page_of s" "cfg s' = c"
    using s' h(2) c(1) by (simp_all add: kept_def same_frame_def)
  ultimately have "sim_ok c F T s' M"
    using s'(2,3) ok same_frame_forked [OF s'(3)] unfolding sim_ok_def forked_set_def mem_rel_def
    by metis
  moreover have "page_of s p (a div page_size c) ! (a mod page_size c) = M p a"
    using ok by (auto simp: sim_ok_def mem_rel_def)
  ultimately show ?thesis using s'(1) by simp
qed

lemma split_address_eq:
  "(x :: nat) = y \<longleftrightarrow> x div n = y div n \<and> x mod n = y mod n"
  by (metis div_mult_mod_eq)

lemma store_sim:
  assumes ok: "sim_ok c F T s M" and cur: "runs s p t" and a: "a < 2 ^ 16"
    and T: "finite T" "card T \<le> CPU_NUM_FRAMES c" "(p, a div page_size c) \<in> T"
  shows "\<exists>s'. mem_store a d s = Inr s' \<and> sim_ok c F T s' (M(p := (M p)(a := d)))"
proof -
  let ?n = "page_size c"
  have c: "cfg s = c" "vm_wf s" using ok by (simp_all add: sim_ok_def)
  then have pos: "0 < ?n" using cfg_ok_page by (auto simp: vm_wf_def wf_shape_def)
  note h = access_hand [OF ok T]
  from mem_store_spec [OF c(2) cur a, of d] h(1) c(1) obtain s' s1 where
    s': "mem_store a d s = Inr s'" "vm_wf s'" "same_frame s s'" "kept p (a div ?n) s s1"
    "resident s' = resident s1" "page_of s1 p (a div ?n) = page_of s p (a div ?n)"
    "page_of s' = (\<lambda>q u. if q = p \<and> u = a div ?n then (page_of s p (a div ?n))[a mod ?n := d]
      else page_of s1 q u)"
    by auto
  have "resident_in s1 T" using kept_resident_in [OF s'(4) _ T(3)] ok by (simp add: sim_ok_def)
  then have k: "page_of s1 = page_of s" "resident_in s' T" "cfg s' = c"
    using s' h(2) c(1) by (simp_all add: kept_def resident_in_def same_frame_def)
  have len: "a mod ?n < length (page_of s p (a div ?n))"
    using page_of_length [OF c(2)] c(1) pos by simp
  have "mem_rel s' (M(p := (M p)(a := d)))"
    unfolding mem_rel_def
  proof (intro allI)
    fix q b
    have old: "page_of s q (b div ?n) ! (b mod ?n) = M q b"
      using ok by (auto simp: sim_ok_def mem_rel_def)
    show "page_of s' q (b div page_size (cfg s')) ! (b mod page_size (cfg s')) =
        (M(p := (M p)(a := d))) q b"
      using old s'(7) k(1,3) len split_address_eq [of b a ?n]
      by (auto simp: nth_list_update)
  qed
  then have "sim_ok c F T s' (M(p := (M p)(a := d)))"
    using s'(2,3) k ok same_frame_forked [OF s'(3)] by (simp add: sim_ok_def forked_set_def)
  then show ?thesis using s'(1) by blast
qed

lemma fork_sim:
  assumes ok: "sim_ok c F T s M" and p: "pid_in_range c p" "p \<notin> F"
  shows "\<exists>s'. proc_fork p nm s = Inr s' \<and> sim_ok c (insert p F) T s' M"
proof -
  obtain k where k: "p = int k" "k < max_jobs c" using pid_in_range_nat [OF p(1)] by blast
  have c: "cfg s = c" "vm_wf s" "\<not> forked s k" "k < max_jobs (cfg s)"
    using ok p(2) k by (auto simp: sim_ok_def forked_set_def)
  from proc_fork_spec [OF c(2,4,3), of nm] ok k(1) show ?thesis
    by (auto simp: sim_ok_def forked_set_def resident_in_def mem_rel_def)
qed

lemma mem_print_dump:
  "vm_wf s \<Longrightarrow> 16 \<le> mem_size (cfg s) \<Longrightarrow> \<exists>ds. mem_print 0 12 s = Inr ds"
  by (simp add: mem_print_def vm_wf_def wf_shape_def)

lemma exec_cmds_sim:
  assumes "sim_ok c F T s M" and "well_forked c F xs" and "finite T"
    and "card T \<le> CPU_NUM_FRAMES c" and "touched c xs \<subseteq> T" and "16 \<le> mem_size c"
  shows "\<exists>s'. exec_cmds xs s = Inr (ref_cmds c xs M, s') \<and> vm_wf s'"
  using assms
proof (induction xs arbitrary: F s M)
  case Nil
  then show ?case by (simp add: sim_ok_def)
next
  case (Cons x xs)
  have cf: "cfg s = c" using Cons.prems(1) by (simp add: sim_ok_def)
  show ?case
  proof (cases x)
    case (Fork p nm)
    show ?thesis
    proof (cases "pid_in_range c p")
      case True
      with Fork Cons.prems(2) obtain n where n: "nm = Some n" "p \<notin> F" "well_forked c (insert p F) xs"
        by auto
      from fork_sim [OF Cons.prems(1) True n(2), of n] obtain s' where
        s': "proc_fork p n s = Inr s'" "sim_ok c (insert p F) T s' M" by blast
      from Cons.IH [OF s'(2) n(3) Cons.prems(3,4) _ Cons.prems(6)] Cons.prems(5) Fork s'(1) True n(1) cf
      show ?thesis by auto
    next
      case False
      with Cons.IH [OF Cons.prems(1) _ Cons.prems(3,4) _ Cons.prems(6)] Cons.prems(2,5) Fork cf
      show ?thesis by auto
    qed
  next
    case (Load p va want)
    show ?thesis
    proof (cases "pid_in_range c p")
      case True
      then obtain k where k: "p = int k" using pid_in_range_nat by blast
      have h: "p \<in> F" "va < 2 ^ 16" "well_forked c F xs" "(k, va div page_size c) \<in> T"
        "touched c xs \<subseteq> T"
        using Cons.prems(2,5) Load True k by auto
      obtain s1 t where s1: "switch_if_needed p s = Inr s1" "sim_ok c F T s1 M" "runs s1 k t"
        using switch_sim [OF Cons.prems(1), of k] h(1) k by auto
      obtain s2 where s2: "mem_load va s1 = Inr (M k va, s2)" "sim_ok c F T s2 M"
        using load_sim [OF s1(2,3) h(2) Cons.prems(3,4) h(4)] by blast
      obtain s' where s': "exec_cmds xs s2 = Inr (ref_cmds c xs M, s')" "vm_wf s'"
        using Cons.IH [OF s2(2) h(3) Cons.prems(3,4) h(5) Cons.prems(6)] by blast
      have "exec_cmd x s = Inr (if M k va \<noteq> want then LoadError (M k va) want
          else LoadComplete (M k va), s2)"
        using s1(1) s2 Load True cf k mem_print_dump [of s2] Cons.prems(6)
        by (auto simp: sim_ok_def)
      moreover have "ref_cmd c x M = (if M k va \<noteq> want then LoadError (M k va) want
          else LoadComplete (M k va), M)"
        using Load True k by (simp add: Let_def)
      ultimately show ?thesis using s' by simp
    next
      case False
      with Cons.IH [OF Cons.prems(1) _ Cons.prems(3,4) _ Cons.prems(6)] Cons.prems(2,5) Load cf
      show ?thesis by auto
    qed
  next
    case (Store p va d)
    show ?thesis
    proof (cases "pid_in_range c p")
      case True
      then obtain k where k: "p = int k" using pid_in_range_nat by blast
      have h: "p \<in> F" "va < 2 ^ 16" "well_forked c F xs" "(k, va div page_size c) \<in> T"
        "touched c xs \<subseteq> T"
        using Cons.prems(2,5) Store True k by auto
      obtain s1 t where s1: "switch_if_needed p s = Inr s1" "sim_ok c F T s1 M" "runs s1 k t"
        using switch_sim [OF Cons.prems(1), of k] h(1) k by auto
      obtain s2 where s2: "mem_store va d s1 = Inr s2" "sim_ok c F T s2 (M(k := (M k)(va := d)))"
        using store_sim [OF s1(2,3) h(2) Cons.prems(3,4) h(4)] by blast
      obtain s' where s': "exec_cmds xs s2 = Inr (ref_cmds c xs (M(k := (M k)(va := d))), s')" "vm_wf s'"
        using Cons.IH [OF s2(2) h(3) Cons.prems(3,4) h(5) Cons.prems(6)] by blast
      have "exec_cmd x s = Inr (StoreComplete, s2)" using s1(1) s2(1) Store True cf by simp
      moreover have "ref_cmd c x M = (StoreComplete, M(k := (M k)(va := d)))"
        using Store True k by simp
      ultimately show ?thesis using s' by simp
    next
      case False
      with Cons.IH [OF Cons.prems(1) _ Cons.prems(3,4) _ Cons.prems(6)] Cons.prems(2,5) Store cf
      show ?thesis by auto
    qed
  next
    case Other
    with Cons.IH [OF Cons.prems(1) _ Cons.prems(3,4) _ Cons.prems(6)] Cons.prems(2,5) show ?thesis by auto
  qed
qed

text \<open>
  C3. The simulator implements demand paging transparently when the working set fits: from the
  state \<open>sim_init\<close> builds, a script whose touched pages number at most the physical frames runs
  without a fault and prints, command by command, what a flat zero-initialised memory per
  process would give. Page faults, TLB replacement and process switches are invisible. (Sixteen
  bytes of memory are needed because a failed load dumps the first sixteen.)
\<close>

theorem paging_is_transparent:
  assumes "cfg_ok c" and "16 \<le> mem_size c" and "well_forked c {} xs"
    and "card (touched c xs) \<le> CPU_NUM_FRAMES c"
  shows "\<exists>s s'. sim_init (boot_vm c) = Inr s \<and>
    exec_cmds xs s = Inr (ref_cmds c xs (\<lambda>p va. 0), s') \<and> vm_wf s'"
proof -
  obtain s where s: "sim_init (boot_vm c) = Inr s" "vm_wf s" "cfg s = c" "\<forall>p. \<not> forked s p"
    "resident s = (\<lambda>p v. None)" "page_of s = (\<lambda>p v. replicate (page_size c) 0)"
    using sim_init_spec [OF assms(1)] by blast
  have "sim_ok c {} (touched c xs) s (\<lambda>p va. 0)"
    using s cfg_ok_page [OF assms(1)]
    by (simp add: sim_ok_def forked_set_def resident_in_def mem_rel_def)
  from exec_cmds_sim [OF this assms(3) finite_touched assms(4) subset_refl assms(2)] s(1) show ?thesis by auto
qed

lemma default_cfg_ok: "cfg_ok default_cfg"
  by (auto simp: cfg_ok_def default_cfg_def CPU_NUM_FRAMES_def intro: exI [of _ 1])

theorem paging_is_transparent_witness:
  "\<exists>s s'. sim_init (boot_vm default_cfg) = Inr s \<and>
    exec_cmds [Fork 0 (Some ''p''), Store 0 5 9, Load 0 5 9, Load 0 4 1] s =
      Inr ([Forked 0, StoreComplete, LoadComplete 9, LoadError 0 1], s')"
proof -
  let ?xs = "[Fork 0 (Some ''p''), Store 0 5 9, Load 0 5 9, Load 0 4 1]"
  have r: "pid_in_range default_cfg 0" "page_size default_cfg = 2" "CPU_NUM_FRAMES default_cfg = 8"
    "16 \<le> mem_size default_cfg"
    by (simp_all add: pid_in_range_def default_cfg_def CPU_NUM_FRAMES_def)
  have t: "touched default_cfg ?xs = {(0, 2)}" using r by auto
  have w: "well_forked default_cfg {} ?xs" using r by simp
  have o: "ref_cmds default_cfg ?xs (\<lambda>p va. 0) = [Forked 0, StoreComplete, LoadComplete 9, LoadError 0 1]"
    using r by simp
  have k: "card (touched default_cfg ?xs) \<le> CPU_NUM_FRAMES default_cfg" using t r by simp
  from paging_is_transparent [OF default_cfg_ok r(4) w k, unfolded o] show ?thesis by blast
qed

end
