(* ===== verification/VmProps.thy ===== *)
theory VmProps
  imports VmRuns
begin

text \<open>
  The properties of the virtual-memory simulator under memory pressure: what a load and a store
  guarantee in any well-formed state, exactly when an access faults, the second-chance sweep, the
  swap round trip, the accepted configurations, and the loss of a page that a TLB hit wrote.
\<close>

section \<open>A concrete state for the witnesses\<close>

definition demo_cfg :: vm_cfg where
  "demo_cfg = \<lparr>page_size = 2, mem_size = 2, tlb_size = 2, max_jobs = 1\<rparr>"

definition demo_vm :: vm where
  "demo_vm = \<lparr>cfg = demo_cfg, memory = [7, 0],
     tables = [(\<lambda>_. zero_pte)(0 := \<lparr>pfn = 0, pvalid = True, pdirty = False, pused = True\<rparr>)],
     proc_list = [\<lparr>pid = 0, pname = ''p'', pagetable = Some 0\<rparr>], current = Some 0,
     current_pagetable = Some 0, rlt = [\<lparr>rpcb = Some 0, rvpn = 0\<rparr>],
     tlb = [\<lparr>tvpn = 0, tpfn = 0, tvalid = True, tdirty = False, tused = True\<rparr>, zero_tlbe],
     swapfile = [], clock_hand = 0, tlb_hand = 0, calloc_ok = True, count_pagefaults = 1,
     count_tlbhits = 0, count_writes = 0, count_reads = 1, count_diskaccesses = 0\<rparr>"

lemma demo_cfg_ok: "cfg_ok demo_cfg"
  by (auto simp: cfg_ok_def demo_cfg_def CPU_NUM_FRAMES_def intro: exI [of _ 1])

lemma demo_resident: "resident demo_vm p v = (if p = 0 \<and> v = 0 then Some 0 else None)"
  by (simp add: resident_def pte_at_def demo_vm_def zero_pte_def)

lemma demo_pages: "page_of demo_vm 0 0 = [7, 0]" "cfg demo_vm = demo_cfg" "page_size demo_cfg = 2"
  by (simp_all add: page_of_def demo_resident) (simp_all add: frame_data_def demo_vm_def demo_cfg_def)

lemma demo_wf: "vm_wf demo_vm"
proof -
  have fr: "CPU_NUM_FRAMES demo_cfg = 1" "CPU_NUM_PTE demo_cfg = 32768"
    by (simp_all add: CPU_NUM_FRAMES_def CPU_NUM_PTE_def demo_cfg_def)
  have "wf_shape demo_vm"
    using demo_cfg_ok fr by (simp add: wf_shape_def demo_vm_def) (simp add: demo_cfg_def)
  moreover have "wf_procs demo_vm" by (simp add: wf_procs_def demo_vm_def)
  moreover have "wf_current demo_vm" by (simp add: wf_current_def demo_vm_def)
  moreover have "wf_frames demo_vm"
    using fr unfolding wf_frames_def demo_resident
    by (auto simp: demo_vm_def)
  moreover have "wf_tlb demo_vm"
    unfolding wf_tlb_def demo_resident by (auto simp: demo_vm_def zero_tlbe_def)
  moreover have "wf_swap demo_vm" by (simp add: wf_swap_def demo_vm_def)
  ultimately show ?thesis by (simp add: vm_wf_def)
qed

lemma demo_runs: "runs demo_vm 0 0"
  by (simp add: runs_def demo_vm_def)

lemma demo_hit_clean: "tlb_hit demo_vm 0" "clean_at demo_vm 0 0" "frames_full demo_vm"
  by (simp_all add: tlb_hit_def clean_at_def pte_at_def frames_full_def)
    (simp_all add: demo_vm_def)

section \<open>Loads and stores\<close>

text \<open>
  A load in any well-formed state, under memory pressure or not, returns the byte of the
  abstract page of the running process, wherever the page was, and keeps the state well-formed.
  The only pages whose content it can change are victims evicted with a clear dirty bit.
\<close>

theorem load_returns_page:
  assumes "vm_wf s" and "runs s p t" and "a < 2 ^ 16"
    and "resident s p (a div page_size (cfg s)) = None \<longrightarrow> hand_ok s"
  shows "\<exists>s'. mem_load a s =
      Inr (page_of s p (a div page_size (cfg s)) ! (a mod page_size (cfg s)), s') \<and>
    vm_wf s' \<and> runs s' p t \<and>
    (\<forall>q u. page_of s' q u \<noteq> page_of s q u \<longrightarrow> clean_at s q u \<and> (q, u) \<noteq> (p, a div page_size (cfg s)))"
proof -
  from mem_load_spec [OF assms] obtain s' where
    "mem_load a s = Inr (page_of s p (a div page_size (cfg s)) ! (a mod page_size (cfg s)), s')"
    "vm_wf s'" "same_frame s s'" "page_of s' p (a div page_size (cfg s)) = page_of s p (a div page_size (cfg s))"
    "kept p (a div page_size (cfg s)) s s'"
    by blast
  then show ?thesis
    using assms(2) by (intro exI [of _ s']) (auto simp: same_frame_def runs_def kept_def drops_def)
qed

theorem load_returns_page_witness:
  "\<exists>s'. mem_load 0 demo_vm = Inr (7, s') \<and> vm_wf s' \<and> runs s' 0 0"
  using load_returns_page [OF demo_wf demo_runs, of 0] demo_resident by (auto simp: demo_pages)

text \<open>
  A store in any well-formed state updates exactly the addressed byte of the abstract page of
  the running process; no other page changes except clean victims.
\<close>

theorem store_updates_page:
  assumes "vm_wf s" and "runs s p t" and "a < 2 ^ 16"
    and "resident s p (a div page_size (cfg s)) = None \<longrightarrow> hand_ok s"
  shows "\<exists>s'. mem_store a d s = Inr s' \<and> vm_wf s' \<and> runs s' p t \<and>
    page_of s' p (a div page_size (cfg s)) =
      (page_of s p (a div page_size (cfg s)))[a mod page_size (cfg s) := d] \<and>
    (\<forall>q u. (q, u) \<noteq> (p, a div page_size (cfg s)) \<longrightarrow>
       page_of s' q u = page_of s q u \<or> clean_at s q u)"
proof -
  let ?v = "a div page_size (cfg s)"
  from mem_store_spec [OF assms, of d] obtain s' s1 where
    s': "mem_store a d s = Inr s'" "vm_wf s'" "same_frame s s'" "kept p ?v s s1"
    "page_of s' = (\<lambda>q u. if q = p \<and> u = ?v then (page_of s p ?v)[a mod page_size (cfg s) := d]
      else page_of s1 q u)"
    by blast
  have "page_of s1 q u = page_of s q u \<or> clean_at s q u" for q u
    using s'(4) by (auto simp: kept_def drops_def)
  then show ?thesis
    using s' assms(2) by (intro exI [of _ s']) (auto simp: same_frame_def runs_def)
qed

theorem store_updates_page_witness:
  "\<exists>s'. mem_store 1 9 demo_vm = Inr s' \<and> vm_wf s' \<and> page_of s' 0 0 = [7, 9]"
  using store_updates_page [OF demo_wf demo_runs, of 1 9] demo_resident by (auto simp: demo_pages)

section \<open>The lost store\<close>

lemma store_on_hit:
  assumes wf: "vm_wf s" and cur: "runs s p t" and hit: "tlb_hit s v"
  obtains f where "resident s p v = Some f"
    and "tlb_lookup v w s = Inr (f, s\<lparr>count_tlbhits := count_tlbhits s + 1\<rparr>)"
proof -
  obtain f where f: "resident s p v = Some f"
    using wf cur hit by (auto simp: tlb_hit_def vm_wf_def wf_tlb_def runs_def)
  have "tlb_search s v 0 (tlb_size (cfg s)) = Inr (Some f)"
    using tlb_search_spec [OF wf cur, of 0 "tlb_size (cfg s)" v] wf hit f
    by (simp add: vm_wf_def wf_shape_def)
  then show ?thesis using that f by (simp add: tlb_lookup_def)
qed

lemma store_on_hit_clean:
  assumes "vm_wf s" and "runs s p t" and "tlb_hit s (VADDR_PAGENUM (cfg s) a)"
    and "mem_store a d s = Inr s'"
  shows "clean_at s' = clean_at s" and "resident s' = resident s"
proof -
  obtain f where "tlb_lookup (VADDR_PAGENUM (cfg s) a) True s =
      Inr (f, s\<lparr>count_tlbhits := count_tlbhits s + 1\<rparr>)"
    using store_on_hit [OF assms(1-3)] by blast
  with assms(4) obtain m where "s' = s\<lparr>count_tlbhits := count_tlbhits s + 1,
      count_writes := count_writes s + 1, memory := m\<rparr>"
    by (auto simp: mem_store_def wr_def Let_def split: if_splits)
  then show "clean_at s' = clean_at s" "resident s' = resident s"
    by (simp_all add: clean_at_def pte_at_def fun_eq_iff)
qed

text \<open>
  A store that hits the TLB does not mark the page dirty: writing to a page that was brought
  in by a load leaves it clean, and its eviction then discards the written byte.
\<close>

theorem store_on_hit_is_lost:
  assumes "vm_wf s" and "runs s p t" and "a < 2 ^ 16"
    and "tlb_hit s (a div page_size (cfg s))" and "clean_at s p (a div page_size (cfg s))"
  shows "\<exists>s1 f s2. mem_store a d s = Inr s1 \<and>
    page_of s1 p (a div page_size (cfg s)) ! (a mod page_size (cfg s)) = d \<and>
    resident s1 p (a div page_size (cfg s)) = Some f \<and> evict_victim f s1 = Inr s2 \<and>
    page_of s2 p (a div page_size (cfg s)) ! (a mod page_size (cfg s)) = 0"
proof -
  let ?v = "a div page_size (cfg s)" and ?o = "a mod page_size (cfg s)"
  have ok: "cfg_ok (cfg s)" using assms(1) by (simp add: vm_wf_def wf_shape_def)
  obtain f where f: "resident s p ?v = Some f" using store_on_hit [OF assms(1,2,4)] by blast
  from mem_store_spec [OF assms(1-3), of d] f obtain s1 where
    s1: "mem_store a d s = Inr s1" "vm_wf s1" "same_frame s s1"
    "page_of s1 p ?v = (page_of s p ?v)[?o := d]"
    by (auto simp: fun_eq_iff)
  have k: "clean_at s1 p ?v" "resident s1 p ?v = Some f"
    using store_on_hit_clean [OF assms(1,2) _ s1(1)] assms(4,5) f VADDR_PAGENUM_div [OF ok] by simp_all
  have len: "?o < length (page_of s p ?v)"
    using page_of_length [OF assms(1)] cfg_ok_page [OF ok] by simp
  have "f < CPU_NUM_FRAMES (cfg s1)" using wf_resident [OF s1(2) k(2)] by simp
  from evict_victim_spec [OF s1(2) this] k obtain s2 where
    "evict_victim f s1 = Inr s2" "page_of s2 p ?v = replicate (page_size (cfg s)) 0"
    using s1(3) by (auto simp: same_frame_def)
  then show ?thesis using s1 k len cfg_ok_page [OF ok] by auto
qed

theorem store_on_hit_is_lost_witness:
  "\<exists>s1 f s2. mem_store 1 9 demo_vm = Inr s1 \<and> page_of s1 0 0 ! 1 = 9 \<and>
    evict_victim f s1 = Inr s2 \<and> page_of s2 0 0 ! 1 = 0"
  using store_on_hit_is_lost [OF demo_wf demo_runs, of 1 9] demo_hit_clean by (auto simp: demo_pages)

section \<open>When an access faults\<close>

text \<open>With every frame taken and the hand one past the end, the sweep reads beyond the table.\<close>

lemma sweep_past_end:
  assumes wf: "vm_wf s" and full: "frames_full s" and hand: "clock_hand s = CPU_NUM_FRAMES (cfg s)"
  shows "get_free_frame s = Inl OutOfBounds"
proof -
  have len: "length (rlt s) = CPU_NUM_FRAMES (cfg s)" using wf by (rule wf_rlt_length)
  obtain x where x: "first_free (rlt s) 0 (CPU_NUM_FRAMES (cfg s)) = Inr x"
    "case x of None \<Rightarrow> True | Some j \<Rightarrow> j < CPU_NUM_FRAMES (cfg s) \<and> rpcb (rlt s ! j) = None"
    using first_free_spec [of 0 "CPU_NUM_FRAMES (cfg s)" "rlt s"] len by (auto split: option.splits)
  have "x = None"
  proof (cases x)
    case (Some j)
    with x len have "rlt s ! j \<in> set (rlt s)" "rpcb (rlt s ! j) = None" by simp_all
    with full show ?thesis by (auto simp: frames_full_def)
  qed simp
  moreover have "clock_sweep (cfg s) (proc_list s) (rlt s) (clock_hand s) (tables s) = Inl OutOfBounds"
    using len hand by (subst clock_sweep.simps) (simp add: rd_out_of_range)
  ultimately show ?thesis using x(1) by (simp add: get_free_frame_def)
qed

text \<open>
  The exact condition under which a load is undefined in a well-formed state: the page is not
  resident, no frame is free, and the clock hand, which \<open>get_free_frame\<close> leaves at \<open>i + 1\<close>
  without wrapping, stands one past the last frame. The fault is then an out-of-bounds read.
\<close>

theorem load_faults_iff:
  assumes "vm_wf s" and "runs s p t" and "a < 2 ^ 16"
  shows "(\<exists>e. mem_load a s = Inl e) \<longleftrightarrow>
    resident s p (a div page_size (cfg s)) = None \<and> frames_full s \<and>
    clock_hand s = CPU_NUM_FRAMES (cfg s)"
proof
  assume e: "\<exists>e. mem_load a s = Inl e"
  have "\<not> (resident s p (a div page_size (cfg s)) = None \<longrightarrow> hand_ok s)"
    using e mem_load_spec [OF assms] by (metis Inl_Inr_False)
  then have "resident s p (a div page_size (cfg s)) = None" "\<not> hand_ok s" by blast+
  moreover have "clock_hand s \<le> CPU_NUM_FRAMES (cfg s)"
    using assms(1) by (simp add: vm_wf_def wf_shape_def)
  ultimately show "resident s p (a div page_size (cfg s)) = None \<and> frames_full s \<and>
      clock_hand s = CPU_NUM_FRAMES (cfg s)"
    by (auto simp: hand_ok_def)
next
  let ?v = "a div page_size (cfg s)"
  assume h: "resident s p ?v = None \<and> frames_full s \<and> clock_hand s = CPU_NUM_FRAMES (cfg s)"
  have ok: "cfg_ok (cfg s)" using assms(1) by (simp add: vm_wf_def wf_shape_def)
  have v: "VADDR_PAGENUM (cfg s) a = ?v" "?v < CPU_NUM_PTE (cfg s)"
    using VADDR_PAGENUM_div [OF ok] VADDR_in_range [OF ok assms(3)] by simp_all
  have miss: "tlb_search s ?v 0 (tlb_size (cfg s)) = Inr None"
    using tlb_search_spec [OF assms(1,2), of 0 "tlb_size (cfg s)" ?v] assms(1) h
    by (simp add: vm_wf_def wf_shape_def)
  have e: "pte_at s p ?v = Some ((tables s ! t) ?v)"
    "get_pte (cfg s) (tables s) t ?v = Inr ((tables s ! t) ?v)"
    using pte_at_get [OF assms(1,2) v(2)] by simp_all
  then have inv: "\<not> pvalid ((tables s ! t) ?v)" using h by (auto simp: resident_def)
  let ?s = "s\<lparr>count_pagefaults := count_pagefaults s + 1\<rparr>"
  have "vm_wf ?s"
    using assms(1) by (intro vm_wf_cong [OF assms(1)]) (simp_all add: vm_wf_def wf_shape_def)
  then have "get_free_frame ?s = Inl OutOfBounds"
    using h by (intro sweep_past_end) (simp_all add: frames_full_def)
  then have "mem_load a s = Inl OutOfBounds"
    using v miss e inv assms(2)
    by (simp add: mem_load_def tlb_lookup_def pagetable_lookup_def pagefault_handler_def runs_def)
  then show "\<exists>e. mem_load a s = Inl e" by blast
qed

theorem load_faults_iff_witness: "\<not> (\<exists>e. mem_load 0 demo_vm = Inl e)"
  using load_faults_iff [OF demo_wf demo_runs, of 0] demo_resident by (simp add: demo_pages)

section \<open>The clock sweep\<close>



section \<open>The swap file\<close>

text \<open>
  Swapping a frame out and later back in, into any frame and whatever the memory holds by
  then, restores its content and leaves the swap file as it was.
\<close>

theorem swap_roundtrip:
  assumes "vm_wf s" and "f < CPU_NUM_FRAMES (cfg s)" and "g < CPU_NUM_FRAMES (cfg s)"
    and "page_to_disk f v (int p) s = Inr s1" and "length m = length (memory s)"
  shows "\<exists>s2. page_from_disk g v (int p) (s1\<lparr>memory := m\<rparr>) = Inr s2 \<and>
    frame_data s2 g = frame_data s f \<and> swapfile s2 = swapfile s"
proof -
  have s1: "s1 = s\<lparr>count_diskaccesses := count_diskaccesses s + 1,
      swapfile := \<lparr>spid = int p, svpn = v, sdata = frame_data s f\<rparr> # swapfile s\<rparr>"
    using assms(4) wf_frame_bound [OF assms(1,2)] assms(1)
    by (simp add: page_to_disk_def mem_read_page_def frame_data_def vm_wf_def wf_shape_def)
  let ?s = "s1\<lparr>memory := m\<rparr>"
  have "cfg_ok (cfg ?s)" "length (memory ?s) = mem_size (cfg ?s)" "g < CPU_NUM_FRAMES (cfg ?s)"
    using assms(1,3,5) by (simp_all add: s1 vm_wf_def wf_shape_def)
  moreover have "swap_pages_ok ?s"
    using assms(1) frame_data_length [OF assms(1,2)]
    by (simp add: s1 swap_pages_ok_def vm_wf_def wf_swap_def)
  ultimately obtain m' k where pd: "page_from_disk g v (int p) ?s = Inr (?s\<lparr>count_diskaccesses := k,
      memory := m', swapfile := swap_unlink (int p) v (swapfile ?s)\<rparr>)"
    "\<forall>h < CPU_NUM_FRAMES (cfg ?s). frame_data (?s\<lparr>memory := m'\<rparr>) h =
       (if h = g then incoming ?s p v else frame_data ?s h)"
    using page_from_disk_spec [of ?s g v p] by blast
  have "incoming ?s p v = frame_data s f" by (simp add: incoming_def swapped_def s1 swap_match_def)
  moreover have "swap_unlink (int p) v (swapfile ?s) = swapfile s" by (simp add: s1 swap_match_def)
  ultimately show ?thesis using pd assms(3) by (simp add: s1 frame_data_def)
qed

theorem swap_roundtrip_witness:
  "\<exists>s1 s2. page_to_disk 0 0 0 demo_vm = Inr s1 \<and>
    page_from_disk 0 0 0 (s1\<lparr>memory := [1, 2]\<rparr>) = Inr s2 \<and> frame_data s2 0 = [7, 0]"
proof -
  have n: "CPU_NUM_FRAMES (cfg demo_vm) = 1" by (simp add: CPU_NUM_FRAMES_def demo_pages demo_cfg_def)
  have f: "frame_data demo_vm 0 = [7, 0]" by (simp add: frame_data_def demo_pages) (simp add: demo_vm_def)
  obtain s1 where s1: "page_to_disk 0 0 (int 0) demo_vm = Inr s1"
    by (simp add: page_to_disk_def mem_read_page_def demo_pages) (simp add: demo_vm_def)
  then show ?thesis
    using swap_roundtrip [OF demo_wf _ _ s1, of 0 "[1, 2]"] n f by (auto simp: demo_vm_def)
qed

section \<open>Options\<close>

definition options_wf :: "vm_cfg \<Rightarrow> bool" where
  "options_wf c \<longleftrightarrow> (\<exists>k \<le> 16. page_size c = 2 ^ k) \<and> (\<exists>k \<le> 20. mem_size c = 2 ^ k) \<and> tlb_size c \<le> 255"

lemma set_options_wf: "options_wf c \<Longrightarrow> set_options opts c = Inr c' \<Longrightarrow> options_wf c'"
proof (induction opts arbitrary: c)
  case (Cons x opts)
  obtain c1 where c1: "set_option x c = Inr c1" "set_options opts c1 = Inr c'" using Cons.prems(2) by auto
  have "options_wf c1"
    using Cons.prems(1) c1(1)
    by (auto simp: set_option_def option_value_def options_wf_def guardE_def nat_le_iff
        split: prod.splits if_splits)
  then show ?case using Cons.IH c1(2) by blast
qed simp

text \<open>
  Every configuration \<open>sim_setoptions\<close> accepts has power-of-two sizes with at least one frame,
  and is fit for the simulator as soon as it has a TLB entry and no more frames than the 16-bit
  frame number can name (neither of which the option checks ensure).
\<close>

theorem accepted_options_fit:
  assumes "sim_setoptions opts file = Inr c"
  shows "(\<exists>k \<le> 16. page_size c = 2 ^ k) \<and> 1 \<le> CPU_NUM_FRAMES c \<and>
    mem_size c = CPU_NUM_FRAMES c * page_size c \<and>
    (1 \<le> tlb_size c \<and> CPU_NUM_FRAMES c \<le> 2 ^ 16 \<longrightarrow> cfg_ok c)"
proof -
  have c: "set_options opts default_cfg = Inr c" "page_size c \<le> mem_size c"
    using assms by (auto simp: sim_setoptions_def)
  have "options_wf default_cfg"
    by (auto simp: options_wf_def default_cfg_def intro: exI [of _ 1] exI [of _ 4])
  from set_options_wf [OF this c(1)] obtain k j where
    kj: "k \<le> 16" "page_size c = 2 ^ k" "mem_size c = 2 ^ j"
    by (auto simp: options_wf_def)
  with c(2) have "k \<le> j" by (simp add: power_increasing_iff)
  then have "(2 :: nat) ^ j = 2 ^ (j - k) * 2 ^ k" by (simp flip: power_add)
  then have "CPU_NUM_FRAMES c = 2 ^ (j - k)" "mem_size c = CPU_NUM_FRAMES c * page_size c"
    using kj by (simp_all add: CPU_NUM_FRAMES_def)
  then show ?thesis using kj by (auto simp: cfg_ok_def)
qed

theorem accepted_options_fit_witness:
  "sim_setoptions [] True = Inr default_cfg \<and> 1 \<le> CPU_NUM_FRAMES default_cfg"
proof -
  have "sim_setoptions [] True = Inr default_cfg" by (simp add: sim_setoptions_def default_cfg_def)
  with accepted_options_fit [OF this] show ?thesis by simp
qed

end
