(* ===== verification/LinkedList.thy ===== *)
theory LinkedList
  imports Interfaces
begin

text \<open>
  The thread-safe doubly linked list of \<open>cs_2200/playground/threading/threadsafeLinkedList.c\<close>.
  Nodes live in a heap of addresses; a freed node is removed from it, so a use after free is a
  fault. \<open>malloc\<close> hands out the address \<open>brk\<close>, never one in use, or fails, as the argument
  \<open>ok\<close> of the operation says. Each operation's critical section is one function on the list
  object; the lock, the condition variable and the waiting loop are the step relation at the
  end.
\<close>

section \<open>The list object\<close>

record 'd dnode =
  nnext :: "nat option"
  nprev :: "nat option"
  ndata :: 'd

record 'd dlist =
  heap :: "nat \<Rightarrow> 'd dnode option"
  brk :: nat
  lhead :: "nat option"
  ltail :: "nat option"
  lsize :: int

definition initLinkedList :: "bool \<Rightarrow> 'd dlist c" where
  "initLinkedList ok = bindE (guardE ExitFailure ok) (\<lambda>_.
     Inr \<lparr>heap = (\<lambda>_. None), brk = 0, lhead = None, ltail = None, lsize = 0\<rparr>)"

definition node_at :: "'d dlist \<Rightarrow> nat option \<Rightarrow> 'd dnode c" where
  "node_at s p = bindE (deref p) (\<lambda>a. case heap s a of None \<Rightarrow> Inl UseAfterFree | Some n \<Rightarrow> Inr n)"

definition put_node :: "nat option \<Rightarrow> 'd dnode \<Rightarrow> 'd dlist \<Rightarrow> 'd dlist" where
  "put_node p n s = (case p of None \<Rightarrow> s | Some a \<Rightarrow> s\<lparr>heap := (heap s)(a := Some n)\<rparr>)"

definition free_node :: "nat \<Rightarrow> 'd dlist \<Rightarrow> 'd dlist" where
  "free_node a s = s\<lparr>heap := (heap s)(a := None)\<rparr>"

text \<open>\<open>createNode\<close>: \<open>None\<close> is \<open>MALLOC_FAILURE\<close>.\<close>

definition createNode :: "bool \<Rightarrow> 'd \<Rightarrow> 'd dlist \<Rightarrow> nat option \<times> 'd dlist" where
  "createNode ok d s =
     (if ok then (Some (brk s), s\<lparr>heap := (heap s)(brk s := Some \<lparr>nnext = None, nprev = None, ndata = d\<rparr>),
                                  brk := brk s + 1\<rparr>)
      else (None, s))"

definition size_incr :: "'d dlist \<Rightarrow> 'd dlist c" where
  "size_incr s = bindE (guardE SignedOverflow (in_i32 (lsize s + 1))) (\<lambda>_.
     Inr (s\<lparr>lsize := lsize s + 1\<rparr>))"

definition addToHead :: "bool \<Rightarrow> 'd \<Rightarrow> 'd dlist \<Rightarrow> 'd dlist c" where
  "addToHead ok d s = (case createNode ok d s of
     (None, s1) \<Rightarrow> Inr s1
   | (Some a, s1) \<Rightarrow>
       if lhead s1 = None then Inr (s1\<lparr>lhead := Some a, ltail := Some a, lsize := 1\<rparr>)
       else bindE (node_at s1 (Some a)) (\<lambda>n.
            let s2 = put_node (Some a) (n\<lparr>nnext := lhead s1\<rparr>) s1
            in bindE (node_at s2 (lhead s2)) (\<lambda>h.
               size_incr ((put_node (lhead s2) (h\<lparr>nprev := Some a\<rparr>) s2)\<lparr>lhead := Some a\<rparr>))))"

definition addToTail :: "bool \<Rightarrow> 'd \<Rightarrow> 'd dlist \<Rightarrow> 'd dlist c" where
  "addToTail ok d s = (case createNode ok d s of
     (None, s1) \<Rightarrow> Inr s1
   | (Some a, s1) \<Rightarrow>
       if lhead s1 = None then Inr (s1\<lparr>lhead := Some a, ltail := Some a, lsize := 1\<rparr>)
       else bindE (node_at s1 (Some a)) (\<lambda>n.
            let s2 = put_node (Some a) (n\<lparr>nprev := ltail s1\<rparr>) s1
            in bindE (node_at s2 (ltail s2)) (\<lambda>l.
               size_incr ((put_node (ltail s2) (l\<lparr>nnext := Some a\<rparr>) s2)\<lparr>ltail := Some a\<rparr>))))"

text \<open>The removals; \<open>Inr None\<close> is the case in which the caller waits.\<close>

definition removeFromHead :: "'d dlist \<Rightarrow> ('d \<times> 'd dlist) option c" where
  "removeFromHead s =
     (if lsize s = 0 then Inr None
      else bindE (deref (lhead s)) (\<lambda>a. bindE (node_at s (Some a)) (\<lambda>n.
           let s1 = s\<lparr>lhead := nnext n\<rparr>
           in bindE (if lhead s1 = None then Inr (s1\<lparr>ltail := None\<rparr>)
                     else bindE (node_at s1 (lhead s1)) (\<lambda>h.
                          Inr (put_node (lhead s1) (h\<lparr>nprev := None\<rparr>) s1))) (\<lambda>s2.
              bindE (guardE SignedOverflow (in_i32 (lsize s2 - 1))) (\<lambda>_.
              bindE (node_at s2 (Some a)) (\<lambda>old.
              Inr (Some (ndata old, free_node a (s2\<lparr>lsize := lsize s2 - 1\<rparr>)))))))))"

definition removeFromTail :: "'d dlist \<Rightarrow> ('d \<times> 'd dlist) option c" where
  "removeFromTail s =
     (if lsize s = 0 then Inr None
      else bindE (deref (ltail s)) (\<lambda>a. bindE (node_at s (Some a)) (\<lambda>n.
           let s1 = s\<lparr>ltail := nprev n\<rparr>
           in bindE (if ltail s1 = None then Inr (s1\<lparr>lhead := None\<rparr>)
                     else bindE (node_at s1 (ltail s1)) (\<lambda>l.
                          Inr (put_node (ltail s1) (l\<lparr>nnext := None\<rparr>) s1))) (\<lambda>s2.
              bindE (guardE SignedOverflow (in_i32 (lsize s2 - 1))) (\<lambda>_.
              bindE (node_at s2 (Some a)) (\<lambda>old.
              Inr (Some (ndata old, free_node a (s2\<lparr>lsize := lsize s2 - 1\<rparr>)))))))))"

text \<open>
  The walks of \<open>applyFunc\<close> (the data visited, in order) and \<open>freeLinkedList\<close>. A cyclic list
  would make them run for ever: fuel, with \<open>None\<close> for a walk that has not ended.
\<close>

fun applyFunc_loop :: "nat \<Rightarrow> 'd dlist \<Rightarrow> nat option \<Rightarrow> 'd list option c" where
  "applyFunc_loop k s None = Inr (Some [])"
| "applyFunc_loop 0 s (Some a) = Inr None"
| "applyFunc_loop (Suc k) s (Some a) = bindE (node_at s (Some a)) (\<lambda>n.
     bindE (applyFunc_loop k s (nnext n)) (\<lambda>r. Inr (map_option (\<lambda>ds. ndata n # ds) r)))"

definition applyFunc :: "nat \<Rightarrow> 'd dlist \<Rightarrow> 'd list option c" where
  "applyFunc k s = applyFunc_loop k s (lhead s)"

fun freeLinkedList_loop :: "nat \<Rightarrow> 'd dlist \<Rightarrow> nat option \<Rightarrow> 'd dlist option c" where
  "freeLinkedList_loop k s None = Inr (Some s)"
| "freeLinkedList_loop 0 s (Some a) = Inr None"
| "freeLinkedList_loop (Suc k) s (Some a) = bindE (node_at s (Some a)) (\<lambda>n.
     freeLinkedList_loop k (free_node a s) (nnext n))"

definition freeLinkedList :: "nat \<Rightarrow> 'd dlist \<Rightarrow> 'd dlist option c" where
  "freeLinkedList k s = freeLinkedList_loop k s (lhead s)"

section \<open>Shape\<close>

text \<open>
  \<open>dseg h p c as q l\<close>: from \<open>c\<close> the nodes \<open>as\<close> follow and then \<open>q\<close>; the back pointer of the
  first is \<open>p\<close>, and \<open>l\<close> is the last one (\<open>p\<close> when there is none).
\<close>

fun dseg :: "(nat \<Rightarrow> 'd dnode option) \<Rightarrow> nat option \<Rightarrow> nat option \<Rightarrow> nat list
    \<Rightarrow> nat option \<Rightarrow> nat option \<Rightarrow> bool" where
  "dseg h p cur [] q l \<longleftrightarrow> cur = q \<and> l = p"
| "dseg h p cur (a # as) q l \<longleftrightarrow> cur = Some a \<and>
     (case h a of None \<Rightarrow> False | Some n \<Rightarrow> nprev n = p \<and> dseg h (Some a) (nnext n) as q l)"

definition data_of :: "(nat \<Rightarrow> 'd dnode option) \<Rightarrow> nat list \<Rightarrow> 'd list" where
  "data_of h as = map (\<lambda>a. ndata (the (h a))) as"

definition list_rep :: "'d dlist \<Rightarrow> nat list \<Rightarrow> bool" where
  "list_rep s as \<longleftrightarrow> dseg (heap s) None (lhead s) as None (ltail s) \<and> distinct as \<and>
     dom (heap s) = set as \<and> (\<forall>a \<in> set as. a < brk s) \<and>
     lsize s = int (length as) \<and> length as < 2 ^ 31"

text \<open>\<open>list_is s ds\<close>: the object is well-formed and holds the data \<open>ds\<close>.\<close>

definition list_is :: "'d dlist \<Rightarrow> 'd list \<Rightarrow> bool" where
  "list_is s ds \<longleftrightarrow> (\<exists>as. list_rep s as \<and> ds = data_of (heap s) as)"

lemma dseg_cong:
  "dseg h p cur as q l \<Longrightarrow> (\<And>a. a \<in> set as \<Longrightarrow> h' a = h a) \<Longrightarrow> dseg h' p cur as q l"
  by (induction as arbitrary: p cur) (auto split: option.splits)

lemma dseg_append:
  "dseg h p cur (as @ bs) q l \<longleftrightarrow> (\<exists>r m. dseg h p cur as r m \<and> dseg h m r bs q l)"
  by (induction as arbitrary: p cur) (auto split: option.splits)

lemma dseg_dom: "dseg h p cur as q l \<Longrightarrow> a \<in> set as \<Longrightarrow> h a \<noteq> None"
  by (induction as arbitrary: p cur) (auto split: option.splits)

lemma data_of_cong: "(\<And>a. a \<in> set as \<Longrightarrow> h' a = h a) \<Longrightarrow> data_of h' as = data_of h as"
  by (simp add: data_of_def)

lemma data_of_simps [simp]:
  "data_of h [] = []"
  "data_of h (a # as) = ndata (the (h a)) # data_of h as"
  "data_of h (as @ bs) = data_of h as @ data_of h bs"
  by (simp_all add: data_of_def)

lemma list_rep_head: "list_rep s as \<Longrightarrow> lhead s = None \<longleftrightarrow> as = []"
  by (cases as) (simp_all add: list_rep_def)

lemma list_rep_tail:
  assumes "list_rep s as"
  shows "ltail s = (if as = [] then None else Some (last as))"
proof (cases as rule: rev_cases)
  case Nil
  with assms show ?thesis by (simp add: list_rep_def)
next
  case (snoc bs b)
  with assms show ?thesis by (auto simp: list_rep_def dseg_append split: option.splits)
qed

lemma list_is_init: "\<exists>s. initLinkedList True = Inr s \<and> list_is s []"
  by (simp add: initLinkedList_def list_is_def list_rep_def)

section \<open>The operations on the shape\<close>

lemma createNode_rep:
  assumes "list_rep s as"
  defines "a \<equiv> brk s"
  shows "a \<notin> set as" and "heap s a = None"
  using assms by (auto simp: list_rep_def dom_def)

lemma add_first_node:
  assumes "list_rep s []"
  shows "list_rep (s\<lparr>heap := (heap s)(brk s \<mapsto> \<lparr>nnext = None, nprev = None, ndata = d\<rparr>),
    brk := brk s + 1, lhead := Some (brk s), ltail := Some (brk s), lsize := 1\<rparr>) [brk s]"
  using assms by (simp add: list_rep_def)

lemma addToTail_spec:
  assumes "list_is s ds" and "length ds + 1 < 2 ^ 31"
  shows "\<exists>s'. addToTail True d s = Inr s' \<and> list_is s' (ds @ [d])"
proof -
  obtain as where as: "list_rep s as" "ds = data_of (heap s) as" using assms(1) by (auto simp: list_is_def)
  define a where "a = brk s"
  have new: "a \<notin> set as" "heap s a = None" using createNode_rep [OF as(1)] by (simp_all add: a_def)
  have len: "length as + 1 < 2 ^ 31" using assms(2) as(2) by (simp add: data_of_def)
  show ?thesis
  proof (cases as rule: rev_cases)
    case Nil
    then have "lhead s = None" using list_rep_head [OF as(1)] by simp
    then show ?thesis
      using add_first_node [of s d] as Nil
      by (auto simp: addToTail_def createNode_def list_is_def)
  next
    case (snoc bs b)
    have rep: "dseg (heap s) None (lhead s) (bs @ [b]) None (ltail s)" "distinct (bs @ [b])"
      "dom (heap s) = set (bs @ [b])" "\<forall>a \<in> set (bs @ [b]). a < brk s" "lsize s = int (length bs) + 1"
      using as(1) snoc by (simp_all add: list_rep_def)
    obtain m n where seg: "dseg (heap s) None (lhead s) bs (Some b) m"
      and n: "heap s b = Some n" "nprev n = m" "nnext n = None"
      using rep(1) by (auto simp: dseg_append split: option.splits)
    obtain y where hd: "lhead s = Some y" using list_rep_head [OF as(1)] snoc by auto
    have tl: "ltail s = Some b" using list_rep_tail [OF as(1)] snoc by simp
    have ab: "b \<noteq> a" "a \<notin> set bs" using new snoc by auto
    define s' where "s' = s\<lparr>heap := (heap s)(a \<mapsto> \<lparr>nnext = None, nprev = Some b, ndata = d\<rparr>,
      b \<mapsto> n\<lparr>nnext := Some a\<rparr>), brk := brk s + 1, ltail := Some a, lsize := lsize s + 1\<rparr>"
    have run: "addToTail True d s = Inr s'"
      using hd tl n ab rep(5) len snoc
      by (simp add: addToTail_def createNode_def node_at_def put_node_def size_incr_def in_i32_def s'_def
          a_def [symmetric] fun_upd_twist)
    have keep: "heap s' x = heap s x" if "x \<in> set bs" for x using that ab rep(2) by (auto simp: s'_def)
    have "dseg (heap s') None (lhead s) bs (Some b) m" by (rule dseg_cong [OF seg]) (rule keep)
    then have seg': "dseg (heap s') None (lhead s') bs (Some b) m" by (simp add: s'_def)
    have "list_rep s' (bs @ [b, a])"
      using seg' n ab rep len snoc
      by (auto simp: list_rep_def dseg_append s'_def a_def)
    moreover have "data_of (heap s') (bs @ [b, a]) = ds @ [d]"
    proof -
      have "data_of (heap s') bs = data_of (heap s) bs" by (rule data_of_cong) (rule keep)
      then show ?thesis using as(2) snoc n ab by (simp add: s'_def)
    qed
    ultimately have "list_is s' (ds @ [d])" unfolding list_is_def by metis
    then show ?thesis using run by blast
  qed
qed

lemma addToHead_spec:
  assumes "list_is s ds" and "length ds + 1 < 2 ^ 31"
  shows "\<exists>s'. addToHead True d s = Inr s' \<and> list_is s' (d # ds)"
proof -
  obtain as where as: "list_rep s as" "ds = data_of (heap s) as" using assms(1) by (auto simp: list_is_def)
  define a where "a = brk s"
  have new: "a \<notin> set as" "heap s a = None" using createNode_rep [OF as(1)] by (simp_all add: a_def)
  have len: "length as + 1 < 2 ^ 31" using assms(2) as(2) by (simp add: data_of_def)
  show ?thesis
  proof (cases as)
    case Nil
    then have "lhead s = None" using list_rep_head [OF as(1)] by simp
    then show ?thesis
      using add_first_node [of s d] as Nil
      by (auto simp: addToHead_def createNode_def list_is_def)
  next
    case (Cons b bs)
    have rep: "dseg (heap s) None (lhead s) (b # bs) None (ltail s)" "distinct (b # bs)"
      "dom (heap s) = set (b # bs)" "\<forall>a \<in> set (b # bs). a < brk s" "lsize s = int (length bs) + 1"
      using as(1) Cons by (simp_all add: list_rep_def)
    obtain n where hd: "lhead s = Some b" and n: "heap s b = Some n" "nprev n = None"
      and seg: "dseg (heap s) (Some b) (nnext n) bs None (ltail s)"
      using rep(1) by (auto split: option.splits)
    have ab: "b \<noteq> a" "a \<notin> set bs" using new Cons by auto
    define s' where "s' = s\<lparr>heap := (heap s)(a \<mapsto> \<lparr>nnext = Some b, nprev = None, ndata = d\<rparr>,
      b \<mapsto> n\<lparr>nprev := Some a\<rparr>), brk := brk s + 1, lhead := Some a, lsize := lsize s + 1\<rparr>"
    have run: "addToHead True d s = Inr s'"
      using hd n ab rep(5) len Cons
      by (simp add: addToHead_def createNode_def node_at_def put_node_def size_incr_def in_i32_def s'_def
          a_def [symmetric] fun_upd_twist)
    have keep: "heap s' x = heap s x" if "x \<in> set bs" for x using that ab rep(2) by (auto simp: s'_def)
    have "dseg (heap s') (Some b) (nnext n) bs None (ltail s)" by (rule dseg_cong [OF seg]) (rule keep)
    then have seg': "dseg (heap s') (Some b) (nnext n) bs None (ltail s')" by (simp add: s'_def)
    have "list_rep s' (a # b # bs)"
      using seg' n ab rep len Cons by (auto simp: list_rep_def s'_def a_def)
    moreover have "data_of (heap s') (a # b # bs) = d # ds"
    proof -
      have "data_of (heap s') bs = data_of (heap s) bs" by (rule data_of_cong) (rule keep)
      then show ?thesis using as(2) Cons n ab by (simp add: s'_def)
    qed
    ultimately have "list_is s' (d # ds)" unfolding list_is_def by metis
    then show ?thesis using run by blast
  qed
qed

lemma add_failed:
  "addToHead False d s = Inr s" "addToTail False d s = Inr s"
  by (simp_all add: addToHead_def addToTail_def createNode_def)

lemma list_is_empty: "list_is s ds \<Longrightarrow> lsize s = 0 \<longleftrightarrow> ds = []"
  by (auto simp: list_is_def list_rep_def data_of_def)

lemma removeFromHead_spec:
  assumes "list_is s (d # ds)"
  shows "\<exists>s'. removeFromHead s = Inr (Some (d, s')) \<and> list_is s' ds"
proof -
  obtain a as where as: "list_rep s (a # as)" "d # ds = data_of (heap s) (a # as)"
    using assms by (auto simp: list_is_def data_of_def Cons_eq_map_conv)
  have rep: "distinct (a # as)" "dom (heap s) = set (a # as)" "\<forall>b \<in> set (a # as). b < brk s"
    "lsize s = int (length as) + 1" "length as + 1 < 2 ^ 31"
    using as(1) by (simp_all add: list_rep_def)
  obtain n where hd: "lhead s = Some a" and n: "heap s a = Some n" "nprev n = None" "ndata n = d"
    and seg: "dseg (heap s) (Some a) (nnext n) as None (ltail s)"
    using as by (auto simp: list_rep_def split: option.splits)
  have sz: "lsize s \<noteq> 0" "in_i32 (lsize s - 1)" using rep by (simp_all add: in_i32_def)
  show ?thesis
  proof (cases as)
    case Nil
    with seg have "nnext n = None" by simp
    then have "removeFromHead s = Inr (Some (d, s\<lparr>lhead := None, ltail := None,
        lsize := lsize s - 1, heap := (heap s)(a := None)\<rparr>))"
      using hd n sz by (simp add: removeFromHead_def node_at_def free_node_def)
    moreover have "list_rep (s\<lparr>lhead := None, ltail := None,
        lsize := lsize s - 1, heap := (heap s)(a := None)\<rparr>) []"
      using rep Nil by (auto simp: list_rep_def)
    moreover have "ds = []" using as(2) Nil by simp
    ultimately show ?thesis unfolding list_is_def by (metis data_of_simps(1))
  next
    case (Cons b bs)
    obtain m where nb: "nnext n = Some b" "heap s b = Some m" "nprev m = Some a"
      and seg': "dseg (heap s) (Some b) (nnext m) bs None (ltail s)"
      using seg Cons by (auto split: option.splits)
    have ab: "a \<noteq> b" "a \<notin> set bs" "b \<notin> set bs" using rep(1) Cons by auto
    define s' where "s' = s\<lparr>lhead := Some b, heap := (heap s)(b \<mapsto> m\<lparr>nprev := None\<rparr>, a := None),
      lsize := lsize s - 1\<rparr>"
    have run: "removeFromHead s = Inr (Some (d, s'))"
      using hd n sz nb ab by (simp add: removeFromHead_def node_at_def put_node_def free_node_def s'_def)
    have keep: "heap s' x = heap s x" if "x \<in> set bs" for x using that ab by (auto simp: s'_def)
    have "dseg (heap s') (Some b) (nnext m) bs None (ltail s)" by (rule dseg_cong [OF seg']) (rule keep)
    then have "list_rep s' (b # bs)"
      using rep Cons ab by (auto simp: list_rep_def s'_def)
    moreover have "data_of (heap s') bs = data_of (heap s) bs" by (rule data_of_cong) (rule keep)
    then have "data_of (heap s') (b # bs) = ds"
      using as(2) Cons nb ab by (simp add: s'_def)
    ultimately show ?thesis using run unfolding list_is_def by metis
  qed
qed

lemma removeFromTail_spec:
  assumes "list_is s (ds @ [d])"
  shows "\<exists>s'. removeFromTail s = Inr (Some (d, s')) \<and> list_is s' ds"
proof -
  obtain xs where xs: "list_rep s xs" "ds @ [d] = data_of (heap s) xs"
    using assms by (auto simp: list_is_def)
  then have "xs \<noteq> []" by auto
  then obtain as a where x: "xs = as @ [a]" by (cases xs rule: rev_cases) auto
  have as: "list_rep s (as @ [a])" "ds = data_of (heap s) as" "d = ndata (the (heap s a))"
    using xs x by simp_all
  have rep: "distinct (as @ [a])" "dom (heap s) = set (as @ [a])" "\<forall>b \<in> set (as @ [a]). b < brk s"
    "lsize s = int (length as) + 1" "length as + 1 < 2 ^ 31"
    using as(1) by (simp_all add: list_rep_def)
  have tl: "ltail s = Some a" using list_rep_tail [OF as(1)] by simp
  obtain n m where n: "heap s a = Some n" "nprev n = m" "ndata n = d"
    and seg: "dseg (heap s) None (lhead s) as (Some a) m" and last: "nnext n = None"
    using as by (auto simp: list_rep_def dseg_append split: option.splits)
  have sz: "lsize s \<noteq> 0" "in_i32 (lsize s - 1)" using rep by (simp_all add: in_i32_def)
  show ?thesis
  proof (cases as rule: rev_cases)
    case Nil
    with seg have "m = None" by simp
    then have "removeFromTail s = Inr (Some (d, s\<lparr>lhead := None, ltail := None,
        lsize := lsize s - 1, heap := (heap s)(a := None)\<rparr>))"
      using tl n sz by (simp add: removeFromTail_def node_at_def free_node_def)
    moreover have "list_rep (s\<lparr>lhead := None, ltail := None,
        lsize := lsize s - 1, heap := (heap s)(a := None)\<rparr>) []"
      using rep Nil by (auto simp: list_rep_def)
    moreover have "ds = []" using as(2) Nil by simp
    ultimately show ?thesis unfolding list_is_def by (metis data_of_simps(1))
  next
    case (snoc bs b)
    obtain k r where nb: "m = Some b" "heap s b = Some k" "nprev k = r" "nnext k = Some a"
      and seg': "dseg (heap s) None (lhead s) bs (Some b) r"
      using seg snoc by (auto simp: dseg_append split: option.splits)
    have ab: "a \<noteq> b" "a \<notin> set bs" "b \<notin> set bs" using rep(1) snoc by auto
    define s' where "s' = s\<lparr>ltail := Some b, heap := (heap s)(b \<mapsto> k\<lparr>nnext := None\<rparr>, a := None),
      lsize := lsize s - 1\<rparr>"
    have run: "removeFromTail s = Inr (Some (d, s'))"
      using tl n sz nb ab by (simp add: removeFromTail_def node_at_def put_node_def free_node_def s'_def)
    have keep: "heap s' x = heap s x" if "x \<in> set bs" for x using that ab by (auto simp: s'_def)
    have "dseg (heap s') None (lhead s) bs (Some b) r" by (rule dseg_cong [OF seg']) (rule keep)
    then have "list_rep s' (bs @ [b])"
      using nb rep snoc ab
      by (auto simp: list_rep_def dseg_append s'_def)
    moreover have "data_of (heap s') bs = data_of (heap s) bs" by (rule data_of_cong) (rule keep)
    then have "data_of (heap s') (bs @ [b]) = ds"
      using as(2) snoc nb ab by (simp add: s'_def)
    ultimately show ?thesis using run unfolding list_is_def by metis
  qed
qed

end
