(* ===== verification/LinkedListProps.thy ===== *)
theory LinkedListProps
  imports LinkedList
begin

text \<open>
  What the thread-safe list promises: the walks, the deque it implements in any sequence of
  operations, the FIFO queue it gives when producers use the tail and consumers the head, and,
  for threads interleaving at the granularity of the lock, that no element is lost and no
  wakeup is missed.
\<close>

section \<open>The walks\<close>

lemma applyFunc_loop_spec:
  "dseg (heap s) p cur as None l \<Longrightarrow> length as \<le> k \<Longrightarrow>
     applyFunc_loop k s cur = Inr (Some (data_of (heap s) as))"
proof (induction as arbitrary: p cur k)
  case (Cons a as)
  then obtain n j where "heap s a = Some n" "cur = Some a" "dseg (heap s) (Some a) (nnext n) as None l"
    "k = Suc j" "length as \<le> j"
    by (cases k) (auto split: option.splits)
  then show ?case using Cons.IH [of "Some a" "nnext n" j] by (simp add: node_at_def)
qed (cases k, simp_all)

lemma applyFunc_spec: "list_is s ds \<Longrightarrow> length ds \<le> k \<Longrightarrow> applyFunc k s = Inr (Some ds)"
  using applyFunc_loop_spec by (fastforce simp: applyFunc_def list_is_def list_rep_def data_of_def)

lemma freeLinkedList_loop_spec:
  "dseg (heap s) p cur as None l \<Longrightarrow> distinct as \<Longrightarrow> length as \<le> k \<Longrightarrow>
     \<exists>s'. freeLinkedList_loop k s cur = Inr (Some s') \<and> heap s' = (\<lambda>a. if a \<in> set as then None else heap s a)"
proof (induction as arbitrary: s p cur k)
  case (Cons a as)
  then obtain n j where n: "heap s a = Some n" "cur = Some a"
    and seg: "dseg (heap s) (Some a) (nnext n) as None l" and j: "k = Suc j" "length as \<le> j"
    by (cases k) (auto split: option.splits)
  have "dseg (heap (free_node a s)) (Some a) (nnext n) as None l"
    by (rule dseg_cong [OF seg]) (use Cons.prems(2) in \<open>auto simp: free_node_def\<close>)
  from Cons.IH [OF this _ j(2)] Cons.prems(2) n j(1) show ?case
    by (auto simp: node_at_def free_node_def fun_eq_iff)
qed (cases k, simp_all)

text \<open>
  \<open>freeLinkedList\<close> on a well-formed list terminates, never follows a freed node, and leaves no
  node allocated.
\<close>

theorem freeLinkedList_frees_all:
  assumes "list_is s ds" and "length ds \<le> k"
  shows "\<exists>s'. freeLinkedList k s = Inr (Some s') \<and> heap s' = (\<lambda>_. None)"
proof -
  obtain as where as: "list_rep s as" "ds = data_of (heap s) as" using assms(1) by (auto simp: list_is_def)
  then obtain s' where "freeLinkedList_loop k s (lhead s) = Inr (Some s')"
    "heap s' = (\<lambda>a. if a \<in> set as then None else heap s a)"
    using freeLinkedList_loop_spec [of s None "lhead s" as "ltail s" k] assms(2)
    by (auto simp: list_rep_def data_of_def)
  moreover have "(\<lambda>a. if a \<in> set as then None else heap s a) = (\<lambda>_. None)"
    using as(1) by (auto simp: list_rep_def fun_eq_iff dom_def)
  ultimately show ?thesis by (auto simp: freeLinkedList_def)
qed

theorem freeLinkedList_frees_all_witness:
  "\<exists>s s'. bindE (initLinkedList True) (addToTail True (7 :: nat)) = Inr s \<and>
    freeLinkedList 1 s = Inr (Some s') \<and> heap s' = (\<lambda>_. None)"
proof -
  obtain s0 :: "nat dlist" where s0: "initLinkedList True = Inr s0" "list_is s0 []" using list_is_init by blast
  obtain s where s: "addToTail True 7 s0 = Inr s" "list_is s [7]"
    using addToTail_spec [OF s0(2), of 7] by auto
  from freeLinkedList_frees_all [OF s(2), of 1] s0 s show ?thesis by auto
qed

section \<open>The deque\<close>

datatype 'd list_op = AddHead bool 'd | AddTail bool 'd | RemHead | RemTail

text \<open>One operation run to its end; a removal on the empty list is the one that waits.\<close>

fun do_op :: "'d list_op \<Rightarrow> 'd dlist \<Rightarrow> ('d option \<times> 'd dlist) c" where
  "do_op (AddHead ok d) s = bindE (addToHead ok d s) (\<lambda>s'. Inr (None, s'))"
| "do_op (AddTail ok d) s = bindE (addToTail ok d s) (\<lambda>s'. Inr (None, s'))"
| "do_op RemHead s = bindE (removeFromHead s) (\<lambda>r. Inr (case r of None \<Rightarrow> (None, s)
     | Some (d, s') \<Rightarrow> (Some d, s')))"
| "do_op RemTail s = bindE (removeFromTail s) (\<lambda>r. Inr (case r of None \<Rightarrow> (None, s)
     | Some (d, s') \<Rightarrow> (Some d, s')))"

fun do_ops :: "'d list_op list \<Rightarrow> 'd dlist \<Rightarrow> ('d option list \<times> 'd dlist) c" where
  "do_ops [] s = Inr ([], s)"
| "do_ops (x # xs) s = bindE (do_op x s) (\<lambda>(r, s1). bindE (do_ops xs s1) (\<lambda>(rs, s2). Inr (r # rs, s2)))"

text \<open>The specification: a double-ended queue in which a failed allocation adds nothing.\<close>

fun deque_op :: "'d list_op \<Rightarrow> 'd list \<Rightarrow> 'd option \<times> 'd list" where
  "deque_op (AddHead ok d) ds = (None, if ok then d # ds else ds)"
| "deque_op (AddTail ok d) ds = (None, if ok then ds @ [d] else ds)"
| "deque_op RemHead ds = (case ds of [] \<Rightarrow> (None, []) | d # ds' \<Rightarrow> (Some d, ds'))"
| "deque_op RemTail ds = (if ds = [] then (None, []) else (Some (last ds), butlast ds))"

fun deque_ops :: "'d list_op list \<Rightarrow> 'd list \<Rightarrow> 'd option list \<times> 'd list" where
  "deque_ops [] ds = ([], ds)"
| "deque_ops (x # xs) ds =
     (let p = deque_op x ds; q = deque_ops xs (snd p) in (fst p # fst q, snd q))"

lemma removeFromHead_empty: "list_is s [] \<Longrightarrow> removeFromHead s = Inr None"
  using list_is_empty [of s "[]"] by (simp add: removeFromHead_def)

lemma removeFromTail_empty: "list_is s [] \<Longrightarrow> removeFromTail s = Inr None"
  using list_is_empty [of s "[]"] by (simp add: removeFromTail_def)

lemma do_op_spec:
  assumes "list_is s ds" and "length ds + 1 < 2 ^ 31"
  shows "\<exists>s'. do_op x s = Inr (fst (deque_op x ds), s') \<and> list_is s' (snd (deque_op x ds))"
proof (cases x)
  case (AddHead ok d)
  then show ?thesis
    using addToHead_spec [OF assms, of d] assms(1) by (cases ok) (auto simp: add_failed)
next
  case (AddTail ok d)
  then show ?thesis
    using addToTail_spec [OF assms, of d] assms(1) by (cases ok) (auto simp: add_failed)
next
  case RemHead
  then show ?thesis
    using removeFromHead_spec [of s] removeFromHead_empty [of s] assms(1)
    by (cases ds) fastforce+
next
  case RemTail
  then show ?thesis
    using removeFromTail_spec [of s] removeFromTail_empty [of s] assms(1)
    by (cases ds rule: rev_cases) fastforce+
qed

lemma deque_op_length: "length (snd (deque_op x ds)) \<le> length ds + 1"
  by (cases x; cases ds) auto

lemma do_ops_spec:
  "list_is s ds \<Longrightarrow> length ds + length xs < 2 ^ 31 \<Longrightarrow>
     \<exists>s'. do_ops xs s = Inr (fst (deque_ops xs ds), s') \<and> list_is s' (snd (deque_ops xs ds))"
proof (induction xs arbitrary: s ds)
  case (Cons x xs)
  from do_op_spec [OF Cons.prems(1), of x] Cons.prems(2)
  obtain s1 where s1: "do_op x s = Inr (fst (deque_op x ds), s1)" "list_is s1 (snd (deque_op x ds))"
    by auto
  from Cons.IH [OF s1(2)] deque_op_length [of x ds] Cons.prems(2)
  obtain s2 where "do_ops xs s1 = Inr (fst (deque_ops xs (snd (deque_op x ds))), s2)"
    "list_is s2 (snd (deque_ops xs (snd (deque_op x ds))))"
    by auto
  with s1 show ?case by (simp add: Let_def)
qed simp

text \<open>
  C5. In any sequence of fewer than 2^31 additions and removals at either end, from a fresh list
  and with allocations failing at any point, the linked list behaves as a double-ended queue: no
  operation faults (no NULL or freed node is dereferenced, no size overflow) and every removal
  returns the element the queue has at that end.
\<close>

theorem list_is_deque:
  assumes "length xs < 2 ^ 31"
  shows "\<exists>s s'. initLinkedList True = Inr s \<and> do_ops xs s = Inr (fst (deque_ops xs []), s') \<and>
    list_is s' (snd (deque_ops xs [])) \<and> applyFunc (length xs) s' = Inr (Some (snd (deque_ops xs [])))"
proof -
  obtain s :: "'a dlist" where s: "initLinkedList True = Inr s" "list_is s []" using list_is_init by blast
  from do_ops_spec [OF s(2), of xs] assms obtain s' where
    s': "do_ops xs s = Inr (fst (deque_ops xs []), s')" "list_is s' (snd (deque_ops xs []))"
    by auto
  have "length (snd (deque_ops xs ds)) \<le> length ds + length xs" for ds :: "'a list"
  proof (induction xs arbitrary: ds)
    case (Cons x xs)
    from Cons.IH [of "snd (deque_op x ds)"] deque_op_length [of x ds]
    show ?case by (simp add: Let_def)
  qed simp
  from this [of "[]"] applyFunc_spec [OF s'(2)] s s' show ?thesis by auto
qed

theorem list_is_deque_witness:
  "\<exists>s s'. initLinkedList True = Inr s \<and>
    do_ops [AddTail True (1 :: nat), AddHead True 2, AddTail False 5, RemTail, RemHead, RemHead] s =
      Inr ([None, None, None, Some 1, Some 2, None], s')"
  using list_is_deque [of "[AddTail True (1 :: nat), AddHead True 2, AddTail False 5, RemTail, RemHead, RemHead]"]
  by auto

section \<open>The FIFO queue\<close>

definition list_enq :: "'d \<Rightarrow> 'd dlist \<Rightarrow> 'd dlist" where
  "list_enq d s = (case addToTail True d s of Inl e \<Rightarrow> s | Inr s' \<Rightarrow> s')"

definition list_deq :: "'d dlist \<Rightarrow> ('d \<times> 'd dlist) option" where
  "list_deq s = (case removeFromHead s of Inl e \<Rightarrow> None | Inr r \<Rightarrow> r)"

definition list_abs :: "'d dlist \<Rightarrow> 'd list" where
  "list_abs s = (case applyFunc (nat (lsize s)) s of Inr (Some ds) \<Rightarrow> ds | _ \<Rightarrow> [])"

definition list_wf :: "'d dlist \<Rightarrow> bool" where
  "list_wf s \<longleftrightarrow> (\<exists>ds. list_is s ds)"

definition list_room :: "'d \<Rightarrow> 'd dlist \<Rightarrow> bool" where
  "list_room d s \<longleftrightarrow> lsize s + 1 < 2 ^ 31"

lemma list_is_size: "list_is s ds \<Longrightarrow> lsize s = int (length ds)"
  by (auto simp: list_is_def list_rep_def data_of_def)

lemma list_abs_is: "list_is s ds \<Longrightarrow> list_abs s = ds"
  using applyFunc_spec [of s ds "length ds"] list_is_size [of s ds] by (simp add: list_abs_def)

interpretation list_fifo: fifo list_enq list_deq list_abs list_wf list_room
proof unfold_locales
  fix q :: "'a dlist" and x
  assume "list_wf q" and room: "list_room x q"
  then obtain ds where ds: "list_is q ds" by (auto simp: list_wf_def)
  with room have "length ds + 1 < 2 ^ 31" using list_is_size [OF ds] by (simp add: list_room_def)
  from addToTail_spec [OF ds this, of x] obtain s' where
    s': "addToTail True x q = Inr s'" "list_is s' (ds @ [x])" by blast
  then show "list_wf (list_enq x q)" "list_abs (list_enq x q) = list_abs q @ [x]"
    using list_abs_is [OF ds] list_abs_is [OF s'(2)] by (auto simp: list_enq_def list_wf_def)
next
  fix q :: "'a dlist"
  assume "list_wf q"
  then obtain ds where ds: "list_is q ds" by (auto simp: list_wf_def)
  show "(list_deq q = None) = (list_abs q = [])"
  proof (cases ds)
    case Nil
    then show ?thesis using ds removeFromHead_empty [of q] list_abs_is [OF ds] by (simp add: list_deq_def)
  next
    case (Cons d ds')
    then show ?thesis
      using ds removeFromHead_spec [of q d ds'] list_abs_is [OF ds] by (auto simp: list_deq_def)
  qed
next
  fix q q' :: "'a dlist" and x
  assume "list_wf q" and deq: "list_deq q = Some (x, q')"
  then obtain ds where ds: "list_is q ds" by (auto simp: list_wf_def)
  show "list_wf q' \<and> list_abs q = x # list_abs q'"
  proof (cases ds)
    case Nil
    then show ?thesis using ds deq removeFromHead_empty [of q] by (simp add: list_deq_def)
  next
    case (Cons d ds')
    with ds obtain s' where "removeFromHead q = Inr (Some (d, s'))" "list_is s' ds'"
      using removeFromHead_spec [of q d ds'] by auto
    with deq Cons list_abs_is [OF ds] show ?thesis
      using list_abs_is [of s' ds'] by (auto simp: list_deq_def list_wf_def)
  qed
qed

section \<open>Threads\<close>

text \<open>
  The lock makes every critical section atomic; the interleavings left are those of whole critical
  sections, of the signal an addition sends after it has released the lock, and of the wakeups.
  A thread is about to run an addition or a removal, is between the unlock and the signal of an
  addition, waits on the condition variable (the lock released), has been woken and must
  reacquire the lock and test the size again, or has finished.
\<close>

datatype 'd thread =
    Adding bool bool 'd
  | Signalling
  | Removing bool
  | Waiting bool
  | Woken bool
  | Finished "'d option"

record 'd system =
  slist :: "'d dlist"
  threads :: "'d thread list"

definition add_at :: "bool \<Rightarrow> bool \<Rightarrow> 'd \<Rightarrow> 'd dlist \<Rightarrow> 'd dlist c" where
  "add_at at_head ok d s = (if at_head then addToHead ok d s else addToTail ok d s)"

definition remove_at :: "bool \<Rightarrow> 'd dlist \<Rightarrow> ('d \<times> 'd dlist) option c" where
  "remove_at at_head s = (if at_head then removeFromHead s else removeFromTail s)"

inductive tstep :: "'d system \<Rightarrow> 'd system \<Rightarrow> bool" where
  add: "i < length (threads s) \<Longrightarrow> threads s ! i = Adding h ok d \<Longrightarrow> add_at h ok d (slist s) = Inr l \<Longrightarrow>
    tstep s (s\<lparr>slist := l, threads := (threads s)[i := Signalling]\<rparr>)"
| signal: "i < length (threads s) \<Longrightarrow> threads s ! i = Signalling \<Longrightarrow>
    j < length (threads s) \<Longrightarrow> threads s ! j = Waiting h \<Longrightarrow>
    tstep s (s\<lparr>threads := (threads s)[i := Finished None, j := Woken h]\<rparr>)"
| signal_nobody: "i < length (threads s) \<Longrightarrow> threads s ! i = Signalling \<Longrightarrow>
    (\<And>h. Waiting h \<notin> set (threads s)) \<Longrightarrow>
    tstep s (s\<lparr>threads := (threads s)[i := Finished None]\<rparr>)"
| remove: "i < length (threads s) \<Longrightarrow> threads s ! i = Removing h \<or> threads s ! i = Woken h \<Longrightarrow>
    remove_at h (slist s) = Inr (Some (d, l)) \<Longrightarrow>
    tstep s (s\<lparr>slist := l, threads := (threads s)[i := Finished (Some d)]\<rparr>)"
| wait: "i < length (threads s) \<Longrightarrow> threads s ! i = Removing h \<or> threads s ! i = Woken h \<Longrightarrow>
    remove_at h (slist s) = Inr None \<Longrightarrow>
    tstep s (s\<lparr>threads := (threads s)[i := Waiting h]\<rparr>)"
| spurious: "i < length (threads s) \<Longrightarrow> threads s ! i = Waiting h \<Longrightarrow>
    tstep s (s\<lparr>threads := (threads s)[i := Woken h]\<rparr>)"

inductive_cases tstepE: "tstep s s'"

text \<open>What a thread carries: an element to be added or an element it took.\<close>

fun carried :: "'d thread \<Rightarrow> 'd multiset" where
  "carried (Adding h ok d) = (if ok then {#d#} else {#})"
| "carried (Finished (Some d)) = {#d#}"
| "carried _ = {#}"

fun busy :: "'d thread \<Rightarrow> bool" where
  "busy Signalling = True"
| "busy (Woken h) = True"
| "busy _ = False"

fun waiting :: "'d thread \<Rightarrow> bool" where
  "waiting (Waiting h) = True"
| "waiting _ = False"

lemma waiting_iff: "waiting t \<longleftrightarrow> (\<exists>h. t = Waiting h)"
  by (cases t) simp_all

definition all_carried :: "'d thread list \<Rightarrow> 'd multiset" where
  "all_carried ts = sum_list (map carried ts)"

definition n_busy :: "'d thread list \<Rightarrow> nat" where
  "n_busy ts = length (filter busy ts)"

lemma all_carried_update:
  "i < length ts \<Longrightarrow> all_carried (ts[i := t]) + carried (ts ! i) = all_carried ts + carried t"
proof (induction ts arbitrary: i)
  case (Cons a ts)
  then show ?case by (cases i) (simp_all add: all_carried_def ac_simps)
qed simp

lemma n_busy_update:
  "i < length ts \<Longrightarrow> n_busy (ts[i := t]) + (if busy (ts ! i) then 1 else 0) =
     n_busy ts + (if busy t then 1 else 0)"
proof (induction ts arbitrary: i)
  case (Cons a ts)
  then show ?case by (cases i) (auto simp: n_busy_def)
qed simp

lemma carried_le: "t \<in> set ts \<Longrightarrow> size (carried t) \<le> size (all_carried ts)"
  by (induction ts) (auto simp: all_carried_def)

lemma size_all_carried: "size (all_carried ts) \<le> length ts"
proof (induction ts)
  case (Cons t ts)
  have "size (carried t) \<le> 1" by (cases t rule: carried.cases) simp_all
  with Cons show ?case by (simp add: all_carried_def)
qed (simp add: all_carried_def)

text \<open>
  The invariant: the object is a well-formed list; its elements and those the threads carry are
  the elements \<open>M\<close> of the start; and while a thread waits, there are at least as many threads
  about to signal or just woken as there are elements.
\<close>

definition sys_inv :: "'d multiset \<Rightarrow> 'd system \<Rightarrow> bool" where
  "sys_inv M s \<longleftrightarrow> (\<exists>ds. list_is (slist s) ds \<and> mset ds + all_carried (threads s) = M \<and>
     ((\<exists>t \<in> set (threads s). waiting t) \<longrightarrow> length ds \<le> n_busy (threads s)))"

lemma add_at_spec:
  assumes "list_is s ds" and "length ds + 1 < 2 ^ 31" and "add_at h ok d s = Inr l"
  shows "\<exists>ds'. list_is l ds' \<and> mset ds' = mset ds + (if ok then {#d#} else {#}) \<and>
    length ds' = length ds + (if ok then 1 else 0)"
proof (cases ok)
  case True
  have "if h then list_is l (d # ds) else list_is l (ds @ [d])"
    using addToHead_spec [OF assms(1,2), of d] addToTail_spec [OF assms(1,2), of d] assms(3) True
    by (auto simp: add_at_def)
  then show ?thesis
    using True by (intro exI [of _ "if h then d # ds else ds @ [d]"]) auto
next
  case False
  then show ?thesis using assms by (cases h) (auto simp: add_at_def add_failed)
qed

lemma remove_at_some:
  assumes "list_is s ds" and "remove_at h s = Inr (Some (d, l))"
  shows "\<exists>ds'. list_is l ds' \<and> mset ds = add_mset d (mset ds') \<and> length ds = length ds' + 1"
proof (cases ds)
  case Nil
  then show ?thesis
    using assms removeFromHead_empty [of s] removeFromTail_empty [of s]
    by (simp add: remove_at_def split: if_splits)
next
  case (Cons x xs)
  show ?thesis
  proof (cases h)
    case True
    then show ?thesis using removeFromHead_spec [of s x xs] assms Cons by (auto simp: remove_at_def)
  next
    case False
    have "ds \<noteq> []" using Cons by simp
    then obtain ys y where y: "ds = ys @ [y]" by (metis rev_exhaust)
    then show ?thesis using removeFromTail_spec [of s ys y] assms False by (auto simp: remove_at_def)
  qed
qed

lemma remove_at_none:
  assumes "list_is s ds" and "remove_at h s = Inr None"
  shows "ds = []"
proof (rule ccontr)
  assume ne: "ds \<noteq> []"
  obtain x xs where "ds = x # xs" using ne by (cases ds) auto
  moreover obtain ys y where "ds = ys @ [y]" using ne by (cases ds rule: rev_cases) auto
  ultimately show False
    using removeFromHead_spec [of s x xs] removeFromTail_spec [of s ys y] assms
    by (cases h) (auto simp: remove_at_def)
qed

lemma waiting_update:
  "(\<exists>t \<in> set (ts[i := u]). waiting t) \<Longrightarrow> \<not> waiting u \<Longrightarrow> \<exists>t \<in> set ts. waiting t"
  using set_update_subset_insert [of ts i u] by auto

text \<open>One thread moves from state \<open>t\<close> to \<open>u\<close> while the list goes from \<open>ds\<close> to \<open>ds'\<close>.\<close>

lemma sys_inv_move:
  assumes inv: "list_is (slist s) ds" "mset ds + all_carried (threads s) = M"
      "(\<exists>t \<in> set (threads s). waiting t) \<longrightarrow> length ds \<le> n_busy (threads s)"
    and i: "i < length (threads s)" "threads s ! i = t"
    and new: "list_is l ds'" "mset ds' + carried u = mset ds + carried t"
    and wt: "waiting u \<Longrightarrow> ds' = []"
    and le: "\<not> waiting u \<Longrightarrow> \<exists>t \<in> set (threads s). waiting t \<Longrightarrow>
      length ds' + (if busy t then 1 else 0) \<le> length ds + (if busy u then 1 else 0)"
  shows "sys_inv M (s\<lparr>slist := l, threads := (threads s)[i := u]\<rparr>)"
proof -
  have "mset ds' + all_carried ((threads s)[i := u]) + carried t =
      mset ds' + (all_carried (threads s) + carried u)"
    using all_carried_update [OF i(1), of u] i(2) by (simp add: ac_simps)
  also have "\<dots> = (mset ds' + carried u) + all_carried (threads s)" by (simp add: ac_simps)
  also have "\<dots> = M + carried t" using new(2) inv(2) by (simp add: ac_simps)
  finally have m: "mset ds' + all_carried ((threads s)[i := u]) = M" by simp
  have "length ds' \<le> n_busy ((threads s)[i := u])" if w: "\<exists>t \<in> set ((threads s)[i := u]). waiting t"
  proof (cases "waiting u")
    case True
    then show ?thesis using wt by simp
  next
    case False
    then have old: "\<exists>t \<in> set (threads s). waiting t" using waiting_update [OF w] by blast
    then show ?thesis
      using inv(3) le [OF False] n_busy_update [OF i(1), of u] i(2) by (simp split: if_splits)
  qed
  then show ?thesis using m new(1) by (auto simp: sys_inv_def)
qed

lemma tstep_inv:
  assumes "tstep s s'" and "sys_inv M s" and "size M < 2 ^ 31"
  shows "sys_inv M s'"
proof -
  obtain ds where ds: "list_is (slist s) ds" "mset ds + all_carried (threads s) = M"
    "(\<exists>t \<in> set (threads s). waiting t) \<longrightarrow> length ds \<le> n_busy (threads s)"
    using assms(2) by (auto simp: sys_inv_def)
  have sz: "length ds + size (all_carried (threads s)) < 2 ^ 31"
    using assms(3) ds(2) by (metis size_mset size_union)
  show ?thesis
    using assms(1)
  proof cases
    case (add i h ok d l)
    have room: "length ds + 1 < 2 ^ 31 \<or> \<not> ok"
    proof (cases ok)
      case True
      have "1 \<le> size (all_carried (threads s))"
        using carried_le [OF nth_mem [OF add(2)]] add(3) True by simp
      with sz show ?thesis by simp
    qed simp
    obtain ds' where ds': "list_is l ds'" "mset ds' = mset ds + (if ok then {#d#} else {#})"
      "length ds' = length ds + (if ok then 1 else 0)"
      using add_at_spec [OF ds(1) _ add(4)] room ds(1) add(4)
      by (cases ok) (auto simp: add_at_def add_failed split: if_splits)
    show ?thesis
      unfolding add(1) by (rule sys_inv_move [OF ds add(2,3) ds'(1)]) (use ds' in auto)
  next
    case (signal i j h)
    have ij: "i \<noteq> j" using signal by auto
    let ?t1 = "(threads s)[i := Finished None]"
    have c: "all_carried (?t1[j := Woken h]) = all_carried (threads s)"
      using all_carried_update [of i "threads s" "Finished None"]
        all_carried_update [of j ?t1 "Woken h"] signal ij by simp
    have "n_busy (?t1[j := Woken h]) = n_busy (threads s)"
      using n_busy_update [of i "threads s" "Finished None"]
        n_busy_update [of j ?t1 "Woken h"] signal ij by simp
    moreover have "\<exists>t \<in> set (threads s). waiting t"
      using nth_mem [OF signal(4)] signal(5) by (intro bexI [of _ "Waiting h"]) simp_all
    ultimately show ?thesis using ds c signal(1) by (auto simp: sys_inv_def)
  next
    case (signal_nobody i)
    have "\<not> waiting t" if "t \<in> set (threads s)" for t
      using that signal_nobody(4) by (auto simp: waiting_iff)
    then show ?thesis
      unfolding signal_nobody(1)
      using sys_inv_move [OF ds signal_nobody(2,3) ds(1), of "Finished None"] by simp
  next
    case (remove i h d l)
    obtain ds' where ds': "list_is l ds'" "mset ds = add_mset d (mset ds')" "length ds = length ds' + 1"
      using remove_at_some [OF ds(1) remove(4)] by blast
    show ?thesis
      unfolding remove(1)
      by (rule sys_inv_move [OF ds remove(2) refl ds'(1)]) (use ds' remove(3) in auto)
  next
    case (wait i h)
    have e: "ds = []" using remove_at_none [OF ds(1) wait(4)] .
    have "sys_inv M (s\<lparr>slist := slist s, threads := (threads s)[i := Waiting h]\<rparr>)"
      by (rule sys_inv_move [OF ds wait(2) refl ds(1)]) (use e wait(3) in auto)
    then show ?thesis unfolding wait(1) by simp
  next
    case (spurious i h)
    have "sys_inv M (s\<lparr>slist := slist s, threads := (threads s)[i := Woken h]\<rparr>)"
      by (rule sys_inv_move [OF ds spurious(2,3) ds(1)]) auto
    then show ?thesis unfolding spurious(1) by simp
  qed
qed

text \<open>The start: an empty list and threads that have not begun.\<close>

fun at_start :: "'d thread \<Rightarrow> bool" where
  "at_start (Adding h ok d) = True"
| "at_start (Removing h) = True"
| "at_start _ = False"

definition sys_start :: "'d system \<Rightarrow> bool" where
  "sys_start s \<longleftrightarrow> initLinkedList True = Inr (slist s) \<and> (\<forall>t \<in> set (threads s). at_start t) \<and>
     length (threads s) < 2 ^ 31"

lemma reach_inv:
  assumes "tstep\<^sup>*\<^sup>* s0 s" and "sys_start s0"
  shows "sys_inv (all_carried (threads s0)) s"
  using assms(1)
proof (induction rule: rtranclp_induct)
  case base
  have "\<not> waiting t" if "t \<in> set (threads s0)" for t
    using assms(2) that by (cases t) (auto simp: sys_start_def)
  moreover have "list_is (slist s0) []" using assms(2) list_is_init
    by (metis sum.inject(2) sys_start_def)
  ultimately show ?case unfolding sys_inv_def by (intro exI [of _ "[]"]) auto
next
  case (step s1 s2)
  have "size (all_carried (threads s0)) < 2 ^ 31"
    using size_all_carried [of "threads s0"] assms(2) by (simp add: sys_start_def)
  with step show ?case using tstep_inv by blast
qed


text \<open>
  C7. No wakeup is missed: whenever a thread waits on the condition variable while the list is not
  empty, some thread is about to signal or has been woken and will test the size again, although
  every addition signals only once, after releasing the lock.
\<close>

theorem no_missed_wakeup:
  assumes "sys_start s0" and "tstep\<^sup>*\<^sup>* s0 s" and "Waiting h \<in> set (threads s)"
    and "lsize (slist s) \<noteq> 0"
  shows "\<exists>t \<in> set (threads s). t = Signalling \<or> (\<exists>h'. t = Woken h')"
proof -
  obtain ds where ds: "list_is (slist s) ds"
    "(\<exists>t \<in> set (threads s). waiting t) \<longrightarrow> length ds \<le> n_busy (threads s)"
    using reach_inv [OF assms(2,1)] by (auto simp: sys_inv_def)
  have "\<exists>t \<in> set (threads s). waiting t" using assms(3) by (intro bexI [of _ "Waiting h"]) simp_all
  moreover have "ds \<noteq> []" using assms(4) list_is_empty [OF ds(1)] by simp
  ultimately have "0 < n_busy (threads s)" using ds(2) by (cases ds) auto
  then obtain t where "t \<in> set (threads s)" "busy t" by (auto simp: n_busy_def filter_empty_conv)
  then show ?thesis by (metis busy.elims(2))
qed

section \<open>A run for the witnesses\<close>

text \<open>A consumer that finds the list empty and waits, then a producer that has not signalled yet.\<close>

definition empty_list :: "nat dlist" where
  "empty_list = \<lparr>heap = (\<lambda>_. None), brk = 0, lhead = None, ltail = None, lsize = 0\<rparr>"

definition demo_start :: "nat system" where
  "demo_start = \<lparr>slist = empty_list, threads = [Removing True, Adding True True 7]\<rparr>"

lemma demo_sys_start: "sys_start demo_start"
  by (simp add: sys_start_def demo_start_def empty_list_def initLinkedList_def)

lemma demo_reach: "\<exists>l. tstep\<^sup>*\<^sup>* demo_start \<lparr>slist = l, threads = [Waiting True, Signalling]\<rparr> \<and> lsize l = 1"
proof -
  let ?s1 = "\<lparr>slist = empty_list, threads = [Waiting True, Adding True True 7]\<rparr>"
  have "tstep demo_start (demo_start\<lparr>threads := (threads demo_start)[0 := Waiting True]\<rparr>)"
    by (rule tstep.wait) (simp_all add: demo_start_def empty_list_def remove_at_def removeFromHead_def)
  then have s1: "tstep demo_start ?s1" by (simp add: demo_start_def)
  define l where "l = empty_list\<lparr>heap := [0 \<mapsto> \<lparr>nnext = None, nprev = None, ndata = 7\<rparr>], brk := 1,
    lhead := Some 0, ltail := Some 0, lsize := 1\<rparr>"
  have "tstep ?s1 (?s1\<lparr>slist := l, threads := (threads ?s1)[1 := Signalling]\<rparr>)"
    by (rule tstep.add [where h = True and ok = True and d = 7]) (simp_all add: add_at_def addToHead_def createNode_def l_def empty_list_def)
  then have "tstep ?s1 \<lparr>slist = l, threads = [Waiting True, Signalling]\<rparr>" by simp
  with s1 have "tstep\<^sup>*\<^sup>* demo_start \<lparr>slist = l, threads = [Waiting True, Signalling]\<rparr>"
    by (meson converse_rtranclp_into_rtranclp r_into_rtranclp)
  then show ?thesis by (auto simp: l_def)
qed


theorem no_missed_wakeup_witness:
  "\<exists>l. tstep\<^sup>*\<^sup>* demo_start \<lparr>slist = l, threads = [Waiting True, Signalling]\<rparr> \<and>
    (\<exists>t \<in> {Waiting True, Signalling :: nat thread}. t = Signalling \<or> (\<exists>h'. t = Woken h'))"
proof -
  obtain l where l: "tstep\<^sup>*\<^sup>* demo_start \<lparr>slist = l, threads = [Waiting True, Signalling]\<rparr>" "lsize l = 1"
    using demo_reach by blast
  have "\<exists>t \<in> set [Waiting True, Signalling :: nat thread]. t = Signalling \<or> (\<exists>h'. t = Woken h')"
    using no_missed_wakeup [OF demo_sys_start l(1), of True] l(2) by simp
  then show ?thesis using l(1) by auto
qed

end
