(* ===== verification/Rtp.thy ===== *)
theory Rtp
  imports Interfaces
begin

text \<open>
  The reliable transfer protocol of \<open>cs_2200/networking/prj7\<close>: \<open>rtp.h\<close> and the checksum,
  packetizing, stop-and-wait sending and receiving of \<open>rtp.c\<close>. A \<open>char\<close> is signed, as on the
  machines the course used, and a checksum is an \<open>int\<close> built by exclusive or of sign-extended
  characters. The socket calls are the interface to the network: what \<open>recvfrom\<close> delivers is an
  argument, what \<open>sendto\<close> sends is a result, and a \<open>recvfrom\<close> with nothing to deliver blocks.
  Outcomes of \<open>malloc\<close>, \<open>calloc\<close> and \<open>realloc\<close> are arguments.
\<close>

section \<open>Packets: rtp.h\<close>

definition MAX_PAYLOAD_LENGTH :: nat where "MAX_PAYLOAD_LENGTH = 10"

definition DATA :: int where "DATA = 0"
definition LAST_DATA :: int where "LAST_DATA = 1"
definition ACK :: int where "ACK = 2"
definition NACK :: int where "NACK = 3"
definition TERM_PACKET :: int where "TERM_PACKET = 4"

record packet =
  ptype :: int
  pchecksum :: i32
  payload_length :: int
  payload :: "u8 list"

record message =
  mlength :: int
  mbuffer :: "u8 list"

definition zero_packet :: packet where
  "zero_packet = \<lparr>ptype = 0, pchecksum = 0, payload_length = 0,
     payload = replicate MAX_PAYLOAD_LENGTH 0\<rparr>"

section \<open>checksum and packetize\<close>

definition xor_char :: "i32 \<Rightarrow> u8 \<Rightarrow> i32" where
  "xor_char acc ch = acc XOR scast ch"

fun checksum_loop :: "u8 list \<Rightarrow> nat \<Rightarrow> nat \<Rightarrow> i32 \<Rightarrow> i32 c" where
  "checksum_loop buf i 0 acc = Inr acc"
| "checksum_loop buf i (Suc k) acc = bindE (rd buf i) (\<lambda>ch. checksum_loop buf (Suc i) k (xor_char acc ch))"

definition checksum :: "u8 list \<Rightarrow> int \<Rightarrow> i32 c" where
  "checksum buf len = checksum_loop buf 0 (nat len) 0"

text \<open>\<open>memcpy\<close> out of an array, from an offset.\<close>

definition slice :: "u8 list \<Rightarrow> nat \<Rightarrow> nat \<Rightarrow> u8 list c" where
  "slice buf off n = (if off + n \<le> length buf then Inr (take n (drop off buf)) else Inl OutOfBounds)"

definition fill_packet :: "u8 list \<Rightarrow> nat \<Rightarrow> nat \<Rightarrow> packet \<Rightarrow> packet c" where
  "fill_packet buf off n p =
     bindE (checksum (drop off buf) (int n)) (\<lambda>cs. bindE (slice buf off n) (\<lambda>d.
       Inr (p\<lparr>payload_length := int n, pchecksum := cs, payload := d @ drop n (payload p)\<rparr>)))"

text \<open>The loop over all packets but the last: \<open>i\<close> is the index, the last argument the rest.\<close>

fun packetize_loop :: "u8 list \<Rightarrow> nat \<Rightarrow> nat \<Rightarrow> packet list \<Rightarrow> packet list c" where
  "packetize_loop buf i 0 ps = Inr ps"
| "packetize_loop buf i (Suc k) ps =
     bindE (rd ps i) (\<lambda>p. bindE (fill_packet buf (i * MAX_PAYLOAD_LENGTH) MAX_PAYLOAD_LENGTH p) (\<lambda>q.
     bindE (wr ps i q) (\<lambda>ps'. packetize_loop buf (Suc i) k ps')))"

text \<open>
  The result is the array and \<open>count\<close>. A negative length makes the \<open>calloc\<close> size enormous, so
  the allocation fails; for length 0 the code indexes the element before the array.
\<close>

definition packetize :: "bool \<Rightarrow> u8 list \<Rightarrow> int \<Rightarrow> (packet list \<times> nat) c" where
  "packetize ok buf len =
     bindE (guardE ExitFailure (ok \<and> 0 \<le> len)) (\<lambda>_.
     let n = nat len;
         final = n mod MAX_PAYLOAD_LENGTH;
         num = (if final = 0 then n div MAX_PAYLOAD_LENGTH else n div MAX_PAYLOAD_LENGTH + 1)
     in bindE (packetize_loop buf 0 (num - 1) (replicate n zero_packet)) (\<lambda>ps.
        bindE (guardE OutOfBounds (num \<noteq> 0)) (\<lambda>_.
        bindE (rd ps (num - 1)) (\<lambda>p.
        bindE (fill_packet buf ((num - 1) * MAX_PAYLOAD_LENGTH)
                 (if final = 0 then MAX_PAYLOAD_LENGTH else final) (p\<lparr>ptype := LAST_DATA\<rparr>)) (\<lambda>q.
        bindE (wr ps (num - 1) q) (\<lambda>ps'. Inr (ps', num)))))))"

section \<open>rtp_send_message\<close>

text \<open>
  Stop and wait over the types of the responses \<open>recvfrom\<close> delivers: the packets sent, in order,
  and the responses left, or \<open>None\<close> when the sender is blocked waiting for one.
\<close>

fun send_loop :: "packet list \<Rightarrow> int list \<Rightarrow> packet list \<times> int list option" where
  "send_loop [] rs = ([], Some rs)"
| "send_loop (p # ps) [] = ([p], None)"
| "send_loop (p # ps) (r # rs) =
     (let q = (if r = ACK then send_loop ps rs else send_loop (p # ps) rs) in (p # fst q, snd q))"

definition rtp_send_message ::
  "bool \<Rightarrow> message \<Rightarrow> int list \<Rightarrow> (packet list \<times> int list option) c" where
  "rtp_send_message ok msg rs = bindE (packetize ok (mbuffer msg) (mlength msg)) (\<lambda>(ps, num).
     Inr (send_loop (take num ps) rs))"

section \<open>rtp_receive_message\<close>

text \<open>
  The state of the receive loop: the buffer (\<open>None\<close> before the first \<open>realloc\<close>; a byte not yet
  written is \<open>None\<close>), its length as the code tracks it, and the length of the message.
\<close>

record recv_state =
  message_buffer :: "u8 option list option"
  message_buffer_length :: int
  message_length :: int

definition recv_init :: recv_state where
  "recv_init = \<lparr>message_buffer = None, message_buffer_length = 1, message_length = 0\<rparr>"

definition realloc :: "u8 option list option \<Rightarrow> nat \<Rightarrow> u8 option list" where
  "realloc b n = (case b of None \<Rightarrow> replicate n None
     | Some bs \<Rightarrow> take n bs @ replicate (n - length bs) None)"

text \<open>\<open>memcpy\<close> into the buffer: nothing to do for 0 bytes, else the destination must be valid.\<close>

definition copy_in :: "u8 option list option \<Rightarrow> int \<Rightarrow> u8 list \<Rightarrow> u8 option list option c" where
  "copy_in b off d =
     (if d = [] then Inr b
      else bindE (deref b) (\<lambda>bs.
        if 0 \<le> off \<and> nat off + length d \<le> length bs
        then Inr (Some (take (nat off) bs @ map Some d @ drop (nat off + length d) bs))
        else Inl OutOfBounds))"

text \<open>One datagram: the new state, the type of the response, and whether the loop is done.\<close>

definition receive_packet :: "bool \<Rightarrow> packet \<Rightarrow> recv_state \<Rightarrow> (recv_state \<times> int \<times> bool) c" where
  "receive_packet ok p s =
     bindE (checksum (payload p) (payload_length p)) (\<lambda>cs.
     if pchecksum p \<noteq> cs then Inr (s, NACK, False)
     else let ml = message_length s + payload_length p
          in bindE (guardE SignedOverflow (in_i32 ml)) (\<lambda>_.
             bindE (if ml > message_buffer_length s
                    then let bl = message_buffer_length s * 2 + ml
                         in bindE (guardE SignedOverflow (in_i32 (message_buffer_length s * 2) \<and> in_i32 bl)) (\<lambda>_.
                            bindE (guardE ExitFailure ok) (\<lambda>_.
                            Inr (s\<lparr>message_buffer := Some (realloc (message_buffer s) (nat bl)),
                                   message_buffer_length := bl\<rparr>)))
                    else Inr s) (\<lambda>s1.
             bindE (guardE OutOfBounds (0 \<le> payload_length p)) (\<lambda>_.
             bindE (slice (payload p) 0 (nat (payload_length p))) (\<lambda>d.
             bindE (copy_in (message_buffer s1) (ml - payload_length p) d) (\<lambda>b.
             Inr (s1\<lparr>message_buffer := b, message_length := ml\<rparr>, ACK, ptype p = LAST_DATA)))))))"

fun receive_loop ::
  "bool \<Rightarrow> packet list \<Rightarrow> recv_state \<Rightarrow> (recv_state \<times> int list \<times> packet list option) c" where
  "receive_loop ok [] s = Inr (s, [], None)"
| "receive_loop ok (p # ps) s = bindE (receive_packet ok p s) (\<lambda>(s1, r, done).
     if done then Inr (s1, [r], Some ps)
     else bindE (receive_loop ok ps s1) (\<lambda>(s2, rs, left). Inr (s2, r # rs, left)))"

text \<open>
  The end of the function: the buffer is cut to the message and a NUL. Reading a byte the loop
  never wrote would be a fault.
\<close>

fun written :: "u8 option list \<Rightarrow> u8 list c" where
  "written [] = Inr []"
| "written (None # bs) = Inl OutOfBounds"
| "written (Some b # bs) = bindE (written bs) (\<lambda>ds. Inr (b # ds))"

definition finish_message :: "bool \<Rightarrow> recv_state \<Rightarrow> message c" where
  "finish_message ok s =
     bindE (guardE ExitFailure ok) (\<lambda>_.
     bindE (written (take (nat (message_length s)) (realloc (message_buffer s) (nat (message_length s + 1))))) (\<lambda>d.
     Inr \<lparr>mlength = message_length s + 1, mbuffer = d @ [0]\<rparr>))"

text \<open>The message, the responses sent and the datagrams not read; \<open>None\<close> while blocked.\<close>

definition rtp_receive_message ::
  "bool \<Rightarrow> packet list \<Rightarrow> (message \<times> int list \<times> packet list) option c" where
  "rtp_receive_message ok ps = bindE (receive_loop ok ps recv_init) (\<lambda>(s, rs, left).
     case left of None \<Rightarrow> Inr None
     | Some qs \<Rightarrow> bindE (finish_message ok s) (\<lambda>m. Inr (Some (m, rs, qs))))"

section \<open>Sender and receiver together\<close>

text \<open>
  The network between them, one entry per datagram the sender sends: it is delivered intact
  (\<open>None\<close>), or another datagram arrives in its place. The receiver answers each, and the
  sender's next action depends on the answer, so the two loops run in step.
\<close>

fun transfer :: "bool \<Rightarrow> packet option list \<Rightarrow> packet list \<Rightarrow> recv_state \<Rightarrow> (recv_state \<times> bool) c" where
  "transfer ok net [] s = Inr (s, False)"
| "transfer ok [] (p # ps) s = Inr (s, False)"
| "transfer ok (x # net) (p # ps) s =
     bindE (receive_packet ok (case x of None \<Rightarrow> p | Some q \<Rightarrow> q) s) (\<lambda>(s1, r, done).
     if done then Inr (s1, r = ACK \<and> ps = [])
     else if r = ACK then transfer ok net ps s1 else transfer ok net (p # ps) s1)"

end
