(* ===== verification/RtpProofs.thy ===== *)
theory RtpProofs
  imports Rtp
begin

text \<open>
  Correctness of the transfer protocol: packetizing cuts the message into checked chunks, the
  receiver assembles good packets and rejects damaged ones, and a message of at least two bytes
  arrives intact over a network that damages packets detectably, as often as it likes but not for
  ever.
\<close>

section \<open>The checksum\<close>

definition xsum :: "u8 list \<Rightarrow> i32" where
  "xsum ds = fold (\<lambda>ch acc. xor_char acc ch) ds 0"

lemma checksum_loop_fold:
  "i + k \<le> length buf \<Longrightarrow>
     checksum_loop buf i k acc = Inr (fold (\<lambda>ch acc. xor_char acc ch) (take k (drop i buf)) acc)"
proof (induction k arbitrary: i acc)
  case (Suc k)
  then have "drop i buf = buf ! i # drop (Suc i) buf" by (intro Cons_nth_drop_Suc [symmetric]) simp
  with Suc show ?case by simp
qed simp

lemma checksum_xsum: "n \<le> length buf \<Longrightarrow> checksum buf (int n) = Inr (xsum (take n buf))"
  using checksum_loop_fold [of 0 n buf 0] by (simp add: checksum_def xsum_def)

lemma xor_fold_acc:
  "fold (\<lambda>ch acc. xor_char acc ch) ds acc = acc XOR fold (\<lambda>ch acc. xor_char acc ch) ds 0"
proof (induction ds arbitrary: acc)
  case (Cons d ds)
  have "fold (\<lambda>ch acc. xor_char acc ch) (d # ds) acc =
      (acc XOR scast d) XOR fold (\<lambda>ch acc. xor_char acc ch) ds 0"
    using Cons [of "acc XOR scast d"] by (simp add: xor_char_def)
  also have "\<dots> = acc XOR fold (\<lambda>ch acc. xor_char acc ch) ds (scast d)"
    using Cons [of "scast d"] by (simp add: xor.assoc)
  finally show ?case by (simp add: xor_char_def)
qed simp

lemma xsum_Cons: "xsum (d # ds) = scast d XOR xsum ds"
  using xor_fold_acc [of ds "scast d"] by (simp add: xsum_def xor_char_def)

lemma xsum_append: "xsum (as @ bs) = xsum as XOR xsum bs"
  by (induction as) (simp_all add: xsum_Cons xor.assoc, simp add: xsum_def)

lemma scast_u8_inj: "(scast (a :: u8) :: i32) = scast b \<Longrightarrow> a = b"
proof -
  assume "(scast a :: i32) = scast b"
  then have "(ucast (scast a :: i32) :: u8) = ucast (scast b :: i32)" by simp
  moreover have "(ucast (scast x :: i32) :: u8) = x" for x :: u8
    by (rule bit_word_eqI) (auto simp: bit_ucast_iff bit_signed_iff)
  ultimately show "a = b" by simp
qed

lemma xor_cancel_left: "(a :: i32) XOR x = a XOR y \<longleftrightarrow> x = y"
  by (metis xor.assoc xor_self_eq xor.left_neutral)

lemma xor_cancel_right: "(x :: i32) XOR a = y XOR a \<longleftrightarrow> x = y"
  by (metis xor.assoc xor_self_eq xor.right_neutral)

lemma xor_char_comm: "xor_char (xor_char acc a) b = xor_char (xor_char acc b) a"
  by (simp add: xor_char_def ac_simps)

lemma xsum_mset:
  assumes "mset es = mset ds"
  shows "xsum es = xsum ds"
proof -
  have "fold (\<lambda>ch acc. xor_char acc ch) es = fold (\<lambda>ch acc. xor_char acc ch) ds"
  proof (rule fold_multiset_equiv)
    show "(\<lambda>acc. xor_char acc x) \<circ> (\<lambda>acc. xor_char acc y) = (\<lambda>acc. xor_char acc y) \<circ> (\<lambda>acc. xor_char acc x)" for x y
      by (simp add: fun_eq_iff xor_char_comm)
  qed (rule assms)
  then show ?thesis by (simp add: xsum_def)
qed

text \<open>
  The checksum detects the change of any single byte of the payload, but, being an exclusive
  or (the comment asks for a sum, which has the same weakness), no reordering of its bytes.
\<close>

theorem checksum_detects_one_byte:
  assumes "i < length ds" and "ch \<noteq> ds ! i"
  shows "checksum (ds[i := ch]) (int (length ds)) \<noteq> checksum ds (int (length ds)) \<and>
    (\<forall>es. mset es = mset ds \<longrightarrow> checksum es (int (length ds)) = checksum ds (int (length ds)))"
proof -
  have split: "xsum (ds[i := x]) = xsum (take i ds) XOR (scast x XOR xsum (drop (Suc i) ds))" for x
    using assms(1) by (simp add: upd_conv_take_nth_drop xsum_append xsum_Cons)
  have "xsum (ds[i := ch]) \<noteq> xsum (ds[i := ds ! i])"
    unfolding split xor_cancel_left xor_cancel_right using assms(2) scast_u8_inj [of ch "ds ! i"] by blast
  then have "checksum (ds[i := ch]) (int (length ds)) \<noteq> checksum ds (int (length ds))"
    using checksum_xsum [of "length ds" "ds[i := ch]"] checksum_xsum [of "length ds" ds] by simp
  moreover have "checksum es (int (length ds)) = checksum ds (int (length ds))" if "mset es = mset ds" for es
  proof -
    have "length es = length ds" using that by (rule mset_eq_length)
    then show ?thesis
      using checksum_xsum [of "length ds" es] checksum_xsum [of "length ds" ds] xsum_mset [OF that] by simp
  qed
  ultimately show ?thesis by blast
qed

theorem checksum_detects_one_byte_witness:
  "checksum [1, 9, 3] 3 \<noteq> checksum [1, 2, 3] 3 \<and> checksum [3, 2, 1] 3 = checksum [1, 2, 3] 3"
proof -
  have "mset [3, 2, 1 :: u8] = mset [1, 2, 3]" by simp
  moreover have "[1, 2, 3 :: u8][1 := 9] = [1, 9, 3]" "int (length [1, 2, 3 :: u8]) = 3"
    "[1, 2, 3 :: u8] ! 1 \<noteq> 9" "1 < length [1, 2, 3 :: u8]"
    by simp_all
  ultimately show ?thesis
    using checksum_detects_one_byte [of 1 "[1, 2, 3]" 9] by metis
qed

section \<open>Packetizing\<close>

definition good_packet :: "packet \<Rightarrow> u8 list \<Rightarrow> bool" where
  "good_packet p ds \<longleftrightarrow> payload_length p = int (length ds) \<and> length ds \<le> MAX_PAYLOAD_LENGTH \<and>
     length (payload p) = MAX_PAYLOAD_LENGTH \<and> take (length ds) (payload p) = ds \<and>
     pchecksum p = xsum ds"

definition chunk :: "u8 list \<Rightarrow> nat \<Rightarrow> u8 list" where
  "chunk ds j = take MAX_PAYLOAD_LENGTH (drop (j * MAX_PAYLOAD_LENGTH) ds)"

lemma fill_packet_spec:
  assumes "off + n \<le> length buf" and "n \<le> MAX_PAYLOAD_LENGTH" and "length (payload p) = MAX_PAYLOAD_LENGTH"
  shows "\<exists>q. fill_packet buf off n p = Inr q \<and> good_packet q (take n (drop off buf)) \<and> ptype q = ptype p"
  using assms checksum_xsum [of n "drop off buf"]
  by (simp add: fill_packet_def slice_def good_packet_def)

lemma packetize_loop_spec:
  assumes "i + k \<le> length ps" and "(i + k) * MAX_PAYLOAD_LENGTH \<le> length buf"
    and "\<forall>p \<in> set ps. length (payload p) = MAX_PAYLOAD_LENGTH"
  shows "\<exists>qs. packetize_loop buf i k ps = Inr qs \<and> length qs = length ps \<and>
    (\<forall>j < length ps. if i \<le> j \<and> j < i + k then good_packet (qs ! j) (chunk buf j) \<and> ptype (qs ! j) = ptype (ps ! j)
      else qs ! j = ps ! j)"
  using assms
proof (induction k arbitrary: i ps)
  case (Suc k)
  have "i * MAX_PAYLOAD_LENGTH + MAX_PAYLOAD_LENGTH \<le> length buf"
    using Suc.prems(2) by (simp add: algebra_simps)
  from fill_packet_spec [OF this, of "ps ! i"] Suc.prems(1,3) obtain q where
    q: "fill_packet buf (i * MAX_PAYLOAD_LENGTH) MAX_PAYLOAD_LENGTH (ps ! i) = Inr q"
    "good_packet q (chunk buf i)" "ptype q = ptype (ps ! i)"
    by (auto simp: chunk_def)
  have "\<forall>p \<in> set (ps[i := q]). length (payload p) = MAX_PAYLOAD_LENGTH"
    using Suc.prems(3) q(2) set_update_subset_insert [of ps i q] by (auto simp: good_packet_def)
  with Suc.IH [of "Suc i" "ps[i := q]"] Suc.prems obtain qs where
    qs: "packetize_loop buf (Suc i) k (ps[i := q]) = Inr qs" "length qs = length ps"
    "\<forall>j < length ps. if Suc i \<le> j \<and> j < Suc i + k
       then good_packet (qs ! j) (chunk buf j) \<and> ptype (qs ! j) = ptype (ps[i := q] ! j)
       else qs ! j = ps[i := q] ! j"
    by auto
  have "packetize_loop buf i (Suc k) ps = Inr qs" using q qs(1) Suc.prems(1) by simp
  moreover have "if i \<le> j \<and> j < i + Suc k then good_packet (qs ! j) (chunk buf j) \<and> ptype (qs ! j) = ptype (ps ! j)
      else qs ! j = ps ! j" if j: "j < length ps" for j
    using qs(3) j q Suc.prems(1) by (cases "j = i") auto
  ultimately show ?case using qs(2) by blast
qed auto

definition packet_count :: "nat \<Rightarrow> nat" where
  "packet_count n = (n + MAX_PAYLOAD_LENGTH - 1) div MAX_PAYLOAD_LENGTH"

lemma packet_count_split:
  assumes "r < 10"
  shows "packet_count (10 * q + r) = (if r = 0 then q else q + 1)"
proof (cases "r = 0")
  case True
  then show ?thesis by (simp add: packet_count_def MAX_PAYLOAD_LENGTH_def)
next
  case False
  have "(10 * q + r + 9) div 10 = q + 1"
    using assms False by (intro div_nat_eqI) simp_all
  then show ?thesis using False by (simp add: packet_count_def MAX_PAYLOAD_LENGTH_def)
qed

lemma packet_count_code:
  "(if n mod MAX_PAYLOAD_LENGTH = 0 then n div MAX_PAYLOAD_LENGTH else n div MAX_PAYLOAD_LENGTH + 1) =
     packet_count n"
  using packet_count_split [of "n mod 10" "n div 10"] by (simp add: MAX_PAYLOAD_LENGTH_def)

lemma packet_count_facts:
  assumes "0 < n"
  shows "0 < packet_count n" and "packet_count n \<le> n"
    and "(packet_count n - 1) * MAX_PAYLOAD_LENGTH + (if n mod MAX_PAYLOAD_LENGTH = 0 then MAX_PAYLOAD_LENGTH
      else n mod MAX_PAYLOAD_LENGTH) = n"
proof -
  obtain q r where n: "n = 10 * q + r" "r < 10"
    using that [of "n div 10" "n mod 10"] by simp
  have m: "n mod MAX_PAYLOAD_LENGTH = r" using n by (simp add: MAX_PAYLOAD_LENGTH_def)
  note c = packet_count_split [OF n(2), of q, folded n(1)]
  show "0 < packet_count n" "packet_count n \<le> n" using c n assms by (auto split: if_splits)
  show "(packet_count n - 1) * MAX_PAYLOAD_LENGTH + (if n mod MAX_PAYLOAD_LENGTH = 0 then MAX_PAYLOAD_LENGTH
      else n mod MAX_PAYLOAD_LENGTH) = n"
    unfolding m using c n assms by (cases q) (auto simp: MAX_PAYLOAD_LENGTH_def)
qed

text \<open>
  \<open>packetize\<close> cuts a non-empty buffer into the right number of packets, each carrying its chunk
  of at most ten bytes with its length and a valid checksum, the last one and only it marked
  \<open>LAST_DATA\<close>.
\<close>

theorem packetize_correct:
  assumes "0 < n" and "n = length buf"
  shows "\<exists>ps. packetize True buf (int n) = Inr (ps, packet_count n) \<and> packet_count n \<le> length ps \<and>
    (\<forall>j < packet_count n. good_packet (ps ! j) (chunk buf j) \<and>
       ptype (ps ! j) = (if Suc j = packet_count n then LAST_DATA else DATA))"
proof -
  let ?m = "packet_count n" and ?f = "n mod MAX_PAYLOAD_LENGTH"
  let ?l = "if ?f = 0 then MAX_PAYLOAD_LENGTH else ?f"
  note pc = packet_count_facts [OF assms(1)]
  have "(?m - 1) * MAX_PAYLOAD_LENGTH \<le> length buf" unfolding assms(2) [symmetric] using pc(3) by (metis le_add1)
  then have "(0 + (?m - 1)) * MAX_PAYLOAD_LENGTH \<le> length buf" by simp
  moreover have "0 + (?m - 1) \<le> length (replicate n zero_packet)" using pc by simp
  ultimately obtain qs where qs: "packetize_loop buf 0 (?m - 1) (replicate n zero_packet) = Inr qs"
    "length qs = n" "\<forall>j < n. if j < ?m - 1
      then good_packet (qs ! j) (chunk buf j) \<and> ptype (qs ! j) = 0 else qs ! j = zero_packet"
    using packetize_loop_spec [of 0 "?m - 1" "replicate n zero_packet" buf]
    by (fastforce simp: zero_packet_def)
  have lt: "?m - 1 < n" using pc assms(1) by linarith
  then have z: "qs ! (?m - 1) = zero_packet" using qs(3) by auto
  have le: "(?m - 1) * MAX_PAYLOAD_LENGTH + ?l \<le> length buf" using pc(3) assms(2) by simp
  have l10: "?l \<le> MAX_PAYLOAD_LENGTH" by (simp add: MAX_PAYLOAD_LENGTH_def)
  obtain q where q: "fill_packet buf ((?m - 1) * MAX_PAYLOAD_LENGTH) ?l (zero_packet\<lparr>ptype := LAST_DATA\<rparr>) = Inr q"
    "good_packet q (take ?l (drop ((?m - 1) * MAX_PAYLOAD_LENGTH) buf))" "ptype q = LAST_DATA"
    using fill_packet_spec [OF le l10, of "zero_packet\<lparr>ptype := LAST_DATA\<rparr>"]
    by (auto simp: zero_packet_def)
  have last: "take ?l (drop ((?m - 1) * MAX_PAYLOAD_LENGTH) buf) = chunk buf (?m - 1)"
    using pc(3) assms(2) l10 by (simp add: chunk_def)
  have "packetize True buf (int n) = Inr (qs[?m - 1 := q], ?m)"
    unfolding packetize_def Let_def nat_int packet_count_code
    using pc(1) qs(1,2) z q(1) lt by simp
  moreover have "good_packet (qs[?m - 1 := q] ! j) (chunk buf j) \<and>
      ptype (qs[?m - 1 := q] ! j) = (if Suc j = ?m then LAST_DATA else DATA)" if "j < ?m" for j
  proof (cases "j = ?m - 1")
    case True
    then show ?thesis using q last lt qs(2) that by simp
  next
    case False
    then have "j < ?m - 1" using that by linarith
    then show ?thesis using qs(3) lt False by (auto simp: DATA_def)
  qed
  ultimately show ?thesis using pc(2) qs(2) by auto
qed

theorem packetize_correct_witness:
  "\<exists>ps. packetize True (replicate 12 7) 12 = Inr (ps, 2) \<and> good_packet (ps ! 1) [7, 7] \<and>
    ptype (ps ! 1) = LAST_DATA"
proof -
  have c: "packet_count 12 = 2" by (simp add: packet_count_def MAX_PAYLOAD_LENGTH_def)
  have "chunk (replicate 12 7) 1 = replicate 2 7" by (simp add: chunk_def MAX_PAYLOAD_LENGTH_def)
  then have "chunk (replicate 12 7) 1 = [7, 7]" by (simp add: numeral_2_eq_2)
  moreover obtain ps where ps: "packetize True (replicate 12 7) (int 12) = Inr (ps, packet_count 12)"
    "\<forall>j < packet_count 12. good_packet (ps ! j) (chunk (replicate 12 7) j) \<and>
       ptype (ps ! j) = (if Suc j = packet_count 12 then LAST_DATA else DATA)"
    using packetize_correct [of 12 "replicate 12 7"] by auto
  ultimately have "good_packet (ps ! 1) [7, 7]" "ptype (ps ! 1) = LAST_DATA"
    using c ps(2) [rule_format, of 1] by simp_all
  then show ?thesis using ps(1) c by auto
qed

end
