(* ===== verification/RtpTransfer.thy ===== *)
theory RtpTransfer
  imports RtpProofs
begin

text \<open>
  The receive loop and the transfer of a whole message over a network that damages datagrams.
\<close>

section \<open>The receiver\<close>

text \<open>
  \<open>recv_inv s ds\<close>: the bytes \<open>ds\<close> are in the buffer, whose length the code tracks and which stays
  within three times the message.
\<close>

definition recv_inv :: "recv_state \<Rightarrow> u8 list \<Rightarrow> bool" where
  "recv_inv s ds \<longleftrightarrow> message_length s = int (length ds) \<and> 1 \<le> message_buffer_length s \<and>
     message_buffer_length s \<le> 1 + 3 * int (length ds) \<and>
     (case message_buffer s of None \<Rightarrow> ds = [] \<and> message_buffer_length s = 1
      | Some bs \<Rightarrow> int (length bs) = message_buffer_length s \<and> length ds \<le> length bs \<and>
          take (length ds) bs = map Some ds)"

lemma recv_init_inv: "recv_inv recv_init []"
  by (simp add: recv_inv_def recv_init_def)

text \<open>A damaged datagram: its payload is readable and the checksum field does not match it.\<close>

definition damaged :: "packet \<Rightarrow> bool" where
  "damaged q \<longleftrightarrow> payload_length q \<le> int (length (payload q)) \<and>
     pchecksum q \<noteq> xsum (take (nat (payload_length q)) (payload q))"

lemma checksum_ok:
  "len \<le> int (length buf) \<Longrightarrow> checksum buf len = Inr (xsum (take (nat len) buf))"
  using checksum_xsum [of "nat len" buf] by (cases "0 \<le> len") (auto simp: checksum_def xsum_def)

lemma receive_damaged: "damaged q \<Longrightarrow> receive_packet ok q s = Inr (s, NACK, False)"
  by (simp add: receive_packet_def damaged_def checksum_ok)

lemma copy_in_spec:
  assumes "take n bs = map Some ds" and "length ds = n" and "n + length es \<le> length bs"
  shows "\<exists>bs'. copy_in (Some bs) (int n) es = Inr (Some bs') \<and> length bs' = length bs \<and>
    take (n + length es) bs' = map Some (ds @ es)"
  using assms by (cases "es = []") (auto simp: copy_in_def)

lemma good_checksum: "good_packet p es \<Longrightarrow> checksum (payload p) (payload_length p) = Inr (xsum es)"
  by (simp add: good_packet_def checksum_ok)

lemma good_slice: "good_packet p es \<Longrightarrow> slice (payload p) 0 (nat (payload_length p)) = Inr es"
  by (simp add: good_packet_def slice_def)

lemma realloc_grow:
  assumes "\<forall>bs. b = Some bs \<longrightarrow> length bs \<le> n \<and> take k bs = map Some ds \<and> length ds = k \<and> k \<le> length bs"
    and "b = None \<longrightarrow> ds = [] \<and> k = 0"
  shows "length (realloc b n) = n \<and> take k (realloc b n) = map Some ds"
  using assms by (cases b) (auto simp: realloc_def)

lemma receive_good:
  assumes inv: "recv_inv s ds" and p: "good_packet p es"
    and room: "3 * (length ds + length es) + 1 < 2 ^ 31"
    and buf: "message_buffer s \<noteq> None \<or> length es \<noteq> 1"
  shows "\<exists>s'. receive_packet True p s = Inr (s', ACK, ptype p = LAST_DATA) \<and> recv_inv s' (ds @ es) \<and>
    (es \<noteq> [] \<longrightarrow> message_buffer s' \<noteq> None)"
proof -
  define ml where "ml = message_length s + payload_length p"
  have plen: "payload_length p = int (length es)" using p by (simp add: good_packet_def)
  have ml: "ml = int (length (ds @ es))" using inv plen by (simp add: ml_def recv_inv_def)
  have b: "1 \<le> message_buffer_length s" "message_buffer_length s \<le> 1 + 3 * int (length ds)"
    using inv by (simp_all add: recv_inv_def)
  have i1: "in_i32 ml" using room ml by (simp add: in_i32_def)
  define s1 where "s1 = (if ml > message_buffer_length s
    then s\<lparr>message_buffer := Some (realloc (message_buffer s) (nat (message_buffer_length s * 2 + ml))),
           message_buffer_length := message_buffer_length s * 2 + ml\<rparr> else s)"
  have grow: "(if ml > message_buffer_length s
      then let bl = message_buffer_length s * 2 + ml
           in bindE (guardE SignedOverflow (in_i32 (message_buffer_length s * 2) \<and> in_i32 bl)) (\<lambda>_.
              bindE (guardE ExitFailure True) (\<lambda>_.
              Inr (s\<lparr>message_buffer := Some (realloc (message_buffer s) (nat bl)),
                     message_buffer_length := bl\<rparr>)))
      else Inr s) = Inr s1"
    using b room ml by (auto simp: s1_def in_i32_def Let_def guardE_true)
  have inv1: "message_length s1 = int (length ds)" "1 \<le> message_buffer_length s1"
    "message_buffer_length s1 \<le> 1 + 3 * ml"
    using inv b ml by (auto simp: s1_def recv_inv_def)
  have fields: "recv_inv s ds \<Longrightarrow> message_buffer s = None \<Longrightarrow> ds = [] \<and> message_buffer_length s = 1"
    "\<And>bs. recv_inv s ds \<Longrightarrow> message_buffer s = Some bs \<Longrightarrow> int (length bs) = message_buffer_length s \<and>
      length ds \<le> length bs \<and> take (length ds) bs = map Some ds"
    by (simp_all add: recv_inv_def)
  have "\<exists>b'. copy_in (message_buffer s1) (int (length ds)) es = Inr b' \<and>
      (case b' of None \<Rightarrow> ds @ es = [] \<and> message_buffer_length s1 = 1
       | Some bs \<Rightarrow> int (length bs) = message_buffer_length s1 \<and> length (ds @ es) \<le> length bs \<and>
           take (length (ds @ es)) bs = map Some (ds @ es)) \<and> (es \<noteq> [] \<longrightarrow> b' \<noteq> None)"
  proof (cases "message_buffer s1")
    case None
    then have n: "message_buffer s = None" "ml \<le> message_buffer_length s" "s1 = s"
      by (auto simp: s1_def split: if_splits)
    with fields(1) inv ml buf have "ds = []" "es = []"
      by (auto simp: le_Suc_eq)
    with n fields(1) inv show ?thesis by (simp add: copy_in_def)
  next
    case (Some bs)
    have bs: "int (length bs) = message_buffer_length s1 \<and> take (length ds) bs = map Some ds \<and>
        length ds + length es \<le> length bs"
    proof (cases "ml > message_buffer_length s")
      case True
      define n where "n = nat (message_buffer_length s * 2 + ml)"
      have "bs = realloc (message_buffer s) n" using Some True by (simp add: s1_def n_def)
      moreover have "length (realloc (message_buffer s) n) = n \<and>
          take (length ds) (realloc (message_buffer s) n) = map Some ds"
        by (rule realloc_grow) (use fields inv b ml in \<open>auto simp: n_def\<close>)
      moreover have "int n = message_buffer_length s1" "length ds + length es \<le> n"
        using True b ml by (simp_all add: s1_def n_def)
      ultimately show ?thesis by simp
    next
      case False
      then have "s1 = s" by (simp add: s1_def)
      then show ?thesis using fields(2) inv Some False ml by auto
    qed
    from copy_in_spec [of "length ds" bs ds es] bs obtain bs' where
      "copy_in (Some bs) (int (length ds)) es = Inr (Some bs')" "length bs' = length bs"
      "take (length ds + length es) bs' = map Some (ds @ es)"
      by auto
    with Some bs show ?thesis by auto
  qed
  then obtain b' where b': "copy_in (message_buffer s1) (int (length ds)) es = Inr b'"
    "case b' of None \<Rightarrow> ds @ es = [] \<and> message_buffer_length s1 = 1
     | Some bs \<Rightarrow> int (length bs) = message_buffer_length s1 \<and> length (ds @ es) \<le> length bs \<and>
         take (length (ds @ es)) bs = map Some (ds @ es)" "es \<noteq> [] \<longrightarrow> b' \<noteq> None"
    by blast
  have cs: "pchecksum p = xsum es" using p by (simp add: good_packet_def)
  have off: "ml - payload_length p = int (length ds)" using ml plen by simp
  let ?s = "s1\<lparr>message_buffer := b', message_length := ml\<rparr>"
  have "receive_packet True p s = Inr (?s, ACK, ptype p = LAST_DATA)"
    using good_checksum [OF p] good_slice [OF p] cs i1 grow b'(1) off plen
    unfolding receive_packet_def ml_def [symmetric] by (simp add: Let_def)
  moreover have "recv_inv ?s (ds @ es)"
    using inv1 b'(2) ml by (simp add: recv_inv_def cong: option.case_cong)
  ultimately show ?thesis using b'(3) by (intro exI [of _ ?s]) simp
qed

section \<open>The transfer\<close>

definition intact_count :: "packet option list \<Rightarrow> nat" where
  "intact_count net = length (filter (\<lambda>x. x = None) net)"

lemma transfer_spec:
  assumes "list_all2 good_packet ps css" and "ps \<noteq> []"
    and "\<forall>j < length ps. ptype (ps ! j) = LAST_DATA \<longleftrightarrow> Suc j = length ps"
    and "recv_inv s ds" and "message_buffer s \<noteq> None \<or> length (hd css) \<noteq> 1"
    and "\<forall>es \<in> set css. es \<noteq> []"
    and "3 * (length ds + length (concat css)) + 1 < 2 ^ 31"
    and "\<forall>x \<in> set net. \<forall>q. x = Some q \<longrightarrow> damaged q" and "length ps \<le> intact_count net"
  shows "\<exists>s'. transfer True net ps s = Inr (s', True) \<and> recv_inv s' (ds @ concat css)"
  using assms
proof (induction net arbitrary: ps css s ds)
  case Nil
  then show ?case by (simp add: intact_count_def)
next
  case (Cons x net)
  obtain p ps' where ps: "ps = p # ps'" using Cons.prems(2) by (cases ps) auto
  then obtain es css' where css: "css = es # css'" and p: "good_packet p es"
    and ps': "list_all2 good_packet ps' css'"
    using Cons.prems(1) by (cases css) auto
  show ?case
  proof (cases x)
    case (Some q)
    then have "damaged q" using Cons.prems(8) by simp
    then have "transfer True (x # net) ps s = transfer True net ps s"
      using Some ps receive_damaged [of q True s] by (simp add: ACK_def NACK_def)
    moreover have "length ps \<le> intact_count net"
      using Cons.prems(9) Some by (simp add: intact_count_def)
    ultimately show ?thesis
      using Cons.IH [OF Cons.prems(1-7)] Cons.prems(8) by simp
  next
    case None
    have "3 * (length ds + length es) + 1 < 2 ^ 31" using Cons.prems(7) css by simp
    from receive_good [OF Cons.prems(4) p this] Cons.prems(5) css obtain s1 where
      s1: "receive_packet True p s = Inr (s1, ACK, ptype p = LAST_DATA)" "recv_inv s1 (ds @ es)"
      "es \<noteq> [] \<longrightarrow> message_buffer s1 \<noteq> None"
      by auto
    have last: "ptype p = LAST_DATA \<longleftrightarrow> ps' = []"
      using Cons.prems(3) ps by (auto dest: spec [of _ 0])
    show ?thesis
    proof (cases "ps' = []")
      case True
      then have "css' = []" using ps' by simp
      with True s1 last None ps css show ?thesis by simp
    next
      case False
      have "transfer True (x # net) ps s = transfer True net ps' s1"
        using None ps s1(1) last False by simp
      moreover have "\<forall>j < length ps'. ptype (ps' ! j) = LAST_DATA \<longleftrightarrow> Suc j = length ps'"
        using Cons.prems(3) [rule_format, of "Suc _"] ps by simp
      moreover have "message_buffer s1 \<noteq> None" using s1(3) Cons.prems(6) css by simp
      moreover have "length ps' \<le> intact_count net"
        using Cons.prems(9) None ps by (simp add: intact_count_def)
      moreover have "3 * (length (ds @ es) + length (concat css')) + 1 < 2 ^ 31"
        using Cons.prems(7) css by simp
      ultimately show ?thesis
        using Cons.IH [OF ps' False _ s1(2)] Cons.prems(6,8) css by simp
    qed
  qed
qed

lemma written_map_Some: "written (map Some ds) = Inr ds"
  by (induction ds) simp_all

lemma finish_spec:
  assumes "recv_inv s ds" and "message_buffer s \<noteq> None"
  shows "finish_message True s = Inr \<lparr>mlength = int (length ds) + 1, mbuffer = ds @ [0]\<rparr>"
proof -
  obtain bs where bs: "message_buffer s = Some bs" "length ds \<le> length bs" "take (length ds) bs = map Some ds"
    "message_length s = int (length ds)"
    using assms by (auto simp: recv_inv_def split: option.splits)
  have "nat (int (length ds) + 1) = Suc (length ds)" by simp
  then have "take (length ds) (realloc (Some bs) (nat (int (length ds) + 1))) = map Some ds"
    using bs by (simp add: realloc_def)
  then show ?thesis using bs by (simp add: finish_message_def written_map_Some)
qed

lemma concat_chunks:
  "concat (map (chunk ds) [0..<m]) = take (m * MAX_PAYLOAD_LENGTH) ds"
proof (induction m)
  case (Suc m)
  have "take (Suc m * MAX_PAYLOAD_LENGTH) ds =
      take (m * MAX_PAYLOAD_LENGTH) ds @ take MAX_PAYLOAD_LENGTH (drop (m * MAX_PAYLOAD_LENGTH) ds)"
    using take_add [of "m * MAX_PAYLOAD_LENGTH" MAX_PAYLOAD_LENGTH ds] by (simp add: add.commute)
  with Suc show ?case by (simp add: chunk_def)
qed simp

lemma chunk_nonempty: "j < packet_count (length ds) \<Longrightarrow> chunk ds j \<noteq> []"
proof -
  assume j: "j < packet_count (length ds)"
  then have "j * MAX_PAYLOAD_LENGTH \<le> (packet_count (length ds) - 1) * MAX_PAYLOAD_LENGTH"
    by (intro mult_le_mono1) simp
  moreover have "0 < length ds" using j by (cases "length ds") (auto simp: packet_count_def MAX_PAYLOAD_LENGTH_def)
  ultimately have "j * MAX_PAYLOAD_LENGTH < length ds"
    using packet_count_facts(3) [of "length ds"]
    by (auto simp: MAX_PAYLOAD_LENGTH_def split: if_splits)
  then show ?thesis by (simp add: chunk_def MAX_PAYLOAD_LENGTH_def)
qed

text \<open>
  \<open>transfer\<close> is the two loops of the code run in step: it yields the datagrams sent and the
  answers, on which the sender's loop and the receiver's loop agree.
\<close>

definition delivered :: "packet list \<Rightarrow> packet option list \<Rightarrow> packet list" where
  "delivered sent net = map (\<lambda>(p, x). case x of None \<Rightarrow> p | Some q \<Rightarrow> q) (zip sent net)"

lemma delivered_Cons [simp]:
  "delivered (p # sent) (x # net) = (case x of None \<Rightarrow> p | Some q \<Rightarrow> q) # delivered sent net"
  "delivered [] net = []"
  by (simp_all add: delivered_def)

lemma transfer_loops:
  "transfer ok net ps s = Inr (s', True) \<Longrightarrow> ps \<noteq> [] \<Longrightarrow>
     \<exists>sent rs. send_loop ps rs = (sent, Some []) \<and> length sent \<le> length net \<and>
       receive_loop ok (delivered sent net) s = Inr (s', rs, Some [])"
proof (induction ok net ps s rule: transfer.induct)
  case (3 ok x net p ps s)
  let ?q = "case x of None \<Rightarrow> p | Some q \<Rightarrow> q"
  from 3(3) obtain s1 r d where rp: "receive_packet ok ?q s = Inr (s1, r, d)"
    and rest: "(if d then Inr (s1, r = ACK \<and> ps = [])
      else if r = ACK then transfer ok net ps s1 else transfer ok net (p # ps) s1) = Inr (s', True)"
    by auto
  show ?case
  proof (cases d)
    case True
    with rest have "s1 = s'" "r = ACK" "ps = []" by simp_all
    with rp True show ?thesis
      by (intro exI [of _ "[p]"] exI [of _ "[ACK]"]) simp
  next
    case False
    show ?thesis
    proof (cases "r = ACK")
      case True
      with rest False have t: "transfer ok net ps s1 = Inr (s', True)" by simp
      then have "ps \<noteq> []" by auto
      with 3(1) [OF rp refl refl False True] t obtain sent rs where
        "send_loop ps rs = (sent, Some [])" "length sent \<le> length net"
        "receive_loop ok (delivered sent net) s1 = Inr (s', rs, Some [])"
        by blast
      with rp True False show ?thesis
        by (intro exI [of _ "p # sent"] exI [of _ "ACK # rs"]) (simp add: Let_def)
    next
      case nack: False
      with rest False have t: "transfer ok net (p # ps) s1 = Inr (s', True)" by simp
      from 3(2) [OF rp refl refl False nack] t obtain sent rs where
        "send_loop (p # ps) rs = (sent, Some [])" "length sent \<le> length net"
        "receive_loop ok (delivered sent net) s1 = Inr (s', rs, Some [])"
        by blast
      with rp nack False show ?thesis
        by (intro exI [of _ "p # sent"] exI [of _ "r # rs"]) (simp add: Let_def)
    qed
  qed
qed simp_all

text \<open>
  C8. End to end: a message of at least two bytes is delivered exactly, with a NUL appended, over
  any network that either delivers a packet or delivers a datagram whose checksum betrays it,
  provided it lets as many datagrams through as there are packets. There is a run in which the
  answers \<open>rs\<close> the receiver gives are those the sender gets: the sender's loop ends having used
  them all, the receiver's loop ends having read all that was delivered, and no buffer is overrun.
\<close>

theorem message_arrives:
  assumes "2 \<le> length buf" and "3 * length buf + 1 < 2 ^ 31"
    and "\<forall>x \<in> set net. \<forall>q. x = Some q \<longrightarrow> damaged q"
    and "packet_count (length buf) \<le> intact_count net"
  shows "\<exists>sent rs.
    rtp_send_message True \<lparr>mlength = int (length buf), mbuffer = buf\<rparr> rs = Inr (sent, Some []) \<and>
    length sent \<le> length net \<and>
    rtp_receive_message True (delivered sent net) =
      Inr (Some (\<lparr>mlength = int (length buf) + 1, mbuffer = buf @ [0]\<rparr>, rs, []))"
proof -
  let ?n = "packet_count (length buf)"
  have pos: "0 < length buf" using assms(1) by linarith
  note pc = packet_count_facts [OF pos]
  obtain ps where ps: "packetize True buf (int (length buf)) = Inr (ps, ?n)" "?n \<le> length ps"
    "\<forall>j < ?n. good_packet (ps ! j) (chunk buf j) \<and>
       ptype (ps ! j) = (if Suc j = ?n then LAST_DATA else DATA)"
    using packetize_correct [OF pos refl] by blast
  let ?cs = "map (chunk buf) [0..<?n]"
  have all: "concat ?cs = buf"
  proof -
    have "length buf \<le> ?n * MAX_PAYLOAD_LENGTH"
      using pc by (cases ?n) (auto simp: MAX_PAYLOAD_LENGTH_def split: if_splits)
    then show ?thesis by (simp add: concat_chunks)
  qed
  have "list_all2 good_packet (take ?n ps) ?cs" using ps(2,3) by (simp add: list_all2_conv_all_nth)
  moreover have ne: "take ?n ps \<noteq> []" using pc(1,2) ps(2) pos by auto
  moreover have "\<forall>j < length (take ?n ps). ptype (take ?n ps ! j) = LAST_DATA \<longleftrightarrow> Suc j = length (take ?n ps)"
    using ps(2,3) by (simp add: LAST_DATA_def DATA_def)
  moreover have "length (hd ?cs) \<noteq> 1"
    using pc(1) assms(1) by (simp add: hd_map hd_upt chunk_def MAX_PAYLOAD_LENGTH_def)
  moreover have "\<forall>es \<in> set ?cs. es \<noteq> []" using chunk_nonempty by auto
  moreover have "length (take ?n ps) \<le> intact_count net" using assms(4) ps(2) by simp
  moreover have "3 * (length ([] :: u8 list) + length (concat ?cs)) + 1 < 2 ^ 31" using assms(2) all by simp
  ultimately obtain s where s: "transfer True net (take ?n ps) recv_init = Inr (s, True)" "recv_inv s buf"
    using transfer_spec [OF _ _ _ recv_init_inv _ _ _ assms(3), of "take ?n ps" ?cs] all by auto
  have "message_buffer s \<noteq> None"
    using s(2) assms(1) by (auto simp: recv_inv_def split: option.splits)
  note fin = finish_spec [OF s(2) this]
  from transfer_loops [OF s(1) ne] obtain sent rs where
    r: "send_loop (take ?n ps) rs = (sent, Some [])" "length sent \<le> length net"
    "receive_loop True (delivered sent net) recv_init = Inr (s, rs, Some [])"
    by blast
  have "rtp_send_message True \<lparr>mlength = int (length buf), mbuffer = buf\<rparr> rs = Inr (sent, Some [])"
    using ps(1) r(1) by (simp add: rtp_send_message_def)
  moreover have "rtp_receive_message True (delivered sent net) =
      Inr (Some (\<lparr>mlength = int (length buf) + 1, mbuffer = buf @ [0]\<rparr>, rs, []))"
    using r(3) fin by (simp add: rtp_receive_message_def)
  ultimately show ?thesis using r(2) by blast
qed

theorem message_arrives_witness:
  "\<exists>sent rs. rtp_send_message True \<lparr>mlength = 2, mbuffer = [72, 105]\<rparr> rs = Inr (sent, Some []) \<and>
    rtp_receive_message True (delivered sent [Some (zero_packet\<lparr>pchecksum := 1\<rparr>), None]) =
      Inr (Some (\<lparr>mlength = 3, mbuffer = [72, 105, 0]\<rparr>, rs, []))"
proof -
  have "damaged (zero_packet\<lparr>pchecksum := 1\<rparr>)"
    by (simp add: damaged_def zero_packet_def xsum_def)
  then have net: "\<forall>x \<in> set [Some (zero_packet\<lparr>pchecksum := 1\<rparr>), None]. \<forall>q. x = Some q \<longrightarrow> damaged q"
    by simp
  have "packet_count (length [72, 105 :: u8]) \<le>
      intact_count [Some (zero_packet\<lparr>pchecksum := 1\<rparr>), None]"
    by (simp add: packet_count_def MAX_PAYLOAD_LENGTH_def intact_count_def)
  from message_arrives [OF _ _ net this] show ?thesis by auto
qed

text \<open>
  A message of a single byte is not received: the receiver allocates its buffer only when the
  message outgrows the tracked length, which starts at 1, so the first byte of a one-byte first
  packet is copied to a NULL pointer.
\<close>

theorem one_byte_message_faults:
  "\<exists>p ps. packetize True [b] 1 = Inr (p # ps, 1) \<and> rtp_receive_message True (p # qs) = Inl NullDeref"
proof -
  have c: "packet_count 1 = 1" by (simp add: packet_count_def MAX_PAYLOAD_LENGTH_def)
  obtain ps where ps: "packetize True [b] (int 1) = Inr (ps, packet_count 1)" "packet_count 1 \<le> length ps"
    "\<forall>j < packet_count 1. good_packet (ps ! j) (chunk [b] j) \<and>
       ptype (ps ! j) = (if Suc j = packet_count 1 then LAST_DATA else DATA)"
    using packetize_correct [of 1 "[b]"] by auto
  then obtain p ps' where p: "ps = p # ps'" using c by (cases ps) auto
  have g: "good_packet p [b]" using ps(3) c p by (simp add: chunk_def MAX_PAYLOAD_LENGTH_def)
  then have l: "payload_length p = 1" "pchecksum p = xsum [b]" by (simp_all add: good_packet_def)
  have "receive_packet True p recv_init = Inl NullDeref"
    using good_checksum [OF g] good_slice [OF g] l
    by (simp add: receive_packet_def recv_init_def Let_def in_i32_def copy_in_def)
  then show ?thesis using ps(1) c p by (auto simp: rtp_receive_message_def)
qed

end
