(* ===== verification/Assembler.thy ===== *)
theory Assembler
  imports Interfaces CLib
begin

text \<open>
  The LC-2200 assembler of \<open>cs_2200/interupts/Assembly/assemble32.c\<close>: reading lines, the lexer,
  the symbol table, the two passes and the encoders. Error messages are I/O; what the code keeps
  of them is the count \<open>nerrors\<close>. A token is a delimiter (the code compares pointers to four static
  strings) or a fragment of the line. The \<open>unsigned\<close> word under construction is a \<open>32 word\<close>; a
  shift of the opcode into the sign bit wraps, as the machines the course used do.
\<close>

section \<open>Constants\<close>

definition MAXLINELEN :: nat where "MAXLINELEN = 1024"
definition MAXTOKENS :: nat where "MAXTOKENS = 64"

definition OFFSET_BITS :: nat where "OFFSET_BITS = 20"
definition OP_OFFSET :: nat where "OP_OFFSET = 28"
definition OFFSET_OFFSET :: nat where "OFFSET_OFFSET = 0"
definition X_OFFSET :: nat where "X_OFFSET = 24"
definition Y_OFFSET :: nat where "Y_OFFSET = 20"
definition Z_OFFSET :: nat where "Z_OFFSET = 0"

definition OP_ADDI :: int where "OP_ADDI = 2"

datatype instr_format = FmtR | FmtI | FmtII | FmtJ | FmtO | FmtS | FmtP | FmtM

definition instruction_table :: "(int \<times> string \<times> instr_format) list" where
  "instruction_table =
     [(0, ''add'', FmtR), (1, ''nand'', FmtR), (2, ''addi'', FmtII), (3, ''lw'', FmtI),
      (4, ''sw'', FmtI), (5, ''beq'', FmtII), (6, ''jalr'', FmtJ), (7, ''halt'', FmtO),
      (8, ''bonr'', FmtR), (9, ''bono'', FmtO), (10, ''ei'', FmtM), (11, ''di'', FmtM),
      (12, ''reti'', FmtM), (13, ''boni'', FmtII), (14, ''bonj'', FmtJ), (- 1, ''.word'', FmtP),
      (- 1, ''.fill'', FmtP), (- 1, ''la'', FmtP)]"

definition register_names :: "string list" where
  "register_names =
     [''$zero'', ''$at'', ''$v0'', ''$a0'', ''$a1'', ''$a2'', ''$a3'', ''$a4'', ''$s0'', ''$s1'',
      ''$s2'', ''$s3'', ''$k0'', ''$sp'', ''$fp'', ''$ra'']"

section \<open>Reading numbers: hextoi\<close>

definition is_upper_hex :: "char \<Rightarrow> bool" where
  "is_upper_hex ch \<longleftrightarrow> 65 \<le> char_code ch \<and> char_code ch \<le> 70"

definition is_lower_hex :: "char \<Rightarrow> bool" where
  "is_lower_hex ch \<longleftrightarrow> 97 \<le> char_code ch \<and> char_code ch \<le> 102"

fun hextoi_loop :: "int \<Rightarrow> string \<Rightarrow> int c" where
  "hextoi_loop n [] = Inr n"
| "hextoi_loop n (ch # cs) =
     (if is_digit ch \<or> is_upper_hex ch \<or> is_lower_hex ch
      then let d = (if is_digit ch then int (char_code ch) - 48
                    else if is_upper_hex ch then int (char_code ch) - 65 + 10
                    else int (char_code ch) - 97 + 10)
           in bindE (guardE SignedOverflow (in_i64 (n * 16 + d))) (\<lambda>_. hextoi_loop (n * 16 + d) cs)
      else Inr n)"

definition hextoi :: "string \<Rightarrow> int c" where
  "hextoi str = (case str of
     a # b # cs \<Rightarrow> if a = CHR ''0'' \<and> (b = CHR ''x'' \<or> b = CHR ''X'') then hextoi_loop 0 cs
                   else Inr (atoi str)
   | _ \<Rightarrow> Inr (atoi str))"

section \<open>Reading lines: getLine\<close>

fun getLine_loop :: "nat \<Rightarrow> string \<Rightarrow> string \<times> string" where
  "getLine_loop 0 input = ([], input)"
| "getLine_loop (Suc k) [] = ([], [])"
| "getLine_loop (Suc k) (ch # cs) =
     (if char_code ch = 10 then ([], cs)
      else case getLine_loop k cs of (l, rest) \<Rightarrow> (ch # l, rest))"

definition getLine :: "string \<Rightarrow> (string \<times> string) option" where
  "getLine input = (if input = [] then None else Some (getLine_loop (MAXLINELEN - 1) input))"

lemma getLine_loop_shorter:
  "input \<noteq> [] \<Longrightarrow> 0 < k \<Longrightarrow> length (snd (getLine_loop k input)) < length input"
proof (induction k input rule: getLine_loop.induct)
  case (3 k ch cs)
  then show ?case by (cases k; cases cs) (auto split: prod.splits)
qed simp_all

text \<open>The lines the \<open>while\<close> loops of the passes see, until \<open>getLine\<close> returns NULL.\<close>

function file_lines :: "string \<Rightarrow> string list" where
  "file_lines input = (case getLine input of None \<Rightarrow> [] | Some (l, rest) \<Rightarrow> l # file_lines rest)"
  by pat_completeness auto
termination
proof (relation "measure length", simp, goal_cases)
  case (1 input p l rest)
  then show ?case
    using getLine_loop_shorter [of input "MAXLINELEN - 1"]
    by (auto simp: getLine_def MAXLINELEN_def split: if_splits)
qed

declare file_lines.simps [simp del]

section \<open>The lexer\<close>

datatype token = Delim char | Word string

fun token_str :: "token \<Rightarrow> string" where
  "token_str (Delim ch) = [ch]"
| "token_str (Word w) = w"

definition is_whitespace :: "char \<Rightarrow> bool" where
  "is_whitespace ch \<longleftrightarrow> char_code ch = 32 \<or> char_code ch = 9"

definition is_rawdelimiter :: "char \<Rightarrow> bool" where
  "is_rawdelimiter ch \<longleftrightarrow> ch = CHR '':'' \<or> ch = CHR '','' \<or> ch = CHR ''('' \<or> ch = CHR '')''"

definition is_eol :: "char \<Rightarrow> bool" where
  "is_eol ch \<longleftrightarrow> char_code ch = 0 \<or> ch = CHR ''!'' \<or> ch = CHR ''#'' \<or> ch = CHR '';''"

definition is_fragment :: "char \<Rightarrow> bool" where
  "is_fragment ch \<longleftrightarrow> \<not> is_whitespace ch \<and> \<not> is_rawdelimiter ch"

text \<open>
  The splitting loop with \<open>k\<close> tokens left. A fragment is ended by the NUL the next iteration
  writes, so when the last token allowed is a fragment it runs to the end of the line.
\<close>

fun lex_loop :: "nat \<Rightarrow> string \<Rightarrow> token list" where
  "lex_loop 0 cs = []"
| "lex_loop (Suc k) cs = (case dropWhile is_whitespace cs of
     [] \<Rightarrow> []
   | ch # rest \<Rightarrow>
       if is_rawdelimiter ch then Delim ch # lex_loop k rest
       else if k = 0 then [Word (ch # rest)]
       else Word (takeWhile is_fragment (ch # rest)) # lex_loop k (dropWhile is_fragment (ch # rest)))"

definition lexer :: "string \<Rightarrow> token list" where
  "lexer input = lex_loop (MAXTOKENS - 1) (takeWhile (\<lambda>ch. \<not> is_eol ch) (take (MAXLINELEN - 1) input))"

definition is_delimiter :: "token \<Rightarrow> bool" where
  "is_delimiter t \<longleftrightarrow> (case t of Delim ch \<Rightarrow> True | Word w \<Rightarrow> False)"

section \<open>The symbol table\<close>

type_synonym symbol_table = "(string \<times> int) list"

fun symbol_lookup :: "symbol_table \<Rightarrow> string \<Rightarrow> int option" where
  "symbol_lookup [] name = None"
| "symbol_lookup ((n, v) # tab) name = (if n = name then Some v else symbol_lookup tab name)"

definition symbol_insert :: "string \<Rightarrow> int \<Rightarrow> symbol_table \<Rightarrow> symbol_table option" where
  "symbol_insert name v tab =
     (if symbol_lookup tab name \<noteq> None then None else Some ((name, v) # tab))"

section \<open>The first pass\<close>

definition has_label :: "token list \<Rightarrow> bool" where
  "has_label ts \<longleftrightarrow> 1 < length ts \<and> ts ! 1 = Delim CHR '':''"

definition skip_label :: "token list \<Rightarrow> token list" where
  "skip_label ts = (if has_label ts then drop 2 ts else ts)"

text \<open>The state of the pass: the program counter, the symbols, the number of errors.\<close>

record pass1 =
  pc1 :: int
  symbols :: symbol_table
  nerrors1 :: nat

definition first_pass_line :: "string \<Rightarrow> pass1 \<Rightarrow> pass1" where
  "first_pass_line ln st =
     (let ts = lexer ln
      in if ts = [] then st
         else if is_delimiter (hd ts) then st\<lparr>nerrors1 := nerrors1 st + 1\<rparr>
         else let st1 = (if has_label ts
                         then case symbol_insert (token_str (hd ts)) (pc1 st) (symbols st) of
                                None \<Rightarrow> st\<lparr>nerrors1 := nerrors1 st + 1\<rparr>
                              | Some tab \<Rightarrow> st\<lparr>symbols := tab\<rparr>
                         else st)
              in if skip_label ts \<noteq> [] then st1\<lparr>pc1 := pc1 st1 + 1\<rparr> else st1)"

fun first_pass_lines :: "string list \<Rightarrow> pass1 \<Rightarrow> pass1" where
  "first_pass_lines [] st = st"
| "first_pass_lines (ln # lns) st = first_pass_lines lns (first_pass_line ln st)"

definition first_pass :: "string \<Rightarrow> pass1" where
  "first_pass input = first_pass_lines (file_lines input) \<lparr>pc1 = 0, symbols = [], nerrors1 = 0\<rparr>"

section \<open>Checking and converting operands\<close>

fun lookup_in :: "(int \<times> string \<times> instr_format) list \<Rightarrow> string \<Rightarrow> (int \<times> instr_format) option" where
  "lookup_in [] mnem = None"
| "lookup_in ((op, m, f) # tab) mnem = (if m = mnem then Some (op, f) else lookup_in tab mnem)"

definition lookup_instruction :: "string \<Rightarrow> (int \<times> instr_format) option" where
  "lookup_instruction mnem = lookup_in instruction_table mnem"

definition is_decimal_char :: "char \<Rightarrow> bool" where
  "is_decimal_char ch \<longleftrightarrow> 48 \<le> char_code ch \<and> char_code ch \<le> 57"

definition is_octal_char :: "char \<Rightarrow> bool" where
  "is_octal_char ch \<longleftrightarrow> 48 \<le> char_code ch \<and> char_code ch \<le> 55"

definition is_hexadecimal_char :: "char \<Rightarrow> bool" where
  "is_hexadecimal_char ch \<longleftrightarrow> is_decimal_char ch \<or> is_upper_hex ch \<or> is_lower_hex ch"

definition is_numeric :: "string \<Rightarrow> bool c" where
  "is_numeric tk = bindE (guardE AssertFail (tk \<noteq> [])) (\<lambda>_.
     let t = (if hd tk = CHR ''-'' then tl tk else tk)
     in Inr (case t of
          [] \<Rightarrow> True
        | a # rest \<Rightarrow>
            if a = CHR ''0'' then
              (case rest of
                 [] \<Rightarrow> True
               | b # digits \<Rightarrow>
                   if b = CHR ''x'' \<or> b = CHR ''X''
                   then digits \<noteq> [] \<and> list_all is_hexadecimal_char digits
                   else list_all is_octal_char rest)
            else list_all is_decimal_char t))"

text \<open>The checks thread \<open>nerrors\<close>; \<open>check_length\<close> looks at one token more than it wants.\<close>

definition check_length :: "token list \<Rightarrow> nat \<Rightarrow> nat \<Rightarrow> bool \<times> nat" where
  "check_length ts n ne =
     (let nfound = min (length ts) (n + 1)
      in (nfound = n, if nfound \<noteq> n then ne + 1 else ne))"

fun regno_from :: "nat \<Rightarrow> string list \<Rightarrow> string \<Rightarrow> nat option" where
  "regno_from k [] tk = None"
| "regno_from k (r # rs) tk = (if tk = r then Some k else regno_from (Suc k) rs tk)"

definition token_to_regno :: "token \<Rightarrow> nat \<Rightarrow> int \<times> nat" where
  "token_to_regno t ne = (case regno_from 0 register_names (token_str t) of
     Some k \<Rightarrow> (int k, ne) | None \<Rightarrow> (0, ne + 1))"

definition check_delimiter :: "token \<Rightarrow> char \<Rightarrow> nat \<Rightarrow> nat" where
  "check_delimiter t d ne = (if t \<noteq> Delim d then ne + 1 else ne)"

definition check_offset :: "int \<Rightarrow> nat \<Rightarrow> bool \<times> nat" where
  "check_offset offset ne =
     (let range = 2 ^ (OFFSET_BITS - 1)
      in if offset < - range then (False, ne + 1)
         else if offset \<ge> range then (False, ne + 1)
         else (True, ne))"

definition token_to_number :: "symbol_table \<Rightarrow> token \<Rightarrow> nat \<Rightarrow> (int \<times> nat) c" where
  "token_to_number tab t ne = bindE (is_numeric (token_str t)) (\<lambda>num.
     if num then bindE (hextoi (token_str t)) (\<lambda>n. Inr (to_i32 n, ne))
     else case symbol_lookup tab (token_str t) of
            None \<Rightarrow> Inr (0, ne + 1)
          | Some v \<Rightarrow> Inr (v, ne))"

section \<open>The encoders\<close>

definition field :: "int \<Rightarrow> nat \<Rightarrow> u32" where
  "field x k = push_bit k (of_int x)"

definition offset_mask :: "u32" where
  "offset_mask = push_bit OFFSET_BITS 1 - 1"

definition construct_R :: "int \<Rightarrow> int \<Rightarrow> int \<Rightarrow> int \<Rightarrow> u32" where
  "construct_R op a b dst = field op OP_OFFSET OR field a Y_OFFSET OR field b Z_OFFSET OR field dst X_OFFSET"

definition construct_I :: "int \<Rightarrow> int \<Rightarrow> int \<Rightarrow> int \<Rightarrow> u32" where
  "construct_I op a b offset = field op OP_OFFSET OR field a Y_OFFSET OR field b X_OFFSET OR
     push_bit OFFSET_OFFSET (of_int offset AND offset_mask)"

definition construct_J :: "int \<Rightarrow> int \<Rightarrow> int \<Rightarrow> u32" where
  "construct_J op a b = field op OP_OFFSET OR field a X_OFFSET OR field b Y_OFFSET"

definition construct_OM :: "int \<Rightarrow> u32" where
  "construct_OM op = field op OP_OFFSET"

definition construct_S :: "int \<Rightarrow> int \<Rightarrow> int \<Rightarrow> u32" where
  "construct_S op a b = field op OP_OFFSET OR field a X_OFFSET OR field b Y_OFFSET OR
     push_bit OFFSET_OFFSET ((- 1) AND offset_mask)"

section \<open>The second pass\<close>

text \<open>
  The cases of the \<open>switch\<close> on the format. \<open>ts\<close> are the tokens after the mnemonic; the result is
  the new \<open>machinecode\<close>, or \<open>None\<close> where the code leaves the \<open>switch\<close> without assigning it, and
  the error count.
\<close>

definition encode_R :: "int \<Rightarrow> token list \<Rightarrow> nat \<Rightarrow> u32 option \<times> nat" where
  "encode_R op ts ne = (case check_length ts 5 ne of (ok, ne) \<Rightarrow>
     if \<not> ok then (None, ne)
     else case token_to_regno (ts ! 0) ne of (dst, ne) \<Rightarrow>
          let ne = check_delimiter (ts ! 1) (CHR '','') ne
          in case token_to_regno (ts ! 2) ne of (a, ne) \<Rightarrow>
          let ne = check_delimiter (ts ! 3) (CHR '','') ne
          in case token_to_regno (ts ! 4) ne of (b, ne) \<Rightarrow> (Some (construct_R op a b dst), ne))"

definition encode_I :: "symbol_table \<Rightarrow> int \<Rightarrow> token list \<Rightarrow> nat \<Rightarrow> (u32 option \<times> nat) c" where
  "encode_I tab op ts ne = (case check_length ts 6 ne of (ok, ne) \<Rightarrow>
     if \<not> ok then Inr (None, ne)
     else case token_to_regno (ts ! 0) ne of (b, ne) \<Rightarrow>
          let ne = check_delimiter (ts ! 1) (CHR '','') ne
          in bindE (token_to_number tab (ts ! 2) ne) (\<lambda>(offset, ne).
          let ne = snd (check_offset offset ne);
              ne = check_delimiter (ts ! 3) (CHR ''('') ne
          in case token_to_regno (ts ! 4) ne of (a, ne) \<Rightarrow>
          let ne = check_delimiter (ts ! 5) (CHR '')'') ne
          in Inr (Some (construct_I op a b offset), ne)))"

definition encode_II ::
  "symbol_table \<Rightarrow> int \<Rightarrow> int \<Rightarrow> string \<Rightarrow> token list \<Rightarrow> nat \<Rightarrow> (u32 option \<times> nat) c" where
  "encode_II tab pc op mnem ts ne = (case check_length ts 5 ne of (ok, ne) \<Rightarrow>
     if \<not> ok then Inr (None, ne)
     else case token_to_regno (ts ! 0) ne of (b, ne) \<Rightarrow>
          let ne = check_delimiter (ts ! 1) (CHR '','') ne
          in case token_to_regno (ts ! 2) ne of (a, ne) \<Rightarrow>
          let ne = check_delimiter (ts ! 3) (CHR '','') ne
          in bindE (token_to_number tab (ts ! 4) ne) (\<lambda>(offset, ne).
             bindE (if mnem = ''beq''
                    then bindE (guardE SignedOverflow (in_i32 (offset - (pc + 1)))) (\<lambda>_.
                         Inr (offset - (pc + 1)))
                    else Inr offset) (\<lambda>offset.
             let ne = snd (check_offset offset ne)
             in Inr (Some (construct_I op a b offset), ne))))"

definition encode_J :: "int \<Rightarrow> token list \<Rightarrow> nat \<Rightarrow> u32 option \<times> nat" where
  "encode_J op ts ne = (case check_length ts 3 ne of (ok, ne) \<Rightarrow>
     if \<not> ok then (None, ne)
     else case token_to_regno (ts ! 0) ne of (a, ne) \<Rightarrow>
          let ne = check_delimiter (ts ! 1) (CHR '','') ne
          in case token_to_regno (ts ! 2) ne of (b, ne) \<Rightarrow> (Some (construct_J op a b), ne))"

definition encode_OM :: "int \<Rightarrow> token list \<Rightarrow> nat \<Rightarrow> u32 option \<times> nat" where
  "encode_OM op ts ne = (case check_length ts 0 ne of (ok, ne) \<Rightarrow>
     if \<not> ok then (None, ne) else (Some (construct_OM op), ne))"

text \<open>The \<open>.word\<close> code also runs, with its own length check, after a failed check of \<open>la\<close>.\<close>

definition encode_word :: "symbol_table \<Rightarrow> token list \<Rightarrow> nat \<Rightarrow> (u32 option \<times> nat) c" where
  "encode_word tab ts ne = (case check_length ts 1 ne of (ok, ne) \<Rightarrow>
     if \<not> ok then Inr (None, ne)
     else bindE (token_to_number tab (ts ! 0) ne) (\<lambda>(n, ne). Inr (Some (of_int n), ne)))"

definition encode_P :: "symbol_table \<Rightarrow> string \<Rightarrow> token list \<Rightarrow> nat \<Rightarrow> (u32 option \<times> nat) c" where
  "encode_P tab mnem ts ne =
     (if mnem = ''la''
      then case check_length ts 3 ne of (ok, ne) \<Rightarrow>
           if ok
           then case token_to_regno (ts ! 0) ne of (b, ne) \<Rightarrow>
                let ne = check_delimiter (ts ! 1) (CHR '','') ne
                in bindE (token_to_number tab (ts ! 2) ne) (\<lambda>(offset, ne).
                   let ne = snd (check_offset offset ne)
                   in Inr (Some (construct_I OP_ADDI 0 b offset), ne))
           else encode_word tab ts ne
      else encode_word tab ts ne)"

definition encode_S :: "int \<Rightarrow> token list \<Rightarrow> nat \<Rightarrow> u32 option \<times> nat" where
  "encode_S op ts ne = (case check_length ts 3 ne of (ok, ne) \<Rightarrow>
     if \<not> ok then (None, ne)
     else case token_to_regno (ts ! 0) ne of (a, ne) \<Rightarrow>
          let ne = check_delimiter (ts ! 1) (CHR '','') ne
          in case token_to_regno (ts ! 2) ne of (b, ne) \<Rightarrow> (Some (construct_S op a b), ne))"

definition encode ::
  "symbol_table \<Rightarrow> int \<Rightarrow> string \<Rightarrow> token list \<Rightarrow> nat \<Rightarrow> (u32 option \<times> nat) c" where
  "encode tab pc mnem ts ne = (case lookup_instruction mnem of
     None \<Rightarrow> Inr (Some 0, ne + 1)
   | Some (op, f) \<Rightarrow> (case f of
       FmtR \<Rightarrow> Inr (encode_R op ts ne)
     | FmtI \<Rightarrow> encode_I tab op ts ne
     | FmtII \<Rightarrow> encode_II tab pc op mnem ts ne
     | FmtJ \<Rightarrow> Inr (encode_J op ts ne)
     | FmtO \<Rightarrow> Inr (encode_OM op ts ne)
     | FmtM \<Rightarrow> Inr (encode_OM op ts ne)
     | FmtP \<Rightarrow> encode_P tab mnem ts ne
     | FmtS \<Rightarrow> Inr (encode_S op ts ne)))"

text \<open>The state of the pass; \<open>emitted\<close> are the words printed so far, in order.\<close>

record pass2 =
  pc2 :: int
  machinecode :: u32
  nerrors2 :: nat
  emitted :: "u32 list"

definition second_pass_line :: "symbol_table \<Rightarrow> string \<Rightarrow> pass2 \<Rightarrow> pass2 c" where
  "second_pass_line tab ln st =
     (let ts = lexer ln
      in if ts = [] then Inr st
         else if is_delimiter (hd ts) then Inr st
         else let ts = skip_label ts
              in if ts = [] then Inr st
                 else if is_delimiter (hd ts) then Inr (st\<lparr>nerrors2 := nerrors2 st + 1\<rparr>)
                 else bindE (encode tab (pc2 st) (token_str (hd ts)) (tl ts) (nerrors2 st)) (\<lambda>(w, ne).
                      let code = (case w of None \<Rightarrow> machinecode st | Some w \<Rightarrow> w)
                      in Inr (st\<lparr>machinecode := code, nerrors2 := ne, emitted := emitted st @ [code],
                                 pc2 := pc2 st + 1\<rparr>)))"

fun second_pass_lines :: "symbol_table \<Rightarrow> string list \<Rightarrow> pass2 \<Rightarrow> pass2 c" where
  "second_pass_lines tab [] st = Inr st"
| "second_pass_lines tab (ln # lns) st =
     bindE (second_pass_line tab ln st) (second_pass_lines tab lns)"

text \<open>\<open>machinecode\<close> is not initialised: its first value is the argument \<open>junk\<close>.\<close>

definition second_pass :: "u32 \<Rightarrow> symbol_table \<Rightarrow> string \<Rightarrow> pass2 c" where
  "second_pass junk tab input = second_pass_lines tab (file_lines input)
     \<lparr>pc2 = 0, machinecode = junk, nerrors2 = 0, emitted = []\<rparr>"

text \<open>The text of a word in the output file: \<open>printf\<close> with \<open>%08X\<close> and a space.\<close>

definition hex_digit :: "nat \<Rightarrow> char" where
  "hex_digit d = (if d < 10 then char_of (48 + d) else char_of (55 + d))"

definition hex8 :: "u32 \<Rightarrow> string" where
  "hex8 w = map (\<lambda>i. hex_digit (unat (drop_bit (4 * i) w) mod 16)) [7, 6, 5, 4, 3, 2, 1, 0]"

section \<open>The main program\<close>

definition OUTEXTENSION :: string where "OUTEXTENSION = ''.lc''"

text \<open>
  \<open>strrchr\<close> cuts the name at its last dot, wherever it is; the buffer has \<open>MAXLINELEN\<close> bytes.
\<close>

definition construct_output_filename :: "string \<Rightarrow> string c" where
  "construct_output_filename inname =
     (let base = (if CHR ''.'' \<in> set inname
                  then rev (tl (dropWhile (\<lambda>ch. ch \<noteq> CHR ''.'') (rev inname))) else inname);
          outname = base @ OUTEXTENSION
      in bindE (guardE OutOfBounds (length inname < MAXLINELEN \<and> length outname < MAXLINELEN)) (\<lambda>_.
         Inr outname))"

text \<open>
  The exit status, and the name and text of the file written, if any. \<open>can_write\<close> is the outcome
  of opening it; a file that cannot be read is \<open>None\<close>.
\<close>

definition assemble :: "u32 \<Rightarrow> (string \<Rightarrow> bool) \<Rightarrow> string \<Rightarrow> string option \<Rightarrow> (nat \<times> (string \<times> string) option) c" where
  "assemble junk can_write name file = (case file of
     None \<Rightarrow> Inr (1, None)
   | Some input \<Rightarrow>
       let p = first_pass input
       in if nerrors1 p \<noteq> 0 then Inr (1, None)
          else bindE (construct_output_filename name) (\<lambda>out.
               if \<not> can_write out then Inr (1, None)
               else bindE (second_pass junk (symbols p) input) (\<lambda>q.
                    Inr (if nerrors2 q \<noteq> 0 then 1 else 0,
                         Some (out, concat (map (\<lambda>w. hex8 w @ '' '') (emitted q)))))))"

end
