(* ===== verification/AssemblerProofs.thy ===== *)
theory AssemblerProofs
  imports Assembler
begin

text \<open>
  Correctness of the assembler: reading encoded fields back, agreement of the two passes on
  addresses, branch targets, the round trip of hexadecimal numbers, and what the checks accept.
\<close>

text \<open>Reading the fields of an instruction word back.\<close>

definition op_of :: "u32 \<Rightarrow> int" where "op_of w = uint (drop_bit OP_OFFSET w)"
definition x_of :: "u32 \<Rightarrow> int" where "x_of w = uint (take_bit 4 (drop_bit X_OFFSET w))"
definition y_of :: "u32 \<Rightarrow> int" where "y_of w = uint (take_bit 4 (drop_bit Y_OFFSET w))"
definition z_of :: "u32 \<Rightarrow> int" where "z_of w = uint (take_bit 4 (drop_bit Z_OFFSET w))"
definition offset_of :: "u32 \<Rightarrow> int" where "offset_of w = sint (ucast w :: 20 word)"

definition nibble :: "int \<Rightarrow> bool" where
  "nibble x \<longleftrightarrow> 0 \<le> x \<and> x < 16"

lemma nibble_bit: "nibble x \<Longrightarrow> bit x n \<Longrightarrow> n < 4"
proof -
  assume "nibble x" "bit x n"
  then have "bit (take_bit 4 x) n" by (simp add: nibble_def take_bit_int_eq_self)
  then show "n < 4" by (simp add: bit_take_bit_iff)
qed

lemmas encoder_simps = construct_R_def construct_I_def construct_J_def construct_OM_def
  construct_S_def field_def OP_OFFSET_def OFFSET_OFFSET_def X_OFFSET_def
  Y_OFFSET_def Z_OFFSET_def

lemma uint_nibble: "nibble x \<Longrightarrow> w = of_int x \<Longrightarrow> uint (w :: u32) = x"
  by (simp add: nibble_def uint_word_of_int)

lemma offset_mask_bit: "bit offset_mask n \<longleftrightarrow> n < 20"
proof -
  have "offset_mask = mask 20" by (simp add: offset_mask_def OFFSET_BITS_def mask_eq_exp_minus_1)
  have "bit (mask 20 :: u32) n \<longleftrightarrow> n < 20" by (auto simp: bit_mask_iff)
  with \<open>offset_mask = mask 20\<close> show ?thesis by (simp only:)
qed

lemma field_bit: "nibble x \<Longrightarrow> bit (field x k) n \<longleftrightarrow> k \<le> n \<and> n < 32 \<and> n < k + 4 \<and> bit x (n - k)"
  by (auto simp: field_def bit_simps dest: nibble_bit)

lemma fields_word:
  assumes "nibble op" "nibble x" "nibble y" "\<And>n. bit rest n \<Longrightarrow> n < 20"
  shows "op_of (field op 28 OR field x 24 OR field y 20 OR rest) = op"
    and "x_of (field op 28 OR field x 24 OR field y 20 OR rest) = x"
    and "y_of (field op 28 OR field x 24 OR field y 20 OR rest) = y"
proof -
  have r: "20 \<le> n \<Longrightarrow> \<not> bit rest n" for n using assms(4) [of n] by force
  show "op_of (field op 28 OR field x 24 OR field y 20 OR rest) = op"
    unfolding op_of_def
    by (rule uint_nibble [OF assms(1)], rule bit_word_eqI)
       (use assms(1-3) r in \<open>auto simp: bit_simps OP_OFFSET_def field_bit dest: nibble_bit\<close>)
  show "x_of (field op 28 OR field x 24 OR field y 20 OR rest) = x"
    unfolding x_of_def
    by (rule uint_nibble [OF assms(2)], rule bit_word_eqI)
       (use assms(1-3) r in \<open>auto simp: bit_simps X_OFFSET_def field_bit dest: nibble_bit\<close>)
  show "y_of (field op 28 OR field x 24 OR field y 20 OR rest) = y"
    unfolding y_of_def
    by (rule uint_nibble [OF assms(3)], rule bit_word_eqI)
       (use assms(1-3) r in \<open>auto simp: bit_simps Y_OFFSET_def field_bit dest: nibble_bit\<close>)
qed

lemma I_canonical:
  "construct_I op a b k = field op 28 OR field b 24 OR field a 20 OR (of_int k AND offset_mask)"
  by (simp add: construct_I_def OP_OFFSET_def X_OFFSET_def Y_OFFSET_def OFFSET_OFFSET_def or.assoc or.left_commute)

lemma R_canonical:
  "construct_R op a b dst = field op 28 OR field dst 24 OR field a 20 OR field b 0"
  by (simp add: construct_R_def OP_OFFSET_def X_OFFSET_def Y_OFFSET_def Z_OFFSET_def or.assoc or.left_commute or.commute)

lemma J_canonical:
  "construct_J op a b = field op 28 OR field a 24 OR field b 20 OR 0"
  by (simp add: construct_J_def OP_OFFSET_def X_OFFSET_def Y_OFFSET_def or.assoc)

lemma offset_of_I:
  assumes "nibble op" "nibble a" "nibble b" "- (2 ^ 19) \<le> k" "k < 2 ^ 19"
  shows "offset_of (construct_I op a b k) = k"
proof -
  have "(ucast (construct_I op a b k) :: 20 word) = of_int k"
    by (rule bit_word_eqI) (use assms(1-3) in \<open>auto simp: I_canonical bit_simps field_bit offset_mask_bit\<close>)
  then show ?thesis
    using assms(4,5) by (simp add: offset_of_def sint_sbintrunc' signed_take_bit_int_eq_self)
qed

lemma z_of_R:
  assumes "nibble op" "nibble a" "nibble b" "nibble dst"
  shows "z_of (construct_R op a b dst) = b"
    unfolding z_of_def
    by (rule uint_nibble [OF assms(3)], rule bit_word_eqI)
       (use assms in \<open>auto simp: R_canonical bit_simps Z_OFFSET_def field_bit dest: nibble_bit\<close>)


lemma encoder_fields:
  assumes "nibble op" "nibble a" "nibble b" "nibble dst" "- (2 ^ 19) \<le> k" "k < 2 ^ 19"
  shows "op_of (construct_I op a b k) = op" "y_of (construct_I op a b k) = a"
    "x_of (construct_I op a b k) = b" "offset_of (construct_I op a b k) = k"
    "op_of (construct_R op a b dst) = op" "y_of (construct_R op a b dst) = a"
    "z_of (construct_R op a b dst) = b" "x_of (construct_R op a b dst) = dst"
    "op_of (construct_J op a b) = op" "x_of (construct_J op a b) = a" "y_of (construct_J op a b) = b"
    "op_of (construct_OM op) = op"
proof -
  have i: "bit (of_int k AND offset_mask) n \<Longrightarrow> n < 20" for n
    by (simp add: bit_and_iff offset_mask_bit)
  have r: "bit (field b 0) n \<Longrightarrow> n < 20" for n
    using assms(3) by (simp add: field_bit)
  show "op_of (construct_I op a b k) = op" "y_of (construct_I op a b k) = a"
    "x_of (construct_I op a b k) = b"
    unfolding I_canonical using fields_word [OF assms(1,3,2) i] by simp_all
  show "offset_of (construct_I op a b k) = k"
    by (rule offset_of_I [OF assms(1-3,5,6)])
  show "op_of (construct_R op a b dst) = op" "y_of (construct_R op a b dst) = a"
    "x_of (construct_R op a b dst) = dst"
    unfolding R_canonical using fields_word [OF assms(1,4,2) r] by simp_all
  show "z_of (construct_R op a b dst) = b"
    by (rule z_of_R [OF assms(1-4)])
  show "op_of (construct_J op a b) = op" "x_of (construct_J op a b) = a" "y_of (construct_J op a b) = b"
    unfolding J_canonical using fields_word [OF assms(1-3), of 0] by simp_all
  have z: "nibble 0" by (simp add: nibble_def)
  have "construct_OM op = field op 28 OR field 0 24 OR field 0 20 OR 0"
    by (simp add: construct_OM_def OP_OFFSET_def field_def)
  then show "op_of (construct_OM op) = op"
    using fields_word(1) [OF assms(1) z z, of 0] by simp
qed

text \<open>
  C10. The encoders and the machine agree on the layout of a word: reading the fields of an
  encoded instruction back gives the opcode, the registers and, for the formats with an offset,
  the signed 20-bit offset.
\<close>

theorem encoder_roundtrip:
  assumes "nibble op" "nibble a" "nibble b" "nibble dst" "- (2 ^ 19) \<le> k" "k < 2 ^ 19"
  shows "(let w = construct_I op a b k in (op_of w, y_of w, x_of w, offset_of w) = (op, a, b, k)) \<and>
    (let w = construct_R op a b dst in (op_of w, y_of w, z_of w, x_of w) = (op, a, b, dst)) \<and>
    (let w = construct_J op a b in (op_of w, x_of w, y_of w) = (op, a, b)) \<and> op_of (construct_OM op) = op"
  using encoder_fields [OF assms] by simp

theorem encoder_roundtrip_witness:
  "offset_of (construct_I 3 13 1 (- 5)) = - 5 \<and> op_of (construct_R 1 2 3 4) = 1"
  using encoder_roundtrip [of 3 13 1 0 "- 5"] encoder_roundtrip [of 1 2 3 4 0]
  by (simp add: nibble_def Let_def)

section \<open>The two passes agree\<close>

text \<open>The number of words a line takes: what both passes count.\<close>

definition words_of :: "string \<Rightarrow> nat" where
  "words_of ln = (let ts = lexer ln
     in if ts = [] \<or> is_delimiter (hd ts) \<or> skip_label ts = [] then 0 else 1)"

lemma first_pass_line_pc: "pc1 (first_pass_line ln st) = pc1 st + int (words_of ln)"
  by (auto simp: first_pass_line_def words_of_def Let_def split: option.splits)

lemma first_pass_lines_pc:
  "pc1 (first_pass_lines lns st) = pc1 st + int (sum_list (map words_of lns))"
  by (induction lns arbitrary: st) (simp_all add: first_pass_line_pc)

lemma first_pass_line_errors: "nerrors1 st \<le> nerrors1 (first_pass_line ln st)"
  by (auto simp: first_pass_line_def Let_def split: option.splits)

lemma first_pass_lines_errors: "nerrors1 st \<le> nerrors1 (first_pass_lines lns st)"
  by (induction lns arbitrary: st) (auto intro: order_trans first_pass_line_errors)

lemma symbol_insert_lookup:
  "symbol_insert n v tab = Some tab' \<Longrightarrow> symbol_lookup tab' m = (if m = n then Some v else symbol_lookup tab m)"
  by (auto simp: symbol_insert_def split: if_splits)

lemma symbol_insert_old:
  "symbol_insert n v tab = Some tab' \<Longrightarrow> symbol_lookup tab m = Some u \<Longrightarrow> symbol_lookup tab' m = Some u"
  by (auto simp: symbol_insert_def split: if_splits)

lemma first_pass_line_keeps:
  "symbol_lookup (symbols st) m = Some u \<Longrightarrow> symbol_lookup (symbols (first_pass_line ln st)) m = Some u"
  by (auto simp: first_pass_line_def Let_def symbol_insert_old split: option.splits)

lemma first_pass_lines_keeps:
  "symbol_lookup (symbols st) m = Some u \<Longrightarrow> symbol_lookup (symbols (first_pass_lines lns st)) m = Some u"
  by (induction lns arbitrary: st) (auto intro: first_pass_line_keeps)

lemma first_pass_lines_append:
  "first_pass_lines (xs @ ys) st = first_pass_lines ys (first_pass_lines xs st)"
  by (induction xs arbitrary: st) simp_all

lemma first_pass_line_label:
  assumes "lexer ln = Word name # Delim CHR '':'' # rest" "nerrors1 (first_pass_line ln st) = 0"
  shows "symbol_lookup (symbols (first_pass_line ln st)) name = Some (pc1 st)"
proof -
  have h: "has_label (lexer ln)" using assms(1) by (simp add: has_label_def)
  show ?thesis
  proof (cases "symbol_insert name (pc1 st) (symbols st)")
    case None
    with assms h show ?thesis
      by (simp add: Let_def first_pass_line_def is_delimiter_def split: if_splits)
  next
    case (Some tab)
    with assms h show ?thesis
      by (simp add: Let_def first_pass_line_def is_delimiter_def symbol_insert_lookup [OF Some])
  qed
qed

text \<open>A duplicate label is an error of the first pass.\<close>

lemma first_pass_line_duplicate:
  assumes "lexer ln = Word name # Delim CHR '':'' # rest" "symbol_lookup (symbols st) name = Some v"
  shows "nerrors1 (first_pass_line ln st) = nerrors1 st + 1"
  using assms by (simp add: Let_def first_pass_line_def is_delimiter_def has_label_def symbol_insert_def)

section \<open>Error counts of the second pass\<close>

lemma check_length_ge: "check_length ts n ne = (ok, ne') \<Longrightarrow> ne \<le> ne'"
  by (auto simp: check_length_def Let_def)

lemma token_to_regno_ge: "token_to_regno t ne = (k, ne') \<Longrightarrow> ne \<le> ne'"
  by (auto simp: token_to_regno_def split: option.splits)

lemma check_delimiter_add: "check_delimiter t d ne = ne + of_bool (t \<noteq> Delim d)"
  by (simp add: check_delimiter_def)

lemma check_offset_add:
  "snd (check_offset k ne) = ne + of_bool (\<not> (- (2 ^ 19) \<le> k \<and> k < 2 ^ 19))"
  by (auto simp: check_offset_def Let_def OFFSET_BITS_def)

lemma token_to_number_ge: "token_to_number tab t ne = Inr (k, ne') \<Longrightarrow> ne \<le> ne'"
  by (auto simp: token_to_number_def split: if_splits option.splits)

lemma encode_R_ge: "encode_R op ts ne = (w, ne') \<Longrightarrow> ne \<le> ne'"
  by (auto simp: encode_R_def check_delimiter_add split: prod.splits if_splits
      dest!: check_length_ge token_to_regno_ge)

lemma encode_I_ge: "encode_I tab op ts ne = Inr (w, ne') \<Longrightarrow> ne \<le> ne'"
  by (auto simp: encode_I_def check_delimiter_add check_offset_add split: prod.splits if_splits
      dest!: check_length_ge token_to_regno_ge token_to_number_ge)

lemma encode_II_ge: "encode_II tab pc op m ts ne = Inr (w, ne') \<Longrightarrow> ne \<le> ne'"
  by (auto simp: encode_II_def check_delimiter_add check_offset_add split: prod.splits if_splits
      dest!: check_length_ge token_to_regno_ge token_to_number_ge)

lemma encode_J_ge: "encode_J op ts ne = (w, ne') \<Longrightarrow> ne \<le> ne'"
  by (auto simp: encode_J_def check_delimiter_add split: prod.splits if_splits
      dest!: check_length_ge token_to_regno_ge)

lemma encode_OM_ge: "encode_OM op ts ne = (w, ne') \<Longrightarrow> ne \<le> ne'"
  by (auto simp: encode_OM_def split: prod.splits if_splits dest!: check_length_ge)

lemma encode_S_ge: "encode_S op ts ne = (w, ne') \<Longrightarrow> ne \<le> ne'"
  by (auto simp: encode_S_def check_delimiter_add split: prod.splits if_splits
      dest!: check_length_ge token_to_regno_ge)

lemma encode_word_ge: "encode_word tab ts ne = Inr (w, ne') \<Longrightarrow> ne \<le> ne'"
  by (auto simp: encode_word_def split: prod.splits if_splits
      dest!: check_length_ge token_to_number_ge)

lemma encode_P_ge: "encode_P tab m ts ne = Inr (w, ne') \<Longrightarrow> ne \<le> ne'"
  by (auto simp: encode_P_def check_delimiter_add check_offset_add split: prod.splits if_splits
      dest!: check_length_ge token_to_regno_ge token_to_number_ge encode_word_ge)

lemma encode_ge: "encode tab pc m ts ne = Inr (w, ne') \<Longrightarrow> ne \<le> ne'"
  by (auto simp: encode_def split: option.splits prod.splits instr_format.splits
      dest!: encode_R_ge encode_I_ge encode_II_ge encode_J_ge encode_OM_ge encode_S_ge encode_P_ge)

text \<open>A line of the second pass, without faults.\<close>

lemma second_pass_line_cases:
  assumes "second_pass_line tab ln st = Inr st'"
  shows "nerrors2 st \<le> nerrors2 st' \<and>
    (nerrors2 st' = nerrors2 st \<longrightarrow>
      pc2 st' = pc2 st + int (words_of ln) \<and>
      (\<exists>ws. emitted st' = emitted st @ ws \<and> length ws = words_of ln))"
proof -
  let ?ts = "lexer ln" let ?us = "skip_label ?ts"
  show ?thesis
  proof (cases "?ts = [] \<or> is_delimiter (hd ?ts) \<or> ?us = []")
    case True
    then have "st' = st" "words_of ln = 0"
      using assms by (auto simp: second_pass_line_def words_of_def Let_def split: if_splits)
    then show ?thesis by simp
  next
    case False
    then have w: "words_of ln = 1" by (simp add: words_of_def Let_def)
    show ?thesis
    proof (cases "is_delimiter (hd ?us)")
      case True
      with assms False have "st' = st\<lparr>nerrors2 := nerrors2 st + 1\<rparr>"
        by (simp add: second_pass_line_def Let_def)
      then show ?thesis by simp
    next
      case nd: False
      with assms False obtain x ne where
        "encode tab (pc2 st) (token_str (hd ?us)) (tl ?us) (nerrors2 st) = Inr (x, ne)"
        and st': "st' = (let code = (case x of None \<Rightarrow> machinecode st | Some w \<Rightarrow> w) in
           st\<lparr>machinecode := code, nerrors2 := ne, emitted := emitted st @ [code], pc2 := pc2 st + 1\<rparr>)"
        by (auto simp: second_pass_line_def Let_def)
      then have "nerrors2 st \<le> ne" by (intro encode_ge)
      with st' w show ?thesis by (simp add: Let_def)
    qed
  qed
qed

lemma second_pass_lines_cases:
  assumes "second_pass_lines tab lns st = Inr st'"
  shows "nerrors2 st \<le> nerrors2 st' \<and>
    (nerrors2 st' = nerrors2 st \<longrightarrow>
      pc2 st' = pc2 st + int (sum_list (map words_of lns)) \<and>
      (\<exists>ws. emitted st' = emitted st @ ws \<and> length ws = sum_list (map words_of lns)))"
  using assms
proof (induction lns arbitrary: st)
  case Nil
  then show ?case by simp
next
  case (Cons ln lns)
  then obtain s where s: "second_pass_line tab ln st = Inr s" "second_pass_lines tab lns s = Inr st'"
    by auto
  from second_pass_line_cases [OF s(1)] Cons.IH [OF s(2)] show ?case
    by (auto simp: algebra_simps)
qed

lemma second_pass_lines_append:
  "second_pass_lines tab (xs @ ys) st = bindE (second_pass_lines tab xs st) (second_pass_lines tab ys)"
  by (induction xs arbitrary: st) (auto simp: bindE_assoc intro!: bindE_cong)


text \<open>
  C9. Labels are addresses. When both passes end without an error, a label declared on some
  line stands for the number of words the second pass emits before that line, so it indexes the
  emitted program; and the whole program has as many words as the first pass counted.
\<close>

theorem labels_are_addresses:
  assumes ok1: "nerrors1 (first_pass input) = 0"
    and run: "second_pass junk (symbols (first_pass input)) input = Inr q"
    and ok2: "nerrors2 q = 0"
    and lines: "file_lines input = pre @ ln # post"
    and label: "lexer ln = Word name # Delim CHR '':'' # rest"
  shows "\<exists>q0 later. second_pass_lines (symbols (first_pass input)) pre
            \<lparr>pc2 = 0, machinecode = junk, nerrors2 = 0, emitted = []\<rparr> = Inr q0 \<and>
          emitted q = emitted q0 @ later \<and>
          symbol_lookup (symbols (first_pass input)) name = Some (int (length (emitted q0))) \<and>
          pc1 (first_pass input) = int (length (emitted q))"
proof -
  let ?p0 = "\<lparr>pc1 = 0, symbols = [], nerrors1 = 0\<rparr>"
  let ?q0 = "\<lparr>pc2 = 0, machinecode = junk, nerrors2 = 0, emitted = []\<rparr>"
  let ?tab = "symbols (first_pass input)"
  let ?mid = "first_pass_lines pre ?p0"
  have fp: "first_pass input = first_pass_lines post (first_pass_line ln ?mid)"
    by (simp add: first_pass_def lines first_pass_lines_append)
  then have "nerrors1 (first_pass_line ln ?mid) = 0"
    using ok1 first_pass_lines_errors [of "first_pass_line ln ?mid" post] by simp
  from first_pass_line_label [OF label this]
  have sym: "symbol_lookup ?tab name = Some (pc1 ?mid)"
    unfolding fp by (rule first_pass_lines_keeps)
  from run obtain q0 where q0: "second_pass_lines ?tab pre ?q0 = Inr q0"
    and later: "second_pass_lines ?tab (ln # post) q0 = Inr q"
    unfolding second_pass_def lines second_pass_lines_append by auto
  from second_pass_lines_cases [OF later] ok2 have zero: "nerrors2 q0 = 0" by simp
  from second_pass_lines_cases [OF q0] zero
  have len: "length (emitted q0) = sum_list (map words_of pre)" by auto
  from second_pass_lines_cases [OF later] ok2 zero
  obtain ws where ws: "emitted q = emitted q0 @ ws"
    "length ws = sum_list (map words_of (ln # post))" by auto
  have "pc1 (first_pass input) = int (sum_list (map words_of (file_lines input)))"
    by (simp add: first_pass_def first_pass_lines_pc)
  then have "pc1 (first_pass input) = int (length (emitted q))"
    using ws len by (simp add: lines)
  moreover have "pc1 ?mid = int (length (emitted q0))"
    by (simp add: first_pass_lines_pc len)
  ultimately show ?thesis using q0 ws sym by auto
qed

text \<open>A program that exercises the passes: the instances below are of this source.\<close>

definition ex_src :: string where "ex_src = ''halt'' @ [CHR 0x0A] @ ''a:halt''"

lemma ex_src_lines: "file_lines ex_src = [''halt'', ''a:halt'']"
  by code_simp

lemma ex_src_pass1: "first_pass ex_src = \<lparr>pc1 = 2, symbols = [(''a'', 1)], nerrors1 = 0\<rparr>"
  by code_simp

lemma ex_src_tokens:
  "lexer ''halt'' = [Word ''halt'']"
  "lexer ''a:halt'' = [Word ''a'', Delim CHR '':'', Word ''halt'']"
  by code_simp+

lemma lookup_examples:
  "lookup_instruction ''halt'' = Some (7, FmtO)" "lookup_instruction ''beq'' = Some (5, FmtII)"
  "lookup_instruction ''add'' = Some (0, FmtR)"
  by code_simp+

lemma ex_src_pass2:
  "second_pass 0 [(''a'', 1)] ex_src = Inr \<lparr>pc2 = 2, machinecode = 0x70000000, nerrors2 = 0,
     emitted = [0x70000000, 0x70000000]\<rparr>"
  by (simp add: second_pass_def ex_src_lines second_pass_line_def ex_src_tokens lookup_examples
      Let_def is_delimiter_def skip_label_def has_label_def encode_def encode_OM_def
      check_length_def construct_OM_def field_def OP_OFFSET_def)

theorem labels_are_addresses_witness:
  "\<exists>q0 later. second_pass_lines (symbols (first_pass ex_src)) [''halt'']
            \<lparr>pc2 = 0, machinecode = 0, nerrors2 = 0, emitted = []\<rparr> = Inr q0 \<and>
          [0x70000000, 0x70000000] = emitted q0 @ later \<and>
          symbol_lookup (symbols (first_pass ex_src)) ''a'' = Some (int (length (emitted q0))) \<and>
          pc1 (first_pass ex_src) = 2"
  using labels_are_addresses [of ex_src 0 "\<lparr>pc2 = 2, machinecode = 0x70000000, nerrors2 = 0,
     emitted = [0x70000000, 0x70000000]\<rparr>" "[''halt'']" "''a:halt''" "[]" "''a''" "[Word ''halt'']"]
  by (simp add: ex_src_pass1 ex_src_pass2 ex_src_lines ex_src_tokens)

section \<open>Branch targets\<close>

lemma regno_from_some:
  "regno_from k rs s = Some n \<Longrightarrow> k \<le> n \<and> n < k + length rs \<and> rs ! (n - k) = s"
proof (induction k rs s rule: regno_from.induct)
  case (2 k r rs tk)
  then show ?case by (cases "tk = r") (auto simp: nth_Cons' Suc_diff_Suc)
qed simp

lemma regno_ok:
  assumes "token_to_regno t ne = (r, ne)"
  shows "nibble r \<and> t = Word (register_names ! nat r)"
proof -
  from assms obtain n where n: "regno_from 0 register_names (token_str t) = Some n" "r = int n"
    by (auto simp: token_to_regno_def split: option.splits)
  from regno_from_some [OF n(1)] have "n < 16" "register_names ! n = token_str t"
    by (simp_all add: register_names_def)
  moreover from \<open>n < 16\<close> have "length (register_names ! n) \<noteq> 1"
    by (simp add: register_names_def nth_Cons' numeral_eq_Suc)
  ultimately show ?thesis using n(2) by (cases t) (auto simp: nibble_def)
qed

lemma five_tokens: "length ts = 5 \<Longrightarrow> ts = [ts ! 0, ts ! 1, ts ! 2, ts ! 3, ts ! 4]"
  by (auto simp: length_Suc_conv eval_nat_numeral)

text \<open>
  A \<open>beq\<close> line that adds no error has the shape register, comma, register, comma, operand;
  its word holds opcode 5, the two registers in the order of the line, and an offset that, added
  to the address of the next instruction, is the operand: the branch reaches its label.
\<close>

theorem beq_reaches_target:
  assumes "encode tab pc ''beq'' ts ne = Inr (Some w, ne)"
  shows "\<exists>r1 r2 t target. ts = [Word r1, Delim CHR '','', Word r2, Delim CHR '','', t] \<and>
    token_to_number tab t ne = Inr (target, ne) \<and> op_of w = 5 \<and>
    register_names ! nat (x_of w) = r1 \<and> register_names ! nat (y_of w) = r2 \<and>
    offset_of w + (pc + 1) = target"
proof -
  from assms have e: "encode_II tab pc 5 ''beq'' ts ne = Inr (Some w, ne)"
    by (simp add: encode_def lookup_examples)
  have len: "length ts = 5"
    using e by (rule contrapos_pp) (auto simp: encode_II_def check_length_def Let_def)
  let ?e = "\<lambda>t. of_bool (t \<noteq> Delim CHR '','')"
  obtain b n1 where b: "token_to_regno (ts ! 0) ne = (b, n1)" by (cases "token_to_regno (ts ! 0) ne")
  obtain a n2 where a: "token_to_regno (ts ! 2) (n1 + ?e (ts ! 1)) = (a, n2)"
    by (cases "token_to_regno (ts ! 2) (n1 + ?e (ts ! 1))")
  from e len b a obtain k n3 where k: "token_to_number tab (ts ! 4) (n2 + ?e (ts ! 3)) = Inr (k, n3)"
    and w: "w = construct_I 5 a b (k - (pc + 1))"
    and n4: "ne = n3 + of_bool (\<not> (- (2 ^ 19) \<le> k - (pc + 1) \<and> k - (pc + 1) < 2 ^ 19))"
    by (auto simp: encode_II_def check_length_def Let_def check_delimiter_add check_offset_add)
  note ge = token_to_regno_ge [OF b] token_to_regno_ge [OF a] token_to_number_ge [OF k]
  have eq: "n1 = ne" "?e (ts ! 1) = (0 :: nat)" "n2 = ne" "?e (ts ! 3) = (0 :: nat)" "n3 = ne"
    using ge n4 by linarith+
  then have d: "ts ! 1 = Delim CHR '',''" "ts ! 3 = Delim CHR '',''" by auto
  from n4 eq have r: "- (2 ^ 19) \<le> k - (pc + 1)" "k - (pc + 1) < 2 ^ 19" by auto
  from b eq have b': "nibble b" "ts ! 0 = Word (register_names ! nat b)" using regno_ok by auto
  from a eq d have a': "nibble a" "ts ! 2 = Word (register_names ! nat a)" using regno_ok by auto
  have "nibble 5" by (simp add: nibble_def)
  note f = fields_word [OF this b'(1) a'(1), of "of_int (k - (pc + 1)) AND offset_mask", folded I_canonical]
  have i: "bit (of_int (k - (pc + 1)) AND offset_mask) n \<Longrightarrow> n < 20" for n
    by (simp add: bit_and_iff offset_mask_bit)
  have "offset_of w = k - (pc + 1)"
    unfolding w by (rule offset_of_I [OF \<open>nibble 5\<close> a'(1) b'(1) r])
  moreover have "ts = [Word (register_names ! nat b), Delim CHR '','',
      Word (register_names ! nat a), Delim CHR '','', ts ! 4]"
    using five_tokens [OF len] d a' b' by simp
  ultimately show ?thesis
    using f(1) [OF i] f(2) [OF i] f(3) [OF i] k eq w by auto
qed

lemma ex_beq: "encode [(''a'', 1)] 0 ''beq''
   [Word ''$v0'', Delim CHR '','', Word ''$a0'', Delim CHR '','', Word ''a''] 0 = Inr (Some 0x52300000, 0)"
proof -
  have "token_to_regno (Word ''$v0'') 0 = (2, 0)" "token_to_regno (Word ''$a0'') 0 = (3, 0)"
    "token_to_number [(''a'', 1)] (Word ''a'') 0 = Inr (1, 0)"
    by code_simp+
  then show ?thesis
    by (simp add: encode_def lookup_examples encode_II_def check_length_def check_delimiter_def
        check_offset_def in_i32_def OFFSET_BITS_def construct_I_def field_def offset_mask_def
        OP_OFFSET_def X_OFFSET_def Y_OFFSET_def OFFSET_OFFSET_def)
qed

lemma ex_operand: "token_to_number [(''a'', 1)] (Word ''a'') 0 = Inr (1, 0)"
  by code_simp

theorem beq_reaches_target_witness: "offset_of 0x52300000 = 0 \<and> op_of 0x52300000 = 5"
  using beq_reaches_target [OF ex_beq] by (auto simp: ex_operand)

section \<open>Numbers\<close>

lemma hex_digit_step:
  "d < 16 \<Longrightarrow> in_i64 (n * 16 + int d) \<Longrightarrow>
   hextoi_loop n (hex_digit d # cs) = hextoi_loop (n * 16 + int d) cs"
proof -
  assume d: "d < 16" and i: "in_i64 (n * 16 + int d)"
  show ?thesis
  proof (cases "d < 10")
    case True
    then have "char_code (hex_digit d) = 48 + d" by (simp add: hex_digit_def char_code_def)
    with True d i show ?thesis by (simp add: is_digit_def Let_def add.commute)
  next
    case False
    then have "char_code (hex_digit d) = 55 + d" using d by (simp add: hex_digit_def char_code_def)
    with False d i show ?thesis
      by (simp add: is_digit_def is_upper_hex_def Let_def algebra_simps)
  qed
qed

lemma hextoi_digits:
  "list_all (\<lambda>d. d < 16) ds \<Longrightarrow> 0 \<le> n \<Longrightarrow> (n + 1) * 16 ^ length ds \<le> 2 ^ 63 \<Longrightarrow>
   hextoi_loop n (map hex_digit ds) = Inr (foldl (\<lambda>m d. m * 16 + int d) n ds)"
proof (induction ds arbitrary: n)
  case Nil
  then show ?case by simp
next
  case (Cons d ds)
  have d: "d < 16" using Cons.prems by simp
  then have le: "n * 16 + int d + 1 \<le> (n + 1) * 16" by simp
  then have "(n * 16 + int d + 1) * 16 ^ length ds \<le> (n + 1) * 16 * 16 ^ length ds"
    by (rule mult_right_mono) simp
  also have "\<dots> = (n + 1) * 16 ^ length (d # ds)" by simp
  also have "\<dots> \<le> 2 ^ 63" by (rule Cons.prems(3))
  finally have b: "(n * 16 + int d + 1) * 16 ^ length ds \<le> 2 ^ 63" .
  have "n * 16 + int d + 1 \<le> (n * 16 + int d + 1) * 16 ^ length ds"
    using Cons.prems(2) by (simp add: mult_le_cancel_left1)
  with b have "n * 16 + int d + 1 \<le> 2 ^ 63" by (rule order_trans [rotated])
  with Cons.prems(2) have "in_i64 (n * 16 + int d)" by (simp add: in_i64_def)
  from hex_digit_step [OF d this] Cons.IH [OF _ _ b] Cons.prems show ?case by simp
qed

lemma nibbles_of_word:
  "foldl (\<lambda>m d. m * 16 + int d) 0 (map (\<lambda>i. unat (drop_bit (4 * i) w) mod 16) [7, 6, 5, 4, 3, 2, 1, 0])
   = uint (w :: u32)"
proof -
  have "unat w < 2 ^ 32" using unsigned_less [of w] by simp
  then have top: "unat w div 268435456 mod 16 = unat w div 268435456" by simp
  have step: "(m :: nat) div (16 * k) * 16 + m div k mod 16 = m div k" for m k
    by (simp add: div_mult2_eq mult.commute [of 16])
  let ?x = "unat w"
  have "?x div 268435456 * 16 + ?x div 16777216 mod 16 = ?x div 16777216" using step [of ?x 16777216] by simp
  moreover have "?x div 16777216 * 16 + ?x div 1048576 mod 16 = ?x div 1048576" using step [of ?x 1048576] by simp
  moreover have "?x div 1048576 * 16 + ?x div 65536 mod 16 = ?x div 65536" using step [of ?x 65536] by simp
  moreover have "?x div 65536 * 16 + ?x div 4096 mod 16 = ?x div 4096" using step [of ?x 4096] by simp
  moreover have "?x div 4096 * 16 + ?x div 256 mod 16 = ?x div 256" using step [of ?x 256] by simp
  moreover have "?x div 256 * 16 + ?x div 16 mod 16 = ?x div 16" using step [of ?x 16] by simp
  moreover have "?x div 16 * 16 + ?x mod 16 = ?x" by simp
  ultimately have nat: "foldl (\<lambda>m d. m * 16 + d) 0 (map (\<lambda>i. unat (drop_bit (4 * i) w) mod 16) [7, 6, 5, 4, 3, 2, 1, 0]) = unat w"
    using top by (simp add: unat_drop_bit_word)
  moreover have "foldl (\<lambda>m d. m * 16 + int d) (int n) ds = int (foldl (\<lambda>m d. m * 16 + d) n ds)" for n ds
    by (induction ds arbitrary: n) (simp_all, metis of_nat_add of_nat_mult of_nat_numeral)
  from this [of 0] have "foldl (\<lambda>m d. m * 16 + int d) 0 ds = int (foldl (\<lambda>m d. m * 16 + d) 0 ds)" for ds
    by simp
  ultimately show ?thesis by (simp only:) simp
qed

text \<open>
  Numbers survive a round trip: the hexadecimal text the assembler writes for a word, given
  back to it as an operand, is read as that word.
\<close>

theorem hex_roundtrip: "hextoi (''0x'' @ hex8 w) = Inr (uint w)"
proof -
  let ?ds = "map (\<lambda>i. unat (drop_bit (4 * i) w) mod 16) [7, 6, 5, 4, 3, 2, 1, 0]"
  have "hextoi (''0x'' @ hex8 w) = hextoi_loop 0 (hex8 w)" by (simp add: hextoi_def)
  also have "hex8 w = map hex_digit ?ds" by (simp add: hex8_def)
  also have "hextoi_loop 0 (map hex_digit ?ds) = Inr (foldl (\<lambda>m d. m * 16 + int d) 0 ?ds)"
    by (rule hextoi_digits) simp_all
  also have "\<dots> = Inr (uint w)" by (simp only: nibbles_of_word)
  finally show ?thesis by (simp add: hex8_def)
qed

lemma misread_numbers:
  assumes "hs \<noteq> []" and "list_all is_hexadecimal_char hs"
    and "list_all is_octal_char ds" and "ds \<noteq> []"
  shows "is_numeric (''-0x'' @ hs) = Inr True \<and> hextoi (''-0x'' @ hs) = Inr 0"
    and "is_numeric (CHR ''0'' # ds) = Inr True \<and> hextoi (CHR ''0'' # ds) = Inr (atoi_digits 0 ds)"
proof -
  have x: "\<not> is_space (CHR ''-'')" "\<not> is_space (CHR ''0'')" "is_digit (CHR ''0'')" "\<not> is_digit (CHR ''x'')"
    "digit_val (CHR ''0'') = 0"
    by (simp_all add: is_space_def is_digit_def char_code_def digit_val_def)
  show "is_numeric (''-0x'' @ hs) = Inr True \<and> hextoi (''-0x'' @ hs) = Inr 0"
    using assms(1,2) x by (simp add: is_numeric_def hextoi_def atoi_def)
  obtain d es where ds: "ds = d # es" using assms(4) by (cases ds) auto
  have "d \<noteq> CHR ''x''" "d \<noteq> CHR ''X''"
    using assms(3) ds by (auto simp: is_octal_char_def char_code_def)
  then show "is_numeric (CHR ''0'' # ds) = Inr True \<and> hextoi (CHR ''0'' # ds) = Inr (atoi_digits 0 ds)"
    using assms(3) x ds by (simp add: is_numeric_def hextoi_def atoi_def)
qed

text \<open>
  The number syntax and its reading disagree: a negative hexadecimal literal is accepted as
  a number and read as 0, and an octal literal is read in base ten.
\<close>

theorem accepted_numbers_misread:
  assumes "hs \<noteq> []" and "list_all is_hexadecimal_char hs"
    and "list_all is_octal_char ds" and "ds \<noteq> []"
  shows "is_numeric (''-0x'' @ hs) = Inr True \<and> hextoi (''-0x'' @ hs) = Inr 0 \<and>
    is_numeric (CHR ''0'' # ds) = Inr True \<and> hextoi (CHR ''0'' # ds) = Inr (atoi_digits 0 ds)"
  using misread_numbers [OF assms] by simp

theorem accepted_numbers_misread_witness:
  "is_numeric ''-0x10'' = Inr True \<and> hextoi ''-0x10'' = Inr 0 \<and> hextoi ''010'' = Inr 10"
  using accepted_numbers_misread [of "''10''" "''10''"]
  by (simp add: is_hexadecimal_char_def is_decimal_char_def is_octal_char_def char_code_def
      is_digit_def digit_val_def)

section \<open>Errors\<close>

text \<open>
  A line with the wrong number of operands still emits a word, so that later labels keep
  their addresses, and what it emits is the word of the line before (an uninitialised one on the
  first line); the error is counted. Stated for the register format; the other formats leave the
  switch in the same way.
\<close>

theorem wrong_operand_count:
  assumes "lexer ln = Word m # ts" and "ts = [] \<or> hd ts \<noteq> Delim CHR '':''"
    and "lookup_instruction m = Some (op, FmtR)" and "length ts \<noteq> 5"
  shows "second_pass_line tab ln st = Inr (st\<lparr>nerrors2 := nerrors2 st + 1,
      emitted := emitted st @ [machinecode st], pc2 := pc2 st + 1\<rparr>)"
proof -
  have "\<not> has_label (Word m # ts)" using assms(2) by (cases ts) (auto simp: has_label_def)
  moreover have "min (length ts) 6 \<noteq> 5" using assms(4) by simp
  ultimately show ?thesis
    using assms by (simp add: second_pass_line_def is_delimiter_def skip_label_def encode_def
        encode_R_def check_length_def)
qed

lemma ex_short_tokens: "lexer ''add'' = [Word ''add'']"
  by code_simp

theorem wrong_operand_count_witness:
  "second_pass_line [] ''add'' \<lparr>pc2 = 3, machinecode = 7, nerrors2 = 0, emitted = [7]\<rparr> =
     Inr \<lparr>pc2 = 4, machinecode = 7, nerrors2 = 1, emitted = [7, 7]\<rparr>"
  using wrong_operand_count [of "''add''" "''add''" "[]" 0 "[]"
      "\<lparr>pc2 = 3, machinecode = 7, nerrors2 = 0, emitted = [7]\<rparr>"]
  by (simp add: ex_short_tokens lookup_examples)

end
