(* ===== verification/Chains.thy ===== *)
theory Chains
  imports Prelude
begin

text \<open>
  Singly linked lists: cells are numbers, a link is \<open>None\<close> for NULL. \<open>chain nxt p xs\<close> says that
  following \<open>nxt\<close> from \<open>p\<close> visits exactly \<open>xs\<close> and ends at NULL; \<open>walk\<close> is the same as a bounded
  traversal. The queues of the process scheduler and the page lists of the kernel are chains.
\<close>

fun chain :: "(nat \<Rightarrow> nat option) \<Rightarrow> nat option \<Rightarrow> nat list \<Rightarrow> bool" where
  "chain nxt p [] \<longleftrightarrow> p = None"
| "chain nxt p (x # xs) \<longleftrightarrow> p = Some x \<and> chain nxt (nxt x) xs"

fun walk :: "nat \<Rightarrow> (nat \<Rightarrow> nat option) \<Rightarrow> nat option \<Rightarrow> nat list" where
  "walk 0 nxt p = []"
| "walk (Suc n) nxt p = (case p of None \<Rightarrow> [] | Some x \<Rightarrow> x # walk n nxt (nxt x))"

definition last_opt :: "nat list \<Rightarrow> nat option" where
  "last_opt xs = (if xs = [] then None else Some (last xs))"

lemma last_opt_simps [simp]:
  "last_opt [] = None" "last_opt (xs @ [x]) = Some x" "last_opt xs = None \<longleftrightarrow> xs = []"
  by (auto simp: last_opt_def)

lemma last_opt_Cons: "last_opt (x # xs) = (if xs = [] then Some x else last_opt xs)"
  by (simp add: last_opt_def)

lemma chain_None [simp]: "chain nxt None xs \<longleftrightarrow> xs = []"
  by (cases xs) auto

lemma chain_Some: "chain nxt (Some x) xs \<longleftrightarrow> (\<exists>ys. xs = x # ys \<and> chain nxt (nxt x) ys)"
  by (cases xs) auto

lemma chain_unique: "chain nxt p xs \<Longrightarrow> chain nxt p ys \<Longrightarrow> xs = ys"
  by (induction xs arbitrary: p ys) (auto simp: chain_Some)

lemma chain_cong: "(\<And>x. x \<in> set xs \<Longrightarrow> nxt x = nxt' x) \<Longrightarrow> chain nxt p xs \<longleftrightarrow> chain nxt' p xs"
  by (induction xs arbitrary: p) auto

lemma chain_suffix: "chain nxt p (xs @ x # ys) \<Longrightarrow> chain nxt (Some x) (x # ys)"
  by (induction xs arbitrary: p) auto

lemma chain_distinct: "chain nxt p xs \<Longrightarrow> distinct xs"
proof (induction xs arbitrary: p)
  case (Cons x xs)
  have "x \<notin> set xs"
  proof
    assume "x \<in> set xs"
    then obtain ys zs where xs: "xs = ys @ x # zs" by (auto dest: split_list)
    with Cons.prems have "chain nxt (Some x) (x # zs)" by (auto dest: chain_suffix)
    moreover have "chain nxt (Some x) (x # xs)" using Cons.prems by simp
    ultimately have "x # zs = x # xs" by (rule chain_unique)
    with xs show False by simp
  qed
  with Cons show ?case by auto
qed simp

lemma chain_upd: "x \<notin> set xs \<Longrightarrow> chain (nxt(x := l)) p xs \<longleftrightarrow> chain nxt p xs"
  by (rule chain_cong) auto

lemma chain_push: "chain nxt p xs \<Longrightarrow> x \<notin> set xs \<Longrightarrow> chain (nxt(x := p)) (Some x) (x # xs)"
  by (simp add: chain_upd)

lemma chain_append:
  "chain nxt p xs \<Longrightarrow> xs \<noteq> [] \<Longrightarrow> x \<notin> set xs \<Longrightarrow>
   chain (nxt(last xs := Some x, x := None)) p (xs @ [x])"
proof (induction xs arbitrary: p)
  case (Cons a xs)
  show ?case
  proof (cases "xs = []")
    case True
    with Cons.prems show ?thesis by auto
  next
    case False
    have "chain (nxt(last xs := Some x, x := None)) (nxt a) (xs @ [x])"
      by (rule Cons.IH) (use Cons.prems False in simp_all)
    moreover from Cons.prems(1) have "a \<notin> set xs" using chain_distinct by fastforce
    with False have "a \<noteq> last xs" by auto
    ultimately show ?thesis using Cons.prems False by (simp add: fun_upd_def)
  qed
qed simp

lemma walk_chain: "chain nxt p xs \<Longrightarrow> length xs \<le> n \<Longrightarrow> walk n nxt p = xs"
proof (induction xs arbitrary: p n)
  case Nil
  then show ?case by (cases n) auto
next
  case (Cons x xs)
  then show ?case by (cases n) auto
qed

lemma chain_length: "chain nxt p xs \<Longrightarrow> set xs \<subseteq> {..<n} \<Longrightarrow> length xs \<le> n"
  using distinct_card [OF chain_distinct] card_mono [of "{..<n}" "set xs"] by fastforce

end
