(* ===== verification/Scheduler.thy ===== *)
theory Scheduler
  imports Chains CLib
begin

text \<open>
  The CPU scheduler of \<open>cs_2200/scheduling/prj6/student.c\<close> and the multiprocessor simulator
  \<open>os-sim.c\<close> that drives it, on the process table of \<open>process.c\<close>. A process is its index in
  the table; the ready queue is threaded through the \<open>next\<close> fields of the table.

  Concurrency. Each simulated CPU has a thread; a supervisor thread advances the simulation and
  waits, at each event it delivers, until the CPU thread has run the student's handler. So the
  threads that run at the same time are the supervisor and the CPUs that leave the idle process.
  One step of the model is one event: the code holds a mutex over each access to the shared data,
  and an operation that would wait for the mutex of the ready queue is \<open>Blocked\<close>.
  \<open>getNextProcess\<close> returns NULL with that mutex locked and \<open>idle\<close> gives it up: between the two the
  mutex is the CPU's, which \<open>rq_owner\<close> records.
\<close>

section \<open>Data\<close>

datatype process_state =
  PROCESS_NEW | PROCESS_READY | PROCESS_RUNNING | PROCESS_WAITING | PROCESS_TERMINATED

datatype op_type = OP_CPU | OP_IO | OP_TERMINATE

record op_t =
  op_kind :: op_type
  op_time :: int

text \<open>\<open>pcount\<close> is the position of \<open>pc\<close> in the operations of the process, \<open>link\<close> the field \<open>next\<close>.\<close>

record pcb =
  pname :: string
  static_priority :: nat
  pstate :: process_state
  pops :: "op_t list"
  pcount :: nat
  link :: "nat option"

datatype cpu_state = CPU_IDLE | CPU_RUNNING | CPU_PREEMPT | CPU_YIELD | CPU_TERMINATE

record cpu_data =
  ccurrent :: "nat option"
  cstate :: cpu_state
  preemption_timer :: int

datatype schedule_t = FIFO | ROBIN | PRIORITY

text \<open>
  What a CPU thread does between two events: it simulates a process (\<open>Busy\<close>), it is on its way
  to \<open>idle\<close> (\<open>Entering\<close>), it waits on the condition variable, or it has been signalled there.
\<close>

datatype cpu_thread = Busy | Entering | Waiting | Signalled

record os =
  pcbs :: "pcb list"
  rq_head :: "nat option"
  rq_tail :: "nat option"
  rq_size :: int
  rq_owner :: "nat option"
  current :: "nat option list"
  time_slice :: int
  sim_type :: schedule_t
  cpus :: "cpu_data list"
  threads :: "cpu_thread list"
  io_queue :: "(nat \<times> u32) list"
  simulator_time :: u32
  processes_terminated :: nat
  processes_created :: nat
  context_switches :: u32
  ready_counter :: u32
  running_counter :: u32
  waiting_counter :: u32
  sup_pos :: nat
  exited :: bool

definition PROCESS_COUNT :: nat where "PROCESS_COUNT = 8"

definition cpu_count :: "os \<Rightarrow> nat" where "cpu_count s = length (cpus s)"

text \<open>A write through a pointer to a process.\<close>

definition set_pcb :: "nat \<Rightarrow> (pcb \<Rightarrow> pcb) \<Rightarrow> os \<Rightarrow> os c" where
  "set_pcb p f s = bindE (rd (pcbs s) p) (\<lambda>b. Inr (s\<lparr>pcbs := (pcbs s)[p := f b]\<rparr>))"

section \<open>The ready queue\<close>

definition lock_ready_queue :: "os \<Rightarrow> unit c" where
  "lock_ready_queue s = guardE Blocked (rq_owner s = None)"

definition getNextProcess :: "nat \<Rightarrow> os \<Rightarrow> (nat option \<times> os) c" where
  "getNextProcess cpu_id s = bindE (lock_ready_queue s) (\<lambda>_.
     case rq_head s of
       None \<Rightarrow> Inr (None, s\<lparr>rq_owner := Some cpu_id\<rparr>)
     | Some old_head \<Rightarrow>
         bindE (rd (pcbs s) old_head) (\<lambda>b.
         let s = s\<lparr>rq_head := link b\<rparr>;
             s = (if rq_head s = None then s\<lparr>rq_tail := None\<rparr> else s);
             s = s\<lparr>rq_size := rq_size s - 1\<rparr>
         in bindE (set_pcb old_head (\<lambda>b. b\<lparr>link := None\<rparr>) s) (\<lambda>s. Inr (Some old_head, s))))"

text \<open>
  \<open>pthread_cond_signal\<close> wakes one of the waiting CPUs, if there is one; \<open>pk\<close> is its choice.
\<close>

definition signal_ready :: "nat \<Rightarrow> os \<Rightarrow> os" where
  "signal_ready pk s =
     (let ws = filter (\<lambda>i. threads s ! i = Waiting) [0..<length (threads s)]
      in if ws = [] then s else s\<lparr>threads := (threads s)[ws ! (pk mod length ws) := Signalled]\<rparr>)"

definition addProccess :: "nat \<Rightarrow> nat \<Rightarrow> os \<Rightarrow> os c" where
  "addProccess pk newProcess s = bindE (lock_ready_queue s) (\<lambda>_.
     bindE (case rq_tail s of
        None \<Rightarrow> set_pcb newProcess (\<lambda>b. b\<lparr>link := None\<rparr>)
                  (s\<lparr>rq_head := Some newProcess, rq_tail := Some newProcess\<rparr>)
      | Some old_tail \<Rightarrow>
          bindE (set_pcb old_tail (\<lambda>b. b\<lparr>link := Some newProcess\<rparr>) s) (\<lambda>s.
          set_pcb newProcess (\<lambda>b. b\<lparr>link := None\<rparr>) (s\<lparr>rq_tail := Some newProcess\<rparr>))) (\<lambda>s.
     Inr (signal_ready pk (s\<lparr>rq_size := rq_size s + 1\<rparr>))))"

section \<open>The student's handlers\<close>

definition context_switch :: "nat \<Rightarrow> nat option \<Rightarrow> int \<Rightarrow> os \<Rightarrow> os c" where
  "context_switch cpu_id p preemption_time s =
     bindE (guardE AssertFail (cpu_id < cpu_count s)) (\<lambda>_.
     bindE (guardE AssertFail (case p of None \<Rightarrow> True | Some q \<Rightarrow> q < PROCESS_COUNT)) (\<lambda>_.
     bindE (rd (cpus s) cpu_id) (\<lambda>d.
     Inr (s\<lparr>context_switches := context_switches s + 1,
            cpus := (cpus s)[cpu_id := d\<lparr>ccurrent := p, preemption_timer := preemption_time\<rparr>]\<rparr>))))"

definition running_on :: "nat option \<Rightarrow> os \<Rightarrow> bool c" where
  "running_on cur s = (case cur of None \<Rightarrow> Inr False
     | Some p \<Rightarrow> bindE (rd (pcbs s) p) (\<lambda>b. Inr (pstate b = PROCESS_RUNNING)))"

definition scheduleWorker :: "nat \<Rightarrow> os \<Rightarrow> os c" where
  "scheduleWorker cpu_id s =
     bindE (rd (current s) cpu_id) (\<lambda>cur.
     bindE (running_on cur s) (\<lambda>running.
     if running then Inr s
     else bindE (getNextProcess cpu_id s) (\<lambda>(nextProcess, s).
          case nextProcess of
            None \<Rightarrow> bindE (wr (current s) cpu_id None) (\<lambda>cu.
                    context_switch cpu_id None (time_slice s) (s\<lparr>current := cu\<rparr>))
          | Some p \<Rightarrow>
              bindE (set_pcb p (\<lambda>b. b\<lparr>pstate := PROCESS_RUNNING\<rparr>) s) (\<lambda>s.
              bindE (wr (current s) cpu_id (Some p)) (\<lambda>cu.
              context_switch cpu_id (Some p) (time_slice s) (s\<lparr>current := cu\<rparr>))))))"

definition schedule :: "nat \<Rightarrow> os \<Rightarrow> os c" where
  "schedule cpu_id s = scheduleWorker cpu_id s"

definition preemptWorker :: "nat \<Rightarrow> nat \<Rightarrow> os \<Rightarrow> os c" where
  "preemptWorker pk cpu_id s = bindE (rd (current s) cpu_id) (\<lambda>cur.
     case cur of None \<Rightarrow> Inr s
     | Some p \<Rightarrow> bindE (set_pcb p (\<lambda>b. b\<lparr>pstate := PROCESS_READY\<rparr>) s) (addProccess pk p))"

definition preempt :: "nat \<Rightarrow> nat \<Rightarrow> os \<Rightarrow> os c" where
  "preempt pk cpu_id s = bindE (preemptWorker pk cpu_id s) (scheduleWorker cpu_id)"

definition yield :: "nat \<Rightarrow> os \<Rightarrow> os c" where
  "yield cpu_id s = bindE (rd (current s) cpu_id) (\<lambda>cur. bindE (deref cur) (\<lambda>p.
     bindE (set_pcb p (\<lambda>b. b\<lparr>pstate := PROCESS_WAITING\<rparr>) s) (schedule cpu_id)))"

definition terminate :: "nat \<Rightarrow> os \<Rightarrow> os c" where
  "terminate cpu_id s = bindE (rd (current s) cpu_id) (\<lambda>cur. bindE (deref cur) (\<lambda>p.
     bindE (set_pcb p (\<lambda>b. b\<lparr>pstate := PROCESS_TERMINATED\<rparr>) s) (schedule cpu_id)))"

section \<open>The CPU threads\<close>

text \<open>The top of the loop: the thread goes to \<open>idle\<close>, or simulates the process it was given.\<close>

definition cpu_loop_top :: "nat \<Rightarrow> os \<Rightarrow> os c" where
  "cpu_loop_top cpu_id s =
     bindE (rd (cpus s) cpu_id) (\<lambda>d.
     bindE (rd (threads s) cpu_id) (\<lambda>t.
     if ccurrent d = None
     then Inr (s\<lparr>cpus := (cpus s)[cpu_id := d\<lparr>cstate := CPU_IDLE\<rparr>],
                 threads := (threads s)[cpu_id := Entering]\<rparr>)
     else Inr (s\<lparr>cpus := (cpus s)[cpu_id := d\<lparr>cstate := CPU_RUNNING\<rparr>],
                 threads := (threads s)[cpu_id := Busy]\<rparr>)))"

text \<open>The \<open>switch\<close> that calls the student's code, for a CPU in a state other than idle.\<close>

definition call_handler :: "nat \<Rightarrow> nat \<Rightarrow> os \<Rightarrow> os c" where
  "call_handler pk cpu_id s = bindE (rd (cpus s) cpu_id) (\<lambda>d.
     bindE (case cstate d of
        CPU_PREEMPT \<Rightarrow> preempt pk cpu_id s
      | CPU_YIELD \<Rightarrow> yield cpu_id s
      | CPU_TERMINATE \<Rightarrow> terminate cpu_id (s\<lparr>processes_terminated := processes_terminated s + 1\<rparr>)
      | CPU_RUNNING \<Rightarrow> Inr s
      | CPU_IDLE \<Rightarrow> Inr s) (cpu_loop_top cpu_id))"

text \<open>The supervisor sets the state of a CPU, signals it, and waits for the handler.\<close>

definition deliver :: "nat \<Rightarrow> nat \<Rightarrow> cpu_state \<Rightarrow> os \<Rightarrow> os c" where
  "deliver pk cpu_id st s = bindE (rd (cpus s) cpu_id) (\<lambda>d.
     call_handler pk cpu_id (s\<lparr>cpus := (cpus s)[cpu_id := d\<lparr>cstate := st\<rparr>]\<rparr>))"

text \<open>
  \<open>idle\<close>: the wait gives the mutex up, and takes it again when the CPU is woken, by a signal or
  not; then \<open>idle\<close> unlocks it and schedules.
\<close>

definition idle_wait :: "nat \<Rightarrow> os \<Rightarrow> os c" where
  "idle_wait cpu_id s = bindE (rd (threads s) cpu_id) (\<lambda>t.
     Inr (s\<lparr>rq_owner := None, threads := (threads s)[cpu_id := Waiting]\<rparr>))"

definition idle_return :: "nat \<Rightarrow> os \<Rightarrow> os c" where
  "idle_return cpu_id s = bindE (lock_ready_queue s) (\<lambda>_.
     bindE (schedule cpu_id s) (cpu_loop_top cpu_id))"

section \<open>Priorities: force_preempt and wake_up\<close>

definition force_preempt :: "nat \<Rightarrow> nat \<Rightarrow> os \<Rightarrow> os c" where
  "force_preempt pk cpu_id s =
     bindE (guardE AssertFail (cpu_id < cpu_count s)) (\<lambda>_.
     bindE (rd (cpus s) cpu_id) (\<lambda>d.
     if cstate d = CPU_RUNNING then deliver pk cpu_id CPU_PREEMPT s else Inr s))"

text \<open>The loop over \<open>current\<close>, from CPU \<open>i\<close> on; \<open>min_cpu_id\<close> is -1 in the code for \<open>None\<close>.\<close>

fun find_victim :: "pcb list \<Rightarrow> nat \<Rightarrow> nat option list \<Rightarrow> nat option \<Rightarrow> nat \<Rightarrow> nat option c" where
  "find_victim bs i [] min_cpu_id min_priority = Inr min_cpu_id"
| "find_victim bs i (None # cur) min_cpu_id min_priority = Inr (Some i)"
| "find_victim bs i (Some q # cur) min_cpu_id min_priority =
     bindE (rd bs q) (\<lambda>b.
     if pstate b \<noteq> PROCESS_RUNNING then Inr (Some i)
     else if min_priority > static_priority b
          then find_victim bs (Suc i) cur (Some i) (static_priority b)
          else find_victim bs (Suc i) cur min_cpu_id min_priority)"

definition wake_up :: "nat \<Rightarrow> nat \<Rightarrow> nat \<Rightarrow> os \<Rightarrow> os c" where
  "wake_up pk pk' p s =
     bindE (set_pcb p (\<lambda>b. b\<lparr>pstate := PROCESS_READY\<rparr>) s) (\<lambda>s.
     bindE (addProccess pk p s) (\<lambda>s.
     if sim_type s = PRIORITY
     then bindE (rd (pcbs s) p) (\<lambda>b.
          bindE (find_victim (pcbs s) 0 (current s) None (static_priority b)) (\<lambda>v.
          case v of None \<Rightarrow> Inr s | Some i \<Rightarrow> force_preempt pk' i s))
     else Inr s))"

section \<open>The supervisor\<close>

definition submit_io_request :: "nat \<Rightarrow> u32 \<Rightarrow> os \<Rightarrow> os" where
  "submit_io_request p execution_time s = s\<lparr>io_queue := io_queue s @ [(p, execution_time)]\<rparr>"

definition set_timer :: "nat \<Rightarrow> (int \<Rightarrow> int) \<Rightarrow> os \<Rightarrow> os c" where
  "set_timer cpu_id f s = bindE (rd (cpus s) cpu_id) (\<lambda>d.
     Inr (s\<lparr>cpus := (cpus s)[cpu_id := d\<lparr>preemption_timer := f (preemption_timer d)\<rparr>]\<rparr>))"

definition simulate_process :: "nat \<Rightarrow> nat \<Rightarrow> nat \<Rightarrow> os \<Rightarrow> os c" where
  "simulate_process pk cpu_id p s =
     bindE (rd (pcbs s) p) (\<lambda>b.
     bindE (rd (pops b) (pcount b)) (\<lambda>pc.
     case op_kind pc of
       OP_CPU \<Rightarrow>
         if op_time pc > 0
         then bindE (set_pcb p (\<lambda>b. b\<lparr>pops := (pops b)[pcount b := pc\<lparr>op_time := op_time pc - 1\<rparr>]\<rparr>) s) (\<lambda>s.
              bindE (set_timer cpu_id (\<lambda>t. t - 1) s) (\<lambda>s.
              bindE (rd (cpus s) cpu_id) (\<lambda>d.
              if preemption_timer d = 0 then deliver pk cpu_id CPU_PREEMPT s else Inr s)))
         else bindE (set_pcb p (\<lambda>b. b\<lparr>pcount := pcount b + 1\<rparr>) s) (\<lambda>s.
              bindE (rd (pops b) (pcount b + 1)) (\<lambda>pc.
              case op_kind pc of
                OP_IO \<Rightarrow> deliver pk cpu_id CPU_YIELD (submit_io_request p (of_int (op_time pc)) s)
              | OP_TERMINATE \<Rightarrow> deliver pk cpu_id CPU_TERMINATE s
              | OP_CPU \<Rightarrow> Inr s))
     | OP_IO \<Rightarrow> Inr s
     | OP_TERMINATE \<Rightarrow> Inr s))"

text \<open>
  \<open>execution_time\<close> is unsigned: the test of the value before the decrement is a test for zero, and
  the decrement of zero wraps on a request that is then freed.
\<close>

definition simulate_io :: "nat \<Rightarrow> nat \<Rightarrow> os \<Rightarrow> os c" where
  "simulate_io pk pk' s = (case io_queue s of
     [] \<Rightarrow> Inr s
   | (p, t) # rest \<Rightarrow>
       if t \<le> 0
       then bindE (set_pcb p (\<lambda>b. b\<lparr>pcount := pcount b + 1\<rparr>) s) (\<lambda>s.
            wake_up pk pk' p (s\<lparr>io_queue := rest\<rparr>))
       else Inr (s\<lparr>io_queue := (p, t - 1) # rest\<rparr>))"

definition simulate_creat :: "nat \<Rightarrow> nat \<Rightarrow> os \<Rightarrow> os c" where
  "simulate_creat pk pk' s =
     (if simulator_time s mod 10 = 0 \<and> processes_created s < PROCESS_COUNT
      then bindE (wake_up pk pk' (processes_created s) s) (\<lambda>s.
           Inr (s\<lparr>processes_created := processes_created s + 1\<rparr>))
      else Inr s)"

text \<open>The counting part of \<open>print_gantt_line\<close>.\<close>

definition count_state :: "process_state \<Rightarrow> os \<Rightarrow> nat" where
  "count_state st s = length (filter (\<lambda>b. pstate b = st) (pcbs s))"

definition print_gantt_line :: "os \<Rightarrow> os" where
  "print_gantt_line s =
     s\<lparr>ready_counter := ready_counter s + of_nat (count_state PROCESS_READY s),
       running_counter := running_counter s + of_nat (count_state PROCESS_RUNNING s),
       waiting_counter := waiting_counter s + of_nat (count_state PROCESS_WAITING s)\<rparr>"

text \<open>
  One step of the supervisor's loop. \<open>sup_pos\<close> is its position: 0 is the top of the loop,
  \<open>n + 1\<close> the turn of CPU \<open>n\<close> in \<open>simulate_cpus\<close>, then \<open>simulate_io\<close>, \<open>simulate_creat\<close> and the
  end of the loop.
\<close>

definition supervisor_step :: "nat \<Rightarrow> nat \<Rightarrow> os \<Rightarrow> os c" where
  "supervisor_step pk pk' s =
     (if sup_pos s = 0
      then Inr (if processes_terminated s \<ge> PROCESS_COUNT then s\<lparr>exited := True\<rparr>
                else (print_gantt_line s)\<lparr>sup_pos := 1\<rparr>)
      else if sup_pos s \<le> cpu_count s
      then bindE (rd (cpus s) (sup_pos s - 1)) (\<lambda>d.
           bindE (case ccurrent d of None \<Rightarrow> Inr s
                  | Some p \<Rightarrow> simulate_process pk (sup_pos s - 1) p s) (\<lambda>s.
           Inr (s\<lparr>sup_pos := sup_pos s + 1\<rparr>)))
      else if sup_pos s = cpu_count s + 1
      then bindE (simulate_io pk pk' s) (\<lambda>s. Inr (s\<lparr>sup_pos := sup_pos s + 1\<rparr>))
      else bindE (simulate_creat pk pk' s) (\<lambda>s.
           Inr (s\<lparr>simulator_time := simulator_time s + 1, sup_pos := 0\<rparr>)))"

section \<open>The process table\<close>

definition op :: "op_type \<Rightarrow> int \<Rightarrow> op_t" where
  "op k t = \<lparr>op_kind = k, op_time = t\<rparr>"

definition pid0_ops :: "op_t list" where
  "pid0_ops =
   [op OP_CPU 2, op OP_IO 2, op OP_CPU 3, op OP_IO 5, op OP_CPU 1, op OP_IO 4, op OP_CPU 2,
    op OP_IO 2, op OP_CPU 3, op OP_IO 5, op OP_CPU 1, op OP_IO 4, op OP_CPU 2, op OP_IO 2,
    op OP_CPU 3, op OP_IO 5, op OP_CPU 1, op OP_IO 4, op OP_CPU 2, op OP_IO 5, op OP_CPU 1,
    op OP_IO 4, op OP_CPU 2, op OP_IO 2, op OP_CPU 3, op OP_IO 5, op OP_CPU 1, op OP_IO 4,
    op OP_CPU 2, op OP_TERMINATE 0]"

definition pid1_ops :: "op_t list" where
  "pid1_ops =
   [op OP_CPU 3, op OP_IO 4, op OP_CPU 2, op OP_IO 6, op OP_CPU 1, op OP_IO 3, op OP_CPU 4,
    op OP_IO 4, op OP_CPU 2, op OP_IO 6, op OP_CPU 1, op OP_IO 3, op OP_CPU 4, op OP_IO 4,
    op OP_CPU 2, op OP_IO 6, op OP_CPU 1, op OP_IO 3, op OP_CPU 4, op OP_IO 3, op OP_CPU 4,
    op OP_IO 4, op OP_CPU 2, op OP_IO 6, op OP_CPU 1, op OP_IO 3, op OP_CPU 4,
    op OP_TERMINATE 0]"

definition pid2_ops :: "op_t list" where
  "pid2_ops =
   [op OP_CPU 1, op OP_IO 4, op OP_CPU 2, op OP_IO 5, op OP_CPU 1, op OP_IO 3, op OP_CPU 3,
    op OP_IO 4, op OP_CPU 2, op OP_IO 5, op OP_CPU 1, op OP_IO 3, op OP_CPU 3, op OP_IO 4,
    op OP_CPU 2, op OP_IO 5, op OP_CPU 1, op OP_IO 3, op OP_CPU 3, op OP_IO 4, op OP_CPU 2,
    op OP_IO 5, op OP_CPU 1, op OP_IO 3, op OP_CPU 3, op OP_TERMINATE 0]"

definition pid3_ops :: "op_t list" where
  "pid3_ops =
   [op OP_CPU 9, op OP_IO 1, op OP_CPU 6, op OP_IO 1, op OP_CPU 8, op OP_IO 1, op OP_CPU 7,
    op OP_IO 1, op OP_CPU 6, op OP_IO 1, op OP_CPU 8, op OP_IO 1, op OP_CPU 7, op OP_IO 1,
    op OP_CPU 6, op OP_IO 1, op OP_CPU 8, op OP_IO 1, op OP_CPU 8, op OP_TERMINATE 0]"

definition pid4_ops :: "op_t list" where
  "pid4_ops =
   [op OP_CPU 10, op OP_IO 1, op OP_CPU 14, op OP_IO 1, op OP_CPU 7, op OP_IO 2, op OP_CPU 11,
    op OP_IO 1, op OP_CPU 14, op OP_IO 1, op OP_CPU 7, op OP_IO 2, op OP_CPU 11, op OP_IO 1,
    op OP_CPU 14, op OP_IO 1, op OP_CPU 7, op OP_IO 2, op OP_CPU 11, op OP_TERMINATE 0]"

definition pid5_ops :: "op_t list" where
  "pid5_ops =
   [op OP_CPU 9, op OP_IO 1, op OP_CPU 10, op OP_IO 2, op OP_CPU 15, op OP_IO 1, op OP_CPU 8,
    op OP_IO 1, op OP_CPU 10, op OP_IO 2, op OP_CPU 15, op OP_IO 1, op OP_CPU 8, op OP_IO 1,
    op OP_CPU 10, op OP_IO 2, op OP_CPU 15, op OP_IO 1, op OP_CPU 8, op OP_TERMINATE 0]"

definition pid6_ops :: "op_t list" where
  "pid6_ops =
   [op OP_CPU 6, op OP_IO 3, op OP_CPU 9, op OP_IO 1, op OP_CPU 14, op OP_IO 1, op OP_CPU 11,
    op OP_IO 3, op OP_CPU 9, op OP_IO 1, op OP_CPU 14, op OP_IO 1, op OP_CPU 11, op OP_IO 3,
    op OP_CPU 9, op OP_IO 1, op OP_CPU 14, op OP_IO 1, op OP_CPU 11, op OP_TERMINATE 0]"

definition pid7_ops :: "op_t list" where
  "pid7_ops =
   [op OP_CPU 6, op OP_IO 3, op OP_CPU 12, op OP_IO 3, op OP_CPU 7, op OP_IO 1, op OP_CPU 9,
    op OP_IO 3, op OP_CPU 12, op OP_IO 3, op OP_CPU 7, op OP_IO 1, op OP_CPU 9, op OP_IO 3,
    op OP_CPU 12, op OP_IO 3, op OP_CPU 7, op OP_IO 1, op OP_CPU 9, op OP_TERMINATE 0]"

definition new_process :: "string \<Rightarrow> nat \<Rightarrow> op_t list \<Rightarrow> pcb" where
  "new_process name prio os = \<lparr>pname = name, static_priority = prio, pstate = PROCESS_NEW,
     pops = os, pcount = 0, link = None\<rparr>"

definition processes :: "pcb list" where
  "processes =
   [new_process ''Iapache'' 8 pid0_ops,
    new_process ''Ibash'' 7 pid1_ops,
    new_process ''Imozilla'' 7 pid2_ops,
    new_process ''Ccpu'' 5 pid3_ops,
    new_process ''Cgcc'' 1 pid4_ops,
    new_process ''Cspice'' 2 pid5_ops,
    new_process ''Cmysql'' 4 pid6_ops,
    new_process ''Csim'' 3 pid7_ops]"

section \<open>Starting the simulator\<close>

text \<open>
  \<open>start_simulator\<close> ends with a fault of \<open>exit\<close> on a CPU count outside 1 to 16. Every CPU thread
  starts with no process, so it calls \<open>idle\<close>; the initial state is the one in which all of them
  wait there. (They call \<open>pthread_cond_wait\<close> on a mutex none of them holds, which POSIX leaves
  undefined: that is the one point where the start of the program is not modelled.)
\<close>

definition start_simulator :: "nat \<Rightarrow> int \<Rightarrow> schedule_t \<Rightarrow> os c" where
  "start_simulator n quantum ty =
     bindE (guardE ExitFailure (1 \<le> n \<and> n \<le> 16)) (\<lambda>_.
     Inr \<lparr>pcbs = processes, rq_head = None, rq_tail = None, rq_size = 0, rq_owner = None,
          current = replicate n None, time_slice = quantum, sim_type = ty,
          cpus = replicate n \<lparr>ccurrent = None, cstate = CPU_IDLE, preemption_timer = - 1\<rparr>,
          threads = replicate n Waiting, io_queue = [], simulator_time = 0,
          processes_terminated = 0, processes_created = 0, context_switches = 0,
          ready_counter = 0, running_counter = 0, waiting_counter = 0, sup_pos = 0,
          exited = False\<rparr>)"

text \<open>
  \<open>main\<close> of \<open>student.c\<close>: the scheduler chosen by the arguments; \<open>None\<close> where the usage is printed.
  The CPU count becomes unsigned at the call of \<open>start_simulator\<close>.
\<close>

definition parse_scheduler :: "string list \<Rightarrow> (schedule_t \<times> int) option" where
  "parse_scheduler argv =
     (if length argv = 3 \<and> argv ! 2 = ''-p'' then Some (PRIORITY, - 1)
      else if length argv = 4 \<and> argv ! 2 = ''-r'' then Some (ROBIN, atoi (argv ! 3))
      else if length argv = 2 then Some (FIFO, - 1)
      else None)"

definition student_main :: "string list \<Rightarrow> os option c" where
  "student_main argv = (case parse_scheduler argv of
     None \<Rightarrow> Inr None
   | Some (ty, quantum) \<Rightarrow>
       bindE (start_simulator (unat (of_int (atoi (argv ! 1)) :: u32)) quantum ty) (\<lambda>s. Inr (Some s)))"

section \<open>Steps\<close>

inductive os_step :: "os \<Rightarrow> os \<Rightarrow> bool" where
  supervisor: "\<not> exited s \<Longrightarrow> supervisor_step pk pk' s = Inr s' \<Longrightarrow> os_step s s'"
| wait: "\<not> exited s \<Longrightarrow> n < length (threads s) \<Longrightarrow> threads s ! n = Entering \<Longrightarrow>
    idle_wait n s = Inr s' \<Longrightarrow> os_step s s'"
| idle_end: "\<not> exited s \<Longrightarrow> n < length (threads s) \<Longrightarrow> threads s ! n \<in> {Waiting, Signalled} \<Longrightarrow>
    idle_return n s = Inr s' \<Longrightarrow> os_step s s'"

inductive reachable :: "os \<Rightarrow> os \<Rightarrow> bool" for s0 where
  start: "reachable s0 s0"
| step: "reachable s0 s \<Longrightarrow> os_step s s' \<Longrightarrow> reachable s0 s'"

end
