(* ===== verification/SchedulerProofs.thy ===== *)
theory SchedulerProofs
  imports Scheduler
begin

text \<open>
  The invariant of the multiprocessor simulation, by parts, and its preservation by the queue
  operations, the handlers and the delivery of events.
\<close>

section \<open>The invariant, by parts\<close>

text \<open>The ready queue holds exactly the processes \<open>xs\<close>, first to last.\<close>

definition qok :: "pcb list \<Rightarrow> nat option \<Rightarrow> nat option \<Rightarrow> int \<Rightarrow> nat list \<Rightarrow> bool" where
  "qok bs h t n xs \<longleftrightarrow> chain (\<lambda>p. link (bs ! p)) h xs \<and> t = last_opt xs \<and> n = int (length xs) \<and>
     set xs \<subseteq> {..<length bs}"

text \<open>Every process is where its state says, and in one place only.\<close>

definition in_state :: "process_state list \<Rightarrow> process_state \<Rightarrow> nat set" where
  "in_state sts st = {p. p < length sts \<and> sts ! p = st}"

definition procs_of :: "nat option list \<Rightarrow> nat list" where
  "procs_of cu = concat (map (\<lambda>c. case c of None \<Rightarrow> [] | Some p \<Rightarrow> [p]) cu)"

definition placed ::
  "process_state list \<Rightarrow> nat list \<Rightarrow> nat option list \<Rightarrow> (nat \<times> u32) list \<Rightarrow> nat \<Rightarrow> bool" where
  "placed sts xs cu io cr \<longleftrightarrow>
     set xs = in_state sts PROCESS_READY \<and> set (procs_of cu) = in_state sts PROCESS_RUNNING \<and>
     set (map fst io) = in_state sts PROCESS_WAITING \<and>
     in_state sts PROCESS_NEW = {cr..<length sts} \<and> cr \<le> length sts \<and>
     distinct xs \<and> distinct (procs_of cu) \<and> distinct (map fst io)"

definition wired :: "nat set \<Rightarrow> nat option list \<Rightarrow> cpu_data list \<Rightarrow> cpu_thread list \<Rightarrow> bool" where
  "wired hole cu cp th \<longleftrightarrow> length cp = length cu \<and> length th = length cu \<and>
     (\<forall>c < length cu. c \<notin> hole \<longrightarrow> ccurrent (cp ! c) = cu ! c \<and>
        cstate (cp ! c) = (if cu ! c = None then CPU_IDLE else CPU_RUNNING) \<and>
        (th ! c = Busy \<longleftrightarrow> cu ! c \<noteq> None))"

text \<open>The mutex of the ready queue is held only by a CPU on its way to \<open>idle\<close>, with an empty queue.\<close>

definition locked :: "nat option \<Rightarrow> cpu_thread list \<Rightarrow> nat list \<Rightarrow> bool" where
  "locked own th xs \<longleftrightarrow> (\<forall>c. own = Some c \<longleftrightarrow> c < length th \<and> th ! c = Entering) \<and>
     (own \<noteq> None \<longrightarrow> xs = [])"

text \<open>While a CPU sleeps, there are at least as many woken CPUs as ready processes.\<close>

definition served :: "cpu_thread list \<Rightarrow> nat list \<Rightarrow> bool" where
  "served th xs \<longleftrightarrow> (Waiting \<in> set th \<longrightarrow> length xs \<le> count_list th Signalled)"

definition prog_ok :: "op_t list \<Rightarrow> bool" where
  "prog_ok ps \<longleftrightarrow> (\<forall>i < length ps.
     (op_kind (ps ! i) = OP_CPU \<longrightarrow> Suc i < length ps \<and> op_kind (ps ! Suc i) \<noteq> OP_CPU) \<and>
     (op_kind (ps ! i) = OP_IO \<longrightarrow> Suc i < length ps \<and> op_kind (ps ! Suc i) = OP_CPU))"

fun kind_for :: "process_state \<Rightarrow> op_type" where
  "kind_for PROCESS_WAITING = OP_IO"
| "kind_for PROCESS_TERMINATED = OP_TERMINATE"
| "kind_for st = OP_CPU"

definition at_op :: "pcb \<Rightarrow> bool" where
  "at_op b \<longleftrightarrow> prog_ok (pops b) \<and> pcount b < length (pops b) \<and>
     op_kind (pops b ! pcount b) = kind_for (pstate b)"

definition progs :: "pcb list \<Rightarrow> bool" where
  "progs bs \<longleftrightarrow> list_all at_op bs"

section \<open>How the operations move the parts\<close>

lemma in_state_upd:
  "p < length sts \<Longrightarrow> in_state (sts[p := st]) st' =
     (if st' = st then insert p (in_state sts st') else in_state sts st' - {p})"
  by (auto simp: in_state_def nth_list_update)

lemma in_stateD: "p \<in> in_state sts st \<Longrightarrow> p < length sts \<and> sts ! p = st"
  by (simp add: in_state_def)

lemma in_state_disjoint: "p \<in> in_state sts st \<Longrightarrow> st \<noteq> st' \<Longrightarrow> p \<notin> in_state sts st'"
  by (simp add: in_state_def)

lemma placedD:
  assumes "placed sts xs cu io cr"
  shows "set xs = in_state sts PROCESS_READY" "set (procs_of cu) = in_state sts PROCESS_RUNNING"
    "set (map fst io) = in_state sts PROCESS_WAITING" "in_state sts PROCESS_NEW = {cr..<length sts}"
    "cr \<le> length sts" "distinct xs" "distinct (procs_of cu)" "distinct (map fst io)"
  using assms by (simp_all only: placed_def)

lemma placedI:
  assumes "set xs = in_state sts PROCESS_READY" "set (procs_of cu) = in_state sts PROCESS_RUNNING"
    "set (map fst io) = in_state sts PROCESS_WAITING" "in_state sts PROCESS_NEW = {cr..<length sts}"
    "cr \<le> length sts" "distinct xs" "distinct (procs_of cu)" "distinct (map fst io)"
  shows "placed sts xs cu io cr"
  using assms by (simp only: placed_def)

lemma procs_of_split:
  assumes "c < length cu"
  shows "procs_of cu = procs_of (take c cu) @ (case cu ! c of None \<Rightarrow> [] | Some p \<Rightarrow> [p]) @ procs_of (drop (Suc c) cu)"
  by (subst id_take_nth_drop [OF assms]) (simp only: procs_of_def map_append list.map concat_append concat.simps append_assoc)

lemma procs_of_update:
  assumes "c < length cu"
  shows "procs_of (cu[c := x]) = procs_of (take c cu) @ (case x of None \<Rightarrow> [] | Some p \<Rightarrow> [p]) @ procs_of (drop (Suc c) cu)"
  using assms
  by (simp only: upd_conv_take_nth_drop procs_of_def map_append list.map concat_append concat.simps append_assoc)

lemma procs_of_mem: "c < length cu \<Longrightarrow> cu ! c = Some p \<Longrightarrow> p \<in> set (procs_of cu)"
  by (simp add: procs_of_split)

lemma procs_of_leave:
  assumes "c < length cu" and "cu ! c = Some p" and "distinct (procs_of cu)"
  shows "distinct (procs_of (cu[c := None]))" "set (procs_of (cu[c := None])) = set (procs_of cu) - {p}"
  using assms(3) unfolding procs_of_update [OF assms(1)] procs_of_split [OF assms(1)] assms(2) by auto

lemma procs_of_enter:
  assumes "c < length cu" and "distinct (procs_of (cu[c := None]))" and "p \<notin> set (procs_of (cu[c := None]))"
  shows "distinct (procs_of (cu[c := Some p]))"
    "set (procs_of (cu[c := Some p])) = insert p (set (procs_of (cu[c := None])))"
  using assms(2,3) unfolding procs_of_update [OF assms(1)] by auto

lemma placed_dispatch:
  assumes "placed sts (p # ys) (cu[c := None]) io cr" and "c < length cu"
  shows "placed (sts[p := PROCESS_RUNNING]) ys (cu[c := Some p]) io cr" "p < length sts"
proof -
  note P = placedD [OF assms(1)]
  have p: "p \<in> in_state sts PROCESS_READY" using P(1) by auto
  then show len: "p < length sts" by (simp add: in_state_def)
  note d = p [THEN in_state_disjoint]
  have q: "p \<notin> set (procs_of (cu[c := None]))" unfolding P(2) by (rule d) simp
  note e = procs_of_enter [OF assms(2) P(7) q] and u = in_state_upd [OF len]
  have "p \<notin> {cr..<length sts}" using d [of PROCESS_NEW] P(4) by simp
  then have n: "in_state sts PROCESS_NEW - {p} = {cr..<length sts}"
    "in_state sts PROCESS_WAITING - {p} = set (map fst io)"
    "in_state sts PROCESS_READY - {p} = set ys"
    using P(1,3,4,6) d by (simp_all del: set_map, metis Diff_insert_absorb)
  show "placed (sts[p := PROCESS_RUNNING]) ys (cu[c := Some p]) io cr"
    by (rule placedI) (use P(2,5,6,7,8) n e in \<open>simp_all add: u del: set_map\<close>)
qed

text \<open>A process that leaves its CPU, or is created, becomes ready, waits or terminates.\<close>

lemma hole_at:
  assumes "placed sts xs cu io cr" and "c < length cu" and "cu ! c = Some p"
  shows "p < length sts" "p \<in> in_state sts PROCESS_RUNNING" "p \<notin> set xs"
    "distinct (procs_of (cu[c := None]))"
    "set (procs_of (cu[c := None])) = in_state sts PROCESS_RUNNING - {p}"
proof -
  note P = placedD [OF assms(1)]
  show p: "p \<in> in_state sts PROCESS_RUNNING"
    using procs_of_mem [OF assms(2,3)] by (simp only: P(2))
  then show "p < length sts" by (simp add: in_state_def)
  show "p \<notin> set xs" using in_state_disjoint [OF p] by (simp add: P(1))
  show "distinct (procs_of (cu[c := None]))"
    "set (procs_of (cu[c := None])) = in_state sts PROCESS_RUNNING - {p}"
    using procs_of_leave [OF assms(2,3) P(7)] by (simp_all only: P(2))
qed

lemma placed_leave:
  assumes "placed sts xs cu io cr" and "c < length cu" and "cu ! c = Some p"
  shows placed_preempt: "placed (sts[p := PROCESS_READY]) (xs @ [p]) (cu[c := None]) io cr"
    and placed_yield: "placed (sts[p := PROCESS_WAITING]) xs (cu[c := None]) (io @ [(p, t)]) cr"
    and placed_terminate: "placed (sts[p := PROCESS_TERMINATED]) xs (cu[c := None]) io cr"
proof -
  note P = placedD [OF assms(1)] and H = hole_at [OF assms]
  note d = in_state_disjoint [OF H(2)] and u = in_state_upd [OF H(1)]
  have "p \<notin> {cr..<length sts}" using d [of PROCESS_NEW] P(4) by simp
  then have n: "in_state sts PROCESS_NEW - {p} = {cr..<length sts}"
    "in_state sts PROCESS_READY - {p} = set xs" "in_state sts PROCESS_WAITING - {p} = set (map fst io)"
    "p \<notin> set (map fst io)"
    using P(1,3,4) d by (simp_all del: set_map)
  show "placed (sts[p := PROCESS_READY]) (xs @ [p]) (cu[c := None]) io cr"
    by (rule placedI) (use P(1,5,6,7,8) H n in \<open>simp_all add: u del: set_map\<close>)
  show "placed (sts[p := PROCESS_WAITING]) xs (cu[c := None]) (io @ [(p, t)]) cr"
    by (rule placedI) (use P(3,5,6,7,8) H n in \<open>simp_all add: u\<close>)
  show "placed (sts[p := PROCESS_TERMINATED]) xs (cu[c := None]) io cr"
    by (rule placedI) (use P(5,6,7,8) H n in \<open>simp_all add: u del: set_map\<close>)
qed

lemma placed_wake:
  assumes "placed sts xs cu ((p, t) # io) cr"
  shows "placed (sts[p := PROCESS_READY]) (xs @ [p]) cu io cr" and "p < length sts"
    and "p \<in> in_state sts PROCESS_WAITING" and "p \<notin> set xs"
proof -
  note P = placedD [OF assms(1)]
  show p: "p \<in> in_state sts PROCESS_WAITING" using P(3) by auto
  note d = in_state_disjoint [OF p]
  show len: "p < length sts" using p by (simp add: in_state_def)
  note u = in_state_upd [OF len]
  show x: "p \<notin> set xs" using d by (simp add: P(1))
  have n: "in_state sts PROCESS_NEW - {p} = {cr..<length sts}"
    "in_state sts PROCESS_RUNNING - {p} = set (procs_of cu)"
    "in_state sts PROCESS_WAITING - {p} = set (map fst io)"
    using P(2,3,4,8) d by (auto simp del: set_map)
  show "placed (sts[p := PROCESS_READY]) (xs @ [p]) cu io cr"
    by (rule placedI) (use P(1,5,6,7,8) n x in \<open>simp_all add: u del: set_map\<close>)
qed

lemma placed_create:
  assumes "placed sts xs cu io cr" and "cr < length sts"
  shows "placed (sts[cr := PROCESS_READY]) (xs @ [cr]) cu io (cr + 1)" and "cr \<notin> set xs"
    and "cr \<in> in_state sts PROCESS_NEW"
proof -
  note P = placedD [OF assms(1)]
  show p: "cr \<in> in_state sts PROCESS_NEW" using P(4) assms(2) by simp
  note d = in_state_disjoint [OF p]
  show x: "cr \<notin> set xs" using d by (simp add: P(1))
  note u = in_state_upd [OF assms(2)]
  have n: "in_state sts PROCESS_NEW - {cr} = {cr + 1..<length sts}"
    "in_state sts PROCESS_RUNNING - {cr} = set (procs_of cu)"
    "in_state sts PROCESS_WAITING - {cr} = set (map fst io)"
    using P(2,3,4) d by (auto simp del: set_map)
  show "placed (sts[cr := PROCESS_READY]) (xs @ [cr]) cu io (cr + 1)"
    by (rule placedI) (use P(1,5,6,7,8) assms(2) n x in \<open>simp_all add: u del: set_map\<close>)
qed

section \<open>The queue operations\<close>

text \<open>Two process tables that differ in the links only.\<close>

definition strip :: "pcb \<Rightarrow> pcb" where "strip b = b\<lparr>link := None\<rparr>"

definition same_procs :: "pcb list \<Rightarrow> pcb list \<Rightarrow> bool" where
  "same_procs bs bs' \<longleftrightarrow> map strip bs = map strip bs'"

lemma same_procs_refl [simp]: "same_procs bs bs"
  by (simp add: same_procs_def)

lemma same_procs_trans [trans]: "same_procs a b \<Longrightarrow> same_procs b c \<Longrightarrow> same_procs a c"
  by (simp add: same_procs_def)

lemma same_procs_length: "same_procs bs bs' \<Longrightarrow> length bs' = length bs"
  by (metis same_procs_def length_map)

lemma same_procs_nth: "same_procs bs bs' \<Longrightarrow> p < length bs \<Longrightarrow> strip (bs' ! p) = strip (bs ! p)"
  by (metis same_procs_def length_map nth_map)

lemma strip_fields:
  "pstate (strip b) = pstate b" "pops (strip b) = pops b" "pcount (strip b) = pcount b"
  "static_priority (strip b) = static_priority b"
  by (simp_all add: strip_def)

lemma at_op_strip: "at_op (strip b) = at_op b"
  by (simp add: at_op_def strip_fields)

lemma same_procs_link: "same_procs bs (bs[p := (bs ! p)\<lparr>link := l\<rparr>])"
proof (cases "p < length bs")
  case True
  have "map strip (bs[p := (bs ! p)\<lparr>link := l\<rparr>]) = (map strip bs)[p := map strip bs ! p]"
    using True by (simp only: map_update nth_map) (simp add: strip_def)
  then show ?thesis by (simp only: same_procs_def list_update_id)
qed (simp add: list_update_beyond)

lemma same_procs_states:
  assumes "same_procs bs bs'"
  shows "map pstate bs' = map pstate bs" and "progs bs' = progs bs"
proof -
  have "map pstate (map strip bs') = map pstate (map strip bs)"
    "list_all at_op (map strip bs') = list_all at_op (map strip bs)"
    using assms by (simp_all add: same_procs_def)
  then show "map pstate bs' = map pstate bs" "progs bs' = progs bs"
    by (simp_all add: strip_fields progs_def list_all_length at_op_strip o_def)
qed

lemma same_procs_field:
  "same_procs bs bs' \<Longrightarrow> p < length bs \<Longrightarrow> pstate (bs' ! p) = pstate (bs ! p) \<and>
     pops (bs' ! p) = pops (bs ! p) \<and> pcount (bs' ! p) = pcount (bs ! p) \<and>
     static_priority (bs' ! p) = static_priority (bs ! p)"
  by (metis same_procs_nth strip_fields)

lemma qok_link_cong: "map link bs' = map link bs \<Longrightarrow> qok bs' h t n xs = qok bs h t n xs"
proof -
  assume a: "map link bs' = map link bs"
  then have l: "length bs' = length bs" using map_eq_imp_length_eq by auto
  have "link (bs' ! p) = link (bs ! p)" if "p < length bs" for p
    using a l that by (metis nth_map)
  then have "set xs \<subseteq> {..<length bs} \<Longrightarrow>
      chain (\<lambda>p. link (bs' ! p)) h xs = chain (\<lambda>p. link (bs ! p)) h xs"
    by (intro chain_cong) auto
  with l show ?thesis by (auto simp: qok_def)
qed

lemma addProccess_ok:
  assumes q: "qok (pcbs s) (rq_head s) (rq_tail s) (rq_size s) xs"
    and "rq_owner s = None" and p: "p < length (pcbs s)" "p \<notin> set xs"
  shows "\<exists>bs h t. addProccess pk p s = Inr (signal_ready pk
      (s\<lparr>pcbs := bs, rq_head := h, rq_tail := t, rq_size := rq_size s + 1\<rparr>)) \<and>
    qok bs h t (rq_size s + 1) (xs @ [p]) \<and> same_procs (pcbs s) bs"
proof (cases "xs = []")
  case True
  let ?b = "(pcbs s)[p := (pcbs s ! p)\<lparr>link := None\<rparr>]"
  have "qok ?b (Some p) (Some p) (rq_size s + 1) (xs @ [p])"
    using q p True by (simp add: qok_def last_opt_def)
  moreover have "addProccess pk p s = Inr (signal_ready pk
      (s\<lparr>pcbs := ?b, rq_head := Some p, rq_tail := Some p, rq_size := rq_size s + 1\<rparr>))"
    using assms True
    by (simp add: addProccess_def lock_ready_queue_def qok_def set_pcb_def)
      (rule arg_cong [where f = "signal_ready pk"], rule os.equality, simp_all)
  ultimately show ?thesis using same_procs_link by blast
next
  case False
  then obtain l where l: "rq_tail s = Some l" "l = last xs" "l \<in> set xs"
    using q by (auto simp: qok_def last_opt_def)
  then have lp: "l \<noteq> p" "l < length (pcbs s)" using p q by (auto simp: qok_def)
  let ?b1 = "(pcbs s)[l := (pcbs s ! l)\<lparr>link := Some p\<rparr>]"
  let ?b = "?b1[p := (?b1 ! p)\<lparr>link := None\<rparr>]"
  have "chain ((\<lambda>x. link (pcbs s ! x))(last xs := Some p, p := None)) (rq_head s) (xs @ [p])"
    by (rule chain_append) (use q p False in \<open>simp_all add: qok_def\<close>)
  moreover have "chain (\<lambda>x. link (?b ! x)) (rq_head s) (xs @ [p]) \<longleftrightarrow>
      chain ((\<lambda>x. link (pcbs s ! x))(last xs := Some p, p := None)) (rq_head s) (xs @ [p])"
    by (rule chain_cong) (use q p l lp in \<open>auto simp: qok_def nth_list_update\<close>)
  ultimately have "qok ?b (rq_head s) (Some p) (rq_size s + 1) (xs @ [p])"
    using q p by (simp add: qok_def)
  moreover have "addProccess pk p s = Inr (signal_ready pk
      (s\<lparr>pcbs := ?b, rq_head := rq_head s, rq_tail := Some p, rq_size := rq_size s + 1\<rparr>))"
    using assms l lp
    by (simp add: addProccess_def lock_ready_queue_def set_pcb_def)
      (rule arg_cong [where f = "signal_ready pk"], rule os.equality, simp_all)
  moreover have "same_procs (pcbs s) ?b"
    using same_procs_trans [OF same_procs_link same_procs_link] .
  ultimately show ?thesis by blast
qed

lemma getNextProcess_none:
  assumes "qok (pcbs s) (rq_head s) (rq_tail s) (rq_size s) []" and "rq_owner s = None"
  shows "getNextProcess c s = Inr (None, s\<lparr>rq_owner := Some c\<rparr>)"
  using assms by (simp add: getNextProcess_def lock_ready_queue_def qok_def)

lemma getNextProcess_some:
  assumes q: "qok (pcbs s) (rq_head s) (rq_tail s) (rq_size s) (p # ys)" and o: "rq_owner s = None"
  shows "\<exists>bs h t. getNextProcess c s = Inr (Some p,
      s\<lparr>pcbs := bs, rq_head := h, rq_tail := t, rq_size := rq_size s - 1\<rparr>) \<and>
    qok bs h t (rq_size s - 1) ys \<and> same_procs (pcbs s) bs"
proof -
  let ?h = "link (pcbs s ! p)" let ?t = "if ?h = None then None else rq_tail s"
  let ?b = "(pcbs s)[p := (pcbs s ! p)\<lparr>link := None\<rparr>]"
  have c: "rq_head s = Some p" "chain (\<lambda>x. link (pcbs s ! x)) ?h ys" "p < length (pcbs s)"
    using q by (simp_all add: qok_def)
  have "p \<notin> set ys"
    using q chain_distinct [of "\<lambda>x. link (pcbs s ! x)" "rq_head s" "p # ys"] by (simp add: qok_def)
  then have "chain (\<lambda>x. link (?b ! x)) ?h ys"
    using c(2,3) by (subst chain_cong [where nxt' = "\<lambda>x. link (pcbs s ! x)"]) (auto simp: nth_list_update)
  moreover have "?t = last_opt ys"
    using c(2) q by (cases ys) (auto simp: qok_def last_opt_Cons)
  ultimately have "qok ?b ?h ?t (rq_size s - 1) ys" using q by (simp add: qok_def)
  moreover have "getNextProcess c s = Inr (Some p,
      s\<lparr>pcbs := ?b, rq_head := ?h, rq_tail := ?t, rq_size := rq_size s - 1\<rparr>)"
  proof (cases "link (pcbs s ! p)")
    case None
    with o c show ?thesis
      by (simp add: getNextProcess_def lock_ready_queue_def set_pcb_def Let_def)
  next
    case (Some l)
    with o c show ?thesis
      by (simp add: getNextProcess_def lock_ready_queue_def set_pcb_def Let_def)
  qed
  ultimately show ?thesis using same_procs_link by blast
qed

lemma signal_ready_fields [simp]:
  "pcbs (signal_ready pk s) = pcbs s" "rq_head (signal_ready pk s) = rq_head s"
  "rq_tail (signal_ready pk s) = rq_tail s" "rq_size (signal_ready pk s) = rq_size s"
  "rq_owner (signal_ready pk s) = rq_owner s" "current (signal_ready pk s) = current s"
  "cpus (signal_ready pk s) = cpus s" "io_queue (signal_ready pk s) = io_queue s"
  "sim_type (signal_ready pk s) = sim_type s" "sup_pos (signal_ready pk s) = sup_pos s"
  "processes_created (signal_ready pk s) = processes_created s"
  "processes_terminated (signal_ready pk s) = processes_terminated s"
  "exited (signal_ready pk s) = exited s" "time_slice (signal_ready pk s) = time_slice s"
  "simulator_time (signal_ready pk s) = simulator_time s"
  "context_switches (signal_ready pk s) = context_switches s"
  by (simp_all add: signal_ready_def Let_def)

lemma signal_ready_threads:
  obtains "Waiting \<notin> set (threads s)" "threads (signal_ready pk s) = threads s"
  | w where "w < length (threads s)" "threads s ! w = Waiting"
      "threads (signal_ready pk s) = (threads s)[w := Signalled]"
proof -
  let ?ws = "filter (\<lambda>i. threads s ! i = Waiting) [0..<length (threads s)]"
  show ?thesis
  proof (cases "?ws = []")
    case True
    then have "Waiting \<notin> set (threads s)" by (auto simp: filter_empty_conv in_set_conv_nth)
    with True that(1) show ?thesis by (simp add: signal_ready_def)
  next
    case False
    then have "?ws ! (pk mod length ?ws) \<in> set ?ws" by (intro nth_mem) simp
    then have w: "?ws ! (pk mod length ?ws) < length (threads s)" "threads s ! (?ws ! (pk mod length ?ws)) = Waiting"
      by simp_all
    show ?thesis by (rule that(2) [OF w]) (use False in \<open>simp add: signal_ready_def Let_def\<close>)
  qed
qed

lemma count_list_update:
  "w < length th \<Longrightarrow> count_list (th[w := x]) y + (if th ! w = y then 1 else 0) =
     count_list th y + (if x = y then 1 else 0)"
proof (induction th arbitrary: w)
  case (Cons a th)
  show ?case
  proof (cases w)
    case 0
    then show ?thesis by simp
  next
    case (Suc v)
    with Cons.prems Cons.IH [of v] show ?thesis
      by (cases "x = y"; cases "a = y"; cases "th ! v = y") auto
  qed
qed simp

lemma served_signal:
  assumes "served (threads s) xs"
  shows "served (threads (signal_ready pk s)) (xs @ [p])"
proof (rule signal_ready_threads [of s pk])
  assume "Waiting \<notin> set (threads s)" "threads (signal_ready pk s) = threads s"
  then show ?thesis by (simp add: served_def)
next
  fix w assume w: "w < length (threads s)" "threads s ! w = Waiting"
    "threads (signal_ready pk s) = (threads s)[w := Signalled]"
  then have "Waiting \<in> set (threads s)" by (metis nth_mem)
  with assms have "length xs \<le> count_list (threads s) Signalled" by (simp add: served_def)
  with w count_list_update [OF w(1), of Signalled Signalled] show ?thesis by (simp add: served_def)
qed

lemma served_take: "served th (p # ys) \<Longrightarrow> c < length th \<Longrightarrow> served (th[c := Busy]) ys"
proof -
  assume s: "served th (p # ys)" and c: "c < length th"
  have "Waiting \<in> set th" if "Waiting \<in> set (th[c := Busy])"
    using that set_update_subset_insert [of th c Busy] by auto
  with s count_list_update [OF c, of Busy Signalled] show ?thesis
    by (auto simp: served_def split: if_splits)
qed


section \<open>The invariant\<close>

text \<open>
  \<open>os_inv cr xs s\<close>: the ready queue is \<open>xs\<close> and the processes below \<open>cr\<close> have been created.
  \<open>os_hole\<close> is the same while a handler runs on CPU \<open>c\<close>, whose own record is in transition.
\<close>

definition terminated_count :: "pcb list \<Rightarrow> nat" where
  "terminated_count bs = count_list (map pstate bs) PROCESS_TERMINATED"

definition os_inv :: "nat \<Rightarrow> nat list \<Rightarrow> os \<Rightarrow> bool" where
  "os_inv cr xs s \<longleftrightarrow> qok (pcbs s) (rq_head s) (rq_tail s) (rq_size s) xs \<and>
     placed (map pstate (pcbs s)) xs (current s) (io_queue s) cr \<and>
     wired {} (current s) (cpus s) (threads s) \<and> locked (rq_owner s) (threads s) xs \<and>
     served (threads s) xs \<and> progs (pcbs s) \<and> length (pcbs s) = PROCESS_COUNT \<and>
     terminated_count (pcbs s) = processes_terminated s"

definition os_hole :: "nat \<Rightarrow> nat \<Rightarrow> nat list \<Rightarrow> os \<Rightarrow> bool" where
  "os_hole c cr xs s \<longleftrightarrow> qok (pcbs s) (rq_head s) (rq_tail s) (rq_size s) xs \<and>
     placed (map pstate (pcbs s)) xs ((current s)[c := None]) (io_queue s) cr \<and>
     wired {c} (current s) (cpus s) (threads s) \<and>
     rq_owner s = None \<and> Entering \<notin> set (threads s) \<and>
     served (threads s) xs \<and> progs (pcbs s) \<and> length (pcbs s) = PROCESS_COUNT \<and>
     terminated_count (pcbs s) = processes_terminated s \<and> c < length (current s) \<and>
     (\<forall>p. current s ! c = Some p \<longrightarrow> p < length (pcbs s) \<and> pstate (pcbs s ! p) \<noteq> PROCESS_RUNNING)"

text \<open>What no handler changes.\<close>

definition os_frame :: "os \<Rightarrow> os \<Rightarrow> bool" where
  "os_frame s s' \<longleftrightarrow> processes_created s' = processes_created s \<and> sim_type s' = sim_type s \<and>
     sup_pos s' = sup_pos s \<and> length (cpus s') = length (cpus s) \<and> exited s' = exited s \<and>
     simulator_time s' = simulator_time s \<and> time_slice s' = time_slice s"

lemma os_frame_refl [simp]: "os_frame s s"
  by (simp add: os_frame_def)

lemma os_frame_trans [trans]: "os_frame a b \<Longrightarrow> os_frame b c \<Longrightarrow> os_frame a c"
  by (simp add: os_frame_def)

lemma wired_lengths: "wired h cu cp th \<Longrightarrow> length cp = length cu \<and> length th = length cu"
  by (simp add: wired_def)

lemma wired_close:
  assumes "wired {c} cu cp th" and "c < length cu"
  shows "wired {} (cu[c := x]) (cp[c := \<lparr>ccurrent = x, cstate = (if x = None then CPU_IDLE else CPU_RUNNING), preemption_timer = t\<rparr>])
    (th[c := (if x = None then Entering else Busy)])"
  using assms by (auto simp: wired_def nth_list_update)

lemma cpu_data_eta:
  "d\<lparr>ccurrent := x, preemption_timer := t, cstate := st\<rparr> = \<lparr>ccurrent = x, cstate = st, preemption_timer = t\<rparr>"
  by (cases d) simp

lemma progs_update: "progs bs \<Longrightarrow> at_op b \<Longrightarrow> progs (bs[p := b])"
  by (auto simp: progs_def list_all_iff dest: set_update_subset_insert [THEN subsetD])

lemma progs_at: "progs bs \<Longrightarrow> p < length bs \<Longrightarrow> at_op (bs ! p)"
  by (simp add: progs_def list_all_length)

lemma terminated_update:
  "p < length bs \<Longrightarrow> pstate (bs ! p) \<noteq> PROCESS_TERMINATED \<Longrightarrow>
   terminated_count (bs[p := b]) = terminated_count bs + (if pstate b = PROCESS_TERMINATED then 1 else 0)"
  using count_list_update [of p "map pstate bs" "pstate b" PROCESS_TERMINATED]
  by (auto simp: terminated_count_def map_update)

lemma same_procs_terminated: "same_procs bs bs' \<Longrightarrow> terminated_count bs' = terminated_count bs"
  by (simp add: terminated_count_def same_procs_states)

lemma qok_state: "pstate b = st \<Longrightarrow> link b = link (bs ! p) \<Longrightarrow> qok (bs[p := b]) h t n xs = qok bs h t n xs"
  by (rule qok_link_cong) (metis list_update_id map_update)

text \<open>The handler's last act and the return of the thread to its loop.\<close>

lemma resume_empty:
  assumes h: "os_hole c cr [] s"
  shows "\<exists>s'. bindE (scheduleWorker c s) (cpu_loop_top c) = Inr s' \<and> os_inv cr [] s' \<and> os_frame s s'"
proof -
  let ?d = "cpus s ! c"
  let ?s = "s\<lparr>rq_owner := Some c, current := (current s)[c := None],
    context_switches := context_switches s + 1,
    cpus := (cpus s)[c := \<lparr>ccurrent = None, cstate = CPU_IDLE, preemption_timer = time_slice s\<rparr>],
    threads := (threads s)[c := Entering]\<rparr>"
  have w: "wired {c} (current s) (cpus s) (threads s)" and c: "c < length (current s)"
    using h by (simp_all add: os_hole_def)
  note l = wired_lengths [OF w]
  have r: "running_on (current s ! c) s = Inr False"
    using h by (cases "current s ! c") (auto simp: os_hole_def running_on_def)
  have "getNextProcess c s = Inr (None, s\<lparr>rq_owner := Some c\<rparr>)"
    by (rule getNextProcess_none) (use h in \<open>simp_all add: os_hole_def\<close>)
  then have "bindE (scheduleWorker c s) (cpu_loop_top c) = Inr ?s"
    using c l r by (simp add: scheduleWorker_def context_switch_def cpu_loop_top_def cpu_count_def cpu_data_eta)
  moreover have "os_inv cr [] ?s" unfolding os_inv_def
  proof (intro conjI)
    show "wired {} (current ?s) (cpus ?s) (threads ?s)"
      using wired_close [OF w c, of None "time_slice s"] by simp
    have "Entering \<notin> set (threads s)" using h by (simp add: os_hole_def)
    then show "locked (rq_owner ?s) (threads ?s) []"
      using c l by (auto simp: locked_def nth_list_update in_set_conv_nth)
    show "served (threads ?s) []" by (simp add: served_def)
  qed (use h in \<open>simp_all add: os_hole_def\<close>)
  moreover have "os_frame s ?s" by (simp add: os_frame_def)
  ultimately show ?thesis by (intro exI conjI)
qed

lemma resume_next:
  assumes h: "os_hole c cr (p # ys) s"
  shows "\<exists>s'. bindE (scheduleWorker c s) (cpu_loop_top c) = Inr s' \<and> os_inv cr ys s' \<and> os_frame s s'"
proof -
  have w: "wired {c} (current s) (cpus s) (threads s)" and c: "c < length (current s)"
    and o: "rq_owner s = None" and ent: "Entering \<notin> set (threads s)"
    and q: "qok (pcbs s) (rq_head s) (rq_tail s) (rq_size s) (p # ys)"
    and pl: "placed (map pstate (pcbs s)) (p # ys) ((current s)[c := None]) (io_queue s) cr"
    and sv: "served (threads s) (p # ys)" and pr: "progs (pcbs s)"
    and len: "length (pcbs s) = PROCESS_COUNT"
    and tc: "terminated_count (pcbs s) = processes_terminated s"
    using h by (simp_all add: os_hole_def)
  note l = wired_lengths [OF w]
  have r: "running_on (current s ! c) s = Inr False"
    using h by (cases "current s ! c") (auto simp: os_hole_def running_on_def)
  from getNextProcess_some [OF q o, of c] obtain bs hd tl where
    g: "getNextProcess c s = Inr (Some p,
      s\<lparr>pcbs := bs, rq_head := hd, rq_tail := tl, rq_size := rq_size s - 1\<rparr>)"
    and q': "qok bs hd tl (rq_size s - 1) ys" and sp: "same_procs (pcbs s) bs" by blast
  note pd = placed_dispatch [OF pl c]
  from pd(2) have p: "p < length (pcbs s)" by simp
  note sl = same_procs_length [OF sp] and ss = same_procs_states [OF sp] and sf = same_procs_field [OF sp p]
  have st: "pstate (pcbs s ! p) = PROCESS_READY"
    using placedD(1) [OF pl] in_stateD [of p "map pstate (pcbs s)" PROCESS_READY] p
    by (metis list.set_intros(1) nth_map)
  let ?b = "(bs ! p)\<lparr>pstate := PROCESS_RUNNING\<rparr>"
  let ?s = "s\<lparr>pcbs := bs[p := ?b], rq_head := hd, rq_tail := tl, rq_size := rq_size s - 1,
    current := (current s)[c := Some p], context_switches := context_switches s + 1,
    cpus := (cpus s)[c := \<lparr>ccurrent = Some p, cstate = CPU_RUNNING, preemption_timer = time_slice s\<rparr>],
    threads := (threads s)[c := Busy]\<rparr>"
  have "p < PROCESS_COUNT" using p len by simp
  then have "bindE (scheduleWorker c s) (cpu_loop_top c) = Inr ?s"
    using c l r g p sl
    by (simp add: scheduleWorker_def context_switch_def cpu_loop_top_def cpu_count_def cpu_data_eta set_pcb_def)
  moreover have "os_inv cr ys ?s" unfolding os_inv_def
  proof (intro conjI)
    show "qok (pcbs ?s) (rq_head ?s) (rq_tail ?s) (rq_size ?s) ys"
      using q' qok_state [of ?b PROCESS_RUNNING bs p] by simp
    show "placed (map pstate (pcbs ?s)) ys (current ?s) (io_queue ?s) cr"
      using pd(1) by (simp add: map_update ss(1))
    show "wired {} (current ?s) (cpus ?s) (threads ?s)"
      using wired_close [OF w c, of "Some p" "time_slice s"] by simp
    show "locked (rq_owner ?s) (threads ?s) ys"
      using o ent c l by (auto simp: locked_def nth_list_update in_set_conv_nth)
    show "served (threads ?s) ys" using served_take [OF sv] c l by simp
    have "at_op ?b"
      using progs_at [OF pr p] sf st by (simp add: at_op_def)
    then show "progs (pcbs ?s)" using pr ss(2) by (simp add: progs_update)
    show "length (pcbs ?s) = PROCESS_COUNT" using len sl by simp
    show "terminated_count (pcbs ?s) = processes_terminated ?s"
      using tc terminated_update [of p bs ?b] sf st p sl same_procs_terminated [OF sp] by simp
  qed
  moreover have "os_frame s ?s" by (simp add: os_frame_def)
  ultimately show ?thesis by (intro exI conjI)
qed

lemma resume:
  assumes "os_hole c cr xs s"
  shows "\<exists>s' ys. bindE (scheduleWorker c s) (cpu_loop_top c) = Inr s' \<and> os_inv cr ys s' \<and> os_frame s s'"
proof (cases xs)
  case Nil
  with assms have "os_hole c cr [] s" by simp
  from resume_empty [OF this] show ?thesis by auto
next
  case (Cons p ys)
  with assms have "os_hole c cr (p # ys) s" by simp
  from resume_next [OF this] show ?thesis by auto
qed

section \<open>Events on a CPU\<close>

lemma os_invD:
  assumes "os_inv cr xs s"
  shows "qok (pcbs s) (rq_head s) (rq_tail s) (rq_size s) xs"
    "placed (map pstate (pcbs s)) xs (current s) (io_queue s) cr"
    "wired {} (current s) (cpus s) (threads s)" "locked (rq_owner s) (threads s) xs"
    "served (threads s) xs" "progs (pcbs s)" "length (pcbs s) = PROCESS_COUNT"
    "terminated_count (pcbs s) = processes_terminated s"
  using assms by (simp_all add: os_inv_def)

lemma locked_free: "locked None th xs \<longleftrightarrow> Entering \<notin> set th"
  by (auto simp: locked_def in_set_conv_nth)

lemma wired_open: "wired {} cu cp th \<Longrightarrow> wired {c} cu (cp[c := x]) th"
  by (auto simp: wired_def nth_list_update)

lemma wired_signal: "wired h cu cp th \<Longrightarrow> th ! w = Waiting \<Longrightarrow> w < length th \<Longrightarrow> wired h cu cp (th[w := Signalled])"
  by (auto simp: wired_def nth_list_update)

lemma wired_signalled:
  "wired h (current s) (cpus s) (threads s) \<Longrightarrow> wired h (current s) (cpus s) (threads (signal_ready pk s))"
  by (rule signal_ready_threads [of s pk]) (simp_all add: wired_signal)

lemma entering_signalled:
  "Entering \<notin> set (threads s) \<Longrightarrow> Entering \<notin> set (threads (signal_ready pk s))"
  by (rule signal_ready_threads [of s pk]) (auto dest: set_update_subset_insert [THEN subsetD])

lemma running_at:
  assumes "os_inv cr xs s" and "c < length (current s)" and "current s ! c = Some p"
  shows "p < length (pcbs s)" "pstate (pcbs s ! p) = PROCESS_RUNNING" "p \<notin> set xs"
  using hole_at(1,2,3) [OF os_invD(2) [OF assms(1)] assms(2,3)] by (simp_all add: in_state_def)

text \<open>A process added to the ready queue, at a point where its CPU \<open>c\<close> is being given up.\<close>

lemma deliver_preempt:
  assumes i: "os_inv cr xs s" and o: "rq_owner s = None"
    and c: "c < length (current s)" and cu: "current s ! c = Some p"
  shows "\<exists>s' ys. deliver pk c CPU_PREEMPT s = Inr s' \<and> os_inv cr ys s' \<and> os_frame s s'"
proof -
  note I = os_invD [OF i] and R = running_at [OF i c cu]
  note l = wired_lengths [OF I(3)]
  let ?bs = "(pcbs s)[p := (pcbs s ! p)\<lparr>pstate := PROCESS_READY\<rparr>]"
  let ?cp = "(cpus s)[c := (cpus s ! c)\<lparr>cstate := CPU_PREEMPT\<rparr>]"
  let ?s1 = "s\<lparr>cpus := ?cp, pcbs := ?bs\<rparr>"
  have "qok (pcbs ?s1) (rq_head ?s1) (rq_tail ?s1) (rq_size ?s1) xs"
    using I(1) qok_state [of "(pcbs s ! p)\<lparr>pstate := PROCESS_READY\<rparr>" PROCESS_READY "pcbs s" p] by simp
  from addProccess_ok [OF this, of p pk] o R obtain bs hd tl where
    a: "addProccess pk p ?s1 = Inr (signal_ready pk
      (?s1\<lparr>pcbs := bs, rq_head := hd, rq_tail := tl, rq_size := rq_size s + 1\<rparr>))"
    and q: "qok bs hd tl (rq_size s + 1) (xs @ [p])" and sp: "same_procs ?bs bs" by auto
  let ?s2 = "signal_ready pk (?s1\<lparr>pcbs := bs, rq_head := hd, rq_tail := tl, rq_size := rq_size s + 1\<rparr>)"
  have ev: "deliver pk c CPU_PREEMPT s = bindE (scheduleWorker c ?s2) (cpu_loop_top c)"
    using c l cu R(1) a
    by (simp add: deliver_def call_handler_def preempt_def preemptWorker_def set_pcb_def)
  note sl = same_procs_length [OF sp] and ss = same_procs_states [OF sp]
  have "os_hole c cr (xs @ [p]) ?s2" unfolding os_hole_def
  proof (intro conjI)
    show "qok (pcbs ?s2) (rq_head ?s2) (rq_tail ?s2) (rq_size ?s2) (xs @ [p])" using q by simp
    show "placed (map pstate (pcbs ?s2)) (xs @ [p]) ((current ?s2)[c := None]) (io_queue ?s2) cr"
      using placed_preempt [OF I(2) c cu] by (simp add: ss(1) map_update)
    show "wired {c} (current ?s2) (cpus ?s2) (threads ?s2)"
      using wired_signalled [of "{c}" "?s1\<lparr>pcbs := bs, rq_head := hd, rq_tail := tl, rq_size := rq_size s + 1\<rparr>"]
        wired_open [OF I(3)] by simp
    show "rq_owner ?s2 = None" using o by simp
    show "Entering \<notin> set (threads ?s2)"
      by (rule entering_signalled) (use I(4) o locked_free in simp)
    show "served (threads ?s2) (xs @ [p])" by (rule served_signal) (use I(5) in simp)
    have "at_op ((pcbs s ! p)\<lparr>pstate := PROCESS_READY\<rparr>)"
      using progs_at [OF I(6) R(1)] R(2) by (simp add: at_op_def)
    then show "progs (pcbs ?s2)" using I(6) ss(2) by (simp add: progs_update)
    show "length (pcbs ?s2) = PROCESS_COUNT" using I(7) sl by simp
    show "terminated_count (pcbs ?s2) = processes_terminated ?s2"
      using I(8) terminated_update [OF R(1), of "(pcbs s ! p)\<lparr>pstate := PROCESS_READY\<rparr>"] R(2)
        same_procs_terminated [OF sp] by simp
    show "c < length (current ?s2)" using c by simp
    show "\<forall>q. current ?s2 ! c = Some q \<longrightarrow> q < length (pcbs ?s2) \<and> pstate (pcbs ?s2 ! q) \<noteq> PROCESS_RUNNING"
      using cu sl R(1) same_procs_field [OF sp, of p] by simp
  qed
  from resume [OF this] obtain s' ys where
    "bindE (scheduleWorker c ?s2) (cpu_loop_top c) = Inr s'" "os_inv cr ys s'" "os_frame ?s2 s'" by (elim exE conjE) (rule that)
  moreover have "os_frame s ?s2" by (simp add: os_frame_def)
  ultimately show ?thesis using ev os_frame_trans by auto
qed

lemma deliver_yield:
  assumes i: "os_inv cr xs s" and o: "rq_owner s = None"
    and c: "c < length (current s)" and cu: "current s ! c = Some p"
    and b: "b = pcbs s ! p" and k: "pcount b + 1 < length (pops b)" "op_kind (pops b ! (pcount b + 1)) = OP_IO"
  shows "\<exists>s' ys. deliver pk c CPU_YIELD (submit_io_request p t
      (s\<lparr>pcbs := (pcbs s)[p := b\<lparr>pcount := pcount b + 1\<rparr>]\<rparr>)) = Inr s' \<and> os_inv cr ys s' \<and> os_frame s s'"
proof -
  note I = os_invD [OF i] and R = running_at [OF i c cu]
  note l = wired_lengths [OF I(3)]
  let ?b = "b\<lparr>pcount := pcount b + 1, pstate := PROCESS_WAITING\<rparr>"
  let ?s2 = "s\<lparr>io_queue := io_queue s @ [(p, t)],
    cpus := (cpus s)[c := (cpus s ! c)\<lparr>cstate := CPU_YIELD\<rparr>], pcbs := (pcbs s)[p := ?b]\<rparr>"
  have ev: "deliver pk c CPU_YIELD (submit_io_request p t
      (s\<lparr>pcbs := (pcbs s)[p := b\<lparr>pcount := pcount b + 1\<rparr>]\<rparr>)) =
    bindE (scheduleWorker c ?s2) (cpu_loop_top c)"
    using c l cu R(1)
    by (simp add: deliver_def call_handler_def yield_def schedule_def set_pcb_def submit_io_request_def)
  have "os_hole c cr xs ?s2" unfolding os_hole_def
  proof (intro conjI)
    show "qok (pcbs ?s2) (rq_head ?s2) (rq_tail ?s2) (rq_size ?s2) xs"
      using I(1) qok_state [of ?b PROCESS_WAITING "pcbs s" p] b by simp
    show "placed (map pstate (pcbs ?s2)) xs ((current ?s2)[c := None]) (io_queue ?s2) cr"
      using placed_yield [OF I(2) c cu, of t] by (simp add: map_update)
    show "wired {c} (current ?s2) (cpus ?s2) (threads ?s2)" using wired_open [OF I(3)] by simp
    show "Entering \<notin> set (threads ?s2)" using I(4) o locked_free by simp
    have "at_op ?b" using progs_at [OF I(6) R(1)] k b by (simp add: at_op_def)
    then show "progs (pcbs ?s2)" using I(6) by (simp add: progs_update)
    show "terminated_count (pcbs ?s2) = processes_terminated ?s2"
      using I(8) terminated_update [OF R(1), of ?b] R(2) by simp
    show "\<forall>q. current ?s2 ! c = Some q \<longrightarrow> q < length (pcbs ?s2) \<and> pstate (pcbs ?s2 ! q) \<noteq> PROCESS_RUNNING"
      using cu R(1) by simp
  qed (use I o c in simp_all)
  from resume [OF this] obtain s' ys where
    "bindE (scheduleWorker c ?s2) (cpu_loop_top c) = Inr s'" "os_inv cr ys s'" "os_frame ?s2 s'" by (elim exE conjE) (rule that)
  moreover have "os_frame s ?s2" by (simp add: os_frame_def)
  ultimately show ?thesis using ev os_frame_trans by auto
qed

lemma deliver_terminate:
  assumes i: "os_inv cr xs s" and o: "rq_owner s = None"
    and c: "c < length (current s)" and cu: "current s ! c = Some p"
    and b: "b = pcbs s ! p" and k: "pcount b + 1 < length (pops b)"
      "op_kind (pops b ! (pcount b + 1)) = OP_TERMINATE"
  shows "\<exists>s' ys. deliver pk c CPU_TERMINATE
      (s\<lparr>pcbs := (pcbs s)[p := b\<lparr>pcount := pcount b + 1\<rparr>]\<rparr>) = Inr s' \<and> os_inv cr ys s' \<and> os_frame s s'"
proof -
  note I = os_invD [OF i] and R = running_at [OF i c cu]
  note l = wired_lengths [OF I(3)]
  let ?b = "b\<lparr>pcount := pcount b + 1, pstate := PROCESS_TERMINATED\<rparr>"
  let ?s2 = "s\<lparr>cpus := (cpus s)[c := (cpus s ! c)\<lparr>cstate := CPU_TERMINATE\<rparr>],
    processes_terminated := processes_terminated s + 1, pcbs := (pcbs s)[p := ?b]\<rparr>"
  have ev: "deliver pk c CPU_TERMINATE (s\<lparr>pcbs := (pcbs s)[p := b\<lparr>pcount := pcount b + 1\<rparr>]\<rparr>) =
    bindE (scheduleWorker c ?s2) (cpu_loop_top c)"
    using c l cu R(1)
    by (simp add: deliver_def call_handler_def terminate_def schedule_def set_pcb_def)
  have "os_hole c cr xs ?s2" unfolding os_hole_def
  proof (intro conjI)
    show "qok (pcbs ?s2) (rq_head ?s2) (rq_tail ?s2) (rq_size ?s2) xs"
      using I(1) qok_state [of ?b PROCESS_TERMINATED "pcbs s" p] b by simp
    show "placed (map pstate (pcbs ?s2)) xs ((current ?s2)[c := None]) (io_queue ?s2) cr"
      using placed_terminate [OF I(2) c cu] by (simp add: map_update)
    show "wired {c} (current ?s2) (cpus ?s2) (threads ?s2)" using wired_open [OF I(3)] by simp
    show "Entering \<notin> set (threads ?s2)" using I(4) o locked_free by simp
    have "at_op ?b" using progs_at [OF I(6) R(1)] k b by (simp add: at_op_def)
    then show "progs (pcbs ?s2)" using I(6) by (simp add: progs_update)
    show "terminated_count (pcbs ?s2) = processes_terminated ?s2"
      using I(8) terminated_update [OF R(1), of ?b] R(2) by simp
    show "\<forall>q. current ?s2 ! c = Some q \<longrightarrow> q < length (pcbs ?s2) \<and> pstate (pcbs ?s2 ! q) \<noteq> PROCESS_RUNNING"
      using cu R(1) by simp
  qed (use I o c in simp_all)
  from resume [OF this] obtain s' ys where
    "bindE (scheduleWorker c ?s2) (cpu_loop_top c) = Inr s'" "os_inv cr ys s'" "os_frame ?s2 s'" by (elim exE conjE) (rule that)
  moreover have "os_frame s ?s2" by (simp add: os_frame_def)
  ultimately show ?thesis using ev os_frame_trans by auto
qed

section \<open>Waking a process\<close>

lemma find_victim_range:
  "(\<forall>q. Some q \<in> set cur \<longrightarrow> q < length bs) \<Longrightarrow>
   \<exists>v. find_victim bs i cur m pr = Inr v \<and> (v = m \<or> (\<exists>j. v = Some j \<and> i \<le> j \<and> j < i + length cur))"
proof (induction bs i cur m pr rule: find_victim.induct)
  case (3 bs i q cur m pr)
  then have q: "q < length bs" by simp
  show ?case
  proof (cases "pstate (bs ! q) \<noteq> PROCESS_RUNNING")
    case True
    with q show ?thesis by auto
  next
    case False
    with q 3 show ?thesis by (cases "pr > static_priority (bs ! q)") force+
  qed
qed auto

lemma current_procs:
  assumes "os_inv cr xs s" and "Some q \<in> set (current s)"
  shows "q < length (pcbs s)"
proof -
  from assms(2) obtain c where "c < length (current s)" "current s ! c = Some q"
    by (auto simp: in_set_conv_nth)
  from running_at(1) [OF assms(1) this] show ?thesis .
qed

lemma force_preempt_ok:
  assumes i: "os_inv cr xs s" and o: "rq_owner s = None" and c: "c < length (current s)"
  shows "\<exists>s' ys. force_preempt pk c s = Inr s' \<and> os_inv cr ys s' \<and> os_frame s s'"
proof -
  note w = os_invD(3) [OF i]
  note l = wired_lengths [OF w]
  show ?thesis
  proof (cases "cstate (cpus s ! c) = CPU_RUNNING")
    case True
    with w c obtain p where "current s ! c = Some p" by (auto simp: wired_def split: if_splits)
    from deliver_preempt [OF i o c this, of pk] True c l show ?thesis
      by (simp add: force_preempt_def cpu_count_def)
  next
    case False
    with c l i show ?thesis by (auto simp: force_preempt_def cpu_count_def)
  qed
qed

text \<open>What has to hold before \<open>wake_up p\<close>; the process is not on any queue at that moment.\<close>

definition wakeable :: "nat \<Rightarrow> nat list \<Rightarrow> nat \<Rightarrow> os \<Rightarrow> bool" where
  "wakeable cr xs p s \<longleftrightarrow> qok (pcbs s) (rq_head s) (rq_tail s) (rq_size s) xs \<and>
     p < length (pcbs s) \<and> p \<notin> set xs \<and> pstate (pcbs s ! p) \<noteq> PROCESS_TERMINATED \<and>
     placed ((map pstate (pcbs s))[p := PROCESS_READY]) (xs @ [p]) (current s) (io_queue s) cr \<and>
     wired {} (current s) (cpus s) (threads s) \<and> locked (rq_owner s) (threads s) xs \<and>
     served (threads s) xs \<and>
     progs ((pcbs s)[p := (pcbs s ! p)\<lparr>pstate := PROCESS_READY\<rparr>]) \<and>
     length (pcbs s) = PROCESS_COUNT \<and> terminated_count (pcbs s) = processes_terminated s"

lemma wake_up_ok:
  assumes w: "wakeable cr xs p s" and o: "rq_owner s = None"
  shows "\<exists>s' ys. wake_up pk pk' p s = Inr s' \<and> os_inv cr ys s' \<and> os_frame s s'"
proof -
  have W: "qok (pcbs s) (rq_head s) (rq_tail s) (rq_size s) xs" "p < length (pcbs s)" "p \<notin> set xs"
    "pstate (pcbs s ! p) \<noteq> PROCESS_TERMINATED"
    "placed ((map pstate (pcbs s))[p := PROCESS_READY]) (xs @ [p]) (current s) (io_queue s) cr"
    "wired {} (current s) (cpus s) (threads s)" "locked (rq_owner s) (threads s) xs"
    "served (threads s) xs"
    "progs ((pcbs s)[p := (pcbs s ! p)\<lparr>pstate := PROCESS_READY\<rparr>])"
    "length (pcbs s) = PROCESS_COUNT" "terminated_count (pcbs s) = processes_terminated s"
    using w by (simp_all add: wakeable_def)
  let ?b = "(pcbs s ! p)\<lparr>pstate := PROCESS_READY\<rparr>"
  let ?s1 = "s\<lparr>pcbs := (pcbs s)[p := ?b]\<rparr>"
  have "qok (pcbs ?s1) (rq_head ?s1) (rq_tail ?s1) (rq_size ?s1) xs"
    using W(1) qok_state [of ?b PROCESS_READY "pcbs s" p] by simp
  from addProccess_ok [OF this, of p pk] o W(2,3) obtain bs hd tl where
    a: "addProccess pk p ?s1 = Inr (signal_ready pk
      (?s1\<lparr>pcbs := bs, rq_head := hd, rq_tail := tl, rq_size := rq_size s + 1\<rparr>))"
    and q: "qok bs hd tl (rq_size s + 1) (xs @ [p])"
    and sp: "same_procs (pcbs ?s1) bs" by auto
  let ?s1' = "?s1\<lparr>pcbs := bs, rq_head := hd, rq_tail := tl, rq_size := rq_size s + 1\<rparr>"
  let ?s2 = "signal_ready pk ?s1'"
  note sl = same_procs_length [OF sp] and ss = same_procs_states [OF sp]
  have i2: "os_inv cr (xs @ [p]) ?s2" unfolding os_inv_def
  proof (intro conjI)
    show "qok (pcbs ?s2) (rq_head ?s2) (rq_tail ?s2) (rq_size ?s2) (xs @ [p])" using q by simp
    show "placed (map pstate (pcbs ?s2)) (xs @ [p]) (current ?s2) (io_queue ?s2) cr"
      using W(5) by (simp add: ss(1) map_update)
    show "wired {} (current ?s2) (cpus ?s2) (threads ?s2)"
      using wired_signalled [of "{}" ?s1'] W(6) by simp
    have "Entering \<notin> set (threads s)" using W(7) o locked_free by simp
    then have "Entering \<notin> set (threads ?s2)" by (intro entering_signalled) simp
    then show "locked (rq_owner ?s2) (threads ?s2) (xs @ [p])" using o by (simp add: locked_free)
    show "served (threads ?s2) (xs @ [p])" by (rule served_signal) (use W(8) in simp)
    show "progs (pcbs ?s2)" using W(9) ss(2) by simp
    show "length (pcbs ?s2) = PROCESS_COUNT" using W(10) sl by simp
    show "terminated_count (pcbs ?s2) = processes_terminated ?s2"
      using W(11) terminated_update [OF W(2,4), of ?b] same_procs_terminated [OF sp] by simp
  qed
  have f2: "os_frame s ?s2" by (simp add: os_frame_def)
  show ?thesis
  proof (cases "sim_type s = PRIORITY")
    case False
    then have "wake_up pk pk' p s = Inr ?s2"
      using a W(2) by (simp add: wake_up_def set_pcb_def)
    with i2 f2 show ?thesis by (intro exI conjI)
  next
    case True
    have p: "p < length (pcbs ?s2)" using W(2) sl by simp
    let ?v = "find_victim (pcbs ?s2) 0 (current ?s2) None (static_priority (pcbs ?s2 ! p))"
    obtain v where v: "?v = Inr v" "v = None \<or> (\<exists>j. v = Some j \<and> j < length (current ?s2))"
      using find_victim_range [of "current ?s2" "pcbs ?s2" 0 None "static_priority (pcbs ?s2 ! p)"]
        current_procs [OF i2] by auto
    have e: "wake_up pk pk' p s = (case v of None \<Rightarrow> Inr ?s2 | Some i \<Rightarrow> force_preempt pk' i ?s2)"
      using a W(2) True p v(1) by (simp add: wake_up_def set_pcb_def cong: option.case_cong)
    show ?thesis
    proof (cases v)
      case None
      with e i2 f2 show ?thesis by (simp) (intro exI conjI)
    next
      case (Some j)
      with v have j: "j < length (current ?s2)" by simp
      have "rq_owner ?s2 = None" using o by simp
      from force_preempt_ok [OF i2 this j, of pk'] obtain s' ys where
        s': "force_preempt pk' j ?s2 = Inr s'" "os_inv cr ys s'" "os_frame ?s2 s'"
        by (elim exE conjE) (rule that)
      have "wake_up pk pk' p s = Inr s'" using e Some s'(1) by simp
      moreover have "os_frame s s'" using f2 s'(3) by (rule os_frame_trans)
      ultimately show ?thesis using s'(2) by (intro exI conjI)
    qed
  qed
qed

lemma wake_up_blocked:
  "p < length (pcbs s) \<Longrightarrow> rq_owner s \<noteq> None \<Longrightarrow> wake_up pk pk' p s = Inl Blocked"
  by (auto simp: wake_up_def set_pcb_def addProccess_def lock_ready_queue_def)

lemma wakeable_io:
  assumes i: "os_inv cr xs s" and q: "io_queue s = (p, t) # rest"
  shows "wakeable cr xs p (s\<lparr>pcbs := (pcbs s)[p := (pcbs s ! p)\<lparr>pcount := pcount (pcbs s ! p) + 1\<rparr>],
    io_queue := rest\<rparr>)" "p < length (pcbs s)"
proof -
  note I = os_invD [OF i]
  have pl: "placed (map pstate (pcbs s)) xs (current s) ((p, t) # rest) cr" using I(2) q by simp
  note P = placed_wake [OF pl]
  show p: "p < length (pcbs s)" using P(2) by simp
  have st: "pstate (pcbs s ! p) = PROCESS_WAITING" using P(3) p by (simp add: in_state_def)
  let ?b = "(pcbs s ! p)\<lparr>pcount := pcount (pcbs s ! p) + 1\<rparr>"
  have at: "at_op (pcbs s ! p)" by (rule progs_at [OF I(6) p])
  then have "at_op (?b\<lparr>pstate := PROCESS_READY\<rparr>)" using st by (auto simp: at_op_def prog_ok_def)
  moreover have "progs ((pcbs s)[p := ?b, p := b]) = progs ((pcbs s)[p := b])" for b by simp
  ultimately have pr: "progs ((pcbs s)[p := ?b\<lparr>pstate := PROCESS_READY\<rparr>])"
    using I(6) by (intro progs_update)
  have same: "map pstate ((pcbs s)[p := ?b]) = map pstate (pcbs s)"
    by (rule map_list_update_same [OF p]) simp
  show "wakeable cr xs p (s\<lparr>pcbs := (pcbs s)[p := ?b], io_queue := rest\<rparr>)"
    unfolding wakeable_def
  proof (intro conjI)
    show "qok (pcbs (s\<lparr>pcbs := (pcbs s)[p := ?b], io_queue := rest\<rparr>))
        (rq_head (s\<lparr>pcbs := (pcbs s)[p := ?b], io_queue := rest\<rparr>))
        (rq_tail (s\<lparr>pcbs := (pcbs s)[p := ?b], io_queue := rest\<rparr>))
        (rq_size (s\<lparr>pcbs := (pcbs s)[p := ?b], io_queue := rest\<rparr>)) xs"
      using I(1) qok_state [of ?b PROCESS_WAITING "pcbs s" p] st by simp
    show "placed ((map pstate (pcbs (s\<lparr>pcbs := (pcbs s)[p := ?b], io_queue := rest\<rparr>)))[p := PROCESS_READY])
        (xs @ [p]) (current (s\<lparr>pcbs := (pcbs s)[p := ?b], io_queue := rest\<rparr>))
        (io_queue (s\<lparr>pcbs := (pcbs s)[p := ?b], io_queue := rest\<rparr>)) cr"
      using P(1) same by simp
    show "terminated_count (pcbs (s\<lparr>pcbs := (pcbs s)[p := ?b], io_queue := rest\<rparr>)) =
        processes_terminated (s\<lparr>pcbs := (pcbs s)[p := ?b], io_queue := rest\<rparr>)"
      using I(8) same by (simp add: terminated_count_def)
  qed (use I p pr P(4) st in simp_all)
qed

lemma wakeable_new:
  assumes i: "os_inv cr xs s" and c: "cr < PROCESS_COUNT"
  shows "wakeable (cr + 1) xs cr s" "cr < length (pcbs s)"
proof -
  note I = os_invD [OF i]
  show cr: "cr < length (pcbs s)" using c I(7) by simp
  then have "cr < length (map pstate (pcbs s))" by simp
  note P = placed_create [OF I(2) this]
  have st: "pstate (pcbs s ! cr) = PROCESS_NEW" using P(3) cr by (simp add: in_state_def)
  have "at_op ((pcbs s ! cr)\<lparr>pstate := PROCESS_READY\<rparr>)"
    using progs_at [OF I(6) cr] st by (simp add: at_op_def)
  then have "progs ((pcbs s)[cr := (pcbs s ! cr)\<lparr>pstate := PROCESS_READY\<rparr>])"
    using I(6) by (intro progs_update)
  then show "wakeable (cr + 1) xs cr s"
    using I cr P(1,2) st by (simp add: wakeable_def)
qed

end
