(* ===== verification/SchedulerRuns.thy ===== *)
theory SchedulerRuns
  imports SchedulerProofs
begin

text \<open>
  The supervisor's steps, the idle CPUs and the reachable states of the simulation.
\<close>

section \<open>The supervisor\<close>

text \<open>An event either happens, keeping the invariant, or waits for the ready queue's mutex.\<close>

definition goes_on :: "nat \<Rightarrow> os \<Rightarrow> os c \<Rightarrow> bool" where
  "goes_on cr s r \<longleftrightarrow> (\<exists>s' ys. r = Inr s' \<and> os_inv cr ys s' \<and> os_frame s s') \<or>
     (r = Inl Blocked \<and> rq_owner s \<noteq> None)"

lemma goes_onI: "r = Inr s' \<Longrightarrow> os_inv cr ys s' \<Longrightarrow> os_frame s s' \<Longrightarrow> goes_on cr s r"
  by (auto simp: goes_on_def)

lemma preempt_blocked:
  assumes "rq_owner s \<noteq> None" "c < length (current s)" "c < length (cpus s)"
    "current s ! c = Some p" "p < length (pcbs s)"
  shows "deliver pk c CPU_PREEMPT s = Inl Blocked"
  using assms
  by (auto simp: deliver_def call_handler_def preempt_def preemptWorker_def set_pcb_def
      addProccess_def lock_ready_queue_def)

lemma schedule_blocked:
  assumes "rq_owner s \<noteq> None" "c < length (current s)" "current s ! c = Some p"
    "p < length (pcbs s)" "pstate (pcbs s ! p) \<noteq> PROCESS_RUNNING"
  shows "scheduleWorker c s = Inl Blocked"
  using assms by (auto simp: scheduleWorker_def running_on_def getNextProcess_def lock_ready_queue_def)

lemma prog_ok_time:
  "prog_ok ps \<Longrightarrow> prog_ok (ps[i := (ps ! i)\<lparr>op_time := t\<rparr>])"
proof -
  assume ok: "prog_ok ps"
  have k: "op_kind (ps[i := (ps ! i)\<lparr>op_time := t\<rparr>] ! j) = op_kind (ps ! j)" if "j < length ps" for j
    using that by (cases "j = i") auto
  show ?thesis using ok k by (fastforce simp: prog_ok_def)
qed

lemma at_op_time:
  assumes "at_op b"
  shows "at_op (b\<lparr>pops := (pops b)[pcount b := (pops b ! pcount b)\<lparr>op_time := t\<rparr>]\<rparr>)"
  using assms prog_ok_time [of "pops b" "pcount b" t] by (simp add: at_op_def)

lemma wired_timer:
  "wired h cu cp th \<Longrightarrow> c < length cp \<Longrightarrow> wired h cu (cp[c := (cp ! c)\<lparr>preemption_timer := t\<rparr>]) th"
  by (auto simp: wired_def nth_list_update)

lemma simulate_process_ok:
  assumes i: "os_inv cr xs s" and c: "c < length (current s)" and cu: "current s ! c = Some p"
  shows "goes_on cr s (simulate_process pk c p s)"
proof -
  note I = os_invD [OF i] and R = running_at [OF i c cu]
  note l = wired_lengths [OF I(3)]
  let ?b = "pcbs s ! p" let ?pc = "pops ?b ! pcount ?b"
  have at: "at_op ?b" by (rule progs_at [OF I(6) R(1)])
  then have pc: "pcount ?b < length (pops ?b)" "op_kind ?pc = OP_CPU" and ok: "prog_ok (pops ?b)"
    using R(2) by (simp_all add: at_op_def)
  have next_op: "pcount ?b + 1 < length (pops ?b)" "op_kind (pops ?b ! (pcount ?b + 1)) \<noteq> OP_CPU"
    using ok pc by (simp_all add: prog_ok_def)
  show ?thesis
  proof (cases "op_time ?pc > 0")
    case True
    let ?nb = "?b\<lparr>pops := (pops ?b)[pcount ?b := ?pc\<lparr>op_time := op_time ?pc - 1\<rparr>]\<rparr>"
    let ?t = "preemption_timer (cpus s ! c) - 1"
    let ?s1 = "s\<lparr>pcbs := (pcbs s)[p := ?nb],
      cpus := (cpus s)[c := (cpus s ! c)\<lparr>preemption_timer := ?t\<rparr>]\<rparr>"
    have e: "simulate_process pk c p s = (if ?t = 0 then deliver pk c CPU_PREEMPT ?s1 else Inr ?s1)"
      using True pc R(1) c l by (simp add: simulate_process_def set_pcb_def set_timer_def)
    have same: "map pstate ((pcbs s)[p := ?nb]) = map pstate (pcbs s)"
      by (rule map_list_update_same [OF R(1)]) simp
    have i1: "os_inv cr xs ?s1" unfolding os_inv_def
    proof (intro conjI)
      show "qok (pcbs ?s1) (rq_head ?s1) (rq_tail ?s1) (rq_size ?s1) xs"
        using I(1) qok_state [of ?nb PROCESS_RUNNING "pcbs s" p] R(2) by simp
      show "placed (map pstate (pcbs ?s1)) xs (current ?s1) (io_queue ?s1) cr"
        using I(2) same by simp
      show "wired {} (current ?s1) (cpus ?s1) (threads ?s1)"
        using wired_timer [OF I(3), of c ?t] c l by simp
      show "progs (pcbs ?s1)" using progs_update [OF I(6) at_op_time [OF at]] by simp
      show "terminated_count (pcbs ?s1) = processes_terminated ?s1"
        using I(8) same by (simp add: terminated_count_def)
    qed (use I in simp_all)
    have f: "os_frame s ?s1" by (simp add: os_frame_def)
    show ?thesis
    proof (cases "?t = 0 \<and> rq_owner s = None")
      case True
      have "rq_owner ?s1 = None" "c < length (current ?s1)" "current ?s1 ! c = Some p"
        using True c cu by simp_all
      from deliver_preempt [OF i1 this, of pk] obtain s' ys where
        "deliver pk c CPU_PREEMPT ?s1 = Inr s'" "os_inv cr ys s'" "os_frame ?s1 s'"
        by (elim exE conjE) (rule that)
      then show ?thesis using e True f by (intro goes_onI [of _ s' cr ys]) (auto intro: os_frame_trans)
    next
      case False
      show ?thesis
      proof (cases "?t = 0")
        case True
        with False have o: "rq_owner ?s1 \<noteq> None" by simp
        have "deliver pk c CPU_PREEMPT ?s1 = Inl Blocked"
          by (rule preempt_blocked [OF o, of c p]) (use c cu l R(1) in simp_all)
        then show ?thesis using e True o by (simp add: goes_on_def)
      next
        case False
        then show ?thesis using e i1 f by (intro goes_onI [of _ ?s1 cr xs]) simp_all
      qed
    qed
  next
    case False
    let ?nb = "?b\<lparr>pcount := pcount ?b + 1\<rparr>"
    let ?s1 = "s\<lparr>pcbs := (pcbs s)[p := ?nb]\<rparr>"
    let ?nk = "pops ?b ! (pcount ?b + 1)"
    have e: "simulate_process pk c p s = (case op_kind ?nk of
        OP_IO \<Rightarrow> deliver pk c CPU_YIELD (submit_io_request p (of_int (op_time ?nk)) ?s1)
      | OP_TERMINATE \<Rightarrow> deliver pk c CPU_TERMINATE ?s1 | OP_CPU \<Rightarrow> Inr ?s1)"
      using False pc R(1) next_op(1)
      by (simp add: simulate_process_def set_pcb_def cong: op_type.case_cong)
    show ?thesis
    proof (cases "op_kind ?nk = OP_IO")
      case io: True
      show ?thesis
      proof (cases "rq_owner s = None")
        case True
        from deliver_yield [OF i True c cu refl next_op(1) io, of pk "of_int (op_time ?nk)"]
        obtain s' ys where "deliver pk c CPU_YIELD (submit_io_request p (of_int (op_time ?nk)) ?s1) = Inr s'"
          "os_inv cr ys s'" "os_frame s s'" by (elim exE conjE) (rule that)
        then show ?thesis using e io by (intro goes_onI [of _ s' cr ys]) simp_all
      next
        case False
        then have "simulate_process pk c p s = Inl Blocked"
          using e io c cu l R(1)
          by (simp add: deliver_def call_handler_def yield_def schedule_def set_pcb_def
              submit_io_request_def schedule_blocked [where p = p])
        with False show ?thesis by (simp add: goes_on_def)
      qed
    next
      case False
      with next_op(2) have te: "op_kind ?nk = OP_TERMINATE" by (cases "op_kind ?nk") auto
      show ?thesis
      proof (cases "rq_owner s = None")
        case True
        from deliver_terminate [OF i True c cu refl next_op(1) te, of pk]
        obtain s' ys where "deliver pk c CPU_TERMINATE ?s1 = Inr s'"
          "os_inv cr ys s'" "os_frame s s'" by (elim exE conjE) (rule that)
        then show ?thesis using e te by (intro goes_onI [of _ s' cr ys]) simp_all
      next
        case False
        then have "simulate_process pk c p s = Inl Blocked"
          using e te c cu l R(1)
          by (simp add: deliver_def call_handler_def terminate_def schedule_def set_pcb_def
              schedule_blocked [where p = p])
        with False show ?thesis by (simp add: goes_on_def)
      qed
    qed
  qed
qed

lemma simulate_io_ok:
  assumes i: "os_inv cr xs s"
  shows "goes_on cr s (simulate_io pk pk' s)"
proof (cases "io_queue s")
  case Nil
  then show ?thesis using i by (intro goes_onI [of _ s cr xs]) (simp_all add: simulate_io_def)
next
  case (Cons r rest)
  obtain p t where r: "r = (p, t)" by (cases r)
  note q = Cons [unfolded r]
  note W = wakeable_io [OF i q]
  let ?s1 = "s\<lparr>pcbs := (pcbs s)[p := (pcbs s ! p)\<lparr>pcount := pcount (pcbs s ! p) + 1\<rparr>], io_queue := rest\<rparr>"
  show ?thesis
  proof (cases "t \<le> 0")
    case True
    have e: "simulate_io pk pk' s = wake_up pk pk' p ?s1"
      using q True W(2) by (simp add: simulate_io_def set_pcb_def)
    have f: "os_frame s ?s1" by (simp add: os_frame_def)
    show ?thesis
    proof (cases "rq_owner s = None")
      case o: True
      then have "rq_owner ?s1 = None" by simp
      from wake_up_ok [OF W(1) this, of pk pk'] obtain s' ys where
        "wake_up pk pk' p ?s1 = Inr s'" "os_inv cr ys s'" "os_frame ?s1 s'"
        by (elim exE conjE) (rule that)
      then show ?thesis using e f by (intro goes_onI [of _ s' cr ys]) (auto intro: os_frame_trans)
    next
      case False
      then have "wake_up pk pk' p ?s1 = Inl Blocked" using W(2) by (intro wake_up_blocked) simp_all
      with e False show ?thesis by (simp add: goes_on_def)
    qed
  next
    case False
    let ?s2 = "s\<lparr>io_queue := (p, t - 1) # rest\<rparr>"
    have "os_inv cr xs ?s2" using i q by (simp add: os_inv_def placed_def)
    moreover have "os_frame s ?s2" by (simp add: os_frame_def)
    moreover have "simulate_io pk pk' s = Inr ?s2" using q False by (simp add: simulate_io_def)
    ultimately show ?thesis by (intro goes_onI [of _ ?s2 cr xs])
  qed
qed

definition os_ok :: "os \<Rightarrow> bool" where
  "os_ok s \<longleftrightarrow> (\<exists>xs. os_inv (processes_created s) xs s) \<and> sup_pos s \<le> length (cpus s) + 2"

lemma os_ok_goes_on:
  assumes "goes_on cr s r" and "r = Inr s'" and "processes_created s = cr"
  shows "\<exists>ys. os_inv (processes_created s') ys s'" and "os_frame s s'"
  using assms by (auto simp: goes_on_def os_frame_def)

lemma os_inv_cong:
  "os_inv cr xs s \<Longrightarrow> pcbs s' = pcbs s \<Longrightarrow> rq_head s' = rq_head s \<Longrightarrow> rq_tail s' = rq_tail s \<Longrightarrow>
   rq_size s' = rq_size s \<Longrightarrow> rq_owner s' = rq_owner s \<Longrightarrow> current s' = current s \<Longrightarrow>
   cpus s' = cpus s \<Longrightarrow> threads s' = threads s \<Longrightarrow> io_queue s' = io_queue s \<Longrightarrow>
   processes_terminated s' = processes_terminated s \<Longrightarrow> os_inv cr xs s'"
  by (simp add: os_inv_def)

lemma creat_ok:
  assumes i: "os_inv (processes_created s) xs s"
  shows "(\<exists>s' ys. simulate_creat pk pk' s = Inr s' \<and> os_inv (processes_created s') ys s' \<and>
      sup_pos s' = sup_pos s \<and> length (cpus s') = length (cpus s)) \<or>
    (simulate_creat pk pk' s = Inl Blocked \<and> rq_owner s \<noteq> None)"
proof (cases "simulator_time s mod 10 = 0 \<and> processes_created s < PROCESS_COUNT")
  case True
  then have "processes_created s < PROCESS_COUNT" by simp
  note W = wakeable_new [OF i this]
  show ?thesis
  proof (cases "rq_owner s = None")
    case o: True
    from wake_up_ok [OF W(1) o, of pk pk'] obtain s' ys where
      s': "wake_up pk pk' (processes_created s) s = Inr s'" "os_inv (processes_created s + 1) ys s'" "os_frame s s'"
      by (elim exE conjE) (rule that)
    let ?s = "s'\<lparr>processes_created := processes_created s' + 1\<rparr>"
    have c: "processes_created s' = processes_created s" using s'(3) by (simp add: os_frame_def)
    have "simulate_creat pk pk' s = Inr ?s" using True s'(1) by (simp add: simulate_creat_def)
    moreover have "os_inv (processes_created ?s) ys ?s"
      using s'(2) c by (intro os_inv_cong [of _ _ s' ?s]) simp_all
    moreover have "sup_pos ?s = sup_pos s" "length (cpus ?s) = length (cpus s)"
      using s'(3) by (simp_all add: os_frame_def)
    ultimately show ?thesis by (intro disjI1 exI conjI)
  next
    case False
    then show ?thesis using True W(2) by (simp add: simulate_creat_def wake_up_blocked)
  qed
next
  case False
  then have "simulate_creat pk pk' s = Inr s" by (simp only: simulate_creat_def if_False)
  with i show ?thesis by (intro disjI1 exI conjI) simp_all
qed

lemma supervisor_step_ok:
  assumes "os_ok s"
  shows "(\<exists>s'. supervisor_step pk pk' s = Inr s' \<and> os_ok s') \<or>
    (supervisor_step pk pk' s = Inl Blocked \<and> rq_owner s \<noteq> None)"
proof -
  from assms obtain xs where i: "os_inv (processes_created s) xs s" and sp: "sup_pos s \<le> length (cpus s) + 2"
    by (auto simp: os_ok_def)
  note l = wired_lengths [OF os_invD(3) [OF i]]
  consider "sup_pos s = 0" | "0 < sup_pos s" "sup_pos s \<le> length (cpus s)"
    | "sup_pos s = length (cpus s) + 1" | "sup_pos s = length (cpus s) + 2"
    using sp by linarith
  then show ?thesis
  proof cases
    case 1
    let ?s = "if processes_terminated s \<ge> PROCESS_COUNT then s\<lparr>exited := True\<rparr>
      else (print_gantt_line s)\<lparr>sup_pos := 1\<rparr>"
    have "os_inv (processes_created ?s) xs ?s"
      using i by (simp add: os_inv_cong [OF i] print_gantt_line_def)
    moreover have "sup_pos ?s \<le> length (cpus ?s) + 2"
      using 1 by (simp add: print_gantt_line_def)
    ultimately have "os_ok ?s" unfolding os_ok_def by (intro conjI exI)
    moreover have "supervisor_step pk pk' s = Inr ?s" using 1 by (simp add: supervisor_step_def)
    ultimately show ?thesis by (intro disjI1 exI conjI)
  next
    case 2
    let ?c = "sup_pos s - 1"
    have c: "?c < length (current s)" using 2 l by simp
    then have cc: "ccurrent (cpus s ! ?c) = current s ! ?c"
      using os_invD(3) [OF i] by (simp add: wired_def)
    have e: "supervisor_step pk pk' s = bindE (case current s ! ?c of None \<Rightarrow> Inr s
        | Some p \<Rightarrow> simulate_process pk ?c p s) (\<lambda>s. Inr (s\<lparr>sup_pos := sup_pos s + 1\<rparr>))"
      using 2 c l cc by (simp add: supervisor_step_def cpu_count_def)
    have "goes_on (processes_created s) s (case current s ! ?c of None \<Rightarrow> Inr s
        | Some p \<Rightarrow> simulate_process pk ?c p s)"
      using simulate_process_ok [OF i c] i by (auto simp: goes_on_def split: option.splits)
    then show ?thesis
    proof (unfold goes_on_def, elim disjE exE conjE)
      fix s' ys
      assume s': "(case current s ! ?c of None \<Rightarrow> Inr s | Some p \<Rightarrow> simulate_process pk ?c p s) = Inr s'"
        "os_inv (processes_created s) ys s'" "os_frame s s'"
      let ?s = "s'\<lparr>sup_pos := sup_pos s' + 1\<rparr>"
      have "os_inv (processes_created ?s) ys ?s"
        using s'(2,3) by (intro os_inv_cong [of _ _ s' ?s]) (simp_all add: os_frame_def)
      moreover have "sup_pos ?s \<le> length (cpus ?s) + 2" using s'(3) 2 by (simp add: os_frame_def)
      ultimately have "os_ok ?s" unfolding os_ok_def by (intro conjI exI)
      moreover have "supervisor_step pk pk' s = Inr ?s" using e s'(1) by simp
      ultimately show ?thesis by (intro disjI1 exI conjI)
    next
      assume "(case current s ! ?c of None \<Rightarrow> Inr s | Some p \<Rightarrow> simulate_process pk ?c p s) = Inl Blocked"
        "rq_owner s \<noteq> None"
      with e show ?thesis by simp
    qed
  next
    case 3
    have e: "supervisor_step pk pk' s = bindE (simulate_io pk pk' s) (\<lambda>s. Inr (s\<lparr>sup_pos := sup_pos s + 1\<rparr>))"
      using 3 by (simp add: supervisor_step_def cpu_count_def)
    from simulate_io_ok [OF i, of pk pk'] show ?thesis
    proof (unfold goes_on_def, elim disjE exE conjE)
      fix s' ys
      assume s': "simulate_io pk pk' s = Inr s'" "os_inv (processes_created s) ys s'" "os_frame s s'"
      let ?s = "s'\<lparr>sup_pos := sup_pos s' + 1\<rparr>"
      have "os_inv (processes_created ?s) ys ?s"
        using s'(2,3) by (intro os_inv_cong [of _ _ s' ?s]) (simp_all add: os_frame_def)
      moreover have "sup_pos ?s \<le> length (cpus ?s) + 2" using s'(3) 3 by (simp add: os_frame_def)
      ultimately have "os_ok ?s" unfolding os_ok_def by (intro conjI exI)
      moreover have "supervisor_step pk pk' s = Inr ?s" using e s'(1) by simp
      ultimately show ?thesis by (intro disjI1 exI conjI)
    next
      assume "simulate_io pk pk' s = Inl Blocked" "rq_owner s \<noteq> None"
      with e show ?thesis by simp
    qed
  next
    case 4
    have e: "supervisor_step pk pk' s = bindE (simulate_creat pk pk' s) (\<lambda>s.
        Inr (s\<lparr>simulator_time := simulator_time s + 1, sup_pos := 0\<rparr>))"
      using 4 by (simp add: supervisor_step_def cpu_count_def)
    from creat_ok [OF i, of pk pk'] show ?thesis
    proof (elim disjE exE conjE)
      fix s' ys
      assume s': "simulate_creat pk pk' s = Inr s'" "os_inv (processes_created s') ys s'"
      let ?s = "s'\<lparr>simulator_time := simulator_time s' + 1, sup_pos := 0\<rparr>"
      have "os_inv (processes_created ?s) ys ?s"
        using s'(2) by (intro os_inv_cong [of _ _ s' ?s]) simp_all
      moreover have "sup_pos ?s \<le> length (cpus ?s) + 2" by simp
      ultimately have "os_ok ?s" unfolding os_ok_def by (intro conjI exI)
      moreover have "supervisor_step pk pk' s = Inr ?s" using e s'(1) by simp
      ultimately show ?thesis by (intro disjI1 exI conjI)
    next
      assume "simulate_creat pk pk' s = Inl Blocked" "rq_owner s \<noteq> None"
      with e show ?thesis by simp
    qed
  qed
qed

section \<open>The idle CPUs\<close>

lemma idle_wait_ok:
  assumes "os_ok s" and n: "n < length (threads s)" "threads s ! n = Entering"
  shows "\<exists>s'. idle_wait n s = Inr s' \<and> os_ok s'"
proof -
  from assms(1) obtain xs where i: "os_inv (processes_created s) xs s" and sp: "sup_pos s \<le> length (cpus s) + 2"
    by (auto simp: os_ok_def)
  note I = os_invD [OF i]
  have o: "rq_owner s = Some n" using I(4) n by (simp add: locked_def)
  then have xs: "xs = []" using I(4) by (simp add: locked_def)
  have other: "threads s ! d \<noteq> Entering" if "d < length (threads s)" "d \<noteq> n" for d
  proof
    assume "threads s ! d = Entering"
    then have "rq_owner s = Some d" using I(4) that by (simp add: locked_def)
    with o that show False by simp
  qed
  let ?s = "s\<lparr>rq_owner := None, threads := (threads s)[n := Waiting]\<rparr>"
  have "os_inv (processes_created ?s) xs ?s" unfolding os_inv_def
  proof (intro conjI)
    show "wired {} (current ?s) (cpus ?s) (threads ?s)"
      using I(3) n by (auto simp: wired_def nth_list_update)
    show "locked (rq_owner ?s) (threads ?s) xs"
      using other n by (auto simp: locked_def nth_list_update)
    show "served (threads ?s) xs" by (simp add: xs served_def)
  qed (use I in simp_all)
  then have "os_ok ?s" using sp by (auto simp: os_ok_def)
  moreover have "idle_wait n s = Inr ?s" using n by (simp add: idle_wait_def)
  ultimately show ?thesis by (intro exI conjI)
qed

lemma idle_return_ok:
  assumes "os_ok s" and n: "n < length (threads s)" "threads s ! n \<in> {Waiting, Signalled}"
    and r: "idle_return n s = Inr s'"
  shows "os_ok s'"
proof -
  from assms(1) obtain xs where i: "os_inv (processes_created s) xs s" and sp: "sup_pos s \<le> length (cpus s) + 2"
    by (auto simp: os_ok_def)
  note I = os_invD [OF i]
  note l = wired_lengths [OF I(3)]
  from r have o: "rq_owner s = None"
    by (cases "rq_owner s") (simp_all add: idle_return_def lock_ready_queue_def)
  then have r': "bindE (scheduleWorker n s) (cpu_loop_top n) = Inr s'"
    using r by (simp add: idle_return_def lock_ready_queue_def schedule_def)
  have n': "n < length (current s)" using n l by simp
  have "current s ! n = None" using I(3) n n' by (auto simp: wired_def)
  then have up: "(current s)[n := None] = current s" by (metis list_update_id)
  have "os_hole n (processes_created s) xs s" unfolding os_hole_def
  proof (intro conjI)
    show "placed (map pstate (pcbs s)) xs ((current s)[n := None]) (io_queue s) (processes_created s)"
      using I(2) up by simp
    show "wired {n} (current s) (cpus s) (threads s)" using I(3) by (simp add: wired_def)
    show "Entering \<notin> set (threads s)" using I(4) o by (simp add: locked_free)
    show "\<forall>p. current s ! n = Some p \<longrightarrow> p < length (pcbs s) \<and> pstate (pcbs s ! p) \<noteq> PROCESS_RUNNING"
      using \<open>current s ! n = None\<close> by simp
  qed (use I o n' in simp_all)
  from resume [OF this] r' obtain ys where "os_inv (processes_created s) ys s'" "os_frame s s'" by auto
  then show ?thesis using sp by (auto simp: os_ok_def os_frame_def)
qed

section \<open>Reachable states\<close>

lemma progs_processes: "progs processes"
  by code_simp

lemma start_ok:
  assumes "start_simulator n q ty = Inr s"
  shows "os_ok s"
proof -
  have len: "length processes = 8" by (simp add: processes_def)
  have st: "map pstate processes = replicate 8 PROCESS_NEW" by code_simp
  have pr: "procs_of (replicate n None) = []" by (induction n) (simp_all add: procs_of_def)
  have "placed (map pstate processes) [] (replicate n None) [] 0"
    by (simp only: st) (auto simp: placed_def in_state_def pr)
  moreover have "terminated_count processes = 0" by (simp only: terminated_count_def st) code_simp
  moreover have "locked None (replicate n Waiting) []" by (simp add: locked_def)
  ultimately have "os_inv 0 [] s"
    using assms progs_processes len
    by (auto simp: start_simulator_def os_inv_def qok_def wired_def served_def PROCESS_COUNT_def)
  moreover have "processes_created s = 0" "sup_pos s = 0"
    using assms by (auto simp: start_simulator_def)
  ultimately show ?thesis by (auto simp: os_ok_def)
qed

lemma step_ok: "os_ok s \<Longrightarrow> os_step s s' \<Longrightarrow> os_ok s'"
proof (erule os_step.cases)
  fix t pk pk' t' assume "os_ok s" "s = t" "s' = t'" "supervisor_step pk pk' t = Inr t'"
  then show ?thesis using supervisor_step_ok [of t pk pk'] by auto
next
  fix t n t' assume "os_ok s" "s = t" "s' = t'" "n < length (threads t)" "threads t ! n = Entering"
    "idle_wait n t = Inr t'"
  then show ?thesis using idle_wait_ok [of t n] by auto
next
  fix t n t' assume "os_ok s" "s = t" "s' = t'" "n < length (threads t)"
    "threads t ! n \<in> {Waiting, Signalled}" "idle_return n t = Inr t'"
  then show ?thesis using idle_return_ok [of t n t'] by simp
qed

lemma reachable_ok: "reachable s0 s \<Longrightarrow> os_ok s0 \<Longrightarrow> os_ok s"
  by (induction rule: reachable.induct) (auto intro: step_ok)

end
