(* ===== verification/SchedulerProps.thy ===== *)
theory SchedulerProps
  imports SchedulerRuns Interfaces
begin

text \<open>
  What the simulation guarantees in every reachable state, the ready queue as an instance of
  the queue interface, and the choice of a victim under static priorities.
\<close>

text \<open>The ready queue as the list found by following the links from its head.\<close>

definition ready_list :: "os \<Rightarrow> nat list" where
  "ready_list s = walk (length (pcbs s)) (\<lambda>p. link (pcbs s ! p)) (rq_head s)"

lemma qok_ready_list: "qok (pcbs s) (rq_head s) (rq_tail s) (rq_size s) xs \<Longrightarrow> ready_list s = xs"
  using chain_length [of "\<lambda>p. link (pcbs s ! p)" "rq_head s" xs "length (pcbs s)"]
  by (simp add: ready_list_def qok_def walk_chain)

lemma os_ok_list:
  "os_ok s \<Longrightarrow> os_inv (processes_created s) (ready_list s) s"
proof -
  assume "os_ok s"
  then obtain xs where i: "os_inv (processes_created s) xs s" by (auto simp: os_ok_def)
  with qok_ready_list [OF os_invD(1) [OF i]] show ?thesis by simp
qed

section \<open>Safety\<close>

lemma process_places:
  assumes "start_simulator n q ty = Inr s0" and "reachable s0 s"
  shows "distinct (ready_list s @ procs_of (current s) @ map fst (io_queue s))"
    and "p < PROCESS_COUNT \<Longrightarrow> p \<in> set (ready_list s) \<longleftrightarrow> pstate (pcbs s ! p) = PROCESS_READY"
    and "p < PROCESS_COUNT \<Longrightarrow> p \<in> set (procs_of (current s)) \<longleftrightarrow> pstate (pcbs s ! p) = PROCESS_RUNNING"
    and "p < PROCESS_COUNT \<Longrightarrow> p \<in> set (map fst (io_queue s)) \<longleftrightarrow> pstate (pcbs s ! p) = PROCESS_WAITING"
proof -
  have "os_ok s" using assms start_ok reachable_ok by blast
  then have i: "os_inv (processes_created s) (ready_list s) s" by (rule os_ok_list)
  note P = placedD [OF os_invD(2) [OF i]] and len = os_invD(7) [OF i]
  have "in_state sts st \<inter> in_state sts st' = {}" if "st \<noteq> st'" for sts st st'
    using that by (auto simp: in_state_def)
  then show "distinct (ready_list s @ procs_of (current s) @ map fst (io_queue s))"
    using P(1,2,3,6,7,8) by (simp del: set_map add: Int_Un_distrib)
  show "p \<in> set (ready_list s) \<longleftrightarrow> pstate (pcbs s ! p) = PROCESS_READY"
    "p \<in> set (procs_of (current s)) \<longleftrightarrow> pstate (pcbs s ! p) = PROCESS_RUNNING"
    "p \<in> set (map fst (io_queue s)) \<longleftrightarrow> pstate (pcbs s ! p) = PROCESS_WAITING"
    if "p < PROCESS_COUNT"
    using that len by (simp_all only: P) (simp_all add: in_state_def)
qed


lemma ex_start: "\<exists>s. start_simulator 2 (- 1) FIFO = Inr s"
  by (simp add: start_simulator_def)




lemma step_outcomes:
  assumes "start_simulator n q ty = Inr s0" and "reachable s0 s" and "\<not> exited s"
  shows "supervisor_step pk pk' s = Inl e \<Longrightarrow> e = Blocked" and "\<exists>s'. os_step s s'"
proof -
  have ok: "os_ok s" using assms(1,2) start_ok reachable_ok by blast
  show "e = Blocked" if "supervisor_step pk pk' s = Inl e"
    using supervisor_step_ok [OF ok, of pk pk'] that by auto
  show "\<exists>s'. os_step s s'"
  proof (cases "rq_owner s")
    case None
    with supervisor_step_ok [OF ok, of 0 0] obtain s' where "supervisor_step 0 0 s = Inr s'" by auto
    with assms(3) show ?thesis by (blast intro: os_step.supervisor)
  next
    case (Some c)
    then have c: "c < length (threads s) \<and> threads s ! c = Entering"
      using os_invD(4) [OF os_ok_list [OF ok]] unfolding locked_def by blast
    with idle_wait_ok [OF ok, of c] obtain s' where "idle_wait c s = Inr s'" by blast
    with assms(3) c show ?thesis by (blast intro: os_step.wait)
  qed
qed



section \<open>Work conservation\<close>

lemma signalled_cpus:
  assumes "start_simulator n q ty = Inr s0" and "reachable s0 s"
    and "c < length (threads s)" and "threads s ! c = Waiting" and "rq_head s \<noteq> None"
  shows "\<exists>d < length (threads s). threads s ! d = Signalled"
    and "length (ready_list s) \<le> count_list (threads s) Signalled"
proof -
  have "os_ok s" using assms(1,2) start_ok reachable_ok by blast
  then have i: "os_inv (processes_created s) (ready_list s) s" by (rule os_ok_list)
  have "Waiting \<in> set (threads s)" using assms(3,4) by (metis nth_mem)
  with os_invD(5) [OF i] show le: "length (ready_list s) \<le> count_list (threads s) Signalled"
    by (simp add: served_def)
  have "ready_list s \<noteq> []"
    using os_invD(1) [OF i] assms(5) by (auto simp: qok_def)
  with le have "count_list (threads s) Signalled \<noteq> 0" by (cases "ready_list s") auto
  then have "Signalled \<in> set (threads s)" by (simp add: count_list_0_iff)
  then show "\<exists>d < length (threads s). threads s ! d = Signalled" by (simp add: in_set_conv_nth)
qed



text \<open>A start of the program: two CPUs, both asleep, until the first process is created.\<close>

definition quiet :: "nat \<Rightarrow> os \<Rightarrow> bool" where
  "quiet k s \<longleftrightarrow> sup_pos s = k \<and> pcbs s = processes \<and> rq_head s = None \<and> rq_tail s = None \<and>
     rq_owner s = None \<and> cpus s = replicate 2 \<lparr>ccurrent = None, cstate = CPU_IDLE, preemption_timer = - 1\<rparr> \<and>
     threads s = [Waiting, Waiting] \<and> io_queue s = [] \<and> simulator_time s = 0 \<and>
     processes_created s = 0 \<and> processes_terminated s = 0 \<and> sim_type s = FIFO \<and> \<not> exited s"

lemma quiet_step:
  assumes "quiet k s" and "k < 4"
  shows "\<exists>s'. os_step s s' \<and> quiet (Suc k) s'"
proof -
  let ?s = "if k = 0 then (print_gantt_line s)\<lparr>sup_pos := 1\<rparr> else s\<lparr>sup_pos := Suc k\<rparr>"
  from assms(2) consider "k = 0" | "k = 1" | "k = 2" | "k = 3" by linarith
  then have "supervisor_step 0 0 s = Inr ?s"
    by cases (use assms(1) in \<open>simp_all add: quiet_def supervisor_step_def cpu_count_def simulate_io_def
        PROCESS_COUNT_def\<close>)
  moreover have "quiet (Suc k) ?s" using assms(1) by (simp add: quiet_def print_gantt_line_def)
  ultimately show ?thesis using assms(1) os_step.supervisor [of s 0 0 ?s] by (auto simp: quiet_def)
qed

lemma quiet_create:
  assumes "quiet 4 s"
  shows "\<exists>s'. os_step s s' \<and> rq_head s' = Some 0 \<and> threads s' = [Signalled, Waiting]"
proof -
  have len: "length processes = 8" by (simp add: processes_def)
  have w: "filter (\<lambda>i. [Waiting, Waiting] ! i = Waiting) [0..<2] = [0, 1]" by code_simp
  have "\<exists>s'. wake_up 0 0 0 s = Inr s' \<and> rq_head s' = Some 0 \<and> threads s' = [Signalled, Waiting]"
    using assms len w
    by (simp add: quiet_def wake_up_def set_pcb_def addProccess_def lock_ready_queue_def signal_ready_def
        numeral_2_eq_2)
  then obtain t where t: "wake_up 0 0 0 s = Inr t" "rq_head t = Some 0" "threads t = [Signalled, Waiting]"
    by blast
  then have "supervisor_step 0 0 s = Inr (t\<lparr>processes_created := processes_created t + 1,
      simulator_time := simulator_time t + 1, sup_pos := 0\<rparr>)"
    using assms by (simp add: quiet_def supervisor_step_def cpu_count_def simulate_creat_def PROCESS_COUNT_def)
  then have "os_step s (t\<lparr>processes_created := processes_created t + 1,
      simulator_time := simulator_time t + 1, sup_pos := 0\<rparr>)"
    using assms by (intro os_step.supervisor) (simp_all add: quiet_def)
  with t show ?thesis by (intro exI [of _ "t\<lparr>processes_created := processes_created t + 1,
      simulator_time := simulator_time t + 1, sup_pos := 0\<rparr>"]) simp
qed


section \<open>The ready queue is a FIFO queue\<close>

definition enq_ready :: "nat \<Rightarrow> os \<Rightarrow> os" where
  "enq_ready p s = (case addProccess 0 p s of Inl e \<Rightarrow> s | Inr s' \<Rightarrow> s')"

definition deq_ready :: "os \<Rightarrow> (nat \<times> os) option" where
  "deq_ready s = (case getNextProcess 0 s of
     Inr (Some p, s') \<Rightarrow> Some (p, s') | Inr (None, s') \<Rightarrow> None | Inl e \<Rightarrow> None)"

definition ready_ok :: "os \<Rightarrow> bool" where
  "ready_ok s \<longleftrightarrow> qok (pcbs s) (rq_head s) (rq_tail s) (rq_size s) (ready_list s) \<and> rq_owner s = None"

lemma enq_ready_ok:
  assumes "ready_ok s" and "p < length (pcbs s)" and "p \<notin> set (ready_list s)"
  shows "ready_ok (enq_ready p s)" "ready_list (enq_ready p s) = ready_list s @ [p]"
    "addProccess 0 p s = Inr (enq_ready p s)"
proof -
  obtain bs h t where a: "addProccess 0 p s = Inr (signal_ready 0
      (s\<lparr>pcbs := bs, rq_head := h, rq_tail := t, rq_size := rq_size s + 1\<rparr>))"
    and q: "qok bs h t (rq_size s + 1) (ready_list s @ [p])"
    using addProccess_ok [of s "ready_list s" p 0] assms by (auto simp: ready_ok_def)
  then have e: "enq_ready p s = signal_ready 0
      (s\<lparr>pcbs := bs, rq_head := h, rq_tail := t, rq_size := rq_size s + 1\<rparr>)"
    by (simp add: enq_ready_def)
  show "ready_list (enq_ready p s) = ready_list s @ [p]"
    by (rule qok_ready_list) (simp add: e q)
  with q show "ready_ok (enq_ready p s)" using assms(1) by (simp add: ready_ok_def e)
  show "addProccess 0 p s = Inr (enq_ready p s)" by (simp add: e a)
qed

lemma deq_ready_ok:
  assumes "ready_ok s"
  shows "deq_ready s = None \<longleftrightarrow> ready_list s = []"
    and "deq_ready s = Some (p, s') \<Longrightarrow> ready_ok s' \<and> ready_list s = p # ready_list s'"
proof -
  have q: "qok (pcbs s) (rq_head s) (rq_tail s) (rq_size s) (ready_list s)" and o: "rq_owner s = None"
    using assms by (simp_all add: ready_ok_def)
  have e: "\<exists>s'. deq_ready s = Some (x, s') \<and> ready_ok s' \<and> ready_list s' = xs" if "ready_list s = x # xs" for x xs
  proof -
    have "qok (pcbs s) (rq_head s) (rq_tail s) (rq_size s) (x # xs)" using q by (simp only: that)
    from getNextProcess_some [OF this o, of 0]
    obtain bs h t where g: "getNextProcess 0 s = Inr (Some x,
        s\<lparr>pcbs := bs, rq_head := h, rq_tail := t, rq_size := rq_size s - 1\<rparr>)"
      and q': "qok bs h t (rq_size s - 1) xs"
      by blast
    let ?s = "s\<lparr>pcbs := bs, rq_head := h, rq_tail := t, rq_size := rq_size s - 1\<rparr>"
    have "ready_list ?s = xs" by (rule qok_ready_list) (simp add: q')
    moreover from this have "ready_ok ?s" using q' o by (simp add: ready_ok_def)
    ultimately show ?thesis using g by (simp add: deq_ready_def)
  qed
  have n: "deq_ready s = None" if "ready_list s = []"
    using getNextProcess_none [of s 0] q o that by (simp add: deq_ready_def)
  show "deq_ready s = None \<longleftrightarrow> ready_list s = []"
    using n e by (cases "ready_list s") auto
  show "ready_ok s' \<and> ready_list s = p # ready_list s'" if "deq_ready s = Some (p, s')"
    using n e that by (cases "ready_list s") auto
qed

interpretation ready_fifo: fifo enq_ready deq_ready ready_list ready_ok
  "\<lambda>p s. p < length (pcbs s) \<and> p \<notin> set (ready_list s)"
proof
  fix s p s'
  show "ready_ok s \<Longrightarrow> p < length (pcbs s) \<and> p \<notin> set (ready_list s) \<Longrightarrow> ready_ok (enq_ready p s)"
    "ready_ok s \<Longrightarrow> p < length (pcbs s) \<and> p \<notin> set (ready_list s) \<Longrightarrow>
      ready_list (enq_ready p s) = ready_list s @ [p]"
    by (simp_all add: enq_ready_ok)
  show "ready_ok s \<Longrightarrow> (deq_ready s = None) = (ready_list s = [])" by (rule deq_ready_ok(1))
  show "ready_ok s \<Longrightarrow> deq_ready s = Some (p, s') \<Longrightarrow> ready_ok s' \<and> ready_list s = p # ready_list s'"
    by (rule deq_ready_ok(2))
qed

lemma ready_drain:
  assumes "ready_ok s" and "p < length (pcbs s)" and "p \<notin> set (ready_list s)"
    and "addProccess 0 p s = Inr s'" and "length (ready_list s) < n"
  shows "fst (ready_fifo.drain n s') = ready_list s @ [p]"
    and "ready_list (snd (ready_fifo.drain n s')) = []"
proof -
  have s': "s' = enq_ready p s" using assms(4) by (simp add: enq_ready_def)
  note e = enq_ready_ok [OF assms(1-3)]
  show "fst (ready_fifo.drain n s') = ready_list s @ [p]"
    "ready_list (snd (ready_fifo.drain n s')) = []"
    using ready_fifo.drain_all [OF e(1), of n] e(2) assms(5) by (simp_all add: s')
qed

text \<open>
  The ready queue is first-come first-served: with the queue's mutex free, emptying it with
  \<open>getNextProcess\<close> yields the waiting processes in the order they were added, the process added
  last comes last, and nothing is left.
\<close>

theorem ready_queue_is_fifo:
  assumes "ready_ok s" and "p < length (pcbs s)" and "p \<notin> set (ready_list s)"
    and "addProccess 0 p s = Inr s'" and "length (ready_list s) < n"
  shows "fst (ready_fifo.drain n s') = ready_list s @ [p] \<and> ready_list (snd (ready_fifo.drain n s')) = []"
  using ready_drain [OF assms] by blast

theorem ready_queue_is_fifo_witness:
  "\<exists>s s'. start_simulator 1 (- 1) FIFO = Inr s \<and> addProccess 0 3 s = Inr s' \<and>
     fst (ready_fifo.drain 1 s') = [3]"
proof -
  obtain s where s: "start_simulator 1 (- 1) FIFO = Inr s" by (simp add: start_simulator_def)
  then have l: "ready_list s = []" "length (pcbs s) = 8" "rq_owner s = None"
    by (auto simp: start_simulator_def ready_list_def walk.simps processes_def numeral_eq_Suc)
  have "os_ok s" using s by (rule start_ok)
  then have r: "ready_ok s" unfolding ready_ok_def using os_invD(1) [OF os_ok_list] l(3) by blast
  have a: "addProccess 0 3 s = Inr (enq_ready 3 s)"
    by (rule enq_ready_ok(3) [OF r]) (simp_all add: l)
  from ready_queue_is_fifo [OF r _ _ a, of 1] l s a show ?thesis by auto
qed

section \<open>Static priorities\<close>

text \<open>The CPUs that \<open>wake_up\<close> takes for idle, and the priority of what the others run.\<close>

definition busy_slot :: "pcb list \<Rightarrow> nat option \<Rightarrow> bool" where
  "busy_slot bs x \<longleftrightarrow> (case x of None \<Rightarrow> False | Some q \<Rightarrow> pstate (bs ! q) = PROCESS_RUNNING)"

definition prio_of :: "pcb list \<Rightarrow> nat option \<Rightarrow> nat" where
  "prio_of bs x = (case x of None \<Rightarrow> 0 | Some q \<Rightarrow> static_priority (bs ! q))"

lemma find_victim_idle:
  "(\<forall>q. Some q \<in> set cur \<longrightarrow> q < length bs) \<Longrightarrow> j < length cur \<Longrightarrow> \<not> busy_slot bs (cur ! j) \<Longrightarrow>
   \<forall>k < j. busy_slot bs (cur ! k) \<Longrightarrow> find_victim bs i cur m pr = Inr (Some (i + j))"
proof (induction cur arbitrary: i j m pr)
  case (Cons x cur)
  show ?case
  proof (cases j)
    case 0
    with Cons.prems show ?thesis by (cases x) (auto simp: busy_slot_def)
  next
    case (Suc l)
    with Cons.prems obtain q where q: "x = Some q" "q < length bs" "pstate (bs ! q) = PROCESS_RUNNING"
      by (force simp: busy_slot_def split: option.splits)
    have "find_victim bs (Suc i) cur m' pr' = Inr (Some (Suc i + l))" for m' pr'
      by (rule Cons.IH) (use Cons.prems Suc in \<open>auto simp: nth_Cons' split: if_splits\<close>)
    with q Suc show ?thesis by simp
  qed
qed simp

lemma find_victim_busy:
  "(\<forall>q. Some q \<in> set cur \<longrightarrow> q < length bs) \<Longrightarrow> \<forall>x \<in> set cur. busy_slot bs x \<Longrightarrow>
   find_victim bs i cur m pr = Inr v \<Longrightarrow>
   (v = m \<and> (\<forall>x \<in> set cur. pr \<le> prio_of bs x)) \<or>
   (\<exists>j < length cur. v = Some (i + j) \<and> prio_of bs (cur ! j) < pr \<and>
      (\<forall>x \<in> set cur. prio_of bs (cur ! j) \<le> prio_of bs x))"
proof (induction cur arbitrary: i m pr)
  case (Cons x cur)
  then obtain q where q: "x = Some q" "q < length bs" "pstate (bs ! q) = PROCESS_RUNNING"
    by (force simp: busy_slot_def split: option.splits)
  have p: "prio_of bs x = static_priority (bs ! q)" using q by (simp add: prio_of_def)
  have c: "\<forall>q. Some q \<in> set cur \<longrightarrow> q < length bs" "\<forall>x \<in> set cur. busy_slot bs x" using Cons.prems by auto
  show ?case
  proof (cases "pr > static_priority (bs ! q)")
    case True
    with Cons.prems(3) q have "find_victim bs (Suc i) cur (Some i) (static_priority (bs ! q)) = Inr v" by simp
    from Cons.IH [OF c this] show ?thesis
    proof (elim disjE exE conjE)
      assume "v = Some i" "\<forall>y \<in> set cur. static_priority (bs ! q) \<le> prio_of bs y"
      with True p show ?thesis by (intro disjI2 exI [of _ 0]) simp
    next
      fix j assume "j < length cur" "v = Some (Suc i + j)" "prio_of bs (cur ! j) < static_priority (bs ! q)"
        "\<forall>y \<in> set cur. prio_of bs (cur ! j) \<le> prio_of bs y"
      with True p show ?thesis by (intro disjI2 exI [of _ "Suc j"]) simp
    qed
  next
    case False
    with Cons.prems(3) q have "find_victim bs (Suc i) cur m pr = Inr v" by simp
    from Cons.IH [OF c this] show ?thesis
    proof (elim disjE exE conjE)
      assume "v = m" "\<forall>y \<in> set cur. pr \<le> prio_of bs y"
      with False p show ?thesis by (intro disjI1) simp
    next
      fix j assume "j < length cur" "v = Some (Suc i + j)" "prio_of bs (cur ! j) < pr"
        "\<forall>y \<in> set cur. prio_of bs (cur ! j) \<le> prio_of bs y"
      with False p show ?thesis by (intro disjI2 exI [of _ "Suc j"]) simp
    qed
  qed
qed simp

lemma victim_facts:
  assumes "\<forall>q. Some q \<in> set cur \<longrightarrow> q < length bs" and "find_victim bs 0 cur None pr = Inr v"
  shows "j < length cur \<Longrightarrow> \<not> busy_slot bs (cur ! j) \<Longrightarrow> \<forall>k < j. busy_slot bs (cur ! k) \<Longrightarrow> v = Some j"
    and "\<forall>x \<in> set cur. busy_slot bs x \<Longrightarrow> v = None \<longleftrightarrow> (\<forall>x \<in> set cur. pr \<le> prio_of bs x)"
    and "\<forall>x \<in> set cur. busy_slot bs x \<Longrightarrow> v = Some j \<Longrightarrow>
      j < length cur \<and> prio_of bs (cur ! j) < pr \<and> (\<forall>x \<in> set cur. prio_of bs (cur ! j) \<le> prio_of bs x)"
proof -
  show "v = Some j" if "j < length cur" "\<not> busy_slot bs (cur ! j)" "\<forall>k < j. busy_slot bs (cur ! k)"
    using find_victim_idle [OF assms(1) that, of 0 None pr] assms(2) by simp
  show "v = None \<longleftrightarrow> (\<forall>x \<in> set cur. pr \<le> prio_of bs x)" if "\<forall>x \<in> set cur. busy_slot bs x"
    using find_victim_busy [OF assms(1) that assms(2)] by (force simp: in_set_conv_nth)
  show "j < length cur \<and> prio_of bs (cur ! j) < pr \<and> (\<forall>x \<in> set cur. prio_of bs (cur ! j) \<le> prio_of bs x)"
    if "\<forall>x \<in> set cur. busy_slot bs x" "v = Some j"
    using find_victim_busy [OF assms(1) that(1) assms(2)] that(2) by auto
qed

text \<open>
  Whom a waking process of priority \<open>pr\<close> may preempt: if some CPU runs nothing, the first
  such CPU is chosen, which \<open>force_preempt\<close> leaves alone; otherwise nobody is chosen exactly when
  no process runs with a lower priority, and a chosen CPU runs a process of the lowest priority.
\<close>

theorem priority_victim:
  assumes "\<forall>q. Some q \<in> set cur \<longrightarrow> q < length bs" and "find_victim bs 0 cur None pr = Inr v"
  shows "(\<forall>j < length cur. \<not> busy_slot bs (cur ! j) \<and> (\<forall>k < j. busy_slot bs (cur ! k)) \<longrightarrow> v = Some j) \<and>
    ((\<forall>x \<in> set cur. busy_slot bs x) \<longrightarrow> (case v of
        None \<Rightarrow> \<forall>x \<in> set cur. pr \<le> prio_of bs x
      | Some j \<Rightarrow> j < length cur \<and> prio_of bs (cur ! j) < pr \<and>
          (\<forall>x \<in> set cur. prio_of bs (cur ! j) \<le> prio_of bs x)))"
proof (intro conjI impI allI)
  fix j assume "j < length cur" and "\<not> busy_slot bs (cur ! j) \<and> (\<forall>k < j. busy_slot bs (cur ! k))"
  then show "v = Some j" using victim_facts(1) [OF assms, of j] by blast
next
  assume b: "\<forall>x \<in> set cur. busy_slot bs x"
  show "case v of None \<Rightarrow> \<forall>x \<in> set cur. pr \<le> prio_of bs x
    | Some j \<Rightarrow> j < length cur \<and> prio_of bs (cur ! j) < pr \<and> (\<forall>x \<in> set cur. prio_of bs (cur ! j) \<le> prio_of bs x)"
  proof (cases v)
    case None
    then show ?thesis using victim_facts(2) [OF assms b] by simp
  next
    case (Some j)
    then show ?thesis using victim_facts(3) [OF assms b Some] by simp
  qed
qed

lemma ex_victim: "find_victim [new_process ''a'' 5 [], (new_process ''b'' 1 [])\<lparr>pstate := PROCESS_RUNNING\<rparr>,
    (new_process ''c'' 2 [])\<lparr>pstate := PROCESS_RUNNING\<rparr>] 0 [Some 2, Some 1] None 5 = Inr (Some 1)"
  by (simp add: new_process_def)

theorem priority_victim_witness:
  "prio_of [new_process ''a'' 5 [], (new_process ''b'' 1 [])\<lparr>pstate := PROCESS_RUNNING\<rparr>,
    (new_process ''c'' 2 [])\<lparr>pstate := PROCESS_RUNNING\<rparr>] (Some 1) < 5"
  using priority_victim [OF _ ex_victim] by (simp add: new_process_def busy_slot_def)

end
