(* ===== verification/Jos.thy ===== *)
theory Jos
  imports Chains
begin

text \<open>
  The memory of the JOS kernel (\<open>os_final_project/code/kern\<close>): physical pages and their free
  list, two-level page tables (\<open>pmap.c\<close>), and paging to disk (\<open>paging_utils.c\<close>).

  Physical memory is an array of words per frame; a pointer to a page directory or a page table
  is the number of its frame, a pointer to an entry is a frame and an index, and a pointer to a
  \<open>struct PageInfo\<close> or to an entry of the reverse lookup pool is its index. \<open>KADDR\<close> and
  \<open>pa2page\<close> panic on frames beyond \<open>npages\<close>, as in the code. The TLB is not modelled: the code
  reloads \<open>cr3\<close> or invalidates the entry wherever it changes a mapping in use. The disk is an
  array of blocks with a set of blocks whose transfer fails. The state is the one a CPU sees: its
  \<open>curenv\<close> and the memory all CPUs share. Of the console, \<open>serial_in\<close> and \<open>kbd_in\<close> are the characters
  the serial port and the keyboard have ready, \<open>cons_out\<close> what was printed for user programs.
\<close>

section \<open>Constants and addresses\<close>

definition PTE_P :: u32 where "PTE_P = 0x001"
definition PTE_W :: u32 where "PTE_W = 0x002"
definition PTE_U :: u32 where "PTE_U = 0x004"
definition PTE_PWT :: u32 where "PTE_PWT = 0x008"
definition PTE_PCD :: u32 where "PTE_PCD = 0x010"
definition PTE_AVAIL :: u32 where "PTE_AVAIL = 0xE00"
definition PTE_ON_DISK :: u32 where "PTE_ON_DISK = 0x400"

definition PGSIZE :: u32 where "PGSIZE = 4096"
definition PTSIZE :: u32 where "PTSIZE = 0x400000"
definition KERNBASE :: u32 where "KERNBASE = 0xF0000000"
definition MMIOLIM :: u32 where "MMIOLIM = 0xEFC00000"
definition MMIOBASE :: u32 where "MMIOBASE = 0xEF800000"
definition ULIM :: u32 where "ULIM = MMIOBASE"
definition UVPT :: u32 where "UVPT = 0xEF400000"
definition UTOP :: u32 where "UTOP = 0xEEC00000"
definition MPENTRY_PADDR :: u32 where "MPENTRY_PADDR = 0x7000"

definition E_BAD_ENV :: int where "E_BAD_ENV = 2"
definition E_INVAL :: int where "E_INVAL = 3"
definition E_NO_MEM :: int where "E_NO_MEM = 4"
definition E_NO_FREE_ENV :: int where "E_NO_FREE_ENV = 5"
definition E_FAULT :: int where "E_FAULT = 6"

definition ALLOC_ZERO :: u32 where "ALLOC_ZERO = 1"

definition PHYS_FRAMES :: nat where "PHYS_FRAMES = 16384"
definition NBLOCKS :: nat where "NBLOCKS = 32768"
definition NENV :: nat where "NENV = 1024"

definition PDX :: "u32 \<Rightarrow> nat" where "PDX la = unat (drop_bit 22 la AND 0x3FF)"
definition PTX :: "u32 \<Rightarrow> nat" where "PTX la = unat (drop_bit 12 la AND 0x3FF)"
definition PGNUM :: "u32 \<Rightarrow> nat" where "PGNUM la = unat (drop_bit 12 la)"
definition PTE_ADDR :: "u32 \<Rightarrow> u32" where "PTE_ADDR pte = pte AND NOT 0xFFF"
definition PTE_TO_BLOCKNO :: "u32 \<Rightarrow> u32" where "PTE_TO_BLOCKNO pte = drop_bit 12 pte AND 0xFFFFF"

definition ROUNDDOWN :: "u32 \<Rightarrow> u32 \<Rightarrow> u32" where "ROUNDDOWN a n = a - a mod n"
definition ROUNDUP :: "u32 \<Rightarrow> u32 \<Rightarrow> u32" where "ROUNDUP a n = ROUNDDOWN (a + n - 1) n"

section \<open>State\<close>

record page_info =
  pp_link :: "nat option"
  pp_ref :: u16

record rlt_entry =
  rva :: u32
  renvid :: u32
  rnext :: "nat option"

text \<open>The status of an environment is an integer: a system call stores any value there.\<close>

definition ENV_FREE :: u32 where "ENV_FREE = 0"
definition ENV_DYING :: u32 where "ENV_DYING = 1"
definition ENV_RUNNABLE :: u32 where "ENV_RUNNABLE = 2"
definition ENV_RUNNING :: u32 where "ENV_RUNNING = 3"
definition ENV_NOT_RUNNABLE :: u32 where "ENV_NOT_RUNNABLE = 4"

lemmas env_status_defs = ENV_FREE_def ENV_DYING_def ENV_RUNNABLE_def ENV_RUNNING_def ENV_NOT_RUNNABLE_def

record push_regs =
  reg_edi :: u32
  reg_esi :: u32
  reg_ebp :: u32
  reg_oesp :: u32
  reg_ebx :: u32
  reg_edx :: u32
  reg_ecx :: u32
  reg_eax :: u32

record trapframe =
  tf_regs :: push_regs
  tf_es :: u16
  tf_ds :: u16
  tf_trapno :: u32
  tf_err :: u32
  tf_eip :: u32
  tf_cs :: u16
  tf_eflags :: u32
  tf_esp :: u32
  tf_ss :: u16

text \<open>A frame whose bytes are 0.\<close>

definition zero_regs :: push_regs where
  "zero_regs = \<lparr>reg_edi = 0, reg_esi = 0, reg_ebp = 0, reg_oesp = 0, reg_ebx = 0, reg_edx = 0,
     reg_ecx = 0, reg_eax = 0\<rparr>"

definition zero_tf :: trapframe where
  "zero_tf = \<lparr>tf_regs = zero_regs, tf_es = 0, tf_ds = 0, tf_trapno = 0, tf_err = 0, tf_eip = 0,
     tf_cs = 0, tf_eflags = 0, tf_esp = 0, tf_ss = 0\<rparr>"

record env =
  env_tf :: trapframe
  env_link :: "nat option"
  env_id :: u32
  env_parent_id :: u32
  env_type :: u32
  env_status :: u32
  env_runs :: u32
  env_pgdir :: "nat option"
  env_pgfault_upcall :: u32
  env_ipc_recving :: bool
  env_ipc_dstva :: u32
  env_ipc_value :: u32
  env_ipc_from :: u32
  env_ipc_perm :: u32

text \<open>An environment whose bytes are 0.\<close>

definition zero_env :: env where
  "zero_env = \<lparr>env_tf = zero_tf, env_link = None, env_id = 0, env_parent_id = 0, env_type = 0,
     env_status = 0, env_runs = 0, env_pgdir = None, env_pgfault_upcall = 0, env_ipc_recving = False,
     env_ipc_dstva = 0, env_ipc_value = 0, env_ipc_from = 0, env_ipc_perm = 0\<rparr>"

record jos =
  npages :: nat
  pages :: "page_info list"
  page_free_list :: "nat option"
  mem :: "nat \<Rightarrow> nat \<Rightarrow> u32"
  kern_pgdir :: nat
  pool :: "rlt_entry list"
  in_use_frames :: "nat option"
  paging_utils_initialized :: bool
  free_block_bitmap :: "u32 list"
  disk :: "nat \<Rightarrow> nat \<Rightarrow> u32"
  bad_block :: "nat \<Rightarrow> bool"
  envs :: "env list"
  env_free_list :: "nat option"
  curenv :: "nat option"
  mmio_base :: u32
  cons_buf :: "u8 list"
  cons_rpos :: nat
  cons_wpos :: nat
  serial_in :: "u8 list"
  kbd_in :: "u8 list"
  cons_out :: "u8 list"

definition page2pa :: "nat \<Rightarrow> u32" where "page2pa i = push_bit 12 (of_nat i)"

definition pa2page :: "u32 \<Rightarrow> jos \<Rightarrow> nat c" where
  "pa2page pa s = bindE (guardE Panic (PGNUM pa < npages s)) (\<lambda>_. Inr (PGNUM pa))"

text \<open>\<open>KADDR\<close> of a page-aligned physical address: the frame it points to.\<close>

definition KADDR :: "u32 \<Rightarrow> jos \<Rightarrow> nat c" where
  "KADDR pa s = bindE (guardE Panic (PGNUM pa < npages s)) (\<lambda>_. Inr (PGNUM pa))"

definition read_pte :: "nat \<times> nat \<Rightarrow> jos \<Rightarrow> u32" where
  "read_pte e s = mem s (fst e) (snd e)"

definition write_pte :: "nat \<times> nat \<Rightarrow> u32 \<Rightarrow> jos \<Rightarrow> jos" where
  "write_pte e w s = s\<lparr>mem := (mem s)(fst e := (mem s (fst e))(snd e := w))\<rparr>"

definition set_page :: "nat \<Rightarrow> (page_info \<Rightarrow> page_info) \<Rightarrow> jos \<Rightarrow> jos c" where
  "set_page i f s = bindE (rd (pages s) i) (\<lambda>p. Inr (s\<lparr>pages := (pages s)[i := f p]\<rparr>))"

definition set_entry :: "nat \<Rightarrow> (rlt_entry \<Rightarrow> rlt_entry) \<Rightarrow> jos \<Rightarrow> jos c" where
  "set_entry i f s = bindE (rd (pool s) i) (\<lambda>r. Inr (s\<lparr>pool := (pool s)[i := f r]\<rparr>))"

section \<open>The blocks of the swap disk\<close>

definition util_init :: "jos \<Rightarrow> jos" where
  "util_init s = s\<lparr>free_block_bitmap := replicate (NBLOCKS div 32 + 1) (- 1),
     paging_utils_initialized := True\<rparr>"

definition block_bit :: "nat \<Rightarrow> u32" where
  "block_bit i = push_bit (i mod 32) 1"

text \<open>The scan from block \<open>i\<close> on, with \<open>k\<close> blocks left.\<close>

fun alloc_scan :: "nat \<Rightarrow> nat \<Rightarrow> u32 list \<Rightarrow> (nat option \<times> u32 list) c" where
  "alloc_scan 0 i bm = Inr (None, bm)"
| "alloc_scan (Suc k) i bm = bindE (rd bm (i div 32)) (\<lambda>w.
     if w AND block_bit i \<noteq> 0
     then Inr (Some i, bm[i div 32 := w AND NOT (block_bit i)])
     else alloc_scan k (Suc i) bm)"

definition alloc_blockno :: "jos \<Rightarrow> (nat option \<times> jos) c" where
  "alloc_blockno s = bindE (alloc_scan NBLOCKS 0 (free_block_bitmap s)) (\<lambda>(b, bm).
     Inr (b, s\<lparr>free_block_bitmap := bm\<rparr>))"

definition free_blockno :: "nat \<Rightarrow> jos \<Rightarrow> jos c" where
  "free_blockno blockno s = bindE (rd (free_block_bitmap s) (blockno div 32)) (\<lambda>w.
     Inr (s\<lparr>free_block_bitmap := (free_block_bitmap s)[blockno div 32 := w OR block_bit blockno]\<rparr>))"

section \<open>The queue of frames in use\<close>

text \<open>The walk to the tail; it does not end on a cycle.\<close>

partial_function (option) find_tail :: "rlt_entry list \<Rightarrow> nat \<Rightarrow> nat option" where
  "find_tail rs i = (case rnext (rs ! i) of None \<Rightarrow> Some i | Some j \<Rightarrow> find_tail rs j)"

definition on_page_alloc_success :: "u32 \<Rightarrow> u32 \<Rightarrow> u32 \<Rightarrow> jos \<Rightarrow> jos c" where
  "on_page_alloc_success va envid pa s =
     (let new = PGNUM pa in
      bindE (set_entry new (\<lambda>r. r\<lparr>rva := va, renvid := envid\<rparr>) s) (\<lambda>s.
      bindE (set_entry new (\<lambda>r. r\<lparr>rnext := None\<rparr>) s) (\<lambda>s.
      case in_use_frames s of
        None \<Rightarrow> Inr (s\<lparr>in_use_frames := Some new\<rparr>)
      | Some h \<Rightarrow>
          (case find_tail (pool s) h of
             None \<Rightarrow> Inl Diverges
           | Some tail \<Rightarrow> set_entry tail (\<lambda>r. r\<lparr>rnext := Some new\<rparr>) s))))"

definition remove_victim_page_fifo :: "jos \<Rightarrow> (nat \<times> jos) c" where
  "remove_victim_page_fifo s = (case in_use_frames s of
     None \<Rightarrow> Inl Panic
   | Some h \<Rightarrow> bindE (rd (pool s) h) (\<lambda>r.
       bindE (set_entry h (\<lambda>r. r\<lparr>rnext := None\<rparr>) (s\<lparr>in_use_frames := rnext r\<rparr>)) (\<lambda>s. Inr (h, s))))"

definition remove_victim_page :: "jos \<Rightarrow> (nat \<times> jos) c" where
  "remove_victim_page s = remove_victim_page_fifo s"

definition clear_entry :: "rlt_entry \<Rightarrow> rlt_entry" where
  "clear_entry r = r\<lparr>rnext := None, renvid := 0, rva := 0\<rparr>"

text \<open>The first loop of \<open>env_destroy_cleanup\<close>: the entries of the environment at the head.\<close>

partial_function (option) cleanup_head :: "u32 \<Rightarrow> nat option \<Rightarrow> rlt_entry list \<Rightarrow> (nat option \<times> rlt_entry list) option" where
  "cleanup_head envid nxt rs = (case nxt of
     None \<Rightarrow> Some (None, rs)
   | Some i \<Rightarrow> if renvid (rs ! i) = envid
               then cleanup_head envid (rnext (rs ! i)) (rs[i := clear_entry (rs ! i)])
               else Some (Some i, rs))"

text \<open>The second loop: \<open>prev\<close> is an entry that stays.\<close>

partial_function (option) cleanup_rest :: "u32 \<Rightarrow> nat \<Rightarrow> nat option \<Rightarrow> rlt_entry list \<Rightarrow> rlt_entry list option" where
  "cleanup_rest envid prev nxt rs = (case nxt of
     None \<Rightarrow> Some rs
   | Some i \<Rightarrow> if renvid (rs ! i) = envid
               then let rs1 = rs[prev := (rs ! prev)\<lparr>rnext := rnext (rs ! i)\<rparr>];
                        rs2 = rs1[i := clear_entry (rs1 ! i)]
                    in cleanup_rest envid prev (rnext (rs2 ! prev)) rs2
               else cleanup_rest envid i (rnext (rs ! i)) rs)"

definition env_destroy_cleanup :: "u32 \<Rightarrow> jos \<Rightarrow> jos c" where
  "env_destroy_cleanup envid s = (case cleanup_head envid (in_use_frames s) (pool s) of
     None \<Rightarrow> Inl Diverges
   | Some (None, rs) \<Rightarrow> Inr (s\<lparr>pool := rs\<rparr>)
   | Some (Some i, rs) \<Rightarrow>
       (case cleanup_rest envid i (rnext (rs ! i)) rs of
          None \<Rightarrow> Inl Diverges
        | Some rs' \<Rightarrow> Inr (s\<lparr>pool := rs', in_use_frames := Some i\<rparr>)))"

end
