(* ===== verification/JosPages.thy ===== *)
theory JosPages
  imports Jos
begin

text \<open>
  Physical page allocation, page tables and the movement of pages to and from the swap disk:
  \<open>pmap.c\<close>, the rest of \<open>paging_utils.c\<close>, and the parts of \<open>env.c\<close> and \<open>sched.c\<close> they use.
\<close>

section \<open>Environments\<close>

definition ENVX :: "u32 \<Rightarrow> nat" where "ENVX envid = unat (envid AND 0x3FF)"

text \<open>The return code and \<open>*env_store\<close> (a slot of \<open>envs\<close>, or NULL).\<close>

definition envid2env :: "u32 \<Rightarrow> bool \<Rightarrow> jos \<Rightarrow> (int \<times> nat option) c" where
  "envid2env envid checkperm s =
     (if envid = 0 then Inr (0, curenv s)
      else bindE (rd (envs s) (ENVX envid)) (\<lambda>e.
           if env_status e = ENV_FREE \<or> env_id e \<noteq> envid then Inr (- E_BAD_ENV, None)
           else if checkperm \<and> Some (ENVX envid) \<noteq> curenv s
           then bindE (deref (curenv s)) (\<lambda>c. bindE (rd (envs s) c) (\<lambda>ce.
                if env_parent_id e \<noteq> env_id ce then Inr (- E_BAD_ENV, None)
                else Inr (0, Some (ENVX envid))))
           else Inr (0, Some (ENVX envid))))"

text \<open>\<open>e->env_pgdir\<close>, followed as a pointer.\<close>

definition pgdir_of :: "nat option \<Rightarrow> jos \<Rightarrow> nat c" where
  "pgdir_of e s = bindE (deref e) (\<lambda>i. bindE (rd (envs s) i) (\<lambda>b. deref (env_pgdir b)))"

section \<open>Freeing and walking\<close>

definition page_free :: "nat \<Rightarrow> jos \<Rightarrow> jos c" where
  "page_free pp s = bindE (rd (pages s) pp) (\<lambda>p.
     bindE (guardE Panic (pp_ref p = 0)) (\<lambda>_.
     bindE (guardE Panic (pp_link p = None)) (\<lambda>_.
     bindE (set_page pp (\<lambda>p. p\<lparr>pp_link := page_free_list s\<rparr>) s) (\<lambda>s.
     Inr (s\<lparr>page_free_list := Some pp\<rparr>)))))"

definition page_decref :: "nat \<Rightarrow> jos \<Rightarrow> jos c" where
  "page_decref pp s = bindE (rd (pages s) pp) (\<lambda>p.
     bindE (set_page pp (\<lambda>p. p\<lparr>pp_ref := pp_ref p - 1\<rparr>) s) (\<lambda>s.
     if pp_ref p - 1 = 0 then page_free pp s else Inr s))"

text \<open>\<open>pgdir_walk\<close>, with the allocation of a page table it may need as an argument.\<close>

definition pgdir_walk_with ::
  "(jos \<Rightarrow> (nat option \<times> jos) c) \<Rightarrow> nat \<Rightarrow> u32 \<Rightarrow> bool \<Rightarrow> jos \<Rightarrow> ((nat \<times> nat) option \<times> jos) c" where
  "pgdir_walk_with allocator pgdir va create s =
     bindE (if read_pte (pgdir, PDX va) s AND PTE_P = 0
            then if create
                 then bindE (allocator s) (\<lambda>(new_page, s).
                      case new_page of
                        None \<Rightarrow> Inr (False, s)
                      | Some pp \<Rightarrow>
                          bindE (set_page pp (\<lambda>p. p\<lparr>pp_ref := pp_ref p + 1\<rparr>) s) (\<lambda>s.
                          Inr (True, write_pte (pgdir, PDX va) (page2pa pp OR PTE_U OR PTE_P OR PTE_W) s)))
                 else Inr (False, s)
            else Inr (True, s)) (\<lambda>(present, s).
     if present
     then bindE (KADDR (PTE_ADDR (read_pte (pgdir, PDX va) s)) s) (\<lambda>table.
          Inr (Some (table, PTX va), s))
     else Inr (None, s))"

definition pgdir_find :: "nat \<Rightarrow> u32 \<Rightarrow> jos \<Rightarrow> (nat \<times> nat) option c" where
  "pgdir_find pgdir va s = bindE (pgdir_walk_with (\<lambda>s. Inr (None, s)) pgdir va False s) (\<lambda>(e, s). Inr e)"

section \<open>Sending a page to disk\<close>

text \<open>
  What the processor does with \<open>va\<close> under the page directory \<open>pgdir\<close>: the frame, or the fault the
  kernel panics on. With \<open>CR0_WP\<close> set the kernel cannot write a page without \<open>PTE_W\<close>.
\<close>

definition translate :: "nat \<Rightarrow> u32 \<Rightarrow> bool \<Rightarrow> jos \<Rightarrow> nat c" where
  "translate pgdir va writing s =
     (let pde = read_pte (pgdir, PDX va) s
      in bindE (guardE Panic (pde AND PTE_P \<noteq> 0 \<and> (writing \<longrightarrow> pde AND PTE_W \<noteq> 0))) (\<lambda>_.
         let pte = read_pte (PGNUM (PTE_ADDR pde), PTX va) s
         in bindE (guardE Panic (pte AND PTE_P \<noteq> 0 \<and> (writing \<longrightarrow> pte AND PTE_W \<noteq> 0))) (\<lambda>_.
            Inr (PGNUM (PTE_ADDR pte)))))"

definition block_to_disk :: "nat \<Rightarrow> u32 \<Rightarrow> nat \<Rightarrow> jos \<Rightarrow> (int \<times> jos) c" where
  "block_to_disk pgdir va blockno s = bindE (translate pgdir va False s) (\<lambda>frame.
     if bad_block s blockno then Inr (- 1, s)
     else Inr (0, s\<lparr>disk := (disk s)(blockno := mem s frame)\<rparr>))"

definition block_from_disk :: "nat \<Rightarrow> u32 \<Rightarrow> nat \<Rightarrow> jos \<Rightarrow> (int \<times> jos) c" where
  "block_from_disk pgdir va blockno s = bindE (translate pgdir va True s) (\<lambda>frame.
     if bad_block s blockno then Inr (- 1, s)
     else Inr (0, s\<lparr>mem := (mem s)(frame := disk s blockno)\<rparr>))"

definition page_to_disk_jos :: "nat \<Rightarrow> u32 \<Rightarrow> nat \<Rightarrow> jos \<Rightarrow> jos c" where
  "page_to_disk_jos pgdir va blockno s =
     (let s = (if paging_utils_initialized s then s else util_init s);
          va = ROUNDDOWN va PGSIZE
      in bindE (pgdir_find pgdir va s) (\<lambda>e. bindE (case e of None \<Rightarrow> Inl Panic | Some e \<Rightarrow> Inr e) (\<lambda>pte.
         bindE (pa2page (PTE_ADDR (read_pte pte s)) s) (\<lambda>page_info.
         bindE (block_to_disk pgdir va blockno s) (\<lambda>(ret, s).
         bindE (guardE Panic (0 \<le> ret)) (\<lambda>_.
         let s = write_pte pte ((push_bit 12 (of_nat blockno) OR PTE_ON_DISK OR (read_pte pte s AND 0xEFF))
                   AND NOT PTE_P) s
         in bindE (rd (pages s) page_info) (\<lambda>p.
            bindE (guardE Panic (\<not> pp_ref p > 1)) (\<lambda>_. page_decref page_info s))))))))"

text \<open>
  \<open>handle_out_of_pages\<close> evicts a page and calls \<open>page_alloc\<close> again, its argument \<open>again\<close>.
\<close>

definition handle_out_of_pages ::
  "(u32 \<Rightarrow> jos \<Rightarrow> (nat option \<times> jos) c) \<Rightarrow> u32 \<Rightarrow> jos \<Rightarrow> (nat option \<times> jos) c" where
  "handle_out_of_pages again alloc_flags s =
     bindE (remove_victim_page s) (\<lambda>(victim, s).
     bindE (alloc_blockno s) (\<lambda>(b, s). case b of
       None \<Rightarrow> Inr (None, s)
     | Some blockno \<Rightarrow>
         bindE (rd (pool s) victim) (\<lambda>v.
         bindE (envid2env (renvid v) False s) (\<lambda>(ret, e).
         bindE (pgdir_of e s) (\<lambda>pgdir.
         bindE (page_to_disk_jos pgdir (rva v) blockno s) (\<lambda>s.
         again alloc_flags s))))))"

fun page_alloc_n :: "nat \<Rightarrow> u32 \<Rightarrow> jos \<Rightarrow> (nat option \<times> jos) c" where
  "page_alloc_n 0 alloc_flags s = Inl Diverges"
| "page_alloc_n (Suc n) alloc_flags s = (case page_free_list s of
     None \<Rightarrow> if paging_utils_initialized s
             then handle_out_of_pages (page_alloc_n n) alloc_flags s
             else Inr (None, s)
   | Some to_return \<Rightarrow>
       bindE (rd (pages s) to_return) (\<lambda>p.
       bindE (set_page to_return (\<lambda>p. p\<lparr>pp_link := None\<rparr>) (s\<lparr>page_free_list := pp_link p\<rparr>)) (\<lambda>s.
       if alloc_flags AND ALLOC_ZERO \<noteq> 0
       then bindE (KADDR (page2pa to_return) s) (\<lambda>frame.
            Inr (Some to_return, s\<lparr>mem := (mem s)(frame := (\<lambda>_. 0))\<rparr>))
       else Inr (Some to_return, s))))"

text \<open>Each eviction takes one entry off the queue, so the fuel is the length of the pool, and 2.\<close>

definition page_alloc :: "u32 \<Rightarrow> jos \<Rightarrow> (nat option \<times> jos) c" where
  "page_alloc alloc_flags s = page_alloc_n (length (pool s) + 2) alloc_flags s"

definition pgdir_walk :: "nat \<Rightarrow> u32 \<Rightarrow> bool \<Rightarrow> jos \<Rightarrow> ((nat \<times> nat) option \<times> jos) c" where
  "pgdir_walk pgdir va create s = pgdir_walk_with (page_alloc ALLOC_ZERO) pgdir va create s"

section \<open>Bringing a page back\<close>

definition page_from_disk_jos :: "nat \<Rightarrow> u32 \<Rightarrow> nat \<Rightarrow> jos \<Rightarrow> jos c" where
  "page_from_disk_jos pgdir va blockno s =
     (let s = (if paging_utils_initialized s then s else util_init s);
          va = ROUNDDOWN va PGSIZE
      in bindE (block_from_disk pgdir va blockno s) (\<lambda>(ret, s).
         bindE (guardE Panic (0 \<le> ret)) (\<lambda>_. Inr s)))"

definition page_fault_intercept :: "nat \<Rightarrow> u32 \<Rightarrow> jos \<Rightarrow> jos c" where
  "page_fault_intercept pgdir fault_va s =
     (let fault_va = ROUNDDOWN fault_va PGSIZE
      in bindE (page_alloc 0 s) (\<lambda>(new_frame, s).
         bindE (case new_frame of None \<Rightarrow> Inl Panic | Some f \<Rightarrow> Inr f) (\<lambda>f.
         let pa = page2pa f
         in bindE (pgdir_of (curenv s) s) (\<lambda>cur.
            bindE (KADDR (PTE_ADDR (read_pte (cur, PDX fault_va) s)) s) (\<lambda>table.
            let pte = (table, PTX fault_va);
                blockno = unat (PTE_TO_BLOCKNO (read_pte pte s));
                s = write_pte pte (pa OR (read_pte pte s AND 0xEFF AND NOT PTE_ON_DISK) OR PTE_P) s
            in page_from_disk_jos pgdir fault_va blockno s)))))"

section \<open>Mapping pages\<close>

definition page_lookup :: "nat \<Rightarrow> u32 \<Rightarrow> jos \<Rightarrow> ((nat \<times> (nat \<times> nat)) option \<times> jos) c" where
  "page_lookup pgdir va s =
     bindE (pgdir_walk pgdir va False s) (\<lambda>(e, s).
     case e of
       None \<Rightarrow> Inr (None, s)
     | Some pte \<Rightarrow>
         bindE (if read_pte pte s AND PTE_ON_DISK \<noteq> 0 then page_fault_intercept pgdir va s else Inr s) (\<lambda>s.
         if read_pte pte s AND PTE_P = 0 then Inr (None, s)
         else bindE (pa2page (PTE_ADDR (read_pte pte s)) s) (\<lambda>p. Inr (Some (p, pte), s))))"

definition page_remove :: "nat \<Rightarrow> u32 \<Rightarrow> jos \<Rightarrow> jos c" where
  "page_remove pgdir va s = bindE (page_lookup pgdir va s) (\<lambda>(r, s). case r of
     None \<Rightarrow> Inr s
   | Some (page, entry) \<Rightarrow> bindE (page_decref page s) (\<lambda>s. Inr (write_pte entry 0 s)))"

definition page_insert :: "nat \<Rightarrow> nat \<Rightarrow> u32 \<Rightarrow> u32 \<Rightarrow> jos \<Rightarrow> (int \<times> jos) c" where
  "page_insert pgdir pp va perm s =
     bindE (pgdir_walk pgdir va True s) (\<lambda>(e, s). case e of
       None \<Rightarrow> Inr (- E_NO_MEM, s)
     | Some pte \<Rightarrow>
         bindE (set_page pp (\<lambda>p. p\<lparr>pp_ref := pp_ref p + 1\<rparr>) s) (\<lambda>s.
         bindE (if read_pte pte s AND PTE_P \<noteq> 0 then page_remove pgdir va s else Inr s) (\<lambda>s.
         Inr (0, write_pte pte (page2pa pp OR perm OR PTE_P) s))))"

section \<open>Regions\<close>

text \<open>The loop of \<open>boot_map_region\<close>; the fuel is one more than the number of pages of the region.\<close>

fun boot_map_loop :: "nat \<Rightarrow> nat \<Rightarrow> u32 \<Rightarrow> u32 \<Rightarrow> u32 \<Rightarrow> u32 \<Rightarrow> jos \<Rightarrow> jos c" where
  "boot_map_loop 0 pgdir va pa end_pa perm s = Inl Diverges"
| "boot_map_loop (Suc n) pgdir va pa end_pa perm s =
     (if pa < end_pa
      then bindE (pgdir_walk pgdir va True s) (\<lambda>(e, s). case e of
             None \<Rightarrow> Inl Panic
           | Some pte \<Rightarrow> boot_map_loop n pgdir (va + PGSIZE) (pa + PGSIZE) end_pa perm
                           (write_pte pte (pa OR perm OR PTE_P) s))
      else Inr s)"

definition boot_map_region :: "nat \<Rightarrow> u32 \<Rightarrow> u32 \<Rightarrow> u32 \<Rightarrow> u32 \<Rightarrow> jos \<Rightarrow> jos c" where
  "boot_map_region pgdir va sz pa perm s =
     boot_map_loop (unat sz div 4096 + 2) pgdir va pa (pa + sz) perm s"

definition mmio_map_region :: "u32 \<Rightarrow> u32 \<Rightarrow> jos \<Rightarrow> (u32 \<times> jos) c" where
  "mmio_map_region pa sz s =
     (let roundedSize = ROUNDUP sz PGSIZE;
          newBase = mmio_base s + roundedSize
      in bindE (guardE Panic (\<not> newBase > MMIOLIM)) (\<lambda>_.
         bindE (boot_map_region (kern_pgdir s) (mmio_base s) roundedSize (ROUNDDOWN pa PGSIZE)
                  (PTE_W OR PTE_PCD OR PTE_PWT) s) (\<lambda>s'.
         Inr (mmio_base s, s'\<lparr>mmio_base := newBase\<rparr>))))"

text \<open>
  \<open>user_mem_check\<close>: \<open>None\<close> for the result 0, \<open>Some a\<close> for \<open>-E_FAULT\<close> with \<open>user_mem_check_addr = a\<close>.
  The loop has as many rounds as there are pages from \<open>addr\<close> to \<open>stop\<close>.
\<close>

fun user_mem_loop :: "nat \<Rightarrow> nat \<Rightarrow> u32 \<Rightarrow> u32 \<Rightarrow> u32 \<Rightarrow> jos \<Rightarrow> u32 option c" where
  "user_mem_loop 0 pgdir va addr perm s = Inr None"
| "user_mem_loop (Suc n) pgdir va addr perm s =
     bindE (pgdir_find pgdir addr s) (\<lambda>pte.
     if addr \<ge> ULIM \<or> (case pte of None \<Rightarrow> True
          | Some e \<Rightarrow> read_pte e s AND PTE_P = 0 \<or> read_pte e s AND perm \<noteq> perm)
     then Inr (Some (if addr < va then va else addr))
     else user_mem_loop n pgdir va (addr + PGSIZE) perm s)"

definition user_mem_check :: "nat option \<Rightarrow> u32 \<Rightarrow> u32 \<Rightarrow> u32 \<Rightarrow> jos \<Rightarrow> u32 option c" where
  "user_mem_check e va len perm s =
     (let start = ROUNDDOWN va PGSIZE; stop = ROUNDUP (va + len) PGSIZE
      in bindE (pgdir_of e s) (\<lambda>pgdir.
         user_mem_loop ((unat stop - unat start) div 4096) pgdir va start perm s))"

section \<open>The free list at boot\<close>

fun free_range :: "nat \<Rightarrow> nat \<Rightarrow> jos \<Rightarrow> jos c" where
  "free_range 0 i s = Inr s"
| "free_range (Suc k) i s =
     (if i \<noteq> PGNUM MPENTRY_PADDR
      then bindE (set_page i (\<lambda>p. p\<lparr>pp_link := page_free_list s, pp_ref := 0\<rparr>) s) (\<lambda>s.
           free_range k (Suc i) (s\<lparr>page_free_list := Some i\<rparr>))
      else free_range k (Suc i) s)"

text \<open>\<open>first_free\<close> is the page number of \<open>boot_alloc(0)\<close>.\<close>

definition page_init :: "nat \<Rightarrow> nat \<Rightarrow> jos \<Rightarrow> jos c" where
  "page_init npages_basemem first_free s =
     bindE (free_range (npages_basemem - 1) 1 (s\<lparr>page_free_list := None\<rparr>)) (\<lambda>s.
     free_range (npages s - first_free) first_free s)"

definition boot_alloc :: "u32 \<Rightarrow> u32 \<Rightarrow> u32 \<times> u32" where
  "boot_alloc n nextfree = (if n = 0 then (nextfree, nextfree) else (nextfree, ROUNDUP (nextfree + n) PGSIZE))"

section \<open>Choosing an environment\<close>

text \<open>The round-robin scan of \<open>sched_yield\<close>, with \<open>k\<close> slots left to look at.\<close>

fun sched_scan :: "nat \<Rightarrow> nat \<Rightarrow> nat \<Rightarrow> env list \<Rightarrow> nat option c" where
  "sched_scan 0 i current es = Inr None"
| "sched_scan (Suc k) i current es =
     (let envIndex = (i + current) mod NENV
      in bindE (rd es envIndex) (\<lambda>e.
         if env_status e = ENV_RUNNABLE then Inr (Some envIndex) else sched_scan k (Suc i) current es))"

text \<open>The environment \<open>sched_yield\<close> runs, or \<open>None\<close> when the CPU halts.\<close>

definition sched_yield :: "jos \<Rightarrow> nat option c" where
  "sched_yield s =
     bindE (case curenv s of None \<Rightarrow> Inr 0 | Some c \<Rightarrow> bindE (rd (envs s) c) (\<lambda>e. Inr (ENVX (env_id e)))) (\<lambda>current.
     bindE (sched_scan NENV 0 current (envs s)) (\<lambda>toSchedule.
     case (toSchedule, curenv s) of
       (None, Some c) \<Rightarrow> bindE (rd (envs s) c) (\<lambda>e.
          Inr (if env_status e = ENV_RUNNING then Some c else None))
     | _ \<Rightarrow> Inr toSchedule))"

definition env_run :: "nat \<Rightarrow> jos \<Rightarrow> jos c" where
  "env_run e s =
     (if curenv s \<noteq> Some e
      then bindE (case curenv s of None \<Rightarrow> Inr s
                  | Some c \<Rightarrow> bindE (rd (envs s) c) (\<lambda>b.
                      Inr (if env_status b = ENV_RUNNING
                           then s\<lparr>envs := (envs s)[c := b\<lparr>env_status := ENV_RUNNABLE\<rparr>]\<rparr> else s))) (\<lambda>s.
           bindE (rd (envs s) e) (\<lambda>b.
           Inr (s\<lparr>curenv := Some e,
                  envs := (envs s)[e := b\<lparr>env_status := ENV_RUNNING, env_runs := env_runs b + 1\<rparr>]\<rparr>)))
      else Inr s)"

end
