(* ===== verification/JosEnv.thy ===== *)
theory JosEnv
  imports JosPages
begin

text \<open>
  Environments of the JOS kernel (\<open>kern/env.c\<close>, \<open>kern/sched.c\<close>): the table \<open>envs\<close> and its free list,
  creating and destroying an environment with its address space, and giving up the CPU.

  A function of the kernel that may not come back to its caller, because it runs an environment or
  halts the CPU, says so in its result (\<open>flow\<close>). Kernel code that follows a user pointer goes through
  the page tables of the running environment (\<open>load_byte\<close>, \<open>store_byte\<close>), where a fault is a panic.
\<close>

section \<open>Constants\<close>

definition ENVGENSHIFT :: nat where "ENVGENSHIFT = 12"
definition ENV_TYPE_USER :: u32 where "ENV_TYPE_USER = 0"
definition ENV_TYPE_FS :: u32 where "ENV_TYPE_FS = 1"
definition GD_KT :: u16 where "GD_KT = 0x08"
definition GD_UT :: u16 where "GD_UT = 0x18"
definition GD_UD :: u16 where "GD_UD = 0x20"
definition FL_IF :: u32 where "FL_IF = 0x200"
definition FL_IOPL_3 :: u32 where "FL_IOPL_3 = 0x3000"
definition UXSTACKTOP :: u32 where "UXSTACKTOP = UTOP"
definition USTACKTOP :: u32 where "USTACKTOP = UTOP - 2 * PGSIZE"

definition PGADDR :: "nat \<Rightarrow> nat \<Rightarrow> u32" where
  "PGADDR d t = push_bit 22 (of_nat d) OR push_bit 12 (of_nat t)"

definition set_env :: "nat \<Rightarrow> (env \<Rightarrow> env) \<Rightarrow> jos \<Rightarrow> jos c" where
  "set_env i f s = bindE (rd (envs s) i) (\<lambda>e. Inr (s\<lparr>envs := (envs s)[i := f e]\<rparr>))"

definition cur_env :: "jos \<Rightarrow> env c" where
  "cur_env s = bindE (deref (curenv s)) (rd (envs s))"

section \<open>Memory under a page directory\<close>

definition load_byte :: "nat \<Rightarrow> u32 \<Rightarrow> jos \<Rightarrow> u8 c" where
  "load_byte pgdir va s = bindE (translate pgdir va False s) (\<lambda>frame.
     let ofs = unat (va AND 0xFFF)
     in Inr (ucast (drop_bit (8 * (ofs mod 4)) (mem s frame (ofs div 4)))))"

definition store_byte :: "nat \<Rightarrow> u32 \<Rightarrow> u8 \<Rightarrow> jos \<Rightarrow> jos c" where
  "store_byte pgdir va b s = bindE (translate pgdir va True s) (\<lambda>frame.
     let ofs = unat (va AND 0xFFF);
         k = 8 * (ofs mod 4);
         w = mem s frame (ofs div 4)
     in Inr (write_pte (frame, ofs div 4) ((w AND NOT (push_bit k 0xFF)) OR push_bit k (ucast b)) s))"

definition load16 :: "nat \<Rightarrow> u32 \<Rightarrow> jos \<Rightarrow> u16 c" where
  "load16 pgdir va s =
     bindE (load_byte pgdir va s) (\<lambda>b0. bindE (load_byte pgdir (va + 1) s) (\<lambda>b1.
     Inr (ucast b0 OR push_bit 8 (ucast b1))))"

definition load32 :: "nat \<Rightarrow> u32 \<Rightarrow> jos \<Rightarrow> u32 c" where
  "load32 pgdir va s =
     bindE (load16 pgdir va s) (\<lambda>h0. bindE (load16 pgdir (va + 2) s) (\<lambda>h1.
     Inr (ucast h0 OR push_bit 16 (ucast h1))))"

definition store16 :: "nat \<Rightarrow> u32 \<Rightarrow> u16 \<Rightarrow> jos \<Rightarrow> jos c" where
  "store16 pgdir va w s =
     bindE (store_byte pgdir va (ucast w) s) (\<lambda>s. store_byte pgdir (va + 1) (ucast (drop_bit 8 w)) s)"

definition store32 :: "nat \<Rightarrow> u32 \<Rightarrow> u32 \<Rightarrow> jos \<Rightarrow> jos c" where
  "store32 pgdir va w s =
     bindE (store16 pgdir va (ucast w) s) (\<lambda>s. store16 pgdir (va + 2) (ucast (drop_bit 16 w)) s)"

text \<open>Consecutive words.\<close>

fun store_words :: "nat \<Rightarrow> u32 \<Rightarrow> u32 list \<Rightarrow> jos \<Rightarrow> jos c" where
  "store_words pgdir va [] s = Inr s"
| "store_words pgdir va (w # ws) s = bindE (store32 pgdir va w s) (\<lambda>s. store_words pgdir (va + 4) ws s)"

fun load_words :: "nat \<Rightarrow> nat \<Rightarrow> u32 \<Rightarrow> jos \<Rightarrow> u32 list c" where
  "load_words 0 pgdir va s = Inr []"
| "load_words (Suc n) pgdir va s =
     bindE (load32 pgdir va s) (\<lambda>w. bindE (load_words n pgdir (va + 4) s) (\<lambda>ws. Inr (w # ws)))"

section \<open>The table of environments\<close>

definition env_init :: "jos \<Rightarrow> jos" where
  "env_init s = s\<lparr>envs := map (\<lambda>i. zero_env\<lparr>env_link := (if i < NENV - 1 then Some (i + 1) else None)\<rparr>) [0..<NENV],
     env_free_list := Some 0\<rparr>"

definition env_setup_vm :: "nat \<Rightarrow> jos \<Rightarrow> (int \<times> jos) c" where
  "env_setup_vm e s = bindE (page_alloc ALLOC_ZERO s) (\<lambda>(p, s). case p of
     None \<Rightarrow> Inr (- E_NO_MEM, s)
   | Some p \<Rightarrow>
       bindE (set_page p (\<lambda>p. p\<lparr>pp_ref := pp_ref p + 1\<rparr>) s) (\<lambda>s.
       bindE (KADDR (page2pa p) s) (\<lambda>dir.
       bindE (set_env e (\<lambda>b. b\<lparr>env_pgdir := Some dir\<rparr>) s) (\<lambda>s.
       let s = s\<lparr>mem := (mem s)(dir := mem s (kern_pgdir s))\<rparr>
       in Inr (0, write_pte (dir, PDX UVPT) (page2pa dir OR PTE_P OR PTE_U) s)))))"

text \<open>The identifier the next environment of a slot gets.\<close>

definition next_id :: "u32 \<Rightarrow> nat \<Rightarrow> u32 c" where
  "next_id old slot = bindE (guardE SignedOverflow (in_i32 (sint old + 2 ^ ENVGENSHIFT))) (\<lambda>_.
     let gen = (old + 2 ^ ENVGENSHIFT) AND NOT (of_nat (NENV - 1));
         gen = (if sint gen \<le> 0 then 2 ^ ENVGENSHIFT else gen)
     in Inr (gen OR of_nat slot))"

definition user_tf :: trapframe where
  "user_tf = zero_tf\<lparr>tf_ds := GD_UD OR 3, tf_es := GD_UD OR 3, tf_ss := GD_UD OR 3, tf_esp := USTACKTOP,
     tf_cs := GD_UT OR 3, tf_eflags := FL_IF\<rparr>"

definition env_alloc :: "u32 \<Rightarrow> jos \<Rightarrow> (int \<times> nat option \<times> jos) c" where
  "env_alloc parent s = (case env_free_list s of
     None \<Rightarrow> Inr (- E_NO_FREE_ENV, None, s)
   | Some e \<Rightarrow>
       bindE (env_setup_vm e s) (\<lambda>(r, s).
       if r < 0 then Inr (r, None, s)
       else bindE (rd (envs s) e) (\<lambda>b.
            bindE (next_id (env_id b) e) (\<lambda>i.
            bindE (set_env e (\<lambda>b. b\<lparr>env_id := i, env_parent_id := parent, env_type := ENV_TYPE_USER,
                env_status := ENV_RUNNABLE, env_runs := 0, env_tf := user_tf, env_pgfault_upcall := 0,
                env_ipc_recving := False\<rparr>) s) (\<lambda>s.
            Inr (0, Some e, s\<lparr>env_free_list := env_link b\<rparr>))))))"

text \<open>
  \<open>region_alloc\<close> steps through the region byte by byte, in a signed \<open>addr\<close>; \<open>k\<close> bytes are left. The
  result of \<open>page_insert\<close> is not looked at.
\<close>

fun region_loop :: "nat \<Rightarrow> nat \<Rightarrow> u32 \<Rightarrow> jos \<Rightarrow> jos c" where
  "region_loop 0 pgdir addr s = Inr s"
| "region_loop (Suc k) pgdir addr s =
     bindE (page_alloc 0 s) (\<lambda>(p, s).
     bindE (case p of None \<Rightarrow> Inl Panic | Some p \<Rightarrow> Inr p) (\<lambda>p.
     bindE (page_insert pgdir p addr (PTE_W OR PTE_U) s) (\<lambda>(r, s).
     bindE (guardE SignedOverflow (in_i32 (sint addr + 1))) (\<lambda>_.
     region_loop k pgdir (addr + 1) s))))"

definition region_alloc :: "nat \<Rightarrow> u32 \<Rightarrow> u32 \<Rightarrow> jos \<Rightarrow> jos c" where
  "region_alloc e va len s =
     (let start = ROUNDDOWN va PGSIZE; stop = ROUNDUP (va + len) PGSIZE
      in bindE (pgdir_of (Some e) s) (\<lambda>pgdir. region_loop (unat stop - unat start) pgdir start s))"

section \<open>Freeing an environment\<close>

text \<open>The entries of the page table \<open>pt\<close> from \<open>pteno\<close> on, with \<open>k\<close> left.\<close>

fun free_ptes :: "nat \<Rightarrow> nat \<Rightarrow> nat \<Rightarrow> nat \<Rightarrow> nat \<Rightarrow> jos \<Rightarrow> jos c" where
  "free_ptes 0 pgdir pt pdeno pteno s = Inr s"
| "free_ptes (Suc k) pgdir pt pdeno pteno s =
     bindE (if read_pte (pt, pteno) s AND PTE_P \<noteq> 0 then page_remove pgdir (PGADDR pdeno pteno) s else Inr s)
       (\<lambda>s. free_ptes k pgdir pt pdeno (Suc pteno) s)"

text \<open>The page tables from \<open>pdeno\<close> on, with \<open>k\<close> left.\<close>

fun free_pdes :: "nat \<Rightarrow> nat \<Rightarrow> nat \<Rightarrow> jos \<Rightarrow> jos c" where
  "free_pdes 0 pgdir pdeno s = Inr s"
| "free_pdes (Suc k) pgdir pdeno s =
     (if read_pte (pgdir, pdeno) s AND PTE_P = 0 then free_pdes k pgdir (Suc pdeno) s
      else let pa = PTE_ADDR (read_pte (pgdir, pdeno) s)
           in bindE (KADDR pa s) (\<lambda>pt.
              bindE (free_ptes 1024 pgdir pt pdeno 0 s) (\<lambda>s.
              let s = write_pte (pgdir, pdeno) 0 s
              in bindE (pa2page pa s) (\<lambda>p.
                 bindE (page_decref p s) (\<lambda>s. free_pdes k pgdir (Suc pdeno) s)))))"

definition env_free :: "nat \<Rightarrow> jos \<Rightarrow> jos c" where
  "env_free e s =
     bindE (pgdir_of (Some e) s) (\<lambda>pgdir.
     bindE (free_pdes (PDX UTOP) pgdir 0 s) (\<lambda>s.
     bindE (set_env e (\<lambda>b. b\<lparr>env_pgdir := None\<rparr>) s) (\<lambda>s.
     bindE (pa2page (page2pa pgdir) s) (\<lambda>p.
     bindE (page_decref p s) (\<lambda>s.
     bindE (set_env e (\<lambda>b. b\<lparr>env_status := ENV_FREE, env_link := env_free_list s\<rparr>) s) (\<lambda>s.
     Inr (s\<lparr>env_free_list := Some e\<rparr>)))))))"

section \<open>Giving up the CPU\<close>

datatype flow = Returns int | Runs nat | Halted

text \<open>With no environment left that could run, \<open>sched_halt\<close> stays in the kernel monitor.\<close>

definition sched_halt :: "jos \<Rightarrow> (flow \<times> jos) c" where
  "sched_halt s =
     (if \<exists>e \<in> set (take NENV (envs s)). env_status e = ENV_RUNNABLE \<or> env_status e = ENV_RUNNING \<or> env_status e = ENV_DYING
      then Inr (Halted, s\<lparr>curenv := None\<rparr>)
      else Inr (Halted, s))"

definition yield_cpu :: "jos \<Rightarrow> (flow \<times> jos) c" where
  "yield_cpu s = bindE (sched_yield s) (\<lambda>r. case r of
     Some e \<Rightarrow> bindE (env_run e s) (\<lambda>s. Inr (Runs e, s))
   | None \<Rightarrow> sched_halt s)"

definition env_destroy :: "nat \<Rightarrow> jos \<Rightarrow> (flow \<times> jos) c" where
  "env_destroy e s =
     bindE (rd (envs s) e) (\<lambda>b.
     if env_status b = ENV_RUNNING \<and> curenv s \<noteq> Some e
     then bindE (set_env e (\<lambda>b. b\<lparr>env_status := ENV_DYING\<rparr>) s) (\<lambda>s. Inr (Returns 0, s))
     else bindE (env_destroy_cleanup (env_id b) s) (\<lambda>s.
          bindE (env_free e s) (\<lambda>s.
          if curenv s = Some e then yield_cpu (s\<lparr>curenv := None\<rparr>) else Inr (Returns 0, s))))"

definition user_mem_assert :: "nat \<Rightarrow> u32 \<Rightarrow> u32 \<Rightarrow> u32 \<Rightarrow> jos \<Rightarrow> (flow \<times> jos) c" where
  "user_mem_assert e va len perm s =
     bindE (user_mem_check (Some e) va len (perm OR PTE_U) s) (\<lambda>r. case r of
       None \<Rightarrow> Inr (Returns 0, s)
     | Some a \<Rightarrow> env_destroy e s)"

text \<open>A call that comes back, and what follows a call, if it comes back.\<close>

definition ret :: "(int \<times> jos) c \<Rightarrow> (flow \<times> jos) c" where
  "ret m = bindE m (\<lambda>(r, s). Inr (Returns r, s))"

definition continue :: "(flow \<times> jos) c \<Rightarrow> (int \<Rightarrow> jos \<Rightarrow> (flow \<times> jos) c) \<Rightarrow> (flow \<times> jos) c" where
  "continue m f = bindE m (\<lambda>(fl, s). case fl of Returns r \<Rightarrow> f r s | _ \<Rightarrow> Inr (fl, s))"

lemma continue_simps [simp]:
  "continue (Inl x) f = Inl x"
  "continue (Inr (Returns r, s)) f = f r s"
  "continue (Inr (Runs e, s)) f = Inr (Runs e, s)"
  "continue (Inr (Halted, s)) f = Inr (Halted, s)"
  by (simp_all add: continue_def)

end
