(* ===== verification/JosSyscall.thy ===== *)
theory JosSyscall
  imports JosEnv
begin

text \<open>
  The system calls and the traps of the JOS kernel (\<open>kern/syscall.c\<close>, \<open>kern/trap.c\<close>, the console
  buffer of \<open>kern/console.c\<close>). Arguments are the 32-bit registers of the caller; the return value of
  a call is an integer, an identifier of an environment or a negated error code.
\<close>

definition E_IPC_NOT_RECV :: int where "E_IPC_NOT_RECV = 7"
definition CONSBUFSIZE :: nat where "CONSBUFSIZE = 512"

section \<open>Console\<close>

text \<open>The characters \<open>cs\<close> a device has ready go into the ring buffer, except NUL.\<close>

fun cons_intr :: "u8 list \<Rightarrow> jos \<Rightarrow> jos c" where
  "cons_intr [] s = Inr s"
| "cons_intr (c # cs) s =
     (if c = 0 then cons_intr cs s
      else bindE (wr (cons_buf s) (cons_wpos s) c) (\<lambda>buf.
           cons_intr cs (s\<lparr>cons_buf := buf,
             cons_wpos := (if cons_wpos s + 1 = CONSBUFSIZE then 0 else cons_wpos s + 1)\<rparr>)))"

definition serial_intr :: "jos \<Rightarrow> jos c" where
  "serial_intr s = cons_intr (serial_in s) (s\<lparr>serial_in := []\<rparr>)"

definition kbd_intr :: "jos \<Rightarrow> jos c" where
  "kbd_intr s = cons_intr (kbd_in s) (s\<lparr>kbd_in := []\<rparr>)"

definition cons_getc :: "jos \<Rightarrow> (int \<times> jos) c" where
  "cons_getc s = bindE (serial_intr s) (\<lambda>s. bindE (kbd_intr s) (\<lambda>s.
     if cons_rpos s \<noteq> cons_wpos s
     then bindE (rd (cons_buf s) (cons_rpos s)) (\<lambda>c.
          Inr (uint c, s\<lparr>cons_rpos := (if cons_rpos s + 1 = CONSBUFSIZE then 0 else cons_rpos s + 1)\<rparr>))
     else Inr (0, s)))"

text \<open>
  What \<open>vprintfmt\<close> does for \<open>%.*s\<close>: it reads a character before it looks at the precision. The
  precision is a signed number, and a negative one is no limit; \<open>n\<close> is one more than the number of
  characters it may print, all of memory in that case.
\<close>

fun print_string :: "nat \<Rightarrow> bool \<Rightarrow> nat \<Rightarrow> u32 \<Rightarrow> jos \<Rightarrow> jos c" where
  "print_string 0 limited pgdir p s = (if limited then Inr s else Inl Diverges)"
| "print_string (Suc n) limited pgdir p s =
     bindE (load_byte pgdir p s) (\<lambda>ch.
     if ch = 0 \<or> limited \<and> n = 0 then Inr s
     else print_string n limited pgdir (p + 1) (s\<lparr>cons_out := cons_out s @ [ch]\<rparr>))"

definition null_text :: "u8 list" where "null_text = [0x28, 0x6E, 0x75, 0x6C, 0x6C, 0x29]"

definition print_user :: "u32 \<Rightarrow> u32 \<Rightarrow> jos \<Rightarrow> jos c" where
  "print_user p len s =
     (if p = 0 then Inr (s\<lparr>cons_out := cons_out s @ (if sint len < 0 then null_text else take (unat len) null_text)\<rparr>)
      else bindE (pgdir_of (curenv s) s) (\<lambda>pgdir.
           print_string (if sint len < 0 then 2 ^ 32 else unat len + 1) (sint len \<ge> 0) pgdir p s))"

definition sys_cputs :: "u32 \<Rightarrow> u32 \<Rightarrow> jos \<Rightarrow> (flow \<times> jos) c" where
  "sys_cputs p len s =
     bindE (cur_env s) (\<lambda>c. bindE (envid2env (env_id c) True s) (\<lambda>(r, e). bindE (deref e) (\<lambda>e.
     continue (user_mem_assert e p len PTE_U s) (\<lambda>_ s.
     bindE (print_user p len s) (\<lambda>s. Inr (Returns 0, s))))))"

definition sys_cgetc :: "jos \<Rightarrow> (int \<times> jos) c" where "sys_cgetc s = cons_getc s"

section \<open>Environments\<close>

definition sys_getenvid :: "jos \<Rightarrow> (int \<times> jos) c" where
  "sys_getenvid s = bindE (cur_env s) (\<lambda>c. Inr (sint (env_id c), s))"

definition sys_env_destroy :: "u32 \<Rightarrow> jos \<Rightarrow> (flow \<times> jos) c" where
  "sys_env_destroy envid s =
     bindE (envid2env envid True s) (\<lambda>(r, e).
     if r < 0 then Inr (Returns r, s)
     else bindE (deref e) (\<lambda>e. continue (env_destroy e s) (\<lambda>_ s. Inr (Returns 0, s))))"

definition sys_yield :: "jos \<Rightarrow> (flow \<times> jos) c" where "sys_yield s = yield_cpu s"

definition set_eax :: "u32 \<Rightarrow> trapframe \<Rightarrow> trapframe" where
  "set_eax w tf = tf\<lparr>tf_regs := (tf_regs tf)\<lparr>reg_eax := w\<rparr>\<rparr>"

definition sys_exofork :: "jos \<Rightarrow> (int \<times> jos) c" where
  "sys_exofork s =
     bindE (cur_env s) (\<lambda>c.
     bindE (env_alloc (env_id c) s) (\<lambda>(err, child, s).
     if err \<noteq> 0 then Inr (err, s)
     else bindE (deref child) (\<lambda>child.
          bindE (cur_env s) (\<lambda>c.
          bindE (set_env child (\<lambda>b. b\<lparr>env_status := ENV_NOT_RUNNABLE, env_tf := set_eax 0 (env_tf c)\<rparr>) s) (\<lambda>s.
          bindE (rd (envs s) child) (\<lambda>b. Inr (sint (env_id b), s)))))))"

text \<open>The calls that change one field of an environment.\<close>

definition on_env :: "u32 \<Rightarrow> (env \<Rightarrow> env) \<Rightarrow> jos \<Rightarrow> (int \<times> jos) c" where
  "on_env envid f s =
     bindE (envid2env envid True s) (\<lambda>(err, e).
     if err \<noteq> 0 then Inr (err, s)
     else bindE (deref e) (\<lambda>e. bindE (set_env e f s) (\<lambda>s. Inr (0, s))))"

definition sys_env_set_status :: "u32 \<Rightarrow> u32 \<Rightarrow> jos \<Rightarrow> (int \<times> jos) c" where
  "sys_env_set_status envid status s = on_env envid (\<lambda>b. b\<lparr>env_status := status\<rparr>) s"

definition sys_env_set_pgfault_upcall :: "u32 \<Rightarrow> u32 \<Rightarrow> jos \<Rightarrow> (int \<times> jos) c" where
  "sys_env_set_pgfault_upcall envid func s = on_env envid (\<lambda>b. b\<lparr>env_pgfault_upcall := func\<rparr>) s"

text \<open>The structure at \<open>va\<close>, whatever is there.\<close>

definition load_tf :: "nat \<Rightarrow> u32 \<Rightarrow> jos \<Rightarrow> trapframe c" where
  "load_tf pgdir va s =
     bindE (load_words 8 pgdir va s) (\<lambda>r.
     bindE (load16 pgdir (va + 32) s) (\<lambda>es. bindE (load16 pgdir (va + 36) s) (\<lambda>ds.
     bindE (load_words 3 pgdir (va + 40) s) (\<lambda>t.
     bindE (load16 pgdir (va + 52) s) (\<lambda>cs. bindE (load_words 2 pgdir (va + 56) s) (\<lambda>u.
     bindE (load16 pgdir (va + 64) s) (\<lambda>ss.
     Inr \<lparr>tf_regs = \<lparr>reg_edi = r ! 0, reg_esi = r ! 1, reg_ebp = r ! 2, reg_oesp = r ! 3, reg_ebx = r ! 4,
              reg_edx = r ! 5, reg_ecx = r ! 6, reg_eax = r ! 7\<rparr>,
          tf_es = es, tf_ds = ds, tf_trapno = t ! 0, tf_err = t ! 1, tf_eip = t ! 2, tf_cs = cs,
          tf_eflags = u ! 0, tf_esp = u ! 1, tf_ss = ss\<rparr>)))))))"

text \<open>The frame is changed where the caller has it, with no check of the address.\<close>

definition sys_env_set_trapframe :: "u32 \<Rightarrow> u32 \<Rightarrow> jos \<Rightarrow> (int \<times> jos) c" where
  "sys_env_set_trapframe envid tf s =
     bindE (envid2env envid True s) (\<lambda>(err, e).
     if err \<noteq> 0 then Inr (err, s)
     else bindE (pgdir_of (curenv s) s) (\<lambda>pgdir.
          bindE (load32 pgdir (tf + 56) s) (\<lambda>eflags. bindE (store32 pgdir (tf + 56) (eflags OR FL_IF) s) (\<lambda>s.
          bindE (load16 pgdir (tf + 52) s) (\<lambda>cs. bindE (store16 pgdir (tf + 52) (cs OR 3) s) (\<lambda>s.
          bindE (load_tf pgdir tf s) (\<lambda>frame.
          bindE (deref e) (\<lambda>e. bindE (set_env e (\<lambda>b. b\<lparr>env_tf := frame\<rparr>) s) (\<lambda>s. Inr (0, s))))))))))"

section \<open>Address spaces\<close>

definition sys_page_alloc :: "u32 \<Rightarrow> u32 \<Rightarrow> u32 \<Rightarrow> jos \<Rightarrow> (int \<times> jos) c" where
  "sys_page_alloc envid va perm s =
     (if perm AND PTE_P = 0 \<or> perm AND PTE_U = 0 then Inr (- E_INVAL, s)
      else if perm AND NOT (PTE_U OR PTE_P OR PTE_AVAIL OR PTE_W) \<noteq> 0 then Inr (- E_INVAL, s)
      else if va \<ge> UTOP \<or> va mod PGSIZE \<noteq> 0 then Inr (- E_INVAL, s)
      else bindE (page_alloc ALLOC_ZERO s) (\<lambda>(newPage, s). case newPage of
             None \<Rightarrow> Inr (- E_NO_MEM, s)
           | Some newPage \<Rightarrow>
               bindE (envid2env envid True s) (\<lambda>(err, e).
               if err \<noteq> 0 then Inr (err, s)
               else bindE (pgdir_of e s) (\<lambda>pgdir.
                    bindE (page_insert pgdir newPage va perm s) (\<lambda>(err, s).
                    if err \<noteq> 0 then bindE (page_free newPage s) (\<lambda>s. Inr (err, s))
                    else bindE (on_page_alloc_success va envid (page2pa newPage) s) (\<lambda>s. Inr (0, s)))))))"

definition sys_page_map :: "u32 \<Rightarrow> u32 \<Rightarrow> u32 \<Rightarrow> u32 \<Rightarrow> u32 \<Rightarrow> jos \<Rightarrow> (int \<times> jos) c" where
  "sys_page_map srcenvid srcva dstenvid dstva perm s =
     bindE (envid2env srcenvid True s) (\<lambda>(err, srcEnv).
     if err \<noteq> 0 then Inr (err, s)
     else bindE (envid2env dstenvid True s) (\<lambda>(err, dstEnv).
     if err \<noteq> 0 then Inr (err, s)
     else if srcva \<ge> UTOP \<or> srcva mod PGSIZE \<noteq> 0 then Inr (- E_INVAL, s)
     else bindE (pgdir_of srcEnv s) (\<lambda>src. bindE (page_lookup src srcva s) (\<lambda>(r, s). case r of
            None \<Rightarrow> Inr (- E_INVAL, s)
          | Some (srcPage, shared_page) \<Rightarrow>
              if perm AND PTE_W \<noteq> 0 \<and> read_pte shared_page s AND PTE_W = 0 then Inr (- E_INVAL, s)
              else bindE (pgdir_of dstEnv s) (\<lambda>dst. page_insert dst srcPage dstva perm s)))))"

definition sys_page_unmap :: "u32 \<Rightarrow> u32 \<Rightarrow> jos \<Rightarrow> (int \<times> jos) c" where
  "sys_page_unmap envid va s =
     (if va \<ge> UTOP \<or> va mod PGSIZE \<noteq> 0 then Inr (- E_INVAL, s)
      else bindE (envid2env envid True s) (\<lambda>(err, e).
           if err \<noteq> 0 then Inr (err, s)
           else bindE (pgdir_of e s) (\<lambda>pgdir. bindE (page_remove pgdir va s) (\<lambda>s. Inr (0, s)))))"

section \<open>Messages\<close>

text \<open>
  The page that goes with a message, if any: the error, or 0. The permissions are recorded in the
  environment of the receiver when the page is mapped there.
\<close>

definition send_page :: "nat \<Rightarrow> u32 \<Rightarrow> u32 \<Rightarrow> jos \<Rightarrow> (int \<times> jos) c" where
  "send_page dst srcva perm s =
     bindE (pgdir_of (curenv s) s) (\<lambda>src. bindE (page_lookup src srcva s) (\<lambda>(r, s). case r of
       None \<Rightarrow> Inr (- E_INVAL, s)
     | Some (pg, pte) \<Rightarrow>
         if (read_pte pte s AND perm) AND 7 \<noteq> perm AND 7 then Inr (- E_INVAL, s)
         else if perm AND PTE_W \<noteq> 0 \<and> read_pte pte s AND PTE_W = 0 then Inr (- E_INVAL, s)
         else if srcva \<noteq> ROUNDDOWN srcva PGSIZE then Inr (- E_INVAL, s)
         else bindE (rd (envs s) dst) (\<lambda>d.
              if env_ipc_dstva d < UTOP
              then bindE (pgdir_of (Some dst) s) (\<lambda>pgdir.
                   bindE (page_insert pgdir pg (env_ipc_dstva d) perm s) (\<lambda>(err, s).
                   if err \<noteq> 0 then Inr (err, s)
                   else bindE (set_env dst (\<lambda>b. b\<lparr>env_ipc_perm := perm\<rparr>) s) (\<lambda>s. Inr (0, s))))
              else Inr (0, s))))"

definition sys_ipc_try_send :: "u32 \<Rightarrow> u32 \<Rightarrow> u32 \<Rightarrow> u32 \<Rightarrow> jos \<Rightarrow> (int \<times> jos) c" where
  "sys_ipc_try_send envid v srcva perm s =
     bindE (envid2env envid False s) (\<lambda>(err, e).
     if err \<noteq> 0 then Inr (err, s)
     else bindE (deref e) (\<lambda>dst. bindE (rd (envs s) dst) (\<lambda>d.
     if \<not> env_ipc_recving d then Inr (- E_IPC_NOT_RECV, s)
     else bindE (set_env dst (\<lambda>b. b\<lparr>env_ipc_perm := 0\<rparr>) s) (\<lambda>s.
          bindE (if srcva < UTOP then send_page dst srcva perm s else Inr (0, s)) (\<lambda>(err, s).
          if err \<noteq> 0 then Inr (err, s)
          else bindE (cur_env s) (\<lambda>c.
               bindE (set_env dst (\<lambda>b. b\<lparr>env_ipc_recving := False, env_ipc_from := env_id c, env_ipc_value := v,
                   env_status := ENV_RUNNABLE, env_tf := set_eax 0 (env_tf b)\<rparr>) s) (\<lambda>s. Inr (0, s))))))))"

definition sys_ipc_recv :: "u32 \<Rightarrow> jos \<Rightarrow> (flow \<times> jos) c" where
  "sys_ipc_recv dstva s =
     (if dstva < UTOP \<and> dstva \<noteq> ROUNDDOWN dstva PGSIZE then Inr (Returns (- E_INVAL), s)
      else bindE (deref (curenv s)) (\<lambda>c.
           bindE (set_env c (\<lambda>b. b\<lparr>env_ipc_recving := True, env_status := ENV_NOT_RUNNABLE, env_ipc_dstva := dstva\<rparr>) s)
             (\<lambda>s. continue (sys_yield s) (\<lambda>_ s. Inr (Returns 0, s)))))"

text \<open>\<open>TESTING\<close> is true, so the call does not panic.\<close>

definition sys_test_call :: "u32 \<Rightarrow> jos \<Rightarrow> (int \<times> jos) c" where "sys_test_call a s = Inr (0, s)"

section \<open>Dispatch\<close>

definition syscall :: "u32 \<Rightarrow> u32 \<Rightarrow> u32 \<Rightarrow> u32 \<Rightarrow> u32 \<Rightarrow> u32 \<Rightarrow> jos \<Rightarrow> (flow \<times> jos) c" where
  "syscall syscallno a1 a2 a3 a4 a5 s =
     (if syscallno = 0 then continue (sys_cputs a1 a2 s) (\<lambda>_ s. Inr (Returns 0, s))
      else if syscallno = 1 then ret (sys_cgetc s)
      else if syscallno = 2 then ret (sys_getenvid s)
      else if syscallno = 3 then continue (sys_env_destroy a1 s) (\<lambda>_ s. Inr (Returns 0, s))
      else if syscallno = 4 then ret (sys_page_alloc a1 a2 a3 s)
      else if syscallno = 5 then ret (sys_page_map a1 a2 a3 a4 a5 s)
      else if syscallno = 6 then ret (sys_page_unmap a1 a2 s)
      else if syscallno = 7 then ret (sys_exofork s)
      else if syscallno = 8 then ret (sys_env_set_status a1 a2 s)
      else if syscallno = 9 then ret (sys_env_set_trapframe a1 a2 s)
      else if syscallno = 10 then ret (sys_env_set_pgfault_upcall a1 a2 s)
      else if syscallno = 11 then continue (sys_yield s) (\<lambda>_ s. Inr (Returns 0, s))
      else if syscallno = 12 then ret (sys_ipc_try_send a1 a2 a3 a4 s)
      else if syscallno = 13 then sys_ipc_recv a1 s
      else if syscallno = 14 then ret (sys_test_call a1 s)
      else Inr (Returns (- E_INVAL), s))"

section \<open>Traps\<close>

definition T_DEBUG :: u32 where "T_DEBUG = 1"
definition T_BRKPT :: u32 where "T_BRKPT = 3"
definition T_PGFLT :: u32 where "T_PGFLT = 14"
definition T_SYSCALL :: u32 where "T_SYSCALL = 48"
definition IRQ_OFFSET :: u32 where "IRQ_OFFSET = 32"
definition IRQ_TIMER :: u32 where "IRQ_TIMER = 0"
definition IRQ_KBD :: u32 where "IRQ_KBD = 1"
definition IRQ_SERIAL :: u32 where "IRQ_SERIAL = 4"
definition IRQ_SPURIOUS :: u32 where "IRQ_SPURIOUS = 7"

text \<open>A \<open>struct UTrapframe\<close> in memory, 13 words.\<close>

definition utrapframe :: "u32 \<Rightarrow> trapframe \<Rightarrow> u32 list" where
  "utrapframe fault_va tf = (let r = tf_regs tf in
     [fault_va, tf_err tf, reg_edi r, reg_esi r, reg_ebp r, reg_oesp r, reg_ebx r, reg_edx r, reg_ecx r,
      reg_eax r, tf_eip tf, tf_eflags tf, tf_esp tf])"

definition next_tf_addr :: "trapframe \<Rightarrow> u32" where
  "next_tf_addr tf = (if UXSTACKTOP - 1 \<ge> tf_esp tf \<and> tf_esp tf \<ge> UXSTACKTOP - PGSIZE
     then tf_esp tf - 52 - 4 else UXSTACKTOP - 52)"

text \<open>
  A page fault of the environment \<open>curenv\<close>, whose frame is saved. A page table that is not there
  gives a NULL entry, and the code reads it: what is at address 0 of the user's memory.
\<close>

definition page_fault_handler :: "u32 \<Rightarrow> jos \<Rightarrow> (flow \<times> jos) c" where
  "page_fault_handler fault_va s =
     bindE (deref (curenv s)) (\<lambda>c. bindE (rd (envs s) c) (\<lambda>b.
     let tf = env_tf b
     in bindE (guardE Panic (tf_cs tf AND 3 \<noteq> 0)) (\<lambda>_.
        bindE (deref (env_pgdir b)) (\<lambda>pgdir.
        bindE (pgdir_find pgdir fault_va s) (\<lambda>e.
        bindE (case e of Some p \<Rightarrow> Inr (read_pte p s) | None \<Rightarrow> load32 pgdir 0 s) (\<lambda>pte.
        bindE (guardE Panic (pte AND PTE_P = 0)) (\<lambda>_.
        if pte AND PTE_ON_DISK \<noteq> 0
        then bindE (page_fault_intercept pgdir fault_va s) (\<lambda>s. Inr (Returns 0, s))
        else if env_pgfault_upcall b \<noteq> 0
        then continue (user_mem_assert c (next_tf_addr tf) 1 PTE_W s) (\<lambda>_ s.
             bindE (store_words pgdir (next_tf_addr tf) (utrapframe fault_va tf) s) (\<lambda>s.
             bindE (set_env c (\<lambda>b. b\<lparr>env_tf := (env_tf b)\<lparr>tf_eip := env_pgfault_upcall b, tf_esp := next_tf_addr tf\<rparr>\<rparr>) s) (\<lambda>s.
             bindE (env_run c s) (\<lambda>s. Inr (Runs c, s)))))
        else env_destroy c s)))))))"

definition trap_dispatch :: "u32 \<Rightarrow> jos \<Rightarrow> (flow \<times> jos) c" where
  "trap_dispatch fault_va s =
     bindE (deref (curenv s)) (\<lambda>c. bindE (rd (envs s) c) (\<lambda>b.
     let tf = env_tf b; r = tf_regs tf
     in if tf_trapno tf = T_DEBUG
        then bindE (set_env c (\<lambda>b. b\<lparr>env_tf := (env_tf b)\<lparr>tf_eflags := tf_eflags tf AND NOT 0x100\<rparr>\<rparr>) s) (\<lambda>s. Inr (Returns 0, s))
        else if tf_trapno tf = T_PGFLT then page_fault_handler fault_va s
        else if tf_trapno tf = T_BRKPT then Inr (Returns 0, s)
        else if tf_trapno tf = T_SYSCALL
        then continue (syscall (reg_eax r) (reg_edx r) (reg_ecx r) (reg_ebx r) (reg_edi r) (reg_esi r) s) (\<lambda>v s.
             bindE (set_env c (\<lambda>b. b\<lparr>env_tf := set_eax (of_int v) (env_tf b)\<rparr>) s) (\<lambda>s. Inr (Returns 0, s)))
        else if tf_trapno tf = IRQ_OFFSET + IRQ_SPURIOUS then Inr (Returns 0, s)
        else if tf_trapno tf = IRQ_OFFSET + IRQ_TIMER then yield_cpu s
        else if tf_trapno tf = IRQ_OFFSET + IRQ_KBD then bindE (kbd_intr s) (\<lambda>s. Inr (Returns 0, s))
        else if tf_trapno tf = IRQ_OFFSET + IRQ_SERIAL then bindE (serial_intr s) (\<lambda>s. Inr (Returns 0, s))
        else if tf_cs tf = GD_KT then Inl Panic
        else env_destroy c s))"

text \<open>A trap from user mode with the frame \<open>tf\<close>; \<open>fault_va\<close> is \<open>cr2\<close>.\<close>

definition trap :: "trapframe \<Rightarrow> u32 \<Rightarrow> jos \<Rightarrow> (flow \<times> jos) c" where
  "trap tf fault_va s =
     bindE (case curenv s of None \<Rightarrow> Inl AssertFail | Some c \<Rightarrow> Inr c) (\<lambda>c. bindE (rd (envs s) c) (\<lambda>b.
     if env_status b = ENV_DYING then bindE (env_free c s) (\<lambda>s. yield_cpu (s\<lparr>curenv := None\<rparr>))
     else bindE (set_env c (\<lambda>b. b\<lparr>env_tf := tf\<rparr>) s) (\<lambda>s.
          continue (trap_dispatch fault_va s) (\<lambda>_ s. case curenv s of
            None \<Rightarrow> yield_cpu s
          | Some c \<Rightarrow> bindE (rd (envs s) c) (\<lambda>b.
              if env_status b = ENV_RUNNING then bindE (env_run c s) (\<lambda>s. Inr (Runs c, s))
              else yield_cpu s)))))"

end
