(* ===== verification/JosProofs.thy ===== *)
theory JosProofs
  imports JosPages Interfaces
begin

text \<open>
  The swap disk as an allocator of blocks, and the queue of the frames in use from which the
  kernel chooses the page to evict.
\<close>

section \<open>Words\<close>

lemma small_bit: "unat w < 2 ^ k \<Longrightarrow> bit (w :: u32) n \<Longrightarrow> n < k"
proof -
  assume "unat w < 2 ^ k" and b: "bit w n"
  then have "take_bit k (unat w) = unat w" by (simp add: take_bit_nat_eq_self)
  moreover have "bit (unat w) n" using b by (simp add: bit_unsigned_iff)
  ultimately show "n < k" by (metis bit_take_bit_iff)
qed

lemma small_numeral_bit:
  "bit (0xFFF :: u32) n \<longleftrightarrow> n < 12" "bit (0x3FF :: u32) n \<longleftrightarrow> n < 10" "bit (0xFFFFF :: u32) n \<longleftrightarrow> n < 20"
proof -
  have "(0xFFF :: u32) = mask 12" "(0x3FF :: u32) = mask 10" "(0xFFFFF :: u32) = mask 20"
    by (simp_all add: mask_eq_exp_minus_1)
  then show "bit (0xFFF :: u32) n \<longleftrightarrow> n < 12" "bit (0x3FF :: u32) n \<longleftrightarrow> n < 10"
    "bit (0xFFFFF :: u32) n \<longleftrightarrow> n < 20"
    by (simp_all only: bit_mask_iff) auto
qed

lemma PTE_ADDR_bit: "bit (PTE_ADDR w) n \<longleftrightarrow> 12 \<le> n \<and> bit w n"
  unfolding PTE_ADDR_def bit_and_iff bit_not_iff small_numeral_bit
  using bit_imp_le_length [of w n] by auto

lemma PTE_ADDR_drop: "drop_bit 12 (PTE_ADDR w) = drop_bit 12 w"
  by (rule bit_word_eqI) (simp add: bit_drop_bit_eq PTE_ADDR_bit)

lemma PGNUM_ADDR [simp]: "PGNUM (PTE_ADDR w) = PGNUM w"
  by (simp add: PGNUM_def PTE_ADDR_drop)

lemma PGNUM_page2pa:
  assumes "f < 2 ^ 20" and "flags < 4096"
  shows "PGNUM (page2pa f OR flags) = f"
proof -
  have "unat flags < 2 ^ 12" using assms(2) by (simp add: word_less_nat_alt)
  then have "\<not> bit flags (n + 12)" for n using small_bit [of flags 12 "n + 12"] by auto
  moreover have "n < 20" if "bit f n" for n
    using assms(1) that by (metis bit_take_bit_iff take_bit_nat_eq_self)
  ultimately have "drop_bit 12 (page2pa f OR flags) = of_nat f"
    by (intro bit_word_eqI) (auto simp: page2pa_def bit_simps add.commute)
  moreover have "unat (of_nat f :: u32) = f" using assms(1) by (simp add: unsigned_of_nat take_bit_nat_eq_self)
  ultimately show ?thesis by (simp add: PGNUM_def)
qed

lemma PGNUM_lt: "PGNUM w < 2 ^ 20"
proof -
  have "unat w < 2 ^ 32" using unsigned_less [of w] by simp
  then show ?thesis by (simp add: PGNUM_def unat_drop_bit_word)
qed

lemma ROUNDDOWN_page: "drop_bit 12 (ROUNDDOWN va PGSIZE) = drop_bit 12 va"
proof -
  have m: "unat (va mod 4096) = unat va mod 4096" by (simp add: unat_mod)
  have "unat (va - va mod 4096) = unat va - unat va mod 4096"
    using m by (simp add: unat_sub word_le_nat_alt)
  then have "unat (drop_bit 12 (ROUNDDOWN va PGSIZE)) = unat (drop_bit 12 va)"
    by (simp add: ROUNDDOWN_def PGSIZE_def unat_drop_bit_word) (metis div_mult_self_is_m dvd_minus_mod dvd_mult_div_cancel minus_mod_eq_mult_div mult.commute zero_less_numeral nonzero_mult_div_cancel_left zero_neq_numeral)
  then show ?thesis by (simp add: word_unat_eq_iff)
qed

lemma PDX_page: "drop_bit 12 va = drop_bit 12 va' \<Longrightarrow> PDX va = PDX va' \<and> PTX va = PTX va'"
proof -
  assume a: "drop_bit 12 va = drop_bit 12 va'"
  have "drop_bit 22 w = drop_bit 10 (drop_bit 12 w)" for w :: u32 by (simp add: drop_bit_drop_bit)
  with a show ?thesis by (simp only: PDX_def PTX_def)
qed

lemma PDX_ROUNDDOWN [simp]: "PDX (ROUNDDOWN va PGSIZE) = PDX va" "PTX (ROUNDDOWN va PGSIZE) = PTX va"
  using PDX_page [OF ROUNDDOWN_page] by simp_all

text \<open>The entry a page on disk leaves in the page table.\<close>

definition disk_pte :: "nat \<Rightarrow> u32 \<Rightarrow> u32" where
  "disk_pte b w = (push_bit 12 (of_nat b) OR PTE_ON_DISK OR (w AND 0xEFF)) AND NOT PTE_P"

lemma disk_pte_block:
  assumes "b < 2 ^ 20"
  shows "unat (PTE_TO_BLOCKNO (disk_pte b w)) = b"
proof -
  have lo: "\<not> bit (0x400 :: u32) (n + 12)" "\<not> bit (0xEFF :: u32) (n + 12)" for n
    using small_bit [of "0x400" 12 "n + 12"] small_bit [of "0xEFF" 12 "n + 12"] by auto
  have hi: "n < 20" if "bit b n" for n
    using assms that by (metis bit_take_bit_iff take_bit_nat_eq_self)
  have one: "\<not> bit (1 :: u32) (n + 12)" for n by (simp add: bit_1_iff)
  have "bit (PTE_TO_BLOCKNO (disk_pte b w)) n = bit (of_nat b :: u32) n" if "n < 32" for n
    unfolding PTE_TO_BLOCKNO_def disk_pte_def PTE_ON_DISK_def PTE_P_def bit_and_iff bit_drop_bit_eq
      bit_or_iff bit_not_iff small_numeral_bit
    using that lo [of n] one [of n] hi [of n] by (auto simp: bit_simps add.commute)
  then have "PTE_TO_BLOCKNO (disk_pte b w) = of_nat b" by (intro bit_word_eqI) simp
  then show ?thesis using assms by (simp add: unsigned_of_nat take_bit_nat_eq_self)
qed

section \<open>The swap disk as an allocator\<close>

definition block_free :: "u32 list \<Rightarrow> nat \<Rightarrow> bool" where
  "block_free bm b \<longleftrightarrow> bit (bm ! (b div 32)) (b mod 32)"

lemma block_bit_test: "w AND block_bit i \<noteq> 0 \<longleftrightarrow> bit (w :: u32) (i mod 32)"
  unfolding block_bit_def by (simp add: bit_iff_and_push_bit_not_eq_0)

lemma block_bit_bit: "bit (block_bit i) n \<longleftrightarrow> n = i mod 32"
  by (auto simp: block_bit_def bit_simps)

lemma block_free_clear:
  "b div 32 < length bm \<Longrightarrow> block_free (bm[b div 32 := bm ! (b div 32) AND NOT (block_bit b)]) c
     \<longleftrightarrow> block_free bm c \<and> c \<noteq> b"
proof -
  assume l: "b div 32 < length bm"
  have "c = b \<longleftrightarrow> c div 32 = b div 32 \<and> c mod 32 = b mod 32" by (metis mod_div_decomp)
  moreover have "bit (w AND NOT (block_bit b)) (c mod 32) \<longleftrightarrow> bit w (c mod 32) \<and> c mod 32 \<noteq> b mod 32" for w :: u32
    by (auto simp: bit_and_iff bit_not_iff block_bit_bit)
  ultimately show ?thesis using l by (cases "c div 32 = b div 32") (auto simp: block_free_def)
qed

lemma block_free_set:
  "b div 32 < length bm \<Longrightarrow> block_free (bm[b div 32 := bm ! (b div 32) OR block_bit b]) c
     \<longleftrightarrow> block_free bm c \<or> c = b"
proof -
  assume l: "b div 32 < length bm"
  have "c = b \<longleftrightarrow> c div 32 = b div 32 \<and> c mod 32 = b mod 32" by (metis mod_div_decomp)
  moreover have "bit (w OR block_bit b) (c mod 32) \<longleftrightarrow> bit w (c mod 32) \<or> c mod 32 = b mod 32" for w :: u32
    by (auto simp: bit_or_iff block_bit_bit)
  ultimately show ?thesis using l by (cases "c div 32 = b div 32") (auto simp: block_free_def)
qed

lemma alloc_scan_spec:
  "i + k \<le> 32 * length bm \<Longrightarrow>
   (alloc_scan k i bm = Inr (None, bm) \<and> (\<forall>b. i \<le> b \<and> b < i + k \<longrightarrow> \<not> block_free bm b)) \<or>
   (\<exists>b. i \<le> b \<and> b < i + k \<and> block_free bm b \<and> (\<forall>c. i \<le> c \<and> c < b \<longrightarrow> \<not> block_free bm c) \<and>
      alloc_scan k i bm = Inr (Some b, bm[b div 32 := bm ! (b div 32) AND NOT (block_bit b)]))"
proof (induction k arbitrary: i)
  case 0
  then show ?case by auto
next
  case (Suc k)
  have l: "i div 32 < length bm" using Suc.prems by (simp add: less_mult_imp_div_less mult.commute)
  show ?case
  proof (cases "block_free bm i")
    case True
    then show ?thesis using l by (intro disjI2 exI [of _ i]) (auto simp: block_free_def block_bit_test)
  next
    case False
    then have e: "alloc_scan (Suc k) i bm = alloc_scan k (Suc i) bm"
      using l block_bit_test [of "bm ! (i div 32)" i] by (simp add: block_free_def)
    have nf: "\<not> block_free bm b" if "i \<le> b" "b < Suc i" for b
      using that False by (metis le_antisym less_Suc_eq_le)
    have "Suc i + k \<le> 32 * length bm" using Suc.prems by simp
    from Suc.IH [OF this] show ?thesis
    proof (elim disjE exE conjE)
      assume n: "alloc_scan k (Suc i) bm = Inr (None, bm)"
        "\<forall>b. Suc i \<le> b \<and> b < Suc i + k \<longrightarrow> \<not> block_free bm b"
      have "\<not> block_free bm b" if "i \<le> b" "b < i + Suc k" for b
        using n(2) nf [of b] that by (cases "b < Suc i") auto
      then show ?thesis using e n(1) by simp
    next
      fix b assume b: "Suc i \<le> b" "b < Suc i + k" "block_free bm b"
        "\<forall>c. Suc i \<le> c \<and> c < b \<longrightarrow> \<not> block_free bm c"
        "alloc_scan k (Suc i) bm = Inr (Some b, bm[b div 32 := bm ! (b div 32) AND NOT (block_bit b)])"
      have "\<not> block_free bm c" if "i \<le> c" "c < b" for c
        using b(4) nf [of c] that by (cases "c < Suc i") auto
      then show ?thesis using b e by (intro disjI2 exI [of _ b]) simp
    qed
  qed
qed

definition swap_ok :: "jos \<Rightarrow> bool" where
  "swap_ok s \<longleftrightarrow> length (free_block_bitmap s) = NBLOCKS div 32 + 1"

definition free_blocks :: "jos \<Rightarrow> nat set" where
  "free_blocks s = {b. b < NBLOCKS \<and> block_free (free_block_bitmap s) b}"

definition swap_alloc :: "jos \<Rightarrow> (nat \<times> jos) option" where
  "swap_alloc s = (case alloc_blockno s of Inr (Some b, s') \<Rightarrow> Some (b, s') | _ \<Rightarrow> None)"

definition swap_free :: "nat \<Rightarrow> jos \<Rightarrow> jos" where
  "swap_free b s = (case free_blockno b s of Inr s' \<Rightarrow> s' | Inl e \<Rightarrow> s)"

lemma alloc_blockno_cases:
  assumes "swap_ok s"
  obtains "alloc_blockno s = Inr (None, s)" "free_blocks s = {}"
  | b where "b \<in> free_blocks s" "\<forall>c \<in> free_blocks s. b \<le> c"
      "alloc_blockno s = Inr (Some b, s\<lparr>free_block_bitmap :=
         (free_block_bitmap s)[b div 32 := free_block_bitmap s ! (b div 32) AND NOT (block_bit b)]\<rparr>)"
proof -
  let ?bm = "free_block_bitmap s"
  have l: "0 + NBLOCKS \<le> 32 * length ?bm" using assms by (simp add: swap_ok_def NBLOCKS_def)
  from alloc_scan_spec [OF l] show ?thesis
  proof (elim disjE exE conjE)
    assume "alloc_scan NBLOCKS 0 ?bm = Inr (None, ?bm)" "\<forall>b. 0 \<le> b \<and> b < 0 + NBLOCKS \<longrightarrow> \<not> block_free ?bm b"
    then show ?thesis using that(1) by (simp add: alloc_blockno_def free_blocks_def)
  next
    fix b assume b: "0 \<le> b" "b < 0 + NBLOCKS" "block_free ?bm b" "\<forall>c. 0 \<le> c \<and> c < b \<longrightarrow> \<not> block_free ?bm c"
      "alloc_scan NBLOCKS 0 ?bm = Inr (Some b, ?bm[b div 32 := ?bm ! (b div 32) AND NOT (block_bit b)])"
    have "b \<le> c" if "c \<in> free_blocks s" for c
      using b(4) that by (auto simp: free_blocks_def intro: leI)
    moreover have "b \<in> free_blocks s" using b by (simp add: free_blocks_def)
    ultimately show ?thesis using that(2) [of b] b(5) by (simp add: alloc_blockno_def)
  qed
qed

lemma swap_word: "swap_ok s \<Longrightarrow> b < NBLOCKS \<Longrightarrow> b div 32 < length (free_block_bitmap s)"
  by (simp add: swap_ok_def NBLOCKS_def less_mult_imp_div_less)

interpretation swap: block_allocator swap_alloc swap_free free_blocks swap_ok
  "\<lambda>b s. b < NBLOCKS"
proof
  fix s b s'
  show "swap_ok s \<Longrightarrow> (swap_alloc s = None) = (free_blocks s = {})"
    by (rule alloc_blockno_cases [of s]) (auto simp: swap_alloc_def)
  show "swap_ok s' \<and> b \<in> free_blocks s \<and> free_blocks s' = free_blocks s - {b}"
    if ok: "swap_ok s" and a: "swap_alloc s = Some (b, s')"
  proof (rule alloc_blockno_cases [OF ok])
    assume "alloc_blockno s = Inr (None, s)"
    with a show ?thesis by (simp add: swap_alloc_def)
  next
    fix d assume d: "d \<in> free_blocks s" and e: "alloc_blockno s = Inr (Some d, s\<lparr>free_block_bitmap :=
         (free_block_bitmap s)[d div 32 := free_block_bitmap s ! (d div 32) AND NOT (block_bit d)]\<rparr>)"
    have "b = d" and s': "s' = s\<lparr>free_block_bitmap :=
         (free_block_bitmap s)[d div 32 := free_block_bitmap s ! (d div 32) AND NOT (block_bit d)]\<rparr>"
      using a unfolding swap_alloc_def e by (auto dest: sym)
    have w: "d div 32 < length (free_block_bitmap s)"
      using swap_word [OF ok] d by (simp add: free_blocks_def)
    have "free_blocks s' = free_blocks s - {d}"
      using block_free_clear [OF w] by (auto simp: free_blocks_def s')
    moreover have "swap_ok s'" using ok by (simp add: s' swap_ok_def)
    ultimately show ?thesis using d \<open>b = d\<close> by simp
  qed
  show "swap_ok (swap_free b s) \<and> free_blocks (swap_free b s) = insert b (free_blocks s)"
    if ok: "swap_ok s" and b: "b < NBLOCKS"
  proof -
    note w = swap_word [OF ok b]
    then have "swap_free b s = s\<lparr>free_block_bitmap :=
        (free_block_bitmap s)[b div 32 := free_block_bitmap s ! (b div 32) OR block_bit b]\<rparr>"
      by (simp add: swap_free_def free_blockno_def)
    then show ?thesis using ok b block_free_set [OF w] by (auto simp: swap_ok_def free_blocks_def)
  qed
qed

lemma swap_blocks:
  assumes "swap_ok s" and "swap.alloc_many n s = (bs, s')"
  shows "distinct bs" and "set bs \<subseteq> free_blocks s" and "free_blocks s' = free_blocks s - set bs"
    and "alloc_blockno s = Inr (Some b, t) \<Longrightarrow>
      (\<forall>c \<in> free_blocks s. b \<le> c) \<and> free_blocks (swap_free b t) = free_blocks s"
proof -
  show "distinct bs" "set bs \<subseteq> free_blocks s" "free_blocks s' = free_blocks s - set bs"
    using swap.alloc_many_ok [OF assms] by simp_all
  show "(\<forall>c \<in> free_blocks s. b \<le> c) \<and> free_blocks (swap_free b t) = free_blocks s"
    if a: "alloc_blockno s = Inr (Some b, t)"
  proof
    show "\<forall>c \<in> free_blocks s. b \<le> c"
      by (rule alloc_blockno_cases [OF assms(1)]) (use a in auto)
    have e: "swap_alloc s = Some (b, t)" using a by (simp add: swap_alloc_def)
    have "b \<in> free_blocks s" using swap.alloc_some [OF assms(1) e] by simp
    then show "free_blocks (swap_free b t) = free_blocks s"
      using swap.alloc_free_avail [OF assms(1) e] by (simp add: free_blocks_def)
  qed
qed

text \<open>
  The bitmap of the swap disk is an allocator: \<open>n\<close> calls of \<open>alloc_blockno\<close> give different
  blocks, all of them free before and none after, the first one the lowest free block of the disk;
  and giving the last block back restores the set of free blocks.
\<close>

theorem swap_blocks_are_distinct:
  assumes "swap_ok s" and "swap.alloc_many n s = (bs, s')"
  shows "distinct bs \<and> set bs \<subseteq> free_blocks s \<and> free_blocks s' = free_blocks s - set bs \<and>
    (\<forall>b t. alloc_blockno s = Inr (Some b, t) \<longrightarrow>
      (\<forall>c \<in> free_blocks s. b \<le> c) \<and> free_blocks (swap_free b t) = free_blocks s)"
  using swap_blocks [OF assms] by blast

text \<open>A small machine: four frames, one environment, two page tables in frames 1 and 2.\<close>

definition ex_jos :: jos where
  "ex_jos = \<lparr>npages = 8, pages = replicate 8 \<lparr>pp_link = None, pp_ref = 1\<rparr>, page_free_list = None,
     mem = (\<lambda>f i. if f = 1 \<and> i = 0 then 0x2007 else if f = 2 \<and> i = 5 then 0x3007 else 0),
     kern_pgdir = 0, pool = replicate 8 \<lparr>rva = 0, renvid = 0, rnext = None\<rparr>, in_use_frames = None,
     paging_utils_initialized = False, free_block_bitmap = replicate (NBLOCKS div 32 + 1) (- 1),
     disk = (\<lambda>b i. 0), bad_block = (\<lambda>b. False),
     envs = [zero_env\<lparr>env_id := 0x1000, env_status := ENV_RUNNING, env_runs := 1, env_pgdir := Some 1\<rparr>],
     env_free_list = None, curenv = Some 0, mmio_base = MMIOBASE, cons_buf = replicate 512 0,
     cons_rpos = 0, cons_wpos = 0, serial_in = [], kbd_in = [], cons_out = []\<rparr>"

lemma swap_ok_ex: "swap_ok ex_jos"
  by (simp add: swap_ok_def ex_jos_def NBLOCKS_def)

theorem swap_blocks_are_distinct_witness:
  "distinct (fst (swap.alloc_many 3 ex_jos)) \<and> set (fst (swap.alloc_many 3 ex_jos)) \<subseteq> free_blocks ex_jos"
  using swap_blocks_are_distinct [OF swap_ok_ex prod.collapse [symmetric]] by blast

section \<open>The queue of frames in use\<close>

definition links :: "rlt_entry list \<Rightarrow> nat \<Rightarrow> nat option" where
  "links rs i = rnext (rs ! i)"

definition queue_is :: "jos \<Rightarrow> nat list \<Rightarrow> bool" where
  "queue_is s xs \<longleftrightarrow> chain (links (pool s)) (in_use_frames s) xs \<and> set xs \<subseteq> {..<length (pool s)}"

lemma links_update:
  "i < length rs \<Longrightarrow> links (rs[i := r]) = (links rs)(i := rnext r)"
  by (auto simp: links_def fun_eq_iff nth_list_update)

lemma find_tail_chain: "chain (links rs) (Some i) (i # xs) \<Longrightarrow> find_tail rs i = Some (last (i # xs))"
proof (induction xs arbitrary: i)
  case Nil
  then show ?case by (subst find_tail.simps) (simp add: links_def)
next
  case (Cons x xs)
  then have l: "links rs i = Some x" "chain (links rs) (Some x) (x # xs)" by simp_all
  then have "rnext (rs ! i) = Some x" by (simp add: links_def)
  moreover from l(2) have "find_tail rs x = Some (last (x # xs))" by (rule Cons.IH)
  ultimately show ?case by (subst find_tail.simps) simp
qed

text \<open>What \<open>find_tail\<close> returns, when it returns, is an entry without successor it has reached.\<close>

inductive reach :: "(nat \<Rightarrow> nat option) \<Rightarrow> nat \<Rightarrow> nat \<Rightarrow> bool" for nxt where
  here: "reach nxt i i"
| further: "nxt i = Some j \<Longrightarrow> reach nxt j k \<Longrightarrow> reach nxt i k"

lemma find_tail_reach: "find_tail rs i = Some t \<Longrightarrow> reach (links rs) i t \<and> links rs t = None"
proof (rule find_tail.raw_induct [where P = "\<lambda>rs i t. reach (links rs) i t \<and> links rs t = None"])
  fix f and rs :: "rlt_entry list" and i t
  assume IH: "\<And>rs i t. f rs i = Some t \<Longrightarrow> reach (links rs) i t \<and> links rs t = None"
    and body: "(case rnext (rs ! i) of None \<Rightarrow> Some i | Some j \<Rightarrow> f rs j) = Some t"
  show "reach (links rs) i t \<and> links rs t = None"
  proof (cases "rnext (rs ! i)")
    case None
    with body show ?thesis by (auto simp: links_def intro: reach.here)
  next
    case (Some j)
    with body have "f rs j = Some t" by simp
    then have "reach (links rs) j t \<and> links rs t = None" by (rule IH)
    with Some show ?thesis by (auto simp: links_def intro: reach.further)
  qed
qed

lemma find_tail_cycle:
  assumes "reach (links rs) i j" and "links rs j = Some j"
  shows "find_tail rs i = None"
proof (rule ccontr)
  assume "find_tail rs i \<noteq> None"
  then obtain t where "find_tail rs i = Some t" by auto
  then have t: "reach (links rs) i t" "links rs t = None" using find_tail_reach by auto
  have "t = j \<or> reach (links rs) t j" using t(1) assms
  proof (induction)
    case (here i)
    then show ?case by simp
  next
    case (further i k t)
    from further.prems(1) further.hyps(1) have "reach (links rs) k j"
      by (cases rule: reach.cases) (use further.prems in \<open>auto intro: reach.here\<close>)
    with further show ?case by simp
  qed
  then have "links rs t \<noteq> None" using assms(2) t(2) by (auto elim: reach.cases)
  with t(2) show False by simp
qed


lemma rlt_entry_eta: "r\<lparr>rva := a, renvid := b, rnext := l\<rparr> = \<lparr>rva = a, renvid = b, rnext = l\<rparr>"
  by (cases r) simp

lemma on_page_alloc_eval:
  assumes "PGNUM pa < length (pool s)"
  shows "on_page_alloc_success va e pa s =
    (case in_use_frames s of
       None \<Rightarrow> Inr (s\<lparr>pool := (pool s)[PGNUM pa := \<lparr>rva = va, renvid = e, rnext = None\<rparr>],
                     in_use_frames := Some (PGNUM pa)\<rparr>)
     | Some h \<Rightarrow> (case find_tail ((pool s)[PGNUM pa := \<lparr>rva = va, renvid = e, rnext = None\<rparr>]) h of
         None \<Rightarrow> Inl Diverges
       | Some t \<Rightarrow> set_entry t (\<lambda>r. r\<lparr>rnext := Some (PGNUM pa)\<rparr>)
           (s\<lparr>pool := (pool s)[PGNUM pa := \<lparr>rva = va, renvid = e, rnext = None\<rparr>]\<rparr>)))"
  using assms
  by (simp add: on_page_alloc_success_def set_entry_def Let_def rlt_entry_eta cong: option.case_cong)

text \<open>A frame that is not in the queue goes to its end.\<close>

lemma on_page_alloc_success_ok:
  assumes q: "queue_is s xs" and n: "PGNUM pa < length (pool s)" "PGNUM pa \<notin> set xs"
  shows "\<exists>s'. on_page_alloc_success va e pa s = Inr s' \<and> queue_is s' (xs @ [PGNUM pa])"
proof -
  let ?n = "PGNUM pa"
  let ?r = "\<lparr>rva = va, renvid = e, rnext = None\<rparr>"
  let ?p = "(pool s)[?n := ?r]"
  have c: "chain (links (pool s)) (in_use_frames s) xs" "set xs \<subseteq> {..<length (pool s)}"
    using q by (simp_all add: queue_is_def)
  have c': "chain (links ?p) (in_use_frames s) xs"
    using c(1) n by (simp add: links_update chain_upd)
  show ?thesis
  proof (cases xs)
    case Nil
    then have "on_page_alloc_success va e pa s = Inr (s\<lparr>pool := ?p, in_use_frames := Some ?n\<rparr>)"
      using c n by (simp add: on_page_alloc_eval)
    moreover have "queue_is (s\<lparr>pool := ?p, in_use_frames := Some ?n\<rparr>) (xs @ [?n])"
      using Nil n by (simp add: queue_is_def links_update)
    ultimately show ?thesis by blast
  next
    case (Cons h ys)
    then have h: "in_use_frames s = Some h" using c(1) by simp
    have t: "find_tail ?p h = Some (last xs)"
      using find_tail_chain [of ?p h ys] c' Cons by simp
    have "last xs \<in> set xs" using Cons by simp
    then have l: "last xs < length (pool s)" "last xs \<noteq> ?n" using c(2) n by auto
    let ?p' = "?p[last xs := (?p ! last xs)\<lparr>rnext := Some ?n\<rparr>]"
    have "on_page_alloc_success va e pa s = Inr (s\<lparr>pool := ?p'\<rparr>)"
      using n h t l by (simp add: on_page_alloc_eval set_entry_def)
    moreover have "queue_is (s\<lparr>pool := ?p'\<rparr>) (xs @ [?n])"
    proof -
      have "links ?p' = (links (pool s))(last xs := Some ?n, ?n := None)"
        using l n by (simp add: links_update fun_upd_twist)
      moreover have "chain ((links (pool s))(last xs := Some ?n, ?n := None)) (in_use_frames s) (xs @ [?n])"
        by (rule chain_append) (use c n Cons in simp_all)
      ultimately show ?thesis using c(2) n by (simp add: queue_is_def)
    qed
    ultimately show ?thesis by blast
  qed
qed


lemma queue_ex: "queue_is (ex_jos\<lparr>in_use_frames := Some 3\<rparr>) [3]"
  by (simp add: queue_is_def links_def ex_jos_def)


section \<open>Cleaning up after a dead environment\<close>

definition owned :: "rlt_entry list \<Rightarrow> u32 \<Rightarrow> nat \<Rightarrow> bool" where
  "owned rs e i \<longleftrightarrow> renvid (rs ! i) = e"

lemma owned_update: "j \<noteq> i \<Longrightarrow> owned (rs[i := r]) e j = owned rs e j"
  by (simp add: owned_def)

definition opt_hd :: "nat list \<Rightarrow> nat option" where
  "opt_hd xs = (if xs = [] then None else Some (hd xs))"

lemma opt_hd_simps [simp]: "opt_hd [] = None" "opt_hd (x # xs) = Some x"
  by (simp_all add: opt_hd_def)

lemma cleanup_head_ok:
  "chain (links rs) p xs \<Longrightarrow> set xs \<subseteq> {..<length rs} \<Longrightarrow>
   \<exists>rs'. cleanup_head e p rs = Some (opt_hd (dropWhile (owned rs e) xs), rs') \<and> length rs' = length rs \<and>
     (\<forall>i. i \<in> set (takeWhile (owned rs e) xs) \<longrightarrow> rs' ! i = clear_entry (rs ! i)) \<and>
     (\<forall>i. i \<notin> set (takeWhile (owned rs e) xs) \<longrightarrow> rs' ! i = rs ! i)"
proof (induction xs arbitrary: p rs)
  case Nil
  then show ?case by (subst cleanup_head.simps) simp
next
  case (Cons x xs)
  then have p: "p = Some x" "chain (links rs) (links rs x) xs" "x < length rs" by simp_all
  have d: "x \<notin> set xs" using chain_distinct [OF Cons.prems(1)] by simp
  show ?case
  proof (cases "owned rs e x")
    case False
    then show ?thesis using p by (subst cleanup_head.simps) (simp add: owned_def)
  next
    case True
    let ?rs = "rs[x := clear_entry (rs ! x)]"
    have c: "chain (links ?rs) (links rs x) xs"
      using p d by (simp add: links_update chain_upd)
    have o: "owned ?rs e i = owned rs e i" if "i \<in> set xs" for i
      using d that by (intro owned_update) auto
    have tw: "takeWhile (owned ?rs e) xs = takeWhile (owned rs e) xs"
      "dropWhile (owned ?rs e) xs = dropWhile (owned rs e) xs"
      using o by (simp_all cong: takeWhile_cong dropWhile_cong)
    have r: "set xs \<subseteq> {..<length ?rs}" using Cons.prems(2) by simp
    from Cons.IH [OF c r] obtain rs' where
      rs': "cleanup_head e (links rs x) ?rs = Some (opt_hd (dropWhile (owned rs e) xs), rs')"
      "length rs' = length rs"
      "\<forall>i. i \<in> set (takeWhile (owned rs e) xs) \<longrightarrow> rs' ! i = clear_entry (?rs ! i)"
      "\<forall>i. i \<notin> set (takeWhile (owned rs e) xs) \<longrightarrow> rs' ! i = ?rs ! i"
      unfolding tw by (elim exE conjE) simp
    have "cleanup_head e p rs = cleanup_head e (links rs x) ?rs"
      using True p by (subst cleanup_head.simps) (simp add: owned_def links_def)
    moreover have "x \<notin> set (takeWhile (owned rs e) xs)" using d by (auto dest: set_takeWhileD)
    then have "rs' ! x = clear_entry (rs ! x)" using rs'(4) p by simp
    moreover have "rs' ! i = clear_entry (rs ! i)" if "i \<in> set (takeWhile (owned rs e) xs)" for i
    proof -
      have "i \<noteq> x" using that d by (auto dest: set_takeWhileD)
      then show ?thesis using rs'(3) that by simp
    qed
    moreover have "rs' ! i = rs ! i" if "i \<notin> set (takeWhile (owned rs e) xs)" "i \<noteq> x" for i
      using rs'(4) that by simp
    ultimately show ?thesis using rs'(1,2) True by auto
  qed
qed

lemma cleanup_rest_ok:
  "chain (links rs) (Some p) (p # xs) \<Longrightarrow> set (p # xs) \<subseteq> {..<length rs} \<Longrightarrow>
   \<exists>rs'. cleanup_rest e p (links rs p) rs = Some rs' \<and> length rs' = length rs \<and>
     chain (links rs') (Some p) (p # filter (\<lambda>i. \<not> owned rs e i) xs) \<and>
     (\<forall>i. i \<in> set xs \<and> owned rs e i \<longrightarrow> rs' ! i = clear_entry (rs ! i)) \<and>
     (\<forall>i. i \<notin> set (p # xs) \<longrightarrow> rs' ! i = rs ! i) \<and>
     (\<forall>i. i = p \<or> \<not> owned rs e i \<longrightarrow> rva (rs' ! i) = rva (rs ! i) \<and> renvid (rs' ! i) = renvid (rs ! i))"
proof (induction xs arbitrary: p rs)
  case Nil
  then show ?case by (subst cleanup_rest.simps) (simp add: links_def)
next
  case (Cons x xs)
  then have l: "links rs p = Some x" "chain (links rs) (links rs x) xs" "p < length rs" "x < length rs"
    "set xs \<subseteq> {..<length rs}" by simp_all
  have d: "p \<noteq> x" "p \<notin> set xs" "x \<notin> set xs" using chain_distinct [OF Cons.prems(1)] by auto
  show ?case
  proof (cases "owned rs e x")
    case False
    have c: "chain (links rs) (Some x) (x # xs)" "set (x # xs) \<subseteq> {..<length rs}" using l by simp_all
    from Cons.IH [OF c] obtain rs' where
      rs': "cleanup_rest e x (links rs x) rs = Some rs'" "length rs' = length rs"
      "chain (links rs') (Some x) (x # filter (\<lambda>i. \<not> owned rs e i) xs)"
      "\<forall>i. i \<in> set xs \<and> owned rs e i \<longrightarrow> rs' ! i = clear_entry (rs ! i)"
      "\<forall>i. i \<notin> set (x # xs) \<longrightarrow> rs' ! i = rs ! i"
      "\<forall>i. i = x \<or> \<not> owned rs e i \<longrightarrow> rva (rs' ! i) = rva (rs ! i) \<and> renvid (rs' ! i) = renvid (rs ! i)"
      by (elim exE conjE) (rule that)
    have "cleanup_rest e p (links rs p) rs = Some rs'"
      using False l(1) rs'(1) by (subst cleanup_rest.simps) (simp add: owned_def links_def)
    moreover have pp: "rs' ! p = rs ! p" using rs'(5) d by simp
    then have "links rs' p = Some x" using l(1) by (simp add: links_def)
    moreover have "i = p \<or> \<not> owned rs e i \<longrightarrow> rva (rs' ! i) = rva (rs ! i) \<and> renvid (rs' ! i) = renvid (rs ! i)" for i
      using rs'(6) pp by auto
    ultimately show ?thesis using rs'(2-5) False by (intro exI [of _ rs'] conjI) auto
  next
    case True
    let ?r1 = "rs[p := (rs ! p)\<lparr>rnext := rnext (rs ! x)\<rparr>]"
    let ?rs = "?r1[x := clear_entry (?r1 ! x)]"
    have k: "links ?rs = (links rs)(p := links rs x, x := None)"
      using l d by (simp add: links_update clear_entry_def) (simp add: links_def)
    have c: "chain (links ?rs) (Some p) (p # xs)"
      unfolding k using l d by (simp add: chain_upd)
    have r: "set (p # xs) \<subseteq> {..<length ?rs}" using l by simp
    have o: "owned ?rs e i = owned rs e i" if "i \<noteq> x" for i
      using l that by (cases "i = p") (simp_all add: owned_def)
    have f: "filter (\<lambda>i. \<not> owned ?rs e i) xs = filter (\<lambda>i. \<not> owned rs e i) xs"
    proof (rule filter_cong [OF refl])
      fix i assume "i \<in> set xs"
      then have "i \<noteq> x" using d by auto
      then show "(\<not> owned ?rs e i) = (\<not> owned rs e i)" using o by simp
    qed
    from Cons.IH [OF c r] obtain rs' where
      rs': "cleanup_rest e p (links ?rs p) ?rs = Some rs'" "length rs' = length rs"
      "chain (links rs') (Some p) (p # filter (\<lambda>i. \<not> owned rs e i) xs)"
      "\<forall>i. i \<in> set xs \<and> owned ?rs e i \<longrightarrow> rs' ! i = clear_entry (?rs ! i)"
      "\<forall>i. i \<notin> set (p # xs) \<longrightarrow> rs' ! i = ?rs ! i"
      "\<forall>i. i = p \<or> \<not> owned ?rs e i \<longrightarrow> rva (rs' ! i) = rva (?rs ! i) \<and> renvid (rs' ! i) = renvid (?rs ! i)"
      unfolding f by (elim exE conjE) simp
    have "cleanup_rest e p (links rs p) rs = Some rs'"
      using True l rs'(1) d by (subst cleanup_rest.simps) (simp add: owned_def links_def Let_def)
    moreover have "rs' ! i = clear_entry (rs ! i)" if "i \<in> set (x # xs)" "owned rs e i" for i
    proof (cases "i = x")
      case True
      then have "rs' ! i = ?rs ! x" using rs'(5) d by auto
      then show ?thesis using True l d by simp
    next
      case False
      then have "i \<in> set xs" "i \<noteq> p" using that d by auto
      then show ?thesis using rs'(4) o [OF False] that False by simp
    qed
    moreover have "rs' ! i = rs ! i" if "i \<notin> set (p # x # xs)" for i using rs'(5) that by simp
    moreover have "rva (rs' ! i) = rva (rs ! i) \<and> renvid (rs' ! i) = renvid (rs ! i)"
      if "i = p \<or> \<not> owned rs e i" for i
    proof -
      have ix: "i \<noteq> x" using that True d by auto
      then have "i = p \<or> \<not> owned ?rs e i" using that o by auto
      with rs'(6) have "rva (rs' ! i) = rva (?rs ! i) \<and> renvid (rs' ! i) = renvid (?rs ! i)" by blast
      then show ?thesis using ix l by (cases "i = p") simp_all
    qed
    ultimately show ?thesis using rs'(2,3) True by (intro exI [of _ rs'] conjI) auto
  qed
qed

text \<open>
  \<open>env_destroy_cleanup\<close> takes the frames of the dead environment out of the queue and keeps
  the others, their order and what they record, unless every frame in the queue belongs to the
  environment: then the queue still starts at the first of them, an entry of environment 0, which
  \<open>envid2env\<close> takes for the current environment when the frame is chosen for eviction.
\<close>

theorem env_destroy_cleanup_filters:
  assumes q: "queue_is s xs" and keep_def: "keep = filter (\<lambda>i. renvid (pool s ! i) \<noteq> e) xs"
  shows "\<exists>s'. env_destroy_cleanup e s = Inr s' \<and>
    (keep \<noteq> [] \<longrightarrow> queue_is s' keep \<and> (\<forall>i \<in> set keep. rva (pool s' ! i) = rva (pool s ! i) \<and>
        renvid (pool s' ! i) = renvid (pool s ! i))) \<and>
    (keep = [] \<and> xs \<noteq> [] \<longrightarrow> queue_is s' [hd xs] \<and> renvid (pool s' ! hd xs) = 0 \<and> rva (pool s' ! hd xs) = 0)"
proof -
  let ?rs = "pool s" let ?P = "owned ?rs e"
  have c: "chain (links ?rs) (in_use_frames s) xs" "set xs \<subseteq> {..<length ?rs}"
    using q by (simp_all add: queue_is_def)
  have keep: "keep = filter (\<lambda>i. \<not> ?P i) xs" by (simp add: keep_def owned_def)
  from cleanup_head_ok [OF c, of e] obtain rs1 where
    h: "cleanup_head e (in_use_frames s) ?rs = Some (opt_hd (dropWhile ?P xs), rs1)" "length rs1 = length ?rs"
    "\<forall>i. i \<in> set (takeWhile ?P xs) \<longrightarrow> rs1 ! i = clear_entry (?rs ! i)"
    "\<forall>i. i \<notin> set (takeWhile ?P xs) \<longrightarrow> rs1 ! i = ?rs ! i" by (elim exE conjE) (rule that)
  show ?thesis
  proof (cases "dropWhile ?P xs")
    case Nil
    then have all: "\<forall>i \<in> set xs. ?P i" by (simp add: dropWhile_eq_Nil_conv)
    then have k: "keep = []" by (simp add: keep)
    let ?s = "s\<lparr>pool := rs1\<rparr>"
    have e: "env_destroy_cleanup e s = Inr ?s" using h(1) Nil by (simp add: env_destroy_cleanup_def)
    have "queue_is ?s [hd xs] \<and> renvid (pool ?s ! hd xs) = 0 \<and> rva (pool ?s ! hd xs) = 0" if ne: "xs \<noteq> []"
    proof -
      have "takeWhile ?P xs = xs" using all by (simp add: takeWhile_eq_all_conv)
      then have "hd xs \<in> set (takeWhile ?P xs)" using ne by (simp del: takeWhile_eq_all_conv)
      then have x: "rs1 ! hd xs = clear_entry (?rs ! hd xs)" using h(3) by blast
      moreover have "in_use_frames s = Some (hd xs)" using c(1) ne by (cases xs) auto
      moreover have "hd xs < length rs1" using c(2) ne h(2) by (auto simp: subset_iff)
      ultimately show ?thesis by (simp add: queue_is_def links_def clear_entry_def)
    qed
    with e k show ?thesis by (intro exI [of _ ?s]) simp
  next
    case (Cons x ys)
    have xs: "xs = takeWhile ?P xs @ x # ys" using Cons by (metis takeWhile_dropWhile_id)
    have nx: "\<not> ?P x" using Cons by (metis hd_dropWhile list.sel(1) list.distinct(1))
    have d: "distinct (takeWhile ?P xs @ x # ys)" using chain_distinct [OF c(1)] xs by metis
    have fx: "rs1 ! i = ?rs ! i" if "i \<in> set (x # ys)" for i using h(4) d that by auto
    have "chain (links ?rs) (Some x) (x # ys)" using c(1) xs chain_suffix by metis
    moreover have "links rs1 i = links ?rs i" if "i \<in> set (x # ys)" for i
      using fx [OF that] by (simp add: links_def)
    ultimately have c1: "chain (links rs1) (Some x) (x # ys)"
      using chain_cong [of "x # ys" "links rs1" "links ?rs" "Some x"] by blast
    have r1: "set (x # ys) \<subseteq> {..<length rs1}" using c(2) h(2) by (subst (asm) xs) auto
    from cleanup_rest_ok [OF c1 r1, of e] obtain rs2 where
      r2: "cleanup_rest e x (links rs1 x) rs1 = Some rs2" "length rs2 = length rs1"
      "chain (links rs2) (Some x) (x # filter (\<lambda>i. \<not> owned rs1 e i) ys)"
      "\<forall>i. i = x \<or> \<not> owned rs1 e i \<longrightarrow> rva (rs2 ! i) = rva (rs1 ! i) \<and> renvid (rs2 ! i) = renvid (rs1 ! i)"
      by (elim exE conjE) (rule that)
    have "filter (\<lambda>i. \<not> owned rs1 e i) ys = filter (\<lambda>i. \<not> ?P i) ys"
      by (rule filter_cong) (use fx in \<open>auto simp: owned_def\<close>)
    moreover have tk: "\<forall>i \<in> set (takeWhile ?P xs). ?P i" by (auto dest: set_takeWhileD)
    have "keep = x # filter (\<lambda>i. \<not> ?P i) ys"
      unfolding keep by (subst xs) (use tk nx in \<open>simp add: filter_empty_conv\<close>)
    ultimately have k: "keep = x # filter (\<lambda>i. \<not> owned rs1 e i) ys" by simp
    let ?s = "s\<lparr>pool := rs2, in_use_frames := Some x\<rparr>"
    have e: "env_destroy_cleanup e s = Inr ?s"
      using h(1) Cons r2(1) by (simp add: env_destroy_cleanup_def links_def)
    have "queue_is ?s keep" using r2(2,3) r1 k by (auto simp: queue_is_def)
    moreover have "rva (rs2 ! i) = rva (?rs ! i) \<and> renvid (rs2 ! i) = renvid (?rs ! i)" if "i \<in> set keep" for i
    proof -
      have "i \<in> set (x # ys)" "i = x \<or> \<not> owned rs1 e i" using that k by auto
      then show ?thesis using r2(4) fx by metis
    qed
    ultimately show ?thesis using e k by (intro exI [of _ ?s]) simp
  qed
qed

theorem env_destroy_cleanup_filters_witness:
  "\<exists>s'. env_destroy_cleanup 0 (ex_jos\<lparr>in_use_frames := Some 3\<rparr>) = Inr s' \<and> queue_is s' [3]"
  using env_destroy_cleanup_filters [OF queue_ex refl, of 0] by (simp add: ex_jos_def) blast

end
