(* ===== verification/JosMapping.thy ===== *)
theory JosMapping
  imports JosProofs
begin

text \<open>
  What the page tables say: the check of user memory against them, and the insertion of a page.
\<close>

section \<open>The check of user memory\<close>

text \<open>The check of one address, as the comment above \<open>user_mem_check\<close> words it.\<close>

definition accessible :: "nat \<Rightarrow> u32 \<Rightarrow> jos \<Rightarrow> u32 \<Rightarrow> bool" where
  "accessible pgdir perm s a \<longleftrightarrow> a < ULIM \<and> (case pgdir_find pgdir a s of
     Inr (Some e) \<Rightarrow> read_pte e s AND PTE_P \<noteq> 0 \<and> read_pte e s AND perm = perm | _ \<Rightarrow> False)"

lemma pgdir_find_eq:
  "pgdir_find pgdir va s = (let pde = read_pte (pgdir, PDX va) s in
     if pde AND PTE_P = 0 then Inr None
     else if PGNUM pde < npages s then Inr (Some (PGNUM pde, PTX va)) else Inl Panic)"
  by (simp add: pgdir_find_def pgdir_walk_with_def KADDR_def guardE_def Let_def)

lemma pgdir_find_page: "drop_bit 12 a = drop_bit 12 b \<Longrightarrow> pgdir_find pgdir a s = pgdir_find pgdir b s"
  using PDX_page [of a b] by (simp add: pgdir_find_eq Let_def)

lemma accessible_page:
  assumes "drop_bit 12 a = drop_bit 12 b"
  shows "accessible pgdir perm s a = accessible pgdir perm s b"
proof -
  have "unat a div 4096 = unat b div 4096"
    using arg_cong [OF assms, of unat] by (simp add: unat_drop_bit_word)
  moreover have "w < ULIM \<longleftrightarrow> unat w div 4096 < 0xEF800" for w :: u32
    by (simp add: ULIM_def MMIOBASE_def word_less_nat_alt) linarith
  ultimately show ?thesis using pgdir_find_page [OF assms] by (simp add: accessible_def)
qed

lemma unat_u32: "unat (w :: u32) < 4294967296"
  using unsigned_less [of w, where 'a = nat] by simp

definition page_at :: "nat \<Rightarrow> u32" where
  "page_at q = of_nat (4096 * q)"

lemma page_at_Suc: "page_at q + PGSIZE = page_at (Suc q)"
  by (simp add: page_at_def PGSIZE_def algebra_simps)

lemma unat_page_at: "q < 2 ^ 20 \<Longrightarrow> unat (page_at q) = 4096 * q"
  by (simp add: page_at_def unsigned_of_nat take_bit_nat_eq_self del: of_nat_mult)

lemma page_of: "drop_bit 12 a = drop_bit 12 (page_at (unat a div 4096))"
proof -
  have "unat a < 2 ^ 32" using unat_u32 [of a] by simp
  then have "unat a div 4096 < 2 ^ 20" by simp
  then have "unat (drop_bit 12 a) = unat (drop_bit 12 (page_at (unat a div 4096)))"
    by (simp add: unat_drop_bit_word unat_page_at)
  then show ?thesis by (simp add: word_unat_eq_iff)
qed

lemma ROUNDDOWN_page_at: "ROUNDDOWN a PGSIZE = page_at (unat a div 4096)"
proof -
  have "unat a < 2 ^ 32" using unat_u32 [of a] by simp
  then have q: "unat a div 4096 < 2 ^ 20" by simp
  have m: "unat (a mod 4096) = unat a mod 4096" by (simp add: unat_mod)
  have "unat (a - a mod 4096) = unat a - unat a mod 4096"
    using m by (simp add: unat_sub word_le_nat_alt)
  also have "\<dots> = unat (page_at (unat a div 4096))"
    using unat_page_at [OF q] by (simp add: minus_mod_eq_mult_div)
  finally show ?thesis by (simp add: ROUNDDOWN_def PGSIZE_def word_unat_eq_iff)
qed

lemma user_mem_loop_exact:
  "user_mem_loop n pgdir va (page_at q) perm s = Inr r \<Longrightarrow>
   (case r of
      None \<Rightarrow> \<forall>p. q \<le> p \<and> p < q + n \<longrightarrow> accessible pgdir perm s (page_at p)
    | Some a \<Rightarrow> \<exists>k. q \<le> k \<and> k < q + n \<and> \<not> accessible pgdir perm s (page_at k) \<and>
        (\<forall>p. q \<le> p \<and> p < k \<longrightarrow> accessible pgdir perm s (page_at p)) \<and>
        a = (if page_at k < va then va else page_at k))"
proof (induction n arbitrary: q)
  case 0
  then show ?case by auto
next
  case (Suc n)
  obtain pte where pte: "pgdir_find pgdir (page_at q) s = Inr pte"
    using Suc.prems by (cases "pgdir_find pgdir (page_at q) s") simp_all
  show ?case
  proof (cases "accessible pgdir perm s (page_at q)")
    case False
    then have "r = Some (if page_at q < va then va else page_at q)"
      using Suc.prems pte by (auto simp: accessible_def not_less split: option.splits if_splits)
    with False show ?thesis by (auto intro!: exI [of _ q])
  next
    case True
    then have "user_mem_loop n pgdir va (page_at (Suc q)) perm s = Inr r"
      using Suc.prems pte leD by (auto simp: accessible_def page_at_Suc split: option.splits if_splits)
    from Suc.IH [OF this] show ?thesis
    proof (cases r)
      case None
      with \<open>case r of None \<Rightarrow> _ | Some a \<Rightarrow> _ a\<close> True show ?thesis
        by simp (metis Suc_leI le_neq_implies_less)
    next
      case (Some a)
      with \<open>case r of None \<Rightarrow> _ | Some a \<Rightarrow> _ a\<close> obtain k where
        "Suc q \<le> k" "k < Suc q + n" "\<not> accessible pgdir perm s (page_at k)"
        "\<forall>p. Suc q \<le> p \<and> p < k \<longrightarrow> accessible pgdir perm s (page_at p)"
        "a = (if page_at k < va then va else page_at k)" by auto
      with True Some show ?thesis
        by (auto intro!: exI [of _ k]) (metis Suc_leI le_neq_implies_less)+
    qed
  qed
qed


lemma end_sum: "unat (va + len + PGSIZE - 1) = (unat va + unat len + 4095) mod 2 ^ 32"
proof -
  have "va + len + PGSIZE - 1 = of_nat (unat va + unat len + 4095)" by (simp add: PGSIZE_def)
  then show ?thesis by (simp only: unat_of_nat) simp
qed


text \<open>
  When the rounded end wraps past 2^32 the loop makes no round, and \<open>user_mem_check\<close> accepts
  the range, whatever is mapped: a user program may pass the last page of the address space, or any
  range that ends in it, as a buffer.
\<close>

theorem user_mem_check_wraps:
  assumes "pgdir_of e s = Inr pgdir" and "2 ^ 32 \<le> unat va + unat len + 4095" and "unat len \<le> 2 ^ 32 - 4096"
  shows "user_mem_check e va len perm s = Inr None"
proof -
  have "unat (va + len + PGSIZE - 1) = unat va + unat len + 4095 - 2 ^ 32"
    using assms(2,3) unat_u32 [of va] by (simp add: end_sum le_mod_geq)
  also have "\<dots> \<le> unat va" using assms(2,3) by simp
  finally have "unat (va + len + PGSIZE - 1) div 4096 \<le> unat va div 4096" by (rule div_le_mono)
  moreover have "unat va div 4096 < 2 ^ 20" using unat_u32 [of va] by simp
  ultimately have "unat (ROUNDUP (va + len) PGSIZE) \<le> unat (ROUNDDOWN va PGSIZE)"
    by (simp only: ROUNDUP_def ROUNDDOWN_page_at) (subst (1 2) unat_page_at, simp_all)
  then show ?thesis using assms(1) by (simp add: user_mem_check_def)
qed


theorem user_mem_check_wraps_witness:
  "user_mem_check (Some 0) 0xF0000000 0x10000000 PTE_U ex_jos = Inr None"
proof (rule user_mem_check_wraps)
  show "pgdir_of (Some 0) ex_jos = Inr 1" by (simp add: pgdir_of_def ex_jos_def rd_def deref_def)
qed simp_all

section \<open>Inserting a page\<close>

lemma read_write_pte: "read_pte e (write_pte e' w s) = (if e = e' then w else read_pte e s)"
  by (cases e; cases e') (auto simp: read_pte_def write_pte_def)

lemma write_pte_fields [simp]:
  "npages (write_pte e w s) = npages s" "pages (write_pte e w s) = pages s"
  "page_free_list (write_pte e w s) = page_free_list s" "pool (write_pte e w s) = pool s"
  "curenv (write_pte e w s) = curenv s" "envs (write_pte e w s) = envs s" "disk (write_pte e w s) = disk s"
  "bad_block (write_pte e w s) = bad_block s" "in_use_frames (write_pte e w s) = in_use_frames s"
  "paging_utils_initialized (write_pte e w s) = paging_utils_initialized s"
  by (simp_all add: write_pte_def)

lemma read_pte_cong: "mem s = mem t \<Longrightarrow> read_pte e s = read_pte e t"
  by (simp add: read_pte_def)

lemma pgdir_walk_find:
  assumes "pgdir_find pgdir va s = Inr (Some pte)"
  shows "pgdir_walk pgdir va create s = Inr (Some pte, s)"
  using assms by (auto simp: pgdir_find_eq pgdir_walk_def pgdir_walk_with_def KADDR_def guardE_def Let_def split: if_splits)

lemma page_lookup_eq:
  assumes "pgdir_find pgdir va s = Inr (Some pte)" "read_pte pte s AND PTE_ON_DISK = 0"
  shows "page_lookup pgdir va s =
    (if read_pte pte s AND PTE_P = 0 then Inr (None, s)
     else if PGNUM (read_pte pte s) < npages s then Inr (Some (PGNUM (read_pte pte s), pte), s) else Inl Panic)"
  using pgdir_walk_find [OF assms(1)] assms(2) by (simp add: page_lookup_def pa2page_def guardE_def)

lemma set_page_eval: "i < length (pages s) \<Longrightarrow> set_page i f s = Inr (s\<lparr>pages := (pages s)[i := f (pages s ! i)]\<rparr>)"
  by (simp add: set_page_def)

lemma page_decref_eval:
  assumes "i < length (pages s)" "pp_ref (pages s ! i) = 1 \<Longrightarrow> pp_link (pages s ! i) = None"
  shows "page_decref i s =
    (if pp_ref (pages s ! i) = 1
     then Inr (s\<lparr>pages := (pages s)[i := (pages s ! i)\<lparr>pp_ref := 0, pp_link := page_free_list s\<rparr>],
                 page_free_list := Some i\<rparr>)
     else Inr (s\<lparr>pages := (pages s)[i := (pages s ! i)\<lparr>pp_ref := pp_ref (pages s ! i) - 1\<rparr>]\<rparr>))"
  using assms by (simp add: page_decref_def set_page_eval page_free_def guardE_def)

text \<open>The entry \<open>page_insert\<close> writes.\<close>

lemma low_bits:
  assumes "\<And>n. 12 \<le> n \<Longrightarrow> \<not> bit (w :: u32) n"
  shows "w < 4096"
proof -
  have "take_bit 12 w = w"
    by (rule bit_word_eqI) (use assms in \<open>auto simp: bit_take_bit_iff intro: leI\<close>)
  then have "w = w mod 4096" by (simp add: take_bit_eq_mod)
  then show ?thesis using word_mod_less_divisor [of 4096 w] by simp
qed

lemma frame_entry:
  assumes "f < 2 ^ 20" "perm < 4096" "perm AND PTE_ON_DISK = 0"
  shows "PGNUM (page2pa f OR perm OR PTE_P) = f" "(page2pa f OR perm OR PTE_P) AND PTE_P \<noteq> 0"
    "(page2pa f OR perm OR PTE_P) AND PTE_ON_DISK = 0"
proof -
  have p: "unat perm < 2 ^ 12" using assms(2) by (simp add: word_less_nat_alt)
  have "\<not> bit (perm OR PTE_P) n" if "12 \<le> n" for n
    using small_bit [OF p, of n] small_bit [of PTE_P 12 n] that by (auto simp: bit_or_iff PTE_P_def)
  then have "perm OR PTE_P < 4096" by (rule low_bits)
  then show "PGNUM (page2pa f OR perm OR PTE_P) = f"
    using PGNUM_page2pa [OF assms(1), of "perm OR PTE_P"] by (simp add: or.assoc)
  have "bit ((page2pa f OR perm OR PTE_P) AND PTE_P) 0" by (simp add: bit_simps PTE_P_def)
  then show "(page2pa f OR perm OR PTE_P) AND PTE_P \<noteq> 0" by auto
  have "(page2pa f OR perm OR PTE_P) AND PTE_ON_DISK = (page2pa f AND PTE_ON_DISK) OR (perm AND PTE_ON_DISK) OR (PTE_P AND PTE_ON_DISK)"
    by (simp add: bit.conj_disj_distrib2)
  also have "PTE_P AND PTE_ON_DISK = 0" by (simp add: PTE_P_def PTE_ON_DISK_def)
  also have "page2pa f AND PTE_ON_DISK = 0"
  proof (rule bit_word_eqI)
    fix n show "bit (page2pa f AND PTE_ON_DISK) n = bit (0 :: u32) n"
      using small_bit [of PTE_ON_DISK 12 n] by (auto simp: bit_simps page2pa_def PTE_ON_DISK_def)
  qed
  finally show "(page2pa f OR perm OR PTE_P) AND PTE_ON_DISK = 0" using assms(3) by simp
qed




end
