(* ===== verification/JosSwap.thy ===== *)
theory JosSwap
  imports JosMapping
begin

text \<open>
  Pages on their way to the swap disk and back, and the end of the mutual recursion between
  allocation and eviction.
\<close>

section \<open>To disk and back\<close>

lemma PTE_TO_BLOCKNO_PGNUM: "unat (PTE_TO_BLOCKNO v) = PGNUM v"
proof -
  have "drop_bit 12 v AND 0xFFFFF = drop_bit 12 v"
    by (rule bit_word_eqI) (use small_numeral_bit(3) bit_imp_le_length [of v] in
        \<open>fastforce simp: bit_and_iff bit_drop_bit_eq\<close>)
  then show ?thesis by (simp add: PTE_TO_BLOCKNO_def PGNUM_def)
qed

text \<open>The flags that survive the disk: all but bits 8 (\<open>PTE_G\<close>) and 10 (\<open>PTE_ON_DISK\<close>).\<close>

definition back_pte :: "nat \<Rightarrow> u32 \<Rightarrow> u32" where
  "back_pte f v = page2pa f OR (v AND 0xAFF) OR PTE_P"

lemma intercept_pte: "page2pa f OR (v AND 0xEFF AND NOT PTE_ON_DISK) OR PTE_P = back_pte f v"
proof -
  have "(0xAFF :: u32) = 0xEFF AND NOT PTE_ON_DISK" by (simp add: PTE_ON_DISK_def)
  then show ?thesis by (simp add: back_pte_def and.assoc)
qed

lemma back_disk_pte: "back_pte f (disk_pte b w) = back_pte f w"
proof -
  have lo: "\<not> bit (0xAFF :: u32) n" if "12 \<le> n" for n using small_bit [of "0xAFF" 12 n] that by auto
  have "(0xAFF :: u32) = 0xEFF AND 0xAFF" by simp
  then have c: "bit (0xAFF :: u32) n = (bit (0xEFF :: u32) n \<and> bit (0xAFF :: u32) n)" for n by (metis bit_and_iff)
  have "(0xAFF :: u32) AND 0x400 = 0" by simp
  then have d: "\<not> (bit (0xAFF :: u32) n \<and> bit (0x400 :: u32) n)" for n by (metis bit_and_iff bit_0_eq bot_apply bot_bool_def)
  show ?thesis
  proof (rule bit_word_eqI)
    fix n
    show "bit (back_pte f (disk_pte b w)) n = bit (back_pte f w) n"
      unfolding back_pte_def disk_pte_def PTE_ON_DISK_def PTE_P_def bit_or_iff bit_and_iff bit_not_iff
      using lo [of n] c [of n] d [of n] by (cases "12 \<le> n") (auto simp: bit_push_bit_iff)
  qed
qed

lemma back_pte_frame:
  assumes "f < 2 ^ 20"
  shows "PGNUM (back_pte f v) = f" "back_pte f v AND PTE_P \<noteq> 0" "back_pte f v AND PTE_ON_DISK = 0"
proof -
  have "\<not> bit (0xAFF :: u32) n" if "12 \<le> n" for n using small_bit [of "0xAFF" 12 n] that by auto
  then have "v AND 0xAFF < 4096" by (intro low_bits) (simp add: bit_and_iff)
  moreover have "(v AND 0xAFF) AND PTE_ON_DISK = 0" by (simp add: PTE_ON_DISK_def and.assoc)
  ultimately have "v AND 0xAFF < 4096" "(v AND 0xAFF) AND PTE_ON_DISK = 0" .
  note e = frame_entry [OF assms this]
  show "PGNUM (back_pte f v) = f" "back_pte f v AND PTE_P \<noteq> 0" "back_pte f v AND PTE_ON_DISK = 0"
    by (simp_all only: back_pte_def e not_False_eq_True)
qed

lemma back_pte_W: "v AND PTE_W \<noteq> 0 \<Longrightarrow> back_pte f v AND PTE_W \<noteq> 0"
proof -
  assume v: "v AND PTE_W \<noteq> 0"
  have w: "PTE_W = push_bit 1 1" by (simp add: PTE_W_def)
  have "bit v 1" using v unfolding w by (simp add: bit_iff_and_push_bit_not_eq_0)
  moreover have "bit (0xAFF :: u32) 1" by simp
  ultimately have "bit (back_pte f v) 1" by (simp add: back_pte_def bit_or_iff bit_and_iff)
  then show ?thesis unfolding w by (simp add: bit_iff_and_push_bit_not_eq_0)
qed

lemma translate_find:
  assumes "pgdir_find pgdir va s = Inr (Some pte)" "read_pte pte s AND PTE_P \<noteq> 0"
    "writing \<longrightarrow> read_pte (pgdir, PDX va) s AND PTE_W \<noteq> 0 \<and> read_pte pte s AND PTE_W \<noteq> 0"
  shows "translate pgdir va writing s = Inr (PGNUM (read_pte pte s))"
  using assms by (auto simp: translate_def guardE_def pgdir_find_eq Let_def split: if_splits)

lemma page_decref_frame:
  assumes "page_decref i s = Inr t"
  shows "mem t = mem s" "disk t = disk s" "pool t = pool s" "in_use_frames t = in_use_frames s"
    "npages t = npages s" "length (pages t) = length (pages s)" "envs t = envs s" "curenv t = curenv s"
    "bad_block t = bad_block s" "paging_utils_initialized t = paging_utils_initialized s"
  using assms by (auto simp: page_decref_def page_free_def set_page_def guardE_def bindE_Inr_iff split: if_splits)

lemma pgdir_find_ROUNDDOWN [simp]: "pgdir_find pgdir (ROUNDDOWN va PGSIZE) s = pgdir_find pgdir va s"
  by (rule pgdir_find_page) (rule ROUNDDOWN_page)


text \<open>What a successful \<open>page_to_disk\<close> has done.\<close>

lemma page_to_disk_effect:
  assumes "page_to_disk_jos pgdir va b s = Inr t"
  obtains pte where "pgdir_find pgdir va s = Inr (Some pte)" "read_pte pte s AND PTE_P \<noteq> 0"
    "read_pte pte t = disk_pte b (read_pte pte s)" "\<forall>e. e \<noteq> pte \<longrightarrow> read_pte e t = read_pte e s"
    "disk t = (disk s)(b := mem s (PGNUM (read_pte pte s)))"
    "pool t = pool s" "in_use_frames t = in_use_frames s" "envs t = envs s" "curenv t = curenv s"
    "npages t = npages s" "length (pages t) = length (pages s)" "paging_utils_initialized t"
    "bad_block t = bad_block s"
proof -
  define s0 where "s0 = (if paging_utils_initialized s then s else util_init s)"
  have s0: "mem s0 = mem s" "disk s0 = disk s" "pool s0 = pool s" "in_use_frames s0 = in_use_frames s"
    "envs s0 = envs s" "curenv s0 = curenv s" "npages s0 = npages s" "pages s0 = pages s"
    "bad_block s0 = bad_block s" "paging_utils_initialized s0"
    by (simp_all add: s0_def util_init_def)
  have g: "read_pte e s0 = read_pte e s" for e by (rule read_pte_cong) (simp add: s0)
  have find0: "pgdir_find pgdir va s0 = pgdir_find pgdir va s" by (simp add: pgdir_find_eq Let_def g s0)
  from assms obtain pte frame s1 where
    pte: "pgdir_find pgdir va s0 = Inr (Some pte)"
    and s1: "block_to_disk pgdir (ROUNDDOWN va PGSIZE) b s0 = Inr (0, s1) \<or>
             (\<exists>r > 0. block_to_disk pgdir (ROUNDDOWN va PGSIZE) b s0 = Inr (r, s1))"
    and dec: "page_decref frame (write_pte pte ((push_bit 12 (of_nat b) OR PTE_ON_DISK OR (read_pte pte s1 AND 0xEFF))
                   AND NOT PTE_P) s1) = Inr t"
    unfolding page_to_disk_jos_def Let_def s0_def [symmetric]
    by (auto simp: guardE_def bindE_Inr_iff le_less split: option.splits if_splits prod.splits)
  from s1 obtain fr where tr: "translate pgdir (ROUNDDOWN va PGSIZE) False s0 = Inr fr"
    and s1: "s1 = s0\<lparr>disk := (disk s0)(b := mem s0 fr)\<rparr>"
    by (auto simp: block_to_disk_def bindE_Inr_iff split: if_splits)
  have fr: "fr = PGNUM (read_pte pte s0)" "read_pte pte s0 AND PTE_P \<noteq> 0"
    using tr pte by (auto simp: translate_def guardE_def bindE_Inr_iff pgdir_find_eq Let_def split: if_splits)
  have g1: "read_pte e s1 = read_pte e s" for e by (simp add: s1 read_pte_def s0)
  note d = page_decref_frame [OF dec]
  have gt: "read_pte e t = (if e = pte then disk_pte b (read_pte pte s) else read_pte e s)" for e
    using read_pte_cong [OF d(1), of e] by (simp add: read_write_pte g1 disk_pte_def)
  show ?thesis
    by (rule that [of pte]) (use pte find0 fr g gt d s1 s0 in simp_all)
qed

lemma page_alloc_free:
  assumes "page_free_list s = Some f" "f < length (pages s)"
  shows "page_alloc 0 s = Inr (Some f, s\<lparr>page_free_list := pp_link (pages s ! f),
     pages := (pages s)[f := (pages s ! f)\<lparr>pp_link := None\<rparr>]\<rparr>)"
  using assms by (simp add: page_alloc_def set_page_eval)

text \<open>
  \<open>page_fault_intercept\<close> when a frame is free: it reads the block the entry names, on disk or not.
\<close>

lemma page_fault_intercept_effect:
  assumes find: "pgdir_find pgdir va t = Inr (Some pte)" and tab: "fst pte \<noteq> pgdir"
    and cur: "pgdir_of (curenv t) t = Inr pgdir" and ini: "paging_utils_initialized t"
    and free: "page_free_list t = Some f" "f < length (pages t)" "f < 2 ^ 20" "f \<noteq> fst pte" "f \<noteq> pgdir"
    and rw: "read_pte (pgdir, PDX va) t AND PTE_W \<noteq> 0" "read_pte pte t AND PTE_W \<noteq> 0"
    and good: "\<not> bad_block t (PGNUM (read_pte pte t))"
  obtains t' where "page_fault_intercept pgdir va t = Inr t'"
    "mem t' f = disk t (PGNUM (read_pte pte t))" "read_pte pte t' = back_pte f (read_pte pte t)"
    "pages t' = (pages t)[f := (pages t ! f)\<lparr>pp_link := None\<rparr>]"
    "page_free_list t' = pp_link (pages t ! f)" "npages t' = npages t" "disk t' = disk t"
    "pgdir_find pgdir va t' = Inr (Some pte)" "free_block_bitmap t' = free_block_bitmap t"
proof -
  let ?v = "read_pte pte t"
  let ?t1 = "t\<lparr>page_free_list := pp_link (pages t ! f), pages := (pages t)[f := (pages t ! f)\<lparr>pp_link := None\<rparr>]\<rparr>"
  let ?t2 = "write_pte pte (back_pte f ?v) ?t1"
  let ?t3 = "?t2\<lparr>mem := (mem ?t2)(f := disk t (PGNUM ?v))\<rparr>"
  have pd: "(pgdir, PDX va) \<noteq> pte" using tab by auto
  have g1: "read_pte e ?t1 = read_pte e t" for e by (rule read_pte_cong) simp
  have g2: "read_pte e ?t2 = (if e = pte then back_pte f ?v else read_pte e t)" for e by (simp add: read_write_pte g1)
  have f12: "pgdir_find pgdir va ?t1 = Inr (Some pte)" "pgdir_find pgdir va ?t2 = Inr (Some pte)"
    using find pd by (simp_all add: pgdir_find_eq g1 g2 Let_def split: if_splits)
  have cur1: "pgdir_of (curenv ?t1) ?t1 = Inr pgdir" using cur by (simp add: pgdir_of_def)
  have pe: "pte = (PGNUM (read_pte (pgdir, PDX va) t), PTX va)" "PGNUM (read_pte (pgdir, PDX va) t) < npages t"
    using find by (auto simp: pgdir_find_eq Let_def split: if_splits)
  have tr: "translate pgdir va True ?t2 = Inr f"
    using translate_find [OF f12(2), of True] rw pd back_pte_frame [OF free(3)] back_pte_W by (simp add: g2)
  then have tr': "translate pgdir (ROUNDDOWN va PGSIZE) True ?t2 = Inr f" by (simp add: translate_def)
  have "page_fault_intercept pgdir va t = page_from_disk_jos pgdir (ROUNDDOWN va PGSIZE) (PGNUM ?v) ?t2"
    using page_alloc_free [OF free(1,2)] cur1 pe intercept_pte [of f ?v]
    by (simp add: page_fault_intercept_def Let_def g1 KADDR_def guardE_def PTE_TO_BLOCKNO_PGNUM)
  also have "\<dots> = Inr ?t3"
    using ini good tr' by (simp add: page_from_disk_jos_def block_from_disk_def guardE_def Let_def translate_def)
  finally have r: "page_fault_intercept pgdir va t = Inr ?t3" .
  have g3: "read_pte e ?t3 = read_pte e ?t2" if "fst e \<noteq> f" for e using that by (simp add: read_pte_def)
  have "pgdir_find pgdir va ?t3 = Inr (Some pte)"
    using f12(2) g3 [of "(pgdir, PDX va)"] free(5) by (simp add: pgdir_find_eq Let_def split: if_splits)
  then show ?thesis
    by (intro that [OF r]) (use g3 [of pte] g2 [of pte] free in \<open>simp_all add: write_pte_def\<close>)
qed

lemma disk_pte_PGNUM: "b < 2 ^ 20 \<Longrightarrow> PGNUM (disk_pte b w) = b"
  using disk_pte_block [of b w] by (simp add: PTE_TO_BLOCKNO_PGNUM)

lemma disk_pte_W: "w AND PTE_W \<noteq> 0 \<Longrightarrow> disk_pte b w AND PTE_W \<noteq> 0"
proof -
  assume a: "w AND PTE_W \<noteq> 0"
  have v: "PTE_W = push_bit 1 1" by (simp add: PTE_W_def)
  have "bit w 1" using a unfolding v by (simp add: bit_iff_and_push_bit_not_eq_0)
  moreover have "bit (0xEFF :: u32) 1" "\<not> bit PTE_P 1" by (simp_all add: PTE_P_def bit_1_iff)
  ultimately have "bit (disk_pte b w) 1" by (simp add: disk_pte_def bit_or_iff bit_and_iff bit_not_iff)
  then show ?thesis unfolding v by (simp add: bit_iff_and_push_bit_not_eq_0)
qed


text \<open>
  A page that user code maps with \<open>PTE_SHARE\<close> (0x400, the bit of \<open>PTE_ON_DISK\<close>) is lost at the
  first \<open>page_lookup\<close>: although it is present, the lookup gives another frame, and what that frame
  holds is the disk block whose number is the number of the page's frame.
\<close>

theorem shared_page_is_replaced:
  assumes shared: "v = read_pte pte t" "v AND PTE_P \<noteq> 0" "v AND 0x400 \<noteq> 0" "v AND PTE_W \<noteq> 0"
    and find: "pgdir_find pgdir va t = Inr (Some pte)" "read_pte (pgdir, PDX va) t AND PTE_W \<noteq> 0"
    and good: "\<not> bad_block t (PGNUM v)"
    and tab: "fst pte \<noteq> pgdir" and cur: "pgdir_of (curenv t) t = Inr pgdir" and ini: "paging_utils_initialized t"
    and free: "page_free_list t = Some f" "f < length (pages t)" "f < 2 ^ 20" "f \<noteq> fst pte" "f \<noteq> pgdir" "f < npages t"
  shows "\<exists>t'. page_lookup pgdir va t = Inr (Some (f, pte), t') \<and> mem t' f = disk t (PGNUM v) \<and>
    pp_ref (pages t' ! f) = pp_ref (pages t ! f)"
proof -
  have v: "read_pte pte t AND PTE_W \<noteq> 0" "\<not> bad_block t (PGNUM (read_pte pte t))" using shared good by simp_all
  from page_fault_intercept_effect [OF find(1) tab cur ini free(1-5) find(2) v] obtain t' where
    t': "page_fault_intercept pgdir va t = Inr t'" "mem t' f = disk t (PGNUM v)"
    "read_pte pte t' = back_pte f v" "npages t' = npages t"
    "pages t' = (pages t)[f := (pages t ! f)\<lparr>pp_link := None\<rparr>]"
    by (metis shared(1))
  have "read_pte pte t AND PTE_ON_DISK \<noteq> 0" using shared by (simp add: PTE_ON_DISK_def)
  then have "page_lookup pgdir va t = Inr (Some (f, pte), t')"
    using pgdir_walk_find [OF find(1)] t' back_pte_frame [OF free(3)] free(6)
    by (simp add: page_lookup_def pa2page_def guardE_def)
  then show ?thesis using t' free by simp
qed

definition ex_swap :: jos where
  "ex_swap = ex_jos\<lparr>pages := (replicate 8 \<lparr>pp_link = None, pp_ref = 1\<rparr>)[4 := \<lparr>pp_link = None, pp_ref = 0\<rparr>],
     page_free_list := Some 4, paging_utils_initialized := True\<rparr>"

lemma ex_addr: "PTX 0x5000 = 5" "PDX 0x5000 = 0" "PGNUM 0x2007 = 2" "PGNUM 0x3007 = 3" "PGNUM 0x3407 = 3"
  by (simp_all add: PTX_def PDX_def PGNUM_def)

lemma ex_find:
  assumes "mem s 1 0 = 0x2007" "npages s = 8"
  shows "pgdir_find 1 0x5000 s = Inr (Some (2, 5))" "read_pte (1, PDX 0x5000) s AND PTE_W \<noteq> 0"
  using assms by (simp_all add: pgdir_find_eq read_pte_def ex_addr PTE_P_def PTE_W_def)


definition ex_shared :: jos where
  "ex_shared = write_pte (2, 5) 0x3407 ex_swap"

theorem shared_page_is_replaced_witness:
  "\<exists>t'. page_lookup 1 0x5000 ex_shared = Inr (Some (4, (2, 5)), t') \<and> mem t' 4 = disk ex_shared 3"
proof -
  have m: "mem ex_shared 1 0 = 0x2007" "npages ex_shared = 8"
    by (simp_all add: ex_shared_def write_pte_def ex_swap_def ex_jos_def)
  have v: "0x3407 = read_pte (2, 5) ex_shared" by (simp add: ex_shared_def read_write_pte)
  from shared_page_is_replaced [OF v _ _ _ ex_find [OF m], of 4]
  show ?thesis by (auto simp: PTE_P_def PTE_W_def ex_addr ex_shared_def ex_swap_def ex_jos_def pgdir_of_def)
qed

section \<open>Allocation ends\<close>

lemma no_div_bind:
  "m \<noteq> Inl Diverges \<Longrightarrow> (\<And>x. m = Inr x \<Longrightarrow> f x \<noteq> Inl Diverges) \<Longrightarrow> bindE m f \<noteq> Inl Diverges"
  by (cases m) auto

lemma no_div_basic: "rd xs i \<noteq> Inl Diverges" "guardE Panic b \<noteq> Inl Diverges" "deref p \<noteq> Inl Diverges"
  "set_page i g s \<noteq> Inl Diverges" "set_entry i h s \<noteq> Inl Diverges"
  by (auto simp: rd_def guardE_def deref_def set_page_def set_entry_def bindE_Inl_iff split: option.splits)

lemma no_div_alloc_scan: "alloc_scan k i bm \<noteq> Inl Diverges"
  by (induction k arbitrary: i) (auto simp: bindE_Inl_iff rd_def split: if_splits)

lemma no_div_alloc: "alloc_blockno s \<noteq> Inl Diverges"
  by (auto simp: alloc_blockno_def bindE_Inl_iff no_div_alloc_scan)

lemma no_div_page_decref: "page_decref i s \<noteq> Inl Diverges"
  by (auto simp: page_decref_def page_free_def bindE_Inl_iff no_div_basic split: if_splits)

lemma no_div_page_to_disk: "page_to_disk_jos pgdir va b s \<noteq> Inl Diverges"
  by (auto simp: page_to_disk_jos_def Let_def block_to_disk_def translate_def pa2page_def pgdir_find_eq bindE_Inl_iff
      no_div_basic no_div_page_decref split: option.splits if_splits)


lemma no_div_envid2env: "envid2env i c s \<noteq> Inl Diverges"
  by (auto simp: envid2env_def bindE_Inl_iff no_div_basic split: if_splits)

lemma queue_pop:
  assumes "queue_is s xs" "remove_victim_page s = Inr (v, t)"
  shows "xs \<noteq> [] \<and> queue_is t (tl xs) \<and> length (pool t) = length (pool s)"
proof -
  have c: "chain (links (pool s)) (in_use_frames s) xs" "set xs \<subseteq> {..<length (pool s)}"
    using assms(1) by (simp_all add: queue_is_def)
  obtain x ys where xs: "xs = x # ys" "in_use_frames s = Some x"
    using c(1) assms(2) by (cases xs) (auto simp: remove_victim_page_def remove_victim_page_fifo_def)
  have x: "x < length (pool s)" using c(2) xs by simp
  have d: "x \<notin> set ys" using chain_distinct [OF c(1)] xs by simp
  have t: "t = s\<lparr>in_use_frames := rnext (pool s ! x), pool := (pool s)[x := (pool s ! x)\<lparr>rnext := None\<rparr>]\<rparr>"
    using assms(2) xs x by (simp add: remove_victim_page_def remove_victim_page_fifo_def set_entry_def) blast
  have "chain (links (pool s)) (rnext (pool s ! x)) ys" using c(1) xs by (simp add: links_def)
  then have "chain ((links (pool s))(x := None)) (rnext (pool s ! x)) ys" using d by (simp add: chain_upd)
  then show ?thesis using xs x c(2) by (simp add: t queue_is_def links_update)
qed

lemma alloc_blockno_queue:
  "alloc_blockno s = Inr (b, t) \<Longrightarrow> pool t = pool s \<and> in_use_frames t = in_use_frames s"
  by (auto simp: alloc_blockno_def bindE_Inr_iff)

lemma handle_out_of_pages_ends:
  assumes q: "queue_is s xs"
    and again: "\<And>t. xs \<noteq> [] \<Longrightarrow> queue_is t (tl xs) \<Longrightarrow> f fl t \<noteq> Inl Diverges \<and> g fl t = f fl t"
  shows "handle_out_of_pages f fl s \<noteq> Inl Diverges \<and> handle_out_of_pages g fl s = handle_out_of_pages f fl s"
proof (cases "remove_victim_page s")
  case (Inl e)
  then show ?thesis
    by (auto simp: handle_out_of_pages_def remove_victim_page_def remove_victim_page_fifo_def bindE_Inl_iff no_div_basic
        split: option.splits)
next
  case (Inr r)
  obtain v t where r: "remove_victim_page s = Inr (v, t)" using Inr by (cases r) simp
  note p = queue_pop [OF q r]
  show ?thesis
  proof (cases "alloc_blockno t")
    case (Inl e)
    then show ?thesis using r no_div_alloc [of t] by (auto simp: handle_out_of_pages_def)
  next
    case (Inr rb)
    obtain b u where a: "alloc_blockno t = Inr (b, u)" using Inr by (cases rb) simp
    have qu: "queue_is u (tl xs)" using p alloc_blockno_queue [OF a] by (auto simp: queue_is_def)
    show ?thesis
    proof (cases b)
      case None
      then show ?thesis using r a by (simp add: handle_out_of_pages_def)
    next
      case (Some k)
      have "queue_is w (tl xs)" if "page_to_disk_jos pgdir va k u = Inr w" for pgdir va w
        by (rule page_to_disk_effect [OF that]) (use qu in \<open>simp add: queue_is_def\<close>)
      then have w: "f fl w \<noteq> Inl Diverges \<and> g fl w = f fl w" if "page_to_disk_jos pgdir va k u = Inr w" for pgdir va w
        using that p again by blast
      have pg: "pgdir_of e u \<noteq> Inl Diverges" for e
        by (auto simp: pgdir_of_def bindE_Inl_iff no_div_basic)
      have "handle_out_of_pages h fl s = bindE (rd (pool u) v) (\<lambda>x. bindE (envid2env (renvid x) False u) (\<lambda>(ret, e).
          bindE (pgdir_of e u) (\<lambda>pgdir. bindE (page_to_disk_jos pgdir (rva x) k u) (h fl))))" for h
        using r a Some by (simp add: handle_out_of_pages_def)
      moreover have "bindE (rd (pool u) v) (\<lambda>x. bindE (envid2env (renvid x) False u) (\<lambda>(ret, e).
          bindE (pgdir_of e u) (\<lambda>pgdir. bindE (page_to_disk_jos pgdir (rva x) k u) (g fl)))) =
        bindE (rd (pool u) v) (\<lambda>x. bindE (envid2env (renvid x) False u) (\<lambda>(ret, e).
          bindE (pgdir_of e u) (\<lambda>pgdir. bindE (page_to_disk_jos pgdir (rva x) k u) (f fl))))"
        by (intro bindE_cong refl) (auto intro!: bindE_cong simp: w)
      ultimately show ?thesis
        using w by (auto simp: bindE_Inl_iff no_div_basic no_div_envid2env pg no_div_page_to_disk split: prod.splits)
    qed
  qed
qed

lemma page_alloc_n_ends:
  "queue_is s xs \<Longrightarrow> length xs < n \<Longrightarrow> length xs < m \<Longrightarrow>
   page_alloc_n n fl s \<noteq> Inl Diverges \<and> page_alloc_n m fl s = page_alloc_n n fl s"
proof (induction n arbitrary: m s xs)
  case 0
  then show ?case by simp
next
  case (Suc n)
  obtain m' where m: "m = Suc m'" using Suc.prems(3) by (cases m) auto
  show ?case
  proof (cases "page_free_list s = None \<and> paging_utils_initialized s")
    case False
    then show ?thesis unfolding m
      by (auto simp: bindE_Inl_iff no_div_basic KADDR_def split: option.splits if_splits)
  next
    case True
    have "handle_out_of_pages (page_alloc_n n) fl s \<noteq> Inl Diverges \<and>
      handle_out_of_pages (page_alloc_n m') fl s = handle_out_of_pages (page_alloc_n n) fl s"
    proof (rule handle_out_of_pages_ends [OF Suc.prems(1)])
      fix t assume "xs \<noteq> []" and t: "queue_is t (tl xs)"
      then have "length (tl xs) < n" "length (tl xs) < m'" using Suc.prems(2,3) m by (cases xs; simp)+
      then show "page_alloc_n n fl t \<noteq> Inl Diverges \<and> page_alloc_n m' fl t = page_alloc_n n fl t"
        by (rule Suc.IH [OF t])
    qed
    then show ?thesis using True by (simp add: m)
  qed
qed

lemma page_alloc_ends:
  assumes "queue_is s xs"
  shows "page_alloc alloc_flags s \<noteq> Inl Diverges" and
    "length xs < n \<Longrightarrow> page_alloc_n n alloc_flags s = page_alloc alloc_flags s"
proof -
  have "distinct xs" "set xs \<subseteq> {..<length (pool s)}"
    using assms chain_distinct by (auto simp: queue_is_def)
  then have "length xs \<le> length (pool s)"
    by (metis card_lessThan card_mono distinct_card finite_lessThan)
  then have l: "length xs < length (pool s) + 2" by simp
  show "page_alloc alloc_flags s \<noteq> Inl Diverges"
    using page_alloc_n_ends [OF assms l l] by (simp add: page_alloc_def)
  show "page_alloc_n n alloc_flags s = page_alloc alloc_flags s" if "length xs < n"
    using page_alloc_n_ends [OF assms l that] by (simp only: page_alloc_def)
qed

text \<open>
  C18. \<open>page_alloc\<close> and \<open>handle_out_of_pages\<close> call each other only finitely often: while the queue of
  frames in use is intact the allocation ends, each round takes a frame off the queue, and the
  fuel of the definition changes nothing.
\<close>

theorem page_alloc_terminates:
  assumes "queue_is s xs"
  shows "page_alloc alloc_flags s \<noteq> Inl Diverges \<and>
    (\<forall>n > length xs. page_alloc_n n alloc_flags s = page_alloc alloc_flags s)"
  using page_alloc_ends [OF assms] by blast

theorem page_alloc_terminates_witness:
  "page_alloc 0 (ex_jos\<lparr>in_use_frames := Some 3\<rparr>) \<noteq> Inl Diverges \<and>
   page_alloc_n 2 0 (ex_jos\<lparr>in_use_frames := Some 3\<rparr>) = page_alloc 0 (ex_jos\<lparr>in_use_frames := Some 3\<rparr>)"
  using page_alloc_terminates [OF queue_ex] by simp

end
