(* ===== verification/JosEnvProofs.thy ===== *)
theory JosEnvProofs
  imports JosEnv JosSwap
begin

text \<open>
  The table of environments. Memory management does not touch it (\<open>memory_frame\<close>, a contract of the
  operations of \<open>pmap.c\<close> and \<open>paging_utils.c\<close> towards the parts of the state they do not own); and what
  \<open>env.c\<close> does to it keeps the free list a list of free slots and gives every slot later and later
  identifiers.
\<close>

section \<open>What the memory operations leave alone\<close>

text \<open>
  A part \<open>view\<close> of the state that does not depend on physical memory, the page tables, the queue of
  frames or the swap disk: allocating, evicting, mapping and unmapping pages does not change it.
\<close>

locale memory_frame =
  fixes view :: "jos \<Rightarrow> 'v"
  assumes view_upd:
    "view (s\<lparr>pages := a\<rparr>) = view s" "view (s\<lparr>page_free_list := b\<rparr>) = view s" "view (s\<lparr>mem := c\<rparr>) = view s"
    "view (s\<lparr>pool := d\<rparr>) = view s" "view (s\<lparr>in_use_frames := e\<rparr>) = view s"
    "view (s\<lparr>paging_utils_initialized := f\<rparr>) = view s" "view (s\<lparr>free_block_bitmap := g\<rparr>) = view s"
    "view (s\<lparr>disk := h\<rparr>) = view s"
begin

lemma set_page: "set_page i f s = Inr t \<Longrightarrow> view t = view s"
  by (auto simp: set_page_def view_upd)

lemma set_entry: "set_entry i f s = Inr t \<Longrightarrow> view t = view s"
  by (auto simp: set_entry_def view_upd)

lemma write_pte: "view (write_pte e w s) = view s"
  by (simp add: write_pte_def view_upd)

lemma page_free: "page_free pp s = Inr t \<Longrightarrow> view t = view s"
  by (auto simp: page_free_def view_upd dest!: set_page)

lemma page_decref: "page_decref pp s = Inr t \<Longrightarrow> view t = view s"
  by (auto simp: page_decref_def split: if_splits dest!: set_page page_free)

lemma alloc_blockno: "alloc_blockno s = Inr (b, t) \<Longrightarrow> view t = view s"
  by (auto simp: alloc_blockno_def view_upd)

lemma remove_victim: "remove_victim_page s = Inr (v, t) \<Longrightarrow> view t = view s"
  by (auto simp: remove_victim_page_def remove_victim_page_fifo_def view_upd split: option.splits dest!: set_entry)

lemma block_to_disk: "block_to_disk pgdir va b s = Inr (r, t) \<Longrightarrow> view t = view s"
  by (auto simp: block_to_disk_def view_upd split: if_splits)

lemma block_from_disk: "block_from_disk pgdir va b s = Inr (r, t) \<Longrightarrow> view t = view s"
  by (auto simp: block_from_disk_def view_upd split: if_splits)

lemma util_init: "view (util_init s) = view s"
proof -
  have "util_init s = (s\<lparr>free_block_bitmap := replicate (NBLOCKS div 32 + 1) (- 1)\<rparr>)\<lparr>paging_utils_initialized := True\<rparr>"
    by (simp add: util_init_def)
  then show ?thesis by (simp only: view_upd)
qed

lemma page_to_disk: "page_to_disk_jos pgdir va b s = Inr t \<Longrightarrow> view t = view s"
  by (auto simp: page_to_disk_jos_def Let_def write_pte util_init split: if_splits dest!: page_decref block_to_disk)

lemma page_alloc_n: "page_alloc_n n fl s = Inr (p, t) \<Longrightarrow> view t = view s"
proof (induction n arbitrary: s t)
  case 0
  then show ?case by simp
next
  case (Suc n)
  have "view u = view s" if "handle_out_of_pages (page_alloc_n n) fl s = Inr (p, u)" for u
    using that by (auto simp: handle_out_of_pages_def split: option.splits
        dest!: Suc.IH page_to_disk alloc_blockno remove_victim)
  then show ?case using Suc.prems
    by (auto simp: view_upd split: option.splits if_splits dest!: set_page)
qed

lemma page_alloc: "page_alloc fl s = Inr (p, t) \<Longrightarrow> view t = view s"
  unfolding page_alloc_def by (rule page_alloc_n)

lemma pgdir_walk: "pgdir_walk pgdir va create s = Inr (e, t) \<Longrightarrow> view t = view s"
  by (auto simp: pgdir_walk_def pgdir_walk_with_def write_pte split: if_splits option.splits
      dest!: page_alloc set_page)

lemma page_from_disk: "page_from_disk_jos pgdir va b s = Inr t \<Longrightarrow> view t = view s"
  by (auto simp: page_from_disk_jos_def Let_def util_init split: if_splits dest!: block_from_disk)

lemma intercept: "page_fault_intercept pgdir va s = Inr t \<Longrightarrow> view t = view s"
  by (auto simp: page_fault_intercept_def Let_def write_pte split: option.splits dest!: page_alloc page_from_disk)

lemma page_lookup: "page_lookup pgdir va s = Inr (r, t) \<Longrightarrow> view t = view s"
  by (auto simp: page_lookup_def split: option.splits if_splits dest!: pgdir_walk intercept)

lemma page_remove: "page_remove pgdir va s = Inr t \<Longrightarrow> view t = view s"
  by (auto simp: page_remove_def write_pte split: option.splits dest!: page_lookup page_decref)

lemma page_insert: "page_insert pgdir pp va perm s = Inr (r, t) \<Longrightarrow> view t = view s"
  by (auto simp: page_insert_def write_pte split: option.splits if_splits dest!: pgdir_walk set_page page_remove)

lemma on_page_alloc: "on_page_alloc_success va e pa s = Inr t \<Longrightarrow> view t = view s"
  by (auto simp: on_page_alloc_success_def Let_def view_upd split: option.splits dest!: set_entry)

lemma cleanup: "env_destroy_cleanup i s = Inr t \<Longrightarrow> view t = view s"
  unfolding env_destroy_cleanup_def by (auto simp: view_upd split: option.splits)

lemma store_byte: "store_byte pgdir va b s = Inr t \<Longrightarrow> view t = view s"
  by (auto simp: store_byte_def Let_def write_pte)

lemma store16: "store16 pgdir va w s = Inr t \<Longrightarrow> view t = view s"
  by (auto simp: store16_def dest!: store_byte)

lemma store32: "store32 pgdir va w s = Inr t \<Longrightarrow> view t = view s"
  by (auto simp: store32_def dest!: store16)

lemma store_words: "store_words pgdir va ws s = Inr t \<Longrightarrow> view t = view s"
  by (induction ws arbitrary: va s) (auto dest!: store32)

lemma free_ptes: "free_ptes k pgdir pt d i s = Inr t \<Longrightarrow> view t = view s"
  by (induction k arbitrary: i s) (auto split: if_splits dest!: page_remove)

lemma free_pdes: "free_pdes k pgdir d s = Inr t \<Longrightarrow> view t = view s"
  by (induction k arbitrary: d s) (auto simp: Let_def write_pte split: if_splits dest!: free_ptes page_decref)

lemmas frame_rules = set_page set_entry page_free page_decref page_alloc pgdir_walk intercept page_lookup page_remove
  page_insert on_page_alloc cleanup store16 store32 store_words free_pdes

end

text \<open>The table of environments, and the current one.\<close>

definition env_view :: "jos \<Rightarrow> env list \<times> nat option \<times> nat option" where
  "env_view s = (envs s, env_free_list s, curenv s)"

interpretation ev: memory_frame env_view
  by unfold_locales (simp_all add: env_view_def)


section \<open>The table of environments\<close>

definition free_link :: "jos \<Rightarrow> nat \<Rightarrow> nat option" where
  "free_link s i = env_link (envs s ! i)"

text \<open>The environment \<open>i\<close> is not on the free list.\<close>

definition off_list :: "jos \<Rightarrow> nat \<Rightarrow> bool" where
  "off_list s i \<longleftrightarrow> i < NENV \<and> (\<forall>xs. chain (free_link s) (env_free_list s) xs \<longrightarrow> i \<notin> set xs)"

lemma off_list_chain:
  "chain (free_link s) (env_free_list s) xs \<Longrightarrow> off_list s j = (j < NENV \<and> j \<notin> set xs)"
  unfolding off_list_def by (metis chain_unique)

definition env_ok :: "jos \<Rightarrow> bool" where
  "env_ok s \<longleftrightarrow> length (envs s) = NENV \<and>
     (\<exists>xs. chain (free_link s) (env_free_list s) xs \<and> (\<forall>i \<in> set xs. i < NENV \<and> env_status (envs s ! i) = ENV_FREE)) \<and>
     (\<forall>c. curenv s = Some c \<longrightarrow> off_list s c) \<and>
     (\<forall>i < NENV. env_id (envs s ! i) = 0 \<or> 0 < sint (env_id (envs s ! i)) \<and> ENVX (env_id (envs s ! i)) = i)"

text \<open>The identifiers a slot has had, one after the other.\<close>

definition later_ids :: "jos \<Rightarrow> jos \<Rightarrow> bool" where
  "later_ids s t \<longleftrightarrow> (\<forall>i < NENV. sint (env_id (envs s ! i)) \<le> sint (env_id (envs t ! i)))"

lemma later_ids_refl [simp]: "later_ids s s"
  by (simp add: later_ids_def)

lemma later_ids_trans: "later_ids s t \<Longrightarrow> later_ids t u \<Longrightarrow> later_ids s u"
  by (fastforce simp: later_ids_def)

text \<open>What a step does to a good table.\<close>

definition table_step :: "jos \<Rightarrow> jos \<Rightarrow> bool" where
  "table_step s t \<longleftrightarrow> (env_ok s \<longrightarrow> env_ok t \<and> later_ids s t)"

lemma table_step_refl [simp]: "table_step s s"
  by (simp add: table_step_def)

lemma table_step_trans: "table_step s t \<Longrightarrow> table_step t u \<Longrightarrow> table_step s u"
  by (auto simp: table_step_def intro: later_ids_trans)

lemma env_view_eq: "env_view t = env_view s \<longleftrightarrow> envs t = envs s \<and> env_free_list t = env_free_list s \<and> curenv t = curenv s"
  by (auto simp: env_view_def)

lemma same_view:
  assumes "env_view t = env_view s"
  shows "table_step s t" "off_list t i = off_list s i" "curenv t = curenv s" "env_ok t = env_ok s"
  using assms by (simp_all add: env_view_eq table_step_def env_ok_def off_list_def free_link_def [abs_def] later_ids_def)

lemma set_env_eq: "set_env i f s = Inr t \<longleftrightarrow> i < length (envs s) \<and> t = s\<lparr>envs := (envs s)[i := f (envs s ! i)]\<rparr>"
  by (auto simp: set_env_def rd_def split: if_splits)

text \<open>Changing the fields of an environment in use, other than its identifier and link.\<close>

lemma set_env_step:
  assumes "set_env i f s = Inr t" "off_list s i"
    and f: "\<And>b. env_link (f b) = env_link b" "\<And>b. env_id (f b) = env_id b"
  shows "table_step s t" "off_list t j = off_list s j" "curenv t = curenv s" "length (envs t) = length (envs s)"
    "env_id (envs t ! j) = env_id (envs s ! j)"
proof -
  have i: "i < length (envs s)" and t: "t = s\<lparr>envs := (envs s)[i := f (envs s ! i)]\<rparr>"
    using assms(1) by (simp_all add: set_env_eq)
  have l: "free_link t = free_link s" using f i by (auto simp: fun_eq_iff free_link_def t nth_list_update)
  show o: "off_list t j = off_list s j" for j by (simp add: off_list_def l) (simp add: t)
  show ids: "env_id (envs t ! j) = env_id (envs s ! j)" for j using f i by (simp add: t nth_list_update)
  have "env_ok t" if "env_ok s"
  proof -
    obtain xs where xs: "chain (free_link s) (env_free_list s) xs" "\<And>j. j \<in> set xs \<Longrightarrow> j < NENV \<and> env_status (envs s ! j) = ENV_FREE"
      using \<open>env_ok s\<close> by (auto simp: env_ok_def)
    have "i \<notin> set xs" using assms(2) xs(1) by (auto simp: off_list_def)
    then have "env_status (envs t ! j) = ENV_FREE" if "j \<in> set xs" for j
      using xs(2) [OF that] that by (cases "j = i") (simp_all add: t)
    then have ex: "\<exists>xs. chain (free_link t) (env_free_list t) xs \<and> (\<forall>j \<in> set xs. j < NENV \<and> env_status (envs t ! j) = ENV_FREE)"
      using xs l by (intro exI [of _ xs]) (simp add: t)
    have "curenv t = curenv s" "length (envs t) = length (envs s)" by (simp_all add: t)
    with that ex o ids show ?thesis by (simp add: env_ok_def)
  qed
  then show "table_step s t" using ids by (simp add: table_step_def later_ids_def)
qed (use assms in \<open>simp_all add: set_env_eq\<close>)

lemma env_okD:
  assumes "env_ok s"
  shows "length (envs s) = NENV" "curenv s = Some c \<Longrightarrow> off_list s c"
    "i < NENV \<Longrightarrow> env_id (envs s ! i) = 0 \<or> 0 < sint (env_id (envs s ! i)) \<and> ENVX (env_id (envs s ! i)) = i"
  using assms by (auto simp: env_ok_def)

lemma used_off_list:
  assumes "env_ok s" "i < NENV" "env_status (envs s ! i) \<noteq> ENV_FREE"
  shows "off_list s i"
  unfolding off_list_def using assms by (metis chain_unique env_ok_def)

lemma envid2env_off_list:
  assumes "env_ok s" "envid2env envid cp s = Inr (0, Some e)"
  shows "off_list s e"
proof -
  have "off_list s e" if "envid \<noteq> 0"
  proof (rule used_off_list [OF assms(1)])
    have "e = ENVX envid" "env_status (envs s ! ENVX envid) \<noteq> ENV_FREE" "ENVX envid < length (envs s)"
      using that assms(2) by (auto simp: envid2env_def rd_Inr_iff deref_iff E_BAD_ENV_def split: if_splits)
    then show "e < NENV" "env_status (envs s ! e) \<noteq> ENV_FREE" using env_okD(1) [OF assms(1)] by auto
  qed
  moreover have "off_list s e" if "envid = 0"
    using that assms env_okD(2) by (auto simp: envid2env_def)
  ultimately show ?thesis by blast
qed

lemma envid2env_result:
  "envid2env envid cp s = Inr (r, e) \<Longrightarrow> r = 0 \<or> r = - E_BAD_ENV \<and> e = None"
  by (auto simp: envid2env_def split: if_splits)

section \<open>Creating and freeing\<close>

lemma setup_vm_step:
  assumes "env_setup_vm e s = Inr (r, t)"
  shows "(r < 0 \<longrightarrow> env_view t = env_view s) \<and>
    (\<not> r < 0 \<longrightarrow> r = 0 \<and> (\<exists>f. envs t = (envs s)[e := f (envs s ! e)] \<and>
      (\<forall>b. env_link (f b) = env_link b \<and> env_id (f b) = env_id b \<and> env_status (f b) = env_status b)) \<and>
      env_free_list t = env_free_list s \<and> curenv t = curenv s \<and> e < length (envs s))"
proof -
  obtain p s1 where a: "page_alloc ALLOC_ZERO s = Inr (p, s1)"
    using assms by (auto simp: env_setup_vm_def)
  have v: "env_view s1 = env_view s" using ev.page_alloc [OF a] .
  show ?thesis
  proof (cases p)
    case None
    then show ?thesis using assms a v by (simp add: env_setup_vm_def E_NO_MEM_def)
  next
    case (Some q)
    from assms a Some obtain dir s2 s3 where b: "set_page q (\<lambda>p. p\<lparr>pp_ref := pp_ref p + 1\<rparr>) s1 = Inr s2"
      "set_env e (\<lambda>b. b\<lparr>env_pgdir := Some dir\<rparr>) s2 = Inr s3"
      and r: "r = 0" "t = write_pte (dir, PDX UVPT) (page2pa dir OR PTE_P OR PTE_U) (s3\<lparr>mem := (mem s3)(dir := mem s3 (kern_pgdir s3))\<rparr>)"
      by (auto simp: env_setup_vm_def Let_def)
    have "env_view s2 = env_view s" using ev.set_page [OF b(1)] v by simp
    then have "envs s2 = envs s" "env_free_list s2 = env_free_list s" "curenv s2 = curenv s" by (simp_all add: env_view_eq)
    moreover have "env_free_list t = env_free_list s3" by (simp add: r(2) write_pte_def)
    ultimately show ?thesis using b(2) r
      by (auto simp: set_env_eq intro!: exI [of _ "\<lambda>b. b\<lparr>env_pgdir := Some dir\<rparr>"])
  qed
qed

lemma sint_unat: "unat (w :: u32) < 2 ^ 31 \<Longrightarrow> sint w = int (unat w)"
  using sint_small [of "unat w"] by simp

lemma unat_sint:
  assumes "0 \<le> sint (w :: u32)"
  shows "int (unat w) = sint w"
proof -
  have "sint w < 2 ^ 31" using sint_less [of w] by simp
  then have "nat (sint w) < 2 ^ 32" using assms by simp
  moreover have "w = of_nat (nat (sint w))" using assms by simp
  ultimately have "unat w = nat (sint w)" by (metis unat_small)
  then show ?thesis using assms by simp
qed

lemma new_id:
  fixes w :: u32
  assumes "slot < 1024"
  shows "unat ((w AND NOT 0x3FF) OR of_nat slot) = unat w div 1024 * 1024 + slot"
    "ENVX ((w AND NOT 0x3FF) OR of_nat slot) = slot"
proof -
  let ?x = "(w AND NOT 0x3FF) OR of_nat slot"
  have s: "unat (of_nat slot :: u32) = slot" using assms by (intro unat_small) simp
  have b: "n < 10" if "bit (of_nat slot :: u32) n" for n by (rule small_bit [OF _ that]) (use assms s in simp)
  have h: "drop_bit 10 ?x = drop_bit 10 w"
  proof (rule bit_word_eqI)
    fix n
    have "\<not> bit (of_nat slot :: u32) (10 + n)" using b [of "10 + n"] by auto
    then show "bit (drop_bit 10 ?x) n = bit (drop_bit 10 w) n"
      unfolding bit_drop_bit_eq comp_def bit_or_iff bit_and_iff bit_not_iff small_numeral_bit
      using bit_imp_le_length [of w "10 + n"] by auto
  qed
  have l: "?x AND 0x3FF = of_nat slot"
  proof (rule bit_word_eqI)
    fix n show "bit (?x AND 0x3FF) n = bit (of_nat slot :: u32) n"
      unfolding bit_and_iff bit_or_iff bit_not_iff small_numeral_bit using b [of n] by auto
  qed
  then show e: "ENVX ?x = slot" using s by (simp add: ENVX_def)
  have "(0x3FF :: u32) = mask 10" by (simp add: mask_eq_exp_minus_1)
  then have "take_bit 10 ?x = of_nat slot" using l by (simp add: take_bit_eq_mask)
  then have "unat ?x mod 2 ^ 10 = slot" using s by (metis take_bit_eq_mod unsigned_take_bit_eq)
  moreover have "unat ?x div 2 ^ 10 = unat w div 2 ^ 10" using h by (metis unat_drop_bit_word)
  ultimately show "unat ?x = unat w div 1024 * 1024 + slot"
    using div_mult_mod_eq [of "unat ?x" 1024] by simp
qed

lemma ENVX_less: "ENVX i < NENV"
proof -
  have "(0x3FF :: u32) = mask 10" by (simp add: mask_eq_exp_minus_1)
  then have "i AND 0x3FF = take_bit 10 i" by (simp only: take_bit_eq_mask)
  then have "ENVX i = unat i mod 1024" by (simp add: ENVX_def take_bit_eq_mod unat_mod)
  then show ?thesis by (simp add: NENV_def)
qed

lemma next_id_ok:
  assumes "next_id old slot = Inr i" "slot < NENV"
    and old: "old = 0 \<or> 0 < sint old \<and> ENVX old = slot"
  shows "0 < sint i" "ENVX i = slot" "sint old < sint i"
proof -
  let ?n = "unat old"
  have sn: "slot < 1024" using assms(2) by (simp add: NENV_def)
  have r: "sint old + 4096 < 2 ^ 31" and p: "0 \<le> sint old"
    using assms(1) old by (auto simp: next_id_def ENVGENSHIFT_def in_i32_def)
  note so = unat_sint [OF p]
  have "int (?n + 4096) < int (2 ^ 31)" using r so unfolding of_nat_add by simp
  then have n: "?n + 4096 < 2 ^ 31" by (simp only: of_nat_less_iff)
  have u: "unat (old + 4096) = ?n + 4096"
  proof -
    have "old + 4096 = of_nat (?n + 4096)" by simp
    then show ?thesis using n unat_small [of "?n + 4096"] by simp
  qed
  let ?g = "(old + 4096) AND NOT 0x3FF"
  have "?g OR of_nat 0 = ?g" by simp
  then have ug: "unat ?g = (?n + 4096) div 1024 * 1024" using new_id(1) [of 0 "old + 4096"] u by simp
  also have "\<dots> \<le> ?n + 4096" by (rule div_times_less_eq_dividend)
  finally have "unat ?g < 2 ^ 31" using n by linarith
  then have sg: "sint ?g = int (unat ?g)" by (rule sint_unat)
  have "1 \<le> (?n + 4096) div 1024" by (simp add: div_greater_zero_iff Suc_le_eq)
  then have "0 < int (unat ?g)" unfolding ug of_nat_0_less_iff by simp
  then have "0 < sint ?g" using sg by simp
  then have i: "i = ?g OR of_nat slot"
    using assms(1) by (simp add: next_id_def ENVGENSHIFT_def NENV_def Let_def bindE_Inr_iff)
  show "ENVX i = slot" unfolding i by (rule new_id(2) [OF sn])
  have ui: "unat i = (?n + 4096) div 1024 * 1024 + slot" unfolding i using new_id(1) [OF sn, of "old + 4096"] u by simp
  have m: "?n < unat i \<and> unat i < 2 ^ 31"
  proof (cases "old = 0")
    case True
    then show ?thesis using ui sn by simp
  next
    case False
    then have "ENVX old = slot" using old by simp
    moreover have "unat (old AND 0x3FF) = ?n mod 1024"
    proof -
      have "(0x3FF :: u32) = mask 10" by (simp add: mask_eq_exp_minus_1)
      then have "old AND 0x3FF = take_bit 10 old" by (simp only: take_bit_eq_mask)
      then show ?thesis by (simp add: take_bit_eq_mod unat_mod)
    qed
    ultimately have "slot = ?n mod 1024" by (simp add: ENVX_def)
    moreover have "(?n + 4096) div 1024 * 1024 = ?n div 1024 * 1024 + 4096"
      using div_mult_self1 [of 1024 ?n 4] by simp
    ultimately have "unat i = ?n + 4096" using ui div_mult_mod_eq [of ?n 1024] by simp
    then show ?thesis using n by simp
  qed
  then have "sint i = int (unat i)" by (intro sint_unat) simp
  moreover have "int ?n < int (unat i)" using m by (simp only: of_nat_less_iff)
  ultimately show "0 < sint i" "sint old < sint i" using so p by linarith+
qed

lemma env_alloc_step:
  assumes "env_alloc p s = Inr (r, c, t)" "env_ok s"
  shows "env_ok t \<and> later_ids s t \<and> curenv t = curenv s \<and>
    (r = 0 \<longrightarrow> (\<exists>e. c = Some e \<and> off_list t e \<and> \<not> off_list s e \<and> e < NENV \<and> curenv s \<noteq> Some e \<and>
      sint (env_id (envs s ! e)) < sint (env_id (envs t ! e)) \<and> 0 < sint (env_id (envs t ! e)) \<and>
      ENVX (env_id (envs t ! e)) = e \<and> env_parent_id (envs t ! e) = p \<and> env_status (envs t ! e) = ENV_RUNNABLE \<and>
      (\<forall>i. i \<noteq> e \<longrightarrow> envs t ! i = envs s ! i)))"
proof (cases "env_free_list s")
  case None
  then show ?thesis using assms by (simp add: env_alloc_def E_NO_FREE_ENV_def)
next
  case (Some e)
  obtain xs where xs: "chain (free_link s) (Some e) (e # xs)"
      "\<And>i. i \<in> set (e # xs) \<Longrightarrow> i < NENV \<and> env_status (envs s ! i) = ENV_FREE"
    using assms(2) Some unfolding env_ok_def by (metis chain_Some)
  obtain r1 s1 where v: "env_setup_vm e s = Inr (r1, s1)" using assms(1) Some by (auto simp: env_alloc_def)
  note w = setup_vm_step [OF v]
  show ?thesis
  proof (cases "r1 < 0")
    case True
    then have "env_view s1 = env_view s" using w by simp
    moreover have "t = s1" "r \<noteq> 0" using assms(1) Some v True by (auto simp: env_alloc_def)
    ultimately show ?thesis using same_view [of t s] assms(2) by (simp add: table_step_def)
  next
    case False
    then obtain f where f: "envs s1 = (envs s)[e := f (envs s ! e)]"
        "\<And>b. env_link (f b) = env_link b \<and> env_id (f b) = env_id b \<and> env_status (f b) = env_status b"
      and k: "env_free_list s1 = env_free_list s" "curenv s1 = curenv s" "e < length (envs s)" using w by auto
    define b where "b = f (envs s ! e)"
    have b: "env_id b = env_id (envs s ! e)" "env_link b = env_link (envs s ! e)" using f(2) by (simp_all add: b_def)
    obtain i where i: "next_id (env_id b) e = Inr i"
      and t: "r = 0" "c = Some e" "t = s1\<lparr>envs := (envs s)[e := b\<lparr>env_id := i, env_parent_id := p, env_type := ENV_TYPE_USER,
          env_status := ENV_RUNNABLE, env_runs := 0, env_tf := user_tf, env_pgfault_upcall := 0,
          env_ipc_recving := False\<rparr>], env_free_list := env_link b\<rparr>"
      using assms(1) Some v False k(3) by (auto simp: env_alloc_def f(1) set_env_eq b_def)
    have len: "length (envs s) = NENV" by (rule env_okD [OF assms(2)])
    have e: "e < NENV" using k(3) len by simp
    note id = next_id_ok [OF i e, unfolded b(1), OF env_okD(3) [OF assms(2) e]]
    have et: "envs t ! j = envs s ! j" if "j \<noteq> e" for j using that by (simp add: t)
    have ee: "env_id (envs t ! e) = i" "env_parent_id (envs t ! e) = p" "env_status (envs t ! e) = ENV_RUNNABLE"
      using k(3) by (simp_all add: t)
    have d: "e \<notin> set xs" using chain_distinct [OF xs(1)] by simp
    have "chain (free_link s) (free_link s e) xs" using xs(1) by simp
    then have c: "chain (free_link t) (env_free_list t) xs"
    proof -
      have "free_link t x = free_link s x" if "x \<in> set xs" for x
        using that d et [of x] by (metis free_link_def)
      moreover have "env_free_list t = free_link s e" using b(2) by (simp add: t free_link_def)
      ultimately show ?thesis using \<open>chain (free_link s) (free_link s e) xs\<close> chain_cong [of xs "free_link t" "free_link s"] by simp
    qed
    have o: "off_list t j = (j = e \<or> off_list s j)" for j
    proof -
      have "chain (free_link s) (env_free_list s) (e # xs)" using xs(1) Some by simp
      then show ?thesis using off_list_chain [OF c, of j] off_list_chain [of s "e # xs" j] d e by auto
    qed
    have ne: "\<not> off_list s e" using off_list_chain [of s "e # xs" e] xs(1) Some by simp
    have ce: "curenv s \<noteq> Some e" using ne env_okD(2) [OF assms(2)] by auto
    have "env_ok t"
      unfolding env_ok_def
    proof (intro conjI allI impI)
      show "length (envs t) = NENV" using len by (simp add: t)
      show "\<exists>xs. chain (free_link t) (env_free_list t) xs \<and> (\<forall>j \<in> set xs. j < NENV \<and> env_status (envs t ! j) = ENV_FREE)"
      proof (intro exI conjI ballI)
        fix j assume "j \<in> set xs"
        then show "j < NENV" "env_status (envs t ! j) = ENV_FREE" using xs(2) [of j] d et [of j] by (metis list.set_intros(2))+
      qed (rule c)
      show "off_list t c" if "curenv t = Some c" for c using that o env_okD(2) [OF assms(2)] k(2) by (simp add: t)
      show "env_id (envs t ! j) = 0 \<or> 0 < sint (env_id (envs t ! j)) \<and> ENVX (env_id (envs t ! j)) = j" if "j < NENV" for j
        using that env_okD(3) [OF assms(2) that] id et ee by (cases "j = e") simp_all
    qed
    moreover have "later_ids s t" using et ee id by (simp add: later_ids_def) (metis less_imp_le order_refl)
    moreover have "curenv t = curenv s" by (simp add: t k)
    ultimately show ?thesis using o ne ce e id ee et by (simp add: t)
  qed
qed

lemma env_free_step:
  assumes "env_free e s = Inr t" "off_list s e" "env_ok s"
  shows "curenv t = curenv s \<and> (curenv s \<noteq> Some e \<longrightarrow> env_ok t) \<and> env_ok (t\<lparr>curenv := None\<rparr>) \<and> later_ids s t"
proof -
  obtain pgdir s1 s2 p s3 s4 where m: "free_pdes (PDX UTOP) pgdir 0 s = Inr s1"
    "set_env e (\<lambda>b. b\<lparr>env_pgdir := None\<rparr>) s1 = Inr s2" "page_decref p s2 = Inr s3"
    and s4: "set_env e (\<lambda>b. b\<lparr>env_status := ENV_FREE, env_link := env_free_list s3\<rparr>) s3 = Inr s4"
    and t: "t = s4\<lparr>env_free_list := Some e\<rparr>"
    using assms(1) by (auto simp: env_free_def)
  have v1: "env_view s1 = env_view s" by (rule ev.free_pdes [OF m(1)])
  have o1: "off_list s1 e" using assms(2) by (simp add: same_view(2) [OF v1])
  have k2: "table_step s1 s2" "off_list s2 j = off_list s1 j" "curenv s2 = curenv s1" for j
    using set_env_step(1,2,3) [OF m(2) o1] by simp_all
  have v3: "env_view s3 = env_view s2" by (rule ev.page_decref [OF m(3)])
  have ok: "env_ok s3" "off_list s3 e" "curenv s3 = curenv s"
    using k2 same_view [OF v1] same_view [OF v3] assms(2,3) by (simp_all add: table_step_def)
  have "table_step s s3" 
    by (rule table_step_trans [OF same_view(1) [OF v1] table_step_trans [OF k2(1) same_view(1) [OF v3]]])
  then have later: "later_ids s s3" using assms(3) by (simp add: table_step_def)
  have e: "e < NENV" "e < length (envs s3)" using ok(2) s4 by (simp_all add: off_list_def set_env_eq)
  obtain xs where xs: "chain (free_link s3) (env_free_list s3) xs" "\<And>i. i \<in> set xs \<Longrightarrow> i < NENV \<and> env_status (envs s3 ! i) = ENV_FREE"
    using ok(1) by (auto simp: env_ok_def)
  have d: "e \<notin> set xs" using ok(2) xs(1) by (auto simp: off_list_def)
  have t': "t = s3\<lparr>envs := (envs s3)[e := (envs s3 ! e)\<lparr>env_status := ENV_FREE, env_link := env_free_list s3\<rparr>], env_free_list := Some e\<rparr>"
    using s4 t by (simp add: set_env_eq)
  have l: "free_link t = (free_link s3)(e := env_free_list s3)" using e(2) by (auto simp: fun_eq_iff free_link_def t')
  have c: "chain (free_link t) (env_free_list t) (e # xs)" using chain_push [OF xs(1) d] by (simp only: l) (simp add: t')
  have o: "off_list t j = (j \<noteq> e \<and> off_list s3 j)" for j
  proof -
    show ?thesis using off_list_chain [OF c, of j] off_list_chain [OF xs(1), of j] by auto
  qed
  have ids: "env_id (envs t ! j) = env_id (envs s3 ! j)" for j using e(2) by (cases "j = e") (simp_all add: t')
  have cur: "curenv t = curenv s" using ok(3) by (simp add: t')
  have base: "length (envs t) = NENV \<and> (\<exists>xs. chain (free_link t) (env_free_list t) xs \<and> (\<forall>j \<in> set xs. j < NENV \<and> env_status (envs t ! j) = ENV_FREE)) \<and>
    (\<forall>i < NENV. env_id (envs t ! i) = 0 \<or> 0 < sint (env_id (envs t ! i)) \<and> ENVX (env_id (envs t ! i)) = i)"
  proof (intro conjI)
    show "length (envs t) = NENV" using env_okD(1) [OF ok(1)] by (simp add: t')
    have "env_status (envs t ! j) = ENV_FREE" if "j \<in> set (e # xs)" for j
      using that xs(2) e(2) by (cases "j = e") (simp_all add: t')
    then show "\<exists>xs. chain (free_link t) (env_free_list t) xs \<and> (\<forall>j \<in> set xs. j < NENV \<and> env_status (envs t ! j) = ENV_FREE)"
      using c e(1) xs(2) by (intro exI [of _ "e # xs"]) auto
  qed (use env_okD(3) [OF ok(1)] ids in simp)
  have n: "env_ok (t\<lparr>curenv := None\<rparr>)" using base by (simp add: env_ok_def free_link_def [abs_def])
  have "env_ok t" if "curenv s \<noteq> Some e"
  proof -
    have "off_list t c" if "curenv t = Some c" for c
      using that o \<open>curenv s \<noteq> Some e\<close> env_okD(2) [OF ok(1)] ok(3) cur by auto
    then show ?thesis using base by (simp add: env_ok_def)
  qed
  then show ?thesis using n cur ids later by (simp add: later_ids_def)
qed

section \<open>Steps that keep the table\<close>

definition steady :: "jos \<Rightarrow> jos \<Rightarrow> bool" where
  "steady s t \<longleftrightarrow> env_ok t \<and> later_ids s t \<and> curenv t = curenv s"

definition calm :: "jos \<Rightarrow> ('a \<times> jos) c \<Rightarrow> bool" where
  "calm s m \<longleftrightarrow> (\<forall>r t. m = Inr (r, t) \<longrightarrow> steady s t)"

text \<open>The same for a call that may not come back: only if it does, the environment is the same.\<close>

definition good :: "jos \<Rightarrow> (flow \<times> jos) c \<Rightarrow> bool" where
  "good s m \<longleftrightarrow> (\<forall>fl t. m = Inr (fl, t) \<longrightarrow>
     env_ok t \<and> later_ids s t \<and> (\<forall>r. fl = Returns r \<longrightarrow> curenv t = curenv s))"

lemma steady_refl: "env_ok s \<Longrightarrow> steady s s"
  by (simp add: steady_def)

lemma steady_trans: "steady s t \<Longrightarrow> steady t u \<Longrightarrow> steady s u"
  by (auto simp: steady_def intro: later_ids_trans)

lemma steady_ok: "steady s t \<Longrightarrow> env_ok t"
  by (simp add: steady_def)

lemma steady_view: "env_view t = env_view s \<Longrightarrow> env_ok s \<Longrightarrow> steady s t"
  using same_view [of t s] by (simp add: steady_def table_step_def)

lemma steady_set_env:
  assumes "set_env i f s = Inr t" "off_list s i" "env_ok s"
    and "\<And>b. env_link (f b) = env_link b" "\<And>b. env_id (f b) = env_id b"
  shows "steady s t"
  using set_env_step [OF assms(1,2,4,5)] assms(3) by (simp add: steady_def table_step_def)

lemma calm_Inr: "steady s t \<Longrightarrow> calm s (Inr (r, t))"
  by (simp add: calm_def)

lemma calm_Inl: "calm s (Inl e)"
  by (simp add: calm_def)

lemma calm_bind: "(\<And>x. m = Inr x \<Longrightarrow> calm s (f x)) \<Longrightarrow> calm s (bindE m f)"
  by (auto simp: calm_def)

lemma calm_after: "steady s t \<Longrightarrow> calm t m \<Longrightarrow> calm s m"
  by (auto simp: calm_def intro: steady_trans)

lemma good_Returns: "steady s t \<Longrightarrow> good s (Inr (Returns r, t))"
  by (simp add: good_def steady_def)

lemma good_Inl: "good s (Inl e)"
  by (simp add: good_def)

lemma good_bind: "(\<And>x. m = Inr x \<Longrightarrow> good s (f x)) \<Longrightarrow> good s (bindE m f)"
  by (auto simp: good_def)

lemma good_ret: "calm s m \<Longrightarrow> good s (ret m)"
  by (auto simp: good_def calm_def ret_def steady_def)

lemma good_after: "steady s t \<Longrightarrow> good t m \<Longrightarrow> good s m"
  by (fastforce simp: good_def steady_def intro: later_ids_trans)

lemma good_later: "later_ids s t \<Longrightarrow> (\<And>fl u. m = Inr (fl, u) \<Longrightarrow> \<forall>r. fl \<noteq> Returns r) \<Longrightarrow> good t m \<Longrightarrow> good s m"
  by (fastforce simp: good_def intro: later_ids_trans)

lemma good_continue:
  assumes "good s m" "\<And>r t. m = Inr (Returns r, t) \<Longrightarrow> steady s t \<Longrightarrow> good t (f r t)"
  shows "good s (continue m f)"
proof (cases m)
  case (Inl e)
  then show ?thesis by (simp add: good_Inl)
next
  case (Inr x)
  obtain fl t where m: "m = Inr (fl, t)" using Inr by (cases x) simp
  show ?thesis
  proof (cases fl)
    case (Returns r)
    then have "steady s t" using assms(1) m by (simp add: good_def steady_def)
    then show ?thesis using assms(2) m Returns by (auto intro: good_after)
  qed (use assms(1) m in \<open>simp_all add: good_def\<close>)
qed

section \<open>Giving up the CPU\<close>

lemma env_ok_curenv: "env_ok s \<Longrightarrow> off_list s e \<Longrightarrow> env_ok (s\<lparr>curenv := Some e\<rparr>)"
  by (simp add: env_ok_def off_list_def free_link_def [abs_def])

lemma env_ok_no_curenv: "env_ok s \<Longrightarrow> env_ok (s\<lparr>curenv := None\<rparr>)"
  by (simp add: env_ok_def off_list_def free_link_def [abs_def])

lemma env_run_step:
  assumes "env_run e s = Inr t" "env_ok s" "off_list s e"
  shows "env_ok t \<and> later_ids s t \<and> curenv t = Some e"
proof (cases "curenv s = Some e")
  case True
  then show ?thesis using assms by (simp add: env_run_def)
next
  case False
  obtain s1 where s1: "steady s s1" "off_list s1 e"
    and t: "bindE (rd (envs s1) e) (\<lambda>b. Inr (s1\<lparr>curenv := Some e,
       envs := (envs s1)[e := b\<lparr>env_status := ENV_RUNNING, env_runs := env_runs b + 1\<rparr>]\<rparr>)) = Inr t"
  proof (cases "curenv s")
    case None
    then show ?thesis using assms that [of s] by (simp add: env_run_def steady_refl)
  next
    case (Some c)
    have c: "off_list s c" by (rule env_okD(2) [OF assms(2) Some])
    show ?thesis
    proof (cases "c < length (envs s) \<and> env_status (envs s ! c) = ENV_RUNNING")
      case True
      have se: "set_env c (\<lambda>b. b\<lparr>env_status := ENV_RUNNABLE\<rparr>) s =
          Inr (s\<lparr>envs := (envs s)[c := (envs s ! c)\<lparr>env_status := ENV_RUNNABLE\<rparr>]\<rparr>)"
        using True by (simp add: set_env_eq)
      show ?thesis
      proof (rule that)
        show "steady s (s\<lparr>envs := (envs s)[c := (envs s ! c)\<lparr>env_status := ENV_RUNNABLE\<rparr>]\<rparr>)"
          by (rule steady_set_env [OF se c assms(2)]) simp_all
        show "off_list (s\<lparr>envs := (envs s)[c := (envs s ! c)\<lparr>env_status := ENV_RUNNABLE\<rparr>]\<rparr>) e"
          using set_env_step(2) [OF se c] assms(3) by simp
      qed (use assms(1) False Some True in \<open>simp add: env_run_def\<close>)
    next
      case no: False
      then show ?thesis using assms False Some that [of s]
        by (auto simp: env_run_def steady_refl rd_Inr_iff)
    qed
  qed
  have e: "e < length (envs s1)" using t by (auto simp: rd_Inr_iff)
  let ?u = "s1\<lparr>envs := (envs s1)[e := (envs s1 ! e)\<lparr>env_status := ENV_RUNNING, env_runs := env_runs (envs s1 ! e) + 1\<rparr>]\<rparr>"
  have se: "set_env e (\<lambda>b. b\<lparr>env_status := ENV_RUNNING, env_runs := env_runs b + 1\<rparr>) s1 = Inr ?u"
    using e by (simp add: set_env_eq)
  have u: "steady s1 ?u" by (rule steady_set_env [OF se s1(2) steady_ok [OF s1(1)]]) simp_all
  have o: "off_list ?u e" using set_env_step(2) [OF se s1(2)] s1(2) by simp
  have t2: "t = ?u\<lparr>curenv := Some e\<rparr>" using t e by (intro jos.equality) auto
  have "later_ids s ?u" using s1(1) u by (auto simp: steady_def intro: later_ids_trans)
  then have "later_ids s t" by (simp add: t2 later_ids_def)
  then show ?thesis using env_ok_curenv [OF steady_ok [OF u] o] by (simp add: t2)
qed

lemma sched_scan_runnable:
  "sched_scan k i c es = Inr (Some e) \<Longrightarrow> e < NENV \<and> env_status (es ! e) = ENV_RUNNABLE"
proof (induction k arbitrary: i)
  case (Suc k)
  then show ?case by (auto simp: Let_def NENV_def rd_Inr_iff split: if_splits)
qed simp

lemma sched_yield_off_list:
  assumes "sched_yield s = Inr (Some e)" "env_ok s"
  shows "off_list s e"
proof -
  obtain cur r where r: "sched_scan NENV 0 cur (envs s) = Inr r"
    and e: "(case (r, curenv s) of (None, Some c) \<Rightarrow> bindE (rd (envs s) c) (\<lambda>b.
        Inr (if env_status b = ENV_RUNNING then Some c else None)) | _ \<Rightarrow> Inr r) = Inr (Some e)"
    using assms(1) by (auto simp: sched_yield_def)
  show ?thesis
  proof (cases r)
    case None
    then have "curenv s = Some e" using e by (auto split: option.splits if_splits)
    then show ?thesis by (rule env_okD(2) [OF assms(2)])
  next
    case (Some e')
    then have "e < NENV \<and> env_status (envs s ! e) = ENV_RUNNABLE" using e r sched_scan_runnable by simp
    then show ?thesis by (intro used_off_list [OF assms(2)]) (simp_all add: env_status_defs)
  qed
qed

lemma yield_never_returns: "yield_cpu s = Inr (fl, t) \<Longrightarrow> fl \<noteq> Returns r"
  by (auto simp: yield_cpu_def sched_halt_def split: option.splits if_splits)

lemma good_yield:
  assumes "env_ok s"
  shows "good s (yield_cpu s)"
  unfolding good_def
proof (intro allI impI)
  fix fl t assume y: "yield_cpu s = Inr (fl, t)"
  have "env_ok t \<and> later_ids s t"
  proof (cases "sched_yield s")
    case (Inr r)
    show ?thesis
    proof (cases r)
      case None
      then show ?thesis using y Inr assms env_ok_no_curenv [OF assms]
        by (auto simp: yield_cpu_def sched_halt_def later_ids_def split: if_splits)
    next
      case (Some e)
      then have "off_list s e" using sched_yield_off_list [OF _ assms] Inr by simp
      then show ?thesis using y Inr Some env_run_step [OF _ assms] by (auto simp: yield_cpu_def)
    qed
  qed (use y in \<open>simp add: yield_cpu_def\<close>)
  then show "env_ok t \<and> later_ids s t \<and> (\<forall>r. fl = Returns r \<longrightarrow> curenv t = curenv s)"
    using yield_never_returns [OF y] by simp
qed

lemma good_destroy:
  assumes ok: "env_ok s" and e: "off_list s e"
  shows "good s (env_destroy e s)"
  unfolding env_destroy_def
proof (rule good_bind)
  fix b assume "rd (envs s) e = Inr b"
  show "good s (if env_status b = ENV_RUNNING \<and> curenv s \<noteq> Some e
     then bindE (set_env e (\<lambda>b. b\<lparr>env_status := ENV_DYING\<rparr>) s) (\<lambda>s. Inr (Returns 0, s))
     else bindE (env_destroy_cleanup (env_id b) s) (\<lambda>s. bindE (env_free e s) (\<lambda>s.
          if curenv s = Some e then yield_cpu (s\<lparr>curenv := None\<rparr>) else Inr (Returns 0, s))))"
  proof (cases "env_status b = ENV_RUNNING \<and> curenv s \<noteq> Some e")
    case True
    have "good s (bindE (set_env e (\<lambda>b. b\<lparr>env_status := ENV_DYING\<rparr>) s) (\<lambda>s. Inr (Returns 0, s)))"
      by (rule good_bind, rule good_Returns, erule steady_set_env [OF _ e ok]) simp_all
    with True show ?thesis by simp
  next
    case False
    have "good s (bindE (env_destroy_cleanup (env_id b) s) (\<lambda>s. bindE (env_free e s) (\<lambda>s.
          if curenv s = Some e then yield_cpu (s\<lparr>curenv := None\<rparr>) else Inr (Returns 0, s))))"
    proof (intro good_bind)
      fix s1 s2
      assume c: "env_destroy_cleanup (env_id b) s = Inr s1" and f: "env_free e s1 = Inr s2"
      have v: "env_view s1 = env_view s" by (rule ev.cleanup [OF c])
      have st: "steady s s1" by (rule steady_view [OF v ok])
      have "off_list s1 e" using e by (simp add: same_view(2) [OF v])
      note fr = env_free_step [OF f this steady_ok [OF st]]
      show "good s (if curenv s2 = Some e then yield_cpu (s2\<lparr>curenv := None\<rparr>) else Inr (Returns 0, s2))"
      proof (cases "curenv s2 = Some e")
        case True
        have l: "later_ids s (s2\<lparr>curenv := None\<rparr>)"
          using fr st later_ids_trans [of s s1 s2] by (simp add: steady_def later_ids_def)
        have "good s (yield_cpu (s2\<lparr>curenv := None\<rparr>))"
          by (rule good_later [OF l _ good_yield]) (use yield_never_returns fr in blast)+
        with True show ?thesis by simp
      next
        case False
        then have "steady s1 s2" using fr by (simp add: steady_def)
        then show ?thesis using False st by (auto intro: good_Returns steady_trans)
      qed
    qed
    then show ?thesis unfolding if_not_P [OF False] .
  qed
qed

lemma good_user_mem_assert:
  assumes "env_ok s" "off_list s e"
  shows "good s (user_mem_assert e va len perm s)"
  unfolding user_mem_assert_def
  by (rule good_bind) (auto split: option.splits intro: good_Returns steady_refl good_destroy assms)

end
