(* ===== verification/JosSyscallProofs.thy ===== *)
theory JosSyscallProofs
  imports JosSyscall JosEnvProofs
begin

text \<open>
  Every system call and every trap keeps the table of environments good; runs of the kernel.
\<close>

section \<open>The system calls keep the table\<close>

lemma cons_intr_view: "cons_intr cs s = Inr t \<Longrightarrow> env_view t = env_view s"
proof (induction cs arbitrary: s)
  case (Cons a cs)
  then show ?case by (auto simp: env_view_def split: if_splits)
qed simp

lemma cons_getc_view: "cons_getc s = Inr (r, t) \<Longrightarrow> env_view t = env_view s"
proof -
  assume g: "cons_getc s = Inr (r, t)"
  then obtain s1 s2 where i: "serial_intr s = Inr s1" "kbd_intr s1 = Inr s2" and t: "env_view t = env_view s2"
    by (auto simp: cons_getc_def env_view_def split: if_splits)
  have "env_view s1 = env_view s" "env_view s2 = env_view s1"
    using i cons_intr_view by (fastforce simp: serial_intr_def kbd_intr_def env_view_def)+
  with t show ?thesis by simp
qed

lemma print_string_view: "print_string n l pgdir p s = Inr t \<Longrightarrow> env_view t = env_view s"
proof (induction n arbitrary: p s)
  case (Suc n)
  then show ?case by (auto simp: env_view_def split: if_splits)
qed (simp split: if_splits)

lemma print_user_view: "print_user p len s = Inr t \<Longrightarrow> env_view t = env_view s"
  by (auto simp: print_user_def env_view_def split: if_splits dest!: print_string_view)

lemma calm_view: "env_ok s \<Longrightarrow> (\<And>r t. m = Inr (r, t) \<Longrightarrow> env_view t = env_view s) \<Longrightarrow> calm s m"
  by (auto simp: calm_def intro: steady_view)

lemma envid2env_err: "envid2env i p s = Inr (r, e) \<Longrightarrow> \<not> r < 0 \<Longrightarrow> r = 0"
  using envid2env_result [of i p s r e] by (auto simp: E_BAD_ENV_def)

lemma good_cputs:
  assumes "env_ok s"
  shows "good s (sys_cputs p len s)"
  unfolding sys_cputs_def
proof (intro good_bind)
  fix c re e
  assume "envid2env (env_id c) True s = Inr re"
  then obtain r e0 where re: "re = (r, e0)" "envid2env (env_id c) True s = Inr (r, e0)" by (cases re) simp
  show "good s (case re of (r, e) \<Rightarrow> bindE (deref e) (\<lambda>e. continue (user_mem_assert e p len PTE_U s) (\<lambda>_ s.
     bindE (print_user p len s) (\<lambda>s. Inr (Returns 0, s)))))"
    unfolding re prod.case
  proof (rule good_bind)
    fix e assume "deref e0 = Inr e"
    then have e0: "e0 = Some e" by (simp add: deref_iff)
    then have "r = 0" using envid2env_result [OF re(2)] by simp
    with re(2) e0 have "off_list s e" using envid2env_off_list [OF assms] by blast
    then have g: "good s (user_mem_assert e p len PTE_U s)" by (rule good_user_mem_assert [OF assms])
    show "good s (continue (user_mem_assert e p len PTE_U s) (\<lambda>_ s. bindE (print_user p len s) (\<lambda>s. Inr (Returns 0, s))))"
      by (rule good_continue [OF g], rule good_bind, rule good_Returns)
        (auto intro: steady_view steady_ok dest: print_user_view)
  qed
qed

lemma good_env_destroy_call:
  assumes "env_ok s"
  shows "good s (sys_env_destroy i s)"
  unfolding sys_env_destroy_def
proof (rule good_bind)
  fix re assume "envid2env i True s = Inr re"
  then obtain r e0 where re: "re = (r, e0)" "envid2env i True s = Inr (r, e0)" by (cases re) simp
  have "good s (bindE (deref e0) (\<lambda>e. continue (env_destroy e s) (\<lambda>_ s. Inr (Returns 0, s))))" if "\<not> r < 0"
  proof (rule good_bind)
    fix e assume "deref e0 = Inr e"
    then have "off_list s e" using re(2) envid2env_err [OF re(2) that] envid2env_off_list [OF assms] by (auto simp: deref_iff)
    then show "good s (continue (env_destroy e s) (\<lambda>_ s. Inr (Returns 0, s)))"
      by (intro good_continue [OF good_destroy [OF assms]] good_Returns) (auto intro: steady_refl steady_ok)
  qed
  then show "good s (case re of (r, e) \<Rightarrow> if r < 0 then Inr (Returns r, s)
      else bindE (deref e) (\<lambda>e. continue (env_destroy e s) (\<lambda>_ s. Inr (Returns 0, s))))"
    using assms by (auto simp: re intro: good_Returns steady_refl)
qed

lemma calm_on_env:
  assumes "env_ok s" "\<And>b. env_link (f b) = env_link b" "\<And>b. env_id (f b) = env_id b"
  shows "calm s (on_env i f s)"
  unfolding calm_def
proof (intro allI impI)
  fix r t assume o: "on_env i f s = Inr (r, t)"
  show "steady s t"
  proof (cases "t = s")
    case False
    then obtain e where "envid2env i True s = Inr (0, Some e)" "set_env e f s = Inr t"
      using o by (auto simp: on_env_def deref_iff split: if_splits)
    then show ?thesis using assms envid2env_off_list by (blast intro: steady_set_env)
  qed (simp add: steady_refl assms)
qed

lemma calm_exofork:
  assumes "env_ok s"
  shows "calm s (sys_exofork s)"
  unfolding calm_def
proof (intro allI impI)
  fix r t assume x: "sys_exofork s = Inr (r, t)"
  define rest where "rest err ch s1 = (if err \<noteq> 0 then Inr (err, s1) else bindE (deref ch) (\<lambda>child. bindE (cur_env s1) (\<lambda>c.
      bindE (set_env child (\<lambda>b. b\<lparr>env_status := ENV_NOT_RUNNABLE, env_tf := set_eax 0 (env_tf c)\<rparr>) s1) (\<lambda>s.
      bindE (rd (envs s) child) (\<lambda>b. Inr (sint (env_id b), s))))))" for err ch s1
  have "bindE (cur_env s) (\<lambda>c. bindE (env_alloc (env_id c) s) (\<lambda>(err, ch, s1). rest err ch s1)) = Inr (r, t)"
    using x by (simp add: sys_exofork_def rest_def)
  then obtain c :: env and err ch s1 where a: "env_alloc (env_id c) s = Inr (err, ch, s1)" and "rest err ch s1 = Inr (r, t)"
    by auto
  note k = this(2) [unfolded rest_def]
  note st = env_alloc_step [OF a assms]
  then have s1: "steady s s1" by (simp add: steady_def)
  show "steady s t"
  proof (cases "err = 0")
    case True
    then obtain e where e: "ch = Some e" "off_list s1 e" using st by auto
    then obtain c' :: env where "set_env e (\<lambda>b. b\<lparr>env_status := ENV_NOT_RUNNABLE, env_tf := set_eax 0 (env_tf c')\<rparr>) s1 = Inr t"
      using k True by (auto simp: deref_iff)
    then have "steady s1 t" using e(2) steady_ok [OF s1] by (rule steady_set_env) simp_all
    with s1 show ?thesis by (rule steady_trans)
  qed (use k s1 in auto)
qed

lemma calm_set_trapframe:
  assumes "env_ok s"
  shows "calm s (sys_env_set_trapframe i tf s)"
  unfolding calm_def
proof (intro allI impI)
  fix r t assume x: "sys_env_set_trapframe i tf s = Inr (r, t)"
  show "steady s t"
  proof (cases "t = s")
    case False
    then obtain e s1 s2 fr where e: "envid2env i True s = Inr (0, Some e)"
      and v: "env_view s2 = env_view s" and se: "set_env e (\<lambda>b. b\<lparr>env_tf := fr\<rparr>) s2 = Inr t"
      using x by (auto simp: sys_env_set_trapframe_def deref_iff split: if_splits dest!: ev.store32 ev.store16)
    have "steady s s2" by (rule steady_view [OF v assms])
    moreover have "off_list s2 e" using envid2env_off_list [OF assms e] by (simp add: same_view(2) [OF v])
    then have "steady s2 t" using se calculation by (intro steady_set_env [OF se]) (simp_all add: steady_def)
    ultimately show ?thesis by (rule steady_trans)
  qed (simp add: steady_refl assms)
qed

lemma calm_page_calls:
  assumes "env_ok s"
  shows "calm s (sys_page_alloc i va p s)" "calm s (sys_page_map i va j wa p s)" "calm s (sys_page_unmap i va s)"
  by (rule calm_view [OF assms],
      auto simp: sys_page_alloc_def sys_page_map_def sys_page_unmap_def split: if_splits option.splits
        dest!: ev.page_alloc ev.page_insert ev.page_free ev.on_page_alloc ev.page_lookup ev.page_remove)+

lemma send_page_calm:
  assumes "env_ok s" "off_list s dst" "send_page dst va p s = Inr (r, t)"
  shows "steady s t \<and> off_list t dst"
proof -
  have "env_view t = env_view s \<or> (\<exists>u. env_view u = env_view s \<and> set_env dst (\<lambda>b. b\<lparr>env_ipc_perm := p\<rparr>) u = Inr t)"
    using assms(3) by (auto simp: send_page_def split: if_splits option.splits dest!: ev.page_lookup ev.page_insert)
  then show ?thesis
  proof (elim disjE exE conjE)
    assume v: "env_view t = env_view s"
    show ?thesis using steady_view [OF v assms(1)] assms(2) by (simp add: same_view(2) [OF v])
  next
    fix u assume v: "env_view u = env_view s" and se: "set_env dst (\<lambda>b. b\<lparr>env_ipc_perm := p\<rparr>) u = Inr t"
    have u: "steady s u" by (rule steady_view [OF v assms(1)])
    have o: "off_list u dst" using assms(2) by (simp add: same_view(2) [OF v])
    have "steady u t" using u by (intro steady_set_env [OF se o]) (simp_all add: steady_def)
    then show ?thesis using u set_env_step(2) [OF se o] o by (auto intro: steady_trans)
  qed
qed

lemma calm_send:
  assumes "env_ok s"
  shows "calm s (sys_ipc_try_send i v va p s)"
  unfolding calm_def
proof (intro allI impI)
  fix r t assume x: "sys_ipc_try_send i v va p s = Inr (r, t)"
  show "steady s t"
  proof (cases "t = s")
    case False
    define deliver where "deliver e s = bindE (cur_env s) (\<lambda>c.
               bindE (set_env e (\<lambda>b. b\<lparr>env_ipc_recving := False, env_ipc_from := env_id c, env_ipc_value := v,
                   env_status := ENV_RUNNABLE, env_tf := set_eax 0 (env_tf b)\<rparr>) s) (\<lambda>s. Inr (0 :: int, s)))" for e s
    define page where "page e s1 = (if va < UTOP then send_page e va p s1 else Inr (0, s1))" for e s1
    have "bindE (envid2env i False s) (\<lambda>(err, e). if err \<noteq> 0 then Inr (err, s)
      else bindE (deref e) (\<lambda>dst. bindE (rd (envs s) dst) (\<lambda>d. if \<not> env_ipc_recving d then Inr (- E_IPC_NOT_RECV, s)
      else bindE (set_env dst (\<lambda>b. b\<lparr>env_ipc_perm := 0\<rparr>) s) (\<lambda>s.
          bindE (page dst s) (\<lambda>(err, s). if err \<noteq> 0 then Inr (err, s) else deliver dst s))))) = Inr (r, t)"
      using x unfolding sys_ipc_try_send_def deliver_def page_def .
    with False obtain e s1 err s2 where e: "envid2env i False s = Inr (0, Some e)"
      and s1: "set_env e (\<lambda>b. b\<lparr>env_ipc_perm := 0\<rparr>) s = Inr s1" and "page e s1 = Inr (err, s2)"
      and "t = s2 \<or> deliver e s2 = Inr (r, t)"
      by (auto simp: deref_iff split: if_splits)
    then have s2: "(if va < UTOP then send_page e va p s1 else Inr (0, s1)) = Inr (err, s2)"
      and k: "t = s2 \<or> (\<exists>c :: env. set_env e (\<lambda>b. b\<lparr>env_ipc_recving := False, env_ipc_from := env_id c, env_ipc_value := v,
                   env_status := ENV_RUNNABLE, env_tf := set_eax 0 (env_tf b)\<rparr>) s2 = Inr t)"
      by (auto simp: page_def deliver_def)
    have o: "off_list s e" by (rule envid2env_off_list [OF assms e])
    have st1: "steady s s1" using o assms by (intro steady_set_env [OF s1]) simp_all
    have o1: "off_list s1 e" using set_env_step(2) [OF s1 o] o by simp
    have st2: "steady s1 s2 \<and> off_list s2 e"
    proof (cases "va < UTOP")
      case True
      then have "send_page e va p s1 = Inr (err, s2)" using s2 by simp
      then show ?thesis using send_page_calm [OF steady_ok [OF st1] o1] by blast
    qed (use s2 o1 steady_refl [OF steady_ok [OF st1]] in simp)
    have "steady s2 t" using k
    proof (elim disjE exE)
      assume "t = s2" then show ?thesis using st2 by (auto intro: steady_refl steady_ok)
    next
      fix c :: env assume "set_env e (\<lambda>b. b\<lparr>env_ipc_recving := False, env_ipc_from := env_id c, env_ipc_value := v,
                   env_status := ENV_RUNNABLE, env_tf := set_eax 0 (env_tf b)\<rparr>) s2 = Inr t"
      then show ?thesis by (rule steady_set_env) (use st2 in \<open>auto intro: steady_ok\<close>)
    qed
    then show ?thesis using st1 st2 by (blast intro: steady_trans)
  qed (simp add: steady_refl assms)
qed

lemma good_recv:
  assumes "env_ok s"
  shows "good s (sys_ipc_recv va s)"
proof (cases "va < UTOP \<and> va \<noteq> ROUNDDOWN va PGSIZE")
  case True
  then show ?thesis using assms by (simp add: sys_ipc_recv_def good_Returns steady_refl)
next
  case False
  have "good s (bindE (deref (curenv s)) (\<lambda>c.
      bindE (set_env c (\<lambda>b. b\<lparr>env_ipc_recving := True, env_status := ENV_NOT_RUNNABLE, env_ipc_dstva := va\<rparr>) s)
        (\<lambda>s. continue (sys_yield s) (\<lambda>_ s. Inr (Returns 0, s)))))"
  proof (intro good_bind)
    fix c t assume c: "deref (curenv s) = Inr c"
      and se: "set_env c (\<lambda>b. b\<lparr>env_ipc_recving := True, env_status := ENV_NOT_RUNNABLE, env_ipc_dstva := va\<rparr>) s = Inr t"
    have st: "steady s t"
      by (rule steady_set_env [OF se _ assms]) (use c env_okD(2) [OF assms] in \<open>simp_all add: deref_iff\<close>)
    show "good s (continue (sys_yield t) (\<lambda>_ s. Inr (Returns 0, s)))"
      by (rule good_after [OF st], rule good_continue)
        (use st in \<open>auto simp: sys_yield_def intro: good_yield steady_ok good_Returns steady_refl\<close>)
  qed
  then show ?thesis unfolding sys_ipc_recv_def if_not_P [OF False] .
qed

lemma good_if: "(b \<Longrightarrow> good s m) \<Longrightarrow> (\<not> b \<Longrightarrow> good s m') \<Longrightarrow> good s (if b then m else m')"
  by simp

lemma good_syscall:
  assumes "env_ok s"
  shows "good s (syscall n a1 a2 a3 a4 a5 s)"
proof -
  have g: "good s (sys_yield s)" by (simp add: sys_yield_def good_yield assms)
  have k: "calm s (on_env i (\<lambda>b. b\<lparr>env_status := x\<rparr>) s)" "calm s (on_env i (\<lambda>b. b\<lparr>env_pgfault_upcall := x\<rparr>) s)" for i x
    by (rule calm_on_env [OF assms]; simp)+
  have c: "calm s (sys_cgetc s)" "calm s (sys_getenvid s)" "calm s (sys_test_call a1 s)"
    by (rule calm_view [OF assms], auto simp: sys_cgetc_def sys_getenvid_def sys_test_call_def dest: cons_getc_view)+
  have v: "good s (continue m (\<lambda>_ s. Inr (Returns 0, s)))" if "good s m" for m
    by (rule good_continue [OF that]) (auto intro: good_Returns steady_refl steady_ok)
  show ?thesis
    unfolding syscall_def sys_env_set_status_def sys_env_set_pgfault_upcall_def
    by (intro good_if v good_ret good_cputs good_env_destroy_call g c calm_exofork
        calm_set_trapframe calm_page_calls calm_send good_recv k assms good_Returns steady_refl)
qed

section \<open>Traps keep the table\<close>

lemma good_set_env:
  assumes "curenv s = Some c" "env_ok s"
    and "\<And>b. env_link (f b) = env_link b" "\<And>b. env_id (f b) = env_id b"
    and "\<And>t. steady s t \<Longrightarrow> good t (m t)"
  shows "good s (bindE (set_env c f s) m)"
proof (rule good_bind)
  fix t assume "set_env c f s = Inr t"
  then have "steady s t" by (rule steady_set_env [OF _ env_okD(2) [OF assms(2,1)] assms(2-4)])
  then show "good s (m t)" using assms(5) [of t] good_after by blast
qed

lemma good_run:
  assumes "env_ok s" "off_list s e"
  shows "good s (bindE (env_run e s) (\<lambda>s. Inr (Runs e, s)))"
  using env_run_step [OF _ assms] by (auto simp: good_def)

lemma good_page_fault:
  assumes ok: "env_ok s"
  shows "good s (page_fault_handler va s)"
proof (cases "curenv s")
  case None
  then show ?thesis by (simp add: page_fault_handler_def good_Inl)
next
  case (Some c)
  have c: "off_list s c" by (rule env_okD(2) [OF ok Some])
  have push: "good s (continue (user_mem_assert c (next_tf_addr tf) 1 PTE_W s) (\<lambda>_ s.
             bindE (store_words pgdir (next_tf_addr tf) (utrapframe va tf) s) (\<lambda>s.
             bindE (set_env c (\<lambda>b. b\<lparr>env_tf := (env_tf b)\<lparr>tf_eip := env_pgfault_upcall b, tf_esp := next_tf_addr tf\<rparr>\<rparr>) s) (\<lambda>s.
             bindE (env_run c s) (\<lambda>s. Inr (Runs c, s))))))" for tf pgdir
  proof (rule good_continue [OF good_user_mem_assert [OF ok c]], rule good_bind)
    fix r t u assume "steady s t" "store_words pgdir (next_tf_addr tf) (utrapframe va tf) t = Inr u"
    then have u: "steady t u" using ev.store_words [of pgdir _ _ t u] by (auto intro: steady_view steady_ok)
    then have cu: "curenv u = Some c" using \<open>steady s t\<close> Some by (simp add: steady_def)
    show "good t (bindE (set_env c (\<lambda>b. b\<lparr>env_tf := (env_tf b)\<lparr>tf_eip := env_pgfault_upcall b, tf_esp := next_tf_addr tf\<rparr>\<rparr>) u) (\<lambda>s.
             bindE (env_run c s) (\<lambda>s. Inr (Runs c, s))))"
    proof (rule good_after [OF u good_set_env [OF cu steady_ok [OF u]]])
      fix v assume v: "steady u v"
      then have "curenv v = Some c" using cu by (simp add: steady_def)
      then show "good v (bindE (env_run c v) (\<lambda>s. Inr (Runs c, s)))"
        by (intro good_run steady_ok [OF v] env_okD(2))
    qed simp_all
  qed
  have ic: "good s (bindE (page_fault_intercept pgdir va s) (\<lambda>s. Inr (Returns 0, s)))" for pgdir
    by (rule good_bind, rule good_Returns) (auto intro: steady_view ok dest: ev.intercept)
  show ?thesis
    unfolding page_fault_handler_def Let_def Some deref_simps bindE_simps
    by (intro good_bind good_if push ic good_destroy [OF ok c])
qed

lemma good_intr:
  assumes "env_ok s"
  shows "good s (bindE (kbd_intr s) (\<lambda>s. Inr (Returns 0, s)))" "good s (bindE (serial_intr s) (\<lambda>s. Inr (Returns 0, s)))"
  by (rule good_bind, rule good_Returns, rule steady_view [OF _ assms],
      simp add: kbd_intr_def serial_intr_def, drule cons_intr_view, simp add: env_view_def)+

lemma good_trap_dispatch:
  assumes ok: "env_ok s" and c: "curenv s = Some c"
  shows "good s (trap_dispatch va s)"
proof -
  have sys: "good s (continue (syscall n a1 a2 a3 a4 a5 s) (\<lambda>v s.
      bindE (set_env c (\<lambda>b. b\<lparr>env_tf := set_eax (of_int v) (env_tf b)\<rparr>) s) (\<lambda>s. Inr (Returns 0, s))))" for n a1 a2 a3 a4 a5
  proof (rule good_continue [OF good_syscall [OF ok]])
    fix r t assume t: "steady s t"
    then have "curenv t = Some c" using c by (simp add: steady_def)
    then show "good t (bindE (set_env c (\<lambda>b. b\<lparr>env_tf := set_eax (of_int r) (env_tf b)\<rparr>) t) (\<lambda>s. Inr (Returns 0, s)))"
      using steady_ok [OF t] by (rule good_set_env) (auto intro: good_Returns steady_refl steady_ok)
  qed
  have dbg: "good s (bindE (set_env c (\<lambda>b. b\<lparr>env_tf := (env_tf b)\<lparr>tf_eflags := f\<rparr>\<rparr>) s) (\<lambda>s. Inr (Returns 0, s)))" for f
    using c ok by (rule good_set_env) (auto intro: good_Returns steady_refl steady_ok)
  show ?thesis
    unfolding trap_dispatch_def Let_def c deref_simps bindE_simps
    by (intro good_bind good_if dbg good_page_fault sys good_yield good_intr good_Inl good_destroy
        good_Returns steady_refl ok env_okD(2) [OF ok c])
qed

lemma good_resume:
  assumes "env_ok s"
  shows "good s (case curenv s of None \<Rightarrow> yield_cpu s
    | Some c \<Rightarrow> bindE (rd (envs s) c) (\<lambda>b. if env_status b = ENV_RUNNING
        then bindE (env_run c s) (\<lambda>s. Inr (Runs c, s)) else yield_cpu s))"
proof (cases "curenv s")
  case None
  then show ?thesis using good_yield [OF assms] by simp
next
  case (Some c)
  have "good s (bindE (rd (envs s) c) (\<lambda>b. if env_status b = ENV_RUNNING
        then bindE (env_run c s) (\<lambda>s. Inr (Runs c, s)) else yield_cpu s))"
    by (intro good_bind good_if good_run good_yield assms env_okD(2) [OF assms Some])
  then show ?thesis using Some by simp
qed

lemma good_weaken: "good s m \<Longrightarrow> m = Inr (fl, t) \<Longrightarrow> env_ok t \<and> later_ids s t"
  by (simp add: good_def)

lemma trap_step:
  assumes "trap tf va s = Inr (fl, t)" "env_ok s"
  shows "env_ok t \<and> later_ids s t"
proof -
  obtain c where c: "curenv s = Some c" using assms(1) by (cases "curenv s") (auto simp: trap_def)
  define b where "b = envs s ! c"
  have b: "rd (envs s) c = Inr b" using assms(1) c by (auto simp: trap_def b_def rd_Inr_iff)
  show ?thesis
  proof (cases "env_status b = ENV_DYING")
    case True
    then obtain s1 where f: "env_free c s = Inr s1" and y: "yield_cpu (s1\<lparr>curenv := None\<rparr>) = Inr (fl, t)"
      using assms(1) c b by (auto simp: trap_def)
    note fr = env_free_step [OF f env_okD(2) [OF assms(2) c] assms(2)]
    then have "later_ids s (s1\<lparr>curenv := None\<rparr>)" by (simp add: later_ids_def)
    then show ?thesis using good_weaken [OF good_yield y] fr later_ids_trans by blast
  next
    case False
    have "good s (bindE (set_env c (\<lambda>b. b\<lparr>env_tf := tf\<rparr>) s) (\<lambda>s.
          continue (trap_dispatch va s) (\<lambda>_ s. case curenv s of
            None \<Rightarrow> yield_cpu s
          | Some c \<Rightarrow> bindE (rd (envs s) c) (\<lambda>b.
              if env_status b = ENV_RUNNING then bindE (env_run c s) (\<lambda>s. Inr (Runs c, s))
              else yield_cpu s))))"
    proof (rule good_set_env [OF c assms(2)])
      fix u assume u: "steady s u"
      then have "curenv u = Some c" using c by (simp add: steady_def)
      then show "good u (continue (trap_dispatch va u) (\<lambda>_ s. case curenv s of
            None \<Rightarrow> yield_cpu s
          | Some c \<Rightarrow> bindE (rd (envs s) c) (\<lambda>b.
              if env_status b = ENV_RUNNING then bindE (env_run c s) (\<lambda>s. Inr (Runs c, s))
              else yield_cpu s)))"
        using steady_ok [OF u] by (intro good_continue [OF good_trap_dispatch] good_resume) (auto intro: steady_ok)
    qed simp_all
    then show ?thesis using assms(1) c b False by (intro good_weaken) (simp_all add: trap_def)
  qed
qed

section \<open>Runs of the kernel\<close>

text \<open>
  What can happen to the state of a CPU: a trap of the running environment, its writes to memory,
  input, an interrupt while the CPU is halted, and the creation of an environment at boot.
\<close>

inductive kernel_step :: "jos \<Rightarrow> jos \<Rightarrow> bool" where
  trap: "trap tf va s = Inr (fl, t) \<Longrightarrow> kernel_step s t"
| user: "kernel_step s (s\<lparr>mem := m\<rparr>)"
| input: "kernel_step s (s\<lparr>serial_in := cs, kbd_in := ks\<rparr>)"
| wake: "curenv s = None \<Longrightarrow> yield_cpu s = Inr (fl, t) \<Longrightarrow> kernel_step s t"
| create: "env_alloc 0 s = Inr (r, e, t) \<Longrightarrow> kernel_step s t"

lemma kernel_step_ok:
  assumes "kernel_step s t" "env_ok s"
  shows "env_ok t \<and> later_ids s t"
  using assms
proof cases
  case trap
  then show ?thesis using assms(2) by (rule trap_step)
next
  case wake
  then show ?thesis using good_weaken [OF good_yield [OF assms(2)]] by simp
next
  case create
  then show ?thesis using env_alloc_step [OF _ assms(2)] by blast
next
  case (user m)
  then have "env_view t = env_view s" by (simp add: env_view_def)
  from steady_view [OF this assms(2)] show ?thesis by (simp add: steady_def)
next
  case (input cs ks)
  then have "env_view t = env_view s" by (simp add: env_view_def)
  from steady_view [OF this assms(2)] show ?thesis by (simp add: steady_def)
qed

lemma kernel_run_ok: "kernel_step\<^sup>*\<^sup>* s t \<Longrightarrow> env_ok s \<Longrightarrow> env_ok t \<and> later_ids s t"
proof (induction rule: rtranclp_induct)
  case (step t u)
  then show ?case using kernel_step_ok [of t u] later_ids_trans [of s t u] by blast
qed simp

lemma boot_links: "i < NENV \<Longrightarrow> chain (free_link (env_init s)) (Some i) [i..<NENV]"
proof (induction "NENV - i" arbitrary: i)
  case (Suc k)
  have l: "free_link (env_init s) i = (if i < NENV - 1 then Some (i + 1) else None)"
    using Suc.prems by (simp add: free_link_def env_init_def)
  show ?case
  proof (cases "i < NENV - 1")
    case True
    then have "chain (free_link (env_init s)) (Some (Suc i)) [Suc i..<NENV]"
      using Suc by (intro Suc.hyps(1)) auto
    then show ?thesis using l True by (simp add: upt_conv_Cons)
  next
    case False
    then have "[i..<NENV] = [i]" using Suc.prems by (simp add: upt_conv_Cons)
    then show ?thesis using l False by simp
  qed
qed simp

lemma env_init_ok:
  assumes "curenv s = None"
  shows "env_ok (env_init s)"
proof -
  have "chain (free_link (env_init s)) (env_free_list (env_init s)) [0..<NENV]"
    using boot_links [of 0 s] by (simp add: env_init_def NENV_def)
  moreover have "env_status (envs (env_init s) ! i) = ENV_FREE \<and> env_id (envs (env_init s) ! i) = 0" if "i < NENV" for i
    using that by (simp add: env_init_def zero_env_def ENV_FREE_def)
  moreover have "length (envs (env_init s)) = NENV" by (simp add: env_init_def)
  moreover have "curenv (env_init s) = None" using assms by (simp add: env_init_def)
  ultimately show ?thesis unfolding env_ok_def by (intro conjI exI [of _ "[0..<NENV]"]) auto
qed

end
