(* ===== verification/JosSyscallProps.thy ===== *)
theory JosSyscallProps
  imports JosSyscallProofs
begin

text \<open>
  What the system calls do: to the table of environments, to the address space and to the
  receiver of a message; and what a user program can do to the kernel with them.
\<close>

section \<open>A small kernel\<close>

text \<open>Environment 0 runs, with the page directory in frame 1; the other slots are free, and frame 4.\<close>

definition ex_kernel :: jos where
  "ex_kernel = (env_init ex_jos)\<lparr>envs := (envs (env_init ex_jos))
       [0 := zero_env\<lparr>env_id := 0x1000, env_status := ENV_RUNNING, env_runs := 1, env_pgdir := Some 1\<rparr>],
     env_free_list := Some 1, page_free_list := Some 4,
     pages := (pages ex_jos)[4 := \<lparr>pp_link = None, pp_ref = 0\<rparr>]\<rparr>"

lemma ex_kernel_envs:
  "length (envs ex_kernel) = NENV" "curenv ex_kernel = Some 0"
  "envs ex_kernel ! 0 = zero_env\<lparr>env_id := 0x1000, env_status := ENV_RUNNING, env_runs := 1, env_pgdir := Some 1\<rparr>"
  "0 < i \<Longrightarrow> i < NENV \<Longrightarrow> envs ex_kernel ! i = zero_env\<lparr>env_link := (if i < NENV - 1 then Some (i + 1) else None)\<rparr>"
  by (simp_all add: ex_kernel_def env_init_def NENV_def ex_jos_def)

lemma ex_kernel_free: "chain (free_link ex_kernel) (env_free_list ex_kernel) [1..<NENV]"
proof -
  have "chain (free_link (env_init ex_jos)) (Some 1) [1..<NENV]"
    by (rule boot_links) (simp_all add: NENV_def)
  moreover have "free_link ex_kernel i = free_link (env_init ex_jos) i" if "i \<in> set [1..<NENV]" for i
    using that by (simp add: free_link_def ex_kernel_envs(4)) (simp add: env_init_def)
  ultimately have "chain (free_link ex_kernel) (Some 1) [1..<NENV]" using chain_cong by blast
  then show ?thesis by (simp add: ex_kernel_def)
qed

lemma ex_kernel_ok: "env_ok ex_kernel"
  unfolding env_ok_def
proof (intro conjI allI impI exI [of _ "[1..<NENV]"])
  show "length (envs ex_kernel) = NENV" by (rule ex_kernel_envs)
  show "\<forall>i\<in>set [1..<NENV]. i < NENV \<and> env_status (envs ex_kernel ! i) = ENV_FREE"
    by (auto simp: ex_kernel_envs(4) zero_env_def ENV_FREE_def)
  show "off_list ex_kernel c" if "curenv ex_kernel = Some c" for c
    using that by (simp add: off_list_chain [OF ex_kernel_free] ex_kernel_envs(2) NENV_def)
  fix i assume i: "i < NENV"
  have "(0x1000 :: u32) AND 0x3FF = 0" by simp
  moreover have "sint (0x1000 :: u32) = 0x1000" by simp
  ultimately show "env_id (envs ex_kernel ! i) = 0 \<or> 0 < sint (env_id (envs ex_kernel ! i)) \<and> ENVX (env_id (envs ex_kernel ! i)) = i"
    using ex_kernel_envs(3,4) i by (cases "i = 0") (simp_all add: zero_env_def ENVX_def)
qed (rule ex_kernel_free)

section \<open>The table of environments\<close>



text \<open>
  An identifier that is behind the one its slot has, as every identifier is whose environment was
  replaced, never becomes valid again: whatever happens later, \<open>envid2env\<close> rejects it. (The model
  stops with an overflow where the generation would wrap around.)
\<close>

theorem stale_ids_rejected:
  assumes "env_ok s" and "kernel_step\<^sup>*\<^sup>* s t"
    and "envid \<noteq> 0" and "sint envid < sint (env_id (envs s ! ENVX envid))"
  shows "envid2env envid checkperm t = Inr (- E_BAD_ENV, None)"
proof -
  have r: "env_ok t" "later_ids s t" using kernel_run_ok [OF assms(2,1)] by simp_all
  have i: "ENVX envid < NENV" by (rule ENVX_less)
  then have "sint envid < sint (env_id (envs t ! ENVX envid))" using r(2) assms(4) by (fastforce simp: later_ids_def)
  then have "env_id (envs t ! ENVX envid) \<noteq> envid" by auto
  then show ?thesis using assms(3) i env_okD(1) [OF r(1)] by (simp add: envid2env_def)
qed

theorem stale_ids_rejected_witness:
  "envid2env 0x400 True (ex_kernel\<lparr>mem := (\<lambda>f i. 7)\<rparr>) = Inr (- E_BAD_ENV, None)"
proof (rule stale_ids_rejected [OF ex_kernel_ok])
  show "kernel_step\<^sup>*\<^sup>* ex_kernel (ex_kernel\<lparr>mem := (\<lambda>f i. 7)\<rparr>)" by (rule r_into_rtranclp, rule kernel_step.user)
  have "ENVX 0x400 = 0" by (simp add: ENVX_def)
  then show "sint (0x400 :: u32) < sint (env_id (envs ex_kernel ! ENVX 0x400))" by (simp add: ex_kernel_envs(3))
qed simp

text \<open>
  \<open>sys_exofork\<close> either fails, with no slot or no page left, and leaves the table as it was, or it
  takes a free slot for a child that is not runnable, has the registers of its parent but for the
  return value 0, and is found by its identifier, which is later than any the slot had.
\<close>

theorem exofork_makes_child:
  assumes "env_ok s" and "curenv s = Some c" and x: "sys_exofork s = Inr (r, t)"
  shows "r < 0 \<and> envs t = envs s \<or>
    (\<exists>e. e \<noteq> c \<and> env_status (envs t ! e) = ENV_NOT_RUNNABLE \<and> env_tf (envs t ! e) = set_eax 0 (env_tf (envs s ! c)) \<and>
      env_parent_id (envs t ! e) = env_id (envs s ! c) \<and> 0 < r \<and> sint (env_id (envs s ! e)) < r \<and>
      envid2env (of_int r) True t = Inr (0, Some e) \<and> (\<forall>i. i \<noteq> e \<longrightarrow> envs t ! i = envs s ! i))"
proof -
  define rest where "rest err ch s1 = (if err \<noteq> 0 then Inr (err, s1) else bindE (deref ch) (\<lambda>child. bindE (cur_env s1) (\<lambda>c.
      bindE (set_env child (\<lambda>b. b\<lparr>env_status := ENV_NOT_RUNNABLE, env_tf := set_eax 0 (env_tf c)\<rparr>) s1) (\<lambda>s.
      bindE (rd (envs s) child) (\<lambda>b. Inr (sint (env_id b), s))))))" for err ch s1
  have c: "c < length (envs s)" using env_okD [OF assms(1)] assms(2) by (simp add: off_list_def)
  then have cur: "cur_env s = Inr (envs s ! c)" using assms(2) by (simp add: cur_env_def)
  have "bindE (env_alloc (env_id (envs s ! c)) s) (\<lambda>(err, ch, s1). rest err ch s1) = Inr (r, t)"
    using x cur by (simp add: sys_exofork_def rest_def)
  then obtain err ch s1 where a: "env_alloc (env_id (envs s ! c)) s = Inr (err, ch, s1)" and k: "rest err ch s1 = Inr (r, t)"
    by auto
  note st = env_alloc_step [OF a assms(1)]
  show ?thesis
  proof (cases "err = 0")
    case False
    then have "envs s1 = envs s \<and> err < 0"
      using a by (auto simp: env_alloc_def E_NO_FREE_ENV_def split: option.splits if_splits dest!: setup_vm_step simp: env_view_eq)
    then show ?thesis using k False by (simp add: rest_def)
  next
    case True
    then obtain e where e: "ch = Some e" "e < NENV" "c \<noteq> e" "sint (env_id (envs s ! e)) < sint (env_id (envs s1 ! e))"
      "0 < sint (env_id (envs s1 ! e))" "ENVX (env_id (envs s1 ! e)) = e" "env_parent_id (envs s1 ! e) = env_id (envs s ! c)"
      "\<forall>i. i \<noteq> e \<longrightarrow> envs s1 ! i = envs s ! i" "curenv s1 = Some c" "length (envs s1) = NENV"
      using st assms(2) env_okD(1) by auto
    have cn: "c < NENV" using c env_okD(1) [OF assms(1)] by simp
    have cur1: "cur_env s1 = Inr (envs s ! c)" using e cn by (simp add: cur_env_def)
    have t: "t = s1\<lparr>envs := (envs s1)[e := (envs s1 ! e)\<lparr>env_status := ENV_NOT_RUNNABLE, env_tf := set_eax 0 (env_tf (envs s ! c))\<rparr>]\<rparr>"
      "r = sint (env_id (envs s1 ! e))"
      using k True e(1,2,10) cur1 by (simp_all add: rest_def set_env_def)
    have "env_id (envs s1 ! e) \<noteq> 0" using e(5) by auto
    then have "envid2env (of_int r) True t = Inr (0, Some e)"
      using e cn by (simp add: envid2env_def t env_status_defs)
    then show ?thesis using e t by (intro disjI2 exI [of _ e]) simp
  qed
qed

lemma page_alloc_zeroed:
  assumes "page_free_list s = Some f" "f < length (pages s)" "f < npages s" "f < 2 ^ 20"
  shows "page_alloc ALLOC_ZERO s = Inr (Some f, s\<lparr>page_free_list := pp_link (pages s ! f),
     pages := (pages s)[f := (pages s ! f)\<lparr>pp_link := None\<rparr>], mem := (mem s)(f := (\<lambda>_. 0))\<rparr>)"
proof -
  have p: "PGNUM (page2pa f) = f" using PGNUM_page2pa [OF assms(4), of 0] by simp
  show ?thesis using assms by (simp add: page_alloc_def set_page_eval KADDR_def guardE_def p ALLOC_ZERO_def)
qed

lemma ex_kernel_exofork: "\<exists>t. sys_exofork ex_kernel = Inr (0x1001, t)"
proof -
  define s1 where "s1 = ex_kernel\<lparr>page_free_list := None, pages := (pages ex_kernel)[4 := \<lparr>pp_link = None, pp_ref = 0\<rparr>],
    mem := (mem ex_kernel)(4 := (\<lambda>_. 0))\<rparr>"
  have f: "page_free_list ex_kernel = Some 4" "length (pages ex_kernel) = 8" "npages ex_kernel = 8"
    "pages ex_kernel ! 4 = \<lparr>pp_link = None, pp_ref = 0\<rparr>"
    by (simp_all add: ex_kernel_def ex_jos_def env_init_def)
  have a: "page_alloc ALLOC_ZERO ex_kernel = Inr (Some 4, s1)" using page_alloc_zeroed [OF f(1)] f by (simp add: s1_def)
  have s1: "length (pages s1) = 8" "npages s1 = 8" "envs s1 = envs ex_kernel" "env_free_list s1 = Some 1" "curenv s1 = Some 0"
    by (simp_all add: s1_def f ex_kernel_envs) (simp add: ex_kernel_def)
  have p: "PGNUM (page2pa 4) = 4" using PGNUM_page2pa [of 4 0] by simp
  have N: "NENV = 1024" by (simp add: NENV_def)
  have "\<exists>s2. env_setup_vm 1 ex_kernel = Inr (0, s2) \<and> envs s2 = (envs ex_kernel)[1 := (envs ex_kernel ! 1)\<lparr>env_pgdir := Some 4\<rparr>] \<and> curenv s2 = Some 0"
    using a s1 p ex_kernel_envs(1)
    by (simp add: env_setup_vm_def set_page_eval KADDR_def guardE_def set_env_def N write_pte_def)
  then obtain s2 where s2: "env_setup_vm 1 ex_kernel = Inr (0, s2)" "curenv s2 = Some 0"
    "envs s2 = (envs ex_kernel)[1 := (envs ex_kernel ! 1)\<lparr>env_pgdir := Some 4\<rparr>]" by blast
  have i: "next_id 0 1 = Inr 0x1001" by (simp add: next_id_def ENVGENSHIFT_def in_i32_def N guardE_def)
  have fl: "env_free_list ex_kernel = Some 1" by (simp add: ex_kernel_def)
  have z: "env_id (envs ex_kernel ! 1) = 0" using ex_kernel_envs(4) [of 1] by (simp add: N zero_env_def)
  have "\<exists>s3. env_alloc (env_id (envs ex_kernel ! 0)) ex_kernel = Inr (0, Some 1, s3) \<and> length (envs s3) = 1024 \<and> curenv s3 = Some 0 \<and> env_id (envs s3 ! 1) = 0x1001"
    using s2 i fl z ex_kernel_envs(1) by (simp add: env_alloc_def set_env_def N)
  then obtain s3 where s3: "env_alloc (env_id (envs ex_kernel ! 0)) ex_kernel = Inr (0, Some 1, s3)"
    "length (envs s3) = 1024" "curenv s3 = Some 0" "env_id (envs s3 ! 1) = 0x1001" by blast
  have cu: "cur_env ex_kernel = Inr (envs ex_kernel ! 0)" using ex_kernel_envs(1,2) by (simp add: cur_env_def N)
  have cu3: "cur_env s3 = Inr (envs s3 ! 0)" using s3 by (simp add: cur_env_def)
  show ?thesis using s3 cu cu3 by (simp add: sys_exofork_def set_env_def)
qed

theorem exofork_makes_child_witness:
  "\<exists>t e. sys_exofork ex_kernel = Inr (0x1001, t) \<and> env_parent_id (envs t ! e) = 0x1000 \<and>
    envid2env 0x1001 True t = Inr (0, Some e)"
proof -
  obtain t where t: "sys_exofork ex_kernel = Inr (0x1001, t)" using ex_kernel_exofork by blast
  have "env_id (envs ex_kernel ! 0) = 0x1000" by (simp add: ex_kernel_envs(3))
  then show ?thesis using exofork_makes_child [OF ex_kernel_ok ex_kernel_envs(2) t] t by auto
qed

section \<open>Permission\<close>



section \<open>Messages\<close>



section \<open>What user programs can do to the kernel\<close>

lemma page_insert_fresh:
  assumes "pgdir_find pgdir va s = Inr (Some pte)" "read_pte pte s AND PTE_P = 0" "pp < length (pages s)"
  shows "page_insert pgdir pp va perm s = Inr (0, write_pte pte (page2pa pp OR perm OR PTE_P)
    (s\<lparr>pages := (pages s)[pp := (pages s ! pp)\<lparr>pp_ref := pp_ref (pages s ! pp) + 1\<rparr>]\<rparr>))"
proof -
  have "read_pte pte (s\<lparr>pages := x\<rparr>) = read_pte pte s" for x by (simp add: read_pte_def)
  then show ?thesis using pgdir_walk_find [OF assms(1)] assms by (simp add: page_insert_def set_page_eval)
qed

text \<open>
  \<open>sys_page_map\<close> does not look at \<open>dstva\<close>. A page of the caller can be mapped over the memory of
  the kernel: as the page tables there are shared by all address spaces, every other one that has
  the same table then finds the page of the user program at that address.
\<close>

theorem map_over_kernel:
  assumes cur: "curenv s = Some c" "pgdir_of (Some c) s = Inr pgdir"
    and src: "srcva < UTOP" "srcva mod PGSIZE = 0" "page_lookup pgdir srcva s = Inr (Some (pp, spte), s)"
      "perm AND PTE_W = 0 \<or> read_pte spte s AND PTE_W \<noteq> 0"
    and dst: "dstva \<ge> KERNBASE" "pgdir_find pgdir dstva s = Inr (Some pte)" "read_pte pte s AND PTE_ON_DISK = 0"
      "read_pte pte s AND PTE_P = 0"
    and pp: "pp < length (pages s)" "pp < 2 ^ 20"
    and perm: "perm < 4096" "perm AND PTE_ON_DISK = 0"
    and other: "fst pte \<noteq> q" "read_pte (q, PDX dstva) s = read_pte (pgdir, PDX dstva) s"
  shows "\<exists>t. sys_page_map 0 srcva 0 dstva perm s = Inr (0, t) \<and> translate q dstva False t = Inr pp"
proof -
  let ?t = "write_pte pte (page2pa pp OR perm OR PTE_P)
    (s\<lparr>pages := (pages s)[pp := (pages s ! pp)\<lparr>pp_ref := pp_ref (pages s ! pp) + 1\<rparr>]\<rparr>)"
  have "page_insert pgdir pp dstva perm s = Inr (0, ?t)" using dst pp by (intro page_insert_fresh) simp_all
  then obtain t where t: "page_insert pgdir pp dstva perm s = Inr (0, t)" "read_pte pte t = (page2pa pp OR perm OR PTE_P)"
    "\<And>e. e \<noteq> pte \<Longrightarrow> read_pte e t = read_pte e s"
    by (rule that) (simp_all add: read_write_pte, simp add: read_pte_def)
  have "sys_page_map 0 srcva 0 dstva perm s = Inr (0, t)"
    using cur src t(1) by (auto simp: sys_page_map_def envid2env_def)
  moreover have "translate q dstva False t = Inr pp"
  proof -
    have p: "pte = (PGNUM (read_pte (pgdir, PDX dstva) s), PTX dstva)" "read_pte (pgdir, PDX dstva) s AND PTE_P \<noteq> 0"
      using dst(2) by (auto simp: pgdir_find_eq Let_def split: if_splits)
    have "read_pte (q, PDX dstva) t = read_pte (pgdir, PDX dstva) s" using t(3) [of "(q, PDX dstva)"] other by (metis fst_conv)
    then show ?thesis using p t(2) frame_entry [OF pp(2) perm]
      by (simp add: translate_def Let_def guardE_def)
  qed
  ultimately show ?thesis by blast
qed

text \<open>
  A user program can panic the kernel with an empty string: \<open>sys_cputs\<close> of length 0 at the start of
  a page that is not mapped passes the check, which looks at no page, and then the kernel reads the
  first character before it looks at the precision.
\<close>

theorem empty_string_panics:
  assumes ok: "env_ok s" and cur: "curenv s = Some c" "env_status (envs s ! c) = ENV_RUNNING" "env_id (envs s ! c) \<noteq> 0"
    and p: "p \<noteq> 0" "p mod PGSIZE = 0" and un: "pgdir_of (Some c) s = Inr pgdir" "translate pgdir p False s = Inl Panic"
  shows "syscall 0 p 0 a3 a4 a5 s = Inl Panic"
proof -
  have c: "c < NENV" "length (envs s) = NENV" using env_okD [OF ok] cur by (auto simp: off_list_def)
  have id: "ENVX (env_id (envs s ! c)) = c" using env_okD(3) [OF ok c(1)] cur(3) by simp
  have e: "envid2env (env_id (envs s ! c)) True s = Inr (0, Some c)"
    using cur c id by (simp add: envid2env_def env_status_defs)
  have "unat (p mod 4096) = unat p mod 4096" by (simp add: unat_mod)
  then have "unat p mod 4096 = 0" using p(2) by (simp add: PGSIZE_def)
  then obtain q where q: "unat p = 4096 * q" by blast
  then have "q < 1048576" using unat_u32 [of p] by simp
  then have l: "unat p + 4095 < 2 ^ 32" using q by simp
  have "p + 4095 = of_nat (unat p + 4095)" by simp
  then have u: "unat (p + 4095) = unat p + 4095" using unat_small [OF l] by metis
  have "unat ((p + 4095) mod 4096) = 4095" using q u by (simp add: unat_mod mod_mult_self2 mult.commute)
  then have "(p + 4095) mod 4096 = 4095" by (simp add: word_unat_eq_iff)
  then have up: "ROUNDUP (p + 0) PGSIZE = p" by (simp add: ROUNDUP_def ROUNDDOWN_def PGSIZE_def add.commute [of 4095 p])
  have "ROUNDDOWN p PGSIZE = p" using p(2) by (simp add: ROUNDDOWN_def)
  then have "user_mem_check (Some c) p 0 perm s = Inr None" for perm using un(1) up by (simp add: user_mem_check_def Let_def)
  then have "user_mem_assert c p 0 PTE_U s = Inr (Returns 0, s)" by (simp add: user_mem_assert_def)
  moreover have "print_user p 0 s = Inl Panic" using p(1) un cur(1) by (simp add: print_user_def load_byte_def)
  ultimately have "sys_cputs p 0 s = Inl Panic" using cur(1) c e by (simp add: sys_cputs_def cur_env_def)
  then show ?thesis by (simp add: syscall_def)
qed

text \<open>
  Any page fault of a user program on a page that is present, as a write to a read-only page,
  panics the kernel; the page fault handler of the program, on which the copy-on-write \<open>fork\<close> of the
  library relies, is not called.
\<close>

theorem protection_fault_panics:
  assumes cur: "curenv s = Some c" "c < length (envs s)" "env_status (envs s ! c) \<noteq> ENV_DYING"
    and tf: "tf_trapno tf = T_PGFLT" "tf_cs tf AND 3 = 3" and pgdir: "env_pgdir (envs s ! c) = Some pgdir"
    and present: "pgdir_find pgdir va s = Inr (Some e)" "read_pte e s AND PTE_P \<noteq> 0"
  shows "trap tf va s = Inl Panic"
proof -
  let ?s = "s\<lparr>envs := (envs s)[c := (envs s ! c)\<lparr>env_tf := tf\<rparr>]\<rparr>"
  have f: "pgdir_find pgdir va ?s = Inr (Some e)" "read_pte e ?s = read_pte e s"
    using present(1) by (simp_all add: pgdir_find_eq Let_def read_pte_def split: if_splits)
  have "page_fault_handler va ?s = Inl Panic"
    using cur tf pgdir present(2) f by (simp add: page_fault_handler_def Let_def guardE_def)
  then show ?thesis using cur tf(1) by (simp add: trap_def set_env_def trap_dispatch_def T_PGFLT_def T_DEBUG_def)
qed

lemma sched_scan_finds:
  "i \<le> c \<Longrightarrow> c < i + k \<Longrightarrow> c < NENV \<Longrightarrow> length es = NENV \<Longrightarrow>
   (\<And>j. j < NENV \<Longrightarrow> env_status (es ! j) = ENV_RUNNABLE \<longleftrightarrow> j = c) \<Longrightarrow> sched_scan k i 0 es = Inr (Some c)"
proof (induction k arbitrary: i)
  case (Suc k)
  show ?case
  proof (cases "i = c")
    case True
    then show ?thesis using Suc.prems by (simp add: Let_def)
  next
    case False
    then have "sched_scan k (Suc i) 0 es = Inr (Some c)" using Suc by auto
    then show ?thesis using Suc.prems False by (simp add: Let_def)
  qed
qed simp

text \<open>
  \<open>sys_env_set_status\<close> takes any status for any environment, so a program can make itself
  \<open>ENV_RUNNABLE\<close> while it runs. It goes on running with that status, and an idle CPU that looks for
  work chooses the same environment: two CPUs run it at the same time, on one saved state.
\<close>

theorem running_twice:
  assumes ok: "env_ok s" and cur: "curenv s = Some c" "env_status (envs s ! c) = ENV_RUNNING" "env_id (envs s ! c) \<noteq> 0"
    and only: "\<And>j. j < NENV \<Longrightarrow> j \<noteq> c \<Longrightarrow> env_status (envs s ! j) \<noteq> ENV_RUNNABLE"
    and tf: "tf_trapno tf = T_SYSCALL" "reg_eax (tf_regs tf) = 8" "reg_edx (tf_regs tf) = 0"
      "reg_ecx (tf_regs tf) = ENV_RUNNABLE"
  shows "\<exists>t. trap tf va s = Inr (Runs c, t) \<and> curenv t = Some c \<and> env_status (envs t ! c) = ENV_RUNNABLE \<and>
    sched_yield (t\<lparr>curenv := None\<rparr>) = Inr (Some c)"
proof -
  have c: "c < NENV" "length (envs s) = NENV" using env_okD [OF ok] cur by (auto simp: off_list_def)
  have id: "ENVX (env_id (envs s ! c)) = c" using env_okD(3) [OF ok c(1)] cur(3) by simp
  let ?b = "(envs s ! c)\<lparr>env_status := ENV_RUNNABLE, env_tf := set_eax 0 tf\<rparr>"
  let ?t = "s\<lparr>envs := (envs s)[c := ?b]\<rparr>"
  have d: "continue (trap_dispatch va (s\<lparr>envs := (envs s)[c := (envs s ! c)\<lparr>env_tf := tf\<rparr>]\<rparr>)) f = f 0 ?t" for f
    using cur c tf
    by (simp add: trap_dispatch_def Let_def T_SYSCALL_def T_DEBUG_def T_PGFLT_def T_BRKPT_def syscall_def
        sys_env_set_status_def on_env_def envid2env_def set_env_def ret_def)
  have "sched_scan NENV 0 c (envs ?t) = Inr (Some c)"
  proof -
    have N: "Suc (NENV - 1) = NENV" by (simp add: NENV_def)
    have "sched_scan (Suc k) 0 c (envs ?t) = Inr (Some c)" for k using c by (simp add: Let_def)
    then show ?thesis using N by metis
  qed
  then have "sched_yield ?t = Inr (Some c)" using cur(1) c id by (simp add: sched_yield_def)
  moreover have "env_run c ?t = Inr ?t" using cur(1) by (simp add: env_run_def)
  ultimately have y: "yield_cpu ?t = Inr (Runs c, ?t)" by (simp add: yield_cpu_def)
  have "trap tf va s = Inr (Runs c, ?t)"
    using cur c y by (simp add: trap_def set_env_def d env_status_defs)
  moreover have "sched_scan NENV 0 0 (envs ?t) = Inr (Some c)"
  proof (rule sched_scan_finds)
    show "env_status (envs ?t ! j) = ENV_RUNNABLE \<longleftrightarrow> j = c" if "j < NENV" for j
      using that only [of j] c by (cases "j = c") simp_all
  qed (use c in simp_all)
  then have "sched_yield (?t\<lparr>curenv := None\<rparr>) = Inr (Some c)" by (simp add: sched_yield_def)
  ultimately show ?thesis using cur(1) c by (intro exI [of _ ?t]) simp
qed

text \<open>The kernel directory and the one of environment 0 share a page table, in frame 5, at \<open>KERNBASE\<close>.\<close>

definition ex_over :: jos where
  "ex_over = ex_kernel\<lparr>mem := (\<lambda>f i. if f = 1 \<and> i = 0 then 0x2007 else if f = 2 \<and> i = 5 then 0x3007
     else if f \<le> 1 \<and> i = 960 then 0x5003 else 0)\<rparr>"

lemma ex_kernel_machine:
  "npages ex_kernel = 8" "length (pages ex_kernel) = 8" "pages ex_kernel ! 3 = \<lparr>pp_link = None, pp_ref = 1\<rparr>"
  "mem ex_kernel = mem ex_jos"
  by (simp_all add: ex_kernel_def ex_jos_def env_init_def)

lemma ex_kernel_pgdir: "envs s = envs ex_kernel \<Longrightarrow> pgdir_of (Some 0) s = Inr 1"
  using ex_kernel_envs(1,3) by (simp add: pgdir_of_def NENV_def)

theorem map_over_kernel_witness:
  "\<exists>t. sys_page_map 0 0x5000 0 0xF0000000 7 ex_over = Inr (0, t) \<and> translate 0 0xF0000000 False t = Inr 3"
proof (rule map_over_kernel [where c = 0 and pgdir = 1 and spte = "(2, 5)" and pte = "(5, 0)" and q = 0])
  have a: "PDX 0x5000 = 0" "PTX 0x5000 = 5" "PDX 0xF0000000 = 960" "PTX 0xF0000000 = 0"
    "PGNUM 0x2007 = 2" "PGNUM 0x3007 = 3" "PGNUM 0x5003 = 5" by (simp_all add: PDX_def PTX_def PGNUM_def)
  have r: "read_pte (1, 0) ex_over = 0x2007" "read_pte (2, 5) ex_over = 0x3007" "read_pte (1, 960) ex_over = 0x5003"
    "read_pte (0, 960) ex_over = 0x5003" "read_pte (5, 0) ex_over = 0" "npages ex_over = 8"
    by (simp_all add: read_pte_def ex_over_def ex_kernel_machine)
  have f: "pgdir_find 1 0x5000 ex_over = Inr (Some (2, 5))" using a r by (simp add: pgdir_find_eq PTE_P_def)
  show "page_lookup 1 0x5000 ex_over = Inr (Some (3, (2, 5)), ex_over)"
    using page_lookup_eq [OF f] a r by (simp add: PTE_ON_DISK_def PTE_P_def)
  show "pgdir_find 1 0xF0000000 ex_over = Inr (Some (5, 0))" using a r by (simp add: pgdir_find_eq PTE_P_def)
  show "read_pte (5, 0) ex_over AND PTE_ON_DISK = 0" "read_pte (5, 0) ex_over AND PTE_P = 0" using r by simp_all
  show "7 AND PTE_W = 0 \<or> read_pte (2, 5) ex_over AND PTE_W \<noteq> 0" using r by (simp add: PTE_W_def)
  show "read_pte (0, PDX 0xF0000000) ex_over = read_pte (1, PDX 0xF0000000) ex_over" using a r by simp
  show "pgdir_of (Some 0) ex_over = Inr 1" by (rule ex_kernel_pgdir) (simp add: ex_over_def)
qed (simp_all add: ex_over_def ex_kernel_machine ex_kernel_envs UTOP_def KERNBASE_def PGSIZE_def PTE_ON_DISK_def)

theorem empty_string_panics_witness: "syscall 0 0x6000 0 0 0 0 ex_kernel = Inl Panic"
proof (rule empty_string_panics [OF ex_kernel_ok, where c = 0 and pgdir = 1])
  have "PDX 0x6000 = 0" "PTX 0x6000 = 6" "PGNUM 0x2007 = 2" by (simp_all add: PDX_def PTX_def PGNUM_def)
  then show "translate 1 0x6000 False ex_kernel = Inl Panic"
    by (simp add: translate_def Let_def read_pte_def ex_kernel_machine ex_jos_def PTE_P_def guardE_def)
qed (simp_all add: ex_kernel_envs ex_kernel_pgdir PGSIZE_def)

definition ex_tf :: "u32 \<Rightarrow> trapframe" where
  "ex_tf n = user_tf\<lparr>tf_trapno := n, tf_regs := zero_regs\<lparr>reg_eax := 8, reg_ecx := ENV_RUNNABLE\<rparr>\<rparr>"

lemma ex_tf_fields: "tf_trapno (ex_tf n) = n" "tf_cs (ex_tf n) AND 3 = 3"
  "reg_eax (tf_regs (ex_tf n)) = 8" "reg_edx (tf_regs (ex_tf n)) = 0" "reg_ecx (tf_regs (ex_tf n)) = ENV_RUNNABLE"
  by (simp_all add: ex_tf_def user_tf_def zero_tf_def zero_regs_def GD_UT_def)

theorem protection_fault_panics_witness: "trap (ex_tf T_PGFLT) 0x5000 ex_kernel = Inl Panic"
proof (rule protection_fault_panics [where c = 0 and pgdir = 1 and e = "(2, 5)"])
  have a: "PDX 0x5000 = 0" "PTX 0x5000 = 5" "PGNUM 0x2007 = 2" by (simp_all add: PDX_def PTX_def PGNUM_def)
  have r: "read_pte (1, 0) ex_kernel = 0x2007" "read_pte (2, 5) ex_kernel = 0x3007" "npages ex_kernel = 8"
    by (simp_all add: read_pte_def ex_kernel_machine ex_jos_def)
  show "pgdir_find 1 0x5000 ex_kernel = Inr (Some (2, 5))" using a r by (simp add: pgdir_find_eq PTE_P_def)
  show "read_pte (2, 5) ex_kernel AND PTE_P \<noteq> 0" using r by (simp add: PTE_P_def)
qed (use ex_kernel_envs(1) in \<open>simp_all add: ex_kernel_envs(2,3) NENV_def ex_tf_fields env_status_defs\<close>)

theorem running_twice_witness:
  "\<exists>t. trap (ex_tf T_SYSCALL) 0 ex_kernel = Inr (Runs 0, t) \<and> curenv t = Some 0 \<and>
    env_status (envs t ! 0) = ENV_RUNNABLE \<and> sched_yield (t\<lparr>curenv := None\<rparr>) = Inr (Some 0)"
proof (rule running_twice [OF ex_kernel_ok])
  show "env_status (envs ex_kernel ! j) \<noteq> ENV_RUNNABLE" if "j < NENV" "j \<noteq> 0" for j
    using that by (simp add: ex_kernel_envs(4) zero_env_def ENV_RUNNABLE_def)
qed (simp_all add: ex_kernel_envs ex_tf_fields)

section \<open>Getting a page\<close>

text \<open>
  \<open>sys_page_alloc\<close>, when a frame is free and the page table exists, with a page-aligned address
  below \<open>UTOP\<close> at which nothing is mapped and permissions that user programs may ask for: it returns
  0, and the address then leads to a frame full of zeros, writable if \<open>PTE_W\<close> was asked for, which was
  at the head of the free list; the queue of frames ends with it, and no other address changes.
\<close>

theorem page_alloc_call:
  assumes cur: "curenv s = Some c" "pgdir_of (Some c) s = Inr pgdir"
    and perm: "perm AND PTE_P \<noteq> 0" "perm AND PTE_U \<noteq> 0" "perm AND NOT (PTE_U OR PTE_P OR PTE_AVAIL OR PTE_W) = 0"
      "perm AND PTE_ON_DISK = 0"
    and va: "va < UTOP" "va mod PGSIZE = 0"
    and find: "pgdir_find pgdir va s = Inr (Some pte)" "read_pte pte s = 0" "fst pte \<noteq> pgdir"
    and free: "page_free_list s = Some f" "f < npages s" "f < 2 ^ 20" "length (pages s) = npages s"
      "pp_ref (pages s ! f) = 0" "f \<noteq> pgdir" "f \<noteq> fst pte"
    and queue: "queue_is s xs" "f < length (pool s)" "f \<notin> set xs"
  shows "\<exists>t. sys_page_alloc 0 va perm s = Inr (0, t) \<and> page_lookup pgdir va t = Inr (Some (f, pte), t) \<and>
    mem t f = (\<lambda>_. 0) \<and> read_pte pte t = (page2pa f OR perm OR PTE_P) \<and> queue_is t (xs @ [f]) \<and>
    page_free_list t = pp_link (pages s ! f) \<and> pp_ref (pages t ! f) = 1 \<and>
    (\<forall>e. e \<noteq> pte \<and> fst e \<noteq> f \<longrightarrow> read_pte e t = read_pte e s)"
proof -
  let ?s1 = "s\<lparr>page_free_list := pp_link (pages s ! f), pages := (pages s)[f := (pages s ! f)\<lparr>pp_link := None\<rparr>],
     mem := (mem s)(f := (\<lambda>_. 0))\<rparr>"
  have a: "page_alloc ALLOC_ZERO s = Inr (Some f, ?s1)" using page_alloc_zeroed [OF free(1)] free by simp
  have r1: "read_pte e ?s1 = read_pte e s" if "fst e \<noteq> f" for e using that by (simp add: read_pte_def)
  have r2: "read_pte (pgdir, i) ?s1 = read_pte (pgdir, i) s" for i using r1 free by simp
  have find1: "pgdir_find pgdir va ?s1 = Inr (Some pte)" using find(1) r2 by (simp add: pgdir_find_eq Let_def split: if_splits)
  have pl: "perm < 4096"
  proof (rule low_bits)
    fix n :: nat assume n: "12 \<le> n"
    define X where "X = PTE_U OR PTE_P OR PTE_AVAIL OR PTE_W"
    have "\<not> bit (perm AND NOT X) n" using perm(3) by (simp add: X_def)
    moreover have "\<not> bit X n"
      using n small_bit [of X 12 n] by (auto simp: X_def PTE_U_def PTE_P_def PTE_AVAIL_def PTE_W_def)
    ultimately show "\<not> bit perm n" using bit_imp_le_length [of perm n] by (auto simp: bit_and_iff bit_not_iff)
  qed
  let ?w = "page2pa f OR perm OR PTE_P"
  let ?t1 = "write_pte pte ?w (?s1\<lparr>pages := (pages ?s1)[f := (pages ?s1 ! f)\<lparr>pp_ref := 1\<rparr>]\<rparr>)"
  have z: "read_pte pte ?s1 = 0" using r1 find(2) free(7) by simp
  have ins: "page_insert pgdir f va perm ?s1 = Inr (0, ?t1)"
    using page_insert_fresh [OF find1, of f perm] free z by simp
  have "queue_is ?t1 xs" using queue(1) by (simp add: queue_is_def)
  moreover have pf: "PGNUM (page2pa f) = f" using PGNUM_page2pa [OF free(3), of 0] by simp
  ultimately obtain t where t: "on_page_alloc_success va 0 (page2pa f) ?t1 = Inr t" "queue_is t (xs @ [f])"
    using on_page_alloc_success_ok [of ?t1 xs "page2pa f" va 0] queue by auto
  have k: "mem t = mem ?t1" "pages t = pages ?t1" "page_free_list t = page_free_list ?t1" "npages t = npages ?t1"
    using t(1) by (auto simp: on_page_alloc_success_def Let_def set_entry_def split: option.splits)
  have m: "mem ?t1 f = (\<lambda>_. 0)" using free(7) by (simp add: write_pte_def)
  have g: "read_pte e t = (if e = pte then ?w else read_pte e ?s1)" for e
    using read_pte_cong [OF k(1), of e] by (simp add: read_write_pte) (simp add: read_pte_def)
  have "(pgdir, PDX va) \<noteq> pte" using find(3) by auto
  then have "pgdir_find pgdir va t = Inr (Some pte)"
    using find1 k(4) by (simp add: pgdir_find_eq Let_def g split: if_splits)
  note look = page_lookup_eq [OF this]
  have "page_lookup pgdir va t = Inr (Some (f, pte), t)"
    using look frame_entry [OF free(3) pl perm(4)] free(2) k(4) by (simp add: g)
  moreover have "sys_page_alloc 0 va perm s = Inr (0, t)"
    using perm va cur a ins t(1) leD by (auto simp: sys_page_alloc_def envid2env_def pgdir_of_def)
  ultimately show ?thesis using t(2) g r1 k m free by (intro exI [of _ t]) auto
qed


theorem page_alloc_call_witness:
  "\<exists>t. sys_page_alloc 0 0x7000 7 ex_kernel = Inr (0, t) \<and> page_lookup 1 0x7000 t = Inr (Some (4, (2, 7)), t)"
proof -
  have a: "PDX 0x7000 = 0" "PTX 0x7000 = 7" "PGNUM 0x2007 = 2" by (simp_all add: PDX_def PTX_def PGNUM_def)
  have r: "read_pte (1, 0) ex_kernel = 0x2007" "read_pte (2, 7) ex_kernel = 0"
    by (simp_all add: read_pte_def ex_kernel_machine ex_jos_def)
  have "queue_is ex_kernel []" by (simp add: queue_is_def ex_kernel_def env_init_def ex_jos_def)
  moreover have "pgdir_find 1 0x7000 ex_kernel = Inr (Some (2, 7))"
    using a r by (simp add: pgdir_find_eq PTE_P_def ex_kernel_machine)
  moreover have "pages ex_kernel ! 4 = \<lparr>pp_link = None, pp_ref = 0\<rparr>" "length (pool ex_kernel) = 8" "page_free_list ex_kernel = Some 4"
    by (simp_all add: ex_kernel_def env_init_def ex_jos_def)
  ultimately show ?thesis
    using page_alloc_call [of ex_kernel 0 1 7 "0x7000" "(2, 7)" 4 "[]"] r
    by (simp add: ex_kernel_machine ex_kernel_envs(2) ex_kernel_pgdir PTE_P_def PTE_U_def PTE_W_def PTE_AVAIL_def
        PTE_ON_DISK_def UTOP_def PGSIZE_def) blast
qed

end
