(* ===== verification/JosUpcall.thy ===== *)
theory JosUpcall
  imports JosSyscallProps
begin

text \<open>
  A page fault that a user program handles itself: words stored and loaded through the page tables,
  and the frame on the exception stack.
\<close>

section \<open>Words in memory\<close>

definition put_byte :: "nat \<Rightarrow> u8 \<Rightarrow> u32 \<Rightarrow> u32" where
  "put_byte k b w = (w AND NOT (push_bit k 0xFF)) OR push_bit k (ucast b)"

lemma byte_bits: "bit (0xFF :: u32) n \<longleftrightarrow> n < 8"
proof -
  have "(0xFF :: u32) = mask 8" by (simp add: mask_eq_exp_minus_1)
  then show ?thesis by (simp only: bit_mask_iff) auto
qed

lemma bit_put_byte:
  "n < 32 \<Longrightarrow> bit (put_byte k b w) n = (if k \<le> n \<and> n < k + 8 then bit b (n - k) else bit w n)"
  unfolding put_byte_def bit_or_iff bit_and_iff bit_not_iff bit_push_bit_iff bit_ucast_iff byte_bits
  using bit_imp_le_length [of b "n - k"] by auto

lemma four_bytes:
  "put_byte 24 (ucast (drop_bit 8 (ucast (drop_bit 16 w) :: u16))) (put_byte 16 (ucast (ucast (drop_bit 16 w) :: u16))
    (put_byte 8 (ucast (drop_bit 8 (ucast w :: u16))) (put_byte 0 (ucast (ucast w :: u16)) v))) = w"
proof (rule bit_word_eqI)
  fix n assume n: "n < LENGTH(32)"
  then have n: "n < 32" by simp
  consider "n < 8" | "8 \<le> n" "n < 16" | "16 \<le> n" "n < 24" | "24 \<le> n" by linarith
  then show "bit (put_byte 24 (ucast (drop_bit 8 (ucast (drop_bit 16 w) :: u16))) (put_byte 16 (ucast (ucast (drop_bit 16 w) :: u16))
    (put_byte 8 (ucast (drop_bit 8 (ucast w :: u16))) (put_byte 0 (ucast (ucast w :: u16)) v)))) n = bit w n"
    using n by cases (auto simp: bit_put_byte bit_ucast_iff bit_drop_bit_eq)
qed

lemma same_page:
  assumes "unat (a AND 0xFFF) + k < 4096"
  shows "unat ((a + of_nat k) AND 0xFFF) = unat (a AND 0xFFF) + k" "drop_bit 12 (a + of_nat k) = drop_bit 12 (a :: u32)"
proof -
  have m: "unat (x AND 0xFFF) = unat x mod 4096" for x :: u32
  proof -
    have "(0xFFF :: u32) = mask 12" by (simp add: mask_eq_exp_minus_1)
    then have "x AND 0xFFF = take_bit 12 x" by (simp only: take_bit_eq_mask)
    then show ?thesis by (simp add: take_bit_eq_mod unat_mod)
  qed
  have r: "unat a mod 4096 + k < 4096" using assms m by simp
  have "unat a < 1048576 * 4096" using unat_u32 [of a] by simp
  then have "unat a div 4096 < 1048576" by (rule less_mult_imp_div_less)
  then have "4096 * (unat a div 4096) + 4096 \<le> 2 ^ 32" by simp
  moreover have e: "unat a + k = 4096 * (unat a div 4096) + (unat a mod 4096 + k)" by simp
  ultimately have "unat a + k < 2 ^ 32" using r by linarith
  moreover have "a + of_nat k = of_nat (unat a + k)" by simp
  ultimately have u: "unat (a + of_nat k) = unat a + k" by (metis unat_small)
  show "unat ((a + of_nat k) AND 0xFFF) = unat (a AND 0xFFF) + k"
    using r unfolding m u by (metis mod_add_left_eq mod_less)
  have "unat (drop_bit 12 (a + of_nat k)) = unat (drop_bit 12 a)"
  proof -
    have "(4096 * q + x) div 4096 = q" if "x < 4096" for q x :: nat using that by simp
    then have "(unat a + k) div 4096 = unat a div 4096" using r e by metis
    then show ?thesis by (simp add: unat_drop_bit_word u)
  qed
  then show "drop_bit 12 (a + of_nat k) = drop_bit 12 a" by (simp add: word_unat_eq_iff)
qed

text \<open>The address \<open>a\<close> leads to the frame \<open>f\<close>, which is not part of the page tables it goes through.\<close>

definition page_here :: "nat \<Rightarrow> nat \<Rightarrow> u32 \<Rightarrow> jos \<Rightarrow> bool" where
  "page_here pgdir f a s \<longleftrightarrow> (\<forall>w. translate pgdir a w s = Inr f) \<and> f \<noteq> pgdir \<and> f \<noteq> PGNUM (read_pte (pgdir, PDX a) s)"

lemma page_here_same: "drop_bit 12 a = drop_bit 12 b \<Longrightarrow> page_here pgdir f a s = page_here pgdir f b s"
  using PDX_page [of a b] by (simp add: page_here_def translate_def)

lemma page_here_write: "page_here pgdir f a s \<Longrightarrow> page_here pgdir f a (write_pte (f, i) w s)"
  by (simp add: page_here_def translate_def Let_def read_write_pte)

lemma page_here_at: "page_here pgdir f a s \<Longrightarrow> unat (a AND 0xFFF) + k < 4096 \<Longrightarrow> page_here pgdir f (a + of_nat k) s"
  using same_page(2) page_here_same by metis

lemma write_pte_twice: "write_pte e v (write_pte e w s) = write_pte e v s"
  by (simp add: write_pte_def)

lemma store_byte_here:
  assumes "page_here pgdir f a s"
  shows "store_byte pgdir a b s = Inr (write_pte (f, unat (a AND 0xFFF) div 4)
    (put_byte (8 * (unat (a AND 0xFFF) mod 4)) b (mem s f (unat (a AND 0xFFF) div 4))) s)"
  using assms by (simp add: store_byte_def page_here_def put_byte_def Let_def)

lemma store32_here:
  assumes p: "page_here pgdir f a s" and o: "unat (a AND 0xFFF) = 4 * i" "i < 1024"
  shows "store32 pgdir a w s = Inr (write_pte (f, i) w s)"
proof -
  let ?p = "\<lambda>k b s. write_pte (f, i) (put_byte (8 * k) b (mem s f i)) s"
  have st: "store_byte pgdir (a + of_nat k) b t = Inr (?p k b t)" if "page_here pgdir f a t" "k < 4" for k b t
  proof -
    have l: "unat (a AND 0xFFF) + k < 4096" using o that(2) by simp
    have "unat ((a + of_nat k) AND 0xFFF) = 4 * i + k" using same_page(1) [OF l] o(1) by simp
    moreover have "(4 * i + k) div 4 = i" "(4 * i + k) mod 4 = k" using that(2) by simp_all
    ultimately show ?thesis using store_byte_here [OF page_here_at [OF that(1) l]] by simp
  qed
  note st0 = st [of _ 0, simplified] and st1 = st [of _ 1, simplified] and st2 = st [of _ 2, simplified] and st3 = st [of _ 3, simplified]
  have m: "mem (write_pte (f, i) v t) f i = v" for v t by (simp add: write_pte_def)
  have a3: "a + 2 + 1 = a + 3" by simp
  show ?thesis
    using p four_bytes [of w "mem s f i"]
    by (simp add: store32_def store16_def st0 st1 st2 st3 a3 page_here_write m write_pte_twice)
qed

lemma four_bytes_read:
  fixes w :: u32
  defines "b \<equiv> \<lambda>k. ucast (drop_bit k w) :: u8"
  shows "(ucast (ucast (b 0) OR push_bit 8 (ucast (b 8)) :: u16) OR
    push_bit 16 (ucast (ucast (b 16) OR push_bit 8 (ucast (b 24)) :: u16))) = w"
proof (rule bit_word_eqI)
  fix n assume "n < LENGTH(32)"
  then have n: "n < 32" by simp
  consider "n < 8" | "8 \<le> n" "n < 16" | "16 \<le> n" "n < 24" | "24 \<le> n" by linarith
  then show "bit (ucast (ucast (b 0) OR push_bit 8 (ucast (b 8)) :: u16) OR
    push_bit 16 (ucast (ucast (b 16) OR push_bit 8 (ucast (b 24)) :: u16)) :: u32) n = bit w n"
    unfolding b_def using n
    by cases (auto simp: bit_or_iff bit_push_bit_iff bit_ucast_iff bit_drop_bit_eq)
qed

lemma load32_here:
  assumes p: "page_here pgdir f a s" and o: "unat (a AND 0xFFF) = 4 * i" "i < 1024"
  shows "load32 pgdir a s = Inr (mem s f i)"
proof -
  have ld: "load_byte pgdir (a + of_nat k) s = Inr (ucast (drop_bit (8 * k) (mem s f i)))" if "k < 4" for k
  proof -
    have l: "unat (a AND 0xFFF) + k < 4096" using o that by simp
    have "unat ((a + of_nat k) AND 0xFFF) = 4 * i + k" using same_page(1) [OF l] o(1) by simp
    moreover have "(4 * i + k) div 4 = i" "(4 * i + k) mod 4 = k" using that by simp_all
    ultimately show ?thesis using page_here_at [OF p l] by (simp add: load_byte_def page_here_def)
  qed
  note ld0 = ld [of 0, simplified] and ld1 = ld [of 1, simplified] and ld2 = ld [of 2, simplified] and ld3 = ld [of 3, simplified]
  have a3: "a + 2 + 1 = a + 3" by simp
  show ?thesis using four_bytes_read [of "mem s f i"]
    by (simp add: load32_def load16_def ld0 ld1 ld2 ld3 a3)
qed

lemma next_word:
  assumes "unat (a AND 0xFFF) = 4 * i" "Suc i < 1024"
  shows "unat ((a + 4) AND 0xFFF) = 4 * Suc i" "drop_bit 12 (a + 4) = drop_bit 12 (a :: u32)"
  using same_page [of a 4] assms by simp_all

lemma store_words_here:
  assumes "page_here pgdir f a s" "unat (a AND 0xFFF) = 4 * i" "i + length ws \<le> 1024"
  shows "store_words pgdir a ws s = Inr (s\<lparr>mem := (mem s)(f := (\<lambda>j. if i \<le> j \<and> j < i + length ws then ws ! (j - i) else mem s f j))\<rparr>)"
  using assms
proof (induction ws arbitrary: a i s)
  case Nil
  have "(\<lambda>j. if i \<le> j \<and> j < i + length ([] :: u32 list) then [] ! (j - i) else mem s f j) = mem s f"
    by (auto simp: fun_eq_iff)
  then show ?case by (simp only: store_words.simps fun_upd_triv) simp
next
  case (Cons w ws)
  let ?s = "write_pte (f, i) w s"
  have one: "store32 pgdir a w s = Inr ?s" by (rule store32_here [OF Cons.prems(1,2)]) (use Cons.prems(3) in simp)
  have p: "page_here pgdir f a ?s" by (rule page_here_write [OF Cons.prems(1)])
  let ?g = "\<lambda>j. if i \<le> j \<and> j < i + length (w # ws) then (w # ws) ! (j - i) else mem s f j"
  show ?case
  proof (cases ws)
    case Nil
    then have "?g = (mem s f)(i := w)" by (auto simp: fun_eq_iff)
    then show ?thesis using one Nil by (simp add: write_pte_def fun_upd_def)
  next
    case (Cons v vs)
    then have i: "Suc i < 1024" using Cons.prems(3) by simp
    note nw = next_word [OF Cons.prems(2) i]
    have "store_words pgdir (a + 4) ws ?s = Inr (?s\<lparr>mem := (mem ?s)(f := (\<lambda>j. if Suc i \<le> j \<and> j < Suc i + length ws then ws ! (j - Suc i) else mem ?s f j))\<rparr>)"
      using p page_here_same [OF nw(2)] nw(1) Cons.prems(3) by (intro Cons.IH) simp_all
    moreover have "(\<lambda>j. if Suc i \<le> j \<and> j < Suc i + length ws then ws ! (j - Suc i) else mem ?s f j) = ?g"
      by (auto simp: fun_eq_iff write_pte_def nth_Cons' Suc_diff_le)
    ultimately show ?thesis using one by (simp add: write_pte_def) (simp add: fun_upd_def)
  qed
qed

lemma load_words_here:
  assumes "page_here pgdir f a s" "unat (a AND 0xFFF) = 4 * i" "i + n \<le> 1024"
  shows "load_words n pgdir a s = Inr (map (mem s f) [i..<i + n])"
  using assms
proof (induction n arbitrary: a i)
  case (Suc n)
  have one: "load32 pgdir a s = Inr (mem s f i)" by (rule load32_here [OF Suc.prems(1,2)]) (use Suc.prems(3) in simp)
  have "load_words n pgdir (a + 4) s = Inr (map (mem s f) [Suc i..<Suc i + n])"
  proof (cases n)
    case (Suc m)
    then have i: "Suc i < 1024" using Suc.prems(3) by simp
    note nw = next_word [OF Suc.prems(2) i]
    show ?thesis using Suc.prems page_here_same [OF nw(2)] nw(1) by (intro Suc.IH) simp_all
  qed simp
  then show ?case using one by (simp add: upt_conv_Cons del: upt_Suc)
qed simp

lemma user_mem_check_byte:
  assumes pg: "pgdir_of e s = Inr pgdir" and find: "pgdir_find pgdir a s = Inr (Some pte)"
    and ok: "read_pte pte s AND PTE_P \<noteq> 0" "read_pte pte s AND perm = perm" and a: "a < ULIM"
  shows "user_mem_check e a 1 perm s = Inr None"
proof -
  have m: "unat (a mod 4096) = unat a mod 4096" by (simp add: unat_mod)
  have le: "a mod 4096 \<le> a" by (simp add: word_le_nat_alt m)
  have sub: "unat (a - a mod 4096) = unat a - unat a mod 4096" using m le by (simp add: unat_sub)
  have al: "unat a < unat ULIM" using a by (simp add: word_less_nat_alt)
  then have "unat a + 4096 < 2 ^ 32" by (simp add: ULIM_def MMIOBASE_def)
  then have u: "unat (a + 4096) = unat a + 4096"
    using unat_small [of "unat a + 4096"] by simp
  have "unat ((a + 4096) mod 4096) = unat a mod 4096" using u by (simp add: unat_mod)
  then have "(a + 4096) mod 4096 = a mod 4096" using m by (simp add: word_unat_eq_iff)
  then have up: "ROUNDUP (a + 1) PGSIZE = (a - a mod 4096) + 4096" by (simp add: ROUNDUP_def ROUNDDOWN_def PGSIZE_def add.commute)
  have "unat a - unat a mod 4096 + 4096 < 2 ^ 32" using \<open>unat a + 4096 < 2 ^ 32\<close> by simp
  then have un: "unat ((a - a mod 4096) + 4096) = unat a - unat a mod 4096 + 4096"
  proof -
    have "(a - a mod 4096) + 4096 = of_nat (unat (a - a mod 4096) + 4096)" by simp
    then show ?thesis using unat_small \<open>unat a - unat a mod 4096 + 4096 < 2 ^ 32\<close> unfolding sub by metis
  qed
  have rd: "ROUNDDOWN a PGSIZE = a - a mod 4096" by (simp add: ROUNDDOWN_def PGSIZE_def)
  have "a - a mod 4096 \<le> a" using sub by (simp add: word_le_nat_alt)
  then have lo: "\<not> ROUNDDOWN a PGSIZE \<ge> ULIM" using a rd by simp
  have "pgdir_find pgdir (ROUNDDOWN a PGSIZE) s = Inr (Some pte)" using find pgdir_find_page [OF ROUNDDOWN_page] by simp
  then have "user_mem_loop (Suc 0) pgdir a (ROUNDDOWN a PGSIZE) perm s = Inr None" using ok lo by simp
  moreover have "(unat (ROUNDUP (a + 1) PGSIZE) - unat (ROUNDDOWN a PGSIZE)) div 4096 = Suc 0" using up rd un sub by simp
  ultimately show ?thesis using pg by (simp only: user_mem_check_def Let_def bindE_simps)
qed


section \<open>A page fault that the program handles\<close>

text \<open>
  C23. A page fault on a page that is neither present nor on disk, in a program with a page fault
  upcall whose exception stack is a writable page of its own: the kernel writes the fault address
  and the registers of the program below the top of the exception stack, or below the frame of the
  fault that is being handled with one word between them, and the program goes on at its upcall
  with the stack pointer at that frame. No other memory changes.
\<close>

theorem fault_reaches_upcall:
  assumes cur: "curenv s = Some c" "c < length (envs s)" and b: "b = envs s ! c" "tf = env_tf b"
    and user: "tf_cs tf AND 3 \<noteq> 0" "env_pgdir b = Some pgdir" "env_pgfault_upcall b \<noteq> 0"
    and fault: "pgdir_find pgdir va s = Inr (Some e)" "read_pte e s AND PTE_P = 0" "read_pte e s AND PTE_ON_DISK = 0"
    and stack: "a = next_tf_addr tf" "pgdir_find pgdir a s = Inr (Some sp)" "read_pte sp s AND PTE_P \<noteq> 0"
      "read_pte sp s AND (PTE_W OR PTE_U) = PTE_W OR PTE_U" "read_pte (pgdir, PDX a) s AND PTE_W \<noteq> 0" "a < ULIM"
      "f = PGNUM (read_pte sp s)" "f \<noteq> pgdir" "f \<noteq> fst sp"
    and room: "unat (a AND 0xFFF) = 4 * i" "i + 13 \<le> 1024"
  shows "\<exists>t. page_fault_handler va s = Inr (Runs c, t) \<and> load_words 13 pgdir a t = Inr (utrapframe va tf) \<and>
    tf_eip (env_tf (envs t ! c)) = env_pgfault_upcall b \<and> tf_esp (env_tf (envs t ! c)) = a \<and>
    tf_regs (env_tf (envs t ! c)) = tf_regs tf \<and>
    (\<forall>g j. g \<noteq> f \<or> j < i \<or> i + 13 \<le> j \<longrightarrow> mem t g j = mem s g j)"
proof -
  have sp: "sp = (PGNUM (read_pte (pgdir, PDX a) s), PTX a)" using stack(2) by (auto simp: pgdir_find_eq Let_def split: if_splits)
  have W: "read_pte sp s AND PTE_W \<noteq> 0"
  proof
    assume "read_pte sp s AND PTE_W = 0"
    moreover have "(PTE_W OR PTE_U) AND PTE_W = PTE_W" by (simp add: PTE_W_def PTE_U_def)
    ultimately have "(read_pte sp s AND (PTE_W OR PTE_U)) AND PTE_W = 0" by (simp only: and.assoc)
    then show False unfolding stack(4) by (simp add: PTE_W_def PTE_U_def)
  qed
  have tr: "translate pgdir a w s = Inr f" for w
    using translate_find [OF stack(2,3)] W stack(5,7) by blast
  then have here: "page_here pgdir f a s" using stack(8,9) sp by (simp add: page_here_def)
  have len: "length (utrapframe va tf) = 13" by (simp add: utrapframe_def Let_def)
  let ?g = "\<lambda>j. if i \<le> j \<and> j < i + 13 then utrapframe va tf ! (j - i) else mem s f j"
  let ?s1 = "s\<lparr>mem := (mem s)(f := ?g)\<rparr>"
  have st: "store_words pgdir a (utrapframe va tf) s = Inr ?s1"
    using store_words_here [OF here room(1), of "utrapframe va tf"] room(2) len by simp
  have "user_mem_check (Some c) a 1 (PTE_W OR PTE_U) s = Inr None"
    by (rule user_mem_check_byte [OF _ stack(2,3,4,6)]) (use cur b user in \<open>simp add: pgdir_of_def\<close>)
  then have as: "user_mem_assert c a 1 PTE_W s = Inr (Returns 0, s)" by (simp add: user_mem_assert_def)
  let ?b = "b\<lparr>env_tf := tf\<lparr>tf_eip := env_pgfault_upcall b, tf_esp := a\<rparr>\<rparr>"
  let ?t = "?s1\<lparr>envs := (envs s)[c := ?b]\<rparr>"
  have run: "env_run c ?t = Inr ?t" using cur by (simp add: env_run_def)
  have "page_fault_handler va s = Inr (Runs c, ?t)"
    using cur user fault as st run unfolding b stack(1)
    by (simp add: page_fault_handler_def Let_def guardE_def set_env_def)
  moreover have "load_words 13 pgdir a ?t = Inr (utrapframe va tf)"
  proof -
    have "page_here pgdir f a ?t" using here by (simp add: page_here_def translate_def Let_def read_pte_def)
    from load_words_here [OF this room] have "load_words 13 pgdir a ?t = Inr (map (mem ?t f) [i..<i + 13])" .
    also have "map (mem ?t f) [i..<i + 13] = utrapframe va tf"
      by (rule nth_equalityI) (simp_all add: len)
    finally show ?thesis .
  qed
  ultimately show ?thesis using cur by (intro exI [of _ ?t]) auto
qed


text \<open>An environment with an upcall, and a page at the top of its address space in frame 3.\<close>

definition ex_upcall :: jos where
  "ex_upcall = ex_kernel\<lparr>mem := (\<lambda>f i. if f = 1 \<and> i = 954 then 0x2007 else if f = 2 \<and> i = 1023 then 0x3007
       else if f = 1 \<and> i = 0 then 0x5007 else 0),
     envs := (envs ex_kernel)[0 := (envs ex_kernel ! 0)\<lparr>env_pgfault_upcall := 0x800020, env_tf := user_tf\<rparr>]\<rparr>"

theorem fault_reaches_upcall_witness:
  "\<exists>t. page_fault_handler 0x5000 ex_upcall = Inr (Runs 0, t) \<and>
    load_words 13 1 0xEEBFFFCC t = Inr (utrapframe 0x5000 user_tf) \<and> tf_eip (env_tf (envs t ! 0)) = 0x800020"
proof -
  have a: "PDX 0x5000 = 0" "PTX 0x5000 = 5" "PDX 0xEEBFFFCC = 954" "PTX 0xEEBFFFCC = 1023"
    "PGNUM 0x2007 = 2" "PGNUM 0x3007 = 3" "PGNUM 0x5007 = 5" by (simp_all add: PDX_def PTX_def PGNUM_def)
  have r: "read_pte (1, 0) ex_upcall = 0x5007" "read_pte (1, 954) ex_upcall = 0x2007" "read_pte (2, 1023) ex_upcall = 0x3007"
    "read_pte (5, 5) ex_upcall = 0" "npages ex_upcall = 8"
    by (simp_all add: read_pte_def ex_upcall_def ex_kernel_machine)
  have f: "pgdir_find 1 0x5000 ex_upcall = Inr (Some (5, 5))" "pgdir_find 1 0xEEBFFFCC ex_upcall = Inr (Some (2, 1023))"
    using a r by (simp_all add: pgdir_find_eq PTE_P_def)
  have e: "envs ex_upcall ! 0 = (envs ex_kernel ! 0)\<lparr>env_pgfault_upcall := 0x800020, env_tf := user_tf\<rparr>"
    "length (envs ex_upcall) = 1024" "curenv ex_upcall = Some 0"
    using ex_kernel_envs(1,2) by (simp_all add: ex_upcall_def NENV_def)
  have t: "next_tf_addr user_tf = 0xEEBFFFCC" "tf_cs user_tf AND 3 = 3"
    by (simp_all add: next_tf_addr_def user_tf_def zero_tf_def USTACKTOP_def UXSTACKTOP_def UTOP_def PGSIZE_def GD_UT_def)
  have o: "unat ((0xEEBFFFCC :: u32) AND 0xFFF) = 4 * 1011" by simp
  have "\<exists>t. page_fault_handler 0x5000 ex_upcall = Inr (Runs 0, t) \<and>
    load_words 13 1 0xEEBFFFCC t = Inr (utrapframe 0x5000 user_tf) \<and>
    tf_eip (env_tf (envs t ! 0)) = env_pgfault_upcall (envs ex_upcall ! 0) \<and> tf_esp (env_tf (envs t ! 0)) = 0xEEBFFFCC \<and>
    tf_regs (env_tf (envs t ! 0)) = tf_regs user_tf \<and>
    (\<forall>g j. g \<noteq> 3 \<or> j < 1011 \<or> 1011 + 13 \<le> j \<longrightarrow> mem t g j = mem ex_upcall g j)"
  proof (rule fault_reaches_upcall [OF e(3) _ refl _ _ _ _ f(1) _ _ t(1) [symmetric] f(2)])
    show "3 = PGNUM (read_pte (2, 1023) ex_upcall)" using a r by simp
    show "read_pte (2, 1023) ex_upcall AND (PTE_W OR PTE_U) = PTE_W OR PTE_U" using r by (simp add: PTE_W_def PTE_U_def)
    show "read_pte (1, PDX 0xEEBFFFCC) ex_upcall AND PTE_W \<noteq> 0" using a r by (simp add: PTE_W_def)
    show "(0xEEBFFFCC :: u32) < ULIM" by (simp add: ULIM_def MMIOBASE_def)
    show "unat ((0xEEBFFFCC :: u32) AND 0xFFF) = 4 * 1011" by (rule o)
  qed (use r e t ex_kernel_envs(3) in \<open>simp_all add: PTE_P_def PTE_ON_DISK_def\<close>)
  then show ?thesis using e(1) by auto
qed

end
