(* ===== verification/CString.thy ===== *)
theory CString
  imports Prelude
begin

text \<open>
  The string library of JOS (\<open>os_final_project/code/lib/string.c\<close>). The memory a call can touch is a
  list of bytes, an address an index into it; an access past its end is a fault, and so ends every
  loop that looks for a NUL that is not there. The code is the one with \<open>ASM\<close>, which copies and fills
  with string instructions of one or four bytes.
\<close>

section \<open>Strings\<close>

function strlen_from :: "u8 list \<Rightarrow> nat \<Rightarrow> int \<Rightarrow> int c" where
  "strlen_from m s n = bindE (rd m s) (\<lambda>c.
     if c = 0 then Inr n
     else bindE (guardE SignedOverflow (in_i32 (n + 1))) (\<lambda>_. strlen_from m (s + 1) (n + 1)))"
  by pat_completeness auto
termination by (relation "measure (\<lambda>(m, s, n). length m - s)") (auto simp: rd_Inr_iff)

definition strlen :: "u8 list \<Rightarrow> nat \<Rightarrow> int c" where "strlen m s = strlen_from m s 0"

fun strnlen_from :: "u8 list \<Rightarrow> nat \<Rightarrow> nat \<Rightarrow> int \<Rightarrow> int c" where
  "strnlen_from m s 0 n = Inr n"
| "strnlen_from m s (Suc sz) n = bindE (rd m s) (\<lambda>c.
     if c = 0 then Inr n
     else bindE (guardE SignedOverflow (in_i32 (n + 1))) (\<lambda>_. strnlen_from m (s + 1) sz (n + 1)))"

definition strnlen :: "u8 list \<Rightarrow> nat \<Rightarrow> nat \<Rightarrow> int c" where "strnlen m s sz = strnlen_from m s sz 0"

function strcpy_loop :: "nat \<Rightarrow> nat \<Rightarrow> u8 list \<Rightarrow> u8 list c" where
  "strcpy_loop dst src m = bindE (rd m src) (\<lambda>c. bindE (wr m dst c) (\<lambda>m.
     if c = 0 then Inr m else strcpy_loop (dst + 1) (src + 1) m))"
  by pat_completeness auto
termination by (relation "measure (\<lambda>(dst, src, m). length m - src)") (auto simp: rd_Inr_iff wr_Inr_iff)

text \<open>The pointer returned, and the memory.\<close>

definition strcpy :: "nat \<Rightarrow> nat \<Rightarrow> u8 list \<Rightarrow> (nat \<times> u8 list) c" where
  "strcpy dst src m = bindE (strcpy_loop dst src m) (\<lambda>m. Inr (dst, m))"

definition strcat :: "nat \<Rightarrow> nat \<Rightarrow> u8 list \<Rightarrow> (nat \<times> u8 list) c" where
  "strcat dst src m = bindE (strlen m dst) (\<lambda>len. bindE (strcpy (dst + nat len) src m) (\<lambda>(r, m). Inr (dst, m)))"

fun strncpy_loop :: "nat \<Rightarrow> nat \<Rightarrow> nat \<Rightarrow> u8 list \<Rightarrow> u8 list c" where
  "strncpy_loop dst src 0 m = Inr m"
| "strncpy_loop dst src (Suc k) m = bindE (rd m src) (\<lambda>c. bindE (wr m dst c) (\<lambda>m. bindE (rd m src) (\<lambda>c.
     strncpy_loop (dst + 1) (if c \<noteq> 0 then src + 1 else src) k m)))"

definition strncpy :: "nat \<Rightarrow> nat \<Rightarrow> nat \<Rightarrow> u8 list \<Rightarrow> (nat \<times> u8 list) c" where
  "strncpy dst src sz m = bindE (strncpy_loop dst src sz m) (\<lambda>m. Inr (dst, m))"

text \<open>\<open>k\<close> is what \<open>--size\<close> gives.\<close>

fun strlcpy_loop :: "nat \<Rightarrow> nat \<Rightarrow> nat \<Rightarrow> u8 list \<Rightarrow> (nat \<times> u8 list) c" where
  "strlcpy_loop dst src 0 m = Inr (dst, m)"
| "strlcpy_loop dst src (Suc k) m = bindE (rd m src) (\<lambda>c.
     if c = 0 then Inr (dst, m) else bindE (wr m dst c) (\<lambda>m. strlcpy_loop (dst + 1) (src + 1) k m))"

definition strlcpy :: "nat \<Rightarrow> nat \<Rightarrow> nat \<Rightarrow> u8 list \<Rightarrow> (nat \<times> u8 list) c" where
  "strlcpy dst src sz m =
     (if sz > 0
      then bindE (strlcpy_loop dst src (sz - 1) m) (\<lambda>(dst', m). bindE (wr m dst' 0) (\<lambda>m. Inr (dst' - dst, m)))
      else Inr (0, m))"

function strcmp :: "u8 list \<Rightarrow> nat \<Rightarrow> nat \<Rightarrow> int c" where
  "strcmp m p q = bindE (rd m p) (\<lambda>a.
     if a \<noteq> 0
     then bindE (rd m q) (\<lambda>b. if a = b then strcmp m (p + 1) (q + 1) else Inr (uint a - uint b))
     else bindE (rd m q) (\<lambda>b. Inr (uint a - uint b)))"
  by pat_completeness auto
termination by (relation "measure (\<lambda>(m, p, q). length m - p)") (auto simp: rd_Inr_iff)

fun strncmp :: "u8 list \<Rightarrow> nat \<Rightarrow> nat \<Rightarrow> nat \<Rightarrow> int c" where
  "strncmp m p q 0 = Inr 0"
| "strncmp m p q (Suc n) = bindE (rd m p) (\<lambda>a.
     if a \<noteq> 0
     then bindE (rd m q) (\<lambda>b. if a = b then strncmp m (p + 1) (q + 1) n else Inr (uint a - uint b))
     else bindE (rd m q) (\<lambda>b. Inr (uint a - uint b)))"

function strchr :: "u8 list \<Rightarrow> nat \<Rightarrow> u8 \<Rightarrow> nat option c" where
  "strchr m s ch = bindE (rd m s) (\<lambda>c.
     if c = 0 then Inr None else if c = ch then Inr (Some s) else strchr m (s + 1) ch)"
  by pat_completeness auto
termination by (relation "measure (\<lambda>(m, s, ch). length m - s)") (auto simp: rd_Inr_iff)

function strfind :: "u8 list \<Rightarrow> nat \<Rightarrow> u8 \<Rightarrow> nat c" where
  "strfind m s ch = bindE (rd m s) (\<lambda>c.
     if c = 0 then Inr s else if c = ch then Inr s else strfind m (s + 1) ch)"
  by pat_completeness auto
termination by (relation "measure (\<lambda>(m, s, ch). length m - s)") (auto simp: rd_Inr_iff)

declare strlen_from.simps [simp del] strcpy_loop.simps [simp del] strcmp.simps [simp del]
  strchr.simps [simp del] strfind.simps [simp del]

section \<open>Memory\<close>

text \<open>A string instruction moves a unit of one or four bytes: all of it is read before it is written.\<close>

fun rd_unit :: "nat \<Rightarrow> nat \<Rightarrow> u8 list \<Rightarrow> u8 list c" where
  "rd_unit 0 a m = Inr []"
| "rd_unit (Suc k) a m = bindE (rd m a) (\<lambda>b. bindE (rd_unit k (a + 1) m) (\<lambda>bs. Inr (b # bs)))"

fun wr_unit :: "nat \<Rightarrow> u8 list \<Rightarrow> u8 list \<Rightarrow> u8 list c" where
  "wr_unit a [] m = Inr m"
| "wr_unit a (b # bs) m = bindE (wr m a b) (wr_unit (a + 1) bs)"

text \<open>\<open>cld; rep stos\<close> and \<open>cld; rep movs\<close> with \<open>k\<close> units left; \<open>std; rep movs\<close> with pointers to the ends.\<close>

fun rep_stos :: "nat \<Rightarrow> nat \<Rightarrow> u8 list \<Rightarrow> u8 list \<Rightarrow> u8 list c" where
  "rep_stos 0 d u m = Inr m"
| "rep_stos (Suc k) d u m = bindE (wr_unit d u m) (rep_stos k (d + length u) u)"

fun rep_movs_up :: "nat \<Rightarrow> nat \<Rightarrow> nat \<Rightarrow> nat \<Rightarrow> u8 list \<Rightarrow> u8 list c" where
  "rep_movs_up 0 sz d s m = Inr m"
| "rep_movs_up (Suc k) sz d s m = bindE (rd_unit sz s m) (\<lambda>u. bindE (wr_unit d u m) (rep_movs_up k sz (d + sz) (s + sz)))"

fun rep_movs_down :: "nat \<Rightarrow> nat \<Rightarrow> nat \<Rightarrow> nat \<Rightarrow> u8 list \<Rightarrow> u8 list c" where
  "rep_movs_down 0 sz d s m = Inr m"
| "rep_movs_down (Suc k) sz d s m =
     bindE (rd_unit sz (s - sz) m) (\<lambda>u. bindE (wr_unit (d - sz) u m) (rep_movs_down k sz (d - sz) (s - sz)))"

text \<open>The four bytes of a word, low byte first.\<close>

definition word_bytes :: "u32 \<Rightarrow> u8 list" where
  "word_bytes w = map (\<lambda>i. ucast (drop_bit (8 * i) w)) [0..<4]"

definition memset :: "nat \<Rightarrow> u32 \<Rightarrow> nat \<Rightarrow> u8 list \<Rightarrow> (nat \<times> u8 list) c" where
  "memset v ch n m =
     (if n = 0 then Inr (v, m)
      else if v mod 4 = 0 \<and> n mod 4 = 0
      then let ch = ch AND 0xFF;
               ch = push_bit 24 ch OR push_bit 16 ch OR push_bit 8 ch OR ch
           in bindE (rep_stos (n div 4) v (word_bytes ch) m) (\<lambda>m. Inr (v, m))
      else bindE (rep_stos n v [ucast ch] m) (\<lambda>m. Inr (v, m)))"

definition memmove :: "nat \<Rightarrow> nat \<Rightarrow> nat \<Rightarrow> u8 list \<Rightarrow> (nat \<times> u8 list) c" where
  "memmove dst src n m =
     (let s = src; d = dst
      in if s < d \<and> s + n > d
         then let s = s + n; d = d + n
              in bindE (if s mod 4 = 0 \<and> d mod 4 = 0 \<and> n mod 4 = 0
                        then rep_movs_down (n div 4) 4 d s m else rep_movs_down n 1 d s m) (\<lambda>m. Inr (dst, m))
         else bindE (if s mod 4 = 0 \<and> d mod 4 = 0 \<and> n mod 4 = 0
                     then rep_movs_up (n div 4) 4 d s m else rep_movs_up n 1 d s m) (\<lambda>m. Inr (dst, m)))"

definition memcpy :: "nat \<Rightarrow> nat \<Rightarrow> nat \<Rightarrow> u8 list \<Rightarrow> (nat \<times> u8 list) c" where
  "memcpy dst src n m = memmove dst src n m"

fun memcmp :: "nat \<Rightarrow> nat \<Rightarrow> nat \<Rightarrow> u8 list \<Rightarrow> int c" where
  "memcmp s1 s2 0 m = Inr 0"
| "memcmp s1 s2 (Suc n) m = bindE (rd m s1) (\<lambda>a. bindE (rd m s2) (\<lambda>b.
     if a \<noteq> b then Inr (uint a - uint b) else memcmp (s1 + 1) (s2 + 1) n m))"

fun memfind :: "nat \<Rightarrow> u32 \<Rightarrow> nat \<Rightarrow> u8 list \<Rightarrow> nat c" where
  "memfind s ch 0 m = Inr s"
| "memfind s ch (Suc n) m = bindE (rd m s) (\<lambda>b. if b = ucast ch then Inr s else memfind (s + 1) ch n m)"

section \<open>Numbers\<close>

text \<open>The value of a character as a digit, if it is one.\<close>

definition digit_of :: "u8 \<Rightarrow> int option" where
  "digit_of c = (let x = uint c in
     if 48 \<le> x \<and> x \<le> 57 then Some (x - 48)
     else if 97 \<le> x \<and> x \<le> 122 then Some (x - 97 + 10)
     else if 65 \<le> x \<and> x \<le> 90 then Some (x - 65 + 10) else None)"

function skip_space :: "u8 list \<Rightarrow> nat \<Rightarrow> nat c" where
  "skip_space m s = bindE (rd m s) (\<lambda>c. if c = 32 \<or> c = 9 then skip_space m (s + 1) else Inr s)"
  by pat_completeness auto
termination by (relation "measure (\<lambda>(m, s). length m - s)") (auto simp: rd_Inr_iff)

function digits :: "u8 list \<Rightarrow> nat \<Rightarrow> int \<Rightarrow> int \<Rightarrow> (int \<times> nat) c" where
  "digits m s base v = bindE (rd m s) (\<lambda>c. case digit_of c of
     None \<Rightarrow> Inr (v, s)
   | Some dig \<Rightarrow> if dig \<ge> base then Inr (v, s)
       else bindE (guardE SignedOverflow (in_i32 (v * base))) (\<lambda>_.
            bindE (guardE SignedOverflow (in_i32 (v * base + dig))) (\<lambda>_. digits m (s + 1) base (v * base + dig))))"
  by pat_completeness auto
termination by (relation "measure (\<lambda>(m, s, base, v). length m - s)") (auto simp: rd_Inr_iff)

declare skip_space.simps [simp del] digits.simps [simp del]

text \<open>The value, and \<open>*endptr\<close>. The second character is read only after a \<open>0\<close>.\<close>

definition strtol :: "u8 list \<Rightarrow> nat \<Rightarrow> int \<Rightarrow> (int \<times> nat) c" where
  "strtol m s base =
     bindE (skip_space m s) (\<lambda>s. bindE (rd m s) (\<lambda>c.
     let (s, neg) = (if c = 43 then (s + 1, False) else if c = 45 then (s + 1, True) else (s, False))
     in bindE (rd m s) (\<lambda>c0.
        bindE (if (base = 0 \<or> base = 16) \<and> c0 = 48 then rd m (s + 1) else Inr 0) (\<lambda>c1.
        let (s, base) = (if (base = 0 \<or> base = 16) \<and> c0 = 48 \<and> c1 = 120 then (s + 2, 16)
                         else if base = 0 \<and> c0 = 48 then (s + 1, 8)
                         else if base = 0 then (s, 10) else (s, base))
        in bindE (digits m s base 0) (\<lambda>(v, s). Inr (if neg then - v else v, s))))))"

end
