(* ===== verification/CPrint.thy ===== *)
theory CPrint
  imports CString Jos
begin

text \<open>
  Formatted output of JOS (\<open>os_final_project/code/lib/printfmt.c\<close>). The characters go to \<open>putch\<close> one by
  one; here they are a list. The variable arguments are the words of the stack, a \<open>long long\<close> two of
  them, low word first; taking one that is not there is a fault. Strings are at addresses of a memory.
\<close>

section \<open>Numbers\<close>

definition digit_char :: "nat \<Rightarrow> u8 c" where
  "digit_char d = rd [48, 49, 50, 51, 52, 53, 54, 55, 56, 57, 97, 98, 99, 100, 101, 102] d"

definition padding :: "int \<Rightarrow> u8 \<Rightarrow> u8 list" where
  "padding width padc = replicate (nat width) padc"

text \<open>Base 0 divides by 0, and base 1 does not end.\<close>

function printnum :: "nat \<Rightarrow> nat \<Rightarrow> int \<Rightarrow> u8 \<Rightarrow> u8 list c" where
  "printnum num base width padc =
     (if base = 0 then Inl DivByZero
      else if base = 1 \<and> num \<ge> base then Inl Diverges
      else bindE (guardE SignedOverflow (in_i32 (width - 1))) (\<lambda>_.
           bindE (if num \<ge> base then printnum (num div base) base (width - 1) padc
                  else Inr (padding (width - 1) padc)) (\<lambda>out.
           bindE (digit_char (num mod base)) (\<lambda>ch. Inr (out @ [ch])))))"
  by pat_completeness auto
termination
  by (relation "measure (\<lambda>(num, base, width, padc). num)") auto

declare printnum.simps [simp del]

section \<open>Arguments\<close>

definition va_word :: "u32 list \<Rightarrow> (u32 \<times> u32 list) c" where
  "va_word ap = (case ap of [] \<Rightarrow> Inl OutOfBounds | w # ap \<Rightarrow> Inr (w, ap))"

definition va_long_long :: "u32 list \<Rightarrow> (u64 \<times> u32 list) c" where
  "va_long_long ap = bindE (va_word ap) (\<lambda>(lo, ap). bindE (va_word ap) (\<lambda>(hi, ap).
     Inr (ucast lo OR push_bit 32 (ucast hi), ap)))"

definition getuint :: "u32 list \<Rightarrow> nat \<Rightarrow> (u64 \<times> u32 list) c" where
  "getuint ap lflag = (if lflag \<ge> 2 then va_long_long ap else bindE (va_word ap) (\<lambda>(w, ap). Inr (ucast w, ap)))"

definition getint :: "u32 list \<Rightarrow> nat \<Rightarrow> (u64 \<times> u32 list) c" where
  "getint ap lflag = (if lflag \<ge> 2 then va_long_long ap else bindE (va_word ap) (\<lambda>(w, ap). Inr (scast w, ap)))"

section \<open>Strings\<close>

text \<open>
  The loop of \<open>%s\<close>: what is printed and the width that is left. A negative precision is no limit.
\<close>

function puts_loop :: "u8 list \<Rightarrow> nat \<Rightarrow> int \<Rightarrow> int \<Rightarrow> bool \<Rightarrow> (u8 list \<times> int) c" where
  "puts_loop m p precision width altflag =
     bindE (rd m p) (\<lambda>ch.
     if ch = 0 \<or> \<not> (precision < 0 \<or> precision - 1 \<ge> 0) then Inr ([], width)
     else bindE (guardE SignedOverflow (in_i32 (width - 1))) (\<lambda>_.
          bindE (puts_loop m (p + 1) (if precision < 0 then precision else precision - 1) (width - 1) altflag) (\<lambda>(out, w).
          Inr ((if altflag \<and> (ch < 32 \<or> ch > 126) then 63 else ch) # out, w))))"
  by pat_completeness auto
termination by (relation "measure (\<lambda>(m, p, r). length m - p)") (auto simp: rd_Inr_iff)

declare puts_loop.simps [simp del]

text \<open>\<open>strnlen\<close> takes the precision as unsigned: a negative one is no limit there either.\<close>

definition print_s :: "u8 list \<Rightarrow> nat \<Rightarrow> int \<Rightarrow> int \<Rightarrow> u8 \<Rightarrow> bool \<Rightarrow> u8 list c" where
  "print_s m p precision width padc altflag =
     bindE (if width > 0 \<and> padc \<noteq> 45
            then bindE (strnlen m p (nat (precision mod 2 ^ 32))) (\<lambda>n.
                 Inr (padding (width - n) padc, min (width - n) 0))
            else Inr ([], width)) (\<lambda>(pre, width).
     bindE (puts_loop m p precision width altflag) (\<lambda>(out, width).
     Inr (pre @ out @ padding width 32)))"

section \<open>The format\<close>

text \<open>The locals of \<open>vprintfmt\<close> that a \<open>%\<close> sequence sets.\<close>

record spec =
  padc :: u8
  width :: int
  precision :: int
  lflag :: nat
  altflag :: bool

definition no_spec :: spec where
  "no_spec = \<lparr> padc = 32, width = -1, precision = -1, lflag = 0, altflag = False \<rparr>"

definition process_precision :: "spec \<Rightarrow> spec" where
  "process_precision sp = (if width sp < 0 then sp\<lparr>width := precision sp, precision := -1\<rparr> else sp)"

definition is_dec :: "u8 \<Rightarrow> bool" where "is_dec ch \<longleftrightarrow> 48 \<le> ch \<and> ch \<le> 57"

text \<open>\<open>for (precision = 0;; ++fmt)\<close>, with the digit \<open>ch\<close> read and \<open>fmt\<close> at \<open>i\<close>: the number, and where \<open>fmt\<close> is then.\<close>

function fmt_number :: "u8 list \<Rightarrow> nat \<Rightarrow> int \<Rightarrow> u8 \<Rightarrow> (int \<times> nat) c" where
  "fmt_number f i n ch =
     bindE (guardE SignedOverflow (in_i32 (n * 10) \<and> in_i32 (n * 10 + uint ch))) (\<lambda>_.
     bindE (rd f i) (\<lambda>c.
       if is_dec c then fmt_number f (i + 1) (n * 10 + uint ch - 48) c
       else Inr (n * 10 + uint ch - 48, i)))"
  by pat_completeness auto
termination by (relation "measure (\<lambda>(f, i, r). length f - i)") (auto simp: rd_Inr_iff)

declare fmt_number.simps [simp del]

lemma fmt_number_forward: "fmt_number f i n ch = Inr (k, j) \<Longrightarrow> i \<le> j \<and> j < length f"
proof (induction f i n ch arbitrary: k j rule: fmt_number.induct)
  case (1 f i n ch)
  from "1.prems" show ?case
    by (subst (asm) fmt_number.simps)
      (auto simp: bindE_Inr_iff rd_Inr_iff split: if_splits dest!: "1.IH"[rotated 2])
qed

text \<open>
  From \<open>reswitch\<close>: the flags up to the first character that is none, that character, where the format
  goes on, and the arguments that are left.
\<close>

function fmt_spec :: "u8 list \<Rightarrow> nat \<Rightarrow> spec \<Rightarrow> u32 list \<Rightarrow> (u8 \<times> nat \<times> spec \<times> u32 list) c" where
  "fmt_spec f i sp ap = bindE (rd f i) (\<lambda>ch.
     if ch = 45 then fmt_spec f (i + 1) (sp\<lparr>padc := 45\<rparr>) ap
     else if ch = 48 then fmt_spec f (i + 1) (sp\<lparr>padc := 48\<rparr>) ap
     else if is_dec ch
     then bindE (fmt_number f (i + 1) 0 ch) (\<lambda>(n, j). fmt_spec f j (process_precision (sp\<lparr>precision := n\<rparr>)) ap)
     else if ch = 42
     then bindE (va_word ap) (\<lambda>(w, ap). fmt_spec f (i + 1) (process_precision (sp\<lparr>precision := sint w\<rparr>)) ap)
     else if ch = 46 then fmt_spec f (i + 1) (if width sp < 0 then sp\<lparr>width := 0\<rparr> else sp) ap
     else if ch = 35 then fmt_spec f (i + 1) (sp\<lparr>altflag := True\<rparr>) ap
     else if ch = 108 then fmt_spec f (i + 1) (sp\<lparr>lflag := lflag sp + 1\<rparr>) ap
     else Inr (ch, i + 1, sp, ap))"
  by pat_completeness auto
termination
  by (relation "measure (\<lambda>(f, i, r). length f - i)")
    (auto simp: rd_Inr_iff dest!: fmt_number_forward)

declare fmt_spec.simps [simp del]

text \<open>The text up to the next \<open>%\<close>, and whether there is one, with the place after it.\<close>

function fmt_literal :: "u8 list \<Rightarrow> nat \<Rightarrow> (u8 list \<times> nat option) c" where
  "fmt_literal f i = bindE (rd f i) (\<lambda>ch.
     if ch = 37 then Inr ([], Some (i + 1))
     else if ch = 0 then Inr ([], None)
     else bindE (fmt_literal f (i + 1)) (\<lambda>(out, r). Inr (ch # out, r)))"
  by pat_completeness auto
termination by (relation "measure (\<lambda>(f, i). length f - i)") (auto simp: rd_Inr_iff)

declare fmt_literal.simps [simp del]

text \<open>An unknown sequence: \<open>for (fmt--; fmt[-1] != '%'; fmt--)\<close>, from the place before its last character.\<close>

fun fmt_back :: "u8 list \<Rightarrow> nat \<Rightarrow> nat c" where
  "fmt_back f 0 = Inl OutOfBounds"
| "fmt_back f (Suc i) = bindE (rd f i) (\<lambda>c. if c \<noteq> 37 then fmt_back f i else Inr (Suc i))"

section \<open>Conversions\<close>

definition ascii :: "string \<Rightarrow> u8 list" where "ascii s = map (\<lambda>c. of_nat (of_char c)) s"

definition MAXERROR :: int where "MAXERROR = 16"

definition error_string :: "string option list" where
  "error_string = [None, Some ''unspecified error'', Some ''bad environment'', Some ''invalid parameter'',
     Some ''out of memory'', Some ''out of environments'', Some ''segmentation fault'',
     Some ''env is not recving'', Some ''unexpected end of file'', Some ''no free space on disk'',
     Some ''too many files are open'', Some ''file or block not found'', Some ''invalid path'',
     Some ''file already exists'', Some ''file is not a valid executable'', Some ''operation not supported'']"

text \<open>
  \<open>%e\<close>: what it prints is a call of \<open>printfmt\<close>, the parameter \<open>pf\<close> (memory, format, arguments). The
  string is passed at an address that is not \<open>NULL\<close>.
\<close>

definition print_error :: "(u8 list \<Rightarrow> u8 list \<Rightarrow> u32 list \<Rightarrow> u8 list c) \<Rightarrow> int \<Rightarrow> u8 list c" where
  "print_error pf err =
     bindE (if err < 0 then bindE (guardE SignedOverflow (in_i32 (- err))) (\<lambda>_. Inr (- err)) else Inr err) (\<lambda>err.
       case (if err \<ge> MAXERROR then None else error_string ! nat err) of
         None \<Rightarrow> pf [] (ascii ''error %d'' @ [0]) [word_of_int err]
       | Some s \<Rightarrow> pf (0 # ascii s @ [0]) (ascii ''%s'' @ [0]) [1])"

text \<open>The conversions that reach \<open>number\<close>, with what they print before it.\<close>

definition print_num :: "u8 list \<Rightarrow> u64 \<Rightarrow> nat \<Rightarrow> spec \<Rightarrow> u8 list c" where
  "print_num pre num base sp = bindE (printnum (unat num) base (width sp) (padc sp)) (\<lambda>out. Inr (pre @ out))"

text \<open>The second \<open>switch\<close>, at the character \<open>ch\<close> before \<open>i\<close>: what is printed, where the format goes on, and the arguments.\<close>

definition convert ::
  "(u8 list \<Rightarrow> u8 list \<Rightarrow> u32 list \<Rightarrow> u8 list c) \<Rightarrow> u8 list \<Rightarrow> u8 list \<Rightarrow> u8 \<Rightarrow> nat \<Rightarrow> spec \<Rightarrow> u32 list
     \<Rightarrow> (u8 list \<times> nat \<times> u32 list) c" where
  "convert pf m f ch i sp ap =
     (if ch = 99 then bindE (va_word ap) (\<lambda>(w, ap). Inr ([ucast w], i, ap))
      else if ch = 101
      then bindE (va_word ap) (\<lambda>(w, ap). bindE (print_error pf (sint w)) (\<lambda>out. Inr (out, i, ap)))
      else if ch = 115
      then bindE (va_word ap) (\<lambda>(p, ap).
           bindE (if p = 0 then print_s (ascii ''(null)'' @ [0]) 0 (precision sp) (width sp) (padc sp) (altflag sp)
                  else print_s m (unat p) (precision sp) (width sp) (padc sp) (altflag sp)) (\<lambda>out. Inr (out, i, ap)))
      else if ch = 100
      then bindE (getint ap (lflag sp)) (\<lambda>(num, ap).
           bindE (if sint num < 0
                  then bindE (guardE SignedOverflow (- sint num < 2 ^ 63)) (\<lambda>_. print_num [45] (- num) 10 sp)
                  else print_num [] num 10 sp) (\<lambda>out. Inr (out, i, ap)))
      else if ch = 117
      then bindE (getuint ap (lflag sp)) (\<lambda>(num, ap). bindE (print_num [] num 10 sp) (\<lambda>out. Inr (out, i, ap)))
      else if ch = 111
      then bindE (getuint ap (lflag sp)) (\<lambda>(num, ap). bindE (print_num [] num 8 sp) (\<lambda>out. Inr (out, i, ap)))
      else if ch = 112
      then bindE (va_word ap) (\<lambda>(w, ap). bindE (print_num [48, 120] (ucast w) 16 sp) (\<lambda>out. Inr (out, i, ap)))
      else if ch = 120
      then bindE (getuint ap (lflag sp)) (\<lambda>(num, ap). bindE (print_num [] num 16 sp) (\<lambda>out. Inr (out, i, ap)))
      else if ch = 37 then Inr ([ch], i, ap)
      else bindE (fmt_back f (i - 1)) (\<lambda>i. Inr ([37], i, ap)))"

text \<open>Every round of the loop moves the format on, so its length, and what \<open>%e\<close> needs for its own call, bound the rounds.\<close>

fun vprintfmt_n :: "nat \<Rightarrow> u8 list \<Rightarrow> u8 list \<Rightarrow> nat \<Rightarrow> u32 list \<Rightarrow> u8 list c" where
  "vprintfmt_n 0 m f i ap = Inl Diverges"
| "vprintfmt_n (Suc k) m f i ap = bindE (fmt_literal f i) (\<lambda>(out, r). case r of
     None \<Rightarrow> Inr out
   | Some i \<Rightarrow> bindE (fmt_spec f i no_spec ap) (\<lambda>(ch, i, sp, ap).
       bindE (convert (\<lambda>m f ap. vprintfmt_n k m f 0 ap) m f ch i sp ap) (\<lambda>(out', i, ap).
       bindE (vprintfmt_n k m f i ap) (\<lambda>rest. Inr (out @ out' @ rest)))))"

definition vprintfmt :: "u8 list \<Rightarrow> u8 list \<Rightarrow> u32 list \<Rightarrow> u8 list c" where
  "vprintfmt m f ap = vprintfmt_n (length f + 3) m f 0 ap"

section \<open>Printing into a buffer\<close>

record sprintbuf =
  sb_buf :: nat
  sb_ebuf :: nat
  sb_cnt :: int

definition sprintputch :: "u8 \<Rightarrow> sprintbuf \<times> u8 list \<Rightarrow> (sprintbuf \<times> u8 list) c" where
  "sprintputch ch = (\<lambda>(b, m). bindE (guardE SignedOverflow (in_i32 (sb_cnt b + 1))) (\<lambda>_.
     let b = b\<lparr>sb_cnt := sb_cnt b + 1\<rparr>
     in if sb_buf b < sb_ebuf b then bindE (wr m (sb_buf b) ch) (\<lambda>m. Inr (b\<lparr>sb_buf := sb_buf b + 1\<rparr>, m)) else Inr (b, m)))"

fun sprint_all :: "u8 list \<Rightarrow> sprintbuf \<times> u8 list \<Rightarrow> (sprintbuf \<times> u8 list) c" where
  "sprint_all [] s = Inr s"
| "sprint_all (ch # out) s = bindE (sprintputch ch s) (sprint_all out)"

text \<open>\<open>buf\<close> is an address of \<open>t\<close>, the strings of the arguments are in \<open>m\<close>, which the buffer does not overlap.\<close>

definition vsnprintf :: "u8 list \<Rightarrow> nat option \<Rightarrow> int \<Rightarrow> u8 list \<Rightarrow> u32 list \<Rightarrow> u8 list \<Rightarrow> (int \<times> u8 list) c" where
  "vsnprintf m buf n f ap t = (case buf of
     None \<Rightarrow> Inr (- E_INVAL, t)
   | Some buf \<Rightarrow>
       if n < 1 then Inr (- E_INVAL, t)
       else bindE (vprintfmt m f ap) (\<lambda>out.
            bindE (sprint_all out (\<lparr> sb_buf = buf, sb_ebuf = buf + nat n - 1, sb_cnt = 0 \<rparr>, t)) (\<lambda>(b, t).
            bindE (wr t (sb_buf b) 0) (\<lambda>t. Inr (sb_cnt b, t)))))"

end
