(* ===== verification/CStringProps.thy ===== *)
theory CStringProps
  imports CString
begin

text \<open>
  What the string library of JOS promises: moving memory is right for every overlap, and a copy into
  a buffer stays in it.
\<close>

section \<open>Moving memory\<close>

text \<open>The reference: the bytes at \<open>s\<close> as they were, at \<open>d\<close>.\<close>

definition moved :: "nat \<Rightarrow> nat \<Rightarrow> nat \<Rightarrow> u8 list \<Rightarrow> u8 list" where
  "moved d s n m = take d m @ take n (drop s m) @ drop (d + n) m"

lemma moved_length: "s + n \<le> length m \<Longrightarrow> d + n \<le> length m \<Longrightarrow> length (moved d s n m) = length m"
  by (simp add: moved_def)

lemma moved_nth:
  assumes "s + n \<le> length m" "d + n \<le> length m" "i < length m"
  shows "moved d s n m ! i = (if d \<le> i \<and> i < d + n then m ! (s + (i - d)) else m ! i)"
proof -
  have len: "length (take d m) = d" "length (take n (drop s m)) = n" using assms by simp_all
  consider "i < d" | "d \<le> i" "i < d + n" | "d + n \<le> i" by linarith
  then show ?thesis
    using assms len by cases (simp_all add: moved_def nth_append del: length_take length_drop, (linarith | simp)+)
qed

lemma rd_unit_take: "a + k \<le> length m \<Longrightarrow> rd_unit k a m = Inr (take k (drop a m))"
proof (induction k arbitrary: a)
  case (Suc k)
  then have "rd m a = Inr (m ! a)" by (simp add: rd_Inr_iff)
  moreover have "drop a m = m ! a # drop (a + 1) m"
    using Suc.prems by (simp add: Cons_nth_drop_Suc)
  ultimately show ?case using Suc by simp
qed simp

lemma wr_unit_list: "a + length bs \<le> length m \<Longrightarrow> wr_unit a bs m = Inr (take a m @ bs @ drop (a + length bs) m)"
proof (induction bs arbitrary: a m)
  case (Cons b bs)
  then have "wr m a b = Inr (m[a := b])" by (simp add: wr_Inr_iff)
  with Cons show ?case by (simp add: upd_conv_take_nth_drop take_Suc_conv_app_nth add.commute)
qed simp

lemma unit_moved:
  assumes "s + sz \<le> length m" "d + sz \<le> length m"
  shows "bindE (rd_unit sz s m) (\<lambda>u. bindE (wr_unit d u m) g) = g (moved d s sz m)"
  using assms wr_unit_list[of d "take sz (drop s m)" m] by (simp add: rd_unit_take moved_def)

lemma rep_movs_up_moved:
  assumes "d \<le> s \<or> s + k * sz \<le> d" "s + k * sz \<le> length m" "d + k * sz \<le> length m"
  shows "rep_movs_up k sz d s m = Inr (moved d s (k * sz) m)"
  using assms
proof (induction k arbitrary: d s m)
  case (Suc k)
  let ?m = "moved d s sz m"
  have len: "length ?m = length m" using Suc.prems by (simp add: moved_length)
  have "rep_movs_up k sz (d + sz) (s + sz) ?m = Inr (moved (d + sz) (s + sz) (k * sz) ?m)"
    using Suc.prems len by (intro Suc.IH) auto
  moreover have "moved (d + sz) (s + sz) (k * sz) ?m = moved d s (Suc k * sz) m"
  proof (rule nth_equalityI)
    show "length (moved (d + sz) (s + sz) (k * sz) ?m) = length (moved d s (Suc k * sz) m)"
      using Suc.prems len by (simp add: moved_length)
    show "moved (d + sz) (s + sz) (k * sz) ?m ! i = moved d s (Suc k * sz) m ! i"
      if "i < length (moved (d + sz) (s + sz) (k * sz) ?m)" for i
      using Suc.prems len that by (auto simp: moved_nth moved_length)
  qed
  ultimately show ?case using Suc.prems by (simp add: unit_moved)
qed (simp add: moved_def)

lemma rep_movs_down_moved:
  assumes "s \<le> d" "d + k * sz \<le> length m"
  shows "rep_movs_down k sz (d + k * sz) (s + k * sz) m = Inr (moved d s (k * sz) m)"
  using assms
proof (induction k arbitrary: m)
  case (Suc k)
  let ?m = "moved (d + k * sz) (s + k * sz) sz m"
  have len: "length ?m = length m" using Suc.prems by (simp add: moved_length)
  have "rep_movs_down k sz (d + k * sz) (s + k * sz) ?m = Inr (moved d s (k * sz) ?m)"
    using Suc.prems len by (intro Suc.IH) auto
  moreover have "moved d s (k * sz) ?m = moved d s (Suc k * sz) m"
  proof (rule nth_equalityI)
    show "length (moved d s (k * sz) ?m) = length (moved d s (Suc k * sz) m)"
      using Suc.prems len by (simp add: moved_length)
    show "moved d s (k * sz) ?m ! i = moved d s (Suc k * sz) m ! i" if "i < length (moved d s (k * sz) ?m)" for i
      using Suc.prems len that by (auto simp: moved_nth moved_length intro!: arg_cong[of _ _ "(!) m"])
  qed
  moreover have "s + k * sz + sz \<le> length m" "d + k * sz + sz \<le> length m" using Suc.prems by simp_all
  ultimately show ?case
    by (simp add: unit_moved add.commute[of sz] add.assoc[symmetric])
qed (simp add: moved_def)

text \<open>
  C25. \<open>memmove\<close> and \<open>memcpy\<close>: for every alignment, every size and every overlap of the two blocks, the
  destination gets the bytes that were at the source, and nothing else changes.
\<close>

theorem memmove_correct:
  assumes "src + n \<le> length m" "dst + n \<le> length m"
  shows "memmove dst src n m = Inr (dst, take dst m @ take n (drop src m) @ drop (dst + n) m)"
proof -
  have four: "n mod 4 = 0 \<Longrightarrow> n div 4 * 4 = n" by auto
  show ?thesis
  proof (cases "src < dst \<and> src + n > dst")
    case True
    with assms show ?thesis
      using rep_movs_down_moved[of src dst n 1 m] rep_movs_down_moved[of src dst "n div 4" 4 m] four
      by (auto simp: memmove_def Let_def moved_def)
  next
    case False
    with assms show ?thesis
      using rep_movs_up_moved[of dst src n 1 m] rep_movs_up_moved[of dst src "n div 4" 4 m] four
      by (auto simp: memmove_def Let_def moved_def)
  qed
qed

theorem memmove_correct_witness:
  "memmove 2 0 4 [1, 2, 3, 4, 5, 6, 7] = Inr (2, [1, 2, 1, 2, 3, 4, 7])"
  using memmove_correct[of 0 4 "[1, 2, 3, 4, 5, 6, 7]" 2] by simp

end
