(* ===== verification/CPrintProps.thy ===== *)
theory CPrintProps
  imports CPrint CStringProps
begin

text \<open>
  What formatted output promises: it ends whatever the format, it stays in the buffer it is given, and
  \<open>strtol\<close> reads back the numbers it prints.
\<close>

section \<open>The buffer\<close>

lemma sprint_all_bounded:
  assumes "buf \<le> e" "e < length t" "0 \<le> cnt" "cnt + int (length out) < 2 ^ 31"
  shows "sprint_all out (\<lparr> sb_buf = buf, sb_ebuf = e, sb_cnt = cnt \<rparr>, t) =
    Inr (\<lparr> sb_buf = buf + min (e - buf) (length out), sb_ebuf = e, sb_cnt = cnt + int (length out) \<rparr>,
         take buf t @ take (e - buf) out @ drop (buf + min (e - buf) (length out)) t)"
  using assms
proof (induction out arbitrary: buf cnt t)
  case (Cons ch out)
  have "in_i32 (cnt + 1)" using Cons.prems by (simp add: in_i32_def)
  moreover have "take (Suc buf) (t[buf := ch]) = take buf t @ [ch]" if "buf < e"
    using that Cons.prems by (simp add: take_Suc_conv_app_nth)
  moreover obtain k where "e - buf = Suc k" "e - Suc buf = k" if "buf < e"
    by (metis Suc_diff_Suc)
  ultimately show ?case
    using Cons.prems Cons.IH[of buf t "cnt + 1"] Cons.IH[of "buf + 1" "t[buf := ch]" "cnt + 1"]
    by (cases "buf < e") (auto simp: sprintputch_def)
qed simp

lemma update_after:
  assumes "length xs = k" "k < length t"
  shows "(xs @ drop k t)[k := v] = xs @ [v] @ drop (k + 1) t"
proof -
  have "drop k t = t ! k # drop (k + 1) t" using assms(2) by (simp add: Cons_nth_drop_Suc)
  then show ?thesis using assms(1) by (simp only: list_update_append) simp
qed

text \<open>
  C26. \<open>vsnprintf\<close> with room for \<open>n\<close> bytes stores as much of the text as fits and a NUL after it, changes
  no other byte of the memory, and returns the length of the whole text.
\<close>

theorem vsnprintf_bounded:
  assumes "vprintfmt m f ap = Inr out" "length out < 2 ^ 31" "1 \<le> n" "buf + nat n \<le> length t"
  shows "vsnprintf m (Some buf) n f ap t =
    Inr (int (length out),
         take buf t @ take (nat n - 1) out @ [0] @ drop (buf + min (nat n - 1) (length out) + 1) t)"
proof -
  define j where "j = min (nat n - 1) (length out)"
  define e where "e = buf + nat n - 1"
  let ?text = "take buf t @ take (nat n - 1) out"
  have e: "e - buf = nat n - 1" "buf \<le> e" "e < length t" using assms by (auto simp: e_def)
  have "j \<le> e - buf" unfolding j_def e(1) by (rule min.cobounded1)
  with e have j: "buf + j < length t" by linarith
  have "int (length out) < 2 ^ 31" using assms(2) by simp
  with e have "sprint_all out (\<lparr> sb_buf = buf, sb_ebuf = e, sb_cnt = 0 \<rparr>, t) =
    Inr (\<lparr> sb_buf = buf + j, sb_ebuf = e, sb_cnt = int (length out) \<rparr>, ?text @ drop (buf + j) t)"
    unfolding j_def by (subst sprint_all_bounded) simp_all
  moreover have "wr (?text @ drop (buf + j) t) (buf + j) 0 = Inr (?text @ [0] @ drop (buf + j + 1) t)"
  proof -
    have "length ?text = buf + j"
      using e by (simp only: length_append length_take j_def min.commute[of "length out"]) simp
    from update_after[OF this j, of 0] this j show ?thesis unfolding wr_def by simp
  qed
  ultimately have "vsnprintf m (Some buf) n f ap t = Inr (int (length out), ?text @ [0] @ drop (buf + j + 1) t)"
    using assms(1,3) unfolding vsnprintf_def e_def by simp
  then show ?thesis unfolding j_def by simp
qed

theorem vsnprintf_bounded_witness:
  "vsnprintf [] (Some 1) 3 [104, 101, 121, 0] [] [7, 7, 7, 7, 7] = Inr (3, [7, 104, 101, 0, 7])"
proof -
  have "vprintfmt [] [104, 101, 121, 0] [] = Inr [104, 101, 121]"
    by (simp add: vprintfmt_def numeral_3_eq_3 fmt_literal.simps)
  from vsnprintf_bounded[OF this, of 3 1 "[7, 7, 7, 7, 7]"] show ?thesis by simp
qed

section \<open>Numbers\<close>

text \<open>A text of digits in a base, and its value.\<close>

definition digits_in :: "nat \<Rightarrow> u8 list \<Rightarrow> bool" where
  "digits_in base ds \<longleftrightarrow> (\<forall>d \<in> set ds. \<exists>x. digit_of d = Some x \<and> 0 \<le> x \<and> x < int base)"

definition digits_value :: "nat \<Rightarrow> int \<Rightarrow> u8 list \<Rightarrow> int" where
  "digits_value base v ds = foldl (\<lambda>v d. v * int base + the (digit_of d)) v ds"

lemma digits_value_grows: "digits_in base ds \<Longrightarrow> 0 \<le> v \<Longrightarrow> 0 < base \<Longrightarrow> v \<le> digits_value base v ds"
proof (induction ds arbitrary: v)
  case (Cons d ds)
  then obtain x where x: "digit_of d = Some x" "0 \<le> x" by (auto simp: digits_in_def)
  have "v * 1 \<le> v * int base" using Cons.prems by (intro mult_left_mono) auto
  with x Cons show ?case
    by (auto simp: digits_value_def digits_in_def intro!: order.trans[OF _ Cons.IH[unfolded digits_value_def]])
qed (simp add: digits_value_def)

lemma digits_read:
  assumes "digits_in base ds" "0 \<le> v" "0 < base" "digits_value base v ds < 2 ^ 31"
  shows "digits (pre @ ds @ 0 # rest) (length pre) (int base) v = Inr (digits_value base v ds, length pre + length ds)"
  using assms
proof (induction ds arbitrary: v pre)
  case Nil
  have "digit_of 0 = None" by (simp add: digit_of_def)
  then show ?case by (subst digits.simps) (simp add: digits_value_def)
next
  case (Cons d ds)
  then obtain x where x: "digit_of d = Some x" "0 \<le> x" "x < int base" by (auto simp: digits_in_def)
  let ?v = "v * int base + x"
  have ds: "digits_in base ds" using Cons.prems by (simp add: digits_in_def)
  have step: "digits_value base v (d # ds) = digits_value base ?v ds" using x by (simp add: digits_value_def)
  have pos: "0 \<le> v * int base" using Cons.prems by simp
  have "?v \<le> digits_value base ?v ds" using ds pos x Cons.prems by (intro digits_value_grows) auto
  then have "in_i32 (v * int base)" "in_i32 ?v"
    using step Cons.prems(4) pos x(2) by (auto simp: in_i32_def)
  moreover have "digits (pre @ (d # ds) @ 0 # rest) (length pre + 1) (int base) ?v =
    Inr (digits_value base ?v ds, length pre + length (d # ds))"
    using Cons.IH[of ?v "pre @ [d]"] ds pos x Cons.prems(3,4) step by simp
  ultimately show ?case
    using x step by (subst digits.simps) simp
qed

lemma digit_char_of:
  assumes "d < base" "base \<le> 16"
  shows "\<exists>ch. digit_char d = Inr ch \<and> digit_of ch = Some (int d) \<and> ch \<notin> {0, 9, 32, 43, 45, 120} \<and> (ch = 48 \<longleftrightarrow> d = 0)"
proof -
  have "\<forall>d \<in> set [0, 1, 2, 3, 4, 5, 6, 7, 8, 9, 10, 11, 12, 13, 14, 15].
      \<exists>ch. digit_char d = Inr ch \<and> digit_of ch = Some (int d) \<and> ch \<notin> {0, 9, 32, 43, 45, 120} \<and> (ch = 48 \<longleftrightarrow> d = 0)"
    by (simp add: digit_char_def digit_of_def Let_def)
  moreover have "d \<in> set [0, 1, 2, 3, 4, 5, 6, 7, 8, 9, 10, 11, 12, 13, 14, 15]"
    using assms unfolding list.set insert_iff empty_iff by presburger
  ultimately show ?thesis by (rule bspec)
qed

lemma printnum_digits:
  assumes "num < 2 ^ k" "2 \<le> base" "base \<le> 16" "- (2 ^ 31) + int k + 1 \<le> wd" "wd < 2 ^ 31"
  shows "\<exists>j ds. printnum num base wd pc = Inr (replicate j pc @ ds) \<and> ds \<noteq> [] \<and> digits_in base ds \<and>
    digits_value base 0 ds = int num \<and> set ds \<inter> {0, 9, 32, 43, 45, 120} = {} \<and> (hd ds = 48 \<longleftrightarrow> num = 0)"
  using assms
proof (induction k arbitrary: num wd)
  case 0
  have w: "in_i32 (wd - 1)" using 0 by (simp add: in_i32_def)
  obtain ch where "digit_char 0 = Inr ch" "digit_of ch = Some 0" "ch \<notin> {0, 9, 32, 43, 45, 120}" "ch = 48"
    using digit_char_of[of 0 base] 0 by auto
  then have "printnum num base wd pc = Inr (replicate (nat (wd - 1)) pc @ [ch])"
    using 0 w by (subst printnum.simps) (simp add: padding_def)
  with 0 \<open>digit_of ch = Some 0\<close> \<open>ch \<notin> _\<close> \<open>ch = 48\<close> show ?case
    by (intro exI[of _ "nat (wd - 1)"] exI[of _ "[ch]"]) (simp add: digits_in_def digits_value_def)
next
  case (Suc k)
  have w: "in_i32 (wd - 1)" using Suc.prems by (simp add: in_i32_def)
  obtain ch where ch: "digit_char (num mod base) = Inr ch" "digit_of ch = Some (int (num mod base))"
      "ch \<notin> {0, 9, 32, 43, 45, 120}" "ch = 48 \<longleftrightarrow> num mod base = 0"
    using digit_char_of[of "num mod base" base] Suc.prems by auto
  show ?case
  proof (cases "num \<ge> base")
    case True
    have "num div base \<le> num div 2" using Suc.prems by (intro div_le_mono2) auto
    then have "num div base < 2 ^ k" using Suc.prems(1) by (simp add: less_mult_imp_div_less)
    then obtain j ds where IH: "printnum (num div base) base (wd - 1) pc = Inr (replicate j pc @ ds)"
        "ds \<noteq> []" "digits_in base ds" "digits_value base 0 ds = int (num div base)"
        "set ds \<inter> {0, 9, 32, 43, 45, 120} = {}" "hd ds = 48 \<longleftrightarrow> num div base = 0"
      using Suc.IH[of "num div base" "wd - 1"] Suc.prems by auto
    have "num div base \<noteq> 0" "num \<noteq> 0" using True Suc.prems by (auto simp: div_eq_0_iff)
    moreover have "int (num div base) * int base + int (num mod base) = int num"
      by (metis div_mult_mod_eq of_nat_add of_nat_mult)
    moreover have "printnum num base wd pc = Inr (replicate j pc @ ds @ [ch])"
      using True Suc.prems w IH ch by (subst printnum.simps) simp
    ultimately show ?thesis
      using IH ch Suc.prems
      by (intro exI[of _ j] exI[of _ "ds @ [ch]"]) (auto simp: digits_in_def digits_value_def)
  next
    case False
    then have "printnum num base wd pc = Inr (replicate (nat (wd - 1)) pc @ [ch])"
      using Suc.prems w ch by (subst printnum.simps) (simp add: padding_def)
    with False ch Suc.prems show ?thesis
      by (intro exI[of _ "nat (wd - 1)"] exI[of _ "[ch]"]) (simp add: digits_in_def digits_value_def)
  qed
qed

lemma skip_space_spaces:
  "c \<notin> {9, 32} \<Longrightarrow> skip_space (pre @ replicate j 32 @ c # rest) (length pre) = Inr (length pre + j)"
proof (induction j arbitrary: pre)
  case 0
  then show ?case by (subst skip_space.simps) simp
next
  case (Suc j)
  then show ?case
    using Suc.IH[of "pre @ [32]"] by (subst skip_space.simps) simp
qed

lemma strtol_digits:
  assumes ds: "ds \<noteq> []" "digits_in base ds" "digits_value base 0 ds = int num" "set ds \<inter> {0, 9, 32, 43, 45, 120} = {}"
    and num: "num < 2 ^ 31" and base: "0 < base"
  shows "strtol (replicate j 32 @ ds @ [0]) 0 (int base) = Inr (int num, j + length ds)"
proof -
  let ?m = "replicate j 32 @ ds @ [0]"
  obtain d rest where d: "ds = d # rest" using ds(1) by (cases ds) auto
  have space: "skip_space ?m 0 = Inr j" using skip_space_spaces[of d "[]" j "rest @ [0]"] ds(4) d by simp
  have first: "rd ?m j = Inr d" by (simp add: rd_def nth_append d)
  obtain c1 where c1: "rd ?m (Suc j) = Inr c1" "c1 \<noteq> 120"
    using ds(4) by (cases rest) (auto simp: rd_def nth_append d)
  have "digits ?m j (int base) 0 = Inr (int num, j + length ds)"
    using digits_read[of base ds 0 "replicate j 32" "[]"] ds num base by simp
  with space first c1 base ds(4) d show ?thesis
    by (auto simp: strtol_def Let_def)
qed



section \<open>Termination\<close>

lemma guardE_Inl_iff: "guardE e b = Inl e' \<longleftrightarrow> \<not> b \<and> e' = e"
  by (auto simp: guardE_def)

lemma rd_Inl_iff: "rd xs i = Inl e \<longleftrightarrow> length xs \<le> i \<and> e = OutOfBounds"
  by (auto simp: rd_def)

lemmas ends = bindE_Inl_iff guardE_Inl_iff rd_Inl_iff

lemma fmt_number_ends: "fmt_number f i n ch \<noteq> Inl Diverges"
proof (induction f i n ch rule: fmt_number.induct)
  case (1 f i n ch)
  show ?case by (subst fmt_number.simps) (auto simp: ends rd_Inr_iff 1[simplified])
qed

lemma fmt_spec_ends: "fmt_spec f i sp ap \<noteq> Inl Diverges"
proof (induction f i sp ap rule: fmt_spec.induct)
  case (1 f i sp ap)
  show ?case
    by (subst fmt_spec.simps)
      (auto simp: ends rd_Inr_iff fmt_number_ends va_word_def 1[simplified] split: list.splits prod.splits if_splits)
qed

lemma fmt_literal_ends: "fmt_literal f i \<noteq> Inl Diverges"
proof (induction f i rule: fmt_literal.induct)
  case (1 f i)
  show ?case by (subst fmt_literal.simps) (auto simp: ends rd_Inr_iff 1[simplified] split: prod.splits)
qed

lemma fmt_back_ends: "fmt_back f i \<noteq> Inl Diverges"
  by (induction f i rule: fmt_back.induct) (auto simp: ends)

lemma printnum_ends: "2 \<le> base \<Longrightarrow> printnum num base wd pc \<noteq> Inl Diverges"
proof (induction num base wd pc rule: printnum.induct)
  case (1 num base wd pc)
  then show ?case
    by (subst printnum.simps) (auto simp: ends digit_char_def split: if_splits)
qed

lemma strnlen_from_ends: "strnlen_from m s k n \<noteq> Inl Diverges"
  by (induction m s k n rule: strnlen_from.induct) (auto simp: ends)

lemma puts_loop_ends: "puts_loop m p pr wd alt \<noteq> Inl Diverges"
proof (induction m p pr wd alt rule: puts_loop.induct)
  case (1 m p pr wd alt)
  show ?case by (subst puts_loop.simps) (auto simp: ends rd_Inr_iff 1[simplified] split: prod.splits)
qed

lemma print_s_ends: "print_s m p pr wd pc alt \<noteq> Inl Diverges"
  by (auto simp: print_s_def strnlen_def ends strnlen_from_ends puts_loop_ends split: prod.splits if_splits)

lemma va_ends: "va_word ap \<noteq> Inl Diverges" "va_long_long ap \<noteq> Inl Diverges"
  "getuint ap l \<noteq> Inl Diverges" "getint ap l \<noteq> Inl Diverges"
  by (auto simp: va_word_def va_long_long_def getuint_def getint_def ends split: list.splits prod.splits)

lemma print_num_ends: "2 \<le> base \<Longrightarrow> print_num pre num base sp \<noteq> Inl Diverges"
  by (simp add: print_num_def ends printnum_ends)

lemma fmt_literal_place:
  "fmt_literal f i = Inr (out, Some j) \<Longrightarrow> i < j \<and> j \<le> length f \<and> f ! (j - 1) = 37"
proof (induction f i arbitrary: out rule: fmt_literal.induct)
  case (1 f i)
  from "1.prems" obtain x where x: "rd f i = Inr x" "x \<noteq> 0"
    by (subst (asm) fmt_literal.simps) (auto split: if_splits)
  show ?case
  proof (cases "x = 37")
    case True
    with x "1.prems" show ?thesis by (subst (asm) fmt_literal.simps) (auto simp: rd_Inr_iff)
  next
    case False
    with x "1.prems" obtain out' where "fmt_literal f (i + 1) = Inr (out', Some j)"
      by (subst (asm) fmt_literal.simps) auto
    with "1.IH"[OF x(1) False x(2)] show ?thesis by auto
  qed
qed

lemma fmt_spec_place: "fmt_spec f i sp ap = Inr (ch, j, sp', ap') \<Longrightarrow> i < j \<and> j \<le> length f"
proof (induction "length f - i" arbitrary: i sp ap rule: less_induct)
  case less
  from less.prems obtain x where x: "rd f i = Inr x" by (subst (asm) fmt_spec.simps) auto
  then have i: "i < length f" by (simp add: rd_Inr_iff)
  have IH: "i < j \<and> j \<le> length f" if "fmt_spec f i' sp ap = Inr (ch, j, sp', ap')" "i < i'" for i' sp ap
    using less.hyps[of i' sp ap] that i by fastforce
  have number: "i < j \<and> j \<le> length f"
    if "fmt_number f (Suc i) 0 (f ! i) = Inr (n, i')" "fmt_spec f i' sp ap = Inr (ch, j, sp', ap')" for n i' sp ap
    using fmt_number_forward[OF that(1)] IH[OF that(2)] by auto
  from less.prems i x show ?case
    by (subst (asm) fmt_spec.simps)
      (simp split: if_splits; auto elim!: bindE_InrE simp: Suc_le_eq dest: number IH)
qed

lemma fmt_back_place:
  "fmt_back f n = Inr r \<Longrightarrow> f ! (j - 1) = 37 \<Longrightarrow> 0 < j \<Longrightarrow> j \<le> n \<Longrightarrow> j \<le> r \<and> r \<le> n"
proof (induction f n rule: fmt_back.induct)
  case (2 f i)
  then show ?case by (cases "j = Suc i") (auto simp: rd_Inr_iff split: if_splits)
qed simp

lemma convert_place:
  assumes "convert pf m f ch i sp ap = Inr (out, i', ap')" "f ! (j - 1) = 37" "0 < j" "j < i"
  shows "j \<le> i' \<and> i' \<le> i"
proof -
  have "i' = i \<or> fmt_back f (i - 1) = Inr i'"
    using assms(1) unfolding convert_def by (auto split: if_splits prod.splits)
  then show ?thesis using fmt_back_place[of f "i - 1" i' j] assms by fastforce
qed

lemma convert_ends:
  assumes "\<And>w. pf [] (ascii ''error %d'' @ [0]) [w] \<noteq> Inl Diverges"
    and "\<And>s. pf (0 # ascii s @ [0]) (ascii ''%s'' @ [0]) [1] \<noteq> Inl Diverges"
  shows "convert pf m f ch i sp ap \<noteq> Inl Diverges"
proof -
  have "print_error pf n \<noteq> Inl Diverges" for n
    using assms by (auto simp: print_error_def ends split: option.splits if_splits)
  then show ?thesis
    by (auto simp: convert_def ends va_ends print_s_ends print_num_ends fmt_back_ends split: prod.splits if_splits)
qed

lemma one_conversion_ends:
  assumes "fmt_literal f 0 = Inr (out, Some i)" "fmt_spec f i no_spec ap = Inr (ch, j, no_spec, ap)"
    "fmt_literal f j = Inr (out', None)" "ch \<in> {100, 115}"
  shows "vprintfmt_n (Suc (Suc k)) m f 0 ap \<noteq> Inl Diverges"
proof -
  have "convert pf m f ch j no_spec ap \<noteq> Inl Diverges" for pf
    using assms(4) by (auto simp: convert_def ends va_ends print_s_ends print_num_ends split: prod.splits if_splits)
  moreover have same: "j' = j" if "convert pf m f ch j no_spec ap = Inr (out, j', ap')" for pf out j' ap'
    using assms(4) that by (auto simp: convert_def split: prod.splits if_splits)
  ultimately show ?thesis
    using assms(1-3) by (auto simp: ends fmt_literal_ends dest!: same)
qed

lemma error_formats_end:
  "vprintfmt_n (Suc (Suc k)) m (ascii ''error %d'' @ [0]) 0 ap \<noteq> Inl Diverges"
  "vprintfmt_n (Suc (Suc k)) m (ascii ''%s'' @ [0]) 0 ap \<noteq> Inl Diverges"
proof -
  have "fmt_literal (ascii ''error %d'' @ [0]) 0 = Inr (ascii ''error '', Some 7)"
    "fmt_literal (ascii ''error %d'' @ [0]) 8 = Inr ([], None)"
    "fmt_literal (ascii ''%s'' @ [0]) 0 = Inr ([], Some 1)" "fmt_literal (ascii ''%s'' @ [0]) 2 = Inr ([], None)"
    by (simp_all add: ascii_def fmt_literal.simps)
  moreover have "fmt_spec (ascii ''error %d'' @ [0]) 7 no_spec ap = Inr (100, 8, no_spec, ap)"
    "fmt_spec (ascii ''%s'' @ [0]) 1 no_spec ap = Inr (115, 2, no_spec, ap)"
    by (subst fmt_spec.simps, simp add: ascii_def is_dec_def)+
  ultimately show "vprintfmt_n (Suc (Suc k)) m (ascii ''error %d'' @ [0]) 0 ap \<noteq> Inl Diverges"
    "vprintfmt_n (Suc (Suc k)) m (ascii ''%s'' @ [0]) 0 ap \<noteq> Inl Diverges"
    using one_conversion_ends by blast+
qed

lemma vprintfmt_n_ends: "i \<le> length f \<Longrightarrow> length f - i + 3 \<le> k \<Longrightarrow> vprintfmt_n k m f i ap \<noteq> Inl Diverges"
proof (induction k arbitrary: i ap)
  case (Suc k)
  then obtain k' where k': "k = Suc (Suc k')" by (metis Suc_le_mono add_Suc_right le_Suc_ex numeral_3_eq_3 add_Suc)
  show ?case
  proof
    assume "vprintfmt_n (Suc k) m f i ap = Inl Diverges"
    then obtain out j where lit: "fmt_literal f i = Inr (out, Some j)"
        and rest: "bindE (fmt_spec f j no_spec ap) (\<lambda>(ch, i, sp, ap).
          bindE (convert (\<lambda>m f ap. vprintfmt_n k m f 0 ap) m f ch i sp ap) (\<lambda>(out', i, ap).
          bindE (vprintfmt_n k m f i ap) (\<lambda>rest. Inr (out @ out' @ rest)))) = Inl Diverges"
      by (auto simp: bindE_Inl_iff[of "fmt_literal f i"] fmt_literal_ends split: option.splits)
    have j: "i < j" "j \<le> length f" "f ! (j - 1) = 37" using fmt_literal_place[OF lit] by auto
    from rest obtain ch j' sp ap1 where sp: "fmt_spec f j no_spec ap = Inr (ch, j', sp, ap1)"
        and rest: "bindE (convert (\<lambda>m f ap. vprintfmt_n k m f 0 ap) m f ch j' sp ap1) (\<lambda>(out', i, ap).
          bindE (vprintfmt_n k m f i ap) (\<lambda>rest. Inr (out @ out' @ rest))) = Inl Diverges"
      by (auto simp: bindE_Inl_iff[of "fmt_spec f j no_spec ap"] fmt_spec_ends)
    have "convert (\<lambda>m f ap. vprintfmt_n k m f 0 ap) m f ch j' sp ap1 \<noteq> Inl Diverges"
      by (rule convert_ends) (simp_all add: k' error_formats_end del: vprintfmt_n.simps)
    with rest obtain out' i' ap2 where conv: "convert (\<lambda>m f ap. vprintfmt_n k m f 0 ap) m f ch j' sp ap1 = Inr (out', i', ap2)"
        and last: "vprintfmt_n k m f i' ap2 = Inl Diverges"
      by (auto simp: bindE_Inl_iff)
    have "j \<le> i'" "i' \<le> length f" using convert_place[OF conv j(3)] fmt_spec_place[OF sp] j(1) by auto
    moreover from this have "length f - i' + 3 \<le> k" using Suc.prems j(1) by linarith
    ultimately show False using Suc.IH[of i' ap2] last by simp
  qed
qed simp

text \<open>
  C28. Formatted output ends for every format and every list of arguments: it prints or it faults on a read outside
  the memory, a missing argument or an overflow, and the bound on the rounds of the loop is never what stops it.
\<close>

theorem vprintfmt_ends: "vprintfmt m f ap \<noteq> Inl Diverges"
  unfolding vprintfmt_def by (rule vprintfmt_n_ends) simp_all

end
