(* ===== verification/KDebug.thy ===== *)
theory KDebug
  imports CString "HOL-Library.Signed_Division"
begin

text \<open>
  The debugging information of the JOS kernel (\<open>os_final_project/code/kern/kdebug.c\<close>): the binary search in a
  table of stabs, where the entries of one type are in order of address, and what it finds out about
  an instruction address. A table is a list; an access outside it is a fault.
\<close>

section \<open>Stabs\<close>

record stab =
  n_strx :: u32
  n_type :: u8
  n_other :: u8
  n_desc :: u16
  n_value :: u32

definition N_FUN :: u8 where "N_FUN = 0x24"
definition N_SLINE :: u8 where "N_SLINE = 0x44"
definition N_SO :: u8 where "N_SO = 0x64"
definition N_SOL :: u8 where "N_SOL = 0x84"
definition N_PSYM :: u8 where "N_PSYM = 0xA0"

text \<open>An array indexed with an \<open>int\<close>.\<close>

definition rd_int :: "'a list \<Rightarrow> int \<Rightarrow> 'a c" where
  "rd_int xs i = (if 0 \<le> i then rd xs (nat i) else Inl OutOfBounds)"

lemma rd_int_Inr_iff: "rd_int xs i = Inr x \<longleftrightarrow> 0 \<le> i \<and> i < int (length xs) \<and> x = xs ! nat i"
  by (auto simp: rd_int_def rd_Inr_iff)

lemma rd_int_in_range: "0 \<le> i \<Longrightarrow> i < int (length xs) \<Longrightarrow> rd_int xs i = Inr (xs ! nat i)"
  by (simp add: rd_int_Inr_iff)

section \<open>The search\<close>

text \<open>The scan for \<open>m\<close>, downwards: the last entry of the type in \<open>[l, m]\<close>, or \<open>l - 1\<close>.\<close>

function scan_type :: "stab list \<Rightarrow> u8 \<Rightarrow> int \<Rightarrow> int \<Rightarrow> int c" where
  "scan_type stabs ty l m =
     (if m \<ge> l then bindE (rd_int stabs m) (\<lambda>b. if n_type b \<noteq> ty then scan_type stabs ty l (m - 1) else Inr m)
      else Inr m)"
  by pat_completeness auto
termination by (relation "measure (\<lambda>(stabs, ty, l, m). nat (m + 1 - l))") auto

declare scan_type.simps [simp del]

lemma scan_type_stop: "m < l \<Longrightarrow> scan_type stabs ty l m = Inr m"
  by (subst scan_type.simps) simp

lemma scan_type_step:
  "l \<le> m \<Longrightarrow> rd_int stabs m = Inr b \<Longrightarrow>
   scan_type stabs ty l m = (if n_type b \<noteq> ty then scan_type stabs ty l (m - 1) else Inr m)"
  by (subst scan_type.simps) simp

lemma scan_type_reads: "l \<le> m \<Longrightarrow> scan_type stabs ty l m = Inr j \<Longrightarrow> \<exists>b. rd_int stabs m = Inr b"
  by (subst (asm) scan_type.simps) (auto simp: bindE_Inr_iff)

text \<open>What it finds: the last entry of the type, or that there is none.\<close>

lemma scan_type_result:
  "scan_type stabs ty l m = Inr j \<Longrightarrow> l \<le> m \<Longrightarrow>
   l - 1 \<le> j \<and> j \<le> m \<and> (l \<le> j \<longrightarrow> n_type (stabs ! nat j) = ty) \<and> (\<forall>i. j < i \<longrightarrow> i \<le> m \<longrightarrow> n_type (stabs ! nat i) \<noteq> ty)"
proof (induction "nat (m - l)" arbitrary: m rule: less_induct)
  case less
  obtain b where b: "rd_int stabs m = Inr b" using scan_type_reads less.prems by blast
  then have val: "b = stabs ! nat m" by (simp add: rd_int_Inr_iff)
  consider "n_type b = ty" | "n_type b \<noteq> ty" "m = l" | "n_type b \<noteq> ty" "l < m" using less.prems by fastforce
  then show ?case
  proof cases
    case 1
    with less.prems b val show ?thesis by (auto simp: scan_type_step)
  next
    case 2
    with less.prems b val have "j = l - 1" by (simp add: scan_type_step scan_type_stop)
    with 2 val show ?thesis by (auto dest: antisym)
  next
    case 3
    with less.prems b have "scan_type stabs ty l (m - 1) = Inr j" by (simp add: scan_type_step)
    with 3 less.hyps[of "m - 1"]
    have IH: "l - 1 \<le> j" "j \<le> m - 1" "l \<le> j \<longrightarrow> n_type (stabs ! nat j) = ty"
        "\<And>i. j < i \<Longrightarrow> i \<le> m - 1 \<Longrightarrow> n_type (stabs ! nat i) \<noteq> ty" by auto
    have "n_type (stabs ! nat i) \<noteq> ty" if "j < i" "i \<le> m" for i
      using IH(4)[OF that(1)] that(2) 3(1) val by (cases "i = m") auto
    with IH show ?thesis by auto
  qed
qed

text \<open>
  The loop: \<open>left\<close> and \<open>right\<close> are \<open>*region_left\<close> and \<open>*region_right\<close>. An exact match goes on with the next
  address in the same region, which the second part of the measure is for.
\<close>

definition matches :: "stab list \<Rightarrow> u8 \<Rightarrow> int \<Rightarrow> u32 \<Rightarrow> bool" where
  "matches stabs ty i addr \<longleftrightarrow> (case rd_int stabs i of Inl _ \<Rightarrow> False | Inr b \<Rightarrow> n_type b = ty \<and> n_value b = addr)"

lemma half_range: "l \<le> r \<Longrightarrow> l \<le> (l + r) sdiv 2 \<and> (l + r) sdiv 2 \<le> (r :: int)"
  by (auto simp: signed_divide_int_def sgn_if)

function stab_loop ::
  "stab list \<Rightarrow> u8 \<Rightarrow> u32 \<Rightarrow> int \<Rightarrow> int \<Rightarrow> int \<Rightarrow> int \<Rightarrow> bool \<Rightarrow> (int \<times> int \<times> bool) c" where
  "stab_loop stabs ty addr l r left right any_matches =
     (if l \<le> r
      then bindE (guardE SignedOverflow (in_i32 (l + r))) (\<lambda>_.
           bindE (scan_type stabs ty l ((l + r) sdiv 2)) (\<lambda>m.
           if m < l then stab_loop stabs ty addr ((l + r) sdiv 2 + 1) r left right any_matches
           else bindE (rd_int stabs m) (\<lambda>b.
                if n_value b < addr then stab_loop stabs ty addr ((l + r) sdiv 2 + 1) r m right True
                else if n_value b > addr then stab_loop stabs ty addr l (m - 1) left (m - 1) True
                else stab_loop stabs ty (addr + 1) m r m right True)))
      else Inr (left, right, any_matches))"
  by pat_completeness auto
termination
proof (relation "measure (\<lambda>(stabs, ty, addr, l, r, p). nat (2 * (r + 1 - l)) + of_bool (matches stabs ty l addr))", goal_cases)
  case (2 stabs ty addr l r left right any x m)
  then show ?case using half_range[of l r] by (auto simp: of_bool_def)
next
  case (3 stabs ty addr l r left right any x m b)
  then show ?case using half_range[of l r] by (auto simp: of_bool_def)
next
  case (4 stabs ty addr l r left right any x m b)
  then have "l \<le> m" "m \<le> r" using half_range[of l r] scan_type_result[of stabs ty l "(l + r) sdiv 2" m] by auto
  then show ?case by (auto simp: of_bool_def)
next
  case (5 stabs ty addr l r left right any x m b)
  then have m: "l \<le> m" "m \<le> r" "n_type (stabs ! nat m) = ty"
    using half_range[of l r] scan_type_result[of stabs ty l "(l + r) sdiv 2" m] by auto
  have b: "b = stabs ! nat m" "n_value b = addr" using 5 by (auto simp: rd_int_Inr_iff)
  then have "\<not> matches stabs ty m (addr + 1)" using 5 by (simp add: matches_def)
  moreover have "matches stabs ty l addr" if "m = l" using that b m 5 by (simp add: matches_def)
  ultimately show ?case using 5 m by (cases "m = l") auto
qed simp

declare stab_loop.simps [simp del]

text \<open>The scan that ends the search.\<close>

function scan_left :: "stab list \<Rightarrow> u8 \<Rightarrow> int \<Rightarrow> int \<Rightarrow> int c" where
  "scan_left stabs ty left l =
     (if l > left then bindE (rd_int stabs l) (\<lambda>b. if n_type b \<noteq> ty then scan_left stabs ty left (l - 1) else Inr l)
      else Inr l)"
  by pat_completeness auto
termination by (relation "measure (\<lambda>(stabs, ty, left, l). nat (l - left))") auto

declare scan_left.simps [simp del]

definition stab_binsearch :: "stab list \<Rightarrow> int \<Rightarrow> int \<Rightarrow> u8 \<Rightarrow> u32 \<Rightarrow> (int \<times> int) c" where
  "stab_binsearch stabs region_left region_right ty addr =
     bindE (stab_loop stabs ty addr region_left region_right region_left region_right False) (\<lambda>(left, right, any_matches).
     if \<not> any_matches then Inr (left, left - 1)
     else bindE (scan_left stabs ty left right) (\<lambda>l. Inr (l, right)))"

section \<open>Information about an address\<close>

text \<open>A name is the place in the string table where it starts, or \<open>None\<close> for \<open>"<unknown>"\<close>.\<close>

record eipdebuginfo =
  eip_file :: "nat option"
  eip_line :: int
  eip_fn_name :: "nat option"
  eip_fn_namelen :: int
  eip_fn_addr :: u32
  eip_fn_narg :: int

text \<open>The scan backwards from the line for the file it is in.\<close>

function file_scan :: "stab list \<Rightarrow> int \<Rightarrow> int \<Rightarrow> int c" where
  "file_scan stabs lfile lline =
     (if lline \<ge> lfile
      then bindE (rd_int stabs lline) (\<lambda>b.
           if n_type b \<noteq> N_SOL \<and> (n_type b \<noteq> N_SO \<or> n_value b = 0) then file_scan stabs lfile (lline - 1) else Inr lline)
      else Inr lline)"
  by pat_completeness auto
termination by (relation "measure (\<lambda>(stabs, lfile, lline). nat (lline + 1 - lfile))") auto

text \<open>The number of parameters from \<open>lline\<close> on.\<close>

function count_args :: "stab list \<Rightarrow> int \<Rightarrow> int \<Rightarrow> int c" where
  "count_args stabs lline rfun =
     (if lline < rfun
      then bindE (rd_int stabs lline) (\<lambda>b.
           if n_type b = N_PSYM then bindE (count_args stabs (lline + 1) rfun) (\<lambda>n. Inr (n + 1)) else Inr 0)
      else Inr 0)"
  by pat_completeness auto
termination by (relation "measure (\<lambda>(stabs, lline, rfun). nat (rfun - lline))") auto

declare file_scan.simps [simp del] count_args.simps [simp del]

text \<open>
  \<open>debuginfo_eip\<close> with the table of stabs and the string table that the address selects: those of the kernel, or the
  ones the running program says it has, which the code follows without a check.
\<close>

definition debuginfo_eip :: "stab list \<Rightarrow> u8 list \<Rightarrow> u32 \<Rightarrow> (int \<times> eipdebuginfo) c" where
  "debuginfo_eip stabs stabstr addr =
     (let info = \<lparr>eip_file = None, eip_line = 0, eip_fn_name = None, eip_fn_namelen = 9, eip_fn_addr = addr, eip_fn_narg = 0\<rparr>
      in if stabstr = [] \<or> last stabstr \<noteq> 0 then Inr (-1, info)
         else
      bindE (stab_binsearch stabs 0 (int (length stabs) - 1) N_SO addr) (\<lambda>(lfile, rfile).
      if lfile = 0 then Inr (-1, info)
      else
      bindE (stab_binsearch stabs lfile rfile N_FUN addr) (\<lambda>(lfun, rfun).
      bindE (if lfun \<le> rfun
             then bindE (rd_int stabs lfun) (\<lambda>b.
                  let info = (if unat (n_strx b) < length stabstr then info\<lparr>eip_fn_name := Some (unat (n_strx b))\<rparr> else info);
                      info = info\<lparr>eip_fn_addr := n_value b\<rparr>
                  in Inr (info, addr - eip_fn_addr info, lfun, rfun))
             else Inr (info\<lparr>eip_fn_addr := addr\<rparr>, addr, lfile, rfile)) (\<lambda>(info, addr, lline, rline).
      bindE (case eip_fn_name info of
               None \<Rightarrow> Inr 9
             | Some p \<Rightarrow> bindE (strfind stabstr p 58) (\<lambda>q. Inr (int q - int p))) (\<lambda>namelen.
      let info = info\<lparr>eip_fn_namelen := namelen\<rparr>
      in bindE (stab_binsearch stabs lline rline N_SLINE addr) (\<lambda>(lline, rline).
      if lline > rline then Inr (-1, info)
      else
      bindE (rd_int stabs lline) (\<lambda>b.
      let info = info\<lparr>eip_line := uint (n_desc b)\<rparr>
      in bindE (file_scan stabs lfile lline) (\<lambda>lline.
      bindE (if lline \<ge> lfile
             then bindE (rd_int stabs lline) (\<lambda>b.
                  Inr (if unat (n_strx b) < length stabstr then info\<lparr>eip_file := Some (unat (n_strx b))\<rparr> else info))
             else Inr info) (\<lambda>info.
      bindE (if lfun < rfun then count_args stabs (lfun + 1) rfun else Inr 0) (\<lambda>narg.
      Inr (0, info\<lparr>eip_fn_narg := narg\<rparr>)))))))))))"

end
