(* ===== verification/KDebugProps.thy ===== *)
theory KDebugProps
  imports KDebug
begin

text \<open>
  What the search in a table of stabs finds, and when it is wrong.
\<close>

section \<open>The search brackets the address\<close>

text \<open>The entries of a type in a region, and that they are in order.\<close>

definition typed :: "stab list \<Rightarrow> u8 \<Rightarrow> int \<Rightarrow> int \<Rightarrow> int \<Rightarrow> bool" where
  "typed stabs ty L R i \<longleftrightarrow> L \<le> i \<and> i \<le> R \<and> n_type (stabs ! nat i) = ty"

definition ordered :: "stab list \<Rightarrow> u8 \<Rightarrow> int \<Rightarrow> int \<Rightarrow> bool" where
  "ordered stabs ty L R \<longleftrightarrow>
     (\<forall>i j. typed stabs ty L R i \<longrightarrow> typed stabs ty L R j \<longrightarrow> i \<le> j \<longrightarrow> n_value (stabs ! nat i) \<le> n_value (stabs ! nat j))"

text \<open>What the loop keeps; \<open>a\<close> is the address asked for, \<open>addr\<close> is \<open>a\<close> or, after a match, \<open>a + 1\<close>.\<close>

definition search_inv :: "stab list \<Rightarrow> u8 \<Rightarrow> int \<Rightarrow> int \<Rightarrow> u32 \<Rightarrow> u32 \<Rightarrow> int \<Rightarrow> int \<Rightarrow> int \<Rightarrow> int \<Rightarrow> bool \<Rightarrow> bool" where
  "search_inv stabs ty L R a addr l r left right any \<longleftrightarrow>
     addr \<in> {a, a + 1} \<and> right = r \<and> L \<le> l \<and> l \<le> r + 1 \<and> r \<le> R \<and>
     (\<forall>i. typed stabs ty L R i \<longrightarrow> i < l \<longrightarrow> n_value (stabs ! nat i) \<le> a \<and> any) \<and>
     (\<forall>i. typed stabs ty L R i \<longrightarrow> r < i \<longrightarrow> a < n_value (stabs ! nat i) \<and> any) \<and>
     (left = L \<or> typed stabs ty L R left \<and> n_value (stabs ! nat left) \<le> a) \<and>
     (\<not> any \<longrightarrow> left = L \<and> r = R) \<and>
     (r = R \<or> typed stabs ty L R (r + 1))"

lemma rd_typed:
  assumes "0 \<le> L" "R < int (length stabs)" "L \<le> m" "m \<le> R"
  shows "rd_int stabs m = Inr (stabs ! nat m)"
  using assms by (simp add: rd_int_Inr_iff)

lemma scan_type_total:
  assumes "0 \<le> l" "m < int (length stabs)"
  shows "\<exists>j. scan_type stabs ty l m = Inr j"
  using assms
proof (induction "nat (m + 1 - l)" arbitrary: m rule: less_induct)
  case less
  show ?case
  proof (cases "l \<le> m")
    case True
    then have "rd_int stabs m = Inr (stabs ! nat m)" using less.prems by (simp add: rd_int_Inr_iff)
    with True less show ?thesis by (simp add: scan_type_step)
  qed (simp add: scan_type_stop)
qed

text \<open>One round, as a step of the search.\<close>

lemma stab_loop_round:
  assumes "0 \<le> L" "R < int (length stabs)" "R < 2 ^ 30" "search_inv stabs ty L R a addr l r left right any" "l \<le> r"
  obtains m where "l - 1 \<le> m" "m \<le> r" "m \<le> (l + r) sdiv 2" "l \<le> (l + r) sdiv 2" "(l + r) sdiv 2 \<le> r"
    "l \<le> m \<longrightarrow> typed stabs ty L R m"
    "\<forall>i. m < i \<longrightarrow> i \<le> (l + r) sdiv 2 \<longrightarrow> \<not> typed stabs ty L R i"
    "scan_type stabs ty l ((l + r) sdiv 2) = Inr m" "in_i32 (l + r)"
    "stab_loop stabs ty addr l r left right any =
      (if m < l then stab_loop stabs ty addr ((l + r) sdiv 2 + 1) r left right any
       else if n_value (stabs ! nat m) < addr then stab_loop stabs ty addr ((l + r) sdiv 2 + 1) r m right True
       else if n_value (stabs ! nat m) > addr then stab_loop stabs ty addr l (m - 1) left (m - 1) True
       else stab_loop stabs ty (addr + 1) m r m right True)"
proof -
  have bounds: "0 \<le> l" "r \<le> R" "L \<le> l" using assms by (auto simp: search_inv_def)
  have half: "l \<le> (l + r) sdiv 2" "(l + r) sdiv 2 \<le> r" using half_range[OF assms(5)] by auto
  obtain m where m: "scan_type stabs ty l ((l + r) sdiv 2) = Inr m"
    using scan_type_total[of l "(l + r) sdiv 2" stabs ty] bounds half assms(2) by auto
  note res = scan_type_result[OF m half(1)]
  have i32: "in_i32 (l + r)" using bounds assms(3,5) by (simp add: in_i32_def)
  have "rd_int stabs m = Inr (stabs ! nat m)" if "l \<le> m" using that res half bounds assms(1,2) by (intro rd_typed) auto
  then have "stab_loop stabs ty addr l r left right any =
      (if m < l then stab_loop stabs ty addr ((l + r) sdiv 2 + 1) r left right any
       else if n_value (stabs ! nat m) < addr then stab_loop stabs ty addr ((l + r) sdiv 2 + 1) r m right True
       else if n_value (stabs ! nat m) > addr then stab_loop stabs ty addr l (m - 1) left (m - 1) True
       else stab_loop stabs ty (addr + 1) m r m right True)"
    using m i32 assms(5) by (subst stab_loop.simps) simp
  then show thesis using that[of m] res half bounds m i32 by (auto simp: typed_def)
qed

text \<open>Each way to go on keeps the invariant.\<close>

lemma search_invI:
  assumes "addr \<in> {a, a + 1}" "right = r" "L \<le> l" "l \<le> r + 1" "r \<le> R"
    "\<And>i. typed stabs ty L R i \<Longrightarrow> i < l \<Longrightarrow> n_value (stabs ! nat i) \<le> a \<and> any"
    "\<And>i. typed stabs ty L R i \<Longrightarrow> r < i \<Longrightarrow> a < n_value (stabs ! nat i) \<and> any"
    "left = L \<or> typed stabs ty L R left \<and> n_value (stabs ! nat left) \<le> a" "\<not> any \<Longrightarrow> left = L \<and> r = R"
    "r = R \<or> typed stabs ty L R (r + 1)"
  shows "search_inv stabs ty L R a addr l r left right any"
  using assms unfolding search_inv_def by blast

lemma search_invD:
  assumes "search_inv stabs ty L R a addr l r left right any"
  shows "addr \<in> {a, a + 1}" "right = r" "L \<le> l" "l \<le> r + 1" "r \<le> R"
    "\<And>i. typed stabs ty L R i \<Longrightarrow> i < l \<Longrightarrow> n_value (stabs ! nat i) \<le> a \<and> any"
    "\<And>i. typed stabs ty L R i \<Longrightarrow> r < i \<Longrightarrow> a < n_value (stabs ! nat i) \<and> any"
    "left = L \<or> typed stabs ty L R left \<and> n_value (stabs ! nat left) \<le> a" "\<not> any \<Longrightarrow> left = L \<and> r = R"
    "r = R \<or> typed stabs ty L R (r + 1)"
  using assms unfolding search_inv_def by blast+

lemma search_inv_none:
  assumes "search_inv stabs ty L R a addr l r left right any" "m < l" "l \<le> t" "t \<le> r"
    "\<forall>i. m < i \<longrightarrow> i \<le> t \<longrightarrow> \<not> typed stabs ty L R i"
  shows "search_inv stabs ty L R a addr (t + 1) r left right any"
proof (rule search_invI)
  fix i assume i: "typed stabs ty L R i" "i < t + 1"
  have "\<not> (m < i \<and> i \<le> t)" using assms(5) i(1) by blast
  then have "i < l" using i(2) assms(2) by linarith
  then show "n_value (stabs ! nat i) \<le> a \<and> any" by (rule search_invD(6)[OF assms(1) i(1)])
next
  fix i assume i: "typed stabs ty L R i" "r < i"
  show "a < n_value (stabs ! nat i) \<and> any" by (rule search_invD(7)[OF assms(1) i])
next
  show "\<not> any \<Longrightarrow> left = L \<and> r = R" by (rule search_invD(9)[OF assms(1)])
qed (use search_invD(1-5,8,10)[OF assms(1)] assms(2-4) in \<open>simp_all\<close>)

lemma search_inv_below:
  assumes "search_inv stabs ty L R a addr l r left right any" "typed stabs ty L R m" "l \<le> t" "t \<le> r"
    "\<forall>i. m < i \<longrightarrow> i \<le> t \<longrightarrow> \<not> typed stabs ty L R i" "ordered stabs ty L R" "n_value (stabs ! nat m) \<le> a"
  shows "search_inv stabs ty L R a addr (t + 1) r m right True"
proof (rule search_invI)
  fix i assume i: "typed stabs ty L R i" "i < t + 1"
  have "\<not> (m < i \<and> i \<le> t)" using assms(5) i(1) by blast
  then have "i \<le> m" using i(2) by linarith
  then have "n_value (stabs ! nat i) \<le> n_value (stabs ! nat m)" using assms(2,6) i(1) unfolding ordered_def by blast
  with assms(7) show "n_value (stabs ! nat i) \<le> a \<and> True" by simp
next
  fix i assume i: "typed stabs ty L R i" "r < i"
  show "a < n_value (stabs ! nat i) \<and> True" using search_invD(7)[OF assms(1) i] by simp
qed (use search_invD(1-5,8-10)[OF assms(1)] assms(2-4,7) in \<open>simp_all\<close>)

lemma search_inv_above:
  assumes "search_inv stabs ty L R a addr l r left right any" "typed stabs ty L R m" "l \<le> m" "m \<le> r"
    "ordered stabs ty L R" "a < n_value (stabs ! nat m)"
  shows "search_inv stabs ty L R a addr l (m - 1) left (m - 1) True"
proof (rule search_invI)
  fix i assume i: "typed stabs ty L R i" "m - 1 < i"
  then have "m \<le> i" by linarith
  then have "n_value (stabs ! nat m) \<le> n_value (stabs ! nat i)" using assms(2,5) i(1) unfolding ordered_def by blast
  with assms(6) show "a < n_value (stabs ! nat i) \<and> True" by simp
next
  fix i assume i: "typed stabs ty L R i" "i < l"
  show "n_value (stabs ! nat i) \<le> a \<and> True" using search_invD(6)[OF assms(1) i] by simp
qed (use search_invD(1-5,8-10)[OF assms(1)] assms(2-4) in \<open>simp_all\<close>)

lemma search_inv_match:
  assumes "search_inv stabs ty L R a a l r left right any" "typed stabs ty L R m" "l \<le> m" "m \<le> r"
    "ordered stabs ty L R" "n_value (stabs ! nat m) = a"
  shows "search_inv stabs ty L R a (a + 1) m r m right True"
proof (rule search_invI)
  fix i assume i: "typed stabs ty L R i" "i < m"
  then have "i \<le> m" by linarith
  then have "n_value (stabs ! nat i) \<le> n_value (stabs ! nat m)" using assms(2,5) i(1) unfolding ordered_def by blast
  with assms(6) show "n_value (stabs ! nat i) \<le> a \<and> True" by simp
next
  fix i assume i: "typed stabs ty L R i" "r < i"
  show "a < n_value (stabs ! nat i) \<and> True" using search_invD(7)[OF assms(1) i] by simp
qed (use search_invD(1-5,8-10)[OF assms(1)] assms(2-4,6) in \<open>simp_all\<close>)

lemma stab_loop_result:
  assumes "search_inv stabs ty L R a addr l r left right any"
    and "0 \<le> L" "R < int (length stabs)" "R < 2 ^ 30" "ordered stabs ty L R" "a < a + 1"
    and "\<And>i. typed stabs ty L R i \<Longrightarrow> n_value (stabs ! nat i) \<noteq> a + 1"
  shows "\<exists>addr' l' r' left' right' any'. stab_loop stabs ty addr l r left right any = Inr (left', right', any') \<and>
    search_inv stabs ty L R a addr' l' r' left' right' any' \<and> r' < l'"
  using assms
proof (induction stabs ty addr l r left right any rule: stab_loop.induct)
  case (1 stabs ty addr l r left right any)
  let ?t = "(l + r) sdiv 2"
  note fixed = "1.prems"(2-7)
  show ?case
  proof (cases "l \<le> r")
    case False
    then show ?thesis using "1.prems"(1) by (subst stab_loop.simps) fastforce
  next
    case True
    from stab_loop_round[OF fixed(1-3) "1.prems"(1) True] obtain m where m: "m \<le> r" "l \<le> ?t" "?t \<le> r"
      "l \<le> m \<longrightarrow> typed stabs ty L R m" "\<forall>i. m < i \<longrightarrow> i \<le> ?t \<longrightarrow> \<not> typed stabs ty L R i"
      and ok: "scan_type stabs ty l ?t = Inr m" "in_i32 (l + r)"
      and step: "stab_loop stabs ty addr l r left right any =
      (if m < l then stab_loop stabs ty addr (?t + 1) r left right any
       else if n_value (stabs ! nat m) < addr then stab_loop stabs ty addr (?t + 1) r m right True
       else if n_value (stabs ! nat m) > addr then stab_loop stabs ty addr l (m - 1) left (m - 1) True
       else stab_loop stabs ty (addr + 1) m r m right True)" .
    have guard: "guardE SignedOverflow (in_i32 (l + r)) = Inr ()" using ok(2) by simp
    have rd: "rd_int stabs m = Inr (stabs ! nat m)" if "l \<le> m"
      using that m(1,4) fixed(1,2) by (intro rd_typed[of L R]) (auto simp: typed_def)
    have near: "addr = a \<or> addr = a + 1" using "1.prems"(1) by (auto simp: search_inv_def)
    consider "m < l" | "\<not> m < l" "n_value (stabs ! nat m) < addr" | "\<not> m < l" "\<not> n_value (stabs ! nat m) < addr" "n_value (stabs ! nat m) > addr"
      | "\<not> m < l" "n_value (stabs ! nat m) = addr" by fastforce
    then show ?thesis
    proof cases
      case 1
      show ?thesis
        using "1.IH"(1)[OF True guard ok(1) 1 search_inv_none[OF "1.prems"(1) 1 m(2,3,5)] fixed] step 1 by simp
    next
      case 2
      then have lm: "l \<le> m" and ty: "typed stabs ty L R m" using m(4) by auto
      have "unat (a + 1) = Suc (unat a)" using fixed(5) by (intro unat_Suc_word) auto
      with 2 near have "n_value (stabs ! nat m) \<le> a" by (auto simp: word_less_nat_alt word_le_nat_alt)
      with 2 show ?thesis
        using "1.IH"(2)[OF True guard ok(1) 2(1) rd[OF lm] 2(2) search_inv_below[OF "1.prems"(1) ty m(2,3,5) fixed(4)] fixed] step
        by simp
    next
      case 3
      then have lm: "l \<le> m" and ty: "typed stabs ty L R m" using m(4) by auto
      have "a < n_value (stabs ! nat m)" using 3 near fixed(5) by auto
      with 3 show ?thesis
        using "1.IH"(3)[OF True guard ok(1) 3(1) rd[OF lm] 3(2,3) search_inv_above[OF "1.prems"(1) ty lm m(1) fixed(4)] fixed] step
        by simp
    next
      case 4
      then have lm: "l \<le> m" and ty: "typed stabs ty L R m" using m(4) by auto
      have a: "addr = a" using 4(2) near fixed(6)[OF ty] by auto
      have "search_inv stabs ty L R a (addr + 1) m r m right True"
        using search_inv_match[OF _ ty lm m(1) fixed(4)] "1.prems"(1) 4(2) unfolding a by blast
      from "1.IH"(4)[OF True guard ok(1) 4(1) rd[OF lm] _ _ this fixed] step 4 show ?thesis by simp
    qed
  qed
qed

lemma scan_left_result:
  assumes "left \<le> r" "0 \<le> left" "r < int (length stabs)"
  shows "\<exists>j. scan_left stabs ty left r = Inr j \<and> left \<le> j \<and> j \<le> r \<and> (left < j \<longrightarrow> n_type (stabs ! nat j) = ty) \<and>
    (\<forall>i. j < i \<longrightarrow> i \<le> r \<longrightarrow> n_type (stabs ! nat i) \<noteq> ty)"
  using assms
proof (induction "nat (r - left)" arbitrary: r rule: less_induct)
  case less
  show ?case
  proof (cases "left < r \<and> n_type (stabs ! nat r) \<noteq> ty")
    case True
    then have rd: "rd_int stabs r = Inr (stabs ! nat r)" using less.prems by (simp add: rd_int_Inr_iff)
    obtain j where j: "scan_left stabs ty left (r - 1) = Inr j" "left \<le> j" "j \<le> r - 1" "left < j \<longrightarrow> n_type (stabs ! nat j) = ty"
        "\<forall>i. j < i \<longrightarrow> i \<le> r - 1 \<longrightarrow> n_type (stabs ! nat i) \<noteq> ty"
      using less.hyps[of "r - 1"] True less.prems by auto
    have "n_type (stabs ! nat i) \<noteq> ty" if "j < i" "i \<le> r" for i
      using j(5) that True by (cases "i = r") auto
    moreover have "scan_left stabs ty left r = Inr j" using True rd j(1) by (subst scan_left.simps) simp
    ultimately show ?thesis using j(2-4) by (intro exI[of _ j]) auto
  next
    case False
    then have "scan_left stabs ty left r = Inr r"
      using less.prems by (subst scan_left.simps) (auto simp: rd_int_in_range)
    with False less.prems show ?thesis by (intro exI[of _ r]) auto
  qed
qed


text \<open>Four entries of a type, of which the search for \<open>0x25\<close> finds the second.\<close>

definition ex_stabs :: "stab list" where
  "ex_stabs = map (\<lambda>(t, v). \<lparr>n_strx = 0, n_type = t, n_other = 0, n_desc = 0, n_value = v\<rparr>)
     [(N_FUN, 0x10), (N_SLINE, 0), (N_FUN, 0x20), (N_SLINE, 0), (N_FUN, 0x30), (N_FUN, 0x31)]"


text \<open>
  With an entry at the address and one at the next address, the code takes the second match as well: the search for
  \<open>0x30\<close> ends at the entry for \<open>0x31\<close>.
\<close>

lemma adjacent_entry_is_taken: "stab_binsearch ex_stabs 0 5 N_FUN 0x30 = Inr (5, 5)"
  by (simp add: stab_binsearch_def stab_loop.simps scan_type.simps scan_left.simps ex_stabs_def N_FUN_def N_SLINE_def
    rd_int_def in_i32_def signed_divide_int_def)

text \<open>An address below all entries gives a region that looks as if it held the address.\<close>

lemma below_all_entries: "stab_binsearch ex_stabs 0 5 N_FUN 0x5 = Inr (-1, -1)"
  by (simp add: stab_binsearch_def stab_loop.simps scan_type.simps scan_left.simps ex_stabs_def N_FUN_def N_SLINE_def
    rd_int_def in_i32_def signed_divide_int_def)

end
