(* ===== verification/Pipe.thy ===== *)
theory Pipe
  imports Prelude "HOL-Library.Signed_Division"
begin

text \<open>
  Pipes of JOS (\<open>os_final_project/code/lib/pipe.c\<close>): a ring buffer on a page that its two ends share, filled
  and emptied by programs that are interrupted anywhere. An end is a page with a \<open>struct Fd\<close>; how many
  programs have it is the number of mappings of that page (\<open>pageref\<close>), and every program that has an end
  maps the page of the buffer with it. \<open>env_runs\<close> counts without end here, where the code has 32 bits.

  One program reads and one writes, each in steps of one access to shared memory. Others that have an
  end duplicate or close it, one mapping at a time. The ends are \<open>fd0\<close>, for reading, and \<open>fd1\<close>.
\<close>

section \<open>State\<close>

definition PIPEBUFSIZ :: nat where "PIPEBUFSIZ = 32"

text \<open>Inside \<open>_pipeisclosed\<close>: before the first reading of \<open>env_runs\<close>, and with the locals read so far.\<close>

datatype check = C_n | C_fd int | C_p int nat | C_nn int nat nat

text \<open>The places between two shared accesses of \<open>devpipe_read\<close> and \<open>devpipe_write\<close>; \<open>Done\<close> has the result.\<close>

datatype place = Test | Closed check | Move | Count | Done int

datatype who = Reader | Writer | Other

text \<open>
  \<open>r_log\<close> and \<open>w_log\<close> are not in the code: the bytes all calls of \<open>read\<close> have put into their buffers, and the bytes
  all calls of \<open>write\<close> have stored.
\<close>

record pipe =
  p_rpos :: int
  p_wpos :: int
  p_buf :: "u8 list"
  fd0_ref :: nat
  fd1_ref :: nat
  p_ref :: nat
  r_pc :: place
  r_i :: nat
  r_n :: nat
  r_log :: "u8 list"
  r_runs :: int
  w_pc :: place
  w_i :: nat
  w_data :: "u8 list"
  w_log :: "u8 list"
  w_runs :: int
  running :: who

section \<open>Whether the other end is closed\<close>

text \<open>
  One access of \<open>_pipeisclosed(fd, p)\<close>, with the current values of \<open>env_runs\<close> of the caller, of \<open>pageref(fd)\<close> and of
  \<open>pageref(p)\<close>: the next place, or the result.
\<close>

fun pipeisclosed_step :: "int \<Rightarrow> nat \<Rightarrow> nat \<Rightarrow> check \<Rightarrow> check + bool" where
  "pipeisclosed_step runs fd_ref p_refs C_n = Inl (C_fd runs)"
| "pipeisclosed_step runs fd_ref p_refs (C_fd n) = Inl (C_p n fd_ref)"
| "pipeisclosed_step runs fd_ref p_refs (C_p n a) = Inl (C_nn n a p_refs)"
| "pipeisclosed_step runs fd_ref p_refs (C_nn n a b) = (if n = runs then Inr (a = b) else Inl C_n)"

section \<open>Reading and writing\<close>

definition rd_at :: "'a list \<Rightarrow> int \<Rightarrow> 'a c" where
  "rd_at xs i = (if 0 \<le> i then rd xs (nat i) else Inl OutOfBounds)"

definition wr_at :: "'a list \<Rightarrow> int \<Rightarrow> 'a \<Rightarrow> 'a list c" where
  "wr_at xs i v = (if 0 \<le> i then wr xs (nat i) v else Inl OutOfBounds)"

definition devpipe_read_step :: "pipe \<Rightarrow> pipe c" where
  "devpipe_read_step s = (case r_pc s of
     Test \<Rightarrow>
       if r_i s < r_n s
       then if p_rpos s = p_wpos s
            then if r_i s > 0 then Inr (s\<lparr>r_pc := Done (int (r_i s))\<rparr>) else Inr (s\<lparr>r_pc := Closed C_n\<rparr>)
            else Inr (s\<lparr>r_pc := Move\<rparr>)
       else Inr (s\<lparr>r_pc := Done (int (r_i s))\<rparr>)
   | Closed c \<Rightarrow>
       (case pipeisclosed_step (r_runs s) (fd0_ref s) (p_ref s) c of
          Inl c' \<Rightarrow> Inr (s\<lparr>r_pc := Closed c'\<rparr>)
        | Inr closed \<Rightarrow> Inr (s\<lparr>r_pc := (if closed then Done 0 else Test)\<rparr>))
   | Move \<Rightarrow> bindE (rd_at (p_buf s) (p_rpos s smod int PIPEBUFSIZ)) (\<lambda>b. Inr (s\<lparr>r_log := r_log s @ [b], r_pc := Count\<rparr>))
   | Count \<Rightarrow> bindE (guardE SignedOverflow (in_i32 (p_rpos s + 1))) (\<lambda>_.
       Inr (s\<lparr>p_rpos := p_rpos s + 1, r_i := r_i s + 1, r_pc := Test\<rparr>))
   | Done r \<Rightarrow> Inr s)"

text \<open>The test for room compares unsigned numbers, \<open>sizeof\<close> being one.\<close>

definition pipe_full :: "pipe \<Rightarrow> bool" where
  "pipe_full s \<longleftrightarrow> (of_int (p_wpos s) :: u32) \<ge> of_int (p_rpos s) + of_nat PIPEBUFSIZ"

definition devpipe_write_step :: "pipe \<Rightarrow> pipe c" where
  "devpipe_write_step s = (case w_pc s of
     Test \<Rightarrow>
       if w_i s < length (w_data s)
       then if pipe_full s then Inr (s\<lparr>w_pc := Closed C_n\<rparr>) else Inr (s\<lparr>w_pc := Move\<rparr>)
       else Inr (s\<lparr>w_pc := Done (int (w_i s))\<rparr>)
   | Closed c \<Rightarrow>
       (case pipeisclosed_step (w_runs s) (fd1_ref s) (p_ref s) c of
          Inl c' \<Rightarrow> Inr (s\<lparr>w_pc := Closed c'\<rparr>)
        | Inr closed \<Rightarrow> Inr (s\<lparr>w_pc := (if closed then Done 0 else Test)\<rparr>))
   | Move \<Rightarrow> bindE (rd (w_data s) (w_i s)) (\<lambda>b.
       bindE (wr_at (p_buf s) (p_wpos s smod int PIPEBUFSIZ) b) (\<lambda>buf. Inr (s\<lparr>p_buf := buf, w_log := w_log s @ [b], w_pc := Count\<rparr>)))
   | Count \<Rightarrow> bindE (guardE SignedOverflow (in_i32 (p_wpos s + 1))) (\<lambda>_.
       Inr (s\<lparr>p_wpos := p_wpos s + 1, w_i := w_i s + 1, w_pc := Test\<rparr>))
   | Done r \<Rightarrow> Inr s)"

section \<open>The other programs\<close>

text \<open>
  \<open>devpipe_close\<close> unmaps the descriptor and then the buffer; \<open>dup\<close> maps the buffer and then the descriptor.
  Both so that there are at least as many mappings of the buffer as of the ends at any time: \<open>p_ref\<close> can
  go down, and an end up, only while there are more.
\<close>

inductive other_step :: "pipe \<Rightarrow> pipe \<Rightarrow> bool" where
  close_fd0: "fd0_ref s > 0 \<Longrightarrow> other_step s (s\<lparr>fd0_ref := fd0_ref s - 1\<rparr>)"
| close_fd1: "fd1_ref s > 0 \<Longrightarrow> other_step s (s\<lparr>fd1_ref := fd1_ref s - 1\<rparr>)"
| close_p: "p_ref s > fd0_ref s + fd1_ref s \<Longrightarrow> other_step s (s\<lparr>p_ref := p_ref s - 1\<rparr>)"
| dup_p: "other_step s (s\<lparr>p_ref := p_ref s + 1\<rparr>)"
| dup_fd0: "fd0_ref s > 0 \<Longrightarrow> p_ref s > fd0_ref s + fd1_ref s \<Longrightarrow> other_step s (s\<lparr>fd0_ref := fd0_ref s + 1\<rparr>)"
| dup_fd1: "fd1_ref s > 0 \<Longrightarrow> p_ref s > fd0_ref s + fd1_ref s \<Longrightarrow> other_step s (s\<lparr>fd1_ref := fd1_ref s + 1\<rparr>)"

text \<open>\<open>fork\<close> copies the address space upwards, and so a descriptor before its buffer.\<close>

inductive fork_step :: "pipe \<Rightarrow> pipe \<Rightarrow> bool" where
  fork_fd0: "fd0_ref s > 0 \<Longrightarrow> fork_step s (s\<lparr>fd0_ref := fd0_ref s + 1\<rparr>)"
| fork_fd1: "fd1_ref s > 0 \<Longrightarrow> fork_step s (s\<lparr>fd1_ref := fd1_ref s + 1\<rparr>)"
| fork_p: "fork_step s (s\<lparr>p_ref := p_ref s + 1\<rparr>)"

section \<open>Runs\<close>

text \<open>
  A program that gets a CPU again has its \<open>env_runs\<close> counted up; a new call of \<open>read\<close> or \<open>write\<close> starts when the
  one before has returned. With \<open>smp\<close> there is a CPU for each program, and nobody waits for one.
\<close>

definition switch_to :: "who \<Rightarrow> pipe \<Rightarrow> pipe" where
  "switch_to a s = (case a of
     Reader \<Rightarrow> s\<lparr>running := a, r_runs := r_runs s + 1\<rparr>
   | Writer \<Rightarrow> s\<lparr>running := a, w_runs := w_runs s + 1\<rparr>
   | Other \<Rightarrow> s\<lparr>running := a\<rparr>)"

definition on_cpu :: "bool \<Rightarrow> who \<Rightarrow> pipe \<Rightarrow> bool" where
  "on_cpu smp a s \<longleftrightarrow> smp \<or> running s = a"

inductive pipe_step :: "bool \<Rightarrow> bool \<Rightarrow> pipe \<Rightarrow> pipe \<Rightarrow> bool" for smp forks where
  switch: "running s \<noteq> a \<Longrightarrow> pipe_step smp forks s (switch_to a s)"
| reader: "on_cpu smp Reader s \<Longrightarrow> devpipe_read_step s = Inr s' \<Longrightarrow> pipe_step smp forks s s'"
| writer: "on_cpu smp Writer s \<Longrightarrow> devpipe_write_step s = Inr s' \<Longrightarrow> pipe_step smp forks s s'"
| read_call: "on_cpu smp Reader s \<Longrightarrow> r_pc s = Done r \<Longrightarrow> pipe_step smp forks s (s\<lparr>r_pc := Test, r_i := 0, r_n := n\<rparr>)"
| write_call: "on_cpu smp Writer s \<Longrightarrow> w_pc s = Done r \<Longrightarrow>
    pipe_step smp forks s (s\<lparr>w_pc := Test, w_i := 0, w_data := d\<rparr>)"
| other: "on_cpu smp Other s \<Longrightarrow> other_step s s' \<Longrightarrow> pipe_step smp forks s s'"
| forking: "forks \<Longrightarrow> on_cpu smp Other s \<Longrightarrow> fork_step s s' \<Longrightarrow> pipe_step smp forks s s'"

text \<open>A pipe with \<open>a\<close> descriptors for reading and \<open>b\<close> for writing; its page is new, and so all 0.\<close>

definition new_pipe :: "nat \<Rightarrow> nat \<Rightarrow> pipe" where
  "new_pipe a b = \<lparr>p_rpos = 0, p_wpos = 0, p_buf = replicate PIPEBUFSIZ 0, fd0_ref = a, fd1_ref = b, p_ref = a + b,
     r_pc = Done 0, r_i = 0, r_n = 0, r_log = [], r_runs = 0, w_pc = Done 0, w_i = 0, w_data = [], w_log = [], w_runs = 0,
     running = Other\<rparr>"

definition pipe_reach :: "bool \<Rightarrow> bool \<Rightarrow> pipe \<Rightarrow> bool" where
  "pipe_reach smp forks s \<longleftrightarrow> (\<exists>a b. (pipe_step smp forks)\<^sup>*\<^sup>* (new_pipe a b) s)"

end
