(* ===== verification/PipeProps.thy ===== *)
theory PipeProps
  imports Pipe
begin

text \<open>
  What a pipe promises: bytes come out as they went in, under every interleaving; on one CPU the end of
  the input is reported only when the writers are gone, except while somebody forks; and an end that is
  reported too early for the bytes that are left.
\<close>

section \<open>First in, first out\<close>

definition fifo_inv :: "pipe \<Rightarrow> bool" where
  "fifo_inv s \<longleftrightarrow>
     0 \<le> p_rpos s \<and> p_rpos s \<le> p_wpos s \<and> p_wpos s \<le> p_rpos s + 32 \<and> p_wpos s < 2 ^ 31 \<and> length (p_buf s) = 32 \<and>
     int (length (r_log s)) = p_rpos s + of_bool (r_pc s = Count) \<and>
     int (length (w_log s)) = p_wpos s + of_bool (w_pc s = Count) \<and>
     take (length (r_log s)) (w_log s) = r_log s \<and>
     (\<forall>j. p_rpos s \<le> int j \<longrightarrow> j < length (w_log s) \<longrightarrow> p_buf s ! (j mod 32) = w_log s ! j) \<and>
     (r_pc s \<in> {Move, Count} \<longrightarrow> p_rpos s < p_wpos s) \<and>
     (w_pc s \<in> {Move, Count} \<longrightarrow> p_wpos s < p_rpos s + 32)"

lemma pipe_full_iff:
  assumes "0 \<le> p_rpos s" "p_rpos s \<le> p_wpos s" "p_wpos s < 2 ^ 31"
  shows "pipe_full s \<longleftrightarrow> p_rpos s + 32 \<le> p_wpos s"
proof -
  have w: "uint (of_int (p_wpos s) :: u32) = p_wpos s" using assms by (subst uint_word_of_int) simp
  have "(of_int (p_rpos s) :: u32) + of_nat PIPEBUFSIZ = of_int (p_rpos s + 32)" by (simp add: PIPEBUFSIZ_def)
  moreover have "uint (of_int (p_rpos s + 32) :: u32) = p_rpos s + 32" using assms by (subst uint_word_of_int) simp
  ultimately show ?thesis using w by (simp add: pipe_full_def word_le_def)
qed

lemma slot: "0 \<le> i \<Longrightarrow> nat (i smod int PIPEBUFSIZ) = nat i mod 32 \<and> 0 \<le> i smod int PIPEBUFSIZ"
  by (auto simp: PIPEBUFSIZ_def signed_modulo_int_def nat_mod_distrib sgn_if)

lemma other_slot:
  assumes "int j < w" "w - 32 < int j" "0 \<le> w"
  shows "j mod 32 \<noteq> nat w mod 32"
proof
  assume "j mod 32 = nat w mod 32"
  then have "32 dvd nat w - j" using assms by (metis mod_eq_dvd_iff_nat nat_less_le nat_int zless_nat_eq_int_zless)
  moreover have "0 < nat w - j" "nat w - j < 32" using assms by auto
  ultimately show False by (meson nat_dvd_not_less)
qed

lemma fifo_log: "fifo_inv s \<Longrightarrow> length (r_log s) \<le> length (w_log s)"
  unfolding fifo_inv_def by (metis length_take min.cobounded1)

text \<open>Steps that only move on in the code.\<close>

lemma fifo_r_pc:
  "fifo_inv s \<Longrightarrow> r_pc s \<noteq> Count \<Longrightarrow> pc \<noteq> Count \<Longrightarrow> (pc = Move \<Longrightarrow> p_rpos s \<noteq> p_wpos s) \<Longrightarrow> fifo_inv (s\<lparr>r_pc := pc\<rparr>)"
  by (auto simp: fifo_inv_def)

lemma fifo_w_pc:
  "fifo_inv s \<Longrightarrow> w_pc s \<noteq> Count \<Longrightarrow> pc \<noteq> Count \<Longrightarrow> (pc = Move \<Longrightarrow> p_wpos s < p_rpos s + 32) \<Longrightarrow> fifo_inv (s\<lparr>w_pc := pc\<rparr>)"
  by (simp add: fifo_inv_def)

lemma read_keeps_fifo: "fifo_inv s \<Longrightarrow> devpipe_read_step s = Inr s' \<Longrightarrow> fifo_inv s'"
proof (cases "r_pc s")
  case Move
  assume inv: "fifo_inv s" and step: "devpipe_read_step s = Inr s'"
  let ?n = "length (r_log s)"
  have pos: "0 \<le> p_rpos s" "p_rpos s < p_wpos s" "int ?n = p_rpos s" "p_wpos s \<le> int (length (w_log s))"
    using inv Move by (auto simp: fifo_inv_def)
  then have "?n < length (w_log s)" by linarith
  note pos = pos this
  have n: "nat (p_rpos s) = ?n" using pos(3) by simp
  have b: "p_buf s ! (?n mod 32) = w_log s ! ?n" using inv pos by (simp add: fifo_inv_def)
  have "length (p_buf s) = 32" using inv by (simp add: fifo_inv_def)
  then have "s' = s\<lparr>r_log := r_log s @ [w_log s ! ?n], r_pc := Count\<rparr>"
    using step Move slot[OF pos(1)] b by (simp add: devpipe_read_step_def rd_at_def n)
  then show ?thesis using inv pos Move by (auto simp: fifo_inv_def take_Suc_conv_app_nth)
next
  case Count
  assume inv: "fifo_inv s" and step: "devpipe_read_step s = Inr s'"
  then have "s' = s\<lparr>p_rpos := p_rpos s + 1, r_i := r_i s + 1, r_pc := Test\<rparr>" using Count by (auto simp: devpipe_read_step_def)
  then show ?thesis using inv Count by (auto simp: fifo_inv_def)
qed (auto simp: devpipe_read_step_def intro!: fifo_r_pc split: if_splits sum.splits)

lemma write_keeps_fifo: "fifo_inv s \<Longrightarrow> devpipe_write_step s = Inr s' \<Longrightarrow> fifo_inv s'"
proof (cases "w_pc s")
  case Move
  assume inv: "fifo_inv s" and step: "devpipe_write_step s = Inr s'"
  let ?n = "length (w_log s)"
  have pos: "0 \<le> p_wpos s" "p_wpos s < p_rpos s + 32" "int ?n = p_wpos s" using inv Move by (auto simp: fifo_inv_def)
  have n: "nat (p_wpos s) = ?n" using pos(3) by simp
  have "length (p_buf s) = 32" using inv by (simp add: fifo_inv_def)
  then obtain b where s': "s' = s\<lparr>p_buf := (p_buf s)[?n mod 32 := b], w_log := w_log s @ [b], w_pc := Count\<rparr>"
    using step Move slot[OF pos(1)] that by (auto simp: devpipe_write_step_def wr_at_def n)
  have "(p_buf s)[?n mod 32 := b] ! (j mod 32) = (w_log s @ [b]) ! j" if "p_rpos s \<le> int j" "j < Suc ?n" for j
  proof (cases "j = ?n")
    case True
    then show ?thesis using inv by (simp add: fifo_inv_def)
  next
    case False
    then have "j mod 32 \<noteq> nat (p_wpos s) mod 32" using that pos by (intro other_slot) auto
    then show ?thesis using inv that False n by (simp add: fifo_inv_def nth_append)
  qed
  with s' inv pos Move fifo_log[OF inv] show ?thesis by (auto simp: fifo_inv_def)
next
  case Count
  assume inv: "fifo_inv s" and step: "devpipe_write_step s = Inr s'"
  then have "s' = s\<lparr>p_wpos := p_wpos s + 1, w_i := w_i s + 1, w_pc := Test\<rparr>" "in_i32 (p_wpos s + 1)"
    using Count by (auto simp: devpipe_write_step_def)
  then show ?thesis using inv Count by (auto simp: fifo_inv_def in_i32_def)
next
  case Test
  assume inv: "fifo_inv s" and step: "devpipe_write_step s = Inr s'"
  then have "pipe_full s \<longleftrightarrow> p_rpos s + 32 \<le> p_wpos s" by (intro pipe_full_iff) (auto simp: fifo_inv_def)
  then show ?thesis using inv step Test by (auto simp: devpipe_write_step_def intro!: fifo_w_pc split: if_splits)
qed (auto simp: devpipe_write_step_def intro!: fifo_w_pc split: if_splits sum.splits)

lemma fifo_switch: "fifo_inv s \<Longrightarrow> fifo_inv (switch_to a s)"
  by (cases a) (simp_all add: fifo_inv_def switch_to_def)

lemma fifo_refs:
  "fifo_inv (s\<lparr>fd0_ref := i\<rparr>) = fifo_inv s" "fifo_inv (s\<lparr>fd1_ref := i\<rparr>) = fifo_inv s" "fifo_inv (s\<lparr>p_ref := i\<rparr>) = fifo_inv s"
  by (simp_all add: fifo_inv_def)

lemma fifo_other: "other_step s s' \<Longrightarrow> fifo_inv s \<Longrightarrow> fifo_inv s'"
  by (induction rule: other_step.induct) (simp_all add: fifo_refs)

lemma fifo_fork: "fork_step s s' \<Longrightarrow> fifo_inv s \<Longrightarrow> fifo_inv s'"
  by (induction rule: fork_step.induct) (simp_all add: fifo_refs)

lemma fifo_calls:
  "fifo_inv s \<Longrightarrow> r_pc s = Done r \<Longrightarrow> fifo_inv (s\<lparr>r_pc := Test, r_i := i, r_n := n\<rparr>)"
  "fifo_inv s \<Longrightarrow> w_pc s = Done r \<Longrightarrow> fifo_inv (s\<lparr>w_pc := Test, w_i := i, w_data := d\<rparr>)"
  by (simp_all add: fifo_inv_def)

lemmas fifo_frame = fifo_switch fifo_other fifo_fork fifo_calls

lemma step_keeps_fifo: "pipe_step smp forks s s' \<Longrightarrow> fifo_inv s \<Longrightarrow> fifo_inv s'"
  by (induction rule: pipe_step.induct) (auto intro: fifo_frame read_keeps_fifo write_keeps_fifo)

lemma new_pipe_fifo: "fifo_inv (new_pipe a b)"
  by (simp add: fifo_inv_def new_pipe_def PIPEBUFSIZ_def)

lemma reach_fifo: "pipe_reach smp forks s \<Longrightarrow> fifo_inv s"
proof -
  assume "pipe_reach smp forks s"
  then obtain a b where "(pipe_step smp forks)\<^sup>*\<^sup>* (new_pipe a b) s" by (auto simp: pipe_reach_def)
  then show ?thesis by (induction rule: rtranclp_induct) (auto intro: new_pipe_fifo step_keeps_fifo)
qed

text \<open>
  C30. A pipe is a queue: whenever and wherever the reader, the writer and the other owners of its ends are
  interrupted, on one CPU or on several, and even while somebody forks, the bytes read so far are the first of the bytes
  written so far, and at most 32 are on their way.
\<close>

theorem pipe_is_fifo:
  assumes "pipe_reach smp forks s"
  shows "\<exists>on_their_way. w_log s = r_log s @ on_their_way \<and> length on_their_way \<le> 32"
proof -
  note inv = reach_fifo[OF assms]
  have "w_log s = r_log s @ drop (length (r_log s)) (w_log s)"
    using inv unfolding fifo_inv_def by (metis append_take_drop_id)
  moreover have "int (length (w_log s)) \<le> int (length (r_log s)) + 32"
    using inv by (auto simp: fifo_inv_def)
  ultimately show ?thesis by (intro exI[of _ "drop (length (r_log s)) (w_log s)"]) simp
qed

section \<open>The end of the input\<close>

text \<open>What the locals of \<open>_pipeisclosed\<close> say, if no time has passed since: the caller is on the CPU and has not left it.\<close>

fun check_ok :: "bool \<Rightarrow> int \<Rightarrow> nat \<Rightarrow> nat \<Rightarrow> check \<Rightarrow> bool" where
  "check_ok on runs fd_ref p_refs C_n \<longleftrightarrow> True"
| "check_ok on runs fd_ref p_refs (C_fd n) \<longleftrightarrow> n \<le> runs"
| "check_ok on runs fd_ref p_refs (C_p n a) \<longleftrightarrow> n \<le> runs \<and> (on \<and> n = runs \<longrightarrow> a = fd_ref)"
| "check_ok on runs fd_ref p_refs (C_nn n a b) \<longleftrightarrow> n \<le> runs \<and> (on \<and> n = runs \<longrightarrow> a = fd_ref \<and> b = p_refs)"

definition eof_inv :: "pipe \<Rightarrow> bool" where
  "eof_inv s \<longleftrightarrow>
     fd0_ref s + fd1_ref s \<le> p_ref s \<and>
     (\<forall>c. r_pc s = Closed c \<longrightarrow> check_ok (running s = Reader) (r_runs s) (fd0_ref s) (p_ref s) c) \<and>
     (r_pc s = Done 0 \<longrightarrow> r_n s > 0 \<longrightarrow> fd1_ref s = 0)"

lemma check_ok_step:
  "check_ok True runs fd_ref p_refs c \<Longrightarrow> pipeisclosed_step runs fd_ref p_refs c = Inl c' \<Longrightarrow> check_ok True runs fd_ref p_refs c'"
  by (cases c) (auto split: if_splits)

lemma check_ok_result:
  "check_ok True runs fd_ref p_refs c \<Longrightarrow> pipeisclosed_step runs fd_ref p_refs c = Inr closed \<Longrightarrow> closed = (fd_ref = p_refs)"
  by (cases c) (simp_all split: if_splits)

lemma check_ok_away:
  "check_ok on runs fd_ref p_refs c \<Longrightarrow> check_ok False runs fd_ref' p_refs' c"
  "check_ok on runs fd_ref p_refs c \<Longrightarrow> check_ok on' (runs + 1) fd_ref' p_refs' c"
  by (cases c; auto)+

lemma read_keeps_eof: "eof_inv s \<Longrightarrow> running s = Reader \<Longrightarrow> devpipe_read_step s = Inr s' \<Longrightarrow> eof_inv s'"
proof (cases "r_pc s")
  case (Closed c)
  assume inv: "eof_inv s" and on: "running s = Reader" and step: "devpipe_read_step s = Inr s'"
  have ok: "check_ok True (r_runs s) (fd0_ref s) (p_ref s) c" using inv on Closed by (auto simp: eof_inv_def)
  show ?thesis
  proof (cases "pipeisclosed_step (r_runs s) (fd0_ref s) (p_ref s) c")
    case (Inl c')
    then show ?thesis using step Closed inv on check_ok_step[OF ok] by (auto simp: devpipe_read_step_def eof_inv_def)
  next
    case (Inr closed)
    then show ?thesis
      using step Closed inv check_ok_result[OF ok] by (auto simp: devpipe_read_step_def eof_inv_def split: if_splits)
  qed
qed (auto simp: devpipe_read_step_def eof_inv_def split: if_splits)

lemma step_keeps_eof: "pipe_step False False s s' \<Longrightarrow> eof_inv s \<Longrightarrow> eof_inv s'"
proof (induction rule: pipe_step.induct)
  case (switch s a)
  then show ?case by (cases a) (auto simp: eof_inv_def switch_to_def intro: check_ok_away)
next
  case (reader s s')
  then show ?case by (auto simp: on_cpu_def intro: read_keeps_eof)
next
  case (writer s s')
  then show ?case
    by (auto simp: on_cpu_def eof_inv_def devpipe_write_step_def split: place.splits if_splits sum.splits)
next
  case (other s s')
  from other(2) have "running s = Other \<Longrightarrow> eof_inv s \<Longrightarrow> eof_inv s'"
    by (induction rule: other_step.induct) (auto simp: eof_inv_def intro: check_ok_away)
  with other show ?case by (simp add: on_cpu_def)
qed (auto simp: eof_inv_def on_cpu_def)

lemma new_pipe_eof: "eof_inv (new_pipe a b)"
  by (simp add: eof_inv_def new_pipe_def)

section \<open>Runs by example\<close>

text \<open>The moves of a run as a list, and the state they lead to, if they are all possible.\<close>

datatype pmove = To who | R | W | Read nat | Write "u8 list" | Close0 | Close1 | CloseP | DupP | Fork0 | Fork1 | ForkP

fun move :: "bool \<Rightarrow> pmove \<Rightarrow> pipe \<Rightarrow> pipe option" where
  "move forks (To a) s = (if running s \<noteq> a then Some (switch_to a s) else None)"
| "move forks R s = (if running s = Reader then case devpipe_read_step s of Inr s' \<Rightarrow> Some s' | Inl _ \<Rightarrow> None else None)"
| "move forks W s = (if running s = Writer then case devpipe_write_step s of Inr s' \<Rightarrow> Some s' | Inl _ \<Rightarrow> None else None)"
| "move forks (Read n) s =
     (if running s = Reader then case r_pc s of Done _ \<Rightarrow> Some (s\<lparr>r_pc := Test, r_i := 0, r_n := n\<rparr>) | _ \<Rightarrow> None else None)"
| "move forks (Write d) s =
     (if running s = Writer then case w_pc s of Done _ \<Rightarrow> Some (s\<lparr>w_pc := Test, w_i := 0, w_data := d\<rparr>) | _ \<Rightarrow> None else None)"
| "move forks Close0 s = (if running s = Other \<and> fd0_ref s > 0 then Some (s\<lparr>fd0_ref := fd0_ref s - 1\<rparr>) else None)"
| "move forks Close1 s = (if running s = Other \<and> fd1_ref s > 0 then Some (s\<lparr>fd1_ref := fd1_ref s - 1\<rparr>) else None)"
| "move forks CloseP s =
     (if running s = Other \<and> p_ref s > fd0_ref s + fd1_ref s then Some (s\<lparr>p_ref := p_ref s - 1\<rparr>) else None)"
| "move forks DupP s = (if running s = Other then Some (s\<lparr>p_ref := p_ref s + 1\<rparr>) else None)"
| "move forks Fork0 s = (if forks \<and> running s = Other \<and> fd0_ref s > 0 then Some (s\<lparr>fd0_ref := fd0_ref s + 1\<rparr>) else None)"
| "move forks Fork1 s = (if forks \<and> running s = Other \<and> fd1_ref s > 0 then Some (s\<lparr>fd1_ref := fd1_ref s + 1\<rparr>) else None)"
| "move forks ForkP s = (if forks \<and> running s = Other then Some (s\<lparr>p_ref := p_ref s + 1\<rparr>) else None)"

fun play :: "bool \<Rightarrow> pmove list \<Rightarrow> pipe \<Rightarrow> pipe option" where
  "play forks [] s = Some s"
| "play forks (m # ms) s = (case move forks m s of None \<Rightarrow> None | Some s' \<Rightarrow> play forks ms s')"

lemma move_is_step: "move forks m s = Some s' \<Longrightarrow> pipe_step False forks s s'"
  by (cases "(forks, m, s)" rule: move.cases)
    (auto simp: on_cpu_def split: if_splits sum.splits place.splits
      intro: pipe_step.intros other_step.intros[simplified] fork_step.intros[simplified])

lemma play_is_run: "play forks ms s = Some s' \<Longrightarrow> (pipe_step False forks)\<^sup>*\<^sup>* s s'"
  by (induction ms arbitrary: s)
    (auto split: option.splits intro: converse_rtranclp_into_rtranclp move_is_step)

lemma played: "play forks ms (new_pipe a b) = Some s \<Longrightarrow> pipe_reach False forks s"
  unfolding pipe_reach_def by (blast intro: play_is_run)

lemmas play_defs = new_pipe_def switch_to_def devpipe_read_step_def devpipe_write_step_def pipe_full_def PIPEBUFSIZ_def
  rd_at_def wr_at_def in_i32_def signed_modulo_int_def

text \<open>A byte goes through the pipe.\<close>

definition ex_moves :: "pmove list" where
  "ex_moves = [To Writer, Write [7, 8], W, W, W, W, To Reader, Read 1, R, R, R, R]"

lemma ex_run:
  "\<exists>s. play False ex_moves (new_pipe 1 1) = Some s \<and> r_log s = [7] \<and> w_log s = [7]"
  by (simp add: ex_moves_def play_defs)

theorem pipe_is_fifo_witness:
  "\<exists>s on_their_way. pipe_reach False False s \<and> r_log s = [7] \<and> w_log s = r_log s @ on_their_way \<and> length on_their_way \<le> 32"
proof -
  obtain s where "play False ex_moves (new_pipe 1 1) = Some s" "r_log s = [7]" using ex_run by blast
  then show ?thesis using pipe_is_fifo[OF played] played by blast
qed



text \<open>
  The end of the input can be reported while there are bytes to read: the reader looks for bytes before it looks for writers, and in
  between a writer stores its last bytes and closes.
\<close>

theorem eof_with_bytes_left: "\<exists>s. pipe_reach False False s \<and> r_pc s = Done 0 \<and> 0 < r_n s \<and> p_rpos s < p_wpos s"
proof -
  have "\<exists>s. play False [To Reader, Read 1, R, To Writer, Write [7], W, W, W, W, To Other, Close1, CloseP, To Reader, R, R, R, R]
      (new_pipe 1 1) = Some s \<and> r_pc s = Done 0 \<and> 0 < r_n s \<and> p_rpos s < p_wpos s"
    by (simp add: play_defs)
  then show ?thesis using played by blast
qed

text \<open>
  While a program forks, the end of the input can be reported to a reader although there is a writer: the child has the
  reading end mapped and not yet the buffer, and the two counts agree.
\<close>

theorem fork_fakes_eof: "\<exists>s. pipe_reach False True s \<and> r_pc s = Done 0 \<and> 0 < r_n s \<and> 0 < fd1_ref s"
proof -
  have "\<exists>s. play True [Fork0, To Reader, Read 1, R, R, R, R, R] (new_pipe 2 1) = Some s \<and> r_pc s = Done 0 \<and> 0 < r_n s \<and> 0 < fd1_ref s"
    by (simp add: play_defs)
  then show ?thesis using played by blast
qed

end
