(* ===== verification/Shell.thy ===== *)
theory Shell
  imports CString
begin

text \<open>
  The shell of JOS (\<open>os_final_project/code/user/sh.c\<close>): the line it read is cut into tokens in place, then
  into arguments and redirections. The memory is a list of bytes, as in \<open>CString\<close>; the line, the variables of the
  shell and the buffers of the functions are at addresses in it. \<open>debug\<close> is 0. What a command opens, maps and
  starts is the list of what it asks the system for (\<open>request\<close>), and the answers are an argument.
\<close>

section \<open>Tokens\<close>

definition WHITESPACE :: "u8 list" where "WHITESPACE = [32, 9, 13, 10]"
definition SYMBOLS :: "u8 list" where "SYMBOLS = [60, 124, 62, 38, 59, 40, 41]"

text \<open>\<open>strchr\<close> in a constant string, as a condition.\<close>

definition one_of :: "u8 list \<Rightarrow> u8 \<Rightarrow> bool" where
  "one_of cs c \<longleftrightarrow> (case strchr (cs @ [0]) 0 c of Inr (Some _) \<Rightarrow> True | _ \<Rightarrow> False)"

function skip_white :: "u8 list \<Rightarrow> nat \<Rightarrow> (nat \<times> u8 list) c" where
  "skip_white m s = bindE (rd m s) (\<lambda>c.
     if one_of WHITESPACE c then bindE (wr m s 0) (\<lambda>m. skip_white m (s + 1)) else Inr (s, m))"
  by pat_completeness auto
termination by (relation "measure (\<lambda>(m, s). length m - s)") (auto simp: rd_Inr_iff wr_Inr_iff)

function word_end :: "u8 list \<Rightarrow> nat \<Rightarrow> nat c" where
  "word_end m s = bindE (rd m s) (\<lambda>c.
     if c \<noteq> 0 \<and> \<not> one_of (WHITESPACE @ SYMBOLS) c then word_end m (s + 1) else Inr s)"
  by pat_completeness auto
termination by (relation "measure (\<lambda>(m, s). length m - s)") (auto simp: rd_Inr_iff)

declare skip_white.simps [simp del] word_end.simps [simp del]

text \<open>The token, \<open>*p1\<close> and \<open>*p2\<close>, which keep their values \<open>p\<close> when there is no string.\<close>

definition gettoken_raw ::
  "nat option \<Rightarrow> nat option \<times> nat option \<Rightarrow> u8 list \<Rightarrow> (u8 \<times> (nat option \<times> nat option) \<times> u8 list) c" where
  "gettoken_raw s p m = (case s of
     None \<Rightarrow> Inr (0, p, m)
   | Some s \<Rightarrow>
       bindE (skip_white m s) (\<lambda>(s, m). bindE (rd m s) (\<lambda>c.
       if c = 0 then Inr (0, (None, None), m)
       else if one_of SYMBOLS c then bindE (wr m s 0) (\<lambda>m. Inr (c, (Some s, Some (s + 1)), m))
       else bindE (word_end m s) (\<lambda>e. Inr (119, (Some s, Some e), m)))))"

text \<open>The static variables of \<open>gettoken\<close>: the token after the one last returned.\<close>

record lookahead =
  nc :: u8
  np :: "nat option \<times> nat option"

text \<open>\<open>gettoken(s, 0)\<close> and \<open>gettoken(0, &t)\<close>.\<close>

definition gettoken_start :: "nat \<Rightarrow> lookahead \<Rightarrow> u8 list \<Rightarrow> (lookahead \<times> u8 list) c" where
  "gettoken_start s st m = bindE (gettoken_raw (Some s) (np st) m) (\<lambda>(t, p, m). Inr (\<lparr>nc = t, np = p\<rparr>, m))"

definition gettoken :: "lookahead \<Rightarrow> u8 list \<Rightarrow> (u8 \<times> nat option \<times> lookahead \<times> u8 list) c" where
  "gettoken st m =
     bindE (gettoken_raw (snd (np st)) (np st) m) (\<lambda>(t, p, m'). Inr (nc st, fst (np st), \<lparr>nc = t, np = p\<rparr>, m'))"

section \<open>Variables\<close>

definition BUFSIZ :: nat where "BUFSIZ = 1024"
definition MAX_KEY_SIZE :: nat where "MAX_KEY_SIZE = 20"
definition MAX_VAL_SIZE :: nat where "MAX_VAL_SIZE = 50"
definition MAX_ENV_VARS :: nat where "MAX_ENV_VARS = 100"
definition MAXARGS :: nat where "MAXARGS = 16"

text \<open>Entry \<open>i\<close> of the table at \<open>tab\<close>: the key, and the value after it.\<close>

definition key_at :: "nat \<Rightarrow> nat \<Rightarrow> nat" where "key_at tab i = tab + i * (MAX_KEY_SIZE + MAX_VAL_SIZE)"
definition val_at :: "nat \<Rightarrow> nat \<Rightarrow> nat" where "val_at tab i = key_at tab i + MAX_KEY_SIZE"

text \<open>The first of the entries from \<open>i\<close> on, with \<open>k\<close> left, whose key is \<open>name\<close>.\<close>

fun find_var :: "nat \<Rightarrow> nat \<Rightarrow> nat \<Rightarrow> nat \<Rightarrow> u8 list \<Rightarrow> nat option c" where
  "find_var 0 i tab name m = Inr None"
| "find_var (Suc k) i tab name m =
     bindE (strcmp m name (key_at tab i)) (\<lambda>r. if r = 0 then Inr (Some i) else find_var k (i + 1) tab name m)"

text \<open>\<open>strcpy\<close> to an array of \<open>n\<close> bytes.\<close>

definition strcpy_in :: "nat \<Rightarrow> nat \<Rightarrow> nat \<Rightarrow> u8 list \<Rightarrow> u8 list c" where
  "strcpy_in n d s m =
     bindE (strlen m s) (\<lambda>len. bindE (guardE OutOfBounds (len + 1 \<le> int n)) (\<lambda>_. bindE (strcpy d s m) (\<lambda>(_, m). Inr m)))"

text \<open>The number of entries, and the memory.\<close>

definition add_env_var :: "nat \<Rightarrow> nat \<Rightarrow> nat \<Rightarrow> nat \<Rightarrow> u8 list \<Rightarrow> (nat \<times> u8 list) c" where
  "add_env_var tab name v n_env_vars m =
     (if n_env_vars \<ge> MAX_ENV_VARS then Inl Panic
      else bindE (find_var n_env_vars 0 tab name m) (\<lambda>r. case r of
             Some i \<Rightarrow> bindE (strcpy_in MAX_VAL_SIZE (val_at tab i) v m) (\<lambda>m. Inr (n_env_vars, m))
           | None \<Rightarrow>
               bindE (strcpy_in MAX_VAL_SIZE (val_at tab n_env_vars) v m) (\<lambda>m.
               bindE (strcpy_in MAX_KEY_SIZE (key_at tab n_env_vars) name m) (\<lambda>m. Inr (n_env_vars + 1, m)))))"

definition expand_arg :: "nat \<Rightarrow> nat \<Rightarrow> nat \<Rightarrow> u8 list \<Rightarrow> nat c" where
  "expand_arg tab n_env_vars arg m =
     bindE (find_var n_env_vars 0 tab (arg + 1) m) (\<lambda>r. Inr (case r of Some i \<Rightarrow> val_at tab i | None \<Rightarrow> arg))"

text \<open>
  Whether the line is a \<open>set\<close> command, with the table it gives. \<open>cmd\<close> is the address of a buffer of 500 bytes and \<open>set_str\<close> that of
  the constant string.
\<close>

fun three_words :: "nat \<Rightarrow> lookahead \<Rightarrow> u8 list \<Rightarrow> (nat list option \<times> lookahead \<times> u8 list) c" where
  "three_words 0 st m = Inr (Some [], st, m)"
| "three_words (Suc k) st m = bindE (gettoken st m) (\<lambda>(c, t, st, m).
     if c \<noteq> 119 then Inr (None, st, m)
     else bindE (deref t) (\<lambda>t. bindE (three_words k st m) (\<lambda>(ts, st, m). Inr (map_option ((#) t) ts, st, m))))"

definition env_var_intercept ::
  "nat \<Rightarrow> nat \<Rightarrow> nat \<Rightarrow> nat \<Rightarrow> nat \<Rightarrow> lookahead \<Rightarrow> u8 list \<Rightarrow> (bool \<times> nat \<times> lookahead \<times> u8 list) c" where
  "env_var_intercept cmd set_str tab n_env_vars buf st m =
     bindE (memset cmd 0 500 m) (\<lambda>(_, m).
     bindE (strcpy_in 500 cmd buf m) (\<lambda>m.
     bindE (gettoken_start cmd st m) (\<lambda>(st, m).
     bindE (three_words 3 st m) (\<lambda>(ts, st, m). case ts of
       None \<Rightarrow> Inr (False, n_env_vars, st, m)
     | Some ts \<Rightarrow>
         bindE (strcmp m (ts ! 0) set_str) (\<lambda>r.
         if r = 0 then bindE (add_env_var tab (ts ! 1) (ts ! 2) n_env_vars m) (\<lambda>(n, m). Inr (True, n, st, m))
         else Inr (False, n_env_vars, st, m))))))"

section \<open>A command\<close>

text \<open>
  What the command asks for, with the addresses of names, and how the reading of the line ends: with the arguments to run, at a pipe
  with the arguments before it, with \<open>exit\<close>, or with nothing to do.
\<close>

datatype request = Open_read nat | Open_write nat | Dup_close int int

datatype outcome = Spawn "nat option list" | Pipe_to "nat option list" | Exits | Empty_command

text \<open>
  The end of the line, from \<open>runit\<close>: the name of the program starts with \<open>/\<close>, in the buffer \<open>argv0\<close> of \<open>BUFSIZ\<close> bytes if need be.
\<close>

definition run_it :: "nat \<Rightarrow> (nat option list \<Rightarrow> outcome) \<Rightarrow> nat option list \<Rightarrow> nat \<Rightarrow> u8 list \<Rightarrow> (outcome \<times> u8 list) c" where
  "run_it argv0 how argv argc m =
     (if argc = 0 then Inr (Empty_command, m)
      else bindE (rd argv 0) (\<lambda>a. bindE (deref a) (\<lambda>a. bindE (rd m a) (\<lambda>c.
           bindE (if c \<noteq> 47
                  then bindE (wr m argv0 47) (\<lambda>m.
                       bindE (strcpy_in (BUFSIZ - 1) (argv0 + 1) a m) (\<lambda>m.
                       bindE (wr argv 0 (Some argv0)) (\<lambda>argv. Inr (argv, m))))
                  else Inr (argv, m)) (\<lambda>(argv, m).
           bindE (wr argv argc None) (\<lambda>argv. Inr (how argv, m)))))))"

text \<open>
  The loop of \<open>runcmd\<close>; \<open>fds\<close> are the answers of \<open>open\<close>. Every round takes a token off the line, whose length bounds the rounds.
\<close>

fun runcmd_loop ::
  "nat \<Rightarrow> nat \<Rightarrow> nat \<Rightarrow> nat \<Rightarrow> int list \<Rightarrow> nat option list \<Rightarrow> nat \<Rightarrow> lookahead \<Rightarrow> u8 list
     \<Rightarrow> (request list \<times> outcome \<times> lookahead \<times> u8 list) c" where
  "runcmd_loop 0 argv0 tab n_env_vars fds argv argc st m = Inl Diverges"
| "runcmd_loop (Suc k) argv0 tab n_env_vars fds argv argc st m =
     bindE (gettoken st m) (\<lambda>(c, t, st, m).
     if c = 119
     then bindE (deref t) (\<lambda>t. bindE (rd m t) (\<lambda>t0.
          bindE (if t0 = 36 then expand_arg tab n_env_vars t m else Inr t) (\<lambda>t.
          if argc = MAXARGS then Inr ([], Exits, st, m)
          else bindE (wr argv argc (Some t)) (\<lambda>argv. runcmd_loop k argv0 tab n_env_vars fds argv (argc + 1) st m))))
     else if c = 60 \<or> c = 62
     then bindE (gettoken st m) (\<lambda>(c', t, st, m).
          if c' \<noteq> 119 then Inr ([], Exits, st, m)
          else bindE (deref t) (\<lambda>t.
               let asked = (if c = 60 then Open_read t else Open_write t); std = (if c = 60 then 0 else 1)
               in case fds of
                    [] \<Rightarrow> Inl Blocked
                  | fd # fds \<Rightarrow>
                      if fd < 0 then Inr ([asked], Exits, st, m)
                      else bindE (runcmd_loop k argv0 tab n_env_vars fds argv argc st m) (\<lambda>(rs, r).
                           Inr (asked # (if fd \<noteq> std then [Dup_close fd std] else []) @ rs, r))))
     else if c = 124 then bindE (run_it argv0 Pipe_to argv argc m) (\<lambda>(r, m). Inr ([], r, st, m))
     else if c = 0 then bindE (run_it argv0 Spawn argv argc m) (\<lambda>(r, m). Inr ([], r, st, m))
     else Inl Panic)"

declare runcmd_loop.simps [simp del]

text \<open>From \<open>runcmd(s)\<close> to what is run; the other side of a pipe goes on from \<open>st\<close> with an empty \<open>argv\<close>.\<close>

definition runcmd :: "nat \<Rightarrow> nat \<Rightarrow> nat \<Rightarrow> int list \<Rightarrow> nat \<Rightarrow> lookahead \<Rightarrow> u8 list \<Rightarrow> (request list \<times> outcome \<times> lookahead \<times> u8 list) c" where
  "runcmd argv0 tab n_env_vars fds s st m =
     bindE (gettoken_start s st m) (\<lambda>(st, m).
     runcmd_loop (length m + 1) argv0 tab n_env_vars fds (replicate MAXARGS None) 0 st m)"

end
