(* ===== verification/ShellProps.thy ===== *)
theory ShellProps
  imports Shell
begin

text \<open>
  The tokens of a command line against a reference that does not write into it, and the buffers of the shell that a line
  can overrun.
\<close>

section \<open>The reference\<close>

definition white :: "u8 \<Rightarrow> bool" where "white c \<longleftrightarrow> c \<in> set WHITESPACE"
definition symbol :: "u8 \<Rightarrow> bool" where "symbol c \<longleftrightarrow> c \<in> set SYMBOLS"
definition plain :: "u8 \<Rightarrow> bool" where "plain c \<longleftrightarrow> \<not> white c \<and> \<not> symbol c"

text \<open>The tokens of a line that starts at \<open>p\<close>: kind, place and, for a word, its text.\<close>

function lex :: "nat \<Rightarrow> u8 list \<Rightarrow> (u8 \<times> nat \<times> u8 list) list" where
  "lex p [] = []"
| "lex p (c # cs) =
     (if white c then lex (p + 1) cs
      else if symbol c then (c, p, []) # lex (p + 1) cs
      else (119, p, takeWhile plain (c # cs)) # lex (p + length (takeWhile plain (c # cs))) (dropWhile plain (c # cs)))"
  by pat_completeness auto
termination
  by (relation "measure (\<lambda>(p, cs). length cs)") (auto simp: plain_def intro: le_imp_less_Suc length_dropWhile_le)

text \<open>All tokens, as \<open>runcmd\<close> asks for them, and the memory then.\<close>

fun tokens :: "nat \<Rightarrow> lookahead \<Rightarrow> u8 list \<Rightarrow> ((u8 \<times> nat option) list \<times> u8 list) c" where
  "tokens 0 st m = Inl Diverges"
| "tokens (Suc k) st m = bindE (gettoken st m) (\<lambda>(c, t, st, m).
     if c = 0 then Inr ([], m) else bindE (tokens k st m) (\<lambda>(ts, m). Inr ((c, t) # ts, m)))"

text \<open>What is left of the line.\<close>

definition blank :: "u8 \<Rightarrow> u8" where "blank c = (if plain c then c else 0)"

section \<open>Equivalence\<close>

lemma strchr_list:
  "0 \<notin> set cs \<Longrightarrow> strchr (pre @ cs @ [0]) (length pre) c = Inr (if c \<in> set cs then Some (length pre + length (takeWhile (\<lambda>x. x \<noteq> c) cs)) else None)"
proof (induction cs arbitrary: pre)
  case Nil
  then show ?case by (subst strchr.simps) simp
next
  case (Cons x cs)
  then show ?case using Cons.IH[of "pre @ [x]"] by (subst strchr.simps) simp
qed

lemma one_of_iff: "0 \<notin> set cs \<Longrightarrow> one_of cs c \<longleftrightarrow> c \<in> set cs"
  using strchr_list[of cs "[]" c] by (simp add: one_of_def)

lemma classes:
  "one_of WHITESPACE c \<longleftrightarrow> white c" "one_of SYMBOLS c \<longleftrightarrow> symbol c" "one_of (WHITESPACE @ SYMBOLS) c \<longleftrightarrow> \<not> plain c"
  by (subst one_of_iff; simp add: WHITESPACE_def SYMBOLS_def white_def symbol_def plain_def)+

lemma class_values: "\<not> white 0" "\<not> symbol 0" "symbol c \<Longrightarrow> c \<noteq> 119"
  by (auto simp: WHITESPACE_def SYMBOLS_def white_def symbol_def)

lemma skip_white_line:
  "list_all white ws \<Longrightarrow> \<not> white c \<Longrightarrow>
   skip_white (pre @ ws @ c # rest) (length pre) = Inr (length pre + length ws, pre @ map blank ws @ c # rest)"
proof (induction ws arbitrary: pre)
  case Nil
  then show ?case by (subst skip_white.simps) (simp add: classes)
next
  case (Cons w ws)
  then show ?case
    using Cons.IH[of "pre @ [0]"] by (subst skip_white.simps) (simp add: classes blank_def plain_def list_update_append)
qed

lemma word_end_line:
  "list_all plain w \<Longrightarrow> 0 \<notin> set w \<Longrightarrow> c = 0 \<or> \<not> plain c \<Longrightarrow>
   word_end (pre @ w @ c # rest) (length pre) = Inr (length pre + length w)"
proof (induction w arbitrary: pre)
  case Nil
  then show ?case by (subst word_end.simps) (auto simp: classes)
next
  case (Cons x w)
  then show ?case using Cons.IH[of "pre @ [x]"] by (subst word_end.simps) (simp add: classes)
qed

lemma lex_white: "list_all white ws \<Longrightarrow> lex p (ws @ cs) = lex (p + length ws) cs"
  by (induction ws arbitrary: p) auto

lemma map_blank_plain: "list_all plain w \<Longrightarrow> map blank w = w"
  by (induction w) (auto simp: blank_def)

text \<open>One token of the code is one token of the reference.\<close>

lemma gettoken_raw_line:
  assumes "0 \<notin> set line"
  shows "(gettoken_raw (Some (length pre)) pp (pre @ line @ 0 # rest) = Inr (0, (None, None), pre @ map blank line @ 0 # rest)
      \<and> lex (length pre) line = [])
    \<or> (\<exists>a tail t q w. line = a @ tail \<and> a \<noteq> [] \<and> t \<noteq> 0 \<and> q < length pre + length a \<and> lex (length pre) line = (t, q, w) # lex (length pre + length a) tail
      \<and> gettoken_raw (Some (length pre)) pp (pre @ line @ 0 # rest) =
         Inr (t, (Some q, Some (length pre + length a)), pre @ map blank a @ tail @ 0 # rest))"
proof -
  define ws where "ws = takeWhile white line"
  define l where "l = dropWhile white line"
  have line: "line = ws @ l" by (simp add: ws_def l_def)
  have ws: "list_all white ws" by (auto simp: ws_def list_all_iff dest: set_takeWhileD)
  have lex: "lex (length pre) line = lex (length pre + length ws) l" by (simp add: line lex_white ws)
  let ?q = "length pre + length ws"
  show ?thesis
  proof (cases l)
    case Nil
    have "skip_white (pre @ ws @ 0 # rest) (length pre) = Inr (?q, pre @ map blank ws @ 0 # rest)"
      by (rule skip_white_line[OF ws]) (simp add: class_values)
    with Nil lex line show ?thesis by (simp add: gettoken_raw_def nth_append)
  next
    case (Cons c cs)
    have c: "\<not> white c" using Cons hd_dropWhile[of white line] by (simp add: l_def)
    have c0: "c \<noteq> 0" using assms Cons line by auto
    have skip: "skip_white (pre @ line @ 0 # rest) (length pre) = Inr (?q, pre @ map blank ws @ c # cs @ 0 # rest)"
      using skip_white_line[OF ws c, of pre "cs @ 0 # rest"] by (simp add: line Cons)
    have first: "rd (pre @ map blank ws @ c # cs @ 0 # rest) ?q = Inr c"
      by (simp add: rd_def nth_append)
    show ?thesis
    proof (cases "symbol c")
      case True
      have "wr (pre @ map blank ws @ c # cs @ 0 # rest) ?q 0 = Inr (pre @ map blank (ws @ [c]) @ cs @ 0 # rest)"
        using True by (simp add: wr_def list_update_append blank_def plain_def)
      with skip first c c0 True Cons line lex show ?thesis
        by (intro disjI2 exI[of _ "ws @ [c]"] exI[of _ cs]) (simp add: gettoken_raw_def classes)
    next
      case False
      define w where "w = takeWhile plain l"
      define tail where "tail = dropWhile plain l"
      have l: "l = w @ tail" by (simp add: w_def tail_def)
      have w: "list_all plain w" by (auto simp: w_def list_all_iff dest: set_takeWhileD)
      have "w \<noteq> []" using Cons c False by (simp add: w_def plain_def)
      have w0: "0 \<notin> set w" using assms line l by auto
      obtain d ds where d: "tail @ 0 # rest = d # ds" "d = 0 \<or> \<not> plain d"
      proof (cases tail)
        case (Cons x xs)
        then have "\<not> plain x" using hd_dropWhile[of plain l] by (simp add: tail_def)
        then show ?thesis using that Cons by simp
      qed (use that in simp)
      have "word_end ((pre @ map blank ws) @ w @ d # ds) (length (pre @ map blank ws)) = Inr (?q + length w)"
        using word_end_line[OF w w0 d(2), of "pre @ map blank ws" ds] by simp
      then have "word_end (pre @ map blank ws @ c # cs @ 0 # rest) ?q = Inr (?q + length w)"
        using d(1) l Cons by (metis append_Cons append_assoc length_append length_map)
      moreover have "lex ?q l = (119, ?q, w) # lex (?q + length w) tail"
        using c False by (simp add: Cons w_def tail_def)
      moreover have "c # cs = w @ tail" using l Cons by simp
      ultimately show ?thesis
        using skip first c c0 False line lex l \<open>w \<noteq> []\<close> map_blank_plain[OF w]
        by (intro disjI2 exI[of _ "ws @ w"] exI[of _ tail]) (simp add: gettoken_raw_def classes add.assoc)
    qed
  qed
qed

lemma tokens_line:
  assumes "0 \<notin> set line" "length line + 2 \<le> k" "c \<noteq> 0"
  shows "tokens k \<lparr>nc = c, np = (p1, Some (length pre))\<rparr> (pre @ line @ 0 # rest) =
    Inr ((c, p1) # map (\<lambda>(t, p, w). (t, Some p)) (lex (length pre) line), pre @ map blank line @ 0 # rest)"
  using assms
proof (induction "length line" arbitrary: line k c p1 pre rule: less_induct)
  case less
  obtain k' where k: "k = Suc (Suc k')" "length line \<le> k'" using less.prems(2) by (metis Suc_le_D Suc_le_mono add_2_eq_Suc')
  from gettoken_raw_line[OF less.prems(1), of pre "(p1, Some (length pre))" rest] show ?case
  proof (elim disjE exE conjE)
    assume "gettoken_raw (Some (length pre)) (p1, Some (length pre)) (pre @ line @ 0 # rest) =
        Inr (0, (None, None), pre @ map blank line @ 0 # rest)" "lex (length pre) line = []"
    then show ?thesis using less.prems(3) k by (simp add: gettoken_def gettoken_raw_def)
  next
    fix a tail t q w
    assume split: "line = a @ tail" "a \<noteq> []" and t: "t \<noteq> 0"
      and lex: "lex (length pre) line = (t, q, w) # lex (length pre + length a) tail"
      and raw: "gettoken_raw (Some (length pre)) (p1, Some (length pre)) (pre @ line @ 0 # rest) =
        Inr (t, (Some q, Some (length pre + length a)), pre @ map blank a @ tail @ 0 # rest)"
    have shorter: "length tail < length line" "0 \<notin> set tail" using split less.prems(1) by auto
    have "length tail + 2 \<le> Suc k'" using shorter k by simp
    from less.hyps[OF shorter this t, of "Some q" "pre @ map blank a"]
    have "tokens (Suc k') \<lparr>nc = t, np = (Some q, Some (length pre + length a))\<rparr> (pre @ map blank a @ tail @ 0 # rest) =
      Inr ((t, Some q) # map (\<lambda>(t, p, w). (t, Some p)) (lex (length pre + length a) tail), pre @ map blank line @ 0 # rest)"
      using split by simp
    then show ?thesis using raw lex less.prems(3) k by (simp add: gettoken_def)
  qed
qed

lemma lex_words:
  "(119, p, w) \<in> set (lex q line) \<Longrightarrow>
   \<exists>u v. line = u @ w @ v \<and> p = q + length u \<and> list_all plain w \<and> w \<noteq> [] \<and> (v = [] \<or> \<not> plain (hd v))"
proof (induction q line rule: lex.induct)
  case (2 q c cs)
  consider (blank) "white c" | (sym) "\<not> white c" "symbol c" | (word) "\<not> white c" "\<not> symbol c" by blast
  then show ?case
  proof cases
    case blank
    then obtain u v where "cs = u @ w @ v" "p = q + 1 + length u" "list_all plain w" "w \<noteq> []" "v = [] \<or> \<not> plain (hd v)"
      using 2 by auto
    then show ?thesis by (intro exI[of _ "c # u"] exI[of _ v]) simp
  next
    case sym
    then obtain u v where "cs = u @ w @ v" "p = q + 1 + length u" "list_all plain w" "w \<noteq> []" "v = [] \<or> \<not> plain (hd v)"
      using 2 class_values(3) by auto
    then show ?thesis by (intro exI[of _ "c # u"] exI[of _ v]) simp
  next
    case word
    let ?w = "takeWhile plain (c # cs)" and ?t = "dropWhile plain (c # cs)"
    have line: "c # cs = ?w @ ?t" by (rule takeWhile_dropWhile_id[symmetric])
    have "(119, p, w) = (119, q, ?w) \<or> (119, p, w) \<in> set (lex (q + length ?w) ?t)" using 2(4) word by simp
    then show ?thesis
    proof
      assume "(119, p, w) = (119, q, ?w)"
      moreover have "list_all plain ?w" by (auto simp: list_all_iff dest: set_takeWhileD split: if_splits)
      moreover have "?w \<noteq> []" using word by (simp add: plain_def)
      moreover have "?t = [] \<or> \<not> plain (hd ?t)" by (metis hd_dropWhile)
      ultimately show ?thesis using line by (intro exI[of _ "[]"] exI[of _ ?t]) auto
    next
      assume "(119, p, w) \<in> set (lex (q + length ?w) ?t)"
      from 2(3)[OF word this] obtain u v where u: "?t = u @ w @ v" "p = q + length ?w + length u" "list_all plain w" "w \<noteq> []"
        "v = [] \<or> \<not> plain (hd v)" by blast
      have "c # cs = (?w @ u) @ w @ v" using line u(1) by (metis append_assoc)
      with u show ?thesis by (intro exI[of _ "?w @ u"] exI[of _ v]) (simp only: length_append add.assoc simp_thms)
    qed
  qed
qed simp

lemma words_in_place:
  assumes "(119, p, w) \<in> set (lex (length pre) line)"
  shows "take (length w + 1) (drop p (pre @ map blank line @ 0 # rest)) = w @ [0]"
proof -
  obtain u v where u: "line = u @ w @ v" "p = length pre + length u" "list_all plain w" "v = [] \<or> \<not> plain (hd v)"
    using lex_words[OF assms] by blast
  then show ?thesis by (cases v) (simp_all add: map_blank_plain, simp add: blank_def)
qed

text \<open>
  C32. The tokens of a line are those of the reference: the first call and then one call after another give the same kinds at the same
  places until the end, and then every word, in place, is the string of its characters with a NUL after it. The rest of
  the memory is as it was.
\<close>

theorem tokens_correct:
  assumes "0 \<notin> set line"
  shows "\<exists>st m line'. gettoken_start (length pre) st0 (pre @ line @ 0 # rest) = Inr (st, m) \<and>
    tokens (length line + 2) st m = Inr (map (\<lambda>(t, p, w). (t, Some p)) (lex (length pre) line), pre @ line' @ 0 # rest) \<and>
    length line' = length line \<and>
    (\<forall>p w. (119, p, w) \<in> set (lex (length pre) line) \<longrightarrow> take (length w + 1) (drop p (pre @ line' @ 0 # rest)) = w @ [0])"
proof -
  note words = words_in_place[of _ _ pre line rest]
  from gettoken_raw_line[OF assms, of pre "np st0" rest]
  have "\<exists>st m. gettoken_start (length pre) st0 (pre @ line @ 0 # rest) = Inr (st, m) \<and>
    tokens (length line + 2) st m = Inr (map (\<lambda>(t, p, w). (t, Some p)) (lex (length pre) line), pre @ map blank line @ 0 # rest)"
  proof (elim disjE exE conjE)
    assume "gettoken_raw (Some (length pre)) (np st0) (pre @ line @ 0 # rest) =
        Inr (0, (None, None), pre @ map blank line @ 0 # rest)" "lex (length pre) line = []"
    then show ?thesis by (simp add: gettoken_start_def gettoken_def gettoken_raw_def)
  next
    fix a tail t q w
    assume split: "line = a @ tail" "a \<noteq> []" and t: "t \<noteq> 0"
      and lex: "lex (length pre) line = (t, q, w) # lex (length pre + length a) tail"
      and raw: "gettoken_raw (Some (length pre)) (np st0) (pre @ line @ 0 # rest) =
        Inr (t, (Some q, Some (length pre + length a)), pre @ map blank a @ tail @ 0 # rest)"
    have "0 \<notin> set tail" "length tail + 2 \<le> length line + 2" using split assms by auto
    from tokens_line[OF this t, of "Some q" "pre @ map blank a"] raw lex split show ?thesis
      by (simp add: gettoken_start_def)
  qed
  with words show ?thesis by (metis length_map)
qed

text \<open>The line \<open>ls|wc\<close>.\<close>

definition ex_line :: "u8 list" where "ex_line = [108, 115, 124, 119, 99]"

theorem tokens_correct_witness:
  "\<exists>st m line'. gettoken_start 1 \<lparr>nc = 0, np = (None, None)\<rparr> ([7] @ ex_line @ 0 # [7]) = Inr (st, m) \<and>
    tokens (length ex_line + 2) st m = Inr (map (\<lambda>(t, p, w). (t, Some p)) (lex 1 ex_line), [7] @ line' @ 0 # [7]) \<and>
    length line' = length ex_line \<and>
    (\<forall>p w. (119, p, w) \<in> set (lex 1 ex_line) \<longrightarrow> take (length w + 1) (drop p ([7] @ line' @ 0 # [7])) = w @ [0])"
proof -
  have "0 \<notin> set ex_line" by (simp add: ex_line_def)
  from tokens_correct[OF this, of "[7]" "\<lparr>nc = 0, np = (None, None)\<rparr>" "[7]"] show ?thesis by simp
qed

section \<open>Commands\<close>

text \<open>The places of the tokens, and the places of words that \<open>runcmd\<close> does not expand.\<close>

definition places :: "(u8 \<times> nat \<times> u8 list) list \<Rightarrow> nat list" where "places ts = map (\<lambda>(t, p, w). p) ts"

definition plain_words :: "(u8 \<times> nat \<times> u8 list) list \<Rightarrow> bool" where
  "plain_words ts \<longleftrightarrow> (\<forall>(t, p, w) \<in> set ts. t = 119 \<and> hd w \<noteq> 36)"

text \<open>\<open>argv\<close> with the arguments so far.\<close>

definition argv_of :: "nat list \<Rightarrow> nat option list" where
  "argv_of ps = map Some ps @ replicate (MAXARGS - length ps) None"

lemma argv_of_add: "length ps < MAXARGS \<Longrightarrow> wr (argv_of ps) (length ps) (Some p) = Inr (argv_of (ps @ [p]))"
proof -
  assume "length ps < MAXARGS"
  then have "replicate (MAXARGS - length ps) None = (None :: nat option) # replicate (MAXARGS - Suc (length ps)) None"
    by (metis Suc_diff_Suc replicate_Suc)
  then show ?thesis by (simp add: argv_of_def wr_def list_update_append)
qed

lemma gettoken_word_first:
  assumes "lex (length pre) line = (119, q, w) # ts" "line = a @ tail" "q < length pre + length a"
  shows "(pre @ map blank a @ xs) ! q = hd w" "q < length (pre @ map blank a)"
proof -
  obtain u v where u: "line = u @ w @ v" "q = length pre + length u" "list_all plain w" "w \<noteq> []"
    using lex_words[of q w "length pre" line] assms(1) by auto
  have "length u < length a" using assms(3) u(2) by simp
  moreover have "(u @ w @ v) ! length u = hd w" using u(4) by (simp add: nth_append hd_conv_nth)
  ultimately have "a ! length u = hd w" using assms(2) u(1) by (metis nth_append)
  then show "(pre @ map blank a @ xs) ! q = hd w"
    using u \<open>length u < length a\<close> by (cases w) (simp_all add: nth_append blank_def)
  show "q < length (pre @ map blank a)" using assms(3) by simp
qed

lemma runcmd_loop_words:
  assumes "0 \<notin> set line" "length line + 2 \<le> k" "plain_words (lex (length pre) line)"
    "p < length pre" "pre ! p \<noteq> 36" "length as \<le> MAXARGS"
  defines "ps \<equiv> as @ p # places (lex (length pre) line)"
  shows "if MAXARGS < length ps
     then \<exists>st m. runcmd_loop k argv0 tab n fds (argv_of as) (length as) \<lparr>nc = 119, np = (Some p, Some (length pre))\<rparr>
            (pre @ line @ 0 # rest) = Inr ([], Exits, st, m)
     else runcmd_loop k argv0 tab n fds (argv_of as) (length as) \<lparr>nc = 119, np = (Some p, Some (length pre))\<rparr> (pre @ line @ 0 # rest)
            = bindE (run_it argv0 Spawn (argv_of ps) (length ps) (pre @ map blank line @ 0 # rest))
                (\<lambda>(r, m). Inr ([], r, \<lparr>nc = 0, np = (None, None)\<rparr>, m))"
  using assms(1-6) unfolding ps_def
proof (induction "length line" arbitrary: line k p pre as rule: less_induct)
  case less
  obtain k' where k: "k = Suc (Suc k')" "length line \<le> k'" using less.prems(2) by (metis Suc_le_D Suc_le_mono add_2_eq_Suc')
  have first: "rd (pre @ xs) p = Inr (pre ! p)" for xs using less.prems(4) by (simp add: rd_def nth_append)
  from gettoken_raw_line[OF less.prems(1), of pre "(Some p, Some (length pre))" rest] show ?case
  proof (elim disjE exE conjE)
    assume raw: "gettoken_raw (Some (length pre)) (Some p, Some (length pre)) (pre @ line @ 0 # rest) =
        Inr (0, (None, None), pre @ map blank line @ 0 # rest)" "lex (length pre) line = []"
    show ?thesis
    proof (cases "length as = MAXARGS")
      case True
      with raw less.prems(5) show ?thesis by (simp add: k runcmd_loop.simps gettoken_def places_def first)
    next
      case False
      with less.prems(6) have "length as < MAXARGS" by simp
      with raw less.prems(5) show ?thesis
        by (simp add: k runcmd_loop.simps gettoken_def gettoken_raw_def places_def first argv_of_add)
    qed
  next
    fix a tail t q w
    assume split: "line = a @ tail" "a \<noteq> []" and t: "t \<noteq> 0" and q: "q < length pre + length a"
      and lex: "lex (length pre) line = (t, q, w) # lex (length pre + length a) tail"
      and raw: "gettoken_raw (Some (length pre)) (Some p, Some (length pre)) (pre @ line @ 0 # rest) =
        Inr (t, (Some q, Some (length pre + length a)), pre @ map blank a @ tail @ 0 # rest)"
    have shorter: "length tail < length line" "0 \<notin> set tail" using split less.prems(1) by auto
    have t: "t = 119" "hd w \<noteq> 36" "plain_words (lex (length (pre @ map blank a)) tail)"
      using less.prems(3) by (auto simp: lex plain_words_def)
    show ?thesis
    proof (cases "length as = MAXARGS")
      case True
      with raw less.prems(5) show ?thesis by (simp add: k runcmd_loop.simps gettoken_def first)
    next
      case False
      with less.prems(6) have room: "length as < MAXARGS" by simp
      have "length tail + 2 \<le> Suc k'" using shorter k by simp
      moreover have "q < length (pre @ map blank a)" "(pre @ map blank a) ! q \<noteq> 36"
        using gettoken_word_first(1)[of pre line q w _ a tail "[]"] gettoken_word_first(2)[of pre line q w _ a tail] lex split(1) q t by auto
      moreover have "length (as @ [p]) \<le> MAXARGS" using room by simp
      ultimately have IH: "if MAXARGS < length ((as @ [p]) @ q # places (lex (length (pre @ map blank a)) tail))
        then \<exists>st m. runcmd_loop (Suc k') argv0 tab n fds (argv_of (as @ [p])) (length (as @ [p]))
           \<lparr>nc = 119, np = (Some q, Some (length (pre @ map blank a)))\<rparr> ((pre @ map blank a) @ tail @ 0 # rest) = Inr ([], Exits, st, m)
        else runcmd_loop (Suc k') argv0 tab n fds (argv_of (as @ [p])) (length (as @ [p]))
           \<lparr>nc = 119, np = (Some q, Some (length (pre @ map blank a)))\<rparr> ((pre @ map blank a) @ tail @ 0 # rest)
         = bindE (run_it argv0 Spawn (argv_of ((as @ [p]) @ q # places (lex (length (pre @ map blank a)) tail)))
             (length ((as @ [p]) @ q # places (lex (length (pre @ map blank a)) tail))) ((pre @ map blank a) @ map blank tail @ 0 # rest))
             (\<lambda>(r, m). Inr ([], r, \<lparr>nc = 0, np = (None, None)\<rparr>, m))"
        by (rule less.hyps[OF shorter(1,2) _ t(3)])
      have ps: "(as @ [p]) @ q # places (lex (length (pre @ map blank a)) tail) = as @ p # places (lex (length pre) line)"
        by (simp add: lex places_def)
      have mem: "(pre @ map blank a) @ map blank tail @ 0 # rest = pre @ map blank line @ 0 # rest" by (simp add: split(1))
      have step: "runcmd_loop k argv0 tab n fds (argv_of as) (length as) \<lparr>nc = 119, np = (Some p, Some (length pre))\<rparr> (pre @ line @ 0 # rest)
        = runcmd_loop (Suc k') argv0 tab n fds (argv_of (as @ [p])) (length (as @ [p]))
           \<lparr>nc = 119, np = (Some q, Some (length (pre @ map blank a)))\<rparr> ((pre @ map blank a) @ tail @ 0 # rest)"
        unfolding k(1)
        by (subst runcmd_loop.simps(2)) (use raw t room less.prems(5) in \<open>simp add: gettoken_def first argv_of_add\<close>)
      show ?thesis unfolding step using IH unfolding ps mem .
    qed
  qed
qed

lemma run_it_words:
  assumes "p < length m" "m ! p = 47" "length (p # ps) \<le> MAXARGS"
  shows "run_it argv0 how (argv_of (p # ps)) (length (p # ps)) m =
    (if length (p # ps) = MAXARGS then Inl OutOfBounds else Inr (how (argv_of (p # ps)), m))"
proof -
  have "rd (argv_of (p # ps)) 0 = Inr (Some p)" by (simp add: argv_of_def rd_def)
  moreover have "wr (argv_of (p # ps)) (length (p # ps)) None =
      (if length (p # ps) = MAXARGS then Inl OutOfBounds else Inr (argv_of (p # ps)))"
    using assms(3) by (auto simp: argv_of_def wr_def list_update_append list_update_same_conv)
  ultimately show ?thesis using assms(1,2) by (simp add: run_it_def rd_def)
qed


text \<open>The line \<open>/ls  x\<close>.\<close>

definition ex_command :: "u8 list" where "ex_command = [47, 108, 115, 32, 32, 120]"


end
