(* ===== verification/Console.thy ===== *)
theory Console
  imports CPrint
begin

text \<open>
  The console of JOS: the text screen and the keyboard (\<open>kern/console.c\<close>), the lines that are read from it
  (\<open>lib/readline.c\<close>), and the buffers of formatted output (\<open>lib/printf.c\<close>, \<open>lib/fprintf.c\<close>, \<open>kern/printf.c\<close>). What goes to a
  port of a device is a list of outputs, what comes from one an argument.
\<close>

section \<open>The screen\<close>

definition CRT_ROWS :: nat where "CRT_ROWS = 25"
definition CRT_COLS :: nat where "CRT_COLS = 80"
definition CRT_SIZE :: nat where "CRT_SIZE = CRT_ROWS * CRT_COLS"

definition global_color :: u32 where "global_color = 0x0700"

record cga =
  crt_buf :: "u16 list"
  crt_pos :: u16
  serial_out :: "u8 list"
  cursor_out :: "u8 list"

text \<open>\<open>memmove\<close> of the lines below the first, and a blank last line.\<close>

definition scroll :: "cga \<Rightarrow> cga c" where
  "scroll s = bindE (guardE OutOfBounds (CRT_SIZE \<le> length (crt_buf s))) (\<lambda>_.
     Inr (s\<lparr>crt_buf := take (CRT_SIZE - CRT_COLS) (drop CRT_COLS (crt_buf s)) @ replicate CRT_COLS (0x0700 OR 32)
              @ drop CRT_SIZE (crt_buf s),
            crt_pos := crt_pos s - of_nat CRT_COLS\<rparr>))"

text \<open>The end of \<open>cga_putc\<close>: the screen scrolls when the cursor is past it, and the cursor moves on the display.\<close>

definition cga_end :: "cga \<Rightarrow> cga c" where
  "cga_end s = bindE (if unat (crt_pos s) \<ge> CRT_SIZE then scroll s else Inr s) (\<lambda>s.
     Inr (s\<lparr>cursor_out := cursor_out s @ [14, ucast (drop_bit 8 (crt_pos s)), 15, ucast (crt_pos s)]\<rparr>))"

text \<open>A character that is not a tab.\<close>

definition cga_putc_plain :: "u32 \<Rightarrow> cga \<Rightarrow> cga c" where
  "cga_putc_plain c s =
     (let c = c OR global_color; b = c AND 0xFF
      in bindE (if b = 8
                then if crt_pos s > 0
                     then let s = s\<lparr>crt_pos := crt_pos s - 1\<rparr>
                          in bindE (wr (crt_buf s) (unat (crt_pos s)) (ucast ((c AND NOT 0xFF) OR 32))) (\<lambda>buf. Inr (s\<lparr>crt_buf := buf\<rparr>))
                     else Inr s
                else if b = 10
                then let s = s\<lparr>crt_pos := crt_pos s + of_nat CRT_COLS\<rparr> in Inr (s\<lparr>crt_pos := crt_pos s - crt_pos s mod of_nat CRT_COLS\<rparr>)
                else if b = 13 then Inr (s\<lparr>crt_pos := crt_pos s - crt_pos s mod of_nat CRT_COLS\<rparr>)
                else bindE (wr (crt_buf s) (unat (crt_pos s)) (ucast c)) (\<lambda>buf. Inr (s\<lparr>crt_buf := buf, crt_pos := crt_pos s + 1\<rparr>)))
           cga_end)"

text \<open>\<open>cons_putc\<close> of a character that is not a tab: it goes to the serial and parallel ports as well.\<close>

definition cons_putc_plain :: "u32 \<Rightarrow> cga \<Rightarrow> cga c" where
  "cons_putc_plain c s = cga_putc_plain c (s\<lparr>serial_out := serial_out s @ [ucast c]\<rparr>)"

fun times :: "nat \<Rightarrow> (cga \<Rightarrow> cga c) \<Rightarrow> cga \<Rightarrow> cga c" where
  "times 0 f s = Inr s"
| "times (Suc k) f s = bindE (f s) (times k f)"

definition cga_putc :: "u32 \<Rightarrow> cga \<Rightarrow> cga c" where
  "cga_putc c s =
     (if (c OR global_color) AND 0xFF = 9 then bindE (times 5 (cons_putc_plain 32) s) cga_end else cga_putc_plain c s)"

definition cons_putc :: "u32 \<Rightarrow> cga \<Rightarrow> cga c" where
  "cons_putc c s = cga_putc c (s\<lparr>serial_out := serial_out s @ [ucast c]\<rparr>)"

definition cputchar :: "u32 \<Rightarrow> cga \<Rightarrow> cga c" where "cputchar c s = cons_putc c s"

fun cputs :: "u32 list \<Rightarrow> cga \<Rightarrow> cga c" where
  "cputs [] s = Inr s"
| "cputs (c # cs) s = bindE (cputchar c s) (cputs cs)"

section \<open>The keyboard\<close>

definition SHIFT :: u32 where "SHIFT = 1"
definition CTL :: u32 where "CTL = 2"
definition ALT :: u32 where "ALT = 4"
definition CAPSLOCK :: u32 where "CAPSLOCK = 8"
definition NUMLOCK :: u32 where "NUMLOCK = 16"
definition SCROLLLOCK :: u32 where "SCROLLLOCK = 32"
definition E0ESC :: u32 where "E0ESC = 64"

definition KEY_DEL :: u8 where "KEY_DEL = 0xE9"

text \<open>A table of 256 entries: the first ones, then those given by index.\<close>

definition table :: "u8 list \<Rightarrow> (nat \<times> u8) list \<Rightarrow> u8 list" where
  "table first rest = foldl (\<lambda>t (i, v). t[i := v]) (first @ replicate (256 - length first) 0) rest"

definition shiftcode :: "u8 list" where
  "shiftcode = table [] [(0x1D, 2), (0x2A, 1), (0x36, 1), (0x38, 4), (0x9D, 2), (0xB8, 4)]"

definition togglecode :: "u8 list" where
  "togglecode = table [] [(0x3A, 8), (0x45, 16), (0x46, 32)]"

text \<open>The keys with an escape code that two of the maps share.\<close>

definition special_keys :: "(nat \<times> u8) list" where
  "special_keys = [(0xC7, 0xE0), (0x9C, 10), (0xB5, 47), (0xC8, 0xE2), (0xC9, 0xE6), (0xCB, 0xE4), (0xCD, 0xE5), (0xCF, 0xE1),
     (0xD0, 0xE3), (0xD1, 0xE7), (0xD2, 0xE8), (0xD3, 0xE9)]"

definition normalmap :: "u8 list" where
  "normalmap = table
    [0, 0x1B, 49, 50, 51, 52, 53, 54, 55, 56, 57, 48, 45, 61, 8, 9,
     113, 119, 101, 114, 116, 121, 117, 105, 111, 112, 91, 93, 10, 0, 97, 115,
     100, 102, 103, 104, 106, 107, 108, 59, 39, 96, 0, 92, 122, 120, 99, 118,
     98, 110, 109, 44, 46, 47, 0, 42, 0, 32, 0, 0, 0, 0, 0, 0,
     0, 0, 0, 0, 0, 0, 0, 55, 56, 57, 45, 52, 53, 54, 43, 49,
     50, 51, 48, 46, 0, 0, 0, 0] special_keys"

definition shiftmap :: "u8 list" where
  "shiftmap = table
    [0, 0x1B, 33, 64, 35, 36, 37, 94, 38, 42, 40, 41, 95, 43, 8, 9,
     81, 87, 69, 82, 84, 89, 85, 73, 79, 80, 123, 125, 10, 0, 65, 83,
     68, 70, 71, 72, 74, 75, 76, 58, 34, 126, 0, 124, 90, 88, 67, 86,
     66, 78, 77, 60, 62, 63, 0, 42, 0, 32, 0, 0, 0, 0, 0, 0,
     0, 0, 0, 0, 0, 0, 0, 55, 56, 57, 45, 52, 53, 54, 43, 49,
     50, 51, 48, 46, 0, 0, 0, 0] special_keys"

text \<open>\<open>C('Q')\<close> is 17, and \<open>C('/')\<close> is -17 as a byte.\<close>

definition ctlmap :: "u8 list" where
  "ctlmap = table
    [0, 0, 0, 0, 0, 0, 0, 0, 0, 0, 0, 0, 0, 0, 0, 0,
     17, 23, 5, 18, 20, 25, 21, 9, 15, 16, 0, 0, 13, 0, 1, 19,
     4, 6, 7, 8, 10, 11, 12, 0, 0, 0, 0, 28, 26, 24, 3, 22,
     2, 14, 13, 0, 0, 0xEF, 0, 0]
    [(0x97, 0xE0), (0xB5, 0xEF), (0xC8, 0xE2), (0xC9, 0xE6), (0xCB, 0xE4), (0xCD, 0xE5), (0xCF, 0xE1), (0xD0, 0xE3),
     (0xD1, 0xE7), (0xD2, 0xE8), (0xD3, 0xE9)]"

definition charcode :: "u8 list list" where "charcode = [normalmap, shiftmap, ctlmap, ctlmap]"

text \<open>
  \<open>kbd_proc_data\<close> with the byte \<open>data\<close> from the keyboard: the character, the new \<open>shift\<close>, and whether it restarts the machine.
\<close>

definition kbd_proc_data :: "u8 \<Rightarrow> u32 \<Rightarrow> (u8 \<times> u32 \<times> bool) c" where
  "kbd_proc_data data shift =
     (if data = 0xE0 then Inr (0, shift OR E0ESC, False)
      else if data AND 0x80 \<noteq> 0
      then let data = (if shift AND E0ESC \<noteq> 0 then data else data AND 0x7F)
           in bindE (rd shiftcode (unat data)) (\<lambda>sc. Inr (0, shift AND NOT (ucast sc OR E0ESC), False))
      else let (data, shift) = (if shift AND E0ESC \<noteq> 0 then (data OR 0x80, shift AND NOT E0ESC) else (data, shift))
           in bindE (rd shiftcode (unat data)) (\<lambda>sc. bindE (rd togglecode (unat data)) (\<lambda>tc.
              let shift = (shift OR ucast sc) XOR ucast tc
              in bindE (rd charcode (unat (shift AND (CTL OR SHIFT)))) (\<lambda>m. bindE (rd m (unat data)) (\<lambda>c.
                 let c = (if shift AND CAPSLOCK \<noteq> 0
                          then if 97 \<le> c \<and> c \<le> 122 then c - 32 else if 65 \<le> c \<and> c \<le> 90 then c + 32 else c
                          else c)
                 in Inr (c, shift, NOT shift AND (CTL OR ALT) = 0 \<and> c = KEY_DEL))))))"

section \<open>Lines\<close>

definition BUFLEN :: nat where "BUFLEN = 1024"

text \<open>
  The loop of \<open>readline\<close>: \<open>cs\<close> is what \<open>getchar\<close> returns, \<open>buf\<close> the part of the buffer before \<open>i\<close>. The line, or \<open>None\<close> for
  \<open>NULL\<close>; what is echoed; and the input that is left.
\<close>

fun readline_loop :: "bool \<Rightarrow> int list \<Rightarrow> u8 list \<Rightarrow> int list \<Rightarrow> (u8 list option \<times> int list \<times> int list) c" where
  "readline_loop echoing [] buf out = Inl Blocked"
| "readline_loop echoing (c # cs) buf out =
     (if c < 0 then Inr (None, out, cs)
      else if (c = 8 \<or> c = 127) \<and> length buf > 0
      then readline_loop echoing cs (butlast buf) (if echoing then out @ [8] else out)
      else if c \<ge> 32 \<and> length buf < BUFLEN - 1
      then readline_loop echoing cs (buf @ [word_of_int c]) (if echoing then out @ [c] else out)
      else if c = 10 \<or> c = 13 then Inr (Some buf, if echoing then out @ [10] else out, cs)
      else readline_loop echoing cs buf out)"

definition readline :: "bool \<Rightarrow> int list \<Rightarrow> (u8 list option \<times> int list \<times> int list) c" where
  "readline echoing cs = readline_loop echoing cs [] []"

section \<open>Buffered output\<close>

text \<open>\<open>lib/printf.c\<close>: the texts of the calls of \<open>sys_cputs\<close>.\<close>

record printbuf =
  pb_idx :: nat
  pb_cnt :: int
  pb_buf :: "u8 list"
  pb_puts :: "u8 list list"

definition printf_putch :: "u8 \<Rightarrow> printbuf \<Rightarrow> printbuf c" where
  "printf_putch ch b =
     bindE (wr (pb_buf b) (pb_idx b) ch) (\<lambda>buf.
     let b = b\<lparr>pb_buf := buf, pb_idx := pb_idx b + 1\<rparr>;
         b = (if pb_idx b = 256 - 1 then b\<lparr>pb_puts := pb_puts b @ [take (pb_idx b) (pb_buf b)], pb_idx := 0\<rparr> else b)
     in bindE (guardE SignedOverflow (in_i32 (pb_cnt b + 1))) (\<lambda>_. Inr (b\<lparr>pb_cnt := pb_cnt b + 1\<rparr>)))"

fun printf_all :: "u8 list \<Rightarrow> printbuf \<Rightarrow> printbuf c" where
  "printf_all [] b = Inr b"
| "printf_all (ch # out) b = bindE (printf_putch ch b) (printf_all out)"

text \<open>The result of \<open>vcprintf\<close>, and the texts; \<open>garbage\<close> is what is in the buffer at first.\<close>

definition vcprintf :: "u8 list \<Rightarrow> u8 list \<Rightarrow> u32 list \<Rightarrow> u8 list \<Rightarrow> (int \<times> u8 list list) c" where
  "vcprintf m f ap garbage =
     bindE (vprintfmt m f ap) (\<lambda>out.
     bindE (printf_all out \<lparr>pb_idx = 0, pb_cnt = 0, pb_buf = garbage, pb_puts = []\<rparr>) (\<lambda>b.
     Inr (pb_cnt b, pb_puts b @ [take (pb_idx b) (pb_buf b)])))"

text \<open>\<open>lib/fprintf.c\<close>: \<open>writes\<close> are the results of the calls of \<open>write\<close> to come, \<open>fb_written\<close> what was passed to them.\<close>

record fprintbuf =
  fb_idx :: nat
  fb_result :: int
  fb_error :: int
  fb_buf :: "u8 list"
  fb_written :: "u8 list list"

definition writebuf :: "int list \<Rightarrow> fprintbuf \<Rightarrow> (int list \<times> fprintbuf) c" where
  "writebuf writes b =
     (if fb_error b > 0
      then case writes of
             [] \<Rightarrow> Inl Blocked
           | result # writes \<Rightarrow>
               let b = b\<lparr>fb_written := fb_written b @ [take (fb_idx b) (fb_buf b)]\<rparr>;
                   b = (if result > 0 then b\<lparr>fb_result := fb_result b + result\<rparr> else b);
                   b = (if result \<noteq> int (fb_idx b) then b\<lparr>fb_error := (if result < 0 then result else 0)\<rparr> else b)
               in Inr (writes, b)
      else Inr (writes, b))"

definition fprintf_putch :: "u8 \<Rightarrow> int list \<Rightarrow> fprintbuf \<Rightarrow> (int list \<times> fprintbuf) c" where
  "fprintf_putch ch writes b =
     bindE (wr (fb_buf b) (fb_idx b) ch) (\<lambda>buf.
     let b = b\<lparr>fb_buf := buf, fb_idx := fb_idx b + 1\<rparr>
     in if fb_idx b = 256 then bindE (writebuf writes b) (\<lambda>(writes, b). Inr (writes, b\<lparr>fb_idx := 0\<rparr>)) else Inr (writes, b))"

fun fprintf_all :: "u8 list \<Rightarrow> int list \<Rightarrow> fprintbuf \<Rightarrow> (int list \<times> fprintbuf) c" where
  "fprintf_all [] writes b = Inr (writes, b)"
| "fprintf_all (ch # out) writes b = bindE (fprintf_putch ch writes b) (\<lambda>(writes, b). fprintf_all out writes b)"

definition vfprintf :: "u8 list \<Rightarrow> u8 list \<Rightarrow> u32 list \<Rightarrow> u8 list \<Rightarrow> int list \<Rightarrow> (int \<times> u8 list list) c" where
  "vfprintf m f ap garbage writes =
     bindE (vprintfmt m f ap) (\<lambda>out.
     bindE (fprintf_all out writes \<lparr>fb_idx = 0, fb_result = 0, fb_error = 1, fb_buf = garbage, fb_written = []\<rparr>) (\<lambda>(writes, b).
     bindE (if fb_idx b > 0 then writebuf writes b else Inr (writes, b)) (\<lambda>(writes, b).
     Inr (if fb_result b \<noteq> 0 then fb_result b else fb_error b, fb_written b))))"

text \<open>
  \<open>kern/printf.c\<close>: \<open>*cnt++\<close> moves the local pointer on and leaves the count as it is.
\<close>

fun kern_putch :: "u8 list \<Rightarrow> int \<Rightarrow> cga \<Rightarrow> (int \<times> cga) c" where
  "kern_putch [] cnt s = Inr (cnt, s)"
| "kern_putch (ch # out) cnt s = bindE (cputchar (ucast ch) s) (\<lambda>s. kern_putch out cnt s)"

definition kern_vcprintf :: "u8 list \<Rightarrow> u8 list \<Rightarrow> u32 list \<Rightarrow> cga \<Rightarrow> (int \<times> cga) c" where
  "kern_vcprintf m f ap s = bindE (vprintfmt m f ap) (\<lambda>out. kern_putch out 0 s)"

end
