(* ===== verification/ConsoleProps.thy ===== *)
theory ConsoleProps
  imports Console
begin

text \<open>
  What the console promises: the cursor stays on the screen, a line that is read fits its buffer, and the calls of
  \<open>sys_cputs\<close> print the whole text in order.
\<close>

section \<open>The screen\<close>

definition screen_ok :: "cga \<Rightarrow> bool" where
  "screen_ok s \<longleftrightarrow> length (crt_buf s) = CRT_SIZE \<and> unat (crt_pos s) < CRT_SIZE"

lemma cga_end_ok:
  assumes "length (crt_buf s) = CRT_SIZE" "unat (crt_pos s) < CRT_SIZE + CRT_COLS"
  shows "\<exists>s'. cga_end s = Inr s' \<and> screen_ok s'"
proof (cases "unat (crt_pos s) \<ge> CRT_SIZE")
  case True
  have "(80 :: u16) \<le> crt_pos s" using True by (simp add: word_le_nat_alt CRT_SIZE_def CRT_ROWS_def CRT_COLS_def)
  then have "unat (crt_pos s - 80) = unat (crt_pos s) - 80" by (simp add: unat_sub)
  with True assms show ?thesis
    by (simp add: cga_end_def scroll_def screen_ok_def CRT_SIZE_def CRT_ROWS_def CRT_COLS_def)
next
  case False
  with assms show ?thesis by (simp add: cga_end_def screen_ok_def)
qed

lemma line_start: "unat (w - w mod 80 :: u16) \<le> unat w"
proof -
  have "w mod 80 \<le> w" by (simp add: word_le_nat_alt unat_mod)
  then show ?thesis by (simp add: unat_sub)
qed

lemma cga_putc_plain_ok: "screen_ok s \<Longrightarrow> \<exists>s'. cga_putc_plain c s = Inr s' \<and> screen_ok s'"
proof -
  assume ok: "screen_ok s"
  have size: "CRT_SIZE = 2000" "CRT_COLS = 80" by (simp_all add: CRT_SIZE_def CRT_ROWS_def CRT_COLS_def)
  have pos: "unat (crt_pos s) < 2000" "length (crt_buf s) = 2000" using ok by (auto simp: screen_ok_def size)
  have left: "unat (crt_pos s - 1) < 2000" if "crt_pos s > 0" using pos that by (simp add: unat_sub word_le_nat_alt word_less_nat_alt)
  have down: "unat (crt_pos s + 80) = unat (crt_pos s) + 80"
    using pos(1) by (subst unat_add_lem[THEN iffD1]) simp_all
  have right: "unat (crt_pos s + 1) = unat (crt_pos s) + 1"
    using pos(1) by (subst unat_add_lem[THEN iffD1]) simp_all
  have nl: "unat (crt_pos s + 80 - (crt_pos s + 80) mod 80) < 2080" using line_start[of "crt_pos s + 80"] down pos by linarith
  have cr: "unat (crt_pos s - crt_pos s mod 80) < 2080" using line_start[of "crt_pos s"] pos by linarith
  show ?thesis
    unfolding cga_putc_plain_def Let_def
    using pos left nl cr right
    by (auto simp: size intro!: cga_end_ok)
qed

lemma times_ok:
  "(\<And>s. screen_ok s \<Longrightarrow> \<exists>s'. f s = Inr s' \<and> screen_ok s') \<Longrightarrow> screen_ok s \<Longrightarrow> \<exists>s'. times k f s = Inr s' \<and> screen_ok s'"
  by (induction k arbitrary: s) fastforce+

lemma screen_ok_serial: "screen_ok (s\<lparr>serial_out := x\<rparr>) = screen_ok s"
  by (simp add: screen_ok_def)

lemma cputchar_ok:
  assumes "screen_ok s"
  shows "\<exists>s'. cputchar c s = Inr s' \<and> screen_ok s'"
proof -
  let ?s = "s\<lparr>serial_out := serial_out s @ [ucast c]\<rparr>"
  have ok: "screen_ok ?s" using assms by (simp add: screen_ok_serial)
  have plain: "\<exists>s'. cons_putc_plain 32 t = Inr s' \<and> screen_ok s'" if "screen_ok t" for t
    unfolding cons_putc_plain_def by (rule cga_putc_plain_ok) (simp add: screen_ok_serial that)
  from times_ok[where f = "cons_putc_plain 32" and k = 5, OF plain ok] obtain s1 where s1: "times 5 (cons_putc_plain 32) ?s = Inr s1" "screen_ok s1" by blast
  moreover have "\<exists>s'. cga_end s1 = Inr s' \<and> screen_ok s'" using s1(2) by (intro cga_end_ok) (auto simp: screen_ok_def)
  ultimately show ?thesis
    using cga_putc_plain_ok[OF ok, of c] by (auto simp: cputchar_def cons_putc_def cga_putc_def)
qed

text \<open>
  C34. The screen driver stays on the screen: from a cursor on it, whatever is printed, with line feeds, tabs and backspaces anywhere, no
  access is outside the buffer of 25 lines, and the cursor is on the screen again.
\<close>

theorem screen_is_safe:
  assumes "screen_ok s"
  shows "\<exists>s'. cputs cs s = Inr s' \<and> screen_ok s'"
  using assms
proof (induction cs arbitrary: s)
  case (Cons c cs)
  from cputchar_ok[OF Cons.prems] obtain s1 where "cputchar c s = Inr s1" "screen_ok s1" by blast
  then show ?case using Cons.IH by simp
qed simp

definition ex_screen :: cga where
  "ex_screen = \<lparr>crt_buf = replicate CRT_SIZE 0, crt_pos = 1999, serial_out = [], cursor_out = []\<rparr>"

theorem screen_is_safe_witness: "\<exists>s'. cputs [65, 10, 8] ex_screen = Inr s' \<and> screen_ok s'"
  by (rule screen_is_safe) (simp add: screen_ok_def ex_screen_def CRT_SIZE_def CRT_ROWS_def CRT_COLS_def)

section \<open>Lines\<close>

text \<open>A line that is read fits the buffer with its NUL, and holds no control characters.\<close>

definition line_ok :: "u8 list \<Rightarrow> bool" where
  "line_ok buf \<longleftrightarrow> length buf < BUFLEN \<and> (\<forall>b \<in> set buf. 32 \<le> b)"

lemma line_ok_butlast: "line_ok buf \<Longrightarrow> line_ok (butlast buf)"
  by (auto simp: line_ok_def dest: in_set_butlastD)

lemma line_ok_append:
  assumes "line_ok buf" "32 \<le> c" "c < 256" "length buf < BUFLEN - 1"
  shows "line_ok (buf @ [word_of_int c])"
proof -
  have "(32 :: u8) \<le> word_of_int c" using assms(2,3) by (simp add: word_le_def uint_word_of_int)
  with assms show ?thesis by (auto simp: line_ok_def)
qed

lemma readline_loop_fits:
  "readline_loop echoing cs buf out = Inr (Some l, out', rest) \<Longrightarrow> line_ok buf \<Longrightarrow> \<forall>c \<in> set cs. c < 256 \<Longrightarrow> line_ok l"
proof (induction cs arbitrary: buf out)
  case (Cons c cs)
  have rest: "\<forall>c \<in> set cs. c < 256" and c: "c < 256" using Cons.prems(3) by auto
  consider "c < 0" | "\<not> c < 0" "(c = 8 \<or> c = 127) \<and> length buf > 0"
    | "\<not> c < 0" "\<not> ((c = 8 \<or> c = 127) \<and> length buf > 0)" "c \<ge> 32 \<and> length buf < BUFLEN - 1"
    | "\<not> c < 0" "\<not> ((c = 8 \<or> c = 127) \<and> length buf > 0)" "\<not> (c \<ge> 32 \<and> length buf < BUFLEN - 1)" by blast
  then show ?case
  proof cases
    case 1
    with Cons.prems(1) show ?thesis by simp
  next
    case 2
    with Cons.prems(1) have "\<exists>o2. readline_loop echoing cs (butlast buf) o2 = Inr (Some l, out', rest)" by auto
    then show ?thesis using Cons.IH line_ok_butlast[OF Cons.prems(2)] rest by blast
  next
    case 3
    with Cons.prems(1) have "\<exists>o2. readline_loop echoing cs (buf @ [word_of_int c]) o2 = Inr (Some l, out', rest)" by auto
    then show ?thesis using Cons.IH line_ok_append[OF Cons.prems(2) _ c] 3(3) rest by blast
  next
    case 4
    then have "readline_loop echoing (c # cs) buf out =
      (if c = 10 \<or> c = 13 then Inr (Some buf, if echoing then out @ [10] else out, cs) else readline_loop echoing cs buf out)"
      unfolding readline_loop.simps by (simp only: if_False)
    with Cons.prems Cons.IH[of buf out] rest show ?thesis by (auto split: if_splits)
  qed
qed simp

theorem readline_fits:
  assumes "readline echoing cs = Inr (Some l, out, rest)" "\<forall>c \<in> set cs. c < 256"
  shows "line_ok l"
  using assms readline_loop_fits[of echoing cs "[]" "[]"] by (simp add: readline_def line_ok_def BUFLEN_def)

section \<open>Buffered output\<close>

definition pb_text :: "printbuf \<Rightarrow> u8 list" where
  "pb_text b = concat (pb_puts b) @ take (pb_idx b) (pb_buf b)"

definition pb_ok :: "printbuf \<Rightarrow> bool" where
  "pb_ok b \<longleftrightarrow> length (pb_buf b) = 256 \<and> pb_idx b < 255 \<and> (\<forall>p \<in> set (pb_puts b). length p = 255)"

lemma printf_putch_text:
  assumes "pb_ok b" "0 \<le> pb_cnt b" "pb_cnt b + 1 < 2 ^ 31"
  shows "\<exists>b'. printf_putch ch b = Inr b' \<and> pb_ok b' \<and> pb_text b' = pb_text b @ [ch] \<and> pb_cnt b' = pb_cnt b + 1"
proof -
  have "pb_idx b < length (pb_buf b)" using assms by (simp add: pb_ok_def)
  then have "take (pb_idx b + 1) ((pb_buf b)[pb_idx b := ch]) = take (pb_idx b) (pb_buf b) @ [ch]"
    by (simp add: take_Suc_conv_app_nth)
  then show ?thesis
    using assms by (auto simp: printf_putch_def pb_ok_def pb_text_def in_i32_def Let_def)
qed

lemma printf_all_text:
  "pb_ok b \<Longrightarrow> 0 \<le> pb_cnt b \<Longrightarrow> pb_cnt b + int (length out) < 2 ^ 31 \<Longrightarrow>
   \<exists>b'. printf_all out b = Inr b' \<and> pb_ok b' \<and> pb_text b' = pb_text b @ out \<and> pb_cnt b' = pb_cnt b + int (length out)"
proof (induction out arbitrary: b)
  case (Cons ch out)
  obtain b1 where b1: "printf_putch ch b = Inr b1" "pb_ok b1" "pb_text b1 = pb_text b @ [ch]" "pb_cnt b1 = pb_cnt b + 1"
    using printf_putch_text[of b ch] Cons.prems by auto
  then obtain b' where "printf_all out b1 = Inr b'" "pb_ok b'" "pb_text b' = pb_text b1 @ out" "pb_cnt b' = pb_cnt b1 + int (length out)"
    using Cons.IH[of b1] Cons.prems by auto
  with b1 show ?case by simp
qed simp

text \<open>
  \<open>vcprintf\<close> of a user program prints the formatted text: the calls of \<open>sys_cputs\<close> have it in order, in pieces of at most 255
  bytes, its own buffer of 256 is never overrun, and it returns the length.
\<close>

theorem vcprintf_prints_all:
  assumes "vprintfmt m f ap = Inr out" "length out < 2 ^ 31" "length garbage = 256"
  shows "\<exists>puts. vcprintf m f ap garbage = Inr (int (length out), puts) \<and> concat puts = out \<and> (\<forall>p \<in> set puts. length p \<le> 255)"
proof -
  let ?b = "\<lparr>pb_idx = 0, pb_cnt = 0, pb_buf = garbage, pb_puts = []\<rparr>"
  have "int (length out) < 2 ^ 31" using assms(2) by simp
  then obtain b where b: "printf_all out ?b = Inr b" "pb_ok b" "pb_text b = out" "pb_cnt b = int (length out)"
    using printf_all_text[of ?b out] assms(3) by (auto simp: pb_ok_def pb_text_def)
  then have "vcprintf m f ap garbage = Inr (int (length out), pb_puts b @ [take (pb_idx b) (pb_buf b)])"
    using assms(1) by (simp add: vcprintf_def)
  moreover have "\<forall>p \<in> set (pb_puts b @ [take (pb_idx b) (pb_buf b)]). length p \<le> 255" using b(2) by (auto simp: pb_ok_def)
  moreover have "concat (pb_puts b @ [take (pb_idx b) (pb_buf b)]) = out" using b(3) by (simp add: pb_text_def)
  ultimately show ?thesis by blast
qed

text \<open>The count of the kernel's \<open>cprintf\<close> is 0, whatever it prints.\<close>

lemma kern_putch_count: "kern_putch out cnt s = Inr (n, s') \<Longrightarrow> n = cnt"
  by (induction out cnt s rule: kern_putch.induct) auto

lemma kern_count_is_zero: "kern_vcprintf m f ap s = Inr (n, s') \<Longrightarrow> n = 0"
  by (auto simp: kern_vcprintf_def dest: kern_putch_count)

end
