(* ===== verification/Args.thy ===== *)
theory Args
  imports CString
begin

text \<open>
  The command line flags of JOS programs (\<open>os_final_project/code/lib/args.c\<close>). Strings are at addresses in a list of
  bytes, as in \<open>CString\<close>; the state holds what \<open>struct Argstate\<close> points to in the caller, its \<open>argc\<close> and
  \<open>argv\<close>. The constant string \<open>""\<close> is at the address \<open>estr\<close>.
\<close>

record argstate =
  a_argc :: int
  a_argv :: "nat option list"
  a_curarg :: "nat option"
  a_value :: "nat option"

definition argstart :: "nat \<Rightarrow> int \<Rightarrow> nat option list \<Rightarrow> argstate" where
  "argstart estr argc argv =
     \<lparr>a_argc = argc, a_argv = argv, a_curarg = (if argc > 1 then Some estr else None), a_value = None\<rparr>"

text \<open>\<open>memmove(args->argv + 1, args->argv + 2, sizeof(const char *) * (*args->argc - 1))\<close> and \<open>(*args->argc)--\<close>.\<close>

definition shift_args :: "argstate \<Rightarrow> argstate c" where
  "shift_args s =
     (let n = nat (a_argc s - 1)
      in bindE (guardE OutOfBounds (n + 2 \<le> length (a_argv s))) (\<lambda>_.
         Inr (s\<lparr>a_argv := take 1 (a_argv s) @ take n (drop 2 (a_argv s)) @ drop (n + 1) (a_argv s), a_argc := a_argc s - 1\<rparr>)))"

definition argnext :: "u8 list \<Rightarrow> argstate \<Rightarrow> (int \<times> argstate) c" where
  "argnext m s =
     (let s = s\<lparr>a_value := None\<rparr>;
          endofargs = (\<lambda>s. Inr (-1, s\<lparr>a_curarg := None\<rparr>));
          flag = (\<lambda>s. bindE (deref (a_curarg s)) (\<lambda>p. bindE (rd m p) (\<lambda>c. Inr (uint c, s\<lparr>a_curarg := Some (p + 1)\<rparr>))))
      in case a_curarg s of
           None \<Rightarrow> Inr (-1, s)
         | Some p \<Rightarrow> bindE (rd m p) (\<lambda>c.
             if c \<noteq> 0 then flag s
             else if a_argc s = 1 then endofargs s
             else bindE (rd (a_argv s) 1) (\<lambda>a. bindE (deref a) (\<lambda>a. bindE (rd m a) (\<lambda>c0.
                  if c0 \<noteq> 45 then endofargs s
                  else bindE (rd m (a + 1)) (\<lambda>c1.
                  if c1 = 0 then endofargs s
                  else bindE (shift_args (s\<lparr>a_curarg := Some (a + 1)\<rparr>)) (\<lambda>s.
                       if c1 = 45
                       then bindE (rd m (a + 2)) (\<lambda>c2. if c2 = 0 then endofargs s else flag s)
                       else flag s)))))))"

definition argnextvalue :: "u8 list \<Rightarrow> nat \<Rightarrow> argstate \<Rightarrow> (nat option \<times> argstate) c" where
  "argnextvalue m estr s =
     (case a_curarg s of
        None \<Rightarrow> Inr (None, s)
      | Some p \<Rightarrow> bindE (rd m p) (\<lambda>c.
          bindE (if c \<noteq> 0 then Inr (s\<lparr>a_value := Some p, a_curarg := Some estr\<rparr>)
                 else if a_argc s > 1 then bindE (rd (a_argv s) 1) (\<lambda>a. shift_args (s\<lparr>a_value := a\<rparr>))
                 else Inr (s\<lparr>a_value := None, a_curarg := None\<rparr>)) (\<lambda>s. Inr (a_value s, s))))"

definition argvalue :: "u8 list \<Rightarrow> nat \<Rightarrow> argstate \<Rightarrow> (nat option \<times> argstate) c" where
  "argvalue m estr s = (case a_value s of Some v \<Rightarrow> Inr (Some v, s) | None \<Rightarrow> argnextvalue m estr s)"

end
