(* ===== verification/ArgsProps.thy ===== *)
theory ArgsProps
  imports Args
begin

text \<open>The flags of a command line against a reference on lists of strings, as \<open>inc/args.h\<close> describes them.\<close>

text \<open>The flags, and the arguments that are left.\<close>

fun flags :: "u8 list list \<Rightarrow> u8 list \<times> u8 list list" where
  "flags [] = ([], [])"
| "flags (a # as) =
     (if length a < 2 \<or> hd a \<noteq> 45 then ([], a # as)
      else if a = [45, 45] then ([], as)
      else (tl a @ fst (flags as), snd (flags as)))"

text \<open>\<open>while ((i = argnext(&args)) >= 0)\<close>.\<close>

fun all_flags :: "nat \<Rightarrow> u8 list \<Rightarrow> argstate \<Rightarrow> (int list \<times> argstate) c" where
  "all_flags 0 m s = Inl Diverges"
| "all_flags (Suc k) m s = bindE (argnext m s) (\<lambda>(r, s).
     if r \<ge> 0 then bindE (all_flags k m s) (\<lambda>(rs, s). Inr (r # rs, s)) else Inr ([], s))"

text \<open>A string in memory.\<close>

definition str_at :: "u8 list \<Rightarrow> nat \<Rightarrow> u8 list \<Rightarrow> bool" where
  "str_at m p s \<longleftrightarrow> 0 \<notin> set s \<and> take (length s + 1) (drop p m) = s @ [0]"

lemma str_at_rd: "str_at m p s \<Longrightarrow> i \<le> length s \<Longrightarrow> rd m (p + i) = Inr ((s @ [0]) ! i)"
proof -
  assume s: "str_at m p s" "i \<le> length s"
  then have t: "take (length s + 1) (drop p m) = s @ [0]" by (simp add: str_at_def)
  have len: "p + i < length m" using s(2) arg_cong[OF t, of length] by simp
  have "(s @ [0]) ! i = take (length s + 1) (drop p m) ! i" using t by simp
  also have "\<dots> = m ! (p + i)" using s(2) len by simp
  finally show ?thesis using len by (simp add: rd_def)
qed

lemma str_at_0: "str_at m p [] \<Longrightarrow> rd m p = Inr 0"
  using str_at_rd[of m p "[]" 0] by simp

lemma str_at_Cons: "str_at m p (c # s) \<Longrightarrow> rd m p = Inr c" "str_at m p (c # s) \<Longrightarrow> c \<noteq> 0" "str_at m p (c # s) \<Longrightarrow> str_at m (p + 1) s"
proof -
  assume s: "str_at m p (c # s)"
  show "rd m p = Inr c" using str_at_rd[OF s, of 0] by simp
  show "c \<noteq> 0" using s by (auto simp: str_at_def)
  show "str_at m (p + 1) s" using s drop_Suc[of p m] tl_drop[of p m] by (cases "drop p m") (auto simp: str_at_def)
qed

text \<open>The state before the arguments at \<open>ps\<close>.\<close>

definition args_at :: "nat option \<Rightarrow> nat list \<Rightarrow> argstate \<Rightarrow> bool" where
  "args_at prog ps s \<longleftrightarrow> a_argc s = 1 + int (length ps) \<and> (\<exists>more. a_argv s = prog # map Some ps @ None # more)"

lemma args_at_first: "args_at prog (p # ps) s \<Longrightarrow> rd (a_argv s) 1 = Inr (Some p)" "args_at prog (p # ps) s \<Longrightarrow> a_argc s \<noteq> 1"
  by (auto simp: args_at_def rd_def)

lemma args_at_update: "args_at prog ps (s\<lparr>a_curarg := c\<rparr>) = args_at prog ps s" "args_at prog ps (s\<lparr>a_value := v\<rparr>) = args_at prog ps s"
  by (simp_all add: args_at_def)

lemma shift_args_at:
  assumes "args_at prog (p # ps) s"
  shows "\<exists>s'. shift_args s = Inr s' \<and> args_at prog ps s' \<and> a_curarg s' = a_curarg s \<and> a_value s' = a_value s"
proof -
  obtain more where s: "a_argc s = 2 + int (length ps)" "a_argv s = prog # Some p # map Some ps @ None # more"
    using assms by (auto simp: args_at_def)
  then show ?thesis by (auto simp: shift_args_def args_at_def Let_def nat_add_distrib)
qed

text \<open>One more flag of the argument at hand.\<close>

lemma argnext_flag:
  assumes "a_curarg s = Some p" "str_at m p (c # cs)" "args_at prog ps s"
  shows "\<exists>s'. argnext m s = Inr (uint c, s') \<and> a_curarg s' = Some (p + 1) \<and> args_at prog ps s'"
  using assms(1,3) str_at_Cons(1,2)[OF assms(2)] by (simp add: argnext_def Let_def deref_def args_at_update)

lemma all_flags_correct:
  assumes "list_all2 (str_at m) ps as" "args_at prog ps s" "a_curarg s = Some p" "str_at m p cs"
    "length cs + sum_list (map length as) + 1 \<le> k"
  shows "\<exists>s' n. all_flags k m s = Inr (map uint (cs @ fst (flags as)), s') \<and> snd (flags as) = drop n as \<and> args_at prog (drop n ps) s'
    \<and> a_curarg s' = None"
  using assms
proof (induction as arbitrary: ps s p cs k rule: list.induct)
  case Nil
  from Nil.prems(1) have ps: "ps = []" by simp
  from Nil.prems(2-5) show ?case
  proof (induction cs arbitrary: s p k)
    case Nil
    then show ?case by (cases k) (auto simp: ps argnext_def Let_def str_at_0 args_at_def)
  next
    case (Cons c cs)
    from argnext_flag[OF Cons.prems(2,3,1)] obtain s1
      where s1: "argnext m s = Inr (uint c, s1)" "a_curarg s1 = Some (p + 1)" "args_at prog ps s1" by blast
    obtain k' where k: "k = Suc k'" "length cs + sum_list (map length ([] :: u8 list list)) + 1 \<le> k'" using Cons.prems(4) by (cases k) auto
    from Cons.IH[OF s1(3,2) str_at_Cons(3)[OF Cons.prems(3)] k(2)] s1(1) show ?case
      by (auto simp: k(1))
  qed
next
  case (Cons a as)
  note outer = Cons.IH
  obtain q qs where ps: "ps = q # qs" "str_at m q a" "list_all2 (str_at m) qs as"
    using Cons.prems(1) by (auto simp: list_all2_Cons2)
  from Cons.prems(2-5) show ?case
  proof (induction cs arbitrary: s p k)
    case Nil
    obtain k' where k: "k = Suc k'" using Nil.prems(4) by (cases k) auto
    note first = args_at_first[OF Nil.prems(1)[unfolded ps]]
    have cur: "rd m p = Inr 0" by (rule str_at_0[OF Nil.prems(3)])
    consider (no) "length a < 2 \<or> hd a \<noteq> 45" | (dashes) "a = [45, 45]" | (flag) "length a \<ge> 2" "hd a = 45" "a \<noteq> [45, 45]" by linarith
    then show ?case
    proof cases
      case no
      have "argnext m s = Inr (-1, s\<lparr>a_value := None, a_curarg := None\<rparr>)"
      proof (cases a)
        case Nil
        then show ?thesis using first cur str_at_0 ps(2) \<open>a_curarg s = Some p\<close> by (simp add: argnext_def Let_def deref_def)
      next
        case (Cons c cs)
        note c = str_at_Cons[OF ps(2)[unfolded Cons]]
        show ?thesis
        proof (cases "c = 45")
          case True
          with no Cons have "cs = []" by (cases cs) auto
          with c(3) have "rd m (q + 1) = Inr 0" by (simp add: str_at_0)
          with first cur c(1) True \<open>a_curarg s = Some p\<close> show ?thesis by (simp add: argnext_def Let_def deref_def)
        next
          case False
          with first cur c(1) \<open>a_curarg s = Some p\<close> show ?thesis by (simp add: argnext_def Let_def deref_def)
        qed
      qed
      with no Nil.prems(1) show ?thesis by (auto simp: k args_at_update intro!: exI[of _ 0])
    next
      case dashes
      note q = str_at_Cons[OF ps(2)[unfolded dashes]]
      note q1 = str_at_Cons[OF q(3)]
      note q2 = str_at_0[OF q1(3)]
      obtain s1 where s1: "shift_args (s\<lparr>a_value := None, a_curarg := Some (q + 1)\<rparr>) = Inr s1" "args_at prog qs s1"
        using shift_args_at[of prog q qs "s\<lparr>a_value := None, a_curarg := Some (q + 1)\<rparr>"] Nil.prems(1) by (auto simp: ps args_at_update)
      have "argnext m s = Inr (-1, s1\<lparr>a_curarg := None\<rparr>)"
        using first cur q(1) q1(1) q2 s1(1) \<open>a_curarg s = Some p\<close> by (simp add: argnext_def Let_def deref_def)
      with s1(2) show ?thesis by (auto simp: k dashes ps args_at_update intro!: exI[of _ "1 :: nat"])
    next
      case flag
      then obtain c cs where a: "a = 45 # c # cs" by (cases a; cases "tl a") auto
      note q = str_at_Cons[OF ps(2)[unfolded a]]
      note q1 = str_at_Cons[OF q(3)]
      have more: "rd m (q + 2) \<noteq> Inr 0 \<and> (\<exists>d. rd m (q + 2) = Inr d)" if "c = 45"
      proof -
        from that flag(3) a obtain d ds where "cs = d # ds" by (cases cs) auto
        then show ?thesis using str_at_Cons(1,2)[OF q1(3)[unfolded \<open>cs = d # ds\<close>]] by simp
      qed
      obtain s1 where s1: "shift_args (s\<lparr>a_value := None, a_curarg := Some (q + 1)\<rparr>) = Inr s1" "args_at prog qs s1"
          "a_curarg s1 = Some (q + 1)"
        using shift_args_at[of prog q qs "s\<lparr>a_value := None, a_curarg := Some (q + 1)\<rparr>"] Nil.prems(1) by (auto simp: ps args_at_update)
      have "argnext m s = Inr (uint c, s1\<lparr>a_curarg := Some (q + 2)\<rparr>)"
        using first cur q(1) q1(1,2) s1(1,3) \<open>a_curarg s = Some p\<close> more by (auto simp: argnext_def Let_def deref_def)
      moreover have "\<exists>s' n. all_flags k' m (s1\<lparr>a_curarg := Some (q + 2)\<rparr>) = Inr (map uint (cs @ fst (flags as)), s')
          \<and> snd (flags as) = drop n as \<and> args_at prog (drop n qs) s' \<and> a_curarg s' = None"
        using outer[OF ps(3), of "s1\<lparr>a_curarg := Some (q + 2)\<rparr>" "q + 2" cs k'] s1(2) q1(3) Nil.prems(4) by (simp add: args_at_update k a)
      then obtain s' n where "all_flags k' m (s1\<lparr>a_curarg := Some (q + 2)\<rparr>) = Inr (map uint (cs @ fst (flags as)), s')"
          "snd (flags as) = drop n as" "args_at prog (drop n qs) s'" "a_curarg s' = None" by blast
      ultimately show ?thesis
        using flag by (intro exI[of _ s'] exI[of _ "Suc n"]) (auto simp: k a ps)
    qed
  next
    case (Cons c cs)
    from argnext_flag[OF Cons.prems(2,3,1)] obtain s1
      where s1: "argnext m s = Inr (uint c, s1)" "a_curarg s1 = Some (p + 1)" "args_at prog ps s1" by blast
    obtain k' where k: "k = Suc k'" "length cs + sum_list (map length (a # as)) + 1 \<le> k'" using Cons.prems(4) by (cases k) auto
    from Cons.IH[OF s1(3,2) str_at_Cons(3)[OF Cons.prems(3)] k(2)] s1(1) show ?case
      by (auto simp: k(1))
  qed
qed

text \<open>
  C35. The loop of \<open>argnext\<close> over any arguments gives the flags of the documentation, one letter at a time, ends with -1, and leaves
  in \<open>argc\<close> and \<open>argv\<close> the program and the arguments after the flags, without a \<open>--\<close>.
\<close>

theorem flags_correct:
  assumes "list_all2 (str_at m) ps as" "str_at m estr []" "sum_list (map length as) < k"
  shows "\<exists>s n. all_flags k m (argstart estr (1 + int (length ps)) (prog # map Some ps @ None # others)) = Inr (map uint (fst (flags as)), s)
    \<and> snd (flags as) = drop n as \<and> args_at prog (drop n ps) s"
proof (cases "ps = []")
  case True
  then have "as = []" using assms(1) by simp
  then show ?thesis using assms(3) True by (cases k) (auto simp: argstart_def argnext_def args_at_def)
next
  case False
  let ?s = "argstart estr (1 + int (length ps)) (prog # map Some ps @ None # others)"
  have "args_at prog ps ?s" "a_curarg ?s = Some estr" using False by (simp_all add: args_at_def argstart_def)
  from all_flags_correct[OF assms(1) this assms(2), of k] assms(3) show ?thesis by auto
qed

text \<open>The example of \<open>inc/args.h\<close>, without the values: \<open>-rx -- -r\<close>.\<close>

definition ex_args :: "u8 list" where "ex_args = [0, 45, 114, 120, 0, 45, 45, 0, 45, 114, 0]"

theorem flags_correct_witness:
  "\<exists>s n. all_flags 8 ex_args (argstart 0 4 [Some 1, Some 1, Some 5, Some 8, None]) = Inr ([114, 120], s)
    \<and> [[45, 114]] = drop n [[45, 114, 120], [45, 45], [45, 114 :: u8]] \<and> args_at (Some 1) (drop n [1, 5, 8]) s"
proof -
  have "list_all2 (str_at ex_args) [1, 5, 8] [[45, 114, 120], [45, 45], [45, 114]]" "str_at ex_args 0 []"
    by (simp_all add: str_at_def ex_args_def)
  from flags_correct[OF this, of 8 "Some 1" "[]"] show ?thesis by (simp del: One_nat_def)
qed

text \<open>The value of a flag is what follows it in its argument, or else the next argument, which is taken from \<open>argv\<close>.\<close>

lemma argnextvalue_rest:
  assumes "a_curarg s = Some p" "str_at m p (c # cs)"
  shows "argnextvalue m estr s = Inr (Some p, s\<lparr>a_value := Some p, a_curarg := Some estr\<rparr>)"
  using assms(1) str_at_Cons(1,2)[OF assms(2)] by (simp add: argnextvalue_def)

lemma argnextvalue_next:
  assumes "a_curarg s = Some p" "str_at m p []" "args_at prog (q # qs) s"
  shows "\<exists>s'. argnextvalue m estr s = Inr (Some q, s') \<and> args_at prog qs s' \<and> a_curarg s' = Some p"
proof -
  have "a_argc s > 1" "rd (a_argv s) 1 = Inr (Some q)" using assms(3) by (auto simp: args_at_def rd_def)
  moreover obtain s' where "shift_args (s\<lparr>a_value := Some q\<rparr>) = Inr s'" "args_at prog qs s'" "a_curarg s' = Some p" "a_value s' = Some q"
    using shift_args_at[of prog q qs "s\<lparr>a_value := Some q\<rparr>"] assms(1,3) by (auto simp: args_at_update)
  ultimately show ?thesis using assms(1) str_at_0[OF assms(2)] by (simp add: argnextvalue_def)
qed

end
