(* ===== verification/MpConfig.thy ===== *)
theory MpConfig
  imports CString
begin

text \<open>
  The multiprocessor table of JOS (\<open>os_final_project/code/kern/mpconfig.c\<close>): the BIOS leaves a table of the
  processors in memory, \<open>mp_init\<close> finds it and fills \<open>cpus\<close>. The memory is a list of bytes from physical address 0, a
  whole number of pages; an entry of \<open>cpus\<close> is its index.
\<close>

section \<open>Memory\<close>

text \<open>\<open>KADDR\<close>, as a physical address.\<close>

definition kaddr :: "u32 \<Rightarrow> u8 list \<Rightarrow> nat c" where
  "kaddr pa m = bindE (guardE Panic (unat pa div 4096 < length m div 4096)) (\<lambda>_. Inr (unat pa))"

definition rd16 :: "u8 list \<Rightarrow> nat \<Rightarrow> u16 c" where
  "rd16 m a = bindE (rd m a) (\<lambda>b0. bindE (rd m (a + 1)) (\<lambda>b1. Inr (ucast b0 OR push_bit 8 (ucast b1))))"

definition rd32 :: "u8 list \<Rightarrow> nat \<Rightarrow> u32 c" where
  "rd32 m a = bindE (rd16 m a) (\<lambda>w0. bindE (rd16 m (a + 2)) (\<lambda>w1. Inr (ucast w0 OR push_bit 16 (ucast w1))))"

text \<open>\<open>sum\<close> returns the low byte of the sum.\<close>

fun sum_from :: "nat \<Rightarrow> nat \<Rightarrow> u8 list \<Rightarrow> int \<Rightarrow> u8 c" where
  "sum_from 0 a m acc = Inr (word_of_int acc)"
| "sum_from (Suc n) a m acc = bindE (rd m a) (\<lambda>b.
     bindE (guardE SignedOverflow (in_i32 (acc + uint b))) (\<lambda>_. sum_from n (a + 1) m (acc + uint b)))"

definition mp_sum :: "nat \<Rightarrow> nat \<Rightarrow> u8 list \<Rightarrow> u8 c" where "mp_sum a n m = sum_from n a m 0"

text \<open>\<open>memcmp\<close> with a constant string.\<close>

fun same_bytes :: "u8 list \<Rightarrow> nat \<Rightarrow> u8 list \<Rightarrow> bool c" where
  "same_bytes [] a m = Inr True"
| "same_bytes (c # cs) a m = bindE (rd m a) (\<lambda>b. if b \<noteq> c then Inr False else same_bytes cs (a + 1) m)"

section \<open>The search\<close>

text \<open>Both structures are packed; the fields are at these places.\<close>

definition MP_SIG :: "u8 list" where "MP_SIG = [95, 77, 80, 95]"
definition PCMP_SIG :: "u8 list" where "PCMP_SIG = [80, 67, 77, 80]"

definition mp_physaddr :: "nat \<Rightarrow> nat" where "mp_physaddr a = a + 4"
definition mp_type :: "nat \<Rightarrow> nat" where "mp_type a = a + 11"
definition mp_imcrp :: "nat \<Rightarrow> nat" where "mp_imcrp a = a + 12"

definition conf_length :: "nat \<Rightarrow> nat" where "conf_length a = a + 4"
definition conf_version :: "nat \<Rightarrow> nat" where "conf_version a = a + 6"
definition conf_entry :: "nat \<Rightarrow> nat" where "conf_entry a = a + 34"
definition conf_lapicaddr :: "nat \<Rightarrow> nat" where "conf_lapicaddr a = a + 36"
definition conf_xlength :: "nat \<Rightarrow> nat" where "conf_xlength a = a + 40"
definition conf_xchecksum :: "nat \<Rightarrow> nat" where "conf_xchecksum a = a + 42"
definition conf_entries :: "nat \<Rightarrow> nat" where "conf_entries a = a + 44"

function mpsearch_from :: "nat \<Rightarrow> nat \<Rightarrow> u8 list \<Rightarrow> nat option c" where
  "mpsearch_from mp stop m =
     (if mp < stop
      then bindE (same_bytes MP_SIG mp m) (\<lambda>same.
           if same
           then bindE (mp_sum mp 16 m) (\<lambda>r. if r = 0 then Inr (Some mp) else mpsearch_from (mp + 16) stop m)
           else mpsearch_from (mp + 16) stop m)
      else Inr None)"
  by pat_completeness auto
termination by (relation "measure (\<lambda>(mp, stop, m). stop - mp)") auto

declare mpsearch_from.simps [simp del]

definition mpsearch1 :: "u32 \<Rightarrow> u32 \<Rightarrow> u8 list \<Rightarrow> nat option c" where
  "mpsearch1 a len m = bindE (kaddr a m) (\<lambda>mp. bindE (kaddr (a + len) m) (\<lambda>stop. mpsearch_from mp stop m))"

definition mpsearch :: "u8 list \<Rightarrow> nat option c" where
  "mpsearch m =
     bindE (kaddr 0x400 m) (\<lambda>bda.
     bindE (rd16 m (bda + 0x0E)) (\<lambda>p.
     bindE (if p \<noteq> 0 then mpsearch1 (push_bit 4 (ucast p)) 1024 m
            else bindE (rd16 m (bda + 0x13)) (\<lambda>kb. mpsearch1 (ucast kb * 1024 - 1024) 1024 m)) (\<lambda>r.
     case r of Some mp \<Rightarrow> Inr (Some mp) | None \<Rightarrow> mpsearch1 0xF0000 0x10000 m)))"

text \<open>\<open>*pmp\<close> and the table.\<close>

definition mpconfig :: "u8 list \<Rightarrow> (nat \<times> nat) option c" where
  "mpconfig m = bindE (mpsearch m) (\<lambda>r. case r of
     None \<Rightarrow> Inr None
   | Some mp \<Rightarrow>
       bindE (rd32 m (mp_physaddr mp)) (\<lambda>pa. bindE (rd m (mp_type mp)) (\<lambda>ty.
       if pa = 0 \<or> ty \<noteq> 0 then Inr None
       else bindE (kaddr pa m) (\<lambda>conf. bindE (same_bytes PCMP_SIG conf m) (\<lambda>same.
       if \<not> same then Inr None
       else bindE (rd16 m (conf_length conf)) (\<lambda>len. bindE (mp_sum conf (unat len) m) (\<lambda>r.
       if r \<noteq> 0 then Inr None
       else bindE (rd m (conf_version conf)) (\<lambda>v.
       if v \<noteq> 1 \<and> v \<noteq> 4 then Inr None
       else bindE (rd16 m (conf_xlength conf)) (\<lambda>xlen. bindE (mp_sum (conf + unat len) (unat xlen) m) (\<lambda>r.
            bindE (rd m (conf_xchecksum conf)) (\<lambda>x.
       if (ucast r + ucast x :: u32) AND 0xFF \<noteq> 0 then Inr None else Inr (Some (mp, conf)))))))))))))"

section \<open>Processors\<close>

definition NCPU :: nat where "NCPU = 8"
definition MPPROC_BOOT :: u8 where "MPPROC_BOOT = 2"
definition MPPROC :: u8 where "MPPROC = 0"
definition MPBUS :: u8 where "MPBUS = 1"
definition MPIOAPIC :: u8 where "MPIOAPIC = 2"
definition MPIOINTR :: u8 where "MPIOINTR = 3"
definition MPLINTR :: u8 where "MPLINTR = 4"

datatype cpu_status = Cpu_unused | Cpu_started | Cpu_halted

record cpu_info =
  cpu_id :: u8
  cpu_state :: cpu_status

text \<open>The variables of the kernel, and the outputs to the ports 22 and 23.\<close>

record mpstate =
  mp_cpus :: "cpu_info list"
  mp_bootcpu :: nat
  mp_ismp :: bool
  mp_ncpu :: nat
  mp_lapicaddr :: u32
  mp_ports :: "(nat \<times> u8) list"

text \<open>The loop over the entries: \<open>k\<close> of them are left, at \<open>p\<close>.\<close>

fun entries_loop :: "nat \<Rightarrow> nat \<Rightarrow> u8 list \<Rightarrow> mpstate \<Rightarrow> mpstate c" where
  "entries_loop 0 p m s = Inr s"
| "entries_loop (Suc k) p m s = bindE (rd m p) (\<lambda>ty.
     if ty = MPPROC
     then bindE (rd m (p + 3)) (\<lambda>flags.
          let s = (if flags AND MPPROC_BOOT \<noteq> 0 then s\<lparr>mp_bootcpu := mp_ncpu s\<rparr> else s)
          in if mp_ncpu s < NCPU
             then bindE (rd (mp_cpus s) (mp_ncpu s)) (\<lambda>cpu.
                  entries_loop k (p + 20) m
                    (s\<lparr>mp_cpus := (mp_cpus s)[mp_ncpu s := cpu\<lparr>cpu_id := of_nat (mp_ncpu s)\<rparr>], mp_ncpu := mp_ncpu s + 1\<rparr>))
             else entries_loop k (p + 20) m s)
     else if ty = MPBUS \<or> ty = MPIOAPIC \<or> ty = MPIOINTR \<or> ty = MPLINTR then entries_loop k (p + 8) m s
     else Inr (s\<lparr>mp_ismp := False\<rparr>))"

text \<open>\<open>port23\<close> is what is read from the port 23.\<close>

definition mp_init :: "u8 list \<Rightarrow> u8 \<Rightarrow> mpstate \<Rightarrow> mpstate c" where
  "mp_init m port23 s =
     (let s = s\<lparr>mp_bootcpu := 0\<rparr>
      in bindE (mpconfig m) (\<lambda>r. case r of
           None \<Rightarrow> Inr s
         | Some (mp, conf) \<Rightarrow>
             bindE (rd32 m (conf_lapicaddr conf)) (\<lambda>la. bindE (rd16 m (conf_entry conf)) (\<lambda>entry.
             bindE (entries_loop (unat entry) (conf_entries conf) m (s\<lparr>mp_ismp := True, mp_lapicaddr := la\<rparr>)) (\<lambda>s.
             bindE (rd (mp_cpus s) (mp_bootcpu s)) (\<lambda>cpu.
             let s = s\<lparr>mp_cpus := (mp_cpus s)[mp_bootcpu s := cpu\<lparr>cpu_state := Cpu_started\<rparr>]\<rparr>
             in if \<not> mp_ismp s then Inr (s\<lparr>mp_ncpu := 1, mp_lapicaddr := 0\<rparr>)
                else bindE (rd m (mp_imcrp mp)) (\<lambda>imcrp.
                     Inr (if imcrp \<noteq> 0 then s\<lparr>mp_ports := mp_ports s @ [(0x22, 0x70), (0x23, port23 OR 1)]\<rparr> else s))))))))"

end
