(* ===== verification/MpConfigProps.thy ===== *)
theory MpConfigProps
  imports MpConfig
begin

text \<open>What \<open>mp_init\<close> makes of a table, and what the search finds.\<close>

section \<open>The processors\<close>

text \<open>A table as the list of its entries.\<close>

definition entry_ok :: "u8 list \<Rightarrow> bool" where
  "entry_ok e \<longleftrightarrow> (\<exists>t r. e = t # r \<and> (t = MPPROC \<and> length r = 19 \<or> t \<in> {MPBUS, MPIOAPIC, MPIOINTR, MPLINTR} \<and> length r = 7))"

definition procs :: "u8 list list \<Rightarrow> u8 list list" where "procs E = filter (\<lambda>e. hd e = MPPROC) E"

definition boot_flag :: "u8 list \<Rightarrow> bool" where "boot_flag e \<longleftrightarrow> e ! 3 AND MPPROC_BOOT \<noteq> 0"

text \<open>The index \<open>bootcpu\<close> has after the processors \<open>ps\<close>.\<close>

fun boot_index :: "nat \<Rightarrow> nat \<Rightarrow> u8 list list \<Rightarrow> nat" where
  "boot_index n b [] = b"
| "boot_index n b (e # es) = boot_index (min NCPU (n + 1)) (if boot_flag e then n else b) es"

lemma boot_index_none: "\<forall>e \<in> set ps. \<not> boot_flag e \<Longrightarrow> boot_index n b ps = b"
  by (induction ps arbitrary: n b) auto

lemma boot_index_one:
  "n \<le> NCPU \<Longrightarrow> k < length ps \<Longrightarrow> \<forall>i < length ps. boot_flag (ps ! i) \<longleftrightarrow> i = k \<Longrightarrow> boot_index n b ps = min NCPU (n + k)"
proof (induction ps arbitrary: n b k)
  case (Cons e es)
  show ?case
  proof (cases k)
    case 0
    have "\<forall>x \<in> set es. \<not> boot_flag x"
    proof
      fix x assume "x \<in> set es"
      then obtain i where "i < length es" "x = es ! i" by (auto simp: in_set_conv_nth)
      then show "\<not> boot_flag x" using Cons.prems(3) 0 by (auto dest: spec[of _ "Suc i"])
    qed
    moreover have "boot_flag e" using Cons.prems(3) 0 by auto
    ultimately show ?thesis using 0 Cons.prems(1) by (simp add: boot_index_none)
  next
    case (Suc k')
    have "\<not> boot_flag e" using Cons.prems(3) Suc by (auto dest: spec[of _ 0])
    moreover have "\<forall>i < length es. boot_flag (es ! i) \<longleftrightarrow> i = k'"
      using Cons.prems(3) Suc by (metis Suc_less_eq length_Cons nth_Cons_Suc old.nat.inject)
    ultimately show ?thesis using Cons.IH[of "min NCPU (n + 1)" k' b] Cons.prems(1,2) Suc by simp
  qed
qed simp

text \<open>The entries of \<open>cpus\<close> from \<open>n\<close> to \<open>n'\<close> have their index as identifier, the others are as they were.\<close>

definition numbered :: "nat \<Rightarrow> nat \<Rightarrow> cpu_info list \<Rightarrow> cpu_info list \<Rightarrow> bool" where
  "numbered n n' cs cs' \<longleftrightarrow> length cs' = length cs \<and>
     (\<forall>j < length cs. cs' ! j = (if n \<le> j \<and> j < n' then (cs ! j)\<lparr>cpu_id := of_nat j\<rparr> else cs ! j))"

lemma numbered_refl: "n' \<le> n \<Longrightarrow> numbered n n' cs cs"
  by (auto simp: numbered_def)

lemma numbered_step:
  assumes "n < length cs" "n < n'" "numbered (n + 1) n' (cs[n := (cs ! n)\<lparr>cpu_id := of_nat n\<rparr>]) cs'"
  shows "numbered n n' cs cs'"
  using assms by (auto simp: numbered_def nth_list_update Suc_le_eq)

lemma entries_loop_table:
  assumes "\<forall>e \<in> set E. entry_ok e" "length (mp_cpus s) = NCPU" "mp_ncpu s \<le> NCPU"
  shows "\<exists>cs. entries_loop (length E) (length pre) (pre @ concat E @ rest) s =
      Inr (s\<lparr>mp_cpus := cs, mp_bootcpu := boot_index (mp_ncpu s) (mp_bootcpu s) (procs E), mp_ncpu := min NCPU (mp_ncpu s + length (procs E))\<rparr>)
    \<and> numbered (mp_ncpu s) (min NCPU (mp_ncpu s + length (procs E))) (mp_cpus s) cs"
  using assms
proof (induction E arbitrary: pre s)
  case Nil
  then show ?case by (intro exI[of _ "mp_cpus s"]) (auto simp: procs_def numbered_def min_def)
next
  case (Cons e E)
  obtain t r where e: "e = t # r" "t = MPPROC \<and> length r = 19 \<or> t \<in> {MPBUS, MPIOAPIC, MPIOINTR, MPLINTR} \<and> length r = 7"
    using Cons.prems(1) by (auto simp: entry_ok_def)
  let ?m = "pre @ concat (e # E) @ rest"
  have ty: "rd ?m (length pre) = Inr t" by (simp add: e(1) rd_def nth_append)
  have after: "?m = (pre @ e) @ concat E @ rest" by simp
  have E: "\<forall>e \<in> set E. entry_ok e" using Cons.prems(1) by simp
  from e(2) show ?case
  proof
    assume proc: "t = MPPROC \<and> length r = 19"
    have flags: "rd ?m (length pre + 3) = Inr (e ! 3)" using proc by (simp add: e(1) rd_def nth_append)
    let ?s1 = "if boot_flag e then s\<lparr>mp_bootcpu := mp_ncpu s\<rparr> else s"
    let ?s2 = "if mp_ncpu s < NCPU then ?s1\<lparr>mp_cpus := (mp_cpus s)[mp_ncpu s := (mp_cpus s ! mp_ncpu s)\<lparr>cpu_id := of_nat (mp_ncpu s)\<rparr>],
        mp_ncpu := mp_ncpu s + 1\<rparr> else ?s1"
    have len: "length (pre @ e) = length pre + 20" using proc by (simp add: e(1))
    have step: "entries_loop (length (e # E)) (length pre) ?m s = entries_loop (length E) (length (pre @ e)) ((pre @ e) @ concat E @ rest) ?s2"
      unfolding after[symmetric] len using ty flags proc Cons.prems(2)
      by (simp add: boot_flag_def rd_def)
    have "length (mp_cpus ?s2) = NCPU" "mp_ncpu ?s2 \<le> NCPU" using Cons.prems(2,3) by auto
    from Cons.IH[OF E this, of "pre @ e"] obtain cs where
      cs: "entries_loop (length E) (length (pre @ e)) ((pre @ e) @ concat E @ rest) ?s2 =
        Inr (?s2\<lparr>mp_cpus := cs, mp_bootcpu := boot_index (mp_ncpu ?s2) (mp_bootcpu ?s2) (procs E), mp_ncpu := min NCPU (mp_ncpu ?s2 + length (procs E))\<rparr>)"
        "numbered (mp_ncpu ?s2) (min NCPU (mp_ncpu ?s2 + length (procs E))) (mp_cpus ?s2) cs" by blast
    have procs: "procs (e # E) = e # procs E" using proc by (simp add: procs_def e(1))
    have n2: "mp_ncpu ?s2 = min NCPU (mp_ncpu s + 1)" "mp_bootcpu ?s2 = (if boot_flag e then mp_ncpu s else mp_bootcpu s)"
      using Cons.prems(3) by auto
    have n3: "min NCPU (mp_ncpu ?s2 + length (procs E)) = min NCPU (mp_ncpu s + length (procs (e # E)))"
      unfolding n2(1) procs by simp
    have "numbered (mp_ncpu s) (min NCPU (mp_ncpu s + length (procs (e # E)))) (mp_cpus s) cs"
    proof (cases "mp_ncpu s < NCPU")
      case True
      have "numbered (mp_ncpu s + 1) (min NCPU (mp_ncpu s + length (procs (e # E))))
          ((mp_cpus s)[mp_ncpu s := (mp_cpus s ! mp_ncpu s)\<lparr>cpu_id := of_nat (mp_ncpu s)\<rparr>]) cs"
        using cs(2) unfolding n3 using True by (simp split: if_splits)
      moreover have "mp_ncpu s < min NCPU (mp_ncpu s + length (procs (e # E)))" using True by (simp add: procs)
      ultimately show ?thesis using numbered_step Cons.prems(2) True by simp
    next
      case False
      with cs(2) n3 show ?thesis using Cons.prems(3) by (auto simp: numbered_def split: if_splits)
    qed
    moreover have "entries_loop (length (e # E)) (length pre) ?m s =
      Inr (s\<lparr>mp_cpus := cs, mp_bootcpu := boot_index (mp_ncpu s) (mp_bootcpu s) (procs (e # E)), mp_ncpu := min NCPU (mp_ncpu s + length (procs (e # E)))\<rparr>)"
      unfolding step cs(1) n3 n2 procs boot_index.simps by simp
    ultimately show ?thesis by blast
  next
    assume other: "t \<in> {MPBUS, MPIOAPIC, MPIOINTR, MPLINTR} \<and> length r = 7"
    then have "t \<noteq> MPPROC" by (auto simp: MPPROC_def MPBUS_def MPIOAPIC_def MPIOINTR_def MPLINTR_def)
    moreover have "length (pre @ e) = length pre + 8" using other by (simp add: e(1))
    ultimately have "entries_loop (length (e # E)) (length pre) ?m s = entries_loop (length E) (length (pre @ e)) ((pre @ e) @ concat E @ rest) s"
      unfolding after[symmetric] using ty other by auto
    moreover have "procs (e # E) = procs E" using \<open>t \<noteq> MPPROC\<close> by (simp add: procs_def e(1))
    ultimately show ?thesis using Cons.IH[OF E Cons.prems(2,3), of "pre @ e"] by simp
  qed
qed

text \<open>A table at \<open>conf\<close> that \<open>mpconfig\<close> accepted, with its entries, and one processor, number \<open>k\<close>, that booted.\<close>

definition table_at :: "u8 list \<Rightarrow> nat \<Rightarrow> nat \<Rightarrow> u32 \<Rightarrow> u8 list list \<Rightarrow> bool" where
  "table_at m mp conf la E \<longleftrightarrow> mpconfig m = Inr (Some (mp, conf)) \<and> rd32 m (conf_lapicaddr conf) = Inr la \<and>
     rd16 m (conf_entry conf) = Inr (of_nat (length E)) \<and> length E < 2 ^ 16 \<and> (\<forall>e \<in> set E. entry_ok e) \<and>
     (\<exists>pre rest. m = pre @ concat E @ rest \<and> length pre = conf_entries conf) \<and> mp_imcrp mp < length m"

definition boots :: "nat \<Rightarrow> u8 list list \<Rightarrow> bool" where
  "boots k ps \<longleftrightarrow> k < length ps \<and> (\<forall>i < length ps. boot_flag (ps ! i) \<longleftrightarrow> i = k)"

text \<open>
  C36. \<open>mp_init\<close> on a table it accepts: \<open>ncpu\<close> is the number of processors, at most 8, the entries of \<open>cpus\<close> before \<open>ncpu\<close> have their index
  as identifier, and \<open>bootcpu\<close> is the processor the table says booted, which alone is started. But when this one is not among the
  first 8, \<open>bootcpu\<close> is one past the end of \<open>cpus\<close>, and the last line writes there.
\<close>

theorem mp_init_fills_cpus:
  assumes "table_at m mp conf la E" "boots k (procs E)" "length (mp_cpus s) = NCPU" "mp_ncpu s = 0"
  shows "if k < NCPU
    then \<exists>s'. mp_init m port s = Inr s' \<and> mp_ismp s' \<and> mp_lapicaddr s' = la \<and> mp_ncpu s' = min NCPU (length (procs E)) \<and> mp_bootcpu s' = k \<and>
      length (mp_cpus s') = NCPU \<and> (\<forall>j < mp_ncpu s'. cpu_id (mp_cpus s' ! j) = of_nat j) \<and>
      (\<forall>j < NCPU. cpu_state (mp_cpus s' ! j) = (if j = k then Cpu_started else cpu_state (mp_cpus s ! j)))
    else mp_init m port s = Inl OutOfBounds"
proof -
  obtain pre rest where m: "m = pre @ concat E @ rest" "length pre = conf_entries conf" using assms(1) by (auto simp: table_at_def)
  let ?s = "s\<lparr>mp_bootcpu := 0, mp_ismp := True, mp_lapicaddr := la\<rparr>"
  let ?n = "min NCPU (length (procs E))"
  from entries_loop_table[of E ?s pre rest] assms obtain cs where
    cs: "entries_loop (length E) (conf_entries conf) m ?s =
      Inr (?s\<lparr>mp_cpus := cs, mp_bootcpu := boot_index 0 0 (procs E), mp_ncpu := ?n\<rparr>)" "numbered 0 ?n (mp_cpus s) cs"
    by (auto simp: table_at_def m)
  have boot: "boot_index 0 0 (procs E) = min NCPU k" using boot_index_one[of 0 k "procs E" 0] assms(2) by (simp add: boots_def)
  have len: "length cs = NCPU" using cs(2) assms(3) by (simp add: numbered_def)
  have entry: "unat (of_nat (length E) :: u16) = length E"
    using assms(1) by (simp add: table_at_def unat_of_nat)
  let ?t = "?s\<lparr>mp_cpus := cs, mp_bootcpu := min NCPU k, mp_ncpu := ?n\<rparr>"
  have init: "mp_init m port s = bindE (rd cs (min NCPU k)) (\<lambda>cpu.
      bindE (rd m (mp_imcrp mp)) (\<lambda>imcrp. let t = ?t\<lparr>mp_cpus := cs[min NCPU k := cpu\<lparr>cpu_state := Cpu_started\<rparr>]\<rparr> in
        Inr (if imcrp \<noteq> 0 then t\<lparr>mp_ports := mp_ports t @ [(0x22, 0x70), (0x23, port OR 1)]\<rparr> else t)))"
    using assms(1) cs(1) entry boot by (simp add: table_at_def mp_init_def Let_def cong: if_cong)
  show ?thesis
  proof (cases "k < NCPU")
    case True
    let ?cs = "cs[k := (cs ! k)\<lparr>cpu_state := Cpu_started\<rparr>]"
    let ?t = "?t\<lparr>mp_cpus := ?cs\<rparr>"
    have "min NCPU k = k" "rd cs k = Inr (cs ! k)" "rd m (mp_imcrp mp) = Inr (m ! mp_imcrp mp)"
      using True len assms(1) by (auto simp: table_at_def rd_def)
    note this[simp]
    have "mp_init m port s = Inr (if m ! mp_imcrp mp \<noteq> 0 then ?t\<lparr>mp_ports := mp_ports ?t @ [(0x22, 0x70), (0x23, port OR 1)]\<rparr> else ?t)"
      unfolding init by (simp add: Let_def cong: if_cong)
    moreover have "\<forall>j < ?n. cpu_id (?cs ! j) = of_nat j" using cs(2) assms(3) len True by (auto simp: numbered_def nth_list_update)
    moreover have "\<forall>j < NCPU. cpu_state (?cs ! j) = (if j = k then Cpu_started else cpu_state (mp_cpus s ! j))"
      using cs(2) assms(3) len True by (auto simp: numbered_def nth_list_update)
    ultimately show ?thesis using True len by (cases "m ! mp_imcrp mp \<noteq> 0") simp_all
  next
    case False
    then show ?thesis using init len by (simp add: rd_def min_def)
  qed
qed

text \<open>Reading at the end of a prefix.\<close>

lemma rd_at: "rd (pre @ b # rest) (length pre) = Inr b"
  by (simp add: rd_def)

lemma sum_from_at:
  "0 \<le> acc \<Longrightarrow> acc + 256 * int (length bs) < 2 ^ 31 \<Longrightarrow>
   sum_from (length bs) (length pre) (pre @ bs @ rest) acc = Inr (word_of_int (acc + sum_list (map uint bs)))"
proof (induction bs arbitrary: pre acc)
  case (Cons b bs)
  have b: "0 \<le> uint b" "uint b < 256" using uint_lt2p[of b] by simp_all
  then have "0 \<le> acc + uint b" "acc + uint b < 2 ^ 31" using Cons.prems by simp_all
  then have "in_i32 (acc + uint b)" by (simp add: in_i32_def)
  with Cons.IH[of "acc + uint b" "pre @ [b]"] Cons.prems b show ?case
    by (simp add: rd_at algebra_simps)
qed simp

lemma same_bytes_at: "same_bytes cs (length pre) (pre @ cs @ rest) = Inr True"
proof (induction cs arbitrary: pre)
  case (Cons c cs)
  from Cons.IH[of "pre @ [c]"] show ?case by (simp add: rd_at)
qed simp

text \<open>A machine with one processor.\<close>

definition ex_mp :: "u8 list" where "ex_mp = [95, 77, 80, 95, 16, 5, 0, 0, 1, 4, 139, 0, 0, 0, 0, 0]"

definition ex_proc :: "u8 list" where "ex_proc = [0, 0, 20, 3] @ replicate 16 0"

definition ex_conf :: "u8 list" where
  "ex_conf = [80, 67, 77, 80, 64, 0, 4, 150] @ replicate 26 0 @ [1, 0, 0, 0, 0xE0, 0xFE, 0, 0, 0, 0]"

definition ex_low :: "u8 list" where "ex_low = replicate 0x40E 0 @ [0x50, 0] @ replicate 0xF0 0"

definition ex_memory :: "u8 list" where "ex_memory = ex_low @ ex_mp @ ex_conf @ ex_proc @ replicate 8192 0"

lemma ex_lengths: "length ex_low = 0x500" "length ex_mp = 16" "length ex_conf = 44" "length ex_proc = 20" "length ex_memory = 9552"
  by (simp_all add: ex_low_def ex_mp_def ex_conf_def ex_proc_def ex_memory_def)

lemma ex_bytes:
  "a < 44 \<Longrightarrow> rd ex_memory (0x510 + a) = Inr (ex_conf ! a)" "a < 16 \<Longrightarrow> rd ex_memory (0x500 + a) = Inr (ex_mp ! a)"
  "a < 0x500 \<Longrightarrow> rd ex_memory a = Inr (ex_low ! a)"
  by (simp_all add: ex_memory_def rd_def nth_append ex_lengths)

lemma ex_sums: "mp_sum 0x500 16 ex_memory = Inr 0" "mp_sum 0x510 64 ex_memory = Inr 0" "mp_sum 0x550 0 ex_memory = Inr 0"
proof -
  have "sum_from (length ex_mp) (length ex_low) (ex_low @ ex_mp @ (ex_conf @ ex_proc @ replicate 8192 0)) 0 = Inr (word_of_int (0 + sum_list (map uint ex_mp)))"
    by (rule sum_from_at) (simp_all add: ex_lengths)
  then show "mp_sum 0x500 16 ex_memory = Inr 0"
    unfolding mp_sum_def ex_memory_def ex_lengths by (simp add: ex_mp_def)
  have "sum_from (length (ex_conf @ ex_proc)) (length (ex_low @ ex_mp)) ((ex_low @ ex_mp) @ (ex_conf @ ex_proc) @ replicate 8192 0) 0
      = Inr (word_of_int (0 + sum_list (map uint (ex_conf @ ex_proc))))"
    by (rule sum_from_at) (simp_all add: ex_lengths)
  then show "mp_sum 0x510 64 ex_memory = Inr 0"
    unfolding mp_sum_def ex_memory_def by (simp add: ex_lengths) (simp add: ex_conf_def ex_proc_def sum_list_replicate)
qed (simp add: mp_sum_def)

lemma ex_signatures: "same_bytes MP_SIG 0x500 ex_memory = Inr True" "same_bytes PCMP_SIG 0x510 ex_memory = Inr True"
proof -
  have "ex_memory = ex_low @ MP_SIG @ drop 4 (ex_mp @ ex_conf @ ex_proc @ replicate 8192 0)"
    by (simp add: ex_memory_def ex_mp_def MP_SIG_def)
  then show "same_bytes MP_SIG 0x500 ex_memory = Inr True" by (metis same_bytes_at ex_lengths(1))
  have "ex_memory = (ex_low @ ex_mp) @ PCMP_SIG @ drop 4 (ex_conf @ ex_proc @ replicate 8192 0)"
    by (simp add: ex_memory_def ex_conf_def PCMP_SIG_def)
  moreover have "length (ex_low @ ex_mp) = 0x510" by (simp add: ex_lengths)
  ultimately show "same_bytes PCMP_SIG 0x510 ex_memory = Inr True" by (metis same_bytes_at)
qed

lemma ex_fields:
  "rd16 ex_memory (0x400 + 0x0E) = Inr 0x50" "rd32 ex_memory (mp_physaddr 0x500) = Inr 0x510" "rd ex_memory (mp_type 0x500) = Inr 0"
  "rd16 ex_memory (conf_length 0x510) = Inr 64" "rd ex_memory (conf_version 0x510) = Inr 4" "rd16 ex_memory (conf_xlength 0x510) = Inr 0"
  "rd ex_memory (conf_xchecksum 0x510) = Inr 0" "rd16 ex_memory (conf_entry 0x510) = Inr 1" "rd32 ex_memory (conf_lapicaddr 0x510) = Inr 0xFEE00000"
  using ex_bytes(3)[of "0x40E"] ex_bytes(3)[of "0x40F"] ex_bytes(2)[of 4] ex_bytes(2)[of 5] ex_bytes(2)[of 6] ex_bytes(2)[of 7] ex_bytes(2)[of 11]
    ex_bytes(1)[of 4] ex_bytes(1)[of 5] ex_bytes(1)[of 6] ex_bytes(1)[of 40] ex_bytes(1)[of 41] ex_bytes(1)[of 42] ex_bytes(1)[of 34] ex_bytes(1)[of 35]
    ex_bytes(1)[of 36] ex_bytes(1)[of 37] ex_bytes(1)[of 38] ex_bytes(1)[of 39]
  by (simp_all add: rd16_def rd32_def mp_physaddr_def mp_type_def conf_length_def conf_version_def conf_xlength_def conf_xchecksum_def
      conf_entry_def conf_lapicaddr_def ex_low_def ex_mp_def ex_conf_def nth_append)

lemma ex_found: "mpconfig ex_memory = Inr (Some (0x500, 0x510))"
proof -
  have "mpsearch_from 0x500 0x900 ex_memory = Inr (Some 0x500)"
    by (subst mpsearch_from.simps) (simp add: ex_signatures ex_sums)
  then have "mpsearch ex_memory = Inr (Some 0x500)"
    using ex_fields(1) by (simp add: mpsearch_def mpsearch1_def kaddr_def ex_lengths)
  then show ?thesis by (simp add: mpconfig_def ex_fields ex_signatures ex_sums kaddr_def ex_lengths)
qed

definition ex_mpstate :: mpstate where
  "ex_mpstate = \<lparr>mp_cpus = replicate NCPU \<lparr>cpu_id = 0, cpu_state = Cpu_unused\<rparr>, mp_bootcpu = 0, mp_ismp = False, mp_ncpu = 0,
     mp_lapicaddr = 0, mp_ports = []\<rparr>"

theorem mp_init_fills_cpus_witness:
  "\<exists>s'. mp_init ex_memory 0 ex_mpstate = Inr s' \<and> mp_ismp s' \<and> mp_lapicaddr s' = 0xFEE00000 \<and> mp_ncpu s' = 1 \<and> mp_bootcpu s' = 0 \<and>
    cpu_id (mp_cpus s' ! 0) = 0 \<and> cpu_state (mp_cpus s' ! 0) = Cpu_started"
proof -
  have proc: "procs [ex_proc] = [ex_proc]" "boot_flag ex_proc" "entry_ok ex_proc"
    by (simp_all add: procs_def ex_proc_def boot_flag_def entry_ok_def MPPROC_def MPPROC_BOOT_def)
  have "ex_memory = (ex_low @ ex_mp @ ex_conf) @ concat [ex_proc] @ replicate 8192 0" by (simp add: ex_memory_def)
  moreover have "length (ex_low @ ex_mp @ ex_conf) = conf_entries 0x510" by (simp add: ex_lengths conf_entries_def)
  ultimately have tab: "table_at ex_memory 0x500 0x510 0xFEE00000 [ex_proc]"
    using proc by (auto simp: table_at_def ex_found ex_fields ex_lengths mp_imcrp_def simp del: append_assoc)
  have boots: "boots 0 (procs [ex_proc])" using proc by (simp add: boots_def)
  have "length (mp_cpus ex_mpstate) = NCPU" "mp_ncpu ex_mpstate = 0" by (simp_all add: ex_mpstate_def)
  from mp_init_fills_cpus[OF tab boots this, where port = 0] show ?thesis
    by (simp add: proc NCPU_def) force
qed

end
