(* ===== verification/Spinlock.thy ===== *)
theory Spinlock
  imports Prelude
begin

text \<open>
  The spin lock of JOS (\<open>os_final_project/code/kern/spinlock.c\<close>), with \<open>DEBUG_SPINLOCK\<close>, and any number of processors that
  acquire and release it for ever. A step is one access to the lock by one processor, so every interleaving of the code
  is a list of processors. The call stack that is recorded for messages is left out.
\<close>

record spinlock =
  locked :: u32
  lk_cpu :: "nat option"

text \<open>Where a processor is: outside, in \<open>spin_lock\<close>, with the lock, and in \<open>spin_unlock\<close>.\<close>

datatype lock_pc =
    Outside
  | Lock_holding1 | Lock_holding2 | Lock_xchg | Lock_record
  | Inside
  | Unlock_holding1 | Unlock_holding2 | Unlock_clear | Unlock_xchg

definition spin_initlock :: spinlock where "spin_initlock = \<lparr>locked = 0, lk_cpu = None\<rparr>"

text \<open>\<open>holding\<close> reads \<open>locked\<close>, and \<open>cpu\<close> only if the lock is taken.\<close>

definition holding1 :: "spinlock \<Rightarrow> lock_pc \<Rightarrow> lock_pc c \<Rightarrow> lock_pc c" where
  "holding1 lk yes no = (if locked lk \<noteq> 0 then Inr yes else no)"

definition holding2 :: "nat \<Rightarrow> spinlock \<Rightarrow> lock_pc c \<Rightarrow> lock_pc c \<Rightarrow> lock_pc c" where
  "holding2 me lk yes no = (if lk_cpu lk = Some me then yes else no)"

definition spin_lock_step :: "nat \<Rightarrow> lock_pc \<Rightarrow> spinlock \<Rightarrow> (lock_pc \<times> spinlock) c" where
  "spin_lock_step me pc lk = (case pc of
     Lock_holding1 \<Rightarrow> bindE (holding1 lk Lock_holding2 (Inr Lock_xchg)) (\<lambda>pc. Inr (pc, lk))
   | Lock_holding2 \<Rightarrow> bindE (holding2 me lk (Inl Panic) (Inr Lock_xchg)) (\<lambda>pc. Inr (pc, lk))
   | Lock_xchg \<Rightarrow> Inr (if locked lk \<noteq> 0 then Lock_xchg else Lock_record, lk\<lparr>locked := 1\<rparr>)
   | Lock_record \<Rightarrow> Inr (Inside, lk\<lparr>lk_cpu := Some me\<rparr>)
   | _ \<Rightarrow> Inr (pc, lk))"

definition spin_unlock_step :: "nat \<Rightarrow> lock_pc \<Rightarrow> spinlock \<Rightarrow> (lock_pc \<times> spinlock) c" where
  "spin_unlock_step me pc lk = (case pc of
     Unlock_holding1 \<Rightarrow> bindE (holding1 lk Unlock_holding2 (Inl Panic)) (\<lambda>pc. Inr (pc, lk))
   | Unlock_holding2 \<Rightarrow> bindE (holding2 me lk (Inr Unlock_clear) (Inl Panic)) (\<lambda>pc. Inr (pc, lk))
   | Unlock_clear \<Rightarrow> Inr (Unlock_xchg, lk\<lparr>lk_cpu := None\<rparr>)
   | Unlock_xchg \<Rightarrow> Inr (Outside, lk\<lparr>locked := 0\<rparr>)
   | _ \<Rightarrow> Inr (pc, lk))"

text \<open>A step of processor \<open>me\<close>; it calls \<open>spin_lock\<close> when it is outside and \<open>spin_unlock\<close> when it is inside.\<close>

definition cpu_step :: "nat \<Rightarrow> lock_pc \<Rightarrow> spinlock \<Rightarrow> (lock_pc \<times> spinlock) c" where
  "cpu_step me pc lk =
     (if pc = Outside then Inr (Lock_holding1, lk)
      else if pc = Inside then Inr (Unlock_holding1, lk)
      else if pc \<in> {Lock_holding1, Lock_holding2, Lock_xchg, Lock_record} then spin_lock_step me pc lk
      else spin_unlock_step me pc lk)"

text \<open>The processors \<open>sched\<close>, one after another, out of those with program counters \<open>pcs\<close>.\<close>

fun spin_run :: "nat list \<Rightarrow> lock_pc list \<times> spinlock \<Rightarrow> (lock_pc list \<times> spinlock) c" where
  "spin_run [] s = Inr s"
| "spin_run (me # sched) (pcs, lk) = bindE (rd pcs me) (\<lambda>pc.
     bindE (cpu_step me pc lk) (\<lambda>(pc, lk). spin_run sched (pcs[me := pc], lk)))"

section \<open>Mutual exclusion\<close>

text \<open>Between the two \<open>xchg\<close>, and with \<open>cpu\<close> recorded.\<close>

definition owns :: "lock_pc \<Rightarrow> bool" where
  "owns pc \<longleftrightarrow> pc \<in> {Lock_record, Inside, Unlock_holding1, Unlock_holding2, Unlock_clear, Unlock_xchg}"

definition recorded :: "lock_pc \<Rightarrow> bool" where
  "recorded pc \<longleftrightarrow> pc \<in> {Inside, Unlock_holding1, Unlock_holding2, Unlock_clear}"

definition lock_inv :: "lock_pc list \<times> spinlock \<Rightarrow> bool" where
  "lock_inv s = (case s of (pcs, lk) \<Rightarrow>
     (\<forall>i < length pcs. \<forall>j < length pcs. owns (pcs ! i) \<longrightarrow> owns (pcs ! j) \<longrightarrow> i = j) \<and>
     (locked lk \<noteq> 0 \<longleftrightarrow> (\<exists>i < length pcs. owns (pcs ! i))) \<and>
     (\<forall>i < length pcs. lk_cpu lk = Some i \<longleftrightarrow> recorded (pcs ! i)))"

lemma recorded_owns: "recorded pc \<Longrightarrow> owns pc"
  by (auto simp: recorded_def owns_def)

text \<open>A processor that neither takes nor releases the lock.\<close>

lemma lock_inv_same:
  assumes "lock_inv (pcs, lk)" "me < length pcs" "owns pc = owns (pcs ! me)" "recorded pc = recorded (pcs ! me)"
  shows "lock_inv (pcs[me := pc], lk)"
  using assms by (auto simp: lock_inv_def nth_list_update)

lemma lock_inv_acquire:
  assumes "lock_inv (pcs, lk)" "me < length pcs" "locked lk = 0"
  shows "lock_inv (pcs[me := Lock_record], lk\<lparr>locked := 1\<rparr>)"
proof -
  have free: "\<not> owns (pcs ! i)" if "i < length pcs" for i using assms(1,3) that by (auto simp: lock_inv_def)
  then have "\<not> recorded (pcs ! i)" if "i < length pcs" for i using recorded_owns that by blast
  with free assms show ?thesis by (auto simp: lock_inv_def nth_list_update owns_def recorded_def)
qed

lemma lock_inv_only:
  assumes "lock_inv (pcs, lk)" "me < length pcs" "owns (pcs ! me)" "i < length pcs" "i \<noteq> me"
  shows "\<not> owns (pcs ! i)" "\<not> recorded (pcs ! i)"
  using assms recorded_owns by (auto simp: lock_inv_def)

lemma lock_inv_record:
  assumes "lock_inv (pcs, lk)" "me < length pcs" "pcs ! me = Lock_record"
  shows "lock_inv (pcs[me := Inside], lk\<lparr>lk_cpu := Some me\<rparr>)"
proof -
  have me: "owns (pcs ! me)" "owns Inside" "recorded Inside" using assms(3) by (simp_all add: owns_def recorded_def)
  note only = lock_inv_only[OF assms(1,2) me(1)]
  have "locked lk \<noteq> 0" using assms(1,2) me(1) by (auto simp: lock_inv_def)
  with only me assms(2) show ?thesis by (auto simp: lock_inv_def nth_list_update)
qed

lemma lock_inv_clear:
  assumes "lock_inv (pcs, lk)" "me < length pcs" "pcs ! me = Unlock_clear"
  shows "lock_inv (pcs[me := Unlock_xchg], lk\<lparr>lk_cpu := None\<rparr>)"
proof -
  have me: "owns (pcs ! me)" "owns Unlock_xchg" "\<not> recorded Unlock_xchg" using assms(3) by (simp_all add: owns_def recorded_def)
  note only = lock_inv_only[OF assms(1,2) me(1)]
  have "locked lk \<noteq> 0" using assms(1,2) me(1) by (auto simp: lock_inv_def)
  with only me assms(2) show ?thesis by (auto simp: lock_inv_def nth_list_update)
qed

lemma lock_inv_release:
  assumes "lock_inv (pcs, lk)" "me < length pcs" "pcs ! me = Unlock_xchg"
  shows "lock_inv (pcs[me := Outside], lk\<lparr>locked := 0\<rparr>)"
proof -
  have me: "owns (pcs ! me)" "\<not> recorded (pcs ! me)" "\<not> owns Outside" "\<not> recorded Outside"
    using assms(3) by (simp_all add: owns_def recorded_def)
  note only = lock_inv_only[OF assms(1,2) me(1)]
  have "lk_cpu lk = Some i \<longleftrightarrow> recorded (pcs ! i)" if "i < length pcs" for i using assms(1) that by (auto simp: lock_inv_def)
  with only me assms(2) show ?thesis by (auto simp: lock_inv_def nth_list_update)
qed

lemma owns_holds:
  assumes "lock_inv (pcs, lk)" "me < length pcs"
  shows "recorded (pcs ! me) \<longleftrightarrow> lk_cpu lk = Some me" "owns (pcs ! me) \<Longrightarrow> locked lk \<noteq> 0"
  using assms by (auto simp: lock_inv_def)

lemma cpu_step_keeps:
  assumes "lock_inv (pcs, lk)" "me < length pcs"
  shows "\<exists>pc lk'. cpu_step me (pcs ! me) lk = Inr (pc, lk') \<and> lock_inv (pcs[me := pc], lk')"
proof -
  note same = lock_inv_same[OF assms] and step = cpu_step_def spin_lock_step_def spin_unlock_step_def holding1_def holding2_def
    and pcs = owns_def recorded_def
  note holds = owns_holds[OF assms]
  show ?thesis
  proof (cases "pcs ! me")
    case Outside
    then show ?thesis using same[of Lock_holding1] by (simp add: step pcs)
  next
    case Lock_holding1
    then show ?thesis using same[of Lock_holding2] same[of Lock_xchg] by (simp add: step pcs)
  next
    case Lock_holding2
    then show ?thesis using same[of Lock_xchg] holds(1) by (simp add: step pcs)
  next
    case Lock_xchg
    show ?thesis
    proof (cases "locked lk = 0")
      case True
      then show ?thesis using Lock_xchg lock_inv_acquire[OF assms] by (simp add: step)
    next
      case False
      have "lock_inv (pcs[me := Lock_xchg], lk\<lparr>locked := 1\<rparr>)"
        using same[of Lock_xchg] Lock_xchg False by (simp add: lock_inv_def)
      then show ?thesis using Lock_xchg False by (simp add: step)
    qed
  next
    case Lock_record
    then show ?thesis using lock_inv_record[OF assms] by (simp add: step)
  next
    case Inside
    then show ?thesis using same[of Unlock_holding1] by (simp add: step pcs)
  next
    case Unlock_holding1
    then show ?thesis using same[of Unlock_holding2] holds(2) by (simp add: step pcs)
  next
    case Unlock_holding2
    then show ?thesis using same[of Unlock_clear] holds(1) by (simp add: step pcs)
  next
    case Unlock_clear
    then show ?thesis using lock_inv_clear[OF assms] by (simp add: step)
  next
    case Unlock_xchg
    then show ?thesis using lock_inv_release[OF assms] by (simp add: step)
  qed
qed

lemma spin_run_keeps:
  "lock_inv s \<Longrightarrow> \<forall>i \<in> set sched. i < length (fst s) \<Longrightarrow> \<exists>s'. spin_run sched s = Inr s' \<and> lock_inv s' \<and> length (fst s') = length (fst s)"
proof (induction sched arbitrary: s)
  case (Cons me sched)
  obtain pcs lk where s: "s = (pcs, lk)" by (cases s)
  from cpu_step_keeps[of pcs lk me] Cons.prems obtain pc lk'
    where "cpu_step me (pcs ! me) lk = Inr (pc, lk')" "lock_inv (pcs[me := pc], lk')" "me < length pcs" by (auto simp: s)
  with Cons.IH[of "(pcs[me := pc], lk')"] Cons.prems(2) show ?case by (auto simp: s rd_def)
qed simp

text \<open>
  C37. Whatever the order in which the processors run, the lock is never held by two of them: no two are between their \<open>xchg\<close> that took
  it and the one that gives it back, and none of the checks of \<open>spin_lock\<close> and \<open>spin_unlock\<close> panics.
\<close>

theorem lock_excludes:
  assumes "\<forall>me \<in> set sched. me < n"
  shows "\<exists>pcs lk. spin_run sched (replicate n Outside, spin_initlock) = Inr (pcs, lk) \<and> length pcs = n \<and>
    (\<forall>i < n. \<forall>j < n. owns (pcs ! i) \<longrightarrow> owns (pcs ! j) \<longrightarrow> i = j)"
proof -
  have "lock_inv (replicate n Outside, spin_initlock)"
    by (auto simp: lock_inv_def spin_initlock_def owns_def recorded_def)
  from spin_run_keeps[OF this, of sched] assms show ?thesis by (auto simp: lock_inv_def)
qed

theorem lock_excludes_witness:
  "\<exists>pcs lk. spin_run [0, 1, 0, 1, 0, 1, 1, 0] (replicate 2 Outside, spin_initlock) = Inr (pcs, lk) \<and> length pcs = 2 \<and>
    (\<forall>i < 2. \<forall>j < 2. owns (pcs ! i) \<longrightarrow> owns (pcs ! j) \<longrightarrow> i = j)"
  by (rule lock_excludes) simp

end
