(* ===== verification/EntryPgdir.thy ===== *)
theory EntryPgdir
  imports JosProofs
begin

text \<open>
  The page tables with which the JOS kernel starts (\<open>os_final_project/code/kern/entrypgdir.c\<close>). The 1,024 entries the
  source writes out are the elements of a list; \<open>table\<close> is the virtual address the linker gives to \<open>entry_pgtable\<close>.
\<close>

definition NPTENTRIES :: nat where "NPTENTRIES = 1024"
definition NPDENTRIES :: nat where "NPDENTRIES = 1024"
definition PDXSHIFT :: nat where "PDXSHIFT = 22"

definition entry_pgtable :: "u32 list" where
  "entry_pgtable = map (\<lambda>i. of_nat i * 0x1000 OR PTE_P OR PTE_W) [0..<NPTENTRIES]"

definition entry_pgdir :: "u32 \<Rightarrow> u32 list" where
  "entry_pgdir table = (replicate NPDENTRIES 0)
     [0 := (table - KERNBASE) + PTE_P, unat (drop_bit PDXSHIFT KERNBASE) := (table - KERNBASE) + PTE_P + PTE_W]"

section \<open>What the processor does with them\<close>

text \<open>The physical address of a virtual one, and whether it may be written, when the directory is at work.\<close>

definition mmu_translate :: "u32 \<Rightarrow> u32 \<Rightarrow> (u32 \<times> bool) option" where
  "mmu_translate table va =
     (let pde = entry_pgdir table ! PDX va; pte = entry_pgtable ! PTX va
      in if pde AND PTE_P \<noteq> 0 \<and> PTE_ADDR pde = table - KERNBASE \<and> pte AND PTE_P \<noteq> 0
         then Some (PTE_ADDR pte OR (va AND 0xFFF), pde AND pte AND PTE_W \<noteq> 0) else None)"

lemma masks: "(0xFFF :: u32) = mask 12" "(0x3FF :: u32) = mask 10" "(0x3FFFFF :: u32) = mask 22"
  by (simp_all add: mask_eq_exp_minus_1)

lemma PDX_div: "PDX va = unat va div 0x400000"
proof -
  have "unat (drop_bit 22 va) = unat va div 2 ^ 22" by (simp add: drop_bit_eq_div unat_div)
  moreover have "unat va < 2 ^ 32" using unsigned_less[of va, where 'a = nat] by simp
  then have "unat va div 2 ^ 22 < 2 ^ 10" by (simp add: less_mult_imp_div_less)
  moreover have "unat (drop_bit 22 va AND 0x3FF) = unat (drop_bit 22 va) mod 2 ^ 10"
  proof -
    have "drop_bit 22 va AND 0x3FF = take_bit 10 (drop_bit 22 va)" unfolding masks by (rule take_bit_eq_mask[symmetric])
    then show ?thesis by (simp add: unat_mod take_bit_eq_mod)
  qed
  ultimately show ?thesis by (simp add: PDX_def)
qed

lemma PTX_less: "PTX va < 1024"
proof -
  have "drop_bit 12 va AND 0x3FF \<le> 0x3FF" by (rule word_and_le1)
  then show ?thesis by (simp add: PTX_def word_le_nat_alt)
qed

lemma entry_pgtable_entry:
  "entry_pgtable ! PTX va = push_bit 12 (drop_bit 12 va AND mask 10) OR PTE_P OR PTE_W"
proof -
  have "of_nat (PTX va) = drop_bit 12 va AND mask 10" unfolding masks(2)[symmetric] by (simp add: PTX_def)
  moreover have "push_bit 12 w = w * 0x1000" for w :: u32 by (simp add: push_bit_eq_mult)
  ultimately show ?thesis using PTX_less[of va] by (simp only: entry_pgtable_def NPTENTRIES_def nth_map_upt) simp
qed

lemma small_bits: "bit PTE_P n \<longleftrightarrow> n = 0" "bit PTE_W n \<longleftrightarrow> n = 1"
proof -
  have p: "PTE_P = 2 ^ 0" "PTE_W = 2 ^ 1" by (simp_all add: PTE_P_def PTE_W_def)
  show "bit PTE_P n \<longleftrightarrow> n = 0" unfolding p(1) by (simp only: bit_simps) auto
  show "bit PTE_W n \<longleftrightarrow> n = 1" unfolding p(2) by (simp only: bit_simps) auto
qed

lemma entry_address: "PTE_ADDR (entry_pgtable ! PTX va) OR (va AND 0xFFF) = va AND 0x3FFFFF"
  unfolding masks entry_pgtable_entry
  by (rule bit_word_eqI) (auto simp: bit_simps PTE_ADDR_bit small_bits)

lemma entry_flags: "entry_pgtable ! PTX va AND PTE_P \<noteq> 0" "bit (entry_pgtable ! PTX va) 1"
proof -
  have "bit (entry_pgtable ! PTX va AND PTE_P) 0" unfolding entry_pgtable_entry by (simp add: bit_simps small_bits)
  then show "entry_pgtable ! PTX va AND PTE_P \<noteq> 0" by auto
  show "bit (entry_pgtable ! PTX va) 1" unfolding entry_pgtable_entry by (simp add: bit_simps small_bits)
qed

text \<open>Adding flags to the address of a page sets these bits.\<close>

lemma add_flags:
  assumes "a AND 0xFFF = 0"
  shows "a + PTE_P = a OR PTE_P" "a + PTE_P + PTE_W = a OR PTE_P OR PTE_W"
proof -
  have low: "\<not> bit a n" if "n < 12" for n
  proof -
    have "bit (a AND mask 12) n \<longleftrightarrow> bit a n" using that by (simp add: bit_simps)
    with assms show ?thesis unfolding masks by simp
  qed
  have low0: "\<not> bit a 0" "\<not> bit a (Suc 0)" using low[of 0] low[of 1] by simp_all
  have "a AND PTE_P = 0" by (rule bit_word_eqI) (use low0 in \<open>auto simp: bit_simps small_bits intro!: gr0I\<close>)
  then show P: "a + PTE_P = a OR PTE_P" by (simp add: disjunctive_add_eq_or)
  have "(a OR PTE_P) AND PTE_W = 0" by (rule bit_word_eqI) (use low0 in \<open>auto simp: bit_simps small_bits\<close>)
  then show "a + PTE_P + PTE_W = a OR PTE_P OR PTE_W" unfolding P by (simp add: disjunctive_add_eq_or or.assoc)
qed

lemma directory_entry:
  "i < 1024 \<Longrightarrow> entry_pgdir table ! i =
    (if i = 960 then table - KERNBASE + PTE_P + PTE_W else if i = 0 then table - KERNBASE + PTE_P else 0)"
  by (simp add: entry_pgdir_def NPDENTRIES_def KERNBASE_def PDXSHIFT_def nth_list_update)

text \<open>
  The tables the kernel starts with map what their comment says: the first 4 MB of virtual addresses and the first 4 MB above \<open>KERNBASE\<close>
  to the first 4 MB of physical memory, and nothing else; only the upper mapping can be written.
\<close>

theorem entry_tables_map_4MB:
  assumes "(table - KERNBASE) AND 0xFFF = 0"
  shows "mmu_translate table va =
    (if va < 0x400000 then Some (va, False)
     else if KERNBASE \<le> va \<and> va < KERNBASE + 0x400000 then Some (va - KERNBASE, True) else None)"
proof -
  let ?a = "table - KERNBASE" and ?e = "entry_pgtable ! PTX va"
  have bits: "bit ?a n \<Longrightarrow> 12 \<le> n" for n
  proof (rule ccontr)
    assume "bit ?a n" "\<not> 12 \<le> n"
    then have "bit (?a AND mask 12) n" by (simp add: bit_simps)
    with assms show False unfolding masks by simp
  qed
  have addr: "PTE_ADDR (?a OR PTE_P) = ?a" "PTE_ADDR (?a OR PTE_P OR PTE_W) = ?a"
    by (rule bit_word_eqI; use bits in \<open>auto simp: bit_simps PTE_ADDR_bit small_bits\<close>)+
  have present: "(?a OR PTE_P) AND PTE_P \<noteq> 0" "(?a OR PTE_P OR PTE_W) AND PTE_P \<noteq> 0"
  proof -
    have "bit ((?a OR PTE_P) AND PTE_P) 0" "bit ((?a OR PTE_P OR PTE_W) AND PTE_P) 0" by (simp_all add: bit_simps small_bits)
    then show "(?a OR PTE_P) AND PTE_P \<noteq> 0" "(?a OR PTE_P OR PTE_W) AND PTE_P \<noteq> 0" by auto
  qed
  have writable: "(?a OR PTE_P) AND ?e AND PTE_W = 0" "(?a OR PTE_P OR PTE_W) AND ?e AND PTE_W \<noteq> 0"
  proof -
    show "(?a OR PTE_P) AND ?e AND PTE_W = 0" by (rule bit_word_eqI) (use bits[of 1] in \<open>auto simp: bit_simps small_bits\<close>)
    have "bit ((?a OR PTE_P OR PTE_W) AND ?e AND PTE_W) 1" using entry_flags(2) by (simp add: bit_simps small_bits)
    then show "(?a OR PTE_P OR PTE_W) AND ?e AND PTE_W \<noteq> 0" by auto
  qed
  have less: "PDX va < 1024" unfolding PDX_div using unsigned_less[of va, where 'a = nat] by (simp add: less_mult_imp_div_less)
  have t: "mmu_translate table va = (if PDX va = 960 then Some (va AND 0x3FFFFF, True) else if PDX va = 0 then Some (va AND 0x3FFFFF, False) else None)"
    unfolding mmu_translate_def Let_def directory_entry[OF less] add_flags(2)[OF assms] unfolding add_flags(1)[OF assms]
    using addr present writable entry_flags(1) entry_address by simp
  have low: "va AND 0x3FFFFF = va mod 0x400000"
  proof -
    have "va AND mask 22 = take_bit 22 va" by (simp add: take_bit_eq_mask)
    then show ?thesis unfolding masks by (simp add: take_bit_eq_mod)
  qed
  have v: "unat va < 2 ^ 32" using unsigned_less[of va, where 'a = nat] by simp
  consider "unat va < 0x400000" | "0xF0000000 \<le> unat va" "unat va < 0xF0400000" | "0x400000 \<le> unat va" "unat va < 0xF0000000 \<or> 0xF0400000 \<le> unat va"
    by linarith
  then show ?thesis
  proof cases
    case 1
    then have "PDX va = 0" "va < 0x400000" by (simp_all add: PDX_div word_less_nat_alt)
    moreover have "va mod 0x400000 = va" using 1 by (simp add: word_arith_nat_mod)
    ultimately show ?thesis by (simp add: t low)
  next
    case 2
    then have "PDX va = 960" "\<not> va < 0x400000" "KERNBASE \<le> va" "va < KERNBASE + 0x400000"
      by (simp_all add: PDX_div word_less_nat_alt word_le_nat_alt KERNBASE_def)
    moreover have "va mod 0x400000 = va - KERNBASE"
    proof -
      have "unat (va - KERNBASE) = unat va - 0xF0000000" using 2 by (simp add: unat_sub word_le_nat_alt KERNBASE_def)
      moreover have "unat va mod 0x400000 = unat va - 0xF0000000"
      proof -
        have "unat va = (unat va - 0xF0000000) + 960 * 0x400000" using 2 by simp
        then have "unat va mod 0x400000 = (unat va - 0xF0000000) mod 0x400000" by (metis mod_mult_self1)
        also have "\<dots> = unat va - 0xF0000000" by (rule mod_less) (use 2 in linarith)
        finally show ?thesis .
      qed
      ultimately have "unat (va mod 0x400000) = unat (va - KERNBASE)" by (simp add: unat_mod)
      then show ?thesis by (rule unsigned_word_eqI)
    qed
    ultimately show ?thesis by (simp add: t low)
  next
    case 3
    then have "PDX va \<noteq> 0" "PDX va \<noteq> 960" "\<not> va < 0x400000" "\<not> (KERNBASE \<le> va \<and> va < KERNBASE + 0x400000)"
      using v by (auto simp: PDX_div word_less_nat_alt word_le_nat_alt KERNBASE_def)
    then show ?thesis by (simp add: t)
  qed
qed

theorem entry_tables_map_4MB_witness: "mmu_translate 0xF0110000 0xF0100010 = Some (0x100010, True)"
proof -
  have "(0xF0110000 - KERNBASE) AND 0xFFF = (0 :: u32)" by (simp add: KERNBASE_def)
  from entry_tables_map_4MB[OF this, of "0xF0100010"] show ?thesis by (simp add: KERNBASE_def)
qed

end
