(* ===== verification/Monitor.thy ===== *)
theory Monitor
  imports KDebug JosPages
begin

text \<open>
  The kernel monitor of JOS (\<open>os_final_project/code/kern/monitor.c\<close>): the line is cut into arguments in place, in memory
  as in \<open>CString\<close>, and the commands work on the state of the kernel as in \<open>Jos\<close>. What a command prints is a list of the
  values it prints.
\<close>

section \<open>The command line\<close>

definition MON_WHITESPACE :: "u8 list" where "MON_WHITESPACE = [9, 13, 10, 32]"
definition MON_MAXARGS :: nat where "MON_MAXARGS = 16"

definition mon_white :: "u8 \<Rightarrow> bool" where
  "mon_white c \<longleftrightarrow> (case strchr (MON_WHITESPACE @ [0]) 0 c of Inr (Some _) \<Rightarrow> True | _ \<Rightarrow> False)"

function gobble :: "u8 list \<Rightarrow> nat \<Rightarrow> (nat \<times> u8 list) c" where
  "gobble m buf = bindE (rd m buf) (\<lambda>c.
     if c \<noteq> 0 \<and> mon_white c then bindE (wr m buf 0) (\<lambda>m. gobble m (buf + 1)) else Inr (buf, m))"
  by pat_completeness auto
termination by (relation "measure (\<lambda>(m, buf). length m - buf)") (auto simp: rd_Inr_iff wr_Inr_iff)

function scan_arg :: "u8 list \<Rightarrow> nat \<Rightarrow> nat c" where
  "scan_arg m buf = bindE (rd m buf) (\<lambda>c. if c \<noteq> 0 \<and> \<not> mon_white c then scan_arg m (buf + 1) else Inr buf)"
  by pat_completeness auto
termination by (relation "measure (\<lambda>(m, buf). length m - buf)") (auto simp: rd_Inr_iff)

declare gobble.simps [simp del] scan_arg.simps [simp del]

text \<open>The arguments so far are \<open>argv\<close>; \<open>None\<close> when there are too many. A round takes at least one byte.\<close>

fun mon_args :: "nat \<Rightarrow> nat \<Rightarrow> nat list \<Rightarrow> u8 list \<Rightarrow> (nat list option \<times> u8 list) c" where
  "mon_args 0 buf argv m = Inl Diverges"
| "mon_args (Suc k) buf argv m =
     bindE (gobble m buf) (\<lambda>(buf, m). bindE (rd m buf) (\<lambda>c.
     if c = 0 then Inr (Some argv, m)
     else if length argv = MON_MAXARGS - 1 then Inr (None, m)
     else bindE (scan_arg m buf) (\<lambda>stop. mon_args k stop (argv @ [buf]) m)))"

datatype mon_command = Mon_help | Mon_infokern | Mon_backtrace | Showmappings | Permset | Memdump | Mon_cont | Mon_step

definition commands :: "(u8 list \<times> mon_command) list" where
  "commands =
     [([104, 101, 108, 112], Mon_help), ([105, 110, 102, 111, 45, 107, 101, 114, 110], Mon_infokern),
      ([98, 97, 99, 107, 116, 114, 97, 99, 101], Mon_backtrace),
      ([115, 104, 111, 119, 109, 97, 112, 112, 105, 110, 103, 115], Showmappings),
      ([112, 101, 114, 109, 115, 101, 116], Permset), ([109, 101, 109, 100, 117, 109, 112], Memdump),
      ([99, 111, 110, 116], Mon_cont), ([115, 116, 101, 112], Mon_step)]"

text \<open>The names are constant strings, here after the memory.\<close>

fun find_command :: "(u8 list \<times> mon_command) list \<Rightarrow> u8 list \<Rightarrow> nat \<Rightarrow> mon_command option c" where
  "find_command [] m a = Inr None"
| "find_command ((name, cmd) # cs) m a =
     bindE (strcmp (m @ name @ [0]) a (length m)) (\<lambda>r. if r = 0 then Inr (Some cmd) else find_command cs m a)"

datatype mon_line = Mon_empty | Mon_too_many | Mon_unknown | Mon_run mon_command "nat list"

definition mon_runcmd :: "nat \<Rightarrow> u8 list \<Rightarrow> (mon_line \<times> u8 list) c" where
  "mon_runcmd buf m = bindE (mon_args (length m + 1) buf [] m) (\<lambda>(argv, m). case argv of
     None \<Rightarrow> Inr (Mon_too_many, m)
   | Some [] \<Rightarrow> Inr (Mon_empty, m)
   | Some (a # as) \<Rightarrow> bindE (find_command commands m a) (\<lambda>cmd.
       Inr (case cmd of None \<Rightarrow> Mon_unknown | Some cmd \<Rightarrow> Mon_run cmd (a # as), m)))"

section \<open>The commands\<close>

text \<open>\<open>for ( ; start <= end; start += d)\<close>, with at most \<open>k\<close> rounds.\<close>

fun for_range :: "nat \<Rightarrow> u32 \<Rightarrow> (u32 \<Rightarrow> 's \<Rightarrow> 's c) \<Rightarrow> u32 \<Rightarrow> u32 \<Rightarrow> 's \<Rightarrow> 's c" where
  "for_range 0 d body start stop s = Inl Diverges"
| "for_range (Suc k) d body start stop s =
     (if start \<le> stop then bindE (body start s) (for_range k d body (start + d) stop) else Inr s)"

definition PAGE_ROUNDS :: nat where "PAGE_ROUNDS = 2 ^ 20 + 1"
definition WORD_ROUNDS :: nat where "WORD_ROUNDS = 2 ^ 30 + 1"

text \<open>The two numbers of the arguments.\<close>

definition range_args :: "u8 list \<Rightarrow> nat list \<Rightarrow> (u32 \<times> u32) c" where
  "range_args m argv =
     bindE (rd argv 1) (\<lambda>a. bindE (strtol m a 0) (\<lambda>(start, _).
     bindE (rd argv 2) (\<lambda>b. bindE (strtol m b 0) (\<lambda>(stop, _). Inr (word_of_int start, word_of_int stop)))))"

text \<open>A page and where it is, if it is mapped. The formats do not take the colours, so what the code prints are these.\<close>

definition show_mapping :: "u32 \<Rightarrow> jos \<times> (u32 \<times> u32 option) list \<Rightarrow> (jos \<times> (u32 \<times> u32 option) list) c" where
  "show_mapping start = (\<lambda>(s, out).
     bindE (page_lookup (kern_pgdir s) start s) (\<lambda>(page, s).
     Inr (s, out @ [(start, map_option (\<lambda>(p, pte). page2pa p + (start AND (PGSIZE - 1))) page)])))"

definition showmappings :: "u8 list \<Rightarrow> nat list \<Rightarrow> jos \<Rightarrow> (jos \<times> (u32 \<times> u32 option) list) c" where
  "showmappings m argv s =
     (if length argv \<noteq> 3 then Inr (s, [])
      else bindE (range_args m argv) (\<lambda>(start, stop). for_range PAGE_ROUNDS PGSIZE show_mapping start stop (s, [])))"

text \<open>The permissions of a string of three letters, or \<open>None\<close>.\<close>

function perms_loop :: "u8 list \<Rightarrow> nat \<Rightarrow> u8 \<Rightarrow> nat \<Rightarrow> u32 \<Rightarrow> (u32 \<times> nat) option c" where
  "perms_loop m a next_perm num_perms perms =
     (if next_perm \<noteq> 0 \<and> num_perms < 3
      then bindE (rd m (a + num_perms)) (\<lambda>next_perm.
           if next_perm = 112 then perms_loop m a next_perm (num_perms + 1) (perms OR PTE_P)
           else if next_perm = 119 then perms_loop m a next_perm (num_perms + 1) (perms OR PTE_W)
           else if next_perm = 117 then perms_loop m a next_perm (num_perms + 1) (perms OR PTE_U)
           else Inr None)
      else Inr (Some (perms, num_perms)))"
  by pat_completeness auto
termination by (relation "measure (\<lambda>(m, a, c, n, p). 3 - n)") auto

declare perms_loop.simps [simp del]

definition old_perms :: "u32 \<Rightarrow> u8 list" where
  "old_perms pte = (if pte AND 1 \<noteq> 0 then [112] else []) @ (if pte AND 2 \<noteq> 0 then [119] else []) @ (if pte AND 4 \<noteq> 0 then [117] else [])"

definition set_perms :: "u32 \<Rightarrow> u32 \<Rightarrow> jos \<times> (u32 \<times> u8 list) list \<Rightarrow> (jos \<times> (u32 \<times> u8 list) list) c" where
  "set_perms perms start = (\<lambda>(s, out).
     bindE (pgdir_walk (kern_pgdir s) start False s) (\<lambda>(e, s). case e of
       None \<Rightarrow> Inr (s, out)
     | Some pte \<Rightarrow> let old = read_pte pte s
                   in Inr (write_pte pte (old AND NOT 0xFFF OR perms) s, out @ [(start, old_perms old)])))"

definition permset :: "u8 list \<Rightarrow> nat list \<Rightarrow> jos \<Rightarrow> (u8 list \<times> jos \<times> (u32 \<times> u8 list) list) c" where
  "permset m argv s =
     (if length argv \<noteq> 4 then Inr (m, s, [])
      else bindE (range_args m argv) (\<lambda>(start, stop).
           bindE (rd argv 3) (\<lambda>a. bindE (rd m a) (\<lambda>c.
           bindE (perms_loop m a c 0 0) (\<lambda>r. case r of
             None \<Rightarrow> Inr (m, s, [])
           | Some (perms, num_perms) \<Rightarrow>
               bindE (if num_perms = 3 then wr m (a + 3) 0 else Inr m) (\<lambda>m.
               bindE (for_range PAGE_ROUNDS PGSIZE (set_perms perms) start stop (s, [])) (\<lambda>(s, out). Inr (m, s, out))))))))"

text \<open>\<open>load\<close> reads a word at a virtual address.\<close>

definition memdump :: "(u32 \<Rightarrow> u32 c) \<Rightarrow> u8 list \<Rightarrow> nat list \<Rightarrow> (u32 \<times> u32) list c" where
  "memdump load m argv =
     (if length argv \<noteq> 3 then Inr []
      else bindE (range_args m argv) (\<lambda>(start, stop).
           for_range WORD_ROUNDS 4 (\<lambda>a out. bindE (load a) (\<lambda>v. Inr (out @ [(a, v)]))) start stop []))"

text \<open>The result, and the frame.\<close>

definition mon_cont :: "trapframe \<Rightarrow> int \<times> trapframe" where "mon_cont tf = (-1, tf)"
definition mon_step :: "trapframe \<Rightarrow> int \<times> trapframe" where "mon_step tf = (-1, tf\<lparr>tf_eflags := tf_eflags tf OR 0x100\<rparr>)"

text \<open>The frames up the chain of \<open>ebp\<close>, with at most \<open>k\<close> of them: \<open>ebp\<close>, \<open>eip\<close>, four arguments, and what is known of \<open>eip\<close>.\<close>

fun mon_backtrace :: "nat \<Rightarrow> (u32 \<Rightarrow> u32 c) \<Rightarrow> stab list \<Rightarrow> u8 list \<Rightarrow> u32 \<Rightarrow> (u32 \<times> u32 \<times> u32 list \<times> eipdebuginfo) list c" where
  "mon_backtrace 0 load stabs stabstr ebp = Inl Diverges"
| "mon_backtrace (Suc k) load stabs stabstr ebp =
     (if ebp = 0 then Inr []
      else bindE (load (ebp + 4)) (\<lambda>eip.
           bindE (debuginfo_eip stabs stabstr eip) (\<lambda>(err, info).
           bindE (load (ebp + 8)) (\<lambda>a1. bindE (load (ebp + 12)) (\<lambda>a2.
           bindE (load (ebp + 16)) (\<lambda>a3. bindE (load (ebp + 20)) (\<lambda>a4.
           bindE (load ebp) (\<lambda>ebp'. bindE (mon_backtrace k load stabs stabstr ebp') (\<lambda>rest.
           Inr ((ebp, eip, [a1, a2, a3, a4], info) # rest))))))))))"

text \<open>A line that is read in \<open>monitor\<close>, on the state, the frame it was entered with and the memory; whether the monitor ends.\<close>

definition monitor_line ::
  "nat \<Rightarrow> (u32 \<Rightarrow> u32 c) \<Rightarrow> stab list \<Rightarrow> u8 list \<Rightarrow> u32 \<Rightarrow> nat \<Rightarrow> trapframe option \<Rightarrow> u8 list \<Rightarrow> jos
     \<Rightarrow> (bool \<times> trapframe option \<times> u8 list \<times> jos) c" where
  "monitor_line k load stabs stabstr ebp buf tf m s =
     bindE (mon_runcmd buf m) (\<lambda>(line, m). case line of
       Mon_run Showmappings argv \<Rightarrow> bindE (showmappings m argv s) (\<lambda>(s, out). Inr (False, tf, m, s))
     | Mon_run Permset argv \<Rightarrow> bindE (permset m argv s) (\<lambda>(m, s, out). Inr (False, tf, m, s))
     | Mon_run Memdump argv \<Rightarrow> bindE (memdump load m argv) (\<lambda>out. Inr (False, tf, m, s))
     | Mon_run Mon_backtrace argv \<Rightarrow> bindE (mon_backtrace k load stabs stabstr ebp) (\<lambda>out. Inr (False, tf, m, s))
     | Mon_run Mon_cont argv \<Rightarrow> Inr (True, tf, m, s)
     | Mon_run Mon_step argv \<Rightarrow> bindE (deref tf) (\<lambda>f. Inr (True, Some (snd (mon_step f)), m, s))
     | _ \<Rightarrow> Inr (False, tf, m, s))"

end
