(* ===== verification/MonitorProps.thy ===== *)
theory MonitorProps
  imports Monitor
begin

text \<open>Which ranges of addresses the loops of the kernel monitor get through, and the permissions it takes.\<close>

section \<open>Ranges\<close>

text \<open>For \<open>d\<close> a power of two the addresses of the loop keep their offset in \<open>d\<close> bytes, and the last is this one.\<close>

definition last_addr :: "nat \<Rightarrow> u32 \<Rightarrow> nat" where "last_addr b start = 2 ^ 32 - 2 ^ b + unat start mod 2 ^ b"

lemma addr_le_last:
  assumes "b \<le> 32"
  shows "unat start \<le> last_addr b start"
proof -
  have "unat start < 2 ^ 32" using unsigned_less[of start, where 'a = nat] by simp
  moreover have e: "(2 :: nat) ^ 32 = 2 ^ (32 - b) * 2 ^ b" using assms by (simp flip: power_add)
  ultimately have "unat start div 2 ^ b < 2 ^ (32 - b)" by (simp add: less_mult_imp_div_less)
  then have "Suc (unat start div 2 ^ b) * 2 ^ b \<le> 2 ^ (32 - b) * 2 ^ b" by (intro mult_le_mono1) simp
  then have "unat start div 2 ^ b * 2 ^ b + 2 ^ b \<le> 2 ^ 32" using e by simp
  moreover have "unat start div 2 ^ b * 2 ^ b + unat start mod 2 ^ b = unat start" by (rule div_mult_mod_eq)
  ultimately show ?thesis by (simp add: last_addr_def)
qed

lemma unat_pow: "b < 32 \<Longrightarrow> unat (2 ^ b :: u32) = 2 ^ b"
proof -
  assume "b < 32"
  then have "(2 :: nat) ^ b < 2 ^ 32" by (intro power_strict_increasing) simp_all
  moreover have "(2 :: u32) ^ b = of_nat (2 ^ b)" by simp
  ultimately show ?thesis by (simp only: unat_of_nat) simp
qed

lemma next_addr:
  assumes "b < 32"
  shows "last_addr b (start + 2 ^ b) = last_addr b start"
proof -
  have "unat (start + 2 ^ b) = (unat start + 2 ^ b) mod 2 ^ 32"
    using assms by (simp add: unat_word_ariths unat_pow)
  moreover have "(2 :: nat) ^ b dvd 2 ^ 32" using assms by (intro le_imp_power_dvd) simp
  ultimately have "unat (start + 2 ^ b) mod 2 ^ b = unat start mod 2 ^ b" by (simp add: mod_mod_cancel)
  then show ?thesis by (simp add: last_addr_def)
qed

text \<open>When the end is not below this address, the loop starts again at the bottom.\<close>

lemma for_range_wraps:
  "b < 32 \<Longrightarrow> last_addr b start \<le> unat stop \<Longrightarrow> for_range k (2 ^ b) body start stop s \<noteq> Inr r"
proof (induction k arbitrary: start s)
  case (Suc k)
  have "start \<le> stop" using addr_le_last[of b start] Suc.prems by (simp add: word_le_nat_alt)
  moreover have "last_addr b (start + 2 ^ b) \<le> unat stop" using next_addr[OF Suc.prems(1)] Suc.prems(2) by simp
  ultimately show ?case using Suc.IH[OF Suc.prems(1)] by (cases "body start s") simp_all
qed simp

lemma for_range_ends:
  assumes "b < 32" "\<And>a s. body a s \<noteq> Inl Diverges"
  shows "unat stop < last_addr b start \<Longrightarrow> 2 ^ 32 \<le> unat start + k * 2 ^ b \<Longrightarrow> for_range k (2 ^ b) body start stop s \<noteq> Inl Diverges"
proof (induction k arbitrary: start s)
  case 0
  then show ?case using unsigned_less[of start, where 'a = nat] by simp
next
  case (Suc k)
  show ?case
  proof (cases "start \<le> stop")
    case True
    then have less: "unat start < last_addr b start" using Suc.prems(1) by (simp add: word_le_nat_alt)
    have no_wrap: "unat start + 2 ^ b < 2 ^ 32"
    proof (rule ccontr)
      assume "\<not> ?thesis"
      then have big: "2 ^ 32 \<le> unat start + 2 ^ b" by simp
      have e: "(2 :: nat) ^ 32 = 2 ^ (32 - b) * 2 ^ b" using assms(1) by (simp flip: power_add)
      let ?q = "unat start div 2 ^ b" and ?r = "unat start mod 2 ^ b"
      have q: "?q * 2 ^ b + ?r = unat start" and r: "?r < 2 ^ b" by (rule div_mult_mod_eq) simp
      have "unat start + 2 ^ b < (?q + 2) * 2 ^ b" unfolding add_mult_distrib using q r by linarith
      then have "2 ^ (32 - b) * 2 ^ b < (?q + 2) * 2 ^ b" using big e by linarith
      then have "2 ^ (32 - b) \<le> ?q + 1" by (simp only: mult_less_cancel2) simp
      then have "2 ^ (32 - b) * 2 ^ b \<le> (?q + 1) * 2 ^ b" by (rule mult_le_mono1)
      then have "2 ^ 32 - 2 ^ b + ?r \<le> unat start" unfolding e add_mult_distrib using q by linarith
      with less show False by (simp add: last_addr_def)
    qed
    then have u: "unat (start + 2 ^ b) = unat start + 2 ^ b" using assms(1) by (simp add: unat_word_ariths unat_pow)
    have "unat stop < last_addr b (start + 2 ^ b)" using next_addr[OF assms(1)] Suc.prems(1) by simp
    moreover have "2 ^ 32 \<le> unat (start + 2 ^ b) + k * 2 ^ b" using Suc.prems(2) u by simp
    ultimately show ?thesis using True Suc.IH assms(2)[of start s] by (cases "body start s") auto
  qed simp
qed

lemma set_perms_ends: "set_perms perms a s \<noteq> Inl Diverges"
  by (auto simp: set_perms_def pgdir_walk_def pgdir_walk_with_def KADDR_def guardE_def Let_def bindE_Inl_iff split: prod.splits option.splits if_splits)

text \<open>
  The loop of \<open>permset\<close> ends, within the rounds the model allows, exactly when the end of the range is below the last address with
  the offset of its start; with an end in the last page of the address space the start wraps around, and the loop goes through
  all pages again and again.
\<close>

theorem permset_loop_ends:
  "if unat stop < last_addr 12 start
   then for_range PAGE_ROUNDS PGSIZE (set_perms perms) start stop s \<noteq> Inl Diverges
   else \<forall>k r. for_range k PGSIZE (set_perms perms) start stop s \<noteq> Inr r"
proof -
  have p: "PGSIZE = 2 ^ 12" by (simp add: PGSIZE_def)
  have rounds: "2 ^ 32 \<le> unat start + PAGE_ROUNDS * 2 ^ 12" by (simp add: PAGE_ROUNDS_def)
  show ?thesis
  proof (cases "unat stop < last_addr 12 start")
    case True
    with for_range_ends[of 12 "set_perms perms", OF _ set_perms_ends True rounds] show ?thesis by (simp only: p if_True) simp
  next
    case False
    then have "last_addr 12 start \<le> unat stop" by simp
    then have "\<forall>k r. for_range k (2 ^ 12) (set_perms perms) start stop s \<noteq> Inr r" by (intro allI for_range_wraps) simp_all
    then show ?thesis unfolding p if_not_P[OF False] .
  qed
qed

section \<open>Permissions\<close>

text \<open>The value of a letter.\<close>

definition perm_of :: "u8 \<Rightarrow> u32 option" where
  "perm_of c = (if c = 112 then Some PTE_P else if c = 119 then Some PTE_W else if c = 117 then Some PTE_U else None)"

lemma perms_loop_step:
  "c \<noteq> 0 \<Longrightarrow> i < 3 \<Longrightarrow> rd m (a + i) = Inr d \<Longrightarrow> perms_loop m a c i perms =
    (case perm_of d of None \<Rightarrow> Inr None | Some p \<Rightarrow> perms_loop m a d (i + 1) (perms OR p))"
  by (subst perms_loop.simps) (simp add: perm_of_def)

lemma perms_loop_stop: "perms_loop m a c 3 perms = Inr (Some (perms, 3))"
  by (subst perms_loop.simps) simp

lemma perm_of_0: "perm_of d = Some p \<Longrightarrow> d \<noteq> 0"
  by (auto simp: perm_of_def)

text \<open>
  \<open>permset\<close> takes a string of exactly three letters \<open>p\<close>, \<open>w\<close> and \<open>u\<close>, and refuses the shorter ones: the loop looks for the end of the string at
  the letter before.
\<close>

theorem permset_letters:
  assumes "rd m a = Inr c0" "rd m (a + 1) = Inr c1" "rd m (a + 2) = Inr c2" "c0 \<noteq> 0"
  shows "perms_loop m a c0 0 0 =
    Inr (case (perm_of c0, perm_of c1, perm_of c2) of (Some p, Some q, Some r) \<Rightarrow> Some (p OR q OR r, 3) | _ \<Rightarrow> None)"
proof -
  have "rd m (a + 0) = Inr c0" using assms(1) by simp
  note s0 = perms_loop_step[OF assms(4) _ this]
  show ?thesis
  proof (cases "perm_of c0")
    case (Some p)
    note s1 = perms_loop_step[OF perm_of_0[OF Some] _ assms(2)]
    show ?thesis
    proof (cases "perm_of c1")
      case q: (Some q)
      note s2 = perms_loop_step[OF perm_of_0[OF q] _ assms(3)]
      show ?thesis
        using s0 s1 s2 Some q by (cases "perm_of c2") (simp_all add: perms_loop_stop[unfolded numeral_3_eq_3] or.assoc numeral_2_eq_2 numeral_3_eq_3)
    qed (use s0 s1 Some in simp)
  qed (use s0 in simp)
qed

end
