(* ===== verification/JosFs.thy ===== *)
theory JosFs
  imports Jos
begin

text \<open>
  The JOS file system (\<open>os_final_project/code/fs/fs.c\<close>, with the parts of \<open>bc.c\<close> it uses).

  The disk is mapped at \<open>DISKMAP\<close>: block \<open>b\<close> is the 4096 bytes from \<open>DISKMAP + b * BLKSIZE\<close> on. An
  address of that region is its distance from \<open>DISKMAP\<close>, a natural number, and the memory is a
  function from addresses to bytes, so that structures overlap exactly as in the code: the fields
  of \<open>struct File\<close>, the indirect blocks and the bitmap are read and written at their offsets, low
  byte first. \<open>fmem\<close> is what the server sees through its block cache, \<open>fdisk\<close> what is on the disk:
  a block that is not mapped, or mapped and clean, has the same bytes in both, so \<open>flush_block\<close> is
  a copy. Paths are lists of bytes without the NUL.
\<close>

section \<open>Layout\<close>

definition E_NO_DISK :: int where "E_NO_DISK = 9"
definition E_NOT_FOUND :: int where "E_NOT_FOUND = 11"
definition E_BAD_PATH :: int where "E_BAD_PATH = 12"
definition E_FILE_EXISTS :: int where "E_FILE_EXISTS = 13"

definition BLKSIZE :: nat where "BLKSIZE = 4096"
definition BLKBITSIZE :: nat where "BLKBITSIZE = BLKSIZE * 8"
definition MAXNAMELEN :: nat where "MAXNAMELEN = 128"
definition NDIRECT :: nat where "NDIRECT = 10"
definition NINDIRECT :: nat where "NINDIRECT = 1024"
definition FILESIZE :: nat where "FILESIZE = 256"
definition BLKFILES :: nat where "BLKFILES = 16"
definition FTYPE_DIR :: u32 where "FTYPE_DIR = 1"
definition FS_MAGIC :: u32 where "FS_MAGIC = 0x4A0530AE"
definition DISKSIZE :: nat where "DISKSIZE = 0xC0000000"

record fsys =
  fmem :: "nat \<Rightarrow> u8"
  fdisk :: "nat \<Rightarrow> u8"

definition get32 :: "(nat \<Rightarrow> u8) \<Rightarrow> nat \<Rightarrow> u32" where
  "get32 m a = ucast (m a) OR push_bit 8 (ucast (m (a + 1))) OR push_bit 16 (ucast (m (a + 2)))
     OR push_bit 24 (ucast (m (a + 3)))"

definition put32 :: "nat \<Rightarrow> u32 \<Rightarrow> (nat \<Rightarrow> u8) \<Rightarrow> nat \<Rightarrow> u8" where
  "put32 a w m = m(a := ucast w, a + 1 := ucast (drop_bit 8 w), a + 2 := ucast (drop_bit 16 w),
     a + 3 := ucast (drop_bit 24 w))"

definition put_bytes :: "nat \<Rightarrow> u8 list \<Rightarrow> (nat \<Rightarrow> u8) \<Rightarrow> nat \<Rightarrow> u8" where
  "put_bytes a bs m = (\<lambda>x. if a \<le> x \<and> x < a + length bs then bs ! (x - a) else m x)"

definition get_bytes :: "(nat \<Rightarrow> u8) \<Rightarrow> nat \<Rightarrow> nat \<Rightarrow> u8 list" where
  "get_bytes m a n = map (\<lambda>i. m (a + i)) [0..<n]"

definition set_mem :: "((nat \<Rightarrow> u8) \<Rightarrow> nat \<Rightarrow> u8) \<Rightarrow> fsys \<Rightarrow> fsys" where
  "set_mem g s = s\<lparr>fmem := g (fmem s)\<rparr>"

text \<open>The fields of the super block (block 1) and of the \<open>struct File\<close> at address \<open>f\<close>.\<close>

definition s_magic :: "fsys \<Rightarrow> u32" where "s_magic s = get32 (fmem s) BLKSIZE"
definition s_nblocks :: "fsys \<Rightarrow> u32" where "s_nblocks s = get32 (fmem s) (BLKSIZE + 4)"
definition s_root :: nat where "s_root = BLKSIZE + 8"

definition f_size_at :: "nat \<Rightarrow> nat" where "f_size_at f = f + 128"
definition f_type_at :: "nat \<Rightarrow> nat" where "f_type_at f = f + 132"
definition f_direct_at :: "nat \<Rightarrow> nat \<Rightarrow> nat" where "f_direct_at f i = f + 136 + 4 * i"
definition f_indirect_at :: "nat \<Rightarrow> nat" where "f_indirect_at f = f + 176"

definition f_size :: "nat \<Rightarrow> fsys \<Rightarrow> i32" where "f_size f s = get32 (fmem s) (f_size_at f)"
definition f_type :: "nat \<Rightarrow> fsys \<Rightarrow> u32" where "f_type f s = get32 (fmem s) (f_type_at f)"
definition f_indirect :: "nat \<Rightarrow> fsys \<Rightarrow> u32" where "f_indirect f s = get32 (fmem s) (f_indirect_at f)"

section \<open>The block cache: bc.c\<close>

definition diskaddr :: "u32 \<Rightarrow> fsys \<Rightarrow> nat c" where
  "diskaddr blockno s =
     bindE (guardE Panic (\<not> (blockno = 0 \<or> blockno \<ge> s_nblocks s))) (\<lambda>_. Inr (unat blockno * BLKSIZE))"

definition flush_block :: "nat \<Rightarrow> fsys \<Rightarrow> fsys c" where
  "flush_block a s = bindE (guardE Panic (a < DISKSIZE)) (\<lambda>_.
     Inr (s\<lparr>fdisk := (\<lambda>x. if x div BLKSIZE = a div BLKSIZE then fmem s x else fdisk s x)\<rparr>))"

section \<open>Super block and bitmap\<close>

definition check_super :: "fsys \<Rightarrow> unit c" where
  "check_super s = bindE (guardE Panic (s_magic s = FS_MAGIC)) (\<lambda>_.
     guardE Panic (\<not> unat (s_nblocks s) > DISKSIZE div BLKSIZE))"

definition bitmap_at :: "nat \<Rightarrow> nat" where
  "bitmap_at blockno = 2 * BLKSIZE + 4 * (blockno div 32)"

definition block_is_free :: "nat \<Rightarrow> fsys \<Rightarrow> bool" where
  "block_is_free blockno s =
     (if blockno \<ge> unat (s_nblocks s) then False
      else get32 (fmem s) (bitmap_at blockno) AND block_bit blockno \<noteq> 0)"

definition free_block :: "u32 \<Rightarrow> fsys \<Rightarrow> fsys c" where
  "free_block blockno s = bindE (guardE Panic (blockno \<noteq> 0)) (\<lambda>_.
     let a = bitmap_at (unat blockno)
     in Inr (set_mem (put32 a (get32 (fmem s) a OR block_bit (unat blockno))) s))"

text \<open>The search of \<open>alloc_block\<close> from block \<open>i\<close> on, with \<open>k\<close> blocks left.\<close>

fun find_free :: "nat \<Rightarrow> nat \<Rightarrow> (nat \<Rightarrow> u8) \<Rightarrow> nat option" where
  "find_free 0 i m = None"
| "find_free (Suc k) i m = (if get32 m (bitmap_at i) AND block_bit i \<noteq> 0 then Some i else find_free k (Suc i) m)"

definition alloc_block :: "fsys \<Rightarrow> (int \<times> fsys) c" where
  "alloc_block s = (case find_free (unat (s_nblocks s)) 0 (fmem s) of
     None \<Rightarrow> Inr (- E_NO_DISK, s)
   | Some blockno \<Rightarrow>
       let a = bitmap_at blockno;
           s = set_mem (put32 a (get32 (fmem s) a AND NOT (block_bit blockno))) s
       in bindE (flush_block (2 * BLKSIZE) s) (\<lambda>s. Inr (int blockno, s)))"

definition check_bitmap :: "fsys \<Rightarrow> unit c" where
  "check_bitmap s =
     bindE (guardE AssertFail (\<forall>i < (unat (s_nblocks s) + BLKBITSIZE - 1) div BLKBITSIZE. \<not> block_is_free (2 + i) s)) (\<lambda>_.
     bindE (guardE AssertFail (\<not> block_is_free 0 s)) (\<lambda>_.
     guardE AssertFail (\<not> block_is_free 1 s)))"

section \<open>The blocks of a file\<close>

text \<open>The return code and \<open>*ppdiskbno\<close>, the address of the slot.\<close>

definition file_block_walk :: "nat \<Rightarrow> u32 \<Rightarrow> bool \<Rightarrow> fsys \<Rightarrow> (int \<times> nat \<times> fsys) c" where
  "file_block_walk f filebno alloc s =
     (if unat filebno \<ge> NDIRECT + NINDIRECT then Inr (- E_INVAL, 0, s)
      else bindE (if unat filebno > NDIRECT div BLKSIZE \<and> f_indirect f s = 0
                  then if alloc
                       then bindE (alloc_block s) (\<lambda>(blockno, s).
                            if blockno < 0 then Inr (blockno, s)
                            else let s = set_mem (put32 (f_indirect_at f) (of_int blockno)) s
                                 in bindE (diskaddr (of_int blockno) s) (\<lambda>a.
                                    Inr (0, set_mem (put_bytes a (replicate BLKSIZE 0)) s)))
                       else Inr (- E_NOT_FOUND, s)
                  else Inr (0, s)) (\<lambda>(r, s).
           if r < 0 then Inr (r, 0, s)
           else if unat filebno < NDIRECT then Inr (0, f_direct_at f (unat filebno), s)
           else bindE (diskaddr (f_indirect f s) s) (\<lambda>a. Inr (0, a + 4 * (unat filebno - NDIRECT), s))))"

definition file_get_block :: "nat \<Rightarrow> u32 \<Rightarrow> fsys \<Rightarrow> (int \<times> nat \<times> fsys) c" where
  "file_get_block f filebno s =
     bindE (file_block_walk f filebno True s) (\<lambda>(err, blockno_p, s).
     if err \<noteq> 0 then Inr (err, 0, s)
     else bindE (if get32 (fmem s) blockno_p = 0
                 then bindE (alloc_block s) (\<lambda>(new_blockno, s).
                      if new_blockno < 0 then Inr (new_blockno, s)
                      else Inr (0, set_mem (put32 blockno_p (of_int new_blockno)) s))
                 else Inr (0, s)) (\<lambda>(r, s).
          if r < 0 then Inr (r, 0, s)
          else bindE (diskaddr (get32 (fmem s) blockno_p) s) (\<lambda>blk. Inr (0, blk, s))))"

definition file_free_block :: "nat \<Rightarrow> u32 \<Rightarrow> fsys \<Rightarrow> (int \<times> fsys) c" where
  "file_free_block f filebno s =
     bindE (file_block_walk f filebno False s) (\<lambda>(r, ptr, s).
     if r < 0 then Inr (r, s)
     else let b = get32 (fmem s) ptr
          in if b \<noteq> 0 then bindE (free_block b s) (\<lambda>s. Inr (0, set_mem (put32 ptr 0) s))
             else Inr (0, s))"

text \<open>\<open>(size + BLKSIZE - 1) / BLKSIZE\<close> on a signed size.\<close>

definition nblocks_of :: "i32 \<Rightarrow> u32 c" where
  "nblocks_of sz = bindE (guardE SignedOverflow (in_i32 (sint sz + 4095))) (\<lambda>_.
     Inr (of_int ((sint sz + 4095) sdiv 4096)))"

text \<open>The loop of \<open>file_truncate_blocks\<close> over \<open>k\<close> blocks; an error is only reported.\<close>

fun free_blocks_from :: "nat \<Rightarrow> nat \<Rightarrow> u32 \<Rightarrow> fsys \<Rightarrow> fsys c" where
  "free_blocks_from 0 f bno s = Inr s"
| "free_blocks_from (Suc k) f bno s = bindE (file_free_block f bno s) (\<lambda>(r, s). free_blocks_from k f (bno + 1) s)"

definition file_truncate_blocks :: "nat \<Rightarrow> i32 \<Rightarrow> fsys \<Rightarrow> fsys c" where
  "file_truncate_blocks f newsize s =
     bindE (nblocks_of (f_size f s)) (\<lambda>old_nblocks.
     bindE (nblocks_of newsize) (\<lambda>new_nblocks.
     bindE (free_blocks_from (unat old_nblocks - unat new_nblocks) f new_nblocks s) (\<lambda>s.
     if unat new_nblocks \<le> NDIRECT \<and> f_indirect f s \<noteq> 0
     then bindE (free_block (f_indirect f s) s) (\<lambda>s. Inr (set_mem (put32 (f_indirect_at f) 0) s))
     else Inr s)))"

definition file_set_size :: "nat \<Rightarrow> i32 \<Rightarrow> fsys \<Rightarrow> (int \<times> fsys) c" where
  "file_set_size f newsize s =
     bindE (if sint (f_size f s) > sint newsize then file_truncate_blocks f newsize s else Inr s) (\<lambda>s.
     bindE (flush_block f (set_mem (put32 (f_size_at f) newsize) s)) (\<lambda>s. Inr (0, s)))"

text \<open>The loop of \<open>file_flush\<close> from block \<open>i\<close> on, with \<open>k\<close> blocks left.\<close>

fun flush_from :: "nat \<Rightarrow> nat \<Rightarrow> nat \<Rightarrow> fsys \<Rightarrow> fsys c" where
  "flush_from 0 f i s = Inr s"
| "flush_from (Suc k) f i s =
     bindE (file_block_walk f (of_nat i) False s) (\<lambda>(r, pdiskbno, s).
     if r < 0 \<or> get32 (fmem s) pdiskbno = 0 then flush_from k f (Suc i) s
     else bindE (diskaddr (get32 (fmem s) pdiskbno) s) (\<lambda>a.
          bindE (flush_block a s) (\<lambda>s. flush_from k f (Suc i) s)))"

definition file_flush :: "nat \<Rightarrow> fsys \<Rightarrow> fsys c" where
  "file_flush f s =
     bindE (nblocks_of (f_size f s)) (\<lambda>n.
     bindE (flush_from (if sint n < 0 then 0 else unat n) f 0 s) (\<lambda>s.
     bindE (flush_block f s) (\<lambda>s.
     if f_indirect f s \<noteq> 0
     then bindE (diskaddr (f_indirect f s) s) (\<lambda>a. flush_block a s)
     else Inr s)))"

text \<open>\<open>k\<close> blocks from block \<open>i\<close> on.\<close>

fun sync_from :: "nat \<Rightarrow> nat \<Rightarrow> fsys \<Rightarrow> fsys c" where
  "sync_from 0 i s = Inr s"
| "sync_from (Suc k) i s = bindE (diskaddr (of_nat i) s) (\<lambda>a. bindE (flush_block a s) (\<lambda>s. sync_from k (Suc i) s))"

definition fs_sync :: "fsys \<Rightarrow> fsys c" where
  "fs_sync s = sync_from (unat (s_nblocks s) - 1) 1 s"


section \<open>Directories and paths\<close>

text \<open>\<open>strcmp\<close> of the string at address \<open>a\<close> with a string, tested for equality.\<close>

fun strcmp_eq :: "(nat \<Rightarrow> u8) \<Rightarrow> nat \<Rightarrow> u8 list \<Rightarrow> bool" where
  "strcmp_eq m a [] = (m a = 0)"
| "strcmp_eq m a (c # cs) = (m a = c \<and> strcmp_eq m (Suc a) cs)"

definition put_string :: "nat \<Rightarrow> u8 list \<Rightarrow> (nat \<Rightarrow> u8) \<Rightarrow> nat \<Rightarrow> u8" where
  "put_string a cs = put_bytes a (cs @ [0])"

text \<open>The first file of a block that satisfies \<open>P\<close>, with \<open>k\<close> files left to look at.\<close>

fun find_in_block :: "(nat \<Rightarrow> bool) \<Rightarrow> nat \<Rightarrow> nat \<Rightarrow> nat option" where
  "find_in_block P f 0 = None"
| "find_in_block P f (Suc k) = (if P f then Some f else find_in_block P (f + FILESIZE) k)"

text \<open>
  The search of \<open>dir_lookup\<close> and \<open>dir_alloc_file\<close> through the blocks of a directory, from block \<open>i\<close> on
  with \<open>k\<close> left: an error of \<open>file_get_block\<close>, or the file found, if any.
\<close>

fun find_in_dir :: "(fsys \<Rightarrow> nat \<Rightarrow> bool) \<Rightarrow> nat \<Rightarrow> nat \<Rightarrow> nat \<Rightarrow> fsys \<Rightarrow> (int \<times> nat option \<times> fsys) c" where
  "find_in_dir P dir i 0 s = Inr (0, None, s)"
| "find_in_dir P dir i (Suc k) s =
     bindE (file_get_block dir (of_nat i) s) (\<lambda>(r, blk, s).
     if r < 0 then Inr (r, None, s)
     else case find_in_block (P s) blk BLKFILES of
            Some f \<Rightarrow> Inr (0, Some f, s)
          | None \<Rightarrow> find_in_dir P dir (Suc i) k s)"

definition dir_nblock :: "nat \<Rightarrow> fsys \<Rightarrow> nat c" where
  "dir_nblock dir s = bindE (guardE AssertFail (sint (f_size dir s) smod 4096 = 0)) (\<lambda>_.
     Inr (unat (of_int (sint (f_size dir s) sdiv 4096) :: u32)))"

definition dir_lookup :: "nat \<Rightarrow> u8 list \<Rightarrow> fsys \<Rightarrow> (int \<times> nat option \<times> fsys) c" where
  "dir_lookup dir name s =
     bindE (dir_nblock dir s) (\<lambda>nblock.
     bindE (find_in_dir (\<lambda>s f. strcmp_eq (fmem s) f name) dir 0 nblock s) (\<lambda>(r, f, s).
     case f of None \<Rightarrow> Inr (if r < 0 then r else - E_NOT_FOUND, None, s) | Some f \<Rightarrow> Inr (0, Some f, s)))"

definition dir_alloc_file :: "nat \<Rightarrow> fsys \<Rightarrow> (int \<times> nat option \<times> fsys) c" where
  "dir_alloc_file dir s =
     bindE (dir_nblock dir s) (\<lambda>nblock.
     bindE (find_in_dir (\<lambda>s f. fmem s f = 0) dir 0 nblock s) (\<lambda>(r, f, s).
     if r < 0 then Inr (r, None, s)
     else case f of Some f \<Rightarrow> Inr (0, Some f, s)
     | None \<Rightarrow>
         bindE (guardE SignedOverflow (in_i32 (sint (f_size dir s) + 4096))) (\<lambda>_.
         bindE (file_get_block dir (of_nat nblock) (set_mem (put32 (f_size_at dir) (f_size dir s + 4096)) s)) (\<lambda>(r, blk, s).
         if r < 0 then Inr (r, None, s) else Inr (0, Some blk, s)))))"

definition slash :: u8 where "slash = 47"

definition skip_slash :: "u8 list \<Rightarrow> u8 list" where
  "skip_slash = dropWhile (\<lambda>c. c = slash)"

text \<open>The results of \<open>walk_path\<close>: the return code, \<open>*pdir\<close>, \<open>*pf\<close> and what is copied to \<open>lastelem\<close>.\<close>

record walk =
  wret :: int
  wdir :: "nat option"
  wfile :: "nat option"
  wlast :: "u8 list option"

lemma rest_shorter:
  assumes "path \<noteq> []"
  shows "length (skip_slash (dropWhile (\<lambda>c. c \<noteq> slash) path)) < length path"
proof (cases path)
  case Nil
  with assms show ?thesis by simp
next
  case (Cons c cs)
  have "length (skip_slash xs) \<le> length xs" for xs by (simp add: skip_slash_def length_dropWhile_le)
  moreover have "length (dropWhile P cs) \<le> length cs" for P by (rule length_dropWhile_le)
  moreover have "skip_slash (slash # cs) = skip_slash cs" by (simp add: skip_slash_def)
  ultimately show ?thesis using Cons by (cases "c = slash") (auto simp: le_less_trans less_Suc_eq_le intro: order_trans)
qed

function walk_loop :: "nat option \<Rightarrow> nat \<Rightarrow> u8 list \<Rightarrow> fsys \<Rightarrow> (walk \<times> fsys) c" where
  "walk_loop dir f path s =
     (if path = [] then Inr (\<lparr>wret = 0, wdir = dir, wfile = Some f, wlast = None\<rparr>, s)
      else let name = takeWhile (\<lambda>c. c \<noteq> slash) path;
               rest = skip_slash (dropWhile (\<lambda>c. c \<noteq> slash) path)
           in if length name \<ge> MAXNAMELEN
              then Inr (\<lparr>wret = - E_BAD_PATH, wdir = None, wfile = None, wlast = None\<rparr>, s)
              else if f_type f s \<noteq> FTYPE_DIR
              then Inr (\<lparr>wret = - E_NOT_FOUND, wdir = None, wfile = None, wlast = None\<rparr>, s)
              else bindE (dir_lookup f name s) (\<lambda>(r, g, s).
                   case g of
                     Some g \<Rightarrow> walk_loop (Some f) g rest s
                   | None \<Rightarrow> if r = - E_NOT_FOUND \<and> rest = []
                       then Inr (\<lparr>wret = r, wdir = Some f, wfile = None, wlast = Some name\<rparr>, s)
                       else Inr (\<lparr>wret = r, wdir = None, wfile = None, wlast = None\<rparr>, s)))"
  by pat_completeness auto
termination
  by (relation "measure (\<lambda>(d, f, path, s). length path)") (simp_all add: rest_shorter)

declare walk_loop.simps [simp del]

definition walk_path :: "u8 list \<Rightarrow> fsys \<Rightarrow> (walk \<times> fsys) c" where
  "walk_path path s = walk_loop None s_root (skip_slash path) s"

section \<open>File operations\<close>

definition file_create :: "u8 list \<Rightarrow> fsys \<Rightarrow> (int \<times> nat option \<times> fsys) c" where
  "file_create path s =
     bindE (walk_path path s) (\<lambda>(w, s).
     if wret w = 0 then Inr (- E_FILE_EXISTS, None, s)
     else case wdir w of
       None \<Rightarrow> Inr (wret w, None, s)
     | Some dir \<Rightarrow>
         if wret w \<noteq> - E_NOT_FOUND then Inr (wret w, None, s)
         else bindE (deref (wlast w)) (\<lambda>name.
              bindE (dir_alloc_file dir s) (\<lambda>(r, f, s). case f of
                None \<Rightarrow> Inr (r, None, s)
              | Some f \<Rightarrow> bindE (file_flush dir (set_mem (put_string f name) s)) (\<lambda>s. Inr (0, Some f, s)))))"

definition file_open :: "u8 list \<Rightarrow> fsys \<Rightarrow> (int \<times> nat option \<times> fsys) c" where
  "file_open path s = bindE (walk_path path s) (\<lambda>(w, s). Inr (wret w, wfile w, s))"

text \<open>
  One round of the loops of \<open>file_read\<close> and \<open>file_write\<close> at position \<open>pos\<close>, a signed offset compared
  as unsigned with the end: the block, the address in it and the number of bytes.
\<close>

definition chunk :: "i32 \<Rightarrow> u32 \<Rightarrow> nat" where
  "chunk pos end_pos = unat (min (of_int (4096 - sint pos smod 4096)) (end_pos - pos))"

definition block_of :: "i32 \<Rightarrow> u32" where "block_of pos = of_int (sint pos sdiv 4096)"

definition address_in :: "nat \<Rightarrow> i32 \<Rightarrow> nat" where "address_in blk pos = nat (int blk + sint pos smod 4096)"

text \<open>The loops; each round handles a byte at least, so the fuel is the number of bytes, and 1.\<close>

fun read_loop :: "nat \<Rightarrow> nat \<Rightarrow> i32 \<Rightarrow> u32 \<Rightarrow> u8 list \<Rightarrow> fsys \<Rightarrow> (int \<times> u8 list \<times> fsys) c" where
  "read_loop 0 f pos end_pos buf s = Inl Diverges"
| "read_loop (Suc n) f pos end_pos buf s =
     (if pos < end_pos
      then bindE (file_get_block f (block_of pos) s) (\<lambda>(r, blk, s).
           if r < 0 then Inr (r, buf, s)
           else let bn = chunk pos end_pos
                in read_loop n f (pos + of_nat bn) end_pos (buf @ get_bytes (fmem s) (address_in blk pos) bn) s)
      else Inr (0, buf, s))"

fun write_loop :: "nat \<Rightarrow> nat \<Rightarrow> i32 \<Rightarrow> u32 \<Rightarrow> u8 list \<Rightarrow> fsys \<Rightarrow> (int \<times> fsys) c" where
  "write_loop 0 f pos end_pos buf s = Inl Diverges"
| "write_loop (Suc n) f pos end_pos buf s =
     (if pos < end_pos
      then bindE (file_get_block f (block_of pos) s) (\<lambda>(r, blk, s).
           if r < 0 then Inr (r, s)
           else let bn = chunk pos end_pos
                in write_loop n f (pos + of_nat bn) end_pos (drop bn buf)
                     (set_mem (put_bytes (address_in blk pos) (take bn buf)) s))
      else Inr (0, s))"

text \<open>The return value, and what is in the buffer.\<close>

definition file_read :: "nat \<Rightarrow> u32 \<Rightarrow> i32 \<Rightarrow> fsys \<Rightarrow> (int \<times> u8 list \<times> fsys) c" where
  "file_read f n offset s =
     (if sint offset \<ge> sint (f_size f s) then Inr (0, [], s)
      else bindE (guardE SignedOverflow (in_i32 (sint (f_size f s) - sint offset))) (\<lambda>_.
           let cnt = min n (f_size f s - offset)
           in bindE (read_loop (unat cnt + 1) f offset (offset + cnt) [] s) (\<lambda>(r, buf, s).
              Inr (if r < 0 then r else sint cnt, buf, s))))"

text \<open>The buffer has \<open>count\<close> bytes.\<close>

definition file_write :: "nat \<Rightarrow> u8 list \<Rightarrow> i32 \<Rightarrow> fsys \<Rightarrow> (int \<times> fsys) c" where
  "file_write f buf offset s =
     (let cnt = of_nat (length buf)
      in bindE (if offset + cnt > f_size f s then file_set_size f (offset + cnt) s else Inr (0, s)) (\<lambda>(r, s).
         if r < 0 then Inr (r, s)
         else bindE (write_loop (length buf + 1) f offset (offset + cnt) buf s) (\<lambda>(r, s).
              Inr (if r < 0 then r else sint cnt, s))))"

end
