(* ===== verification/FileServer.thy ===== *)
theory FileServer
  imports JosFs
begin

text \<open>
  The JOS file server (\<open>os_final_project/code/fs/serv.c\<close>) on top of \<open>JosFs\<close>. A request and its reply share one page, a function
  from offsets to bytes. The \<open>struct Fd\<close> of entry \<open>i\<close> of the table is on a page of its own, which programs that have the file open
  map and can write; \<open>fdrefs\<close> counts the mappings of it, the server's own among them.
\<close>

section \<open>State\<close>

definition E_MAX_OPEN :: int where "E_MAX_OPEN = 10"
definition MAXOPEN :: nat where "MAXOPEN = 1024"
definition MAXPATHLEN :: nat where "MAXPATHLEN = 1024"

definition O_RDONLY :: u32 where "O_RDONLY = 0"
definition O_WRONLY :: u32 where "O_WRONLY = 1"
definition O_RDWR :: u32 where "O_RDWR = 2"
definition O_ACCMODE :: u32 where "O_ACCMODE = 3"
definition O_CREAT :: u32 where "O_CREAT = 0x100"
definition O_TRUNC :: u32 where "O_TRUNC = 0x200"
definition O_EXCL :: u32 where "O_EXCL = 0x400"

definition FSREQ_OPEN :: u32 where "FSREQ_OPEN = 1"
definition FSREQ_SET_SIZE :: u32 where "FSREQ_SET_SIZE = 2"
definition FSREQ_READ :: u32 where "FSREQ_READ = 3"
definition FSREQ_WRITE :: u32 where "FSREQ_WRITE = 4"
definition FSREQ_STAT :: u32 where "FSREQ_STAT = 5"
definition FSREQ_FLUSH :: u32 where "FSREQ_FLUSH = 6"
definition FSREQ_SYNC :: u32 where "FSREQ_SYNC = 8"

definition DEVFILE_ID :: u32 where "DEVFILE_ID = 102"

record fd_page =
  fd_dev_id :: u32
  fd_offset :: i32
  fd_omode :: u32
  fd_file_id :: u32

record open_file =
  o_fileid :: u32
  o_file :: "nat option"
  o_mode :: u32

text \<open>\<open>no_mem\<close> says that the kernel has no page to give.\<close>

record server =
  sv_fs :: fsys
  opentab :: "open_file list"
  fdpages :: "fd_page list"
  fdrefs :: "nat list"
  no_mem :: bool

definition zero_fd :: fd_page where "zero_fd = \<lparr>fd_dev_id = 0, fd_offset = 0, fd_omode = 0, fd_file_id = 0\<rparr>"

definition serve_init :: "server \<Rightarrow> server" where
  "serve_init s = s\<lparr>opentab := map (\<lambda>i. (opentab s ! i)\<lparr>o_fileid := of_nat i\<rparr>) [0..<MAXOPEN]\<rparr>"

text \<open>Updates of entry \<open>i\<close> and of its page.\<close>

definition set_open :: "nat \<Rightarrow> (open_file \<Rightarrow> open_file) \<Rightarrow> server \<Rightarrow> server c" where
  "set_open i f s = bindE (rd (opentab s) i) (\<lambda>e. Inr (s\<lparr>opentab := (opentab s)[i := f e]\<rparr>))"

definition set_fd :: "nat \<Rightarrow> (fd_page \<Rightarrow> fd_page) \<Rightarrow> server \<Rightarrow> server c" where
  "set_fd i f s = bindE (rd (fdpages s) i) (\<lambda>p. Inr (s\<lparr>fdpages := (fdpages s)[i := f p]\<rparr>))"

section \<open>Open files\<close>

text \<open>The first entry, from \<open>i\<close> on with \<open>k\<close> left, that no program uses.\<close>

fun openfile_find :: "nat \<Rightarrow> nat \<Rightarrow> server \<Rightarrow> nat option c" where
  "openfile_find 0 i s = Inr None"
| "openfile_find (Suc k) i s = bindE (rd (fdrefs s) i) (\<lambda>n. if n = 0 \<or> n = 1 then Inr (Some i) else openfile_find k (i + 1) s)"

text \<open>The result and \<open>*o\<close>.\<close>

definition openfile_alloc :: "server \<Rightarrow> (int \<times> nat option \<times> server) c" where
  "openfile_alloc s = bindE (openfile_find MAXOPEN 0 s) (\<lambda>r. case r of
     None \<Rightarrow> Inr (- E_MAX_OPEN, None, s)
   | Some i \<Rightarrow>
       bindE (rd (fdrefs s) i) (\<lambda>n.
       if n = 0 \<and> no_mem s then Inr (- E_NO_MEM, None, s)
       else bindE (set_open i (\<lambda>e. e\<lparr>o_fileid := o_fileid e + of_nat MAXOPEN\<rparr>) (s\<lparr>fdrefs := (fdrefs s)[i := 1]\<rparr>)) (\<lambda>s.
            bindE (set_fd i (\<lambda>_. zero_fd) s) (\<lambda>s.
            bindE (rd (opentab s) i) (\<lambda>e. Inr (sint (o_fileid e), Some i, s))))))"

definition openfile_lookup :: "u32 \<Rightarrow> server \<Rightarrow> (int \<times> nat option) c" where
  "openfile_lookup fileid s =
     (let i = unat fileid mod MAXOPEN
      in bindE (rd (fdrefs s) i) (\<lambda>n. bindE (rd (opentab s) i) (\<lambda>e.
         if n \<le> 1 \<or> o_fileid e \<noteq> fileid then Inr (- E_INVAL, None) else Inr (0, Some i))))"

section \<open>Requests\<close>

text \<open>The file a request is about; \<open>f\<close> gets its entry and address.\<close>

definition with_file :: "u32 \<Rightarrow> (nat \<Rightarrow> nat \<Rightarrow> server \<Rightarrow> (int \<times> 'a \<times> server) c) \<Rightarrow> 'a \<Rightarrow> server \<Rightarrow> (int \<times> 'a \<times> server) c" where
  "with_file fileid f req s =
     bindE (openfile_lookup fileid s) (\<lambda>(r, e). case e of
       None \<Rightarrow> Inr (r, req, s)
     | Some i \<Rightarrow> bindE (rd (opentab s) i) (\<lambda>e. bindE (deref (o_file e)) (\<lambda>a. f i a s)))"

text \<open>The result and the entry whose page goes to the client.\<close>

definition serve_open :: "(nat \<Rightarrow> u8) \<Rightarrow> server \<Rightarrow> (int \<times> nat option \<times> server) c" where
  "serve_open req s =
     (let path = takeWhile (\<lambda>c. c \<noteq> 0) (get_bytes req 0 (MAXPATHLEN - 1));
          omode = get32 req MAXPATHLEN
      in bindE (openfile_alloc s) (\<lambda>(r, e, s). case e of
           None \<Rightarrow> Inr (r, None, s)
         | Some i \<Rightarrow>
             if r < 0 then Inr (r, None, s)
             else
             bindE (if omode AND O_CREAT \<noteq> 0
                    then bindE (file_create path (sv_fs s)) (\<lambda>(r, f, fs).
                         if r < 0 \<and> \<not> (omode AND O_EXCL = 0 \<and> r = - E_FILE_EXISTS) then Inr (r, None, fs)
                         else if r < 0 then file_open path fs else Inr (r, f, fs))
                    else file_open path (sv_fs s)) (\<lambda>(r, f, fs).
             let s = s\<lparr>sv_fs := fs\<rparr>
             in if r < 0 then Inr (r, None, s)
                else bindE (if omode AND O_TRUNC \<noteq> 0 then bindE (deref f) (\<lambda>f. file_set_size f 0 (sv_fs s)) else Inr (0, sv_fs s)) (\<lambda>(r, fs).
                let s = s\<lparr>sv_fs := fs\<rparr>
                in if r < 0 then Inr (r, None, s)
                   else bindE (file_open path (sv_fs s)) (\<lambda>(r, f, fs).
                   let s = s\<lparr>sv_fs := fs\<rparr>
                   in if r < 0 then Inr (r, None, s)
                      else bindE (set_open i (\<lambda>e. e\<lparr>o_file := f, o_mode := omode\<rparr>) s) (\<lambda>s.
                           bindE (rd (opentab s) i) (\<lambda>e.
                           bindE (set_fd i (\<lambda>p. p\<lparr>fd_file_id := o_fileid e, fd_omode := omode AND O_ACCMODE, fd_dev_id := DEVFILE_ID\<rparr>) s) (\<lambda>s.
                           Inr (0, Some i, s)))))))))"

definition serve_set_size :: "(nat \<Rightarrow> u8) \<Rightarrow> server \<Rightarrow> (int \<times> (nat \<Rightarrow> u8) \<times> server) c" where
  "serve_set_size req s = with_file (get32 req 0) (\<lambda>i f s.
     bindE (file_set_size f (get32 req 4) (sv_fs s)) (\<lambda>(r, fs). Inr (r, req, s\<lparr>sv_fs := fs\<rparr>))) req s"

text \<open>\<open>ret_buf\<close> is the whole page; what is read beyond it is written after it.\<close>

definition serve_read :: "(nat \<Rightarrow> u8) \<Rightarrow> server \<Rightarrow> (int \<times> (nat \<Rightarrow> u8) \<times> server) c" where
  "serve_read req s = with_file (get32 req 0) (\<lambda>i f s.
     bindE (rd (fdpages s) i) (\<lambda>p.
     bindE (file_read f (get32 req 4) (fd_offset p) (sv_fs s)) (\<lambda>(r, buf, fs).
     bindE (guardE OutOfBounds (length buf \<le> 4096)) (\<lambda>_.
     let s = s\<lparr>sv_fs := fs\<rparr>; req = put_bytes 0 buf req
     in if r < 0 then Inr (r, req, s)
        else bindE (guardE SignedOverflow (in_i32 (sint (fd_offset p) + r))) (\<lambda>_.
             bindE (set_fd i (\<lambda>p. p\<lparr>fd_offset := fd_offset p + of_int r\<rparr>) s) (\<lambda>s. Inr (r, req, s))))))) req s"

text \<open>\<open>req_buf\<close> has 4088 bytes.\<close>

definition serve_write :: "(nat \<Rightarrow> u8) \<Rightarrow> server \<Rightarrow> (int \<times> (nat \<Rightarrow> u8) \<times> server) c" where
  "serve_write req s = with_file (get32 req 0) (\<lambda>i f s.
     let n = unat (get32 req 4)
     in bindE (rd (fdpages s) i) (\<lambda>p.
        bindE (guardE OutOfBounds (n \<le> 4088)) (\<lambda>_.
        bindE (file_write f (get_bytes req 8 n) (fd_offset p) (sv_fs s)) (\<lambda>(r, fs).
        let s = s\<lparr>sv_fs := fs\<rparr>
        in if r > 0
           then bindE (guardE SignedOverflow (in_i32 (sint (fd_offset p) + r))) (\<lambda>_.
                bindE (set_fd i (\<lambda>p. p\<lparr>fd_offset := fd_offset p + of_int r\<rparr>) s) (\<lambda>s. Inr (r, req, s)))
           else Inr (r, req, s))))) req s"

definition serve_stat :: "(nat \<Rightarrow> u8) \<Rightarrow> server \<Rightarrow> (int \<times> (nat \<Rightarrow> u8) \<times> server) c" where
  "serve_stat req s = with_file (get32 req 0) (\<lambda>i f s.
     let name = takeWhile (\<lambda>c. c \<noteq> 0) (get_bytes (fmem (sv_fs s)) f MAXNAMELEN)
     in bindE (guardE OutOfBounds (length name < MAXNAMELEN)) (\<lambda>_.
        let req = put_bytes 0 (name @ [0]) req;
            req = put32 128 (f_size f (sv_fs s)) req;
            req = put32 132 (if f_type f (sv_fs s) = FTYPE_DIR then 1 else 0) req
        in Inr (0, req, s))) req s"

definition serve_flush :: "(nat \<Rightarrow> u8) \<Rightarrow> server \<Rightarrow> (int \<times> (nat \<Rightarrow> u8) \<times> server) c" where
  "serve_flush req s = with_file (get32 req 0) (\<lambda>i f s.
     bindE (file_flush f (sv_fs s)) (\<lambda>fs. Inr (0, req, s\<lparr>sv_fs := fs\<rparr>))) req s"

definition serve_sync :: "(nat \<Rightarrow> u8) \<Rightarrow> server \<Rightarrow> (int \<times> (nat \<Rightarrow> u8) \<times> server) c" where
  "serve_sync req s = bindE (fs_sync (sv_fs s)) (\<lambda>fs. Inr (0, req, s\<lparr>sv_fs := fs\<rparr>))"

definition handlers :: "(u32 \<times> ((nat \<Rightarrow> u8) \<Rightarrow> server \<Rightarrow> (int \<times> (nat \<Rightarrow> u8) \<times> server) c)) list" where
  "handlers = [(FSREQ_READ, serve_read), (FSREQ_STAT, serve_stat), (FSREQ_FLUSH, serve_flush), (FSREQ_WRITE, serve_write),
     (FSREQ_SET_SIZE, serve_set_size), (FSREQ_SYNC, serve_sync)]"

text \<open>
  A request in the loop of \<open>serve\<close>, with the permissions of its page: the value and the page sent back, or no answer at all, and the
  request page.
\<close>

definition serve_request ::
  "u32 \<Rightarrow> u32 \<Rightarrow> (nat \<Rightarrow> u8) \<Rightarrow> server \<Rightarrow> ((int \<times> nat option) option \<times> (nat \<Rightarrow> u8) \<times> server) c" where
  "serve_request code perm req s =
     (if perm AND PTE_P = 0 then Inr (None, req, s)
      else if code = FSREQ_OPEN then bindE (serve_open req s) (\<lambda>(r, pg, s). Inr (Some (r, pg), req, s))
      else case map_of handlers code of
             Some h \<Rightarrow> bindE (h req s) (\<lambda>(r, req, s). Inr (Some (r, None), req, s))
           | None \<Rightarrow> Inr (Some (- E_INVAL, None), req, s))"

end
