(* ===== verification/Fd.thy ===== *)
theory Fd
  imports FileServer
begin

text \<open>
  File descriptors of a JOS program (\<open>os_final_project/code/lib/fd.c\<close>) and files as a device (\<open>lib/file.c\<close>). The state is the server
  with its pages and the part of the program's address space that holds descriptors: entry \<open>i\<close> below 32 of \<open>vmap\<close> is the page of
  descriptor \<open>i\<close>, entry \<open>32 + i\<close> its data page. A page is that of an entry of the server, or one of the pages of pipes and the
  console, which have the numbers from 1,024 on. A call of the server is a request and its answer. The table of devices is an argument, as
  it is a table of function pointers in the code.
\<close>

section \<open>Descriptors\<close>

definition E_NOT_SUPP :: int where "E_NOT_SUPP = 15"
definition MAXFD :: nat where "MAXFD = 32"

definition INDEX2FD :: "nat \<Rightarrow> nat" where "INDEX2FD i = i"
definition INDEX2DATA :: "nat \<Rightarrow> nat" where "INDEX2DATA i = MAXFD + i"

record world =
  sv :: server
  vmap :: "nat option list"

text \<open>The page at entry \<open>v\<close>, and an update of it.\<close>

definition fd_page_at :: "nat \<Rightarrow> world \<Rightarrow> fd_page c" where
  "fd_page_at v w = bindE (rd (vmap w) v) (\<lambda>p. bindE (deref p) (\<lambda>p. rd (fdpages (sv w)) p))"

definition set_fd_at :: "nat \<Rightarrow> (fd_page \<Rightarrow> fd_page) \<Rightarrow> world \<Rightarrow> world c" where
  "set_fd_at v f w = bindE (rd (vmap w) v) (\<lambda>p. bindE (deref p) (\<lambda>p. bindE (set_fd p f (sv w)) (\<lambda>s. Inr (w\<lparr>sv := s\<rparr>))))"

text \<open>\<open>sys_page_unmap\<close>, and \<open>sys_page_map\<close> inside the region, whose page table is there.\<close>

definition page_unmap :: "nat \<Rightarrow> world \<Rightarrow> world c" where
  "page_unmap v w = bindE (rd (vmap w) v) (\<lambda>p. case p of
     None \<Rightarrow> Inr w
   | Some p \<Rightarrow> bindE (rd (fdrefs (sv w)) p) (\<lambda>n.
       Inr (w\<lparr>vmap := (vmap w)[v := None], sv := (sv w)\<lparr>fdrefs := (fdrefs (sv w))[p := n - 1]\<rparr>\<rparr>)))"

definition map_page :: "nat \<Rightarrow> nat \<Rightarrow> world \<Rightarrow> world c" where
  "map_page v p w =
     bindE (rd (fdrefs (sv w)) p) (\<lambda>n.
     bindE (page_unmap v (w\<lparr>sv := (sv w)\<lparr>fdrefs := (fdrefs (sv w))[p := n + 1]\<rparr>\<rparr>)) (\<lambda>w.
     Inr (w\<lparr>vmap := (vmap w)[v := Some p]\<rparr>)))"

definition page_map :: "nat \<Rightarrow> nat \<Rightarrow> world \<Rightarrow> (int \<times> world) c" where
  "page_map src dst w = bindE (rd (vmap w) src) (\<lambda>p. case p of
     None \<Rightarrow> Inr (- E_INVAL, w)
   | Some p \<Rightarrow> bindE (map_page dst p w) (\<lambda>w. Inr (0, w)))"

fun fd_alloc_from :: "nat \<Rightarrow> nat \<Rightarrow> world \<Rightarrow> nat option c" where
  "fd_alloc_from 0 i w = Inr None"
| "fd_alloc_from (Suc k) i w = bindE (rd (vmap w) (INDEX2FD i)) (\<lambda>p. if p = None then Inr (Some (INDEX2FD i)) else fd_alloc_from k (i + 1) w)"

definition fd_alloc :: "world \<Rightarrow> (int \<times> nat option) c" where
  "fd_alloc w = bindE (fd_alloc_from MAXFD 0 w) (\<lambda>r. Inr (case r of Some fd \<Rightarrow> (0, Some fd) | None \<Rightarrow> (- E_MAX_OPEN, None)))"

definition fd_lookup :: "int \<Rightarrow> world \<Rightarrow> (int \<times> nat option) c" where
  "fd_lookup fdnum w =
     (if fdnum < 0 \<or> fdnum \<ge> int MAXFD then Inr (- E_INVAL, None)
      else bindE (rd (vmap w) (INDEX2FD (nat fdnum))) (\<lambda>p.
           Inr (if p = None then (- E_INVAL, None) else (0, Some (INDEX2FD (nat fdnum))))))"

record dev =
  dev_id :: u32
  dev_read :: "(nat \<Rightarrow> u32 \<Rightarrow> world \<Rightarrow> (int \<times> u8 list \<times> world) c) option"
  dev_write :: "(nat \<Rightarrow> u8 list \<Rightarrow> world \<Rightarrow> (int \<times> world) c) option"
  dev_close :: "(nat \<Rightarrow> world \<Rightarrow> (int \<times> world) c) option"
  dev_trunc :: "(nat \<Rightarrow> i32 \<Rightarrow> world \<Rightarrow> (int \<times> world) c) option"
  dev_stat :: "(nat \<Rightarrow> world \<Rightarrow> (int \<times> (u8 list \<times> i32 \<times> bool) \<times> world) c) option"

fun dev_lookup :: "dev list \<Rightarrow> u32 \<Rightarrow> int \<times> dev option" where
  "dev_lookup [] i = (- E_INVAL, None)"
| "dev_lookup (d # devtab) i = (if dev_id d = i then (0, Some d) else dev_lookup devtab i)"

definition fd_close :: "dev list \<Rightarrow> nat \<Rightarrow> bool \<Rightarrow> world \<Rightarrow> (int \<times> world) c" where
  "fd_close devtab fd must_exist w =
     bindE (fd_lookup (int fd) w) (\<lambda>(r, fd2).
     if r < 0 \<or> fd2 \<noteq> Some fd then Inr (if must_exist then r else 0, w)
     else bindE (fd_page_at fd w) (\<lambda>p.
          bindE (case dev_lookup devtab (fd_dev_id p) of
                   (r, None) \<Rightarrow> Inr (r, w)
                 | (r, Some d) \<Rightarrow> (case dev_close d of Some f \<Rightarrow> f fd w | None \<Rightarrow> Inr (0, w))) (\<lambda>(r, w).
          bindE (page_unmap fd w) (\<lambda>w. Inr (r, w)))))"

definition user_close :: "dev list \<Rightarrow> int \<Rightarrow> world \<Rightarrow> (int \<times> world) c" where
  "user_close devtab fdnum w = bindE (fd_lookup fdnum w) (\<lambda>(r, fd). case fd of
     None \<Rightarrow> Inr (r, w)
   | Some fd \<Rightarrow> fd_close devtab fd True w)"

fun close_from :: "dev list \<Rightarrow> nat \<Rightarrow> nat \<Rightarrow> world \<Rightarrow> world c" where
  "close_from devtab 0 i w = Inr w"
| "close_from devtab (Suc k) i w = bindE (user_close devtab (int i) w) (\<lambda>(r, w). close_from devtab k (i + 1) w)"

definition close_all :: "dev list \<Rightarrow> world \<Rightarrow> world c" where "close_all devtab w = close_from devtab MAXFD 0 w"

text \<open>\<open>newfdnum\<close> is not compared with \<open>MAXFD\<close>: from 32 on its page is a data page.\<close>

definition user_dup :: "dev list \<Rightarrow> int \<Rightarrow> int \<Rightarrow> world \<Rightarrow> (int \<times> world) c" where
  "user_dup devtab oldfdnum newfdnum w = bindE (fd_lookup oldfdnum w) (\<lambda>(r, oldfd). case oldfd of
     None \<Rightarrow> Inr (r, w)
   | Some oldfd \<Rightarrow>
       bindE (user_close devtab newfdnum w) (\<lambda>(_, w).
       bindE (guardE OutOfBounds (0 \<le> newfdnum)) (\<lambda>_.
       let newfd = INDEX2FD (nat newfdnum); ova = INDEX2DATA oldfd; nva = INDEX2DATA newfd;
           err = (\<lambda>r w. bindE (page_unmap newfd w) (\<lambda>w. bindE (page_unmap nva w) (\<lambda>w. Inr (r, w))))
       in bindE (rd (vmap w) ova) (\<lambda>data.
          bindE (if data \<noteq> None then page_map ova nva w else Inr (0, w)) (\<lambda>(r, w).
          if r < 0 then err r w
          else bindE (page_map oldfd newfd w) (\<lambda>(r, w).
               if r < 0 then err r w else Inr (newfdnum, w)))))))"

text \<open>The start \<open>read\<close>, \<open>write\<close>, \<open>ftruncate\<close> and \<open>fstat\<close> share; \<open>dflt\<close> stands for results that are not there after an error.\<close>

definition with_dev ::
  "dev list \<Rightarrow> int \<Rightarrow> 'a \<Rightarrow> (nat \<Rightarrow> fd_page \<Rightarrow> dev \<Rightarrow> world \<Rightarrow> (int \<times> 'a \<times> world) c) \<Rightarrow> world \<Rightarrow> (int \<times> 'a \<times> world) c" where
  "with_dev devtab fdnum dflt f w = bindE (fd_lookup fdnum w) (\<lambda>(r, fd). case fd of
     None \<Rightarrow> Inr (r, dflt, w)
   | Some fd \<Rightarrow> bindE (fd_page_at fd w) (\<lambda>p. case dev_lookup devtab (fd_dev_id p) of
       (r, None) \<Rightarrow> Inr (r, dflt, w)
     | (r, Some d) \<Rightarrow> f fd p d w))"

text \<open>The result and the bytes that are stored in the buffer.\<close>

definition user_read :: "dev list \<Rightarrow> int \<Rightarrow> u32 \<Rightarrow> world \<Rightarrow> (int \<times> u8 list \<times> world) c" where
  "user_read devtab fdnum n w = with_dev devtab fdnum [] (\<lambda>fd p d w.
     if fd_omode p AND O_ACCMODE = O_WRONLY then Inr (- E_INVAL, [], w)
     else case dev_read d of None \<Rightarrow> Inr (- E_NOT_SUPP, [], w) | Some f \<Rightarrow> f fd n w) w"

text \<open>\<open>readn\<close>: a round that goes on reads at least a byte.\<close>

fun readn_loop :: "nat \<Rightarrow> dev list \<Rightarrow> int \<Rightarrow> u32 \<Rightarrow> u8 list \<Rightarrow> world \<Rightarrow> (int \<times> u8 list \<times> world) c" where
  "readn_loop 0 devtab fdnum n buf w = Inl Diverges"
| "readn_loop (Suc k) devtab fdnum n buf w =
     (if of_nat (length buf) < n
      then bindE (user_read devtab fdnum (n - of_nat (length buf)) w) (\<lambda>(m, bs, w).
           if m < 0 then Inr (m, buf @ bs, w)
           else if m = 0 then Inr (int (length buf), buf @ bs, w)
           else readn_loop k devtab fdnum n (buf @ take (nat m) bs) w)
      else Inr (int (length buf), buf, w))"

definition user_readn :: "dev list \<Rightarrow> int \<Rightarrow> u32 \<Rightarrow> world \<Rightarrow> (int \<times> u8 list \<times> world) c" where
  "user_readn devtab fdnum n w = readn_loop (unat n + 1) devtab fdnum n [] w"

definition user_write :: "dev list \<Rightarrow> int \<Rightarrow> u8 list \<Rightarrow> world \<Rightarrow> (int \<times> world) c" where
  "user_write devtab fdnum buf w = bindE (with_dev devtab fdnum () (\<lambda>fd p d w.
     if fd_omode p AND O_ACCMODE = O_RDONLY then Inr (- E_INVAL, (), w)
     else case dev_write d of None \<Rightarrow> Inr (- E_NOT_SUPP, (), w) | Some f \<Rightarrow> bindE (f fd buf w) (\<lambda>(r, w). Inr (r, (), w))) w)
     (\<lambda>(r, _, w). Inr (r, w))"

definition user_seek :: "int \<Rightarrow> i32 \<Rightarrow> world \<Rightarrow> (int \<times> world) c" where
  "user_seek fdnum offset w = bindE (fd_lookup fdnum w) (\<lambda>(r, fd). case fd of
     None \<Rightarrow> Inr (r, w)
   | Some fd \<Rightarrow> bindE (set_fd_at fd (\<lambda>p. p\<lparr>fd_offset := offset\<rparr>) w) (\<lambda>w. Inr (0, w)))"

definition user_ftruncate :: "dev list \<Rightarrow> int \<Rightarrow> i32 \<Rightarrow> world \<Rightarrow> (int \<times> world) c" where
  "user_ftruncate devtab fdnum newsize w = bindE (with_dev devtab fdnum () (\<lambda>fd p d w.
     if fd_omode p AND O_ACCMODE = O_RDONLY then Inr (- E_INVAL, (), w)
     else case dev_trunc d of None \<Rightarrow> Inr (- E_NOT_SUPP, (), w) | Some f \<Rightarrow> bindE (f fd newsize w) (\<lambda>(r, w). Inr (r, (), w))) w)
     (\<lambda>(r, _, w). Inr (r, w))"

text \<open>The name, the size and whether it is a directory.\<close>

definition user_fstat :: "dev list \<Rightarrow> int \<Rightarrow> world \<Rightarrow> (int \<times> (u8 list \<times> i32 \<times> bool) \<times> world) c" where
  "user_fstat devtab fdnum w = with_dev devtab fdnum ([], 0, False) (\<lambda>fd p d w.
     case dev_stat d of None \<Rightarrow> Inr (- E_NOT_SUPP, ([], 0, False), w) | Some f \<Rightarrow> f fd w) w"

section \<open>Files\<close>

text \<open>
  A request to the server with the page \<open>req\<close> and its answer; a page that comes back is mapped at \<open>dst\<close>. Without an answer the
  program waits for ever.
\<close>

definition fsipc :: "u32 \<Rightarrow> (nat \<Rightarrow> u8) \<Rightarrow> nat option \<Rightarrow> world \<Rightarrow> (int \<times> (nat \<Rightarrow> u8) \<times> world) c" where
  "fsipc code req dst w =
     bindE (serve_request code (PTE_P OR PTE_W OR PTE_U) req (sv w)) (\<lambda>(answer, req, s).
     let w = w\<lparr>sv := s\<rparr>
     in case answer of
          None \<Rightarrow> Inl Blocked
        | Some (r, pg) \<Rightarrow>
            bindE (case (pg, dst) of (Some p, Some v) \<Rightarrow> map_page v p w | _ \<Rightarrow> Inr w) (\<lambda>w. Inr (r, req, w)))"

text \<open>The request page \<open>fsipcbuf\<close> keeps what it had, here \<open>buf\<close>.\<close>

definition request_page :: "u32 list \<Rightarrow> (nat \<Rightarrow> u8) \<Rightarrow> nat \<Rightarrow> u8" where
  "request_page ws buf = foldl (\<lambda>b (i, x). put32 (4 * i) x b) buf (zip [0..<length ws] ws)"

definition devfile_flush :: "(nat \<Rightarrow> u8) \<Rightarrow> nat \<Rightarrow> world \<Rightarrow> (int \<times> world) c" where
  "devfile_flush buf fd w = bindE (fd_page_at fd w) (\<lambda>p.
     bindE (fsipc FSREQ_FLUSH (request_page [fd_file_id p] buf) None w) (\<lambda>(r, req, w). Inr (r, w)))"

definition devfile_read :: "(nat \<Rightarrow> u8) \<Rightarrow> nat \<Rightarrow> u32 \<Rightarrow> world \<Rightarrow> (int \<times> u8 list \<times> world) c" where
  "devfile_read buf fd n w = bindE (fd_page_at fd w) (\<lambda>p.
     bindE (fsipc FSREQ_READ (request_page [fd_file_id p, n] buf) None w) (\<lambda>(r, req, w).
     if r < 0 then Inr (r, [], w)
     else bindE (guardE AssertFail (nat r \<le> unat n \<and> r \<le> 4096)) (\<lambda>_. Inr (r, get_bytes req 0 (nat r), w))))"

definition devfile_write :: "(nat \<Rightarrow> u8) \<Rightarrow> nat \<Rightarrow> u8 list \<Rightarrow> world \<Rightarrow> (int \<times> world) c" where
  "devfile_write buf fd bytes w = bindE (fd_page_at fd w) (\<lambda>p.
     let n = min 2048 (length bytes)
     in bindE (fsipc FSREQ_WRITE (put_bytes 8 (take n bytes) (request_page [fd_file_id p, of_nat n] buf)) None w) (\<lambda>(r, req, w). Inr (r, w)))"

definition devfile_stat :: "(nat \<Rightarrow> u8) \<Rightarrow> nat \<Rightarrow> world \<Rightarrow> (int \<times> (u8 list \<times> i32 \<times> bool) \<times> world) c" where
  "devfile_stat buf fd w = bindE (fd_page_at fd w) (\<lambda>p.
     bindE (fsipc FSREQ_STAT (request_page [fd_file_id p] buf) None w) (\<lambda>(r, req, w).
     if r < 0 then Inr (r, ([], 0, False), w)
     else Inr (0, (takeWhile (\<lambda>c. c \<noteq> 0) (get_bytes req 0 MAXNAMELEN), get32 req 128, get32 req 132 \<noteq> 0), w)))"

definition devfile_trunc :: "(nat \<Rightarrow> u8) \<Rightarrow> nat \<Rightarrow> i32 \<Rightarrow> world \<Rightarrow> (int \<times> world) c" where
  "devfile_trunc buf fd newsize w = bindE (fd_page_at fd w) (\<lambda>p.
     bindE (fsipc FSREQ_SET_SIZE (request_page [fd_file_id p, newsize] buf) None w) (\<lambda>(r, req, w). Inr (r, w)))"

definition devfile :: "(nat \<Rightarrow> u8) \<Rightarrow> dev" where
  "devfile buf = \<lparr>dev_id = DEVFILE_ID, dev_read = Some (devfile_read buf), dev_write = Some (devfile_write buf),
     dev_close = Some (devfile_flush buf), dev_trunc = Some (devfile_trunc buf), dev_stat = Some (devfile_stat buf)\<rparr>"

text \<open>\<open>path\<close> is a string without the NUL.\<close>

definition user_open :: "dev list \<Rightarrow> (nat \<Rightarrow> u8) \<Rightarrow> u8 list \<Rightarrow> u32 \<Rightarrow> world \<Rightarrow> (int \<times> world) c" where
  "user_open devtab buf path mode w =
     (if length path \<ge> MAXPATHLEN then Inr (- E_BAD_PATH, w)
      else bindE (fd_alloc w) (\<lambda>(r, fd). case fd of
             None \<Rightarrow> Inr (r, w)
           | Some fd \<Rightarrow>
               bindE (fsipc FSREQ_OPEN (put32 MAXPATHLEN mode (put_bytes 0 (path @ [0]) buf)) (Some fd) w) (\<lambda>(r, req, w).
               if r < 0 then bindE (fd_close devtab fd False w) (\<lambda>(_, w). Inr (r, w)) else Inr (int fd, w))))"

definition user_stat :: "dev list \<Rightarrow> (nat \<Rightarrow> u8) \<Rightarrow> u8 list \<Rightarrow> world \<Rightarrow> (int \<times> (u8 list \<times> i32 \<times> bool) \<times> world) c" where
  "user_stat devtab buf path w =
     bindE (user_open devtab buf path O_RDONLY w) (\<lambda>(fd, w).
     if fd < 0 then Inr (fd, ([], 0, False), w)
     else bindE (user_fstat devtab fd w) (\<lambda>(r, st, w). bindE (user_close devtab fd w) (\<lambda>(_, w). Inr (r, st, w))))"

definition user_sync :: "(nat \<Rightarrow> u8) \<Rightarrow> world \<Rightarrow> (int \<times> world) c" where
  "user_sync buf w = bindE (fsipc FSREQ_SYNC buf None w) (\<lambda>(r, req, w). Inr (r, w))"

end
