(* ===== verification/JosFsBlocks.thy ===== *)
theory JosFsBlocks
  imports JosFs JosMapping
begin

text \<open>
  Words in byte memory, the free-block bitmap of the file system, and the invariant of a file: where
  its blocks are, and that the operations that add a block to a file keep those it has.
\<close>

section \<open>Words in memory\<close>

lemma bit_u8_to_u32: "bit (ucast (b :: u8) :: u32) n \<longleftrightarrow> n < 8 \<and> bit b n"
  using bit_imp_le_length [of b n] by (auto simp: bit_ucast_iff)

lemma byte_high: "8 \<le> k \<Longrightarrow> \<not> bit (b :: u8) k"
  using bit_imp_le_length [of b k] by auto

lemma get32_bit:
  assumes "k < 4" "j < 8"
  shows "bit (get32 m a) (8 * k + j) = bit (m (a + k)) j"
proof -
  from assms(1) consider "k = 0" | "k = 1" | "k = 2" | "k = 3" by linarith
  then show ?thesis
    using assms(2) by cases (simp_all add: get32_def bit_or_iff bit_push_bit_iff bit_u8_to_u32 byte_high)
qed

lemma get32_cong: "(\<And>x. a \<le> x \<Longrightarrow> x < a + 4 \<Longrightarrow> m x = m' x) \<Longrightarrow> get32 m a = get32 m' a"
  by (simp add: get32_def)

lemma get32_put32 [simp]: "get32 (put32 a w m) a = w"
proof (rule bit_word_eqI)
  fix n assume "n < LENGTH(32)"
  then have n: "n div 8 < 4" "n mod 8 < 8" "n = 8 * (n div 8) + n mod 8" by simp_all
  from n(1) consider "n div 8 = 0" | "n div 8 = 1" | "n div 8 = 2" | "n div 8 = 3" by linarith
  then have "bit (put32 a w m (a + n div 8)) (n mod 8) = bit w (8 * (n div 8) + n mod 8)"
    using n(2) by cases (simp_all add: put32_def bit_ucast_iff bit_drop_bit_eq)
  then show "bit (get32 (put32 a w m) a) n = bit w n"
    using get32_bit [OF n(1,2), of "put32 a w m" a] n(3) by simp
qed

lemma put32_other: "x < a \<or> a + 4 \<le> x \<Longrightarrow> put32 a w m x = m x"
  by (auto simp: put32_def)

lemma get32_put32_other: "b + 4 \<le> a \<or> a + 4 \<le> b \<Longrightarrow> get32 (put32 a w m) b = get32 m b"
  by (rule get32_cong) (auto simp: put32_other)

lemma put_bytes_other: "x < a \<or> a + length bs \<le> x \<Longrightarrow> put_bytes a bs m x = m x"
  by (auto simp: put_bytes_def)

lemma put_bytes_in: "k < length bs \<Longrightarrow> put_bytes a bs m (a + k) = bs ! k"
  by (simp add: put_bytes_def)

lemma get32_zeros: "(\<And>x. a \<le> x \<Longrightarrow> x < a + 4 \<Longrightarrow> m x = 0) \<Longrightarrow> get32 m a = 0"
  by (simp add: get32_def)

section \<open>The disk\<close>

definition nblk :: "(nat \<Rightarrow> u8) \<Rightarrow> nat" where "nblk m = unat (get32 m 4100)"
definition first_data :: "(nat \<Rightarrow> u8) \<Rightarrow> nat" where "first_data m = 2 + (nblk m + 32767) div 32768"
definition is_free :: "(nat \<Rightarrow> u8) \<Rightarrow> nat \<Rightarrow> bool" where
  "is_free m b \<longleftrightarrow> b < nblk m \<and> bit (get32 m (bitmap_at b)) (b mod 32)"

definition disk_ok :: "(nat \<Rightarrow> u8) \<Rightarrow> bool" where
  "disk_ok m \<longleftrightarrow> nblk m \<le> 786432 \<and> (\<forall>b < first_data m. \<not> is_free m b)"

lemma nblk_s [simp]: "unat (s_nblocks s) = nblk (fmem s)"
  by (simp add: nblk_def s_nblocks_def BLKSIZE_def)

lemma bitmap_range: "b < nblk m \<Longrightarrow> 8192 \<le> bitmap_at b \<and> bitmap_at b + 4 \<le> first_data m * 4096"
proof -
  assume b: "b < nblk m"
  have "b div 32 < 1024 * ((nblk m + 32767) div 32768)"
  proof -
    have "nblk m \<le> 32768 * ((nblk m + 32767) div 32768)" by linarith
    with b show ?thesis by linarith
  qed
  then show ?thesis by (simp add: bitmap_at_def BLKSIZE_def first_data_def)
qed

lemma bitmap_at_eq: "bitmap_at b \<noteq> bitmap_at c \<Longrightarrow> bitmap_at b + 4 \<le> bitmap_at c \<or> bitmap_at c + 4 \<le> bitmap_at b"
  by (auto simp: bitmap_at_def BLKSIZE_def)

text \<open>Two memories with the same super block and bitmap.\<close>

lemma disk_agree:
  assumes "\<And>x. x < first_data m * 4096 \<Longrightarrow> 4096 \<le> x \<Longrightarrow> x < 4104 \<or> 8192 \<le> x \<Longrightarrow> m' x = m x"
  shows "nblk m' = nblk m" "first_data m' = first_data m" "is_free m' b = is_free m b" "disk_ok m' = disk_ok m"
proof -
  have "get32 m' 4100 = get32 m 4100"
    by (rule get32_cong) (use assms in \<open>auto simp: first_data_def\<close>)
  then show n: "nblk m' = nblk m" by (simp add: nblk_def)
  then show d: "first_data m' = first_data m" by (simp add: first_data_def)
  have f: "is_free m' b = is_free m b" for b
  proof (cases "b < nblk m")
    case True
    then have "get32 m' (bitmap_at b) = get32 m (bitmap_at b)"
      using bitmap_range [OF True] by (intro get32_cong assms) linarith+
    then show ?thesis using n by (simp add: is_free_def)
  qed (simp add: is_free_def n)
  then show "is_free m' b = is_free m b" .
  show "disk_ok m' = disk_ok m" using n d f by (simp add: disk_ok_def)
qed

text \<open>Changing the bit of one block.\<close>

lemma bitmap_change:
  assumes b: "b < nblk m" and m': "m' = put32 (bitmap_at b) w m"
  shows "nblk m' = nblk m" "first_data m' = first_data m"
    "is_free m' c = (if bitmap_at c = bitmap_at b then c < nblk m \<and> bit w (c mod 32) else is_free m c)"
proof -
  note r = bitmap_range [OF b]
  show n: "nblk m' = nblk m" using r by (simp add: m' nblk_def get32_put32_other)
  then show "first_data m' = first_data m" by (simp add: first_data_def)
  show "is_free m' c = (if bitmap_at c = bitmap_at b then c < nblk m \<and> bit w (c mod 32) else is_free m c)"
    using n bitmap_at_eq [of b c] by (auto simp: is_free_def m' get32_put32_other)
qed

lemma same_word: "bitmap_at b = bitmap_at c \<and> b mod 32 = c mod 32 \<longleftrightarrow> b = c"
proof -
  have "bitmap_at b = bitmap_at c \<longleftrightarrow> b div 32 = c div 32" by (simp add: bitmap_at_def)
  then show ?thesis by (metis mod_div_decomp)
qed

lemma mark_used:
  assumes "b < nblk m"
  defines "m' \<equiv> put32 (bitmap_at b) (get32 m (bitmap_at b) AND NOT (block_bit b)) m"
  shows "nblk m' = nblk m" "first_data m' = first_data m" "is_free m' c = (is_free m c \<and> c \<noteq> b)"
    "disk_ok m \<Longrightarrow> disk_ok m'"
proof -
  note c = bitmap_change [OF assms(1) m'_def [THEN meta_eq_to_obj_eq]]
  show n: "nblk m' = nblk m" and d: "first_data m' = first_data m" by (rule c)+
  have f: "is_free m' c = (is_free m c \<and> c \<noteq> b)" for c
    using c(3) [of c] same_word [of c b] by (auto simp: is_free_def bit_and_iff bit_not_iff block_bit_bit)
  then show "is_free m' c = (is_free m c \<and> c \<noteq> b)" .
  show "disk_ok m \<Longrightarrow> disk_ok m'" by (simp add: disk_ok_def n d f)
qed

lemma mark_free:
  assumes "b < nblk m"
  defines "m' \<equiv> put32 (bitmap_at b) (get32 m (bitmap_at b) OR block_bit b) m"
  shows "nblk m' = nblk m" "first_data m' = first_data m" "is_free m' c = (is_free m c \<or> c = b)"
proof -
  note c = bitmap_change [OF assms(1) m'_def [THEN meta_eq_to_obj_eq]]
  show n: "nblk m' = nblk m" and d: "first_data m' = first_data m" by (rule c)+
  show "is_free m' c = (is_free m c \<or> c = b)"
    using c(3) [of c] same_word [of c b] assms(1) by (auto simp: is_free_def bit_or_iff block_bit_bit)
qed

lemma find_free_spec:
  "i + k \<le> nblk m \<Longrightarrow> (case find_free k i m of
     None \<Rightarrow> \<forall>b. i \<le> b \<and> b < i + k \<longrightarrow> \<not> is_free m b
   | Some b \<Rightarrow> i \<le> b \<and> b < i + k \<and> is_free m b \<and> (\<forall>c. i \<le> c \<and> c < b \<longrightarrow> \<not> is_free m c))"
proof (induction k arbitrary: i)
  case 0
  then show ?case by auto
next
  case (Suc k)
  have t: "is_free m i = (get32 m (bitmap_at i) AND block_bit i \<noteq> 0)"
    using Suc.prems block_bit_test [of "get32 m (bitmap_at i)" i] by (simp add: is_free_def)
  show ?case
  proof (cases "is_free m i")
    case True
    then show ?thesis using t by auto
  next
    case False
    have "c = i \<or> Suc i \<le> c" if "i \<le> c" for c using that by linarith
    then show ?thesis using Suc.IH [of "Suc i"] Suc.prems False t
      by (auto split: option.splits)
  qed
qed

lemma alloc_block_cases:
  assumes "disk_ok (fmem s)"
  obtains "alloc_block s = Inr (- E_NO_DISK, s)" "\<forall>b. \<not> is_free (fmem s) b"
  | b s' where "alloc_block s = Inr (int b, s')" "is_free (fmem s) b" "\<forall>c < b. \<not> is_free (fmem s) c"
      "first_data (fmem s) \<le> b" "b < nblk (fmem s)"
      "fmem s' = put32 (bitmap_at b) (get32 (fmem s) (bitmap_at b) AND NOT (block_bit b)) (fmem s)"
proof -
  let ?m = "fmem s"
  note f = find_free_spec [of 0 "nblk ?m" ?m]
  show ?thesis
  proof (cases "find_free (nblk ?m) 0 ?m")
    case None
    then have "\<not> is_free ?m b" for b using f by (auto simp: is_free_def)
    then show ?thesis using that(1) None by (simp add: alloc_block_def)
  next
    case (Some b)
    then have b: "b < nblk ?m" "is_free ?m b" "\<forall>c < b. \<not> is_free ?m c" using f by auto
    moreover have "first_data ?m \<le> b" using b assms by (auto simp: disk_ok_def intro: leI)
    moreover have "\<exists>s'. alloc_block s = Inr (int b, s') \<and>
        fmem s' = put32 (bitmap_at b) (get32 ?m (bitmap_at b) AND NOT (block_bit b)) ?m"
      using Some by (simp add: alloc_block_def flush_block_def set_mem_def BLKSIZE_def DISKSIZE_def Let_def)
    ultimately show ?thesis using that(2) by blast
  qed
qed

section \<open>A file and its blocks\<close>

definition ind :: "(nat \<Rightarrow> u8) \<Rightarrow> nat \<Rightarrow> nat" where "ind m f = unat (get32 m (f + 176))"

definition slot :: "(nat \<Rightarrow> u8) \<Rightarrow> nat \<Rightarrow> nat \<Rightarrow> nat" where
  "slot m f i = (if i < 10 then f + 136 + 4 * i else ind m f * 4096 + 4 * (i - 10))"

definition nptr :: "(nat \<Rightarrow> u8) \<Rightarrow> nat \<Rightarrow> nat" where "nptr m f = (if ind m f = 0 then 10 else 1034)"

definition ptr :: "(nat \<Rightarrow> u8) \<Rightarrow> nat \<Rightarrow> nat \<Rightarrow> nat" where "ptr m f i = unat (get32 m (slot m f i))"

text \<open>A data block in use that is not the one the \<open>struct File\<close> lies in.\<close>

definition own :: "(nat \<Rightarrow> u8) \<Rightarrow> nat \<Rightarrow> nat \<Rightarrow> bool" where
  "own m f b \<longleftrightarrow> first_data m \<le> b \<and> b < nblk m \<and> \<not> is_free m b \<and> b \<noteq> f div 4096"

text \<open>
  The invariant of a file: its structure lies in the super block or in a data block, and its blocks
  are data blocks in use, all different.
\<close>

definition struct_ok :: "(nat \<Rightarrow> u8) \<Rightarrow> nat \<Rightarrow> bool" where
  "struct_ok m f \<longleftrightarrow> 4104 \<le> f \<and> (f + 255) div 4096 = f div 4096 \<and>
     (f div 4096 = 1 \<or> first_data m \<le> f div 4096 \<and> f div 4096 < nblk m \<and> \<not> is_free m (f div 4096))"

definition file_ok :: "(nat \<Rightarrow> u8) \<Rightarrow> nat \<Rightarrow> bool" where
  "file_ok m f \<longleftrightarrow> disk_ok m \<and> struct_ok m f \<and> (ind m f \<noteq> 0 \<longrightarrow> own m f (ind m f)) \<and>
     (\<forall>i < nptr m f. ptr m f i \<noteq> 0 \<longrightarrow> own m f (ptr m f i) \<and> ptr m f i \<noteq> ind m f) \<and>
     (\<forall>i < nptr m f. \<forall>j < nptr m f. ptr m f i \<noteq> 0 \<and> ptr m f i = ptr m f j \<longrightarrow> i = j)"

text \<open>A block that is in use but not yet a block of the file.\<close>

definition fresh :: "(nat \<Rightarrow> u8) \<Rightarrow> nat \<Rightarrow> nat \<Rightarrow> bool" where
  "fresh m f b \<longleftrightarrow> own m f b \<and> b \<noteq> ind m f \<and> (\<forall>i < nptr m f. ptr m f i \<noteq> b)"

lemma file_okD:
  assumes "file_ok m f"
  shows "disk_ok m" "struct_ok m f" "ind m f \<noteq> 0 \<Longrightarrow> own m f (ind m f)"
    "i < nptr m f \<Longrightarrow> ptr m f i \<noteq> 0 \<Longrightarrow> own m f (ptr m f i) \<and> ptr m f i \<noteq> ind m f"
    "i < nptr m f \<Longrightarrow> j < nptr m f \<Longrightarrow> ptr m f i \<noteq> 0 \<Longrightarrow> ptr m f i = ptr m f j \<Longrightarrow> i = j"
  using assms by (auto simp: file_ok_def)

lemma first_data_2: "2 \<le> first_data m" by (simp add: first_data_def)

lemma block_range: "x div 4096 = b \<longleftrightarrow> b * 4096 \<le> x \<and> x < b * 4096 + 4096" for x :: nat
  by auto

lemma struct_range:
  assumes "struct_ok m f"
  shows "f div 4096 * 4096 \<le> f" "f + 256 \<le> f div 4096 * 4096 + 4096" "4104 \<le> f"
    "f + 256 \<le> 8192 \<or> first_data m * 4096 \<le> f"
proof -
  have s: "4104 \<le> f" "(f + 255) div 4096 = f div 4096" "f div 4096 = 1 \<or> first_data m \<le> f div 4096"
    using assms by (auto simp: struct_ok_def)
  show "f div 4096 * 4096 \<le> f" by simp
  show r: "f + 256 \<le> f div 4096 * 4096 + 4096" using s(2) block_range [of "f + 255" "f div 4096"] by linarith
  show "4104 \<le> f" by (rule s)
  have "first_data m * 4096 \<le> f" if "first_data m \<le> f div 4096"
    using mult_le_mono1 [OF that, of 4096] div_times_less_eq_dividend [of f 4096] by linarith
  then show "f + 256 \<le> 8192 \<or> first_data m * 4096 \<le> f" using s(3) r by auto
qed

text \<open>The bytes that say where the blocks of a file are.\<close>

definition meta :: "(nat \<Rightarrow> u8) \<Rightarrow> nat \<Rightarrow> nat \<Rightarrow> bool" where
  "meta m f x \<longleftrightarrow> 4096 \<le> x \<and> x < 4104 \<or> 8192 \<le> x \<and> x < first_data m * 4096 \<or>
     f + 136 \<le> x \<and> x < f + 180 \<or> ind m f \<noteq> 0 \<and> x div 4096 = ind m f"

lemma slot_meta:
  assumes "i < nptr m f" "slot m f i \<le> x" "x < slot m f i + 4"
  shows "meta m f x"
proof (cases "i < 10")
  case True
  then show ?thesis using assms by (auto simp: slot_def meta_def)
next
  case False
  then have "ind m f \<noteq> 0" "i < 1034" using assms(1) by (auto simp: nptr_def split: if_splits)
  then show ?thesis using False assms by (auto simp: slot_def meta_def)
qed

lemma meta_agree:
  assumes "\<And>x. meta m f x \<Longrightarrow> m' x = m x"
  shows "nblk m' = nblk m" "first_data m' = first_data m" "is_free m' = is_free m" "disk_ok m' = disk_ok m"
    "ind m' f = ind m f" "nptr m' f = nptr m f" "slot m' f = slot m f" "i < nptr m f \<Longrightarrow> ptr m' f i = ptr m f i"
    "file_ok m' f = file_ok m f"
proof -
  have a: "m' x = m x" if "x < first_data m * 4096" "4096 \<le> x" "x < 4104 \<or> 8192 \<le> x" for x
    using assms that by (auto simp: meta_def)
  note d = disk_agree [OF a]
  show n: "nblk m' = nblk m" and fd: "first_data m' = first_data m" and dk: "disk_ok m' = disk_ok m"
    by (rule d; assumption)+
  show fr: "is_free m' = is_free m" by (rule ext, rule d; assumption)
  have "get32 m' (f + 176) = get32 m (f + 176)" by (rule get32_cong) (auto intro: assms simp: meta_def)
  then show i: "ind m' f = ind m f" by (simp add: ind_def)
  show np: "nptr m' f = nptr m f" by (simp add: nptr_def i)
  show sl: "slot m' f = slot m f" by (simp add: slot_def fun_eq_iff i)
  have p: "ptr m' f i = ptr m f i" if "i < nptr m f" for i
  proof -
    have "get32 m' (slot m f i) = get32 m (slot m f i)" by (rule get32_cong, rule assms, rule slot_meta [OF that])
    then show ?thesis by (simp add: ptr_def sl)
  qed
  then show "i < nptr m f \<Longrightarrow> ptr m' f i = ptr m f i" .
  show "file_ok m' f = file_ok m f"
    by (simp add: file_ok_def struct_ok_def own_def n fd fr dk i np p)
qed

text \<open>Writing in a block of the file changes no other block and none of its pointers.\<close>

lemma data_meta:
  assumes "struct_ok m f" "own m f p" "p \<noteq> ind m f" "meta m f x"
  shows "x div 4096 \<noteq> p"
proof
  assume x: "x div 4096 = p"
  note s = struct_range [OF assms(1)] and f = first_data_2 [of m]
  have p: "first_data m \<le> p" "p \<noteq> f div 4096" using assms(2) by (auto simp: own_def)
  then have "first_data m * 4096 \<le> x" using x block_range [of x p] mult_le_mono1 [OF p(1), of 4096] by linarith
  with f have "f + 136 \<le> x \<and> x < f + 180" using assms(3,4) x by (auto simp: meta_def)
  then have "x div 4096 = f div 4096" using s(1,2) block_range [of x "f div 4096"] by linarith
  then show False using x p(2) by simp
qed

lemma own_range: "own m f b \<Longrightarrow> x div 4096 = b \<Longrightarrow> first_data m * 4096 \<le> x"
  using block_range [of x b] mult_le_mono1 [of "first_data m" b 4096] unfolding own_def by linarith

lemma slot_outside_bitmap:
  assumes "file_ok m f" "i < nptr m f" "slot m f i \<le> x" "x < slot m f i + 4"
  shows "x < 8192 \<or> first_data m * 4096 \<le> x"
proof (cases "i < 10")
  case True
  then show ?thesis
    using assms struct_range [OF file_okD(2) [OF assms(1)]] by (auto simp: slot_def)
next
  case False
  then have i: "ind m f \<noteq> 0" "i < 1034" using assms(2) by (auto simp: nptr_def split: if_splits)
  then have "x div 4096 = ind m f" using False assms(3,4) by (auto simp: slot_def)
  then show ?thesis using own_range [OF file_okD(3) [OF assms(1) i(1)]] by simp
qed

text \<open>Taking a block for the file.\<close>

lemma alloc_fresh:
  assumes ok: "file_ok m f" and b: "is_free m b"
    and m': "m' = put32 (bitmap_at b) (get32 m (bitmap_at b) AND NOT (block_bit b)) m"
  shows "file_ok m' f" "fresh m' f b" "ind m' f = ind m f" "nptr m' f = nptr m f" "slot m' f = slot m f"
    "i < nptr m f \<Longrightarrow> ptr m' f i = ptr m f i" "nblk m' = nblk m" "first_data m' = first_data m"
    "x < 8192 \<or> first_data m * 4096 \<le> x \<Longrightarrow> m' x = m x"
proof -
  have bn: "b < nblk m" using b by (simp add: is_free_def)
  note u = mark_used [OF bn, folded m'] and r = bitmap_range [OF bn]
  show x: "m' x = m x" if "x < 8192 \<or> first_data m * 4096 \<le> x" for x
    unfolding m' by (rule put32_other) (use r that in linarith)
  note s = struct_range [OF file_okD(2) [OF ok]]
  have "get32 m' (f + 176) = get32 m (f + 176)" by (rule get32_cong, rule x) (use s in linarith)
  then show i: "ind m' f = ind m f" by (simp add: ind_def)
  show np: "nptr m' f = nptr m f" by (simp add: nptr_def i)
  show sl: "slot m' f = slot m f" by (simp add: slot_def fun_eq_iff i)
  have p: "ptr m' f i = ptr m f i" if "i < nptr m f" for i
  proof -
    have "get32 m' (slot m f i) = get32 m (slot m f i)"
      by (rule get32_cong, rule x, rule slot_outside_bitmap [OF ok that])
    then show ?thesis by (simp add: ptr_def sl)
  qed
  then show "i < nptr m f \<Longrightarrow> ptr m' f i = ptr m f i" .
  show n: "nblk m' = nblk m" "first_data m' = first_data m" by (rule u)+
  have dk: "disk_ok m'" by (rule u(4)) (rule file_okD [OF ok])
  have so: "struct_ok m' f" using file_okD(2) [OF ok] by (auto simp: struct_ok_def n u(3))
  have o: "own m' f c = (own m f c \<or> c = b)" for c
  proof -
    have "first_data m \<le> b" using b file_okD(1) [OF ok] by (auto simp: disk_ok_def intro: leI)
    moreover have "b \<noteq> f div 4096"
      using b file_okD(1,2) [OF ok] first_data_2 [of m] by (auto simp: struct_ok_def disk_ok_def)
    ultimately show ?thesis using bn by (auto simp: own_def n u(3))
  qed
  show "file_ok m' f"
    using ok by (auto simp: file_ok_def dk so i np p o)
  have "first_data m \<le> b" using b file_okD(1) [OF ok] by (auto simp: disk_ok_def intro: leI)
  then have b0: "b \<noteq> 0" using first_data_2 [of m] by auto
  have "b \<noteq> ind m f" using b b0 file_okD(3) [OF ok] by (auto simp: own_def)
  moreover have "ptr m f i \<noteq> b" if "i < nptr m f" for i
    using b b0 file_okD(4) [OF ok that] by (auto simp: own_def)
  ultimately show "fresh m' f b" by (simp add: fresh_def o i np p)
qed

text \<open>Entering a new block in a slot.\<close>

lemma slot_disjoint: "i < nptr m f \<Longrightarrow> j < nptr m f \<Longrightarrow> i \<noteq> j \<Longrightarrow> file_ok m f \<Longrightarrow>
   slot m f i + 4 \<le> slot m f j \<or> slot m f j + 4 \<le> slot m f i"
proof -
  assume a: "i < nptr m f" "j < nptr m f" "i \<noteq> j" and ok: "file_ok m f"
  have far: "slot m f i + 4 \<le> slot m f j \<or> slot m f j + 4 \<le> slot m f i"
    if "i < 10" "\<not> j < 10" "j < nptr m f" for i j
  proof -
    have nz: "ind m f \<noteq> 0" "j < 1034" using that by (auto simp: nptr_def split: if_splits)
    have "ind m f \<noteq> f div 4096" using file_okD(3) [OF ok nz(1)] by (simp add: own_def)
    then have "ind m f * 4096 + 4096 \<le> f div 4096 * 4096 \<or> f div 4096 * 4096 + 4096 \<le> ind m f * 4096"
      by (cases "ind m f < f div 4096") linarith+
    then show ?thesis using struct_range [OF file_okD(2) [OF ok]] that nz by (auto simp: slot_def)
  qed
  show ?thesis
  proof (cases "i < 10"; cases "j < 10")
    assume "i < 10" "j < 10" then show ?thesis using a by (auto simp: slot_def)
  next
    assume "i < 10" "\<not> j < 10" then show ?thesis using far a by blast
  next
    assume "\<not> i < 10" "j < 10" then show ?thesis using far [of j i] a by blast
  next
    assume "\<not> i < 10" "\<not> j < 10" then show ?thesis using a by (auto simp: slot_def)
  qed
qed

lemma u32_of: "b < nblk m \<Longrightarrow> unat (of_int (int b) :: u32) = b"
  using unat_u32 [of "get32 m 4100"] by (simp add: nblk_def unsigned_of_nat take_bit_nat_eq_self)

lemma enter_slot:
  assumes ok: "file_ok m f" and b: "fresh m f b" and i: "i < nptr m f"
    and m': "m' = put32 (slot m f i) (of_int (int b)) m"
  shows "file_ok m' f" "ind m' f = ind m f" "nptr m' f = nptr m f" "slot m' f = slot m f" "ptr m' f i = b"
    "j < nptr m f \<Longrightarrow> j \<noteq> i \<Longrightarrow> ptr m' f j = ptr m f j" "nblk m' = nblk m" "first_data m' = first_data m"
    "get32 m' (slot m f i) = of_int (int b)"
    "x < slot m f i \<or> slot m f i + 4 \<le> x \<Longrightarrow> m' x = m x"
proof -
  note s = struct_range [OF file_okD(2) [OF ok]]
  show x: "m' x = m x" if "x < slot m f i \<or> slot m f i + 4 \<le> x" for x
    unfolding m' by (rule put32_other) (rule that)
  show g: "get32 m' (slot m f i) = of_int (int b)" by (simp add: m')
  have sd: "4104 \<le> slot m f i" "slot m f i + 4 \<le> 8192 \<or> first_data m * 4096 \<le> slot m f i"
    "f + 176 < slot m f i \<and> f + 180 \<le> slot m f i \<or> slot m f i + 4 \<le> f + 176"
  proof -
    show "slot m f i + 4 \<le> 8192 \<or> first_data m * 4096 \<le> slot m f i"
    proof (cases "i < 10")
      case True
      then show ?thesis using s(4) by (auto simp: slot_def)
    next
      case False
      then have "ind m f \<noteq> 0" using i by (auto simp: nptr_def split: if_splits)
      then have "first_data m \<le> ind m f" using file_okD(3) [OF ok] by (simp add: own_def)
      then show ?thesis using False mult_le_mono1 [of "first_data m" "ind m f" 4096] by (auto simp: slot_def)
    qed
    have ind: "i < 10 \<or> ind m f \<noteq> 0 \<and> i < 1034" using i by (auto simp: nptr_def split: if_splits)
    then have r: "10 \<le> i \<Longrightarrow> first_data m \<le> ind m f \<and> ind m f \<noteq> f div 4096"
      using file_okD(3) [OF ok] by (auto simp: own_def)
    show "4104 \<le> slot m f i"
      using s(3) r first_data_2 [of m] mult_le_mono1 [of 2 "ind m f" 4096] by (cases "i < 10") (auto simp: slot_def)
    show "f + 176 < slot m f i \<and> f + 180 \<le> slot m f i \<or> slot m f i + 4 \<le> f + 176"
    proof (cases "i < 10")
      case True
      then show ?thesis by (simp add: slot_def)
    next
      case False
      then have "ind m f * 4096 + 4096 \<le> f div 4096 * 4096 \<or> f div 4096 * 4096 + 4096 \<le> ind m f * 4096"
        using r by (cases "ind m f < f div 4096") linarith+
      then show ?thesis using s False ind by (auto simp: slot_def)
    qed
  qed
  have d: "m' x = m x" if "x < first_data m * 4096" "4096 \<le> x" "x < 4104 \<or> 8192 \<le> x" for x
    by (rule x) (use sd that in linarith)
  note dd = disk_agree [OF d]
  show n: "nblk m' = nblk m" "first_data m' = first_data m" by (rule dd; assumption)+
  have fr: "is_free m' c = is_free m c" for c by (rule dd; assumption)
  have "disk_ok m' = disk_ok m" by (rule dd; assumption)
  then have dk: "disk_ok m'" using file_okD(1) [OF ok] by simp
  have "get32 m' (f + 176) = get32 m (f + 176)" by (rule get32_cong, rule x) (use sd in linarith)
  then show ind: "ind m' f = ind m f" by (simp add: ind_def)
  show np: "nptr m' f = nptr m f" by (simp add: nptr_def ind)
  show sl: "slot m' f = slot m f" by (simp add: slot_def fun_eq_iff ind)
  have bn: "b < nblk m" using b by (simp add: fresh_def own_def)
  show pi: "ptr m' f i = b" unfolding ptr_def sl g by (rule u32_of [OF bn])
  show p: "ptr m' f j = ptr m f j" if "j < nptr m f" "j \<noteq> i" for j
  proof -
    have "get32 m' (slot m f j) = get32 m (slot m f j)"
      by (rule get32_cong, rule x) (use slot_disjoint [OF that(1) i that(2) ok] in linarith)
    then show ?thesis by (simp add: ptr_def sl)
  qed
  have pj: "ptr m' f j = (if j = i then b else ptr m f j)" if "j < nptr m f" for j using pi p that by simp
  have o: "own m' f = own m f" by (simp add: own_def fun_eq_iff n fr)
  have so: "struct_ok m' f" using file_okD(2) [OF ok] by (simp add: struct_ok_def n fr)
  show "file_ok m' f"
    using ok b by (auto simp: file_ok_def dk so ind np pj o fresh_def)
qed

text \<open>Entering a new indirect block, cleared.\<close>

lemma enter_indirect:
  assumes ok: "file_ok m f" and b: "fresh m f b" and z: "ind m f = 0" and b0: "b \<noteq> 0"
    and m': "m' = put_bytes (b * 4096) (replicate 4096 0) (put32 (f + 176) (of_int (int b)) m)"
  shows "file_ok m' f" "ind m' f = b" "j < 10 \<Longrightarrow> ptr m' f j = ptr m f j" "10 \<le> j \<Longrightarrow> j < 1034 \<Longrightarrow> ptr m' f j = 0"
    "nblk m' = nblk m" "first_data m' = first_data m"
    "x div 4096 \<noteq> b \<Longrightarrow> x < f + 176 \<or> f + 180 \<le> x \<Longrightarrow> m' x = m x" "get32 m' (f + 176) = of_int (int b)"
proof -
  note s = struct_range [OF file_okD(2) [OF ok]]
  have o: "own m f b" and bp: "\<forall>i < nptr m f. ptr m f i \<noteq> b" using b by (auto simp: fresh_def)
  then have br: "first_data m \<le> b" "b < nblk m" "b \<noteq> f div 4096" by (auto simp: own_def)
  have zero: "m' x = 0" if "x div 4096 = b" for x
  proof -
    have "b * 4096 \<le> x" "x < b * 4096 + 4096" using block_range [of x b] that by auto
    then show ?thesis by (simp add: m' put_bytes_def)
  qed
  show x: "m' x = m x" if "x div 4096 \<noteq> b" "x < f + 176 \<or> f + 180 \<le> x" for x
  proof -
    have "x < b * 4096 \<or> b * 4096 + 4096 \<le> x" using block_range [of x b] that(1) by auto
    then have "m' x = put32 (f + 176) (of_int (int b)) m x" by (simp add: m' put_bytes_other)
    also have "\<dots> = m x" by (rule put32_other) (use that(2) in auto)
    finally show ?thesis .
  qed
  have fb: "x div 4096 \<noteq> b" if "f \<le> x" "x < f + 256" for x
    using s(1,2) that block_range [of x "f div 4096"] br(3) by auto
  have g: "get32 m' (f + 176) = get32 (put32 (f + 176) (of_int (int b)) m) (f + 176)"
  proof (rule get32_cong)
    fix x assume "f + 176 \<le> x" "x < f + 176 + 4"
    then have "x div 4096 \<noteq> b" using fb by simp
    then have "x < b * 4096 \<or> b * 4096 + 4096 \<le> x" using block_range [of x b] by auto
    then show "m' x = put32 (f + 176) (of_int (int b)) m x" by (simp add: m' put_bytes_other)
  qed
  then show g: "get32 m' (f + 176) = of_int (int b)" by simp
  show ib: "ind m' f = b" unfolding ind_def g by (rule u32_of [OF br(2)])
  have d: "m' x = m x" if "x < first_data m * 4096" "4096 \<le> x" "x < 4104 \<or> 8192 \<le> x" for x
  proof (rule x)
    show "x div 4096 \<noteq> b" using own_range [OF o, of x] that(1) by auto
    show "x < f + 176 \<or> f + 180 \<le> x" using that s(3,4) by linarith
  qed
  note dd = disk_agree [OF d]
  show n: "nblk m' = nblk m" "first_data m' = first_data m" by (rule dd; assumption)+
  have fr: "is_free m' c = is_free m c" for c by (rule dd; assumption)
  have "disk_ok m' = disk_ok m" by (rule dd; assumption)
  then have dk: "disk_ok m'" using file_okD(1) [OF ok] by simp
  have np: "nptr m f = 10" "nptr m' f = 1034" using z ib b0 by (simp_all add: nptr_def)
  show p: "ptr m' f j = ptr m f j" if "j < 10" for j
  proof -
    have "get32 m' (f + 136 + 4 * j) = get32 m (f + 136 + 4 * j)"
      by (rule get32_cong, rule x) (use fb that in auto)
    then show ?thesis using that by (simp add: ptr_def slot_def)
  qed
  show p0: "ptr m' f j = 0" if "10 \<le> j" "j < 1034" for j
  proof -
    have "get32 m' (b * 4096 + 4 * (j - 10)) = 0"
      by (rule get32_zeros, rule zero) (use that in auto)
    then show ?thesis using that by (simp add: ptr_def slot_def ib)
  qed
  have pj: "ptr m' f j = (if j < 10 then ptr m f j else 0)" if "j < 1034" for j using p p0 that by (cases "j < 10") auto
  have oo: "own m' f = own m f" by (simp add: own_def fun_eq_iff n fr)
  have so: "struct_ok m' f" using file_okD(2) [OF ok] by (simp add: struct_ok_def n fr)
  show "file_ok m' f"
    using ok o bp by (auto simp: file_ok_def dk so ib np pj oo split: if_splits)
qed

text \<open>
  What every operation that only adds blocks keeps: the blocks the file has and their contents, and
  its size.
\<close>

definition keeps :: "nat \<Rightarrow> (nat \<Rightarrow> u8) \<Rightarrow> (nat \<Rightarrow> u8) \<Rightarrow> bool" where
  "keeps f m m' \<longleftrightarrow> file_ok m' f \<and> nptr m f \<le> nptr m' f \<and> (\<forall>x. f \<le> x \<and> x < f + 136 \<longrightarrow> m' x = m x) \<and>
     (ind m f \<noteq> 0 \<longrightarrow> ind m' f = ind m f) \<and>
     (\<forall>j < nptr m f. ptr m f j \<noteq> 0 \<longrightarrow> ptr m' f j = ptr m f j \<and> (\<forall>x. x div 4096 = ptr m f j \<longrightarrow> m' x = m x))"

definition has :: "nat \<Rightarrow> (nat \<Rightarrow> u8) \<Rightarrow> nat \<Rightarrow> bool" where
  "has f m i \<longleftrightarrow> i < nptr m f \<and> ptr m f i \<noteq> 0 \<and> (i = 0 \<or> ind m f \<noteq> 0)"

lemma keepsI:
  assumes "file_ok m' f" "nptr m f \<le> nptr m' f" "\<And>x. f \<le> x \<Longrightarrow> x < f + 136 \<Longrightarrow> m' x = m x"
    "ind m f \<noteq> 0 \<Longrightarrow> ind m' f = ind m f"
    "\<And>j. j < nptr m f \<Longrightarrow> ptr m f j \<noteq> 0 \<Longrightarrow> ptr m' f j = ptr m f j"
    "\<And>j x. j < nptr m f \<Longrightarrow> ptr m f j \<noteq> 0 \<Longrightarrow> x div 4096 = ptr m f j \<Longrightarrow> m' x = m x"
  shows "keeps f m m'"
  using assms by (simp add: keeps_def)

lemma keeps_get32:
  assumes "keeps f m m'" "f \<le> a" "a + 4 \<le> f + 136"
  shows "get32 m' a = get32 m a"
  by (rule get32_cong) (use assms in \<open>auto simp: keeps_def\<close>)

lemma keeps_refl: "file_ok m f \<Longrightarrow> keeps f m m"
  by (simp add: keeps_def)

lemma keeps_ptr:
  assumes "keeps f m m'" "j < nptr m f" "ptr m f j \<noteq> 0"
  shows "j < nptr m' f" "ptr m' f j = ptr m f j" "x div 4096 = ptr m f j \<Longrightarrow> m' x = m x"
  using assms by (auto simp: keeps_def)

lemma keeps_trans: "keeps f m m' \<Longrightarrow> keeps f m' m'' \<Longrightarrow> keeps f m m''"
proof -
  assume a: "keeps f m m'" and b: "keeps f m' m''"
  have p: "ptr m'' f j = ptr m f j \<and> (\<forall>x. x div 4096 = ptr m f j \<longrightarrow> m'' x = m x)"
    if "j < nptr m f" "ptr m f j \<noteq> 0" for j
    using keeps_ptr [OF a that] keeps_ptr [OF b, of j] that(2) by simp
  then show ?thesis using a b by (simp add: keeps_def)
qed

lemma keeps_has: "keeps f m m' \<Longrightarrow> has f m i \<Longrightarrow> has f m' i \<and> ptr m' f i = ptr m f i"
  by (auto simp: keeps_def has_def)

lemma slot_region:
  assumes "file_ok m f" "i < nptr m f" "slot m f i \<le> x" "x < slot m f i + 4"
  shows "x div 4096 = f div 4096 \<and> f + 136 \<le> x \<and> x < f + 176 \<or>
    x div 4096 = ind m f \<and> ind m f \<noteq> 0 \<and> ind m f \<noteq> f div 4096"
proof (cases "i < 10")
  case True
  then have "f + 136 \<le> x" "x < f + 176" using assms(3,4) by (auto simp: slot_def)
  moreover have "x div 4096 = f div 4096"
    using struct_range [OF file_okD(2) [OF assms(1)]] calculation block_range [of x "f div 4096"] by linarith
  ultimately show ?thesis by simp
next
  case False
  then have i: "ind m f \<noteq> 0" "i < 1034" using assms(2) by (auto simp: nptr_def split: if_splits)
  then have "x div 4096 = ind m f" using False assms(3,4) by (auto simp: slot_def)
  then show ?thesis using i file_okD(3) [OF assms(1)] by (simp add: own_def)
qed

lemma struct_block: "struct_ok m f \<Longrightarrow> f \<le> x \<Longrightarrow> x < f + 256 \<Longrightarrow> x div 4096 = f div 4096"
  using struct_range [of m f] block_range [of x "f div 4096"] by linarith

lemma keeps_alloc:
  assumes ok: "file_ok m f" and b: "is_free m b"
    and m': "m' = put32 (bitmap_at b) (get32 m (bitmap_at b) AND NOT (block_bit b)) m"
  shows "keeps f m m'"
proof -
  note a = alloc_fresh [OF ok b m']
  note s = struct_range [OF file_okD(2) [OF ok]]
  show ?thesis
  proof (rule keepsI)
    fix x assume "f \<le> x" "x < f + 136"
    then show "m' x = m x" using s by (intro a(9)) linarith
  next
    fix j x assume j: "j < nptr m f" "ptr m f j \<noteq> 0" "x div 4096 = ptr m f j"
    then have "own m f (ptr m f j)" using file_okD(4) [OF ok] by blast
    then show "m' x = m x" using own_range j(3) by (intro a(9)) blast
  qed (use a in simp_all)
qed

lemma keeps_slot:
  assumes ok: "file_ok m f" and b: "fresh m f b" and i: "i < nptr m f" "ptr m f i = 0"
    and m': "m' = put32 (slot m f i) (of_int (int b)) m"
  shows "keeps f m m'"
proof -
  note a = enter_slot [OF ok b i(1) m']
  show ?thesis
  proof (rule keepsI)
    fix x assume x: "f \<le> x" "x < f + 136"
    then have "x div 4096 = f div 4096" using struct_block [OF file_okD(2) [OF ok], of x] by simp
    then have "\<not> (slot m f i \<le> x \<and> x < slot m f i + 4)" using slot_region [OF ok i(1), of x] x by auto
    then show "m' x = m x" by (intro a(10)) linarith
  next
    fix j x assume j: "j < nptr m f" "ptr m f j \<noteq> 0" "x div 4096 = ptr m f j"
    then have "own m f (ptr m f j) \<and> ptr m f j \<noteq> ind m f" using file_okD(4) [OF ok] by blast
    then have "\<not> (slot m f i \<le> x \<and> x < slot m f i + 4)" using slot_region [OF ok i(1), of x] j(3) by (auto simp: own_def)
    then show "m' x = m x" by (intro a(10)) linarith
  next
    fix j assume "j < nptr m f" "ptr m f j \<noteq> 0"
    moreover from this have "j \<noteq> i" using i(2) by auto
    ultimately show "ptr m' f j = ptr m f j" using a(6) [of j] by simp
  qed (use a in simp_all)
qed

lemma keeps_indirect:
  assumes ok: "file_ok m f" and b: "fresh m f b" and z: "ind m f = 0" and b0: "b \<noteq> 0"
    and m': "m' = put_bytes (b * 4096) (replicate 4096 0) (put32 (f + 176) (of_int (int b)) m)"
  shows "keeps f m m'"
proof -
  note a = enter_indirect [OF ok b z b0 m']
  have np: "nptr m f = 10" "nptr m' f = 1034" using z a(2) b0 by (simp_all add: nptr_def)
  have bo: "b \<noteq> f div 4096" using b by (simp add: fresh_def own_def)
  show ?thesis
  proof (rule keepsI)
    fix x assume x: "f \<le> x" "x < f + 136"
    then have "x div 4096 = f div 4096" using struct_block [OF file_okD(2) [OF ok], of x] by simp
    then show "m' x = m x" using x bo by (intro a(7)) auto
  next
    fix j x assume j: "j < nptr m f" "ptr m f j \<noteq> 0" "x div 4096 = ptr m f j"
    then have o: "own m f (ptr m f j)" using file_okD(4) [OF ok] by blast
    then have "x div 4096 \<noteq> f div 4096" using j(3) by (simp add: own_def)
    then have "\<not> (f \<le> x \<and> x < f + 256)" using struct_block [OF file_okD(2) [OF ok], of x] by blast
    moreover have "x div 4096 \<noteq> b" using b j by (auto simp: fresh_def)
    ultimately show "m' x = m x" by (intro a(7)) auto
  qed (use a np z in simp_all)
qed

lemma diskaddr_ok: "unat w \<noteq> 0 \<Longrightarrow> unat w < nblk (fmem s) \<Longrightarrow> diskaddr w s = Inr (unat w * 4096)"
  by (auto simp: diskaddr_def guardE_def BLKSIZE_def word_le_nat_alt)

lemma small_u32: "i < 1034 \<Longrightarrow> unat (of_nat i :: u32) = i"
  by (simp add: unsigned_of_nat take_bit_nat_eq_self)

lemma f_indirect_ind: "f_indirect f s = 0 \<longleftrightarrow> ind (fmem s) f = 0" "unat (f_indirect f s) = ind (fmem s) f"
  by (simp_all add: f_indirect_def f_indirect_at_def ind_def unat_eq_0)

text \<open>The end of \<open>file_block_walk\<close>: the slot, once the indirect block is there if it is needed.\<close>

lemma walk_slot:
  assumes ok: "file_ok (fmem s) f" and i: "i < nptr (fmem s) f"
  shows "(if i < NDIRECT then Inr (0, f_direct_at f i, s)
     else bindE (diskaddr (f_indirect f s) s) (\<lambda>a. Inr (0, a + 4 * (i - NDIRECT), s))) =
    Inr (0 :: int, slot (fmem s) f i, s)"
proof (cases "i < 10")
  case True
  then show ?thesis by (simp add: NDIRECT_def slot_def f_direct_at_def)
next
  case False
  then have nz: "ind (fmem s) f \<noteq> 0" using i by (auto simp: nptr_def split: if_splits)
  then have "own (fmem s) f (ind (fmem s) f)" by (rule file_okD(3) [OF ok])
  then have "diskaddr (f_indirect f s) s = Inr (ind (fmem s) f * 4096)"
    using nz diskaddr_ok [of "f_indirect f s" s] by (simp add: own_def f_indirect_ind)
  then show ?thesis using False by (simp add: NDIRECT_def slot_def)
qed

lemma file_block_walk_here:
  assumes ok: "file_ok (fmem s) f" and i: "i < nptr (fmem s) f" "i = 0 \<or> ind (fmem s) f \<noteq> 0"
  shows "file_block_walk f (of_nat i) alloc s = Inr (0, slot (fmem s) f i, s)"
proof -
  have l: "i < 1034" using i(1) by (auto simp: nptr_def split: if_splits)
  have n: "(unat (of_nat i :: u32) > NDIRECT div BLKSIZE \<and> f_indirect f s = 0) = False"
    using i(2) l by (auto simp: NDIRECT_def BLKSIZE_def small_u32 f_indirect_ind)
  have b: "(unat (of_nat i :: u32) \<ge> NDIRECT + NINDIRECT) = False"
    using l by (simp add: NDIRECT_def NINDIRECT_def small_u32)
  show ?thesis
    unfolding file_block_walk_def n b
    by (simp only: if_False bindE_simps prod.case less_irrefl small_u32 [OF l] walk_slot [OF ok i(1)])
qed

lemma file_block_walk_ok:
  assumes ok: "file_ok (fmem s) f" and i: "i < 1034"
  obtains s' where "file_block_walk f (of_nat i) True s = Inr (0, slot (fmem s') f i, s')"
      "keeps f (fmem s) (fmem s')" "i < nptr (fmem s') f" "i = 0 \<or> ind (fmem s') f \<noteq> 0"
  | p s' where "file_block_walk f (of_nat i) True s = Inr (- E_NO_DISK, p, s')" "keeps f (fmem s) (fmem s')"
proof (cases "i = 0 \<or> ind (fmem s) f \<noteq> 0")
  case True
  then have "i < nptr (fmem s) f" using i by (auto simp: nptr_def)
  then show ?thesis using that(1) [of s] file_block_walk_here [OF ok _ True] keeps_refl [OF ok] True by blast
next
  case False
  then have need: "(unat (of_nat i :: u32) > NDIRECT div BLKSIZE \<and> f_indirect f s = 0) = True"
    using i by (auto simp: NDIRECT_def BLKSIZE_def small_u32 f_indirect_ind)
  have big: "(unat (of_nat i :: u32) \<ge> NDIRECT + NINDIRECT) = False"
    using i by (simp add: NDIRECT_def NINDIRECT_def small_u32)
  show ?thesis
  proof (rule alloc_block_cases [OF file_okD(1) [OF ok]])
    assume "alloc_block s = Inr (- E_NO_DISK, s)"
    then have "file_block_walk f (of_nat i) True s = Inr (- E_NO_DISK, 0, s)"
      unfolding file_block_walk_def need big by (simp add: E_NO_DISK_def)
    then show ?thesis using that(2) keeps_refl [OF ok] by blast
  next
    fix b s1
    assume a: "alloc_block s = Inr (int b, s1)" "is_free (fmem s) b" "first_data (fmem s) \<le> b" "b < nblk (fmem s)"
      "fmem s1 = put32 (bitmap_at b) (get32 (fmem s) (bitmap_at b) AND NOT (block_bit b)) (fmem s)"
    note al = alloc_fresh [OF ok a(2,5)]
    have b0: "b \<noteq> 0" using a(3) first_data_2 [of "fmem s"] by simp
    have z: "ind (fmem s1) f = 0" using False al(3) by simp
    let ?s2 = "set_mem (put32 (f_indirect_at f) (of_int (int b))) s1"
    let ?s3 = "set_mem (put_bytes (b * 4096) (replicate BLKSIZE 0)) ?s2"
    have m3: "fmem ?s3 = put_bytes (b * 4096) (replicate 4096 0) (put32 (f + 176) (of_int (int b)) (fmem s1))"
      by (simp add: set_mem_def BLKSIZE_def f_indirect_at_def)
    note ei = enter_indirect [OF al(1,2) z b0 m3]
    have bn: "b < nblk (fmem s1)" using a(4) al(7) by simp
    note ub = u32_of [OF bn]
    have "get32 (fmem ?s2) 4100 = get32 (fmem s1) 4100"
      using struct_range(3) [OF file_okD(2) [OF al(1)]]
      by (simp add: set_mem_def f_indirect_at_def get32_put32_other)
    then have "nblk (fmem ?s2) = nblk (fmem s1)" by (simp add: nblk_def)
    then have dk: "diskaddr (of_int (int b)) ?s2 = Inr (b * 4096)"
      using diskaddr_ok [of "of_int (int b)" ?s2] ub b0 bn by simp
    have np: "i < nptr (fmem ?s3) f" using ei(2) b0 i by (simp add: nptr_def)
    have "file_block_walk f (of_nat i) True s = Inr (0, slot (fmem ?s3) f i, ?s3)"
      unfolding file_block_walk_def need big
      by (simp only: if_False if_True a(1) bindE_simps prod.case Let_def of_nat_less_0_iff dk less_irrefl
          small_u32 [OF i] walk_slot [OF ei(1) np])
    moreover have "keeps f (fmem s) (fmem ?s3)"
      using keeps_alloc [OF ok a(2,5)] keeps_indirect [OF al(1,2) z b0 m3] by (rule keeps_trans)
    ultimately show ?thesis by (rule that(1) [OF _ _ np]) (simp only: ei(2) b0 not_False_eq_True simp_thms)
  qed
qed


lemma file_get_block_has:
  assumes ok: "file_ok (fmem s) f" and h: "has f (fmem s) i"
  shows "file_get_block f (of_nat i) s = Inr (0, ptr (fmem s) f i * 4096, s)"
proof -
  have i: "i < nptr (fmem s) f" "i = 0 \<or> ind (fmem s) f \<noteq> 0" "ptr (fmem s) f i \<noteq> 0"
    using h by (auto simp: has_def)
  then have "own (fmem s) f (ptr (fmem s) f i)" using file_okD(4) [OF ok] by blast
  then have "diskaddr (get32 (fmem s) (slot (fmem s) f i)) s = Inr (ptr (fmem s) f i * 4096)"
    using i(3) diskaddr_ok [of "get32 (fmem s) (slot (fmem s) f i)" s] by (simp add: own_def ptr_def)
  moreover have "get32 (fmem s) (slot (fmem s) f i) \<noteq> 0" using i(3) by (auto simp: ptr_def)
  ultimately show ?thesis
    using file_block_walk_here [OF ok i(1,2)] by (simp add: file_get_block_def)
qed

lemma file_get_block_ok:
  assumes ok: "file_ok (fmem s) f" and i: "i < 1034"
  obtains s' where "file_get_block f (of_nat i) s = Inr (0, ptr (fmem s') f i * 4096, s')"
      "keeps f (fmem s) (fmem s')" "has f (fmem s') i"
  | p s' where "file_get_block f (of_nat i) s = Inr (- E_NO_DISK, p, s')" "keeps f (fmem s) (fmem s')"
proof (rule file_block_walk_ok [OF ok i])
  fix p s' assume "file_block_walk f (of_nat i) True s = Inr (- E_NO_DISK, p, s')" "keeps f (fmem s) (fmem s')"
  then show ?thesis by (intro that(2)) (simp_all add: file_get_block_def E_NO_DISK_def)
next
  fix s1 assume w: "file_block_walk f (of_nat i) True s = Inr (0, slot (fmem s1) f i, s1)"
    and k: "keeps f (fmem s) (fmem s1)" and i1: "i < nptr (fmem s1) f" "i = 0 \<or> ind (fmem s1) f \<noteq> 0"
  have ok1: "file_ok (fmem s1) f" using k by (simp add: keeps_def)
  show ?thesis
  proof (cases "ptr (fmem s1) f i = 0")
    case False
    then have h: "has f (fmem s1) i" using i1 by (simp add: has_def)
    have "file_get_block f (of_nat i) s = file_get_block f (of_nat i) s1"
      unfolding file_get_block_def w file_block_walk_here [OF ok1 i1] ..
    then show ?thesis using file_get_block_has [OF ok1 h] k h by (intro that(1)) simp_all
  next
    case True
    then have z: "get32 (fmem s1) (slot (fmem s1) f i) = 0" by (simp add: ptr_def unat_eq_0)
    show ?thesis
    proof (rule alloc_block_cases [OF file_okD(1) [OF ok1]])
      assume "alloc_block s1 = Inr (- E_NO_DISK, s1)"
      then have "file_get_block f (of_nat i) s = Inr (- E_NO_DISK, 0, s1)"
        using w z by (simp add: file_get_block_def E_NO_DISK_def)
      then show ?thesis using k by (rule that(2))
    next
      fix b s2
      assume a: "alloc_block s1 = Inr (int b, s2)" "is_free (fmem s1) b" "first_data (fmem s1) \<le> b" "b < nblk (fmem s1)"
        "fmem s2 = put32 (bitmap_at b) (get32 (fmem s1) (bitmap_at b) AND NOT (block_bit b)) (fmem s1)"
      note al = alloc_fresh [OF ok1 a(2,5)]
      let ?s3 = "set_mem (put32 (slot (fmem s1) f i) (of_int (int b))) s2"
      have m3: "fmem ?s3 = put32 (slot (fmem s2) f i) (of_int (int b)) (fmem s2)" by (simp add: set_mem_def al(5))
      have i2: "i < nptr (fmem s2) f" "ptr (fmem s2) f i = 0" using i1 True al by simp_all
      note es = enter_slot [OF al(1,2) i2(1) m3]
      have b0: "b \<noteq> 0" using a(3) first_data_2 [of "fmem s1"] by simp
      have bn: "b < nblk (fmem ?s3)" using a(4) al(7) es(7) by simp
      have "diskaddr (get32 (fmem ?s3) (slot (fmem s1) f i)) ?s3 = Inr (b * 4096)"
        using diskaddr_ok [of "of_int (int b)" ?s3] u32_of [OF bn] b0 bn by (simp add: set_mem_def)
      then have "file_get_block f (of_nat i) s = Inr (0, b * 4096, ?s3)"
        using w z a(1) by (simp add: file_get_block_def)
      moreover have "keeps f (fmem s) (fmem ?s3)"
        by (rule keeps_trans [OF k keeps_trans [OF keeps_alloc [OF ok1 a(2,5)] keeps_slot [OF al(1,2) i2 m3]]])
      moreover have "has f (fmem ?s3) i"
        using i1 es(2,3,5) al(3,4) b0 by (simp add: has_def)
      ultimately show ?thesis using es(5) by (intro that(1) [of ?s3]) simp_all
    qed
  qed
qed

end
