(* ===== verification/JosFsData.thy ===== *)
theory JosFsData
  imports JosFsBlocks
begin

text \<open>
  The contents of a file: reading and writing at any position, and the direct blocks that the code
  cannot reach.
\<close>

section \<open>Positions in a file\<close>

lemma small_smod: "int p smod 4096 = int (p mod 4096)"
  by (cases "p = 0") (simp_all add: signed_modulo_int_def sgn_1_pos zmod_int)

lemma small_sdiv: "int p sdiv 4096 = int (p div 4096)"
  by (cases "p = 0") (simp_all add: signed_divide_int_def sgn_1_pos zdiv_int)

lemma position:
  assumes "p < 2 ^ 31" "p \<le> e" "e < 2 ^ 31"
  shows "block_of (of_nat p) = of_nat (p div 4096)" "address_in blk (of_nat p) = blk + p mod 4096"
    "chunk (of_nat p) (of_nat e) = min (4096 - p mod 4096) (e - p)"
    "((of_nat p :: u32) < of_nat e) = (p < e)"
proof -
  note sp = sint_small [OF assms(1)]
  show "block_of (of_nat p) = of_nat (p div 4096)" by (simp add: block_of_def sp small_sdiv)
  show "address_in blk (of_nat p) = blk + p mod 4096" by (simp add: address_in_def sp small_smod nat_add_distrib)
  have d: "(of_nat e - of_nat p :: u32) = of_nat (e - p)" using assms(2) by (simp add: of_nat_diff)
  have c: "(of_int (4096 - int (p mod 4096)) :: u32) = of_nat (4096 - p mod 4096)"
    by (simp add: of_nat_diff less_imp_le)
  have u: "unat (of_nat (4096 - p mod 4096) :: u32) = 4096 - p mod 4096" "unat (of_nat (e - p) :: u32) = e - p"
    by (rule unat_small, simp) (rule unat_small, use assms(3) in simp)
  show "chunk (of_nat p) (of_nat e) = min (4096 - p mod 4096) (e - p)"
    unfolding chunk_def sp small_smod d c by (simp only: min_def word_le_nat_alt u if_distrib [of unat] cong: if_cong)
  show "((of_nat p :: u32) < of_nat e) = (p < e)"
    using assms unat_small [of p] unat_small [of e] by (simp add: word_less_nat_alt)
qed

definition fbyte :: "nat \<Rightarrow> (nat \<Rightarrow> u8) \<Rightarrow> nat \<Rightarrow> u8" where
  "fbyte f m p = m (ptr m f (p div 4096) * 4096 + p mod 4096)"

text \<open>What a write to the positions from \<open>lo\<close> up to \<open>hi\<close> keeps.\<close>

definition upd :: "nat \<Rightarrow> nat \<Rightarrow> nat \<Rightarrow> (nat \<Rightarrow> u8) \<Rightarrow> (nat \<Rightarrow> u8) \<Rightarrow> bool" where
  "upd f lo hi m m' \<longleftrightarrow> file_ok m' f \<and> get32 m' (f + 128) = get32 m (f + 128) \<and>
     (\<forall>i. has f m i \<longrightarrow> has f m' i) \<and>
     (\<forall>p. has f m (p div 4096) \<and> (p < lo \<or> hi \<le> p) \<longrightarrow> fbyte f m' p = fbyte f m p)"

lemma keeps_upd: "keeps f m m' \<Longrightarrow> upd f lo hi m m'"
proof -
  assume k: "keeps f m m'"
  have "fbyte f m' p = fbyte f m p" if "has f m (p div 4096)" for p
  proof -
    have "p div 4096 < nptr m f" "ptr m f (p div 4096) \<noteq> 0" using that by (auto simp: has_def)
    note kp = keeps_ptr [OF k this]
    then show ?thesis by (simp add: fbyte_def)
  qed
  then show ?thesis using k keeps_has [OF k] keeps_get32 [OF k, of "f + 128"] by (auto simp: upd_def keeps_def)
qed

lemma upd_trans: "upd f lo hi m m' \<Longrightarrow> upd f lo' hi' m' m'' \<Longrightarrow> lo \<le> lo' \<Longrightarrow> hi \<le> hi' \<Longrightarrow> hi' = e \<Longrightarrow> upd f lo e m m''"
  by (auto simp: upd_def)

lemma same_block:
  assumes "p mod 4096 + d < (4096 :: nat)"
  shows "(p + d) div 4096 = p div 4096" "(p + d) mod 4096 = p mod 4096 + d"
proof -
  have "p + d = (p mod 4096 + d) + p div 4096 * 4096" by simp
  then have "(p + d) div 4096 = (p mod 4096 + d) div 4096 + p div 4096"
    "(p + d) mod 4096 = (p mod 4096 + d) mod 4096"
    by (metis div_mult_self1 add.commute zero_neq_numeral, metis mod_mult_self1)
  then show "(p + d) div 4096 = p div 4096" "(p + d) mod 4096 = p mod 4096 + d" using assms by simp_all
qed

text \<open>Writing bytes inside one block of the file.\<close>

lemma write_block:
  assumes ok: "file_ok m f" and h: "has f m (p div 4096)" and l: "p mod 4096 + length bs \<le> 4096"
    and m': "m' = put_bytes (ptr m f (p div 4096) * 4096 + p mod 4096) bs m"
  shows "upd f p (p + length bs) m m'" "k < length bs \<Longrightarrow> fbyte f m' (p + k) = bs ! k" "has f m' = has f m"
proof -
  let ?b = "ptr m f (p div 4096)"
  have hi: "p div 4096 < nptr m f" "?b \<noteq> 0" using h by (auto simp: has_def)
  note ob = file_okD(4) [OF ok hi]
  have out: "m' x = m x" if "x div 4096 \<noteq> ?b" for x
  proof -
    have "x < ?b * 4096 \<or> ?b * 4096 + 4096 \<le> x" using that block_range [of x ?b] by auto
    then show ?thesis unfolding m' by (intro put_bytes_other) (use l in linarith)
  qed
  have mm: "m' x = m x" if "meta m f x" for x
    by (rule out) (use data_meta [OF file_okD(2) [OF ok] _ _ that, of ?b] ob in blast)
  note a = meta_agree [OF mm]
  have fo: "file_ok m' f" using a(9) ok by simp
  have id: "ind m' f = ind m f" "nptr m' f = nptr m f" by (rule a; assumption)+
  have pt: "ptr m' f i = ptr m f i" if "i < nptr m f" for i using a(8) that by simp
  show hs: "has f m' = has f m" using id pt by (auto simp: has_def fun_eq_iff)
  have sz: "get32 m' (f + 128) = get32 m (f + 128)"
  proof (rule get32_cong, rule out)
    fix x assume "f + 128 \<le> x" "x < f + 128 + 4"
    then have "x div 4096 = f div 4096" using struct_block [OF file_okD(2) [OF ok], of x] by simp
    then show "x div 4096 \<noteq> ?b" using ob by (simp add: own_def)
  qed
  have fb: "fbyte f m' q = (if p \<le> q \<and> q < p + length bs then bs ! (q - p) else fbyte f m q)"
    if q: "has f m (q div 4096)" for q
  proof -
    have qi: "q div 4096 < nptr m f" "ptr m f (q div 4096) \<noteq> 0" using q by (auto simp: has_def)
    show ?thesis
    proof (cases "q div 4096 = p div 4096")
      case True
      have "q = q div 4096 * 4096 + q mod 4096" "p = p div 4096 * 4096 + p mod 4096" by simp_all
      then have c: "p \<le> q \<longleftrightarrow> p mod 4096 \<le> q mod 4096" "q < p + length bs \<longleftrightarrow> q mod 4096 < p mod 4096 + length bs"
        "q - p = q mod 4096 - p mod 4096" using True by linarith+
      show ?thesis using True pt hi c by (simp add: fbyte_def m' put_bytes_def)
    next
      case False
      then have "ptr m f (q div 4096) \<noteq> ?b" using file_okD(5) [OF ok qi(1) hi(1) qi(2)] by blast
      moreover have "\<not> (p \<le> q \<and> q < p + length bs)"
      proof
        assume "p \<le> q \<and> q < p + length bs"
        then have "p mod 4096 + (q - p) < 4096" "p + (q - p) = q" using l by linarith+
        then have "q div 4096 = p div 4096" using same_block(1) [of p "q - p"] by simp
        with False show False ..
      qed
      ultimately show ?thesis using out pt [OF qi(1)] by (auto simp: fbyte_def)
    qed
  qed
  show "upd f p (p + length bs) m m'" using fo sz hs fb by (simp add: upd_def)
  show "fbyte f m' (p + k) = bs ! k" if k: "k < length bs"
  proof -
    have "(p + k) div 4096 = p div 4096" using l k by (intro same_block) linarith
    then show ?thesis using fb [of "p + k"] h k by simp
  qed
qed

section \<open>Writing and reading\<close>

lemma write_loop_ok:
  "file_ok (fmem s) f \<Longrightarrow> e = p + length buf \<Longrightarrow> e < 2 ^ 31 \<Longrightarrow> length buf < n \<Longrightarrow>
   \<exists>r s'. write_loop n f (of_nat p) (of_nat e) buf s = Inr (r, s') \<and>
     upd f p e (fmem s) (fmem s') \<and>
     (r = 0 \<and> (\<forall>k < length buf. has f (fmem s') ((p + k) div 4096) \<and> fbyte f (fmem s') (p + k) = buf ! k) \<or>
      r = - E_NO_DISK \<or> r = - E_INVAL)"
proof (induction n arbitrary: p buf s)
  case 0
  then show ?case by simp
next
  case (Suc n)
  let ?i = "p div 4096"
  have p31: "p < 2 ^ 31" and pe: "p \<le> e" and lb: "length buf = e - p" using Suc.prems(2,3) by simp_all
  note pos = position [OF p31 pe Suc.prems(3)]
  show ?case
  proof (cases "buf = []")
    case True
    then show ?thesis using keeps_upd [OF keeps_refl [OF Suc.prems(1)]] pos lb by simp
  next
    case False
    then have lt: "p < e" using Suc.prems(2) by simp
    let ?bn = "min (4096 - p mod 4096) (e - p)"
    have bn: "0 < ?bn" "?bn \<le> length buf" "p mod 4096 + ?bn \<le> 4096" using lt lb by (auto simp: min_def)
    have step: "write_loop (Suc n) f (of_nat p) (of_nat e) buf s =
      bindE (file_get_block f (of_nat ?i) s) (\<lambda>(r, blk, s).
         if r < 0 then Inr (r, s)
         else write_loop n f (of_nat (p + ?bn)) (of_nat e) (drop ?bn buf)
                (set_mem (put_bytes (blk + p mod 4096) (take ?bn buf)) s))"
      using lt unfolding write_loop.simps Let_def pos of_nat_add by simp
    show ?thesis
    proof (cases "?i < 1034")
      case big: False
      have "unat (of_nat ?i :: u32) = ?i" using p31 by (intro unat_small) simp
      then have "file_get_block f (of_nat ?i) s = Inr (- E_INVAL, 0, s)"
        using big by (simp add: file_get_block_def file_block_walk_def NDIRECT_def NINDIRECT_def E_INVAL_def)
      then show ?thesis using step keeps_upd [OF keeps_refl [OF Suc.prems(1)]] by (simp add: E_INVAL_def)
    next
      case True
      show ?thesis
      proof (rule file_get_block_ok [OF Suc.prems(1) True])
        fix q s' assume "file_get_block f (of_nat ?i) s = Inr (- E_NO_DISK, q, s')" "keeps f (fmem s) (fmem s')"
        then show ?thesis using step keeps_upd by (simp add: E_NO_DISK_def)
      next
        fix s1 assume g: "file_get_block f (of_nat ?i) s = Inr (0, ptr (fmem s1) f ?i * 4096, s1)"
          and k: "keeps f (fmem s) (fmem s1)" and h: "has f (fmem s1) ?i"
        let ?bs = "take ?bn buf"
        let ?s2 = "set_mem (put_bytes (ptr (fmem s1) f ?i * 4096 + p mod 4096) ?bs) s1"
        have ok1: "file_ok (fmem s1) f" using k by (simp add: keeps_def)
        have lbs: "length ?bs = ?bn" using bn by simp
        have m2: "fmem ?s2 = put_bytes (ptr (fmem s1) f ?i * 4096 + p mod 4096) ?bs (fmem s1)" by (simp add: set_mem_def)
        note wb = write_block [OF ok1 h _ m2, unfolded lbs, OF bn(3)]
        have ok2: "file_ok (fmem ?s2) f" using wb(1) by (simp add: upd_def)
        have e: "e = p + ?bn + length (drop ?bn buf)" using bn(2) lb pe by simp
        have "length (drop ?bn buf) < n" unfolding length_drop using Suc.prems(4) bn(1,2) by linarith
        from Suc.IH [OF ok2 e Suc.prems(3) this] obtain r s' where
          r: "write_loop n f (of_nat (p + ?bn)) (of_nat e) (drop ?bn buf) ?s2 = Inr (r, s')"
          "upd f (p + ?bn) e (fmem ?s2) (fmem s')"
          "r = 0 \<and> (\<forall>k < length (drop ?bn buf). has f (fmem s') ((p + ?bn + k) div 4096) \<and>
             fbyte f (fmem s') (p + ?bn + k) = drop ?bn buf ! k) \<or> r = - E_NO_DISK \<or> r = - E_INVAL" by blast
        have "upd f p e (fmem s) (fmem s')"
          proof -
          have "p + ?bn \<le> e" using bn(2) lb pe by simp
          then have "upd f p e (fmem s1) (fmem s')" by (intro upd_trans [OF wb(1) r(2)]) simp_all
          from upd_trans [OF keeps_upd [OF k, of p p] this] show ?thesis using pe by simp
        qed
        moreover have "has f (fmem s') ((p + k) div 4096) \<and> fbyte f (fmem s') (p + k) = buf ! k"
          if rr: "r = 0" and kl: "k < length buf" for k
        proof (cases "k < ?bn")
          case True
          have d: "(p + k) div 4096 = ?i" using True bn(3) by (intro same_block) linarith
          have "has f (fmem ?s2) ?i" using wb(3) h by simp
          moreover have "fbyte f (fmem ?s2) (p + k) = buf ! k" using wb(2) [OF True] True by simp
          ultimately show ?thesis using r(2) True d by (auto simp: upd_def)
        next
          case False
          have "r = 0 \<longrightarrow> - E_NO_DISK \<noteq> r \<and> - E_INVAL \<noteq> r" by (simp add: E_NO_DISK_def E_INVAL_def)
          then have "\<forall>k < length (drop ?bn buf). has f (fmem s') ((p + ?bn + k) div 4096) \<and>
             fbyte f (fmem s') (p + ?bn + k) = drop ?bn buf ! k" using r(3) rr by auto
          moreover have kk: "?bn \<le> k" using False by (rule leI)
          then have "k - ?bn < length (drop ?bn buf)" unfolding length_drop using kl by (rule diff_less_mono [rotated])
          moreover have "p + ?bn + (k - ?bn) = p + k" "drop ?bn buf ! (k - ?bn) = buf ! k"
            using kk kl by (simp_all add: nth_drop)
          ultimately show ?thesis by metis
        qed
        ultimately show ?thesis using step g r(1,3) by auto
      qed
    qed
  qed
qed

lemma read_loop_ok:
  "file_ok (fmem s) f \<Longrightarrow> p \<le> e \<Longrightarrow> e < 2 ^ 31 \<Longrightarrow> e - p < n \<Longrightarrow> \<forall>q. p \<le> q \<and> q < e \<longrightarrow> has f (fmem s) (q div 4096) \<Longrightarrow>
   read_loop n f (of_nat p) (of_nat e) buf s = Inr (0, buf @ map (fbyte f (fmem s)) [p..<e], s)"
proof (induction n arbitrary: p buf)
  case 0
  then show ?case by simp
next
  case (Suc n)
  have p31: "p < 2 ^ 31" using Suc.prems by simp
  note pos = position [OF p31 Suc.prems(2,3)]
  show ?case
  proof (cases "p < e")
    case False
    then show ?thesis using pos Suc.prems(2) by simp
  next
    case True
    let ?i = "p div 4096"
    define bn where "bn = min (4096 - p mod 4096) (e - p)"
    have b: "0 < bn" "p + bn \<le> e" "p mod 4096 + bn \<le> 4096" using True by (auto simp: bn_def min_def)
    have h: "has f (fmem s) ?i" using Suc.prems(5) True by blast
    have "get_bytes (fmem s) (ptr (fmem s) f ?i * 4096 + p mod 4096) bn = map (fbyte f (fmem s)) [p..<p + bn]"
    proof (rule nth_equalityI)
      fix k assume "k < length (get_bytes (fmem s) (ptr (fmem s) f ?i * 4096 + p mod 4096) bn)"
      then have k: "k < bn" by (simp add: get_bytes_def)
      have "(p + k) div 4096 = ?i" "(p + k) mod 4096 = p mod 4096 + k" using k b(3) by (intro same_block, linarith)+
      then show "get_bytes (fmem s) (ptr (fmem s) f ?i * 4096 + p mod 4096) bn ! k =
          map (fbyte f (fmem s)) [p..<p + bn] ! k"
        using k by (simp add: get_bytes_def fbyte_def add.assoc)
    qed (simp add: get_bytes_def)
    moreover have "[p..<p + bn] @ [p + bn..<e] = [p..<e]"
      using upt_add_eq_append [of p "p + bn" "e - (p + bn)"] b(2) by simp
    moreover have "read_loop n f (of_nat (p + bn)) (of_nat e) (buf @ map (fbyte f (fmem s)) [p..<p + bn]) s =
        Inr (0, (buf @ map (fbyte f (fmem s)) [p..<p + bn]) @ map (fbyte f (fmem s)) [p + bn..<e], s)"
      by (rule Suc.IH) (use Suc.prems b in auto)
    moreover have "read_loop (Suc n) f (of_nat p) (of_nat e) buf s =
      read_loop n f (of_nat (p + bn)) (of_nat e) (buf @ get_bytes (fmem s) (ptr (fmem s) f ?i * 4096 + p mod 4096) bn) s"
      using True unfolding read_loop.simps Let_def pos bn_def [symmetric]
      by (simp add: file_get_block_has [OF Suc.prems(1) h])
    ultimately show ?thesis by (metis append.assoc map_append)
  qed
qed


definition ferr :: "int \<Rightarrow> bool" where
  "ferr r \<longleftrightarrow> r = - E_NO_DISK \<or> r = - E_INVAL"

lemma file_size: "f_size f s = get32 (fmem s) (f + 128)"
  by (simp add: f_size_def f_size_at_def)

text \<open>Growing a file changes its size and nothing else of it.\<close>

lemma put_size:
  assumes ok: "file_ok m f" and m': "m' = put32 (f + 128) w m"
  shows "file_ok m' f" "get32 m' (f + 128) = w" "has f m' = has f m" "has f m (p div 4096) \<Longrightarrow> fbyte f m' p = fbyte f m p"
proof -
  have out: "m' x = m x" if "x < f + 128 \<or> f + 132 \<le> x" for x
    unfolding m' by (rule put32_other) (use that in auto)
  note s = struct_range [OF file_okD(2) [OF ok]]
  have so: "x < f + 128 \<or> f + 132 \<le> x" if "x div 4096 \<noteq> f div 4096" for x
    using struct_block [OF file_okD(2) [OF ok], of x] that by linarith
  have mm: "m' x = m x" if "meta m f x" for x
  proof (rule out)
    have "ind m f \<noteq> 0 \<Longrightarrow> ind m f \<noteq> f div 4096" using file_okD(3) [OF ok] by (simp add: own_def)
    then show "x < f + 128 \<or> f + 132 \<le> x" using that s so [of x] by (auto simp: meta_def)
  qed
  note a = meta_agree [OF mm]
  show "file_ok m' f" using a(9) ok by simp
  show "get32 m' (f + 128) = w" by (simp add: m')
  have id: "ind m' f = ind m f" "nptr m' f = nptr m f" by (rule a; assumption)+
  have pt: "ptr m' f i = ptr m f i" if "i < nptr m f" for i using a(8) that by simp
  show "has f m' = has f m" using id pt by (auto simp: has_def fun_eq_iff)
  show "fbyte f m' p = fbyte f m p" if h: "has f m (p div 4096)"
  proof -
    have i: "p div 4096 < nptr m f" "ptr m f (p div 4096) \<noteq> 0" using h by (auto simp: has_def)
    then have "ptr m f (p div 4096) \<noteq> f div 4096" using file_okD(4) [OF ok] by (auto simp: own_def)
    then show ?thesis using pt [OF i(1)] out so by (simp add: fbyte_def)
  qed
qed

lemma file_written:
  assumes ok: "file_ok (fmem s) f" and size: "f_size f s = of_nat n" "n < 2 ^ 31"
    and range: "p + length buf < 2 ^ 31" "f < DISKSIZE"
  shows "\<exists>r s'. file_write f buf (of_nat p) s = Inr (r, s') \<and> file_ok (fmem s') f \<and>
    (\<forall>q. has f (fmem s) (q div 4096) \<and> (q < p \<or> p + length buf \<le> q) \<longrightarrow> fbyte f (fmem s') q = fbyte f (fmem s) q) \<and>
    f_size f s' = of_nat (max n (p + length buf)) \<and>
    (ferr r \<or> r = int (length buf) \<and>
      (buf \<noteq> [] \<longrightarrow> file_read f (of_nat (length buf)) (of_nat p) s' = Inr (int (length buf), buf, s')))"
proof -
  let ?e = "p + length buf"
  have e: "(of_nat p + of_nat (length buf) :: u32) = of_nat ?e" by simp
  have us: "unat (of_nat n :: u32) = n" "unat (of_nat ?e :: u32) = ?e"
    using size(2) range(1) by (intro unat_small, simp)+
  have gt: "((of_nat ?e :: u32) > of_nat n) = (?e > n)" by (simp only: word_less_nat_alt us)
  have sn: "sint (of_nat n :: i32) = int n" "sint (of_nat ?e :: i32) = int ?e"
    using sint_small size(2) range(1) by blast+
  have sl: "sint (of_nat (length buf) :: i32) = int (length buf)" using range(1) by (intro sint_small) simp
  obtain s1 where s1: "(if (of_nat ?e :: u32) > of_nat n then file_set_size f (of_nat ?e) s else Inr (0, s)) = Inr (0, s1)"
    "file_ok (fmem s1) f" "get32 (fmem s1) (f + 128) = of_nat (max n ?e)" "has f (fmem s1) = has f (fmem s)"
    "\<And>q. has f (fmem s) (q div 4096) \<Longrightarrow> fbyte f (fmem s1) q = fbyte f (fmem s) q"
  proof (cases "?e > n")
    case False
    then show ?thesis using gt ok size(1) by (intro that [of s]) (simp_all add: file_size max_absorb1)
  next
    case True
    let ?m = "put32 (f + 128) (of_nat ?e) (fmem s)"
    obtain t where t: "file_set_size f (of_nat ?e) s = Inr (0, t)" "fmem t = ?m"
      using True range(2) size(1) sn
      by (simp add: file_set_size_def flush_block_def guardE_def set_mem_def f_size_at_def del: of_nat_add)
    note ps = put_size [OF ok t(2)]
    show ?thesis
      by (rule that [of t]) (use gt True t(1) ps in \<open>simp_all add: max_absorb2 less_imp_le del: of_nat_add\<close>)
  qed
  obtain r s2 where w: "write_loop (length buf + 1) f (of_nat p) (of_nat ?e) buf s1 = Inr (r, s2)"
    "upd f p ?e (fmem s1) (fmem s2)"
    "r = 0 \<and> (\<forall>k < length buf. has f (fmem s2) ((p + k) div 4096) \<and> fbyte f (fmem s2) (p + k) = buf ! k) \<or>
      r = - E_NO_DISK \<or> r = - E_INVAL"
    using write_loop_ok [OF s1(2) refl range(1), of "length buf + 1"] by auto
  have fw: "file_write f buf (of_nat p) s = Inr (if r < 0 then r else int (length buf), s2)"
    unfolding file_write_def Let_def e size(1) s1(1) using w(1) sl by simp
  have ok2: "file_ok (fmem s2) f" and sz2: "f_size f s2 = of_nat (max n ?e)"
    using w(2) s1(3) by (simp_all add: upd_def file_size)
  have out: "fbyte f (fmem s2) q = fbyte f (fmem s) q"
    if "has f (fmem s) (q div 4096)" "q < p \<or> ?e \<le> q" for q
    using w(2) s1(4,5) that by (auto simp: upd_def)
  have rd: "file_read f (of_nat (length buf)) (of_nat p) s2 = Inr (int (length buf), buf, s2)"
    if r0: "r = 0" and ne: "buf \<noteq> []"
  proof -
    have h: "has f (fmem s2) ((p + k) div 4096)" "fbyte f (fmem s2) (p + k) = buf ! k" if "k < length buf" for k
      using w(3) r0 that by (auto simp: E_NO_DISK_def E_INVAL_def)
    let ?M = "max n ?e"
    have M: "?M < 2 ^ 31" "p < ?M" using size(2) range(1) ne by (auto simp: max_def)
    have sM: "sint (of_nat ?M :: i32) = int ?M" "sint (of_nat p :: i32) = int p"
      using M by (intro sint_small; simp)+
    have d: "(of_nat ?M - of_nat p :: u32) = of_nat (?M - p)" using M by (simp add: of_nat_diff)
    have ul: "unat (of_nat (length buf) :: u32) = length buf" "unat (of_nat (?M - p) :: u32) = ?M - p"
      using range(1) M by (intro unat_small, simp)+
    have "length buf \<le> ?M - p" by simp
    then have mn: "min (of_nat (length buf)) (of_nat ?M - of_nat p :: u32) = of_nat (length buf)"
      unfolding d by (simp only: min_def word_le_nat_alt ul if_True)
    have "map (fbyte f (fmem s2)) [p..<?e] = buf"
      by (rule nth_equalityI) (use h(2) in simp_all)
    moreover have "has f (fmem s2) (q div 4096)" if "p \<le> q" "q < ?e" for q
      using h(1) [of "q - p"] that by simp
    ultimately have rl: "read_loop (length buf + 1) f (of_nat p) (of_nat ?e) [] s2 = Inr (0, buf, s2)"
      using read_loop_ok [OF ok2 le_add1 range(1), of "length buf + 1" "[]"] by simp
    have g: "in_i32 (int ?M - int p)" "\<not> int ?M \<le> int p" using M by (auto simp: in_i32_def)
    show ?thesis
      unfolding file_read_def Let_def sz2 sM mn e ul rl
      using g sl by (simp add: guardE_def)
  qed
  show ?thesis
    by (rule exI, rule exI [of _ s2], intro conjI, rule fw)
      (use ok2 out sz2 rd w(3) in \<open>auto simp: ferr_def E_NO_DISK_def E_INVAL_def\<close>)
qed

text \<open>
  C20. \<open>file_write\<close> and \<open>file_read\<close>: on a file whose blocks are consistent, a write at any position
  below 2 GB returns the number of bytes written, or one of the two errors; it leaves the file
  consistent and the bytes of the file outside the range unchanged. When it succeeds, a read of the
  range returns the bytes written and changes nothing.
\<close>

theorem file_write_read:
  assumes ok: "file_ok (fmem s) f" and size: "f_size f s = of_nat n" "n < 2 ^ 31"
    and range: "p + length buf < 2 ^ 31" "f < DISKSIZE"
  shows "\<exists>r s'. file_write f buf (of_nat p) s = Inr (r, s') \<and> file_ok (fmem s') f \<and>
    (\<forall>q. has f (fmem s) (q div 4096) \<and> (q < p \<or> p + length buf \<le> q) \<longrightarrow> fbyte f (fmem s') q = fbyte f (fmem s) q) \<and>
    f_size f s' = of_nat (max n (p + length buf)) \<and>
    (ferr r \<or> r = int (length buf) \<and>
      (buf \<noteq> [] \<longrightarrow> file_read f (of_nat (length buf)) (of_nat p) s' = Inr (int (length buf), buf, s')))"
  by (rule file_written [OF assms])

text \<open>An empty root directory on a disk of eight blocks, of which the last five are free.\<close>

definition ex_fmem :: "nat \<Rightarrow> u8" where
  "ex_fmem = put32 8192 0xF8 (put32 4100 8 (\<lambda>_. 0))"

definition ex_fs :: fsys where
  "ex_fs = \<lparr>fmem = ex_fmem, fdisk = (\<lambda>_. 0)\<rparr>"

lemma ex_get32:
  "get32 ex_fmem 4100 = 8" "get32 ex_fmem 8192 = 0xF8" "a + 4 \<le> 4100 \<or> 4104 \<le> a \<and> a + 4 \<le> 8192 \<Longrightarrow> get32 ex_fmem a = 0"
  by (auto simp: ex_fmem_def get32_put32_other get32_zeros)

lemma ex_nblk: "nblk ex_fmem = 8" "first_data ex_fmem = 3"
  by (simp_all add: nblk_def ex_get32 first_data_def)

lemma ex_free: "is_free ex_fmem b \<longleftrightarrow> 3 \<le> b \<and> b < 8"
proof -
  have "b < 8 \<Longrightarrow> bitmap_at b = 8192" by (simp add: bitmap_at_def BLKSIZE_def)
  moreover have "b < 8 \<Longrightarrow> bit (0xF8 :: u32) (b mod 32) = (3 \<le> b)"
  proof -
    assume "b < 8"
    then have "b = 0 \<or> b = 1 \<or> b = 2 \<or> b = 3 \<or> b = 4 \<or> b = 5 \<or> b = 6 \<or> b = 7" by linarith
    then show ?thesis by (elim disjE) simp_all
  qed
  ultimately show ?thesis by (auto simp: is_free_def ex_nblk ex_get32)
qed

lemma ex_file_ok: "file_ok (fmem ex_fs) 4104"
proof -
  have "ind ex_fmem 4104 = 0" "ptr ex_fmem 4104 i = 0" if "i < 10" for i
    using that by (simp_all add: ind_def ptr_def slot_def ex_get32)
  then have z: "ind ex_fmem 4104 = 0" "\<And>i. i < 10 \<Longrightarrow> ptr ex_fmem 4104 i = 0" by (auto simp: ind_def ex_get32)
  have "disk_ok ex_fmem" by (simp add: disk_ok_def ex_nblk ex_free)
  moreover have "struct_ok ex_fmem 4104" by (simp add: struct_ok_def)
  ultimately show ?thesis by (simp add: file_ok_def ex_fs_def z nptr_def)
qed

theorem file_write_read_witness:
  "\<exists>r s'. file_write 4104 [1, 2, 3] 5 ex_fs = Inr (r, s') \<and>
     (ferr r \<or> r = 3 \<and> file_read 4104 3 5 s' = Inr (3, [1, 2, 3], s'))"
proof -
  have "f_size 4104 ex_fs = of_nat 0" by (simp add: file_size ex_fs_def ex_get32)
  from file_write_read [OF ex_file_ok this, of 5 "[1, 2, 3]"] show ?thesis by (auto simp: DISKSIZE_def)
qed

section \<open>The direct blocks of a file without an indirect block\<close>

text \<open>
  The test in \<open>file_block_walk\<close> compares with \<open>NDIRECT / BLKSIZE\<close>, which is 0, and not with
  \<open>NDIRECT\<close>. So in a file without an indirect block the direct blocks 1 to 9 are out of reach even
  when they are there: the walk without allocation says that they are not found; on a full disk
  they cannot be read; and truncating the file to any size above zero frees none of them.
\<close>

theorem direct_blocks_unreachable:
  assumes "f_indirect f s = 0" and "1 \<le> i" and "i < 10"
  shows "file_block_walk f (of_nat i) False s = Inr (- E_NOT_FOUND, 0, s) \<and>
    (alloc_block s = Inr (- E_NO_DISK, s) \<longrightarrow> file_get_block f (of_nat i) s = Inr (- E_NO_DISK, 0, s)) \<and>
    (\<forall>newsize. 0 < sint newsize \<and> sint newsize \<le> sint (f_size f s) \<and> sint (f_size f s) \<le> 40960 \<longrightarrow>
      file_truncate_blocks f newsize s = Inr s)"
proof -
  have walk: "file_block_walk f w False s = Inr (- E_NOT_FOUND, 0, s)" if "1 \<le> unat w" "unat w < 10" for w
    using assms(1) that by (simp add: file_block_walk_def NDIRECT_def NINDIRECT_def BLKSIZE_def E_NOT_FOUND_def)
  have u: "unat (of_nat i :: u32) = i" using assms(3) by (intro unat_small) simp
  have "file_get_block f (of_nat i) s = Inr (- E_NO_DISK, 0, s)" if "alloc_block s = Inr (- E_NO_DISK, s)"
    using assms that u by (simp add: file_get_block_def file_block_walk_def NDIRECT_def NINDIRECT_def BLKSIZE_def E_NO_DISK_def)
  moreover have "file_truncate_blocks f newsize s = Inr s"
    if n: "0 < sint newsize" "sint newsize \<le> sint (f_size f s)" "sint (f_size f s) \<le> 40960" for newsize
  proof -
    have nb: "nblocks_of v = Inr (of_nat ((nat (sint v) + 4095) div 4096))" if "0 \<le> sint v" "sint v \<le> 40960" for v
    proof -
      have "sint v + 4095 = int (nat (sint v) + 4095)" using that by simp
      then show ?thesis using that small_sdiv [of "nat (sint v) + 4095"]
        by (simp add: nblocks_of_def guardE_def in_i32_def)
    qed
    let ?o = "(nat (sint (f_size f s)) + 4095) div 4096" and ?n = "(nat (sint newsize) + 4095) div 4096"
    have r: "1 \<le> ?n" "?o \<le> 10" using n by linarith+
    have loop: "free_blocks_from k f (of_nat j) s = Inr s" if "1 \<le> j" "j + k \<le> 10" for k j
      using that
    proof (induction k arbitrary: j)
      case 0
      then show ?case by simp
    next
      case (Suc k)
      have "unat (of_nat j :: u32) = j" using Suc.prems by (intro unat_small) simp
      then have "file_free_block f (of_nat j) s = Inr (- E_NOT_FOUND, s)"
        using walk Suc.prems by (simp add: file_free_block_def E_NOT_FOUND_def)
      moreover have "free_blocks_from k f (of_nat (Suc j)) s = Inr s" by (rule Suc.IH) (use Suc.prems in simp_all)
      ultimately show ?case by (simp add: add.commute)
    qed
    have "?n \<le> 10" using n by linarith
    then have "unat (of_nat ?o :: u32) = ?o" "unat (of_nat ?n :: u32) = ?n" using r(2) by (intro unat_small, simp)+
    moreover have "?n + (?o - ?n) \<le> 10" using n by linarith
    ultimately show ?thesis
      using n nb [of newsize] nb [of "f_size f s"] loop [OF r(1), of "?o - ?n"] assms(1)
      by (simp add: file_truncate_blocks_def)
  qed
  moreover have "file_block_walk f (of_nat i) False s = Inr (- E_NOT_FOUND, 0, s)"
    by (rule walk) (use u assms(2,3) in simp_all)
  ultimately show ?thesis by blast
qed

theorem direct_blocks_unreachable_witness:
  "file_block_walk 4104 1 False ex_fs = Inr (- E_NOT_FOUND, 0, ex_fs)"
  using direct_blocks_unreachable [of 4104 ex_fs 1]
  by (simp add: f_indirect_def f_indirect_at_def ex_fs_def ex_get32)

end
