(* ===== verification/FdProps.thy ===== *)
theory FdProps
  imports Fd JosFsData
begin

text \<open>Files through descriptors: the library, the server and the file system together.\<close>

section \<open>Requests\<close>

lemma request_fields:
  "get32 (request_page [a] buf) 0 = a" "get32 (request_page [a, b] buf) 0 = a" "get32 (request_page [a, b] buf) 4 = b"
  by (simp_all add: request_page_def get32_put32_other)

lemma get32_put_bytes_below: "a + 4 \<le> d \<Longrightarrow> get32 (put_bytes d bs m) a = get32 m a"
  by (rule get32_cong) (simp add: put_bytes_other)

lemma get_put_bytes: "get_bytes (put_bytes a bs m) a (length bs) = bs"
  by (rule nth_equalityI) (simp_all add: get_bytes_def put_bytes_def)

section \<open>An open file\<close>

text \<open>Descriptor \<open>num\<close> is open for reading and writing the file at \<open>f\<close>, by entry \<open>i\<close> of the server, at \<open>pos\<close>.\<close>

definition opened :: "int \<Rightarrow> nat \<Rightarrow> nat \<Rightarrow> world \<Rightarrow> bool" where
  "opened num i f w \<longleftrightarrow> 0 \<le> num \<and> num < int MAXFD \<and> nat num < length (vmap w) \<and> vmap w ! nat num = Some i \<and>
     i < length (fdpages (sv w)) \<and> i < length (fdrefs (sv w)) \<and> i < length (opentab (sv w)) \<and> 2 \<le> fdrefs (sv w) ! i \<and>
     (let p = fdpages (sv w) ! i; e = opentab (sv w) ! i
      in fd_dev_id p = DEVFILE_ID \<and> fd_omode p = O_RDWR \<and> fd_file_id p = o_fileid e \<and> unat (o_fileid e) mod MAXOPEN = i \<and> o_file e = Some f)"

definition position :: "nat \<Rightarrow> world \<Rightarrow> i32" where "position i w = fd_offset (fdpages (sv w) ! i)"

lemma opened_lookup:
  assumes "opened num i f w"
  shows "fd_lookup num w = Inr (0, Some (nat num))" "fd_page_at (nat num) w = Inr (fdpages (sv w) ! i)"
  using assms by (auto simp: opened_def fd_lookup_def fd_page_at_def INDEX2FD_def rd_def)

lemma opened_with_file:
  assumes "opened num i f w"
  shows "with_file (fd_file_id (fdpages (sv w) ! i)) g req (sv w) = g i f (sv w)"
  using assms by (auto simp: opened_def with_file_def openfile_lookup_def rd_def Let_def)

lemma opened_page:
  assumes "opened num i f w"
  shows "rd (fdpages (sv w)) i = Inr (fdpages (sv w) ! i)"
  using assms by (simp add: opened_def rd_def)

text \<open>What does not change the file that is open.\<close>

lemma opened_same:
  assumes "opened num i f w" "vmap w' = vmap w" "fdrefs (sv w') = fdrefs (sv w)" "opentab (sv w') = opentab (sv w)"
    "fdpages (sv w') = (fdpages (sv w))[j := (fdpages (sv w) ! j)\<lparr>fd_offset := x\<rparr>]"
  shows "opened num i f w'"
  using assms by (cases "j = i") (auto simp: opened_def Let_def nth_list_update)

text \<open>A request of the program for the file, as the server sees it.\<close>

lemma fsipc_handler:
  assumes "map_of handlers code = Some h" "code \<noteq> FSREQ_OPEN"
  shows "fsipc code req dst w = bindE (h req (sv w)) (\<lambda>(r, req, s). Inr (r, req, w\<lparr>sv := s\<rparr>))"
proof -
  have "(PTE_P OR PTE_W OR PTE_U) AND PTE_P \<noteq> 0" by (simp add: PTE_P_def PTE_W_def PTE_U_def)
  then show ?thesis using assms by (cases "h req (sv w)") (auto simp: fsipc_def serve_request_def Let_def)
qed

lemma handler_codes:
  "map_of handlers FSREQ_READ = Some serve_read" "map_of handlers FSREQ_WRITE = Some serve_write"
  "FSREQ_READ \<noteq> FSREQ_OPEN" "FSREQ_WRITE \<noteq> FSREQ_OPEN"
  by (simp_all add: handlers_def FSREQ_READ_def FSREQ_WRITE_def FSREQ_OPEN_def FSREQ_STAT_def FSREQ_FLUSH_def FSREQ_SET_SIZE_def FSREQ_SYNC_def)

lemma dev_of_opened:
  assumes "opened num i f w"
  shows "dev_lookup (devfile buf # devs) (fd_dev_id (fdpages (sv w) ! i)) = (0, Some (devfile buf))"
  using assms by (simp add: opened_def Let_def devfile_def)

lemma modes: "O_RDWR AND O_ACCMODE \<noteq> O_RDONLY" "O_RDWR AND O_ACCMODE \<noteq> O_WRONLY"
  by (simp_all add: O_RDWR_def O_ACCMODE_def O_RDONLY_def O_WRONLY_def)

text \<open>The server after \<open>r\<close> bytes.\<close>

definition advanced :: "nat \<Rightarrow> int \<Rightarrow> fsys \<Rightarrow> world \<Rightarrow> server" where
  "advanced i r fs w = (sv w)\<lparr>sv_fs := fs,
     fdpages := (if r > 0 then (fdpages (sv w))[i := (fdpages (sv w) ! i)\<lparr>fd_offset := position i w + of_int r\<rparr>] else fdpages (sv w))\<rparr>"

text \<open>The three calls on an open file.\<close>

lemma user_write_opened:
  assumes "opened num i f w" "length bytes \<le> 2048"
    "file_write f bytes (position i w) (sv_fs (sv w)) = Inr (r, fs)" "in_i32 (sint (position i w) + r)"
  shows "user_write (devfile buf # devs) num bytes w =
    Inr (r, w\<lparr>sv := advanced i r fs w\<rparr>)"
proof -
  let ?req = "put_bytes 8 bytes (request_page [fd_file_id (fdpages (sv w) ! i), of_nat (length bytes)] buf)"
  have n: "unat (of_nat (length bytes) :: u32) = length bytes" using assms(2) by (intro unat_small) simp
  have f: "get32 ?req 0 = fd_file_id (fdpages (sv w) ! i)" "get32 ?req 4 = of_nat (length bytes)"
    by (simp_all add: get32_put_bytes_below request_fields)
  have serve: "serve_write ?req (sv w) = Inr (r, ?req, advanced i r fs w)"
    unfolding serve_write_def f opened_with_file[OF assms(1)]
    using assms opened_page[OF assms(1)] by (simp add: n get_put_bytes position_def Let_def set_fd_def advanced_def)
  have mode: "fd_omode (fdpages (sv w) ! i) = O_RDWR" using assms(1) by (simp add: opened_def Let_def)
  have "devfile_write buf (nat num) bytes w = Inr (r, w\<lparr>sv := advanced i r fs w\<rparr>)"
    using assms(2) by (simp add: devfile_write_def opened_lookup[OF assms(1)] fsipc_handler[OF handler_codes(2,4)] serve min_absorb2)
  then show ?thesis
    by (simp add: user_write_def with_dev_def opened_lookup[OF assms(1)] dev_of_opened[OF assms(1)] mode modes del: dev_lookup.simps, simp add: devfile_def)
qed

lemma user_seek_opened:
  assumes "opened num i f w"
  shows "user_seek num x w = Inr (0, w\<lparr>sv := (sv w)\<lparr>fdpages := (fdpages (sv w))[i := (fdpages (sv w) ! i)\<lparr>fd_offset := x\<rparr>]\<rparr>\<rparr>)"
  using assms opened_page[OF assms] unfolding user_seek_def opened_lookup[OF assms]
  by (simp add: set_fd_at_def set_fd_def opened_def rd_def)

lemma user_read_opened:
  assumes "opened num i f w" "unat n \<le> 4096"
    "file_read f n (position i w) (sv_fs (sv w)) = Inr (int (length bytes), bytes, fs)" "length bytes \<le> unat n"
    "in_i32 (sint (position i w) + int (length bytes))"
  shows "\<exists>w'. user_read (devfile buf # devs) num n w = Inr (int (length bytes), bytes, w')"
proof -
  let ?req = "request_page [fd_file_id (fdpages (sv w) ! i), n] buf"
  obtain s' where serve: "serve_read ?req (sv w) = Inr (int (length bytes), put_bytes 0 bytes ?req, s')"
    using assms opened_page[OF assms(1)]
    by (auto simp: serve_read_def request_fields opened_with_file[OF assms(1)] position_def Let_def set_fd_def)
  have mode: "fd_omode (fdpages (sv w) ! i) = O_RDWR" using assms(1) by (simp add: opened_def Let_def)
  have "devfile_read buf (nat num) n w = Inr (int (length bytes), bytes, w\<lparr>sv := s'\<rparr>)"
    using assms(2,4) by (simp add: devfile_read_def opened_lookup[OF assms(1)] fsipc_handler[OF handler_codes(1,3)] serve get_put_bytes)
  then have "user_read (devfile buf # devs) num n w = Inr (int (length bytes), bytes, w\<lparr>sv := s'\<rparr>)"
    by (simp add: user_read_def with_dev_def opened_lookup[OF assms(1)] dev_of_opened[OF assms(1)] mode modes del: dev_lookup.simps, simp add: devfile_def)
  then show ?thesis by blast
qed

section \<open>Writing and reading\<close>

lemma opened_advanced:
  assumes "opened num i f w"
  shows "opened num i f (w\<lparr>sv := advanced j r fs w\<rparr>)" "0 < r \<Longrightarrow> opened n2 j f2 w \<Longrightarrow> position j (w\<lparr>sv := advanced j r fs w\<rparr>) = position j w + of_int r"
proof -
  show "opened num i f (w\<lparr>sv := advanced j r fs w\<rparr>)"
  proof (cases "r > 0")
    case True
    then show ?thesis using opened_same[OF assms, of "w\<lparr>sv := advanced j r fs w\<rparr>" j "position j w + of_int r"] by (simp add: advanced_def)
  next
    case False
    with assms show ?thesis by (simp add: opened_def advanced_def)
  qed
qed (auto simp: opened_def position_def advanced_def)

text \<open>
  C38. What a program writes through one descriptor it reads back through another one of the same open file, such as one from \<open>dup\<close>: a
  write of at most 2,048 bytes, at a position below 2 GB, returns an error of the file system or the number of bytes, and
  then the position is after them, for both descriptors; after a \<open>seek\<close> to where the write began a read of as many bytes gives these bytes.
\<close>

theorem descriptors_share_file:
  assumes "opened n1 i f w" "opened n2 i f w" "file_ok (fmem (sv_fs (sv w))) f" "f < DISKSIZE"
    "f_size f (sv_fs (sv w)) = of_nat k" "k < 2 ^ 31" "position i w = of_nat p" "p + length buf < 2 ^ 31"
    "buf \<noteq> []" "length buf \<le> 2048"
  shows "\<exists>r w1. user_write (devfile b # devs) n1 buf w = Inr (r, w1) \<and>
    (ferr r \<or> r = int (length buf) \<and> position i w1 = of_nat (p + length buf) \<and>
      (\<exists>w2 w3. user_seek n2 (of_nat p) w1 = Inr (0, w2) \<and> user_read (devfile b # devs) n2 (of_nat (length buf)) w2 = Inr (int (length buf), buf, w3)))"
proof -
  obtain r fs where stored: "file_write f buf (of_nat p) (sv_fs (sv w)) = Inr (r, fs)"
    and result: "ferr r \<or> r = int (length buf) \<and> file_read f (of_nat (length buf)) (of_nat p) fs = Inr (int (length buf), buf, fs)"
    using file_written[OF assms(3,5,6,8,4)] assms(9) by auto
  have p: "sint (position i w) = int p" unfolding assms(7) using assms(8) by (intro sint_small) simp
  have end_ok: "in_i32 (sint (position i w) + int (length buf))" using assms(8) unfolding p by (simp add: in_i32_def)
  have "in_i32 (sint (position i w) + r)"
  proof (cases "ferr r")
    case True
    then show ?thesis using assms(8) unfolding p by (auto simp: ferr_def E_NO_DISK_def E_INVAL_def in_i32_def)
  next
    case False
    with result end_ok show ?thesis by simp
  qed
  from user_write_opened[OF assms(1,10) stored[folded assms(7)] this]
  have w1: "user_write (devfile b # devs) n1 buf w = Inr (r, w\<lparr>sv := advanced i r fs w\<rparr>)" .
  show ?thesis
  proof (cases "ferr r")
    case True
    with w1 show ?thesis by blast
  next
    case False
    with result have r: "r = int (length buf)" and fr: "file_read f (of_nat (length buf)) (of_nat p) fs = Inr (int (length buf), buf, fs)" by auto
    let ?w1 = "w\<lparr>sv := advanced i r fs w\<rparr>"
    have o1: "opened n2 i f ?w1" by (rule opened_advanced(1)[OF assms(2)])
    have "0 < r" using assms(9) r by simp
    then have pos: "position i ?w1 = of_nat (p + length buf)" using opened_advanced(2)[OF assms(2) _ assms(2)] assms(7) r by simp
    let ?w2 = "?w1\<lparr>sv := (sv ?w1)\<lparr>fdpages := (fdpages (sv ?w1))[i := (fdpages (sv ?w1) ! i)\<lparr>fd_offset := of_nat p\<rparr>]\<rparr>\<rparr>"
    have seek: "user_seek n2 (of_nat p) ?w1 = Inr (0, ?w2)" by (rule user_seek_opened[OF o1])
    have o2: "opened n2 i f ?w2" by (rule opened_same[OF o1]) simp_all
    have p2: "position i ?w2 = of_nat p" using o1 by (simp add: position_def opened_def)
    have f2: "sv_fs (sv ?w2) = fs" by (simp add: advanced_def)
    have len: "unat (of_nat (length buf) :: u32) = length buf" using assms(10) by (intro unat_small) simp
    have "\<exists>w3. user_read (devfile b # devs) n2 (of_nat (length buf)) ?w2 = Inr (int (length buf), buf, w3)"
      by (rule user_read_opened[OF o2]) (use len assms(10) fr f2 p2 end_ok assms(7) in simp_all)
    with w1 r pos seek show ?thesis by blast
  qed
qed

definition ex_world :: world where
  "ex_world = \<lparr>sv = \<lparr>sv_fs = ex_fs, opentab = [\<lparr>o_fileid = 1024, o_file = Some 4104, o_mode = O_RDWR\<rparr>],
     fdpages = [\<lparr>fd_dev_id = DEVFILE_ID, fd_offset = 5, fd_omode = O_RDWR, fd_file_id = 1024\<rparr>], fdrefs = [3], no_mem = False\<rparr>,
     vmap = [Some 0, Some 0]\<rparr>"

theorem descriptors_share_file_witness:
  "\<exists>r w1. user_write [devfile (\<lambda>_. 0)] 0 [1, 2, 3] ex_world = Inr (r, w1) \<and>
    (ferr r \<or> r = 3 \<and> position 0 w1 = 8 \<and>
      (\<exists>w2 w3. user_seek 1 5 w1 = Inr (0, w2) \<and> user_read [devfile (\<lambda>_. 0)] 1 3 w2 = Inr (3, [1, 2, 3], w3)))"
proof -
  have "opened 0 0 4104 ex_world" "opened 1 0 4104 ex_world" "file_ok (fmem (sv_fs (sv ex_world))) 4104" "4104 < DISKSIZE"
    "f_size 4104 (sv_fs (sv ex_world)) = of_nat 0" "(0 :: nat) < 2 ^ 31" "position 0 ex_world = of_nat 5"
    using ex_file_ok by (simp_all add: opened_def ex_world_def MAXFD_def MAXOPEN_def DISKSIZE_def position_def file_size) (simp add: ex_fs_def ex_get32)
  from descriptors_share_file[OF this, of "[1, 2, 3]" "\<lambda>_. 0" "[]"] show ?thesis by simp
qed

section \<open>Large reads\<close>

text \<open>
  C39. A read of more than a page, from a file that has as much, writes past the page of the request, to the addresses where the disk is
  mapped: neither the library nor the server compares the size of the request with that of the page.
\<close>

theorem large_read_overruns:
  assumes "opened num i f w" "file_read f n (position i w) (sv_fs (sv w)) = Inr (r, bytes, fs)" "4096 < length bytes"
  shows "user_read (devfile buf # devs) num n w = Inl OutOfBounds"
proof -
  let ?req = "request_page [fd_file_id (fdpages (sv w) ! i), n] buf"
  have serve: "serve_read ?req (sv w) = Inl OutOfBounds"
    using assms opened_page[OF assms(1)] by (simp add: serve_read_def request_fields opened_with_file[OF assms(1)] position_def)
  have mode: "fd_omode (fdpages (sv w) ! i) = O_RDWR" using assms(1) by (simp add: opened_def Let_def)
  have "devfile_read buf (nat num) n w = Inl OutOfBounds"
    by (simp add: devfile_read_def opened_lookup[OF assms(1)] fsipc_handler[OF handler_codes(1,3)] serve)
  then show ?thesis
    by (simp add: user_read_def with_dev_def opened_lookup[OF assms(1)] dev_of_opened[OF assms(1)] mode modes del: dev_lookup.simps, simp add: devfile_def)
qed

text \<open>A file of 5,000 bytes in blocks 3 and 4.\<close>

definition ex_large :: fsys where
  "ex_large = \<lparr>fmem = put32 4280 5 (put32 4244 4 (put32 4240 3 (put32 4232 5000 (put32 4100 8 (\<lambda>_. 0))))), fdisk = (\<lambda>_. 0)\<rparr>"

lemma ex_large_words:
  "get32 (fmem ex_large) 4280 = 5" "get32 (fmem ex_large) 4244 = 4" "get32 (fmem ex_large) 4240 = 3"
  "get32 (fmem ex_large) 4232 = 5000" "get32 (fmem ex_large) 4100 = 8"
  by (simp_all add: ex_large_def get32_put32_other)

lemma ex_large_blocks: "file_get_block 4104 0 ex_large = Inr (0, 12288, ex_large)" "file_get_block 4104 1 ex_large = Inr (0, 16384, ex_large)"
  by (simp_all add: file_get_block_def file_block_walk_def NDIRECT_def NINDIRECT_def BLKSIZE_def f_direct_at_def f_indirect_def f_indirect_at_def
      ex_large_words diskaddr_def s_nblocks_def)

lemma ex_large_read: "\<exists>bytes. file_read 4104 5000 0 ex_large = Inr (5000, bytes, ex_large) \<and> length bytes = 5000"
proof -
  have positions: "block_of 0 = 0" "chunk 0 5000 = 4096" "block_of 4096 = 1" "chunk 4096 5000 = 904"
    by (simp_all add: block_of_def chunk_def signed_divide_int_def signed_modulo_int_def)
  let ?b1 = "get_bytes (fmem ex_large) (address_in 12288 0) 4096" and ?b2 = "get_bytes (fmem ex_large) (address_in 16384 4096) 904"
  have "read_loop (Suc (Suc (Suc k))) 4104 0 5000 [] ex_large = Inr (0, ?b1 @ ?b2, ex_large)" for k
    by (simp add: ex_large_blocks positions)
  from this[of 4998] have "read_loop 5001 4104 0 5000 [] ex_large = Inr (0, ?b1 @ ?b2, ex_large)" by simp
  moreover have "f_size 4104 ex_large = 5000" by (simp add: file_size ex_large_words)
  ultimately have "file_read 4104 5000 0 ex_large = Inr (5000, ?b1 @ ?b2, ex_large)" by (simp add: file_read_def in_i32_def del: read_loop.simps)
  moreover have "length (?b1 @ ?b2) = 5000" by (simp add: get_bytes_def)
  ultimately show ?thesis by blast
qed

theorem large_read_overruns_witness:
  "user_read [devfile (\<lambda>_. 0)] 0 5000 (ex_world\<lparr>sv := (sv ex_world)\<lparr>sv_fs := ex_large, fdpages := [\<lparr>fd_dev_id = DEVFILE_ID, fd_offset = 0, fd_omode = O_RDWR, fd_file_id = 1024\<rparr>]\<rparr>\<rparr>) = Inl OutOfBounds"
  (is "user_read _ 0 5000 ?w = _")
proof -
  obtain bytes where "file_read 4104 5000 0 ex_large = Inr (5000, bytes, ex_large)" "length bytes = 5000" using ex_large_read by blast
  moreover have "opened 0 0 4104 ?w" "position 0 ?w = 0" "sv_fs (sv ?w) = ex_large"
    by (simp_all add: opened_def ex_world_def MAXFD_def MAXOPEN_def position_def)
  ultimately show ?thesis by (intro large_read_overruns[of 0 0 4104 ?w 5000 5000 bytes]) simp_all
qed

end
