(* ===== verification/Fork.thy ===== *)
theory Fork
  imports Prelude
begin

text \<open>
  Copy-on-write \<open>fork\<close> of JOS (\<open>os_final_project/code/lib/fork.c\<close>). The state is what its system calls work on: the mappings of every
  environment, from page numbers to a frame and its permissions, the contents of the frames, and the frames that are not in use. The
  system calls are those of \<open>JosSyscall\<close>, on this state: what they return, and what they change when they succeed. Pages that are
  on disk, and frames that are given back, are left out.
\<close>

section \<open>Address spaces\<close>

definition UPTE_P :: u32 where "UPTE_P = 0x001"
definition UPTE_W :: u32 where "UPTE_W = 0x002"
definition UPTE_U :: u32 where "UPTE_U = 0x004"
definition PTE_COW :: u32 where "PTE_COW = 0x800"
definition PTE_SHARE :: u32 where "PTE_SHARE = 0x400"
definition UPTE_SYSCALL :: u32 where "UPTE_SYSCALL = 0xE07"
definition FEC_WR :: u32 where "FEC_WR = 2"
definition FEC_U :: u32 where "FEC_U = 4"

text \<open>Page numbers of \<open>USTACKTOP\<close> and \<open>PFTEMP\<close>, and of the exception stack.\<close>

definition USTACK_PAGES :: nat where "USTACK_PAGES = 0xEEBFE"
definition PFTEMP_PAGE :: nat where "PFTEMP_PAGE = 0x7FF"
definition UXSTACK_PAGE :: nat where "UXSTACK_PAGE = 0xEEBFF"

record mapping =
  m_frame :: nat
  m_perm :: u32

record machine =
  spaces :: "nat \<Rightarrow> nat \<Rightarrow> mapping option"
  contents :: "nat \<Rightarrow> nat \<Rightarrow> u8"
  free_frames :: "nat list"

definition map_at :: "nat \<Rightarrow> nat \<Rightarrow> mapping option \<Rightarrow> machine \<Rightarrow> machine" where
  "map_at e pn t m = m\<lparr>spaces := (spaces m)(e := (spaces m e)(pn := t))\<rparr>"

definition uvpt :: "nat \<Rightarrow> nat \<Rightarrow> machine \<Rightarrow> u32" where
  "uvpt e pn m = (case spaces m e pn of None \<Rightarrow> 0 | Some t \<Rightarrow> m_perm t)"

text \<open>The system calls; \<open>False\<close> is an error.\<close>

definition ucall_alloc :: "nat \<Rightarrow> nat \<Rightarrow> u32 \<Rightarrow> machine \<Rightarrow> bool \<times> machine" where
  "ucall_alloc e pn perm m = (case free_frames m of
     [] \<Rightarrow> (False, m)
   | f # fs \<Rightarrow> (True, map_at e pn (Some \<lparr>m_frame = f, m_perm = perm\<rparr>) (m\<lparr>free_frames := fs, contents := (contents m)(f := \<lambda>_. 0)\<rparr>)))"

definition ucall_map :: "nat \<Rightarrow> nat \<Rightarrow> nat \<Rightarrow> nat \<Rightarrow> u32 \<Rightarrow> machine \<Rightarrow> bool \<times> machine" where
  "ucall_map e1 p1 e2 p2 perm m = (case spaces m e1 p1 of
     None \<Rightarrow> (False, m)
   | Some t \<Rightarrow>
       if perm AND UPTE_U = 0 \<or> perm AND UPTE_P = 0 \<or> perm AND NOT UPTE_SYSCALL \<noteq> 0 \<or> perm AND UPTE_W \<noteq> 0 \<and> m_perm t AND UPTE_W = 0
       then (False, m)
       else (True, map_at e2 p2 (Some \<lparr>m_frame = m_frame t, m_perm = perm\<rparr>) m))"

definition ucall_unmap :: "nat \<Rightarrow> nat \<Rightarrow> machine \<Rightarrow> bool \<times> machine" where
  "ucall_unmap e pn m = (True, map_at e pn None m)"

text \<open>A system call whose error is a panic.\<close>

definition must :: "bool \<times> machine \<Rightarrow> machine c" where
  "must r = (if fst r then Inr (snd r) else Inl Panic)"

section \<open>The page fault handler\<close>

text \<open>\<open>e\<close> is the environment that runs. Its \<open>memcpy\<close> reads the page at fault, which must be mapped.\<close>

definition pgfault :: "nat \<Rightarrow> nat \<Rightarrow> u32 \<Rightarrow> machine \<Rightarrow> machine c" where
  "pgfault e pn err m =
     bindE (guardE Panic (err AND FEC_WR \<noteq> 0)) (\<lambda>_.
     bindE (must (ucall_alloc e PFTEMP_PAGE (UPTE_P OR UPTE_U OR UPTE_W) m)) (\<lambda>m.
     bindE (guardE Panic (uvpt e pn m AND UPTE_P \<noteq> 0)) (\<lambda>_.
     bindE (deref (spaces m e pn)) (\<lambda>src. bindE (deref (spaces m e PFTEMP_PAGE)) (\<lambda>dst.
     let m = m\<lparr>contents := (contents m)(m_frame dst := contents m (m_frame src))\<rparr>
     in bindE (must (ucall_map e PFTEMP_PAGE e pn (UPTE_P OR UPTE_U OR UPTE_W) m)) (\<lambda>m.
        must (ucall_unmap e PFTEMP_PAGE m)))))))"

text \<open>A store of the running program to a page: the processor stores or faults, and after the handler the store is repeated.\<close>

definition cpu_store :: "nat \<Rightarrow> nat \<Rightarrow> nat \<Rightarrow> u8 \<Rightarrow> machine \<Rightarrow> machine option" where
  "cpu_store e pn off b m =
     (if uvpt e pn m AND UPTE_P \<noteq> 0 \<and> uvpt e pn m AND UPTE_U \<noteq> 0 \<and> uvpt e pn m AND UPTE_W \<noteq> 0
      then map_option (\<lambda>t. m\<lparr>contents := (contents m)(m_frame t := (contents m (m_frame t))(off := b))\<rparr>) (spaces m e pn)
      else None)"

definition user_store :: "nat \<Rightarrow> nat \<Rightarrow> nat \<Rightarrow> u8 \<Rightarrow> machine \<Rightarrow> machine c" where
  "user_store e pn off b m = (case cpu_store e pn off b m of
     Some m \<Rightarrow> Inr m
   | None \<Rightarrow>
       bindE (pgfault e pn (FEC_WR OR FEC_U) m) (\<lambda>m. case cpu_store e pn off b m of Some m \<Rightarrow> Inr m | None \<Rightarrow> Inl Diverges))"

text \<open>The byte a program sees.\<close>

definition user_view :: "machine \<Rightarrow> nat \<Rightarrow> nat \<Rightarrow> nat \<Rightarrow> u8 option" where
  "user_view m e pn off = map_option (\<lambda>t. contents m (m_frame t) off) (spaces m e pn)"

section \<open>fork\<close>

definition duppage :: "nat \<Rightarrow> nat \<Rightarrow> nat \<Rightarrow> machine \<Rightarrow> machine c" where
  "duppage e child pn m =
     (if (uvpt e pn m AND UPTE_W \<noteq> 0 \<or> uvpt e pn m AND PTE_COW \<noteq> 0) \<and> uvpt e pn m AND PTE_SHARE = 0
      then bindE (must (ucall_map e pn child pn (UPTE_P OR PTE_COW OR UPTE_U) m)) (\<lambda>m.
           must (ucall_map child pn e pn (UPTE_P OR PTE_COW OR UPTE_U) m))
      else Inr (snd (ucall_map e pn child pn (uvpt e pn m AND UPTE_SYSCALL) m)))"

text \<open>The loop of \<open>fork\<close>, with \<open>k\<close> pages from \<open>pn\<close> on.\<close>

fun dup_pages :: "nat \<Rightarrow> nat \<Rightarrow> nat \<Rightarrow> nat \<Rightarrow> machine \<Rightarrow> machine c" where
  "dup_pages 0 pn e child m = Inr m"
| "dup_pages (Suc k) pn e child m =
     bindE (if uvpt e pn m AND UPTE_P \<noteq> 0 \<and> uvpt e pn m AND UPTE_U \<noteq> 0 then duppage e child pn m else Inr m)
       (dup_pages k (pn + 1) e child)"

text \<open>\<open>fork\<close> of \<open>e\<close>, to which \<open>sys_exofork\<close> gave \<open>child\<close>, an environment with nothing mapped.\<close>

definition user_fork :: "nat \<Rightarrow> nat \<Rightarrow> machine \<Rightarrow> machine c" where
  "user_fork e child m =
     bindE (dup_pages USTACK_PAGES 0 e child m) (\<lambda>m.
     must (ucall_alloc child UXSTACK_PAGE (UPTE_U OR UPTE_W OR UPTE_P) m))"

end
