(* ===== verification/ForkProps.thy ===== *)
theory ForkProps
  imports Fork
begin

text \<open>After \<open>fork\<close> parent and child have the memory the parent had, and neither sees what the other stores.\<close>

lemmas perm_defs = UPTE_P_def UPTE_W_def UPTE_U_def PTE_COW_def PTE_SHARE_def UPTE_SYSCALL_def FEC_WR_def FEC_U_def

definition cow_perm :: u32 where "cow_perm = UPTE_P OR PTE_COW OR UPTE_U"
definition own_perm :: u32 where "own_perm = UPTE_P OR UPTE_U OR UPTE_W"

lemma perm_tests:
  "cow_perm AND UPTE_U \<noteq> 0" "cow_perm AND UPTE_P \<noteq> 0"
  "cow_perm AND NOT UPTE_SYSCALL = 0" "cow_perm AND UPTE_W = 0"
  "own_perm AND UPTE_U \<noteq> 0" "own_perm AND UPTE_P \<noteq> 0"
  "own_perm AND NOT UPTE_SYSCALL = 0" "own_perm AND UPTE_W \<noteq> 0"
  "(FEC_WR OR FEC_U) AND FEC_WR \<noteq> 0"
  by (simp_all add: perm_defs cow_perm_def own_perm_def)

lemma perm_masked:
  "(p AND UPTE_SYSCALL) AND UPTE_U = p AND UPTE_U" "(p AND UPTE_SYSCALL) AND UPTE_P = p AND UPTE_P"
  "(p AND UPTE_SYSCALL) AND NOT UPTE_SYSCALL = 0" "(p AND UPTE_SYSCALL) AND UPTE_W = p AND UPTE_W"
  by (simp_all add: and.assoc) (simp_all add: perm_defs)

section \<open>The loop of fork\<close>

definition needs_cow :: "mapping \<Rightarrow> bool" where "needs_cow t \<longleftrightarrow> m_perm t AND UPTE_W \<noteq> 0 \<or> m_perm t AND PTE_COW \<noteq> 0"

definition cowed :: "mapping \<Rightarrow> mapping" where
  "cowed t = (if needs_cow t then \<lparr>m_frame = m_frame t, m_perm = cow_perm\<rparr> else t)"

definition child_of :: "mapping \<Rightarrow> mapping" where
  "child_of t = (if needs_cow t then \<lparr>m_frame = m_frame t, m_perm = cow_perm\<rparr> else \<lparr>m_frame = m_frame t, m_perm = m_perm t AND UPTE_SYSCALL\<rparr>)"

text \<open>A mapping of a program that is not shared on purpose.\<close>

definition user_page :: "mapping \<Rightarrow> bool" where
  "user_page t \<longleftrightarrow> m_perm t AND UPTE_P \<noteq> 0 \<and> m_perm t AND UPTE_U \<noteq> 0"

lemma cowed_props: "user_page t \<Longrightarrow> user_page (cowed t)" "user_page t \<Longrightarrow> user_page (child_of t)"
  "m_perm (cowed t) AND UPTE_W = 0" "m_perm (child_of t) AND UPTE_W = 0" "m_frame (cowed t) = m_frame t" "m_frame (child_of t) = m_frame t"
  by (auto simp: cowed_def child_of_def user_page_def needs_cow_def perm_tests perm_masked)

lemma duppage_mapped:
  assumes "spaces m e pn = Some t" "user_page t" "m_perm t AND PTE_SHARE = 0" "e \<noteq> child"
  shows "duppage e child pn m = Inr (map_at e pn (Some (cowed t)) (map_at child pn (Some (child_of t)) m))"
proof (cases "needs_cow t")
  case True
  then show ?thesis
    using assms unfolding duppage_def cow_perm_def[symmetric]
    by (simp add: uvpt_def ucall_map_def must_def perm_tests map_at_def cowed_def child_of_def needs_cow_def)
next
  case False
  then have "(spaces m)(child := (spaces m child)(pn := x), e := (spaces m e)(pn := Some t)) = (spaces m)(child := (spaces m child)(pn := x))" for x
    using assms(1,4) by (auto simp: fun_eq_iff)
  with False show ?thesis
    using assms by (simp add: duppage_def uvpt_def ucall_map_def perm_masked map_at_def cowed_def child_of_def needs_cow_def user_page_def)
qed

text \<open>\<open>m'\<close> is \<open>m\<close> with the pages \<open>Q\<close> of \<open>e\<close> in \<open>child\<close> as well.\<close>

definition duplicated :: "nat set \<Rightarrow> nat \<Rightarrow> nat \<Rightarrow> machine \<Rightarrow> machine \<Rightarrow> bool" where
  "duplicated Q e child m m' \<longleftrightarrow> contents m' = contents m \<and> free_frames m' = free_frames m \<and>
    (\<forall>q. spaces m' e q = (if q \<in> Q then map_option cowed (spaces m e q) else spaces m e q)) \<and>
    (\<forall>q. spaces m' child q = (if q \<in> Q \<and> spaces m e q \<noteq> None then map_option child_of (spaces m e q) else spaces m child q))"

lemma duplicated_none:
  "duplicated Q e child m m' \<Longrightarrow> spaces m e pn = None \<Longrightarrow> duplicated (insert pn Q) e child m m'"
  by (auto simp: duplicated_def)

lemma duplicated_some:
  assumes "duplicated Q e child (map_at e pn (Some (cowed t)) (map_at child pn (Some (child_of t)) m)) m'"
    "spaces m e pn = Some t" "pn \<notin> Q" "e \<noteq> child"
  shows "duplicated (insert pn Q) e child m m'"
  unfolding duplicated_def
proof (intro conjI allI)
  fix q
  show "contents m' = contents m" "free_frames m' = free_frames m" using assms(1) by (simp_all add: duplicated_def map_at_def)
  show "spaces m' e q = (if q \<in> insert pn Q then map_option cowed (spaces m e q) else spaces m e q)"
    using assms by (cases "q = pn") (auto simp: duplicated_def map_at_def)
  show "spaces m' child q = (if q \<in> insert pn Q \<and> spaces m e q \<noteq> None then map_option child_of (spaces m e q) else spaces m child q)"
    using assms by (cases "q = pn") (auto simp: duplicated_def map_at_def)
qed

lemma dup_pages_maps:
  assumes "e \<noteq> child" "\<forall>q \<in> {pn..<pn + k}. \<forall>t. spaces m e q = Some t \<longrightarrow> user_page t \<and> m_perm t AND PTE_SHARE = 0"
  shows "\<exists>m'. dup_pages k pn e child m = Inr m' \<and> duplicated {pn..<pn + k} e child m m'"
  using assms(2)
proof (induction k arbitrary: pn m)
  case 0
  then show ?case by (auto simp: duplicated_def)
next
  case (Suc k)
  have range: "{pn..<pn + Suc k} = insert pn {pn + 1..<pn + 1 + k}" by auto
  show ?case
  proof (cases "spaces m e pn")
    case None
    then have step: "dup_pages (Suc k) pn e child m = dup_pages k (pn + 1) e child m" by (simp add: uvpt_def)
    have "\<forall>q \<in> {pn + 1..<pn + 1 + k}. \<forall>t. spaces m e q = Some t \<longrightarrow> user_page t \<and> m_perm t AND PTE_SHARE = 0"
      using Suc.prems by auto
    from Suc.IH[OF this] show ?thesis unfolding step range using duplicated_none[OF _ None] by blast
  next
    case (Some t)
    let ?m = "map_at e pn (Some (cowed t)) (map_at child pn (Some (child_of t)) m)"
    have t: "user_page t" "m_perm t AND PTE_SHARE = 0" using Suc.prems Some by auto
    have step: "dup_pages (Suc k) pn e child m = dup_pages k (pn + 1) e child ?m"
      using duppage_mapped[OF Some t assms(1)] t Some by (simp add: uvpt_def user_page_def)
    have "\<forall>q \<in> {pn + 1..<pn + 1 + k}. \<forall>t. spaces ?m e q = Some t \<longrightarrow> user_page t \<and> m_perm t AND PTE_SHARE = 0"
      using Suc.prems assms(1) by (auto simp: map_at_def)
    from Suc.IH[OF this] obtain m' where "dup_pages k (pn + 1) e child ?m = Inr m'" "duplicated {pn + 1..<pn + 1 + k} e child ?m m'" by blast
    with duplicated_some[OF _ Some _ assms(1)] show ?thesis unfolding step range by auto
  qed
qed

section \<open>Stores\<close>

text \<open>
  The environments \<open>E\<close> do not see each other's stores: a frame that can be written is mapped once, and the frames that are free are
  not mapped.
\<close>

definition apart :: "nat set \<Rightarrow> machine \<Rightarrow> bool" where
  "apart E m \<longleftrightarrow>
    (\<forall>x \<in> E. \<forall>q t. q < USTACK_PAGES \<and> spaces m x q = Some t \<longrightarrow> user_page t \<and> m_frame t \<notin> set (free_frames m)) \<and>
    (\<forall>x \<in> E. \<forall>y \<in> E. \<forall>q r t u. q < USTACK_PAGES \<and> r < USTACK_PAGES \<and> spaces m x q = Some t \<and> spaces m y r = Some u \<and>
       m_perm t AND UPTE_W \<noteq> 0 \<and> m_frame t = m_frame u \<longrightarrow> x = y \<and> q = r) \<and>
    (\<forall>x \<in> E. spaces m x PFTEMP_PAGE = None) \<and> distinct (free_frames m)"

lemma apartD:
  assumes "apart E m" "x \<in> E" "q < USTACK_PAGES" "spaces m x q = Some t"
  shows "user_page t" "m_frame t \<notin> set (free_frames m)"
  using assms by (auto simp: apart_def)

lemma apart_excl:
  assumes "apart E m" "x \<in> E" "y \<in> E" "q < USTACK_PAGES" "r < USTACK_PAGES" "spaces m x q = Some t" "spaces m y r = Some u"
    "m_perm t AND UPTE_W \<noteq> 0" "m_frame t = m_frame u"
  shows "x = y \<and> q = r"
  using assms unfolding apart_def by blast

text \<open>What a store does: the byte changes for \<open>x\<close> at \<open>q\<close> and for nobody else.\<close>

definition stored :: "nat set \<Rightarrow> nat \<Rightarrow> nat \<Rightarrow> nat \<Rightarrow> u8 \<Rightarrow> machine \<Rightarrow> machine \<Rightarrow> bool" where
  "stored E x q off b m m' \<longleftrightarrow> (\<forall>y \<in> E. \<forall>r < USTACK_PAGES. \<forall>i.
     user_view m' y r i = (if y = x \<and> r = q \<and> i = off then Some b else user_view m y r i))"

lemma apart_contents: "apart E (m\<lparr>contents := c\<rparr>) = apart E m"
  unfolding apart_def by simp

lemma store_writable:
  assumes "apart E m" "x \<in> E" "q < USTACK_PAGES" "spaces m x q = Some t" "m_perm t AND UPTE_W \<noteq> 0"
  shows "\<exists>m'. user_store x q off b m = Inr m' \<and> apart E m' \<and> stored E x q off b m m' \<and> free_frames m' = free_frames m"
proof -
  let ?m = "m\<lparr>contents := (contents m)(m_frame t := (contents m (m_frame t))(off := b))\<rparr>"
  have "user_store x q off b m = Inr ?m"
    using assms(4,5) apartD(1)[OF assms(1-4)] by (simp add: user_store_def cpu_store_def uvpt_def user_page_def)
  moreover have "apart E ?m" using assms(1) by (simp only: apart_contents)
  moreover have "stored E x q off b m ?m"
    unfolding stored_def
  proof (intro ballI allI impI)
    fix y r i assume y: "y \<in> E" "r < USTACK_PAGES"
    show "user_view ?m y r i = (if y = x \<and> r = q \<and> i = off then Some b else user_view m y r i)"
    proof (cases "spaces m y r")
      case None
      then show ?thesis using assms(4) by (auto simp: user_view_def)
    next
      case (Some u)
      have "m_frame t = m_frame u \<longleftrightarrow> y = x \<and> r = q"
        using apart_excl[OF assms(1,2) y(1) assms(3) y(2) assms(4) Some assms(5)] Some assms(4) by auto
      with Some show ?thesis by (auto simp: user_view_def)
    qed
  qed
  ultimately show ?thesis by auto
qed

text \<open>The state after the handler has made a copy in the frame \<open>f\<close>.\<close>

definition copied :: "nat \<Rightarrow> nat \<Rightarrow> nat \<Rightarrow> nat list \<Rightarrow> nat \<Rightarrow> machine \<Rightarrow> machine" where
  "copied x q f fs g m = m\<lparr>spaces := (spaces m)(x := (spaces m x)(q := Some \<lparr>m_frame = f, m_perm = own_perm\<rparr>, PFTEMP_PAGE := None)),
     contents := (contents m)(f := contents m g), free_frames := fs\<rparr>"

lemma pgfault_copies:
  assumes "spaces m x q = Some t" "user_page t" "free_frames m = f # fs" "m_frame t \<noteq> f" "q \<noteq> PFTEMP_PAGE" "spaces m x PFTEMP_PAGE = None"
  shows "pgfault x q (FEC_WR OR FEC_U) m = Inr (copied x q f fs (m_frame t) m)"
proof -
  have "(spaces m)(x := (spaces m x)(PFTEMP_PAGE := a, q := c, PFTEMP_PAGE := None)) =
      (spaces m)(x := (spaces m x)(q := c, PFTEMP_PAGE := None))" for a c
    using assms(5) by (auto simp: fun_eq_iff)
  moreover have "FEC_WR \<noteq> 0" by (simp add: FEC_WR_def)
  ultimately show ?thesis
    using assms unfolding pgfault_def own_perm_def[symmetric]
    by (simp add: perm_tests ucall_alloc_def ucall_map_def ucall_unmap_def must_def map_at_def uvpt_def user_page_def copied_def)
qed

lemma apart_copied:
  assumes "apart E m" "x \<in> E" "q < USTACK_PAGES" "free_frames m = f # fs"
  shows "apart E (copied x q f fs g m)"
proof -
  let ?m = "copied x q f fs g m"
  have f: "f \<notin> set fs" "distinct fs" "free_frames ?m = fs" using assms(1,4) by (simp_all add: apart_def copied_def)
  have entry: "(\<exists>u. y = x \<and> r = q \<and> u = t \<and> m_frame t = f \<and> m_perm t = own_perm) \<or> \<not> (y = x \<and> r = q) \<and> spaces m y r = Some t \<and> m_frame t \<noteq> f \<and> user_page t \<and> m_frame t \<notin> set fs"
    if "y \<in> E" "r < USTACK_PAGES" "spaces ?m y r = Some t" for y r t
  proof -
    have "spaces ?m y r = (if y = x \<and> r = PFTEMP_PAGE then None else if y = x \<and> r = q then Some \<lparr>m_frame = f, m_perm = own_perm\<rparr> else spaces m y r)"
      by (simp add: copied_def)
    with that apartD[OF assms(1) that(1,2), of t] assms(4) show ?thesis by (auto split: if_splits)
  qed
  show ?thesis
    unfolding apart_def f(3)
  proof (intro conjI ballI allI impI)
    fix y r t assume y: "y \<in> E" and r: "r < USTACK_PAGES \<and> spaces ?m y r = Some t"
    show "user_page t" "m_frame t \<notin> set fs" using entry[OF y, of r t] r f(1) by (auto simp: user_page_def perm_tests)
  next
    fix y z r s t u assume yz: "y \<in> E" "z \<in> E"
      and h: "r < USTACK_PAGES \<and> s < USTACK_PAGES \<and> spaces ?m y r = Some t \<and> spaces ?m z s = Some u \<and> m_perm t AND UPTE_W \<noteq> 0 \<and> m_frame t = m_frame u"
    have "spaces m y r = Some t \<and> spaces m z s = Some u \<or> y = x \<and> r = q \<and> z = x \<and> s = q"
      using entry[OF yz(1), of r t] entry[OF yz(2), of s u] h by metis
    then show "y = z" "r = s" using apart_excl[OF assms(1) yz, of r s t u] h by auto
  next
    fix y assume "y \<in> E"
    then show "spaces ?m y PFTEMP_PAGE = None" using assms(1) by (auto simp: copied_def apart_def)
  qed (rule f(2))
qed

lemma stored_trans:
  assumes "\<forall>y \<in> E. \<forall>r < USTACK_PAGES. \<forall>i. user_view m1 y r i = user_view m y r i" "stored E x q off b m1 m'"
  shows "stored E x q off b m m'"
  using assms by (simp add: stored_def)

lemma store_faults:
  assumes "apart E m" "x \<in> E" "q < USTACK_PAGES" "spaces m x q = Some t" "m_perm t AND UPTE_W = 0" "free_frames m = f # fs"
  shows "\<exists>m'. user_store x q off b m = Inr m' \<and> apart E m' \<and> stored E x q off b m m' \<and> free_frames m' = fs"
proof -
  let ?m = "copied x q f fs (m_frame t) m"
  have t: "user_page t" "m_frame t \<noteq> f" using apartD[OF assms(1-4)] assms(6) by auto
  have temp: "spaces m x PFTEMP_PAGE = None" using assms(1,2) by (auto simp: apart_def)
  have q: "q \<noteq> PFTEMP_PAGE" using temp assms(4) by auto
  have ap: "apart E ?m" by (rule apart_copied[OF assms(1-3,6)])
  have new: "spaces ?m x q = Some \<lparr>m_frame = f, m_perm = own_perm\<rparr>" using q by (simp add: copied_def)
  have same: "\<forall>y \<in> E. \<forall>r < USTACK_PAGES. \<forall>i. user_view ?m y r i = user_view m y r i"
  proof (intro ballI allI impI)
    fix y r i assume y: "y \<in> E" "r < USTACK_PAGES"
    have "m_frame u \<noteq> f" if "spaces m y r = Some u" for u using apartD(2)[OF assms(1) y that] assms(6) by auto
    then show "user_view ?m y r i = user_view m y r i"
      using assms(4) temp by (cases "spaces m y r"; cases "y = x \<and> r = q"; cases "y = x \<and> r = PFTEMP_PAGE") (auto simp: user_view_def copied_def)
  qed
  have "user_store x q off b ?m = user_store x q off b m"
  proof -
    have "cpu_store x q off b m = None" using assms(4,5) by (simp add: cpu_store_def uvpt_def)
    moreover have "\<exists>m2. cpu_store x q off b ?m = Some m2" using new by (simp add: cpu_store_def uvpt_def perm_tests)
    ultimately show ?thesis using pgfault_copies[OF assms(4) t(1) assms(6) t(2) q temp] by (auto simp: user_store_def)
  qed
  moreover have "\<exists>m'. user_store x q off b ?m = Inr m' \<and> apart E m' \<and> stored E x q off b ?m m' \<and> free_frames m' = free_frames ?m"
    using store_writable[OF ap assms(2,3) new] by (simp add: perm_tests)
  moreover have "free_frames ?m = fs" by (simp add: copied_def)
  ultimately show ?thesis using stored_trans[OF same] by auto
qed

lemma store_ok:
  assumes "apart E m" "x \<in> E" "q < USTACK_PAGES" "spaces m x q \<noteq> None" "free_frames m \<noteq> []"
  shows "\<exists>m'. user_store x q off b m = Inr m' \<and> apart E m' \<and> stored E x q off b m m' \<and> length (free_frames m) \<le> length (free_frames m') + 1"
proof -
  obtain t where t: "spaces m x q = Some t" using assms(4) by blast
  obtain f fs where f: "free_frames m = f # fs" using assms(5) by (cases "free_frames m") auto
  show ?thesis
    using store_writable[OF assms(1-3) t, of off b] store_faults[OF assms(1-3) t _ f, of off b] f by (cases "m_perm t AND UPTE_W = 0") auto
qed

text \<open>Stores one after another, and what one of the environments should see of them.\<close>

fun user_stores :: "(nat \<times> nat \<times> nat \<times> u8) list \<Rightarrow> machine \<Rightarrow> machine c" where
  "user_stores [] m = Inr m"
| "user_stores ((x, q, off, b) # ops) m = bindE (user_store x q off b m) (user_stores ops)"

fun own_stores :: "nat \<Rightarrow> (nat \<times> nat \<times> nat \<times> u8) list \<Rightarrow> (nat \<Rightarrow> nat \<Rightarrow> u8 option) \<Rightarrow> nat \<Rightarrow> nat \<Rightarrow> u8 option" where
  "own_stores x [] v = v"
| "own_stores x ((y, q, off, b) # ops) v = own_stores x ops (if y = x then v(q := (v q)(off := Some b)) else v)"

lemma own_stores_cong:
  "\<forall>r < USTACK_PAGES. \<forall>i. v r i = w r i \<Longrightarrow> r < USTACK_PAGES \<Longrightarrow> own_stores x ops v r i = own_stores x ops w r i"
proof (induction ops arbitrary: v w)
  case (Cons op ops)
  obtain y q off b where op: "op = (y, q, off, b)" by (cases op)
  have "\<forall>r < USTACK_PAGES. \<forall>i. (if y = x then v(q := (v q)(off := Some b)) else v) r i = (if y = x then w(q := (w q)(off := Some b)) else w) r i"
    using Cons.prems(1) by simp
  from Cons.IH[OF this Cons.prems(2)] show ?case by (simp add: op)
qed simp

lemma user_stores_ok:
  "apart E m \<Longrightarrow> length ops \<le> length (free_frames m) \<Longrightarrow>
   \<forall>(x, q, off, b) \<in> set ops. x \<in> E \<and> q < USTACK_PAGES \<and> user_view m x q 0 \<noteq> None \<Longrightarrow>
   \<exists>m'. user_stores ops m = Inr m' \<and> (\<forall>x \<in> E. \<forall>r < USTACK_PAGES. \<forall>i. user_view m' x r i = own_stores x ops (user_view m x) r i)"
proof (induction ops arbitrary: m)
  case (Cons op ops)
  obtain x q off b where op: "op = (x, q, off, b)" by (cases op)
  have x: "x \<in> E" "q < USTACK_PAGES" "spaces m x q \<noteq> None" using Cons.prems(3) by (auto simp: op user_view_def)
  have "free_frames m \<noteq> []" using Cons.prems(2) by auto
  from store_ok[OF Cons.prems(1) x this] obtain m1
    where m1: "user_store x q off b m = Inr m1" "apart E m1" "stored E x q off b m m1" "length (free_frames m) \<le> length (free_frames m1) + 1" by blast
  have "length ops \<le> length (free_frames m1)" using m1(4) Cons.prems(2) by simp
  moreover have keep: "user_view m1 y r 0 \<noteq> None" if "y \<in> E" "r < USTACK_PAGES" "user_view m y r 0 \<noteq> None" for y r
    using m1(3) that unfolding stored_def by simp
  have "\<forall>(y, r, i, c) \<in> set ops. y \<in> E \<and> r < USTACK_PAGES \<and> user_view m1 y r 0 \<noteq> None"
  proof (rule ballI)
    fix op' assume "op' \<in> set ops"
    then have "op' \<in> set (op # ops)" by simp
    with Cons.prems(3) have "case op' of (y, r, i, c) \<Rightarrow> y \<in> E \<and> r < USTACK_PAGES \<and> user_view m y r 0 \<noteq> None" by (rule bspec)
    then show "case op' of (y, r, i, c) \<Rightarrow> y \<in> E \<and> r < USTACK_PAGES \<and> user_view m1 y r 0 \<noteq> None"
      using keep by (simp add: case_prod_beta)
  qed
  ultimately obtain m' where m': "user_stores ops m1 = Inr m'" "\<forall>x \<in> E. \<forall>r < USTACK_PAGES. \<forall>i. user_view m' x r i = own_stores x ops (user_view m1 x) r i"
    using Cons.IH[OF m1(2)] by blast
  have "user_view m' y r i = own_stores y (op # ops) (user_view m y) r i" if y: "y \<in> E" "r < USTACK_PAGES" for y r i
  proof -
    have "\<forall>r < USTACK_PAGES. \<forall>i. user_view m1 y r i = (if x = y then (user_view m y)(q := (user_view m y q)(off := Some b)) else user_view m y) r i"
      using m1(3) y(1) by (auto simp: stored_def)
    from own_stores_cong[OF this y(2)] show ?thesis using m'(2) y by (simp add: op)
  qed
  with m1(1) m'(1) show ?case by (auto simp: op)
qed simp

section \<open>fork\<close>

text \<open>What \<open>fork\<close> needs of the parent, and of the child it got from \<open>sys_exofork\<close>.\<close>

definition fork_ready :: "nat \<Rightarrow> nat \<Rightarrow> machine \<Rightarrow> bool" where
  "fork_ready e child m \<longleftrightarrow> e \<noteq> child \<and> spaces m child = (\<lambda>_. None) \<and> spaces m e PFTEMP_PAGE = None \<and> distinct (free_frames m) \<and>
    (\<forall>q < USTACK_PAGES. \<forall>t. spaces m e q = Some t \<longrightarrow> user_page t \<and> m_perm t AND PTE_SHARE = 0 \<and> m_frame t \<notin> set (free_frames m))"

lemma fork_apart:
  assumes "fork_ready e child m" "free_frames m = f # fs"
  shows "\<exists>m'. user_fork e child m = Inr m' \<and> apart {e, child} m' \<and> free_frames m' = fs \<and>
    (\<forall>x \<in> {e, child}. \<forall>r < USTACK_PAGES. \<forall>i. user_view m' x r i = user_view m e r i)"
proof -
  have ready: "e \<noteq> child" "\<forall>q \<in> {0..<0 + USTACK_PAGES}. \<forall>t. spaces m e q = Some t \<longrightarrow> user_page t \<and> m_perm t AND PTE_SHARE = 0"
    using assms(1) by (auto simp: fork_ready_def)
  from dup_pages_maps[OF ready] obtain m1 where m1: "dup_pages USTACK_PAGES 0 e child m = Inr m1" "duplicated {0..<USTACK_PAGES} e child m m1" by auto
  have old: "user_page t" "m_frame t \<notin> set (free_frames m)" if "q < USTACK_PAGES" "spaces m e q = Some t" for q t
    using assms(1) that by (auto simp: fork_ready_def)
  let ?m = "map_at child UXSTACK_PAGE (Some \<lparr>m_frame = f, m_perm = UPTE_U OR UPTE_W OR UPTE_P\<rparr>) (m1\<lparr>free_frames := fs, contents := (contents m1)(f := \<lambda>_. 0)\<rparr>)"
  have free: "free_frames m1 = f # fs" "contents m1 = contents m" using m1(2) assms(2) by (simp_all add: duplicated_def)
  have fork: "user_fork e child m = Inr ?m"
    using m1(1) free(1) by (simp add: user_fork_def ucall_alloc_def must_def)
  have high: "\<not> UXSTACK_PAGE < USTACK_PAGES" "PFTEMP_PAGE < USTACK_PAGES" by (simp_all add: UXSTACK_PAGE_def USTACK_PAGES_def PFTEMP_PAGE_def)
  have entry: "spaces ?m x q = map_option (if x = e then cowed else child_of) (spaces m e q)" if "x \<in> {e, child}" "q < USTACK_PAGES" for x q
  proof -
    have "q \<noteq> UXSTACK_PAGE" using that high by auto
    moreover have "spaces m child q = None" using assms(1) by (simp add: fork_ready_def)
    ultimately show ?thesis using m1(2) that ready(1) by (auto simp: duplicated_def map_at_def)
  qed
  have "apart {e, child} ?m"
    unfolding apart_def
  proof (intro conjI ballI allI impI)
    fix x q t assume x: "x \<in> {e, child}" and q: "q < USTACK_PAGES \<and> spaces ?m x q = Some t"
    then have "map_option (if x = e then cowed else child_of) (spaces m e q) = Some t" using entry[OF x, of q] by metis
    then obtain u where "spaces m e q = Some u" "t = (if x = e then cowed u else child_of u)" by (auto simp: map_option_eq_Some)
    then show "user_page t" "m_frame t \<notin> set (free_frames ?m)"
      using old[of q u] q cowed_props(1,2,5,6)[of u] assms(2) by (auto simp: map_at_def)
  next
    fix x y q r t u assume x: "x \<in> {e, child}" and h: "q < USTACK_PAGES \<and> r < USTACK_PAGES \<and> spaces ?m x q = Some t \<and> spaces ?m y r = Some u \<and>
       m_perm t AND UPTE_W \<noteq> 0 \<and> m_frame t = m_frame u"
    then have "map_option (if x = e then cowed else child_of) (spaces m e q) = Some t" using entry[OF x, of q] by metis
    then obtain v where "t = cowed v \<or> t = child_of v" by (auto simp: map_option_eq_Some split: if_splits)
    with h have False using cowed_props(3,4)[of v] by auto
    then show "x = y" "q = r" by simp_all
  next
    fix x assume "x \<in> {e, child}"
    then show "spaces ?m x PFTEMP_PAGE = None" using entry[OF _ high(2), of x] assms(1) by (simp add: fork_ready_def)
  next
    show "distinct (free_frames ?m)" using assms by (simp add: fork_ready_def map_at_def)
  qed
  moreover have "user_view ?m x r i = user_view m e r i" if "x \<in> {e, child}" "r < USTACK_PAGES" for x r i
  proof (cases "spaces m e r")
    case None
    then show ?thesis using entry[OF that] by (simp add: user_view_def)
  next
    case (Some t)
    have "m_frame t \<noteq> f" using old(2)[OF that(2) Some] assms(2) by auto
    with Some show ?thesis using entry[OF that] free(2) cowed_props(5,6)[of t] by (simp add: user_view_def) (simp add: map_at_def)
  qed
  moreover have "free_frames ?m = fs" by (simp add: map_at_def)
  ultimately show ?thesis using fork by blast
qed


text \<open>A parent with a page of data, which can be written, and a page of text, which cannot.\<close>

definition ex_machine :: machine where
  "ex_machine = \<lparr>spaces = (\<lambda>_ _. None)(1 := [8 \<mapsto> \<lparr>m_frame = 20, m_perm = 7\<rparr>, 9 \<mapsto> \<lparr>m_frame = 21, m_perm = 5\<rparr>]),
     contents = (\<lambda>_ _. 65), free_frames = [30, 31, 32]\<rparr>"


text \<open>
  The handler does not ask whether the page is copy-on-write: a store to a page that may only be read gives the program a copy it can
  write, so the text of a program is not protected from it.
\<close>

theorem read_only_pages_are_written:
  assumes "apart E m" "x \<in> E" "q < USTACK_PAGES" "spaces m x q = Some \<lparr>m_frame = f, m_perm = UPTE_P OR UPTE_U\<rparr>" "free_frames m \<noteq> []"
  shows "\<exists>m'. user_store x q off b m = Inr m' \<and> user_view m' x q off = Some b"
  using store_ok[OF assms(1-3) _ assms(5), of off b] assms(2,3,4) by (auto simp: stored_def)

end
