(* ===== verification/Spec2Isabelle.thy ===== *)
theory Spec2Isabelle
  imports CacheSimProofs VmProps LinkedListProps RtpTransfer AssemblerProofs SchedulerProps JosUpcall CPrintProps KDebugProps PipeProps ShellProps ConsoleProps ArgsProps MpConfigProps Spinlock EntryPgdir MonitorProps FdProps ForkProps
begin

text \<open>
  \<^bold>\<open>The program.\<close> The repository collects course projects. Its C programs fall into two groups. Under
  \<open>src/cs_2200\<close> there are simulators of a computer and its parts: an assembler (\<open>interupts/Assembly\<close>),
  a cache (\<open>caching/prj5\<close>), paged virtual memory (\<open>memory/prj4\<close>), a multiprocessor and its scheduler
  (\<open>scheduling/prj6\<close>), a transfer protocol (\<open>networking/prj7\<close>) and a list shared by threads
  (\<open>playground/threading\<close>). Under \<open>src/os_final_project/code\<close> there is an operating system, JOS, extended
  with paging to disk: kernel (\<open>kern\<close>), file system (\<open>fs\<close>) and library (\<open>lib\<close>). The programs of the
  first group do not call each other; the parts of JOS do.

  \<^bold>\<open>Conventions.\<close> A function of the code is a function of the same name from a state to a result in
  \<open>'a c\<close>, that is a fault (\<open>c_fault\<close>) or the value and the new state, sequenced by \<open>bindE\<close>. A fault is an
  action without a meaning in C (an access outside an array, a \<open>NULL\<close> pointer, a signed overflow), a failed
  \<open>assert\<close>, a kernel panic, an endless loop, or a wait for another thread. An error code that the C
  function returns is a value, not a fault. Machine integers are words; an \<open>int\<close> whose range matters is an
  integer with a guard \<open>in_i32\<close>.

  \<^bold>\<open>Shared theories.\<close>
  \<^item> \<open>Prelude\<close>: faults, sequencing, arrays, words. \<open>CLib\<close>: the string functions of the C library that the
    first group calls. \<open>Chains\<close>: singly linked lists through a link function.
  \<^item> \<open>Interfaces\<close>: the contracts as locales. \<open>guarded_machine\<close>, a step that cannot fault under an
    invariant, is interpreted on the cache; \<open>fifo\<close>, a queue, on the ready queue of the scheduler and on
    the list of the threads; \<open>block_allocator\<close> on the swap disk. \<open>memory_frame\<close> (in \<open>JosEnvProofs\<close>), the parts
    of a state that memory management leaves alone, is interpreted on the table of environments.

  \<^bold>\<open>Simulators.\<close>
  \<^item> \<open>CacheSim\<close> (\<open>cachesim.c\<close>, \<open>cachesim.h\<close>): state \<open>sim\<close>, operation \<open>cache_access\<close> and the run over a trace.
    \<open>CacheSimProofs\<close>: time stamps implement the order of use, so every trace gives the hits, misses and
    write backs of an LRU cache; the accounts of the statistics add up.
  \<^item> \<open>Vm\<close> (\<open>tlb.c\<close>, \<open>memory.c\<close>, \<open>page_replacement.c\<close>, \<open>pagetable.c\<close>, \<open>process.c\<close>, \<open>options.c\<close> and the command
    loop). \<open>VmProofs\<close>, \<open>VmAccess\<close>: the invariant of page tables, frames and TLB. \<open>VmRuns\<close>: a script whose pages fit
    into the frames runs as on a flat memory per process. \<open>VmProps\<close>: what holds when they do not fit, the
    clock sweep, and a store that a hit in the TLB loses.
  \<^item> \<open>LinkedList\<close> (\<open>threadsafeLinkedList.c\<close>): heap of nodes, the operations, and the threads as steps between
    lock operations. \<open>LinkedListProps\<close>: the list is a deque, frees all its nodes, and under every interleaving loses
    no element and misses no wakeup.
  \<^item> \<open>Rtp\<close> (\<open>rtp.c\<close>), \<open>RtpProofs\<close>, \<open>RtpTransfer\<close>: packets, checksum, sender and receiver over a network given as the list of
    what it does to each datagram; a message arrives. Sockets are not modelled.
  \<^item> \<open>Assembler\<close> (\<open>assemble32.c\<close>), \<open>AssemblerProofs\<close>: lexer, the two passes, the encoders; labels are addresses,
    branches reach them, and words decode to what was encoded.
  \<^item> \<open>Scheduler\<close> (\<open>student.c\<close>, \<open>os-sim.c\<close>, \<open>process.c\<close>): processes, CPUs, ready queue, I/O queue, and the
    supervisor. \<open>SchedulerProofs\<close>, \<open>SchedulerRuns\<close>, \<open>SchedulerProps\<close>: the reachable states, in which no process is
    lost, nothing faults, somebody can always move and no CPU sleeps on work.

  \<^bold>\<open>JOS.\<close> The state of the kernel is the record \<open>jos\<close>: physical memory by words, the array of \<open>PageInfo\<close>, the
  queue of frames in use (\<open>env_va_mapping\<close>), the swap disk and its bitmap, the environments, the console.
  \<^item> \<open>Jos\<close>, \<open>JosPages\<close> (\<open>pmap.c\<close>, \<open>paging_utils.c\<close>, \<open>env_free\<close>): page tables, allocation, eviction, return of a page
    on a fault. \<open>JosProofs\<close>, \<open>JosSwap\<close>: the bitmap allocates distinct blocks; a page comes back from disk as it was;
    allocation and eviction call each other and end (the fuel is the number of frames in the queue
    plus 2, and is shown to be enough while the queue is intact); a frame recorded twice makes the queue a cycle.
    \<open>JosMapping\<close>: \<open>user_mem_check\<close> and \<open>page_insert\<close> against the page tables.
  \<^item> \<open>JosEnv\<close> (\<open>env.c\<close>, \<open>sched.c\<close>), \<open>JosSyscall\<close> (\<open>syscall.c\<close>, \<open>trap.c\<close>, the buffer of \<open>console.c\<close>). \<open>JosEnvProofs\<close>,
    \<open>JosSyscallProofs\<close>: every system call and trap keeps the table of environments good; \<open>kernel_step\<close> is the
    relation of whole runs. \<open>JosSyscallProps\<close>, \<open>JosUpcall\<close>: permissions, fork, messages, the page fault upcall, and
    four ways for a user program to break the kernel. One CPU is in the kernel at a time (the big lock); the
    model is the view of that CPU.
  \<^item> \<open>JosFs\<close> (\<open>fs.c\<close>, \<open>bc.c\<close>): the disk laid out in the memory of the file server. \<open>JosFsBlocks\<close>, \<open>JosFsData\<close>:
    bitmap and block pointers stay consistent, and a file returns what was written. The loops over a
    range take the number of bytes left plus 1 as fuel, one for each block at most.
  \<^item> \<open>CString\<close>, \<open>CPrint\<close> (\<open>string.c\<close>, \<open>printfmt.c\<close>). \<open>CStringProps\<close>, \<open>CPrintProps\<close>: \<open>memmove\<close> for every overlap, buffers
    that are not overrun, numbers that read back, and the end of the formatting loop (fuel: the length of the
    format plus 3, shown to be enough).
\<close>

end
